(* ===== verification/Prelude.thy ===== *)
theory Prelude
  imports Main "HOL-Library.Word"
begin

text \<open>
  Shared vocabulary of the development: the machine integer types of the C sources as
  fixed-width words, byte buffers as lists of bytes, sub-buffer access, little-endian fields
  and NUL-terminated character arrays. The lemmas here are about these generic notions only;
  the theories of the components use them through the collections declared below.
\<close>

unbundle bit_operations_syntax

named_theorems buf_simps \<open>lengths and element access of byte buffers\<close>
named_theorems codec_simps \<open>decoding after encoding\<close>

type_synonym u8 = "8 word"
type_synonym u16 = "16 word"
type_synonym u32 = "32 word"
type_synonym u64 = "64 word"
type_synonym bytes = "u8 list"

subsection \<open>Sub-buffers\<close>

definition slice :: "nat \<Rightarrow> nat \<Rightarrow> 'a list \<Rightarrow> 'a list" where
  "slice off n xs = take n (drop off xs)"

definition overwrite :: "nat \<Rightarrow> 'a list \<Rightarrow> 'a list \<Rightarrow> 'a list" where
  "overwrite off ys xs = take off xs @ ys @ drop (off + length ys) xs"

lemma length_slice [buf_simps]: "length (slice off n xs) = min n (length xs - off)"
  by (simp add: slice_def)

lemma length_slice_in [simp]: "off + n \<le> length xs \<Longrightarrow> length (slice off n xs) = n"
  by (simp add: slice_def)

lemma nth_slice [buf_simps]: "i < n \<Longrightarrow> off + n \<le> length xs \<Longrightarrow> slice off n xs ! i = xs ! (off + i)"
  by (simp add: slice_def)

lemma slice_all [simp]: "length xs = n \<Longrightarrow> slice 0 n xs = xs"
  by (simp add: slice_def)

lemma slice_append_left: "off + n \<le> length xs \<Longrightarrow> slice off n (xs @ ys) = slice off n xs"
  by (simp add: slice_def)

lemma slice_append_right: "length xs \<le> off \<Longrightarrow> slice off n (xs @ ys) = slice (off - length xs) n ys"
  by (simp add: slice_def)

lemma length_overwrite [simp]:
  "off + length ys \<le> length xs \<Longrightarrow> length (overwrite off ys xs) = length xs"
  by (simp add: overwrite_def)

lemma nth_overwrite:
  assumes "off + length ys \<le> length xs" and "i < length xs"
  shows "overwrite off ys xs ! i =
    (if off \<le> i \<and> i < off + length ys then ys ! (i - off) else xs ! i)"
  using assms by (auto simp: overwrite_def nth_append min_def)

lemma overwrite_whole [simp]: "length ys = length xs \<Longrightarrow> overwrite 0 ys xs = ys"
  by (simp add: overwrite_def)

lemma overwrite_Nil [simp]: "overwrite off [] xs = xs"
  by (simp add: overwrite_def)

lemma slice_overwrite_same [simp]:
  assumes "off + length ys \<le> length xs" and "n = length ys"
  shows "slice off n (overwrite off ys xs) = ys"
  using assms by (simp add: slice_def overwrite_def)

lemma slice_overwrite_other:
  assumes "off + length ys \<le> length xs" and "off' + n \<le> length xs"
    and "off' + n \<le> off \<or> off + length ys \<le> off'"
  shows "slice off' n (overwrite off ys xs) = slice off' n xs"
  using assms by (intro nth_equalityI) (auto simp: nth_overwrite nth_slice)

lemma overwrite_append:
  assumes "length xs = off"
  shows "overwrite off ys (xs @ zs) = xs @ overwrite 0 ys zs"
  using assms by (simp add: overwrite_def)

lemma slice_concat_blocks:
  assumes "\<forall>x \<in> set xss. length x = n" and "i < length xss"
  shows "slice (i * n) n (concat xss) = xss ! i"
  using assms
proof (induction xss arbitrary: i)
  case Nil
  then show ?case by simp
next
  case (Cons x xss)
  then show ?case
    by (cases i) (auto simp: slice_def)
qed

lemma length_concat_blocks: "\<forall>x \<in> set xss. length x = n \<Longrightarrow> length (concat xss) = length xss * n"
  by (induction xss) auto

lemma nth_concat_blocks:
  assumes "\<forall>x \<in> set xss. length x = n" and "i < length xss * n"
  shows "concat xss ! i = xss ! (i div n) ! (i mod n)"
proof -
  have n: "0 < n" using assms(2) by (cases n) auto
  have d: "i div n < length xss" using assms(2) by (simp add: less_mult_imp_div_less)
  have "i div n * n + n \<le> length xss * n" using mult_le_mono1 [OF Suc_leI [OF d], of n] by simp
  then have "slice (i div n * n) n (concat xss) ! (i mod n) = concat xss ! (i div n * n + i mod n)"
    using n length_concat_blocks [OF assms(1)] by (intro nth_slice) simp_all
  then show ?thesis using slice_concat_blocks [OF assms(1) d] by simp
qed

lemma concat_slices:
  assumes "length xs = n * m"
  shows "concat (map (\<lambda>k. slice (k * m) m xs) [0..<n]) = xs"
  using assms
proof (induction n arbitrary: xs)
  case 0
  then show ?case by simp
next
  case (Suc n)
  let ?ys = "take (n * m) xs"
  have "slice (k * m) m ?ys = slice (k * m) m xs" if "k < n" for k
  proof -
    have "Suc k * m \<le> n * m" using that by (intro mult_le_mono1) simp
    then have "k * m + m \<le> length ?ys" using Suc.prems by simp
    then have "slice (k * m) m (?ys @ drop (n * m) xs) = slice (k * m) m ?ys" by (rule slice_append_left)
    then show ?thesis by simp
  qed
  then have e: "map (\<lambda>k. slice (k * m) m xs) [0..<n] = map (\<lambda>k. slice (k * m) m ?ys) [0..<n]" by simp
  have "concat (map (\<lambda>k. slice (k * m) m ?ys) [0..<n]) = ?ys" using Suc.prems by (intro Suc.IH) simp
  then have "concat (map (\<lambda>k. slice (k * m) m xs) [0..<n]) = ?ys" by (simp only: e)
  moreover have "slice (n * m) m xs = drop (n * m) xs" using Suc.prems by (simp add: slice_def)
  ultimately show ?case by simp
qed

subsection \<open>Little-endian fields\<close>

definition le32 :: "bytes \<Rightarrow> u32" where
  "le32 p = ucast (p ! 0) OR push_bit 8 (ucast (p ! 1)) OR
            push_bit 16 (ucast (p ! 2)) OR push_bit 24 (ucast (p ! 3))"

definition bytes32 :: "u32 \<Rightarrow> bytes" where
  "bytes32 v = [ucast (v AND 0xFF), ucast (drop_bit 8 v AND 0xFF),
                ucast (drop_bit 16 v AND 0xFF), ucast (drop_bit 24 v AND 0xFF)]"

lemma length_bytes32 [simp]: "length (bytes32 v) = 4"
  by (simp add: bytes32_def)

lemma mask8: "(0xFF :: u32) = mask 8"
  by (simp add: mask_eq_exp_minus_1)

lemma byte_high: "8 \<le> n \<Longrightarrow> \<not> bit (a :: u8) n"
  by (auto dest: bit_imp_le_length)

lemma byte_position_cases:
  fixes n :: nat
  assumes "n < 32"
  obtains k where "k < 8" "n = k" | k where "k < 8" "n = 8 + k"
    | k where "k < 8" "n = 16 + k" | k where "k < 8" "n = 24 + k"
proof -
  consider "n < 8" | "8 \<le> n \<and> n < 16" | "16 \<le> n \<and> n < 24" | "24 \<le> n"
    by linarith
  then show ?thesis
  proof cases
    case 1
    then show ?thesis using that(1) [of n] by simp
  next
    case 2
    then show ?thesis using that(2) [of "n - 8"] by simp
  next
    case 3
    then show ?thesis using that(3) [of "n - 16"] by simp
  next
    case 4
    then show ?thesis using assms that(4) [of "n - 24"] by simp
  qed
qed

lemma le32_bytes32 [simp, codec_simps]: "le32 (bytes32 v) = v"
proof (rule bit_word_eqI)
  fix n :: nat
  assume "n < LENGTH(32)"
  then have "n < 32" by simp
  then show "bit (le32 (bytes32 v)) n = bit v n"
    by (cases rule: byte_position_cases) (auto simp: le32_def bytes32_def mask8 bit_simps)
qed

lemma bytes32_le32: "length p = 4 \<Longrightarrow> bytes32 (le32 p) = p"
proof -
  assume "length p = 4"
  then obtain a b c d where "p = [a, b, c, d]"
    by (auto simp: length_Suc_conv eval_nat_numeral)
  then show ?thesis
    by (auto simp: le32_def bytes32_def mask8 bit_simps byte_high intro!: bit_word_eqI)
qed

subsection \<open>Changing the width of an integer\<close>

lemma unat_u32_bound: "unat (n :: u32) < 2 ^ 32"
  using unsigned_less [of n] by simp

lemma unat_u64_bound: "unat (n :: u64) < 2 ^ 64"
  using unsigned_less [of n] by simp

lemma unat_ucast_32_64 [simp]: "unat (ucast (n :: u32) :: u64) = unat n"
proof -
  have "unat n < 2 ^ 64" using unat_u32_bound [of n] by simp
  then show ?thesis by (simp add: unsigned_ucast_eq take_bit_nat_eq_self)
qed

lemma unat_ucast_64_32: "unat (ucast (n :: u64) :: u32) = unat n mod 2 ^ 32"
  by (simp add: unsigned_ucast_eq take_bit_eq_mod)

lemma unat_of_nat_32: "n < 2 ^ 32 \<Longrightarrow> unat (word_of_nat n :: u32) = n"
  by (simp add: unat_of_nat take_bit_nat_eq_self)

lemma unat_of_nat_64: "n < 2 ^ 64 \<Longrightarrow> unat (word_of_nat n :: u64) = n"
  by (simp add: unat_of_nat take_bit_nat_eq_self)

lemma nat_high_bits:
  fixes m :: nat
  assumes "m < 2 ^ n" and "n \<le> k"
  shows "\<not> bit m k"
proof -
  have "(2 :: nat) ^ n \<le> 2 ^ k" using assms(2) by (rule power_increasing) simp
  with assms(1) have "m < 2 ^ k" by (rule less_le_trans)
  then show ?thesis by (simp add: bit_iff_odd)
qed

lemma word_high_bits:
  assumes "unat w < 2 ^ n" and "n \<le> k"
  shows "\<not> bit w k"
  using nat_high_bits [OF assms] by (auto simp: bit_unsigned_iff dest: bit_imp_le_length)

lemma shift_or_digit:
  assumes "unat d < 16"
  shows "push_bit 4 v OR d = v * 16 + (d :: u32)"
proof -
  have "\<not> bit d n" if "4 \<le> n" for n
    using word_high_bits [of d 4 n] assms that by simp
  then have "push_bit 4 v + d = push_bit 4 v OR d"
    by (intro disjunctive_add) (auto simp: bit_push_bit_iff not_le)
  then show ?thesis by (simp add: push_bit_eq_mult)
qed

text \<open>String literals of the code as bytes.\<close>

definition ascii :: "string \<Rightarrow> bytes" where
  "ascii cs = map of_char cs"

end
