(* ===== verification/Storage.thy ===== *)
theory Storage
  imports Prelude
begin

text \<open>
  The block storage layer, \<^verbatim>\<open>kernel/drivers/storage.c\<close> with \<^verbatim>\<open>kernel/include/storage.h\<close>:
  the tables of block devices, partitions and mounts, the MBR and GPT scan that fills the
  partition table, and the bounded block access the file system uses. The three static tables
  and their counters are one record, \<open>storage\<close>, passed through the operations; the contents of
  the disks behind the function pointers of a block device are its field \<open>disk\<close>, of a type
  \<open>'h\<close> the layer never looks into. A function pointer is an optional HOL function that takes
  the context handle, the block address, the count, the buffer and the disks, and gives the
  status and what it changed. Table indices (C's \<^verbatim>\<open>uint32_t\<close>) are natural numbers: they are only
  compared with the counters and used as subscripts. Character arrays are byte lists of the
  array's size.
\<close>

subsection \<open>Tables\<close>

abbreviation (input) SECTOR_SIZE :: nat where "SECTOR_SIZE \<equiv> 512"
abbreviation (input) STORAGE_MAX_BLOCK_DEVICES :: nat where "STORAGE_MAX_BLOCK_DEVICES \<equiv> 8"
abbreviation (input) STORAGE_MAX_PARTITIONS :: nat where "STORAGE_MAX_PARTITIONS \<equiv> 16"
abbreviation (input) STORAGE_MAX_MOUNTS :: nat where "STORAGE_MAX_MOUNTS \<equiv> 26"
abbreviation (input) MBR_PARTITION_TABLE_OFFSET :: nat where "MBR_PARTITION_TABLE_OFFSET \<equiv> 446"
abbreviation (input) MBR_PARTITION_ENTRY_SIZE :: nat where "MBR_PARTITION_ENTRY_SIZE \<equiv> 16"
abbreviation (input) MBR_SIGNATURE_OFFSET :: nat where "MBR_SIGNATURE_OFFSET \<equiv> 510"
abbreviation (input) MBR_PARTITION_ALIGNMENT_LBA :: u64 where "MBR_PARTITION_ALIGNMENT_LBA \<equiv> 2048"

type_synonym 'h block_read_t = "nat \<Rightarrow> u64 \<Rightarrow> u32 \<Rightarrow> bytes \<Rightarrow> 'h \<Rightarrow> int \<times> bytes \<times> 'h"
type_synonym 'h block_write_t = "nat \<Rightarrow> u64 \<Rightarrow> u32 \<Rightarrow> bytes \<Rightarrow> 'h \<Rightarrow> int \<times> 'h"

record 'h block_device_t =
  bd_present :: bool
  bd_name :: bytes
  bd_block_size :: u32
  bd_block_count :: u64
  bd_read :: "'h block_read_t option"
  bd_write :: "'h block_write_t option"
  bd_ctx :: nat

record partition_t =
  pt_present :: bool
  pt_name :: bytes
  pt_device_index :: nat
  pt_partition_number :: nat
  pt_start_lba :: u64
  pt_block_count :: u64
  pt_mbr_type :: u8
  pt_fs_hint :: bytes

record mount_t =
  mt_present :: bool
  mt_drive_letter :: u8
  mt_partition_index :: nat
  mt_partition_name :: bytes
  mt_fs_name :: bytes

record 'h storage =
  block_devices :: "'h block_device_t list"
  partitions :: "partition_t list"
  mounts :: "mount_t list"
  block_device_count :: nat
  partition_count :: nat
  disk :: 'h

subsection \<open>Characters, fields and names\<close>

fun copy_chars :: "bytes \<Rightarrow> nat \<Rightarrow> bytes" where
  "copy_chars [] n = []"
| "copy_chars (c # cs) n = (if c \<noteq> 0 \<and> 0 < n then c # copy_chars cs (n - 1) else [])"

definition copy_str :: "bytes \<Rightarrow> bytes \<Rightarrow> nat \<Rightarrow> bytes" where
  "copy_str dst src max_len =
     (if max_len = 0 then dst else overwrite 0 (copy_chars src (max_len - 1) @ [0]) dst)"

text \<open>The end of a list reads as the terminator.\<close>

fun str_eq :: "bytes \<Rightarrow> bytes \<Rightarrow> bool" where
  "str_eq (a # as) (b # bs) =
     (if a \<noteq> 0 \<and> b \<noteq> 0 \<and> a = b then str_eq as bs else a = 0 \<and> b = 0)"
| "str_eq (a # as) [] = (a = 0)"
| "str_eq [] (b # bs) = (b = 0)"
| "str_eq [] [] = True"

definition to_upper :: "u8 \<Rightarrow> u8" where
  "to_upper c = (if 97 \<le> c \<and> c \<le> 122 then c - (97 - 65) else c)"

definition read_le32 :: "nat \<Rightarrow> bytes \<Rightarrow> u32" where
  "read_le32 off p = le32 (slice off 4 p)"

definition read_le64 :: "nat \<Rightarrow> bytes \<Rightarrow> u64" where
  "read_le64 off p =
     ucast (p ! off) OR push_bit 8 (ucast (p ! (off + 1))) OR
     push_bit 16 (ucast (p ! (off + 2))) OR push_bit 24 (ucast (p ! (off + 3))) OR
     push_bit 32 (ucast (p ! (off + 4))) OR push_bit 40 (ucast (p ! (off + 5))) OR
     push_bit 48 (ucast (p ! (off + 6))) OR push_bit 56 (ucast (p ! (off + 7)))"

definition write_le32 :: "nat \<Rightarrow> u32 \<Rightarrow> bytes \<Rightarrow> bytes" where
  "write_le32 off v p = overwrite off (bytes32 v) p"

definition fs_hint_from_mbr_type :: "u8 \<Rightarrow> bytes" where
  "fs_hint_from_mbr_type t =
     (if t \<in> {0x01, 0x04, 0x06, 0x0B, 0x0C, 0x0E} then [102, 97, 116]
      else if t = 0x07 then [110, 116, 102, 115]
      else if t = 0x83 then [108, 105, 110, 117, 120]
      else if t = 0x99 then [108, 97, 105, 110, 102, 115]
      else if t = 0xEE then [103, 112, 116]
      else [114, 97, 119])"

abbreviation hint_raw :: bytes where "hint_raw \<equiv> [114, 97, 119]"
abbreviation hint_lainfs :: bytes where "hint_lainfs \<equiv> [108, 97, 105, 110, 102, 115]"

definition mem_eq :: "bytes \<Rightarrow> bytes \<Rightarrow> nat \<Rightarrow> bool" where
  "mem_eq a b n = (\<forall>i \<in> {0..<n}. a ! i = b ! i)"

definition region_is_zero :: "bytes \<Rightarrow> nat \<Rightarrow> bool" where
  "region_is_zero p n = (\<forall>i \<in> {0..<n}. p ! i = 0)"

definition make_partition_name :: "bytes \<Rightarrow> bytes \<Rightarrow> nat \<Rightarrow> bytes" where
  "make_partition_name dst device_name partition_number =
     overwrite 0 (copy_chars device_name 7 @ [112, 48 + word_of_nat partition_number, 0]) dst"

definition partition_range_valid :: "'h block_device_t \<Rightarrow> u64 \<Rightarrow> u64 \<Rightarrow> bool" where
  "partition_range_valid dev start_lba block_count =
     (if start_lba = 0 \<or> block_count = 0 \<or> bd_block_count dev \<le> start_lba then False
      else block_count \<le> bd_block_count dev - start_lba)"

subsection \<open>Raw block access\<close>

definition storage_read_block_device ::
  "nat \<Rightarrow> u64 \<Rightarrow> u32 \<Rightarrow> bytes \<Rightarrow> 'h storage \<Rightarrow> int \<times> bytes \<times> 'h storage" where
  "storage_read_block_device device_index lba count buffer s =
     (if block_device_count s \<le> device_index \<or> \<not> bd_present (block_devices s ! device_index)
      then (-1, buffer, s)
      else let dev = block_devices s ! device_index in
        case bd_read dev of
          None \<Rightarrow> (-1, buffer, s)
        | Some rd \<Rightarrow>
            if bd_block_count dev < lba + ucast count then (-1, buffer, s)
            else let (st, buf, h) = rd (bd_ctx dev) lba count buffer (disk s)
                 in (st, buf, s\<lparr>disk := h\<rparr>))"

definition storage_write_block_device ::
  "nat \<Rightarrow> u64 \<Rightarrow> u32 \<Rightarrow> bytes \<Rightarrow> 'h storage \<Rightarrow> int \<times> 'h storage" where
  "storage_write_block_device device_index lba count buffer s =
     (if block_device_count s \<le> device_index \<or> \<not> bd_present (block_devices s ! device_index)
      then (-1, s)
      else let dev = block_devices s ! device_index in
        case bd_write dev of
          None \<Rightarrow> (-1, s)
        | Some wr \<Rightarrow>
            if bd_block_count dev < lba + ucast count then (-1, s)
            else let (st, h) = wr (bd_ctx dev) lba count buffer (disk s)
                 in (st, s\<lparr>disk := h\<rparr>))"

definition storage_block_device_is_writable :: "nat \<Rightarrow> 'h storage \<Rightarrow> bool" where
  "storage_block_device_is_writable device_index s =
     (if block_device_count s \<le> device_index \<or> \<not> bd_present (block_devices s ! device_index)
      then False else bd_write (block_devices s ! device_index) \<noteq> None)"

definition storage_read_partition ::
  "nat \<Rightarrow> u64 \<Rightarrow> u32 \<Rightarrow> bytes \<Rightarrow> 'h storage \<Rightarrow> int \<times> bytes \<times> 'h storage" where
  "storage_read_partition partition_index lba count buffer s =
     (if partition_count s \<le> partition_index \<or> \<not> pt_present (partitions s ! partition_index)
      then (-1, buffer, s)
      else let part = partitions s ! partition_index in
        if pt_block_count part < lba + ucast count then (-1, buffer, s)
        else let dev = block_devices s ! pt_device_index part in
          if \<not> bd_present dev then (-1, buffer, s)
          else case bd_read dev of
            None \<Rightarrow> (-1, buffer, s)
          | Some rd \<Rightarrow>
              let (st, buf, h) = rd (bd_ctx dev) (pt_start_lba part + lba) count buffer (disk s)
              in (st, buf, s\<lparr>disk := h\<rparr>))"

definition storage_write_partition ::
  "nat \<Rightarrow> u64 \<Rightarrow> u32 \<Rightarrow> bytes \<Rightarrow> 'h storage \<Rightarrow> int \<times> 'h storage" where
  "storage_write_partition partition_index lba count buffer s =
     (if partition_count s \<le> partition_index \<or> \<not> pt_present (partitions s ! partition_index)
      then (-1, s)
      else let part = partitions s ! partition_index in
        if pt_block_count part < lba + ucast count then (-1, s)
        else let dev = block_devices s ! pt_device_index part in
          if \<not> bd_present dev then (-1, s)
          else case bd_write dev of
            None \<Rightarrow> (-1, s)
          | Some wr \<Rightarrow>
              let (st, h) = wr (bd_ctx dev) (pt_start_lba part + lba) count buffer (disk s)
              in (st, s\<lparr>disk := h\<rparr>))"

definition storage_partition_is_writable :: "nat \<Rightarrow> 'h storage \<Rightarrow> bool" where
  "storage_partition_is_writable partition_index s =
     (if partition_count s \<le> partition_index \<or> \<not> pt_present (partitions s ! partition_index)
      then False
      else let dev = block_devices s ! pt_device_index (partitions s ! partition_index)
           in bd_present dev \<and> bd_write dev \<noteq> None)"

subsection \<open>Looking entries up\<close>

definition storage_get_block_device :: "nat \<Rightarrow> 'h storage \<Rightarrow> 'h block_device_t option" where
  "storage_get_block_device index s =
     (if block_device_count s \<le> index \<or> \<not> bd_present (block_devices s ! index) then None
      else Some (block_devices s ! index))"

definition storage_find_block_device :: "bytes \<Rightarrow> 'h storage \<Rightarrow> nat option" where
  "storage_find_block_device name s =
     find (\<lambda>i. bd_present (block_devices s ! i) \<and> str_eq (bd_name (block_devices s ! i)) name)
       [0..<block_device_count s]"

definition storage_get_partition :: "nat \<Rightarrow> 'h storage \<Rightarrow> partition_t option" where
  "storage_get_partition index s =
     (if partition_count s \<le> index \<or> \<not> pt_present (partitions s ! index) then None
      else Some (partitions s ! index))"

definition storage_find_partition :: "bytes \<Rightarrow> 'h storage \<Rightarrow> nat option" where
  "storage_find_partition name s =
     find (\<lambda>i. pt_present (partitions s ! i) \<and> str_eq (pt_name (partitions s ! i)) name)
       [0..<partition_count s]"

definition storage_get_mount_by_drive :: "u8 \<Rightarrow> 'h storage \<Rightarrow> mount_t option" where
  "storage_get_mount_by_drive drive_letter s =
     (let d = to_upper drive_letter in
      if d < 65 \<or> 90 < d then None
      else let mount = mounts s ! unat (d - 65)
           in if mt_present mount then Some mount else None)"

definition storage_get_mount :: "nat \<Rightarrow> 'h storage \<Rightarrow> mount_t option" where
  "storage_get_mount index s =
     (if STORAGE_MAX_MOUNTS \<le> index \<or> \<not> mt_present (mounts s ! index) then None
      else Some (mounts s ! index))"

definition storage_drive_is_mounted :: "u8 \<Rightarrow> 'h storage \<Rightarrow> bool" where
  "storage_drive_is_mounted drive_letter s = (storage_get_mount_by_drive drive_letter s \<noteq> None)"

subsection \<open>Registering devices and partitions\<close>

definition storage_register_block_device ::
  "bytes \<Rightarrow> u32 \<Rightarrow> u64 \<Rightarrow> 'h block_read_t option \<Rightarrow> 'h block_write_t option \<Rightarrow> nat \<Rightarrow>
   'h storage \<Rightarrow> int \<times> 'h storage" where
  "storage_register_block_device name block_size block_count rd wr ctx s =
     (if STORAGE_MAX_BLOCK_DEVICES \<le> block_device_count s then (-1, s)
      else let i = block_device_count s; dev = block_devices s ! i in
        (0, s\<lparr>block_device_count := i + 1,
              block_devices := (block_devices s)[i :=
                dev\<lparr>bd_present := True, bd_name := copy_str (bd_name dev) name 8,
                    bd_block_size := block_size, bd_block_count := block_count,
                    bd_read := rd, bd_write := wr, bd_ctx := ctx\<rparr>]\<rparr>))"

definition detect_fs_hint ::
  "nat \<Rightarrow> u64 \<Rightarrow> u64 \<Rightarrow> u8 \<Rightarrow> 'h storage \<Rightarrow> bytes \<times> 'h storage" where
  "detect_fs_hint device_index start_lba block_count mbr_type s =
     (if mbr_type \<noteq> 0x99 then (fs_hint_from_mbr_type mbr_type, s)
      else if block_count = 0 then (hint_raw, s)
      else let (st, sector, s') =
             storage_read_block_device device_index start_lba 1 (replicate SECTOR_SIZE 0) s
           in if st \<noteq> 0 then (hint_raw, s')
              else if read_le32 0 sector = 0x4E49414C \<and> read_le32 4 sector = 0x00315346
              then (hint_lainfs, s')
              else (hint_raw, s'))"

definition register_partition ::
  "nat \<Rightarrow> nat \<Rightarrow> u64 \<Rightarrow> u64 \<Rightarrow> u8 \<Rightarrow> 'h storage \<Rightarrow> 'h storage" where
  "register_partition device_index partition_number start_lba block_count mbr_type s =
     (if STORAGE_MAX_PARTITIONS \<le> partition_count s then s
      else let dev = block_devices s ! device_index in
        if \<not> partition_range_valid dev start_lba block_count then s
        else let i = partition_count s; part = partitions s ! i;
                 (hint, s') = detect_fs_hint device_index start_lba block_count mbr_type s in
          s'\<lparr>partition_count := i + 1,
             partitions := (partitions s')[i :=
               part\<lparr>pt_present := True,
                    pt_name := make_partition_name (pt_name part) (bd_name dev) partition_number,
                    pt_device_index := device_index,
                    pt_partition_number := partition_number,
                    pt_start_lba := start_lba,
                    pt_block_count := block_count,
                    pt_mbr_type := mbr_type,
                    pt_fs_hint := copy_str (pt_fs_hint part) hint 8\<rparr>]\<rparr>)"

text \<open>The loop over the four slots of the partition table; the flag is \<^verbatim>\<open>has_protective_gpt\<close>.\<close>

fun mbr_scan :: "nat \<Rightarrow> bytes \<Rightarrow> nat list \<Rightarrow> bool \<Rightarrow> 'h storage \<Rightarrow> bool \<times> 'h storage" where
  "mbr_scan device_index sector [] gpt s = (gpt, s)"
| "mbr_scan device_index sector (i # is) gpt s =
     (let entry = MBR_PARTITION_TABLE_OFFSET + i * MBR_PARTITION_ENTRY_SIZE;
          type = sector ! (entry + 4);
          start_lba = read_le32 (entry + 8) sector;
          blocks = read_le32 (entry + 12) sector
      in if type = 0 \<or> blocks = 0 \<or>
            \<not> partition_range_valid (block_devices s ! device_index) (ucast start_lba) (ucast blocks)
         then mbr_scan device_index sector is gpt s
         else mbr_scan device_index sector is (gpt \<or> type = 0xEE)
                (register_partition device_index (i + 1) (ucast start_lba) (ucast blocks) type s))"

definition discover_mbr_partitions :: "nat \<Rightarrow> 'h storage \<Rightarrow> bool \<times> 'h storage" where
  "discover_mbr_partitions device_index s =
     (let dev = block_devices s ! device_index in
      if \<not> bd_present dev \<or> bd_block_size dev \<noteq> 512 then (False, s)
      else case bd_read dev of
        None \<Rightarrow> (False, s)
      | Some rd \<Rightarrow>
          let (st, sector, h) = rd (bd_ctx dev) 0 1 (replicate SECTOR_SIZE 0) (disk s);
              s' = s\<lparr>disk := h\<rparr>
          in if st \<noteq> 0 then (False, s')
             else if sector ! MBR_SIGNATURE_OFFSET \<noteq> 0x55 \<or>
                     sector ! (MBR_SIGNATURE_OFFSET + 1) \<noteq> 0xAA then (False, s')
             else mbr_scan device_index sector [0..<4] False s')"

definition gpt_signature :: bytes where
  "gpt_signature = [69, 70, 73, 32, 80, 65, 82, 84]"

text \<open>
  The loop over the GPT entry array: \<open>i\<close> is the loop counter, the last argument the number of
  iterations that are left.
\<close>

fun gpt_scan ::
  "nat \<Rightarrow> 'h block_read_t \<Rightarrow> u64 \<Rightarrow> u32 \<Rightarrow> nat \<Rightarrow> nat \<Rightarrow> 'h storage \<Rightarrow> 'h storage" where
  "gpt_scan device_index rd entry_lba entry_size i 0 s = s"
| "gpt_scan device_index rd entry_lba entry_size i (Suc n) s =
     (if STORAGE_MAX_PARTITIONS \<le> partition_count s then s
      else let dev = block_devices s ! device_index;
               byte_offset = (word_of_nat i :: u64) * ucast entry_size;
               sector_lba = entry_lba + byte_offset div 512;
               sector_offset = (ucast (byte_offset mod 512) :: u32)
           in if bd_block_count dev \<le> sector_lba then s
              else if 512 < sector_offset + entry_size then s
              else let (st, entry_sector, h) =
                         rd (bd_ctx dev) sector_lba 1 (replicate SECTOR_SIZE 0) (disk s);
                       s' = s\<lparr>disk := h\<rparr>
                   in if st \<noteq> 0 then s'
                      else let entry = slice (unat sector_offset) (unat entry_size) entry_sector
                           in if region_is_zero entry 16
                              then gpt_scan device_index rd entry_lba entry_size (i + 1) n s'
                              else let start_lba = read_le64 32 entry; end_lba = read_le64 40 entry
                                   in if start_lba = 0 \<or> end_lba < start_lba \<or>
                                         \<not> partition_range_valid dev start_lba (end_lba - start_lba + 1)
                                      then gpt_scan device_index rd entry_lba entry_size (i + 1) n s'
                                      else gpt_scan device_index rd entry_lba entry_size (i + 1) n
                                             (register_partition device_index (i + 1) start_lba
                                                (end_lba - start_lba + 1) 0xEE s'))"

definition discover_gpt_partitions :: "nat \<Rightarrow> 'h storage \<Rightarrow> 'h storage" where
  "discover_gpt_partitions device_index s =
     (let dev = block_devices s ! device_index in
      if \<not> bd_present dev \<or> bd_block_size dev \<noteq> 512 then s
      else case bd_read dev of
        None \<Rightarrow> s
      | Some rd \<Rightarrow>
          if bd_block_count dev \<le> 1 then s
          else let (st, header, h) = rd (bd_ctx dev) 1 1 (replicate SECTOR_SIZE 0) (disk s);
                   s' = s\<lparr>disk := h\<rparr>
               in if st \<noteq> 0 then s'
                  else if \<not> mem_eq header gpt_signature 8 \<or> read_le32 12 header < 92 then s'
                  else let entry_lba = read_le64 72 header;
                           entry_count = read_le32 80 header;
                           entry_size = read_le32 84 header
                       in if entry_lba = 0 \<or> bd_block_count dev \<le> entry_lba \<or>
                             16384 < entry_count \<or> entry_size < 128 \<or> 256 < entry_size
                          then s'
                          else gpt_scan device_index rd entry_lba entry_size 0 (unat entry_count) s')"

definition refresh_mount :: "'h storage \<Rightarrow> mount_t \<Rightarrow> mount_t" where
  "refresh_mount s mount =
     (if \<not> mt_present mount then mount
      else case storage_find_partition (mt_partition_name mount) s of
        None \<Rightarrow> mount\<lparr>mt_present := False, mt_partition_index := 0,
                     mt_partition_name := (mt_partition_name mount)[0 := 0],
                     mt_fs_name := (mt_fs_name mount)[0 := 0]\<rparr>
      | Some i \<Rightarrow> mount\<lparr>mt_partition_index := i,
                     mt_fs_name := copy_str (mt_fs_name mount) (pt_fs_hint (partitions s ! i)) 8\<rparr>)"

definition refresh_mounts_after_partition_scan :: "'h storage \<Rightarrow> 'h storage" where
  "refresh_mounts_after_partition_scan s = s\<lparr>mounts := map (refresh_mount s) (mounts s)\<rparr>"

text \<open>
  \<open>drop_partitions\<close> is the inner \<^verbatim>\<open>while\<close> loop that takes back what the MBR scan of a GPT disk
  registered; \<open>discover_devices\<close> is the loop over the devices.
\<close>

function drop_partitions :: "nat \<Rightarrow> 'h storage \<Rightarrow> 'h storage" where
  "drop_partitions partition_start s =
     (if partition_start < partition_count s
      then let i = partition_count s - 1 in
        drop_partitions partition_start
          (s\<lparr>partition_count := i,
             partitions := (partitions s)[i := (partitions s ! i)\<lparr>pt_present := False\<rparr>]\<rparr>)
      else s)"
  by pat_completeness auto
termination
  by (relation "measure (\<lambda>(start, s). partition_count s - start)") auto

declare drop_partitions.simps [simp del]

fun discover_devices :: "nat list \<Rightarrow> 'h storage \<Rightarrow> 'h storage" where
  "discover_devices [] s = s"
| "discover_devices (i # is) s =
     (let partition_start = partition_count s;
          (gpt, s') = discover_mbr_partitions i s
      in discover_devices is
           (if gpt then discover_gpt_partitions i (drop_partitions partition_start s') else s'))"

definition storage_discover_partitions :: "'h storage \<Rightarrow> 'h storage" where
  "storage_discover_partitions s =
     refresh_mounts_after_partition_scan
       (discover_devices [0..<block_device_count s] (s\<lparr>partition_count := 0\<rparr>))"

subsection \<open>Mounts\<close>

definition storage_mount :: "u8 \<Rightarrow> bytes \<Rightarrow> 'h storage \<Rightarrow> int \<times> 'h storage" where
  "storage_mount drive_letter partition_name s =
     (case storage_find_partition partition_name s of
        None \<Rightarrow> (-1, s)
      | Some partition_index \<Rightarrow>
          let part = partitions s ! partition_index; d = to_upper drive_letter in
          if d < 67 \<or> 90 < d then (-2, s)
          else let i = unat (d - 65); mount = mounts s ! i in
            (0, s\<lparr>mounts := (mounts s)[i :=
                   mount\<lparr>mt_present := True, mt_drive_letter := d,
                         mt_partition_index := partition_index,
                         mt_partition_name := copy_str (mt_partition_name mount) (pt_name part) 12,
                         mt_fs_name := copy_str (mt_fs_name mount) (pt_fs_hint part) 8\<rparr>]\<rparr>))"

definition mount_on_device :: "nat \<Rightarrow> 'h storage \<Rightarrow> mount_t \<Rightarrow> bool" where
  "mount_on_device device_index s mount =
     (mt_present mount \<and>
      (case storage_get_partition (mt_partition_index mount) s of
         None \<Rightarrow> False
       | Some part \<Rightarrow> pt_device_index part = device_index))"

definition storage_unmount_block_device :: "nat \<Rightarrow> 'h storage \<Rightarrow> 'h storage" where
  "storage_unmount_block_device device_index s =
     s\<lparr>mounts := map (\<lambda>mount.
         if mount_on_device device_index s mount
         then mount\<lparr>mt_present := False, mt_partition_index := 0,
                    mt_partition_name := (mt_partition_name mount)[0 := 0],
                    mt_fs_name := (mt_fs_name mount)[0 := 0]\<rparr>
         else mount) (mounts s)\<rparr>"

definition storage_device_has_mounted_partitions :: "nat \<Rightarrow> 'h storage \<Rightarrow> bool" where
  "storage_device_has_mounted_partitions device_index s =
     list_ex (mount_on_device device_index s) (mounts s)"

subsection \<open>Creating a partition\<close>

definition mbr_sector :: "u8 \<Rightarrow> u32 \<Rightarrow> bytes" where
  "mbr_sector mbr_type usable_blocks =
     (write_le32 (MBR_PARTITION_TABLE_OFFSET + 12) usable_blocks
       (write_le32 (MBR_PARTITION_TABLE_OFFSET + 8) 2048
         ((replicate SECTOR_SIZE 0)[MBR_PARTITION_TABLE_OFFSET + 4 := mbr_type])))
     [MBR_SIGNATURE_OFFSET := 0x55, MBR_SIGNATURE_OFFSET + 1 := 0xAA]"

definition storage_create_mbr_partition ::
  "nat \<Rightarrow> u8 \<Rightarrow> 'h storage \<Rightarrow> int \<times> nat \<times> 'h storage" where
  "storage_create_mbr_partition device_index mbr_type s =
     (case storage_get_block_device device_index s of
        None \<Rightarrow> (-1, 0, s)
      | Some dev \<Rightarrow>
          if bd_block_size dev \<noteq> 512 then (-1, 0, s)
          else if \<not> storage_block_device_is_writable device_index s then (-2, 0, s)
          else if bd_block_count dev \<le> MBR_PARTITION_ALIGNMENT_LBA + 64 \<or>
                  0xFFFFFFFF < bd_block_count dev - MBR_PARTITION_ALIGNMENT_LBA then (-4, 0, s)
          else let usable_blocks = bd_block_count dev - MBR_PARTITION_ALIGNMENT_LBA;
                   (st, s1) = storage_write_block_device device_index 0 1
                                (mbr_sector mbr_type (ucast usable_blocks)) s
               in if st \<noteq> 0 then (-5, 0, s1)
                  else let s2 = storage_discover_partitions s1;
                           part_name = make_partition_name (replicate 12 0) (bd_name dev) 1
                       in case storage_find_partition part_name s2 of
                            None \<Rightarrow> (-6, 0, s2)
                          | Some partition_index \<Rightarrow> (0, partition_index, s2))"

subsection \<open>Reading fields and names back\<close>

lemma length_write_le32 [simp]: "off + 4 \<le> length p \<Longrightarrow> length (write_le32 off v p) = length p"
  by (simp add: write_le32_def)

lemma read_write_le32 [codec_simps]: "off + 4 \<le> length p \<Longrightarrow> read_le32 off (write_le32 off v p) = v"
  by (simp add: read_le32_def write_le32_def)

lemma read_write_le32_other [codec_simps]:
  assumes "off + 4 \<le> length p" and "off' + 4 \<le> length p" and "off' + 4 \<le> off \<or> off + 4 \<le> off'"
  shows "read_le32 off' (write_le32 off v p) = read_le32 off' p"
  using assms by (simp add: read_le32_def write_le32_def slice_overwrite_other)

lemma read_le32_update_other [codec_simps]:
  assumes "i < off \<or> off + 4 \<le> i" and "off + 4 \<le> length p"
  shows "read_le32 off (p[i := b]) = read_le32 off p"
proof -
  have "slice off 4 (p[i := b]) = slice off 4 p"
    using assms by (intro nth_equalityI) (auto simp: nth_slice)
  then show ?thesis by (simp add: read_le32_def)
qed

lemma length_copy_chars: "length (copy_chars cs n) \<le> n" "length (copy_chars cs n) \<le> length cs"
  by (induction cs n rule: copy_chars.induct) auto

lemma copy_chars_nonzero: "0 \<notin> set (copy_chars cs n)"
  by (induction cs n rule: copy_chars.induct) auto

lemma copy_chars_short: "0 \<notin> set cs \<Longrightarrow> length cs \<le> n \<Longrightarrow> copy_chars cs n = cs"
  by (induction cs n rule: copy_chars.induct) auto

text \<open>The C string in a buffer is what stands before the first NUL.\<close>

definition cstr :: "bytes \<Rightarrow> bytes" where
  "cstr p = takeWhile (\<lambda>c. c \<noteq> 0) p"

lemma str_eq_iff: "str_eq a b \<longleftrightarrow> cstr a = cstr b"
  by (induction a b rule: str_eq.induct) (auto simp: cstr_def)

lemma cstr_no_nul: "0 \<notin> set cs \<Longrightarrow> cstr cs = cs"
  unfolding cstr_def by (intro takeWhile_eq_all_conv [THEN iffD2]) auto

lemma cstr_overwrite_terminated:
  assumes "0 \<notin> set cs"
  shows "cstr (overwrite 0 (cs @ [0]) dst) = cs"
proof -
  have "takeWhile (\<lambda>c. c \<noteq> 0) (cs @ 0 # drop (Suc (length cs)) dst) = cs"
    using assms by (subst takeWhile_append2) auto
  then show ?thesis by (simp add: cstr_def overwrite_def)
qed

end
