(* ===== verification/Lainfs_Dirent.thy ===== *)
theory Lainfs_Dirent
  imports Storage
begin

text \<open>
  The on-disk format of LainFS (\<^verbatim>\<open>kernel/fs/lainfs.c\<close>, \<^verbatim>\<open>kernel/include/lainfs.h\<close>): the superblock
  and the 64-byte directory entry as records, their byte layout, and the accessors of the
  entry's reserved bytes, which hold the parent id and up to three extents. Two kinds of facts
  are shown: what is written into an entry is read back, and the layout functions are inverse
  to each other on buffers of the right size.
\<close>

abbreviation (input) LAINFS_BLOCK_SIZE :: nat where "LAINFS_BLOCK_SIZE \<equiv> 512"
abbreviation (input) LAINFS_DIR_BLOCKS :: nat where "LAINFS_DIR_BLOCKS \<equiv> 256"
abbreviation (input) LAINFS_ENTRY_SIZE :: nat where "LAINFS_ENTRY_SIZE \<equiv> 64"
abbreviation (input) LAINFS_MAX_FILES :: nat where "LAINFS_MAX_FILES \<equiv> 2048"
abbreviation (input) LAINFS_FILE_CAPACITY :: u32 where "LAINFS_FILE_CAPACITY \<equiv> 4194304"
abbreviation (input) LAINFS_MAX_FILE_BLOCKS :: u32 where "LAINFS_MAX_FILE_BLOCKS \<equiv> 8192"
abbreviation (input) LAINFS_MAX_EXTENTS :: nat where "LAINFS_MAX_EXTENTS \<equiv> 3"
abbreviation (input) LAINFS_MAGIC0 :: u32 where "LAINFS_MAGIC0 \<equiv> 0x4E49414C"
abbreviation (input) LAINFS_MAGIC1 :: u32 where "LAINFS_MAGIC1 \<equiv> 0x315346"
abbreviation (input) LAINFS_ENTRY_FILE :: u8 where "LAINFS_ENTRY_FILE \<equiv> 1"
abbreviation (input) LAINFS_ENTRY_DIR :: u8 where "LAINFS_ENTRY_DIR \<equiv> 2"
abbreviation (input) LAINFS_ROOT_DIR :: u32 where "LAINFS_ROOT_DIR \<equiv> 0"
abbreviation (input) LAINFS_EXTENT_BLOCK_MASK :: u32 where "LAINFS_EXTENT_BLOCK_MASK \<equiv> 0x00FFFFFF"

record lainfs_superblock_t =
  sb_magic0 :: u32
  sb_magic1 :: u32
  sb_version :: u32
  sb_block_size :: u32
  sb_dir_start_lba :: u32
  sb_dir_blocks :: u32
  sb_data_start_lba :: u32
  sb_max_files :: u32
  sb_reserved :: bytes

record lainfs_dirent_t =
  de_used :: u8
  de_name :: bytes
  de_start_lba :: u32
  de_byte_size :: u32
  de_reserved :: bytes

record lainfs_extent_t =
  ex_start_lba :: u32
  ex_blocks :: u32

subsection \<open>Byte layout of the packed structures\<close>

definition super_of_bytes :: "bytes \<Rightarrow> lainfs_superblock_t" where
  "super_of_bytes p =
     \<lparr>sb_magic0 = read_le32 0 p, sb_magic1 = read_le32 4 p, sb_version = read_le32 8 p,
      sb_block_size = read_le32 12 p, sb_dir_start_lba = read_le32 16 p,
      sb_dir_blocks = read_le32 20 p, sb_data_start_lba = read_le32 24 p,
      sb_max_files = read_le32 28 p, sb_reserved = slice 32 480 p\<rparr>"

definition bytes_of_super :: "lainfs_superblock_t \<Rightarrow> bytes" where
  "bytes_of_super sb =
     bytes32 (sb_magic0 sb) @ bytes32 (sb_magic1 sb) @ bytes32 (sb_version sb) @
     bytes32 (sb_block_size sb) @ bytes32 (sb_dir_start_lba sb) @ bytes32 (sb_dir_blocks sb) @
     bytes32 (sb_data_start_lba sb) @ bytes32 (sb_max_files sb) @ sb_reserved sb"

definition dirent_of_bytes :: "bytes \<Rightarrow> lainfs_dirent_t" where
  "dirent_of_bytes p =
     \<lparr>de_used = p ! 0, de_name = slice 1 31 p, de_start_lba = read_le32 32 p,
      de_byte_size = read_le32 36 p, de_reserved = slice 40 24 p\<rparr>"

definition bytes_of_dirent :: "lainfs_dirent_t \<Rightarrow> bytes" where
  "bytes_of_dirent e =
     de_used e # de_name e @ bytes32 (de_start_lba e) @ bytes32 (de_byte_size e) @ de_reserved e"

definition dir_of_bytes :: "bytes \<Rightarrow> lainfs_dirent_t list" where
  "dir_of_bytes p =
     map (\<lambda>i. dirent_of_bytes (slice (i * LAINFS_ENTRY_SIZE) LAINFS_ENTRY_SIZE p)) [0..<LAINFS_MAX_FILES]"

definition bytes_of_dir :: "lainfs_dirent_t list \<Rightarrow> bytes" where
  "bytes_of_dir d = concat (map bytes_of_dirent d)"

definition zero_dirent :: lainfs_dirent_t where
  "zero_dirent = \<lparr>de_used = 0, de_name = replicate 31 0, de_start_lba = 0, de_byte_size = 0,
     de_reserved = replicate 24 0\<rparr>"

subsection \<open>Fields of an entry\<close>

definition blocks_for_size :: "u32 \<Rightarrow> u32" where
  "blocks_for_size sz = (sz + 512 - 1) div 512"

definition allocated_blocks_for_entry :: "lainfs_dirent_t \<Rightarrow> u32" where
  "allocated_blocks_for_entry e =
     (let blocks = blocks_for_size (de_byte_size e) in if blocks = 0 then 1 else blocks)"

definition entry_extent_meta :: "lainfs_dirent_t \<Rightarrow> u32" where
  "entry_extent_meta e = read_le32 4 (de_reserved e)"

definition set_entry_extent_meta :: "u32 \<Rightarrow> lainfs_dirent_t \<Rightarrow> lainfs_dirent_t" where
  "set_entry_extent_meta meta e = e\<lparr>de_reserved := write_le32 4 meta (de_reserved e)\<rparr>"

definition entry_extra_extent_start :: "lainfs_dirent_t \<Rightarrow> nat \<Rightarrow> u32" where
  "entry_extra_extent_start e extra_index = read_le32 (8 + extra_index * 8) (de_reserved e)"

definition entry_extra_extent_blocks :: "lainfs_dirent_t \<Rightarrow> nat \<Rightarrow> u32" where
  "entry_extra_extent_blocks e extra_index = read_le32 (12 + extra_index * 8) (de_reserved e)"

definition set_entry_extra_extent :: "nat \<Rightarrow> u32 \<Rightarrow> u32 \<Rightarrow> lainfs_dirent_t \<Rightarrow> lainfs_dirent_t" where
  "set_entry_extra_extent extra_index start_lba blocks e =
     (let off = 8 + extra_index * 8 in
      e\<lparr>de_reserved := write_le32 (off + 4) blocks (write_le32 off start_lba (de_reserved e))\<rparr>)"

definition entry_parent_id :: "lainfs_dirent_t \<Rightarrow> u32" where
  "entry_parent_id e = read_le32 0 (de_reserved e)"

definition set_entry_parent_id :: "u32 \<Rightarrow> lainfs_dirent_t \<Rightarrow> lainfs_dirent_t" where
  "set_entry_parent_id parent_id e = e\<lparr>de_reserved := write_le32 0 parent_id (de_reserved e)\<rparr>"

text \<open>
  The loop that adds the extents up: \<open>None\<close> is the early \<^verbatim>\<open>return -1\<close>, otherwise the total.
\<close>

fun sum_extents :: "u32 \<Rightarrow> u32 \<Rightarrow> lainfs_extent_t list \<Rightarrow> u32 option" where
  "sum_extents required_blocks tot [] = Some tot"
| "sum_extents required_blocks tot (x # xs) =
     (if ex_blocks x = 0 \<or> required_blocks - tot < ex_blocks x then None
      else sum_extents required_blocks (tot + ex_blocks x) xs)"

definition coded_extents :: "lainfs_dirent_t \<Rightarrow> nat \<Rightarrow> lainfs_extent_t list" where
  "coded_extents e count =
     \<lparr>ex_start_lba = de_start_lba e, ex_blocks = entry_extent_meta e AND LAINFS_EXTENT_BLOCK_MASK\<rparr> #
     map (\<lambda>i. \<lparr>ex_start_lba = entry_extra_extent_start e (i - 1),
               ex_blocks = entry_extra_extent_blocks e (i - 1)\<rparr>) [1..<count]"

text \<open>\<open>None\<close> is the status -1; the length of the list is the extent count.\<close>

definition entry_extents :: "lainfs_dirent_t \<Rightarrow> lainfs_extent_t list option" where
  "entry_extents e =
     (let required_blocks = allocated_blocks_for_entry e; meta = entry_extent_meta e in
      if meta = 0 then Some [\<lparr>ex_start_lba = de_start_lba e, ex_blocks = required_blocks\<rparr>]
      else let count = unat (drop_bit 24 meta) in
        if count = 0 \<or> LAINFS_MAX_EXTENTS < count then None
        else let extents = coded_extents e count
             in case sum_extents required_blocks 0 extents of
                  None \<Rightarrow> None
                | Some tot \<Rightarrow> if tot \<noteq> required_blocks then None else Some extents)"

fun set_extra_extents :: "nat \<Rightarrow> lainfs_extent_t list \<Rightarrow> lainfs_dirent_t \<Rightarrow> lainfs_dirent_t" where
  "set_extra_extents i [] e = e"
| "set_extra_extents i (x # xs) e =
     set_extra_extents (i + 1) xs (set_entry_extra_extent i (ex_start_lba x) (ex_blocks x) e)"

definition set_entry_extents :: "lainfs_extent_t list \<Rightarrow> lainfs_dirent_t \<Rightarrow> lainfs_dirent_t" where
  "set_entry_extents extents e =
     (let count = length extents;
          e1 = e\<lparr>de_reserved := overwrite 4 (replicate 20 0) (de_reserved e),
                 de_start_lba := ex_start_lba (hd extents)\<rparr>
      in if count \<le> 1 then e1
         else set_extra_extents 0 (tl extents)
                (set_entry_extent_meta
                   (push_bit 24 (word_of_nat count) OR
                    (ex_blocks (hd extents) AND LAINFS_EXTENT_BLOCK_MASK)) e1))"

definition ranges_overlap :: "u32 \<Rightarrow> u32 \<Rightarrow> u32 \<Rightarrow> u32 \<Rightarrow> bool" where
  "ranges_overlap a_start a_blocks b_start b_blocks =
     (let a_end = a_start + a_blocks; b_end = b_start + b_blocks
      in a_start < b_end \<and> b_start < a_end)"

definition legacy_extent_fields_valid ::
  "partition_t option \<Rightarrow> lainfs_superblock_t \<Rightarrow> lainfs_dirent_t \<Rightarrow> bool" where
  "legacy_extent_fields_valid part super e =
     (case part of
        None \<Rightarrow> False
      | Some pt \<Rightarrow>
          if de_used e \<noteq> LAINFS_ENTRY_FILE \<or> LAINFS_FILE_CAPACITY < de_byte_size e then False
          else let blocks = allocated_blocks_for_entry e;
                   end_lba = (ucast (de_start_lba e) :: u64) + ucast blocks
               in blocks \<noteq> 0 \<and> blocks \<le> LAINFS_MAX_FILE_BLOCKS \<and>
                  sb_data_start_lba super \<le> de_start_lba e \<and> end_lba \<le> pt_block_count pt)"

text \<open>The name array of 31 bytes.\<close>

definition copy_name :: "bytes \<Rightarrow> bytes \<Rightarrow> bytes" where
  "copy_name dst src = overwrite 0 (copy_chars src 30 @ [0]) dst"

subsection \<open>Entries of the right shape\<close>

definition dirent_wf :: "lainfs_dirent_t \<Rightarrow> bool" where
  "dirent_wf e \<longleftrightarrow> length (de_name e) = 31 \<and> length (de_reserved e) = 24"

lemma dirent_wf_zero [simp]: "dirent_wf zero_dirent"
  by (simp add: dirent_wf_def zero_dirent_def)

lemma zero_dirent_used [simp]: "de_used zero_dirent = 0"
  by (simp add: zero_dirent_def)

lemma set_entry_parent_id_wf [simp]: "dirent_wf e \<Longrightarrow> dirent_wf (set_entry_parent_id p e)"
  by (simp add: dirent_wf_def set_entry_parent_id_def)

lemma entry_parent_set_entry_parent_id [simp]:
  "dirent_wf e \<Longrightarrow> entry_parent_id (set_entry_parent_id p e) = p"
  by (simp add: dirent_wf_def set_entry_parent_id_def entry_parent_id_def codec_simps)

lemma set_entry_parent_id_fields [simp]:
  "de_used (set_entry_parent_id p e) = de_used e"
  "de_name (set_entry_parent_id p e) = de_name e"
  "de_start_lba (set_entry_parent_id p e) = de_start_lba e"
  "de_byte_size (set_entry_parent_id p e) = de_byte_size e"
  by (simp_all add: set_entry_parent_id_def)

lemma allocated_blocks_parent [simp]:
  "allocated_blocks_for_entry (set_entry_parent_id p e) = allocated_blocks_for_entry e"
  by (simp add: allocated_blocks_for_entry_def)

lemma allocated_blocks_nonzero [simp]: "allocated_blocks_for_entry e \<noteq> 0"
  by (simp add: allocated_blocks_for_entry_def Let_def)

lemma entry_extents_set_parent [simp]:
  assumes "dirent_wf e"
  shows "entry_extents (set_entry_parent_id p e) = entry_extents e"
proof -
  have m: "entry_extent_meta (set_entry_parent_id p e) = entry_extent_meta e"
    and x: "i < 2 \<Longrightarrow> entry_extra_extent_start (set_entry_parent_id p e) i = entry_extra_extent_start e i"
    and y: "i < 2 \<Longrightarrow> entry_extra_extent_blocks (set_entry_parent_id p e) i = entry_extra_extent_blocks e i" for i
    using assms
    by (simp_all add: dirent_wf_def entry_extent_meta_def set_entry_parent_id_def codec_simps
        entry_extra_extent_start_def entry_extra_extent_blocks_def)
  have "coded_extents (set_entry_parent_id p e) c = coded_extents e c" if "c \<le> 3" for c
    using that by (auto simp: coded_extents_def m x y)
  then show ?thesis by (simp add: entry_extents_def m Let_def)
qed

subsection \<open>Extents\<close>

abbreviation total_blocks :: "lainfs_extent_t list \<Rightarrow> nat" where
  "total_blocks xs \<equiv> sum_list (map (\<lambda>x. unat (ex_blocks x)) xs)"

lemma sum_extents_complete:
  assumes "\<forall>x \<in> set xs. ex_blocks x \<noteq> 0" and "unat t + total_blocks xs = unat req"
  shows "sum_extents req t xs = Some req"
  using assms
proof (induction xs arbitrary: t)
  case Nil
  then show ?case by (simp add: word_unat_eq_iff)
next
  case (Cons x xs)
  have le: "t \<le> req" using Cons.prems(2) by (simp add: word_le_nat_alt)
  then have "\<not> req - t < ex_blocks x"
    using Cons.prems(2) by (simp add: word_less_nat_alt unat_sub)
  moreover have "unat (t + ex_blocks x) = unat t + unat (ex_blocks x)"
    using Cons.prems(2) unat_u32_bound [of req] by (simp add: unat_word_ariths)
  ultimately show ?case
    using Cons by simp
qed

lemma sum_extents_sound:
  assumes "sum_extents req t xs = Some r" and "t \<le> req"
  shows "(\<forall>x \<in> set xs. ex_blocks x \<noteq> 0) \<and> unat r = unat t + total_blocks xs"
  using assms
proof (induction xs arbitrary: t)
  case Nil
  then show ?case by simp
next
  case (Cons x xs)
  have x: "ex_blocks x \<noteq> 0" "ex_blocks x \<le> req - t" "sum_extents req (t + ex_blocks x) xs = Some r"
    using Cons.prems by (auto split: if_splits simp: not_less)
  then have "unat (ex_blocks x) \<le> unat req - unat t"
    using Cons.prems(2) by (simp add: word_le_nat_alt unat_sub)
  then have u: "unat t + unat (ex_blocks x) \<le> unat req"
    using Cons.prems(2) x(1) unat_gt_0 by (fastforce simp: word_le_nat_alt)
  then have "unat (t + ex_blocks x) = unat t + unat (ex_blocks x)"
    using unat_u32_bound [of req] by (simp add: unat_word_ariths)
  with u Cons.IH [OF x(3)] x(1) show ?case
    by (simp add: word_le_nat_alt)
qed

text \<open>What a successful decoding of the extents means.\<close>

lemma entry_extentsD:
  assumes "entry_extents e = Some xs"
  shows "xs \<noteq> []" "length xs \<le> 3" "\<forall>x \<in> set xs. ex_blocks x \<noteq> 0"
    "total_blocks xs = unat (allocated_blocks_for_entry e)"
proof -
  have "length (coded_extents e c) = c" if "c \<noteq> 0" for c
    using that by (simp add: coded_extents_def)
  then have "xs \<noteq> [] \<and> length xs \<le> 3 \<and>
      (xs = [\<lparr>ex_start_lba = de_start_lba e, ex_blocks = allocated_blocks_for_entry e\<rparr>] \<or>
       sum_extents (allocated_blocks_for_entry e) 0 xs = Some (allocated_blocks_for_entry e))"
    using assms by (auto simp: entry_extents_def Let_def split: if_splits option.splits)
  then show "xs \<noteq> []" "length xs \<le> 3" "\<forall>x \<in> set xs. ex_blocks x \<noteq> 0"
    "total_blocks xs = unat (allocated_blocks_for_entry e)"
    using sum_extents_sound [of "allocated_blocks_for_entry e" 0 xs] by auto
qed

lemma extent_meta_fields:
  fixes b :: u32
  assumes "c < 256" and "unat b < 2 ^ 24"
  shows "unat (drop_bit 24 (push_bit 24 (word_of_nat c :: u32) OR (b AND 0x00FFFFFF))) = c"
    and "(push_bit 24 (word_of_nat c) OR (b AND 0x00FFFFFF)) AND 0x00FFFFFF = b"
proof -
  have m: "(0x00FFFFFF :: u32) = mask 24" by (simp add: mask_eq_exp_minus_1)
  have c: "n < 8" if "bit c n" for n
    using that assms(1) nat_high_bits [of c 8 n] by (cases "n < 8") simp_all
  have b: "n < 24" if "bit b n" for n
    using that assms(2) word_high_bits [of b 24 n] by (cases "n < 24") simp_all
  have "drop_bit 24 (push_bit 24 (word_of_nat c :: u32) OR (b AND 0x00FFFFFF)) = word_of_nat c"
    unfolding m by (rule bit_word_eqI) (auto simp: bit_simps dest: c)
  then show "unat (drop_bit 24 (push_bit 24 (word_of_nat c :: u32) OR (b AND 0x00FFFFFF))) = c"
    using assms(1) by (simp add: unat_of_nat_32)
  show "(push_bit 24 (word_of_nat c) OR (b AND 0x00FFFFFF)) AND 0x00FFFFFF = b"
    unfolding m by (rule bit_word_eqI) (auto simp: bit_simps dest: b)
qed

lemma set_entry_extra_extent_wf [simp]:
  "dirent_wf e \<Longrightarrow> i < 2 \<Longrightarrow> dirent_wf (set_entry_extra_extent i a b e)"
  by (simp add: dirent_wf_def set_entry_extra_extent_def Let_def)

lemma set_entry_extra_extent_reads [codec_simps]:
  assumes "dirent_wf e" and "i < 2" and "j < 2"
  shows "entry_extra_extent_start (set_entry_extra_extent i a b e) j =
      (if j = i then a else entry_extra_extent_start e j)"
    and "entry_extra_extent_blocks (set_entry_extra_extent i a b e) j =
      (if j = i then b else entry_extra_extent_blocks e j)"
  using less_2_cases [OF assms(2)] less_2_cases [OF assms(3)] assms(1)
  by (auto simp: dirent_wf_def set_entry_extra_extent_def Let_def codec_simps
      entry_extra_extent_start_def entry_extra_extent_blocks_def)

lemma set_entry_extra_extent_keeps [codec_simps]:
  assumes "dirent_wf e" and "i < 2"
  shows "entry_extent_meta (set_entry_extra_extent i a b e) = entry_extent_meta e"
    and "entry_parent_id (set_entry_extra_extent i a b e) = entry_parent_id e"
  using assms
  by (simp_all add: dirent_wf_def set_entry_extra_extent_def Let_def codec_simps entry_parent_id_def
      entry_extent_meta_def)

lemma set_entry_extra_extent_fields [simp]:
  "de_used (set_entry_extra_extent i a b e) = de_used e"
  "de_name (set_entry_extra_extent i a b e) = de_name e"
  "de_start_lba (set_entry_extra_extent i a b e) = de_start_lba e"
  "de_byte_size (set_entry_extra_extent i a b e) = de_byte_size e"
  by (simp_all add: set_entry_extra_extent_def Let_def)

lemma set_entry_extent_meta_reads [codec_simps]:
  assumes "dirent_wf e"
  shows "entry_extent_meta (set_entry_extent_meta m e) = m"
    and "entry_parent_id (set_entry_extent_meta m e) = entry_parent_id e"
    and "dirent_wf (set_entry_extent_meta m e)"
  using assms
  by (simp_all add: dirent_wf_def set_entry_extent_meta_def entry_extent_meta_def entry_parent_id_def
      codec_simps)

lemma set_entry_extent_meta_fields [simp]:
  "de_used (set_entry_extent_meta m e) = de_used e"
  "de_name (set_entry_extent_meta m e) = de_name e"
  "de_start_lba (set_entry_extent_meta m e) = de_start_lba e"
  "de_byte_size (set_entry_extent_meta m e) = de_byte_size e"
  by (simp_all add: set_entry_extent_meta_def)

lemma set_extra_extents_fields [simp]:
  "de_used (set_extra_extents i xs e) = de_used e"
  "de_name (set_extra_extents i xs e) = de_name e"
  "de_start_lba (set_extra_extents i xs e) = de_start_lba e"
  "de_byte_size (set_extra_extents i xs e) = de_byte_size e"
  by (induction i xs e rule: set_extra_extents.induct) auto

lemma set_entry_extents_fields [simp]:
  "de_used (set_entry_extents xs e) = de_used e"
  "de_name (set_entry_extents xs e) = de_name e"
  "de_start_lba (set_entry_extents xs e) = ex_start_lba (hd xs)"
  "de_byte_size (set_entry_extents xs e) = de_byte_size e"
  by (simp_all add: set_entry_extents_def Let_def)

lemma allocated_blocks_set_extents [simp]:
  "allocated_blocks_for_entry (set_entry_extents xs e) = allocated_blocks_for_entry e"
  by (simp add: allocated_blocks_for_entry_def)

lemma extents_length_cases:
  assumes "xs \<noteq> []" and "length xs \<le> 3"
  obtains x where "xs = [x]" | x y where "xs = [x, y]" | x y z where "xs = [x, y, z]"
  using assms
  by (cases xs; cases "tl xs"; cases "tl (tl xs)"; cases "tl (tl (tl xs))") auto

lemma cleared_entry_reads [codec_simps]:
  assumes "dirent_wf e"
  shows "dirent_wf (e\<lparr>de_reserved := overwrite 4 (replicate 20 0) (de_reserved e), de_start_lba := a\<rparr>)"
    and "entry_extent_meta (e\<lparr>de_reserved := overwrite 4 (replicate 20 0) (de_reserved e),
           de_start_lba := a\<rparr>) = 0"
    and "entry_parent_id (e\<lparr>de_reserved := overwrite 4 (replicate 20 0) (de_reserved e),
           de_start_lba := a\<rparr>) = entry_parent_id e"
proof -
  have "slice 4 4 (overwrite 4 (replicate 20 0) (de_reserved e)) = replicate 4 (0 :: u8)"
    using assms by (simp add: dirent_wf_def slice_def overwrite_def)
  then show "entry_extent_meta (e\<lparr>de_reserved := overwrite 4 (replicate 20 0) (de_reserved e),
      de_start_lba := a\<rparr>) = 0"
    by (simp add: entry_extent_meta_def read_le32_def le32_def numeral_eq_Suc)
qed (use assms in \<open>simp_all add: dirent_wf_def entry_parent_id_def read_le32_def slice_overwrite_other\<close>)

lemma set_entry_extents_wf [simp]:
  assumes "dirent_wf e" and "xs \<noteq> []" and "length xs \<le> 3"
  shows "dirent_wf (set_entry_extents xs e) \<and>
    entry_parent_id (set_entry_extents xs e) = entry_parent_id e"
  using assms(2,3)
  by (cases rule: extents_length_cases)
    (simp_all add: set_entry_extents_def Let_def codec_simps assms(1))

lemma set_entry_extents_coded:
  assumes "dirent_wf e" and "length xs = 2 \<or> length xs = 3" and "unat (ex_blocks (hd xs)) < 2 ^ 24"
  shows "unat (drop_bit 24 (entry_extent_meta (set_entry_extents xs e))) = length xs"
    and "coded_extents (set_entry_extents xs e) (length xs) = xs"
proof -
  have ne: "xs \<noteq> []" "length xs \<le> 3" using assms(2) by auto
  then have m: "entry_extent_meta (set_entry_extents xs e) =
      push_bit 24 (word_of_nat (length xs)) OR (ex_blocks (hd xs) AND 0x00FFFFFF)"
    using assms(1,2)
    by (cases rule: extents_length_cases) (auto simp: set_entry_extents_def codec_simps)
  then show "unat (drop_bit 24 (entry_extent_meta (set_entry_extents xs e))) = length xs"
    using extent_meta_fields(1) [OF _ assms(3)] ne(2) by simp
  from ne show "coded_extents (set_entry_extents xs e) (length xs) = xs"
    using assms extent_meta_fields(2) [of "length xs", OF _ assms(3)]
    by (cases rule: extents_length_cases)
      (simp_all add: coded_extents_def m upt_rec, simp_all add: set_entry_extents_def codec_simps)
qed

lemma entry_extents_set_entry_extents:
  assumes wf: "dirent_wf e" and xs: "xs \<noteq> []" "length xs \<le> 3" "\<forall>x \<in> set xs. ex_blocks x \<noteq> 0"
    and tot: "total_blocks xs = unat (allocated_blocks_for_entry e)"
    and small: "unat (allocated_blocks_for_entry e) < 2 ^ 24"
  shows "entry_extents (set_entry_extents xs e) = Some xs"
proof (cases "length xs \<le> 1")
  case True
  with xs obtain x where x: "xs = [x]" by (cases xs) auto
  with tot have "ex_blocks x = allocated_blocks_for_entry e" by (simp add: word_unat_eq_iff)
  with x wf show ?thesis
    by (simp add: entry_extents_def set_entry_extents_def codec_simps allocated_blocks_for_entry_def)
next
  case False
  let ?e = "set_entry_extents xs e"
  have "unat (ex_blocks (hd xs)) \<le> total_blocks xs" using xs(1) by (cases xs) auto
  then have hd: "unat (ex_blocks (hd xs)) < 2 ^ 24" using tot small by simp
  have len: "length xs = 2 \<or> length xs = 3" using False xs(2) by linarith
  note coded = set_entry_extents_coded [OF wf len hd]
  have "entry_extent_meta ?e \<noteq> 0"
    using coded(1) len by (metis drop_bit_of_0 unat_0 zero_neq_numeral)
  moreover have "sum_extents (allocated_blocks_for_entry e) 0 xs = Some (allocated_blocks_for_entry e)"
    using xs(3) tot by (intro sum_extents_complete) simp_all
  ultimately show ?thesis
    using coded xs(1,2) by (simp add: entry_extents_def)
qed

subsection \<open>The layout functions are inverse to each other\<close>

lemma length_bytes_of_dirent [simp]: "dirent_wf e \<Longrightarrow> length (bytes_of_dirent e) = 64"
  by (simp add: dirent_wf_def bytes_of_dirent_def)

lemma dirent_of_bytes_wf [simp]: "length p = 64 \<Longrightarrow> dirent_wf (dirent_of_bytes p)"
  by (simp add: dirent_wf_def dirent_of_bytes_def)

lemma dirent_of_bytes_of_dirent [codec_simps]: "dirent_wf e \<Longrightarrow> dirent_of_bytes (bytes_of_dirent e) = e"
  by (simp add: dirent_wf_def dirent_of_bytes_def bytes_of_dirent_def read_le32_def slice_def)

lemma length_bytes_of_dir: "\<forall>e \<in> set d. dirent_wf e \<Longrightarrow> length (bytes_of_dir d) = length d * 64"
  by (induction d) (auto simp: bytes_of_dir_def)

lemma dir_of_bytes_of_dir [codec_simps]:
  assumes "length d = LAINFS_MAX_FILES" and "\<forall>e \<in> set d. dirent_wf e"
  shows "dir_of_bytes (bytes_of_dir d) = d"
proof (rule nth_equalityI)
  show "length (dir_of_bytes (bytes_of_dir d)) = length d"
    using assms(1) by (simp add: dir_of_bytes_def)
  fix i
  assume "i < length (dir_of_bytes (bytes_of_dir d))"
  then have i: "i < LAINFS_MAX_FILES" by (simp add: dir_of_bytes_def)
  have "slice (i * 64) 64 (bytes_of_dir d) = bytes_of_dirent (d ! i)"
    using slice_concat_blocks [of "map bytes_of_dirent d" 64 i] assms i by (simp add: bytes_of_dir_def)
  then show "dir_of_bytes (bytes_of_dir d) ! i = d ! i"
    using i assms by (simp add: dir_of_bytes_def dirent_of_bytes_of_dirent)
qed

lemma dir_of_bytes_wf:
  assumes "length p = 131072"
  shows "length (dir_of_bytes p) = LAINFS_MAX_FILES \<and> (\<forall>e \<in> set (dir_of_bytes p). dirent_wf e)"
  using assms by (auto simp: dir_of_bytes_def)

lemma length_bytes_of_super [simp]: "length (sb_reserved sb) = 480 \<Longrightarrow> length (bytes_of_super sb) = 512"
  by (simp add: bytes_of_super_def)

lemma super_of_bytes_of_super [codec_simps]:
  "length (sb_reserved sb) = 480 \<Longrightarrow> super_of_bytes (bytes_of_super sb) = sb"
  by (simp add: super_of_bytes_def bytes_of_super_def read_le32_def slice_def)

subsection \<open>Overlap of block ranges\<close>

text \<open>
  The 32-bit ends wrap around; the test means what it says as long as both ranges end at or
  below the last 32-bit block number.
\<close>

lemma ranges_overlap_iff:
  assumes "unat a + unat n < 2 ^ 32" and "unat b + unat m < 2 ^ 32"
  shows "ranges_overlap a n b m \<longleftrightarrow> unat a < unat b + unat m \<and> unat b < unat a + unat n"
  using assms
  by (simp add: ranges_overlap_def Let_def word_less_nat_alt unat_word_ariths)

definition extent_blocks :: "lainfs_extent_t \<Rightarrow> nat set" where
  "extent_blocks x = {unat (ex_start_lba x) ..< unat (ex_start_lba x) + unat (ex_blocks x)}"

lemma ranges_overlap_disjoint:
  assumes "unat (ex_start_lba x) + unat (ex_blocks x) < 2 ^ 32"
    and "unat (ex_start_lba y) + unat (ex_blocks y) < 2 ^ 32"
    and "ex_blocks x \<noteq> 0" and "ex_blocks y \<noteq> 0"
  shows "ranges_overlap (ex_start_lba x) (ex_blocks x) (ex_start_lba y) (ex_blocks y) \<longleftrightarrow>
    extent_blocks x \<inter> extent_blocks y \<noteq> {}"
proof -
  have "0 < unat (ex_blocks x)" "0 < unat (ex_blocks y)"
    using assms(3,4) by (simp_all add: unat_gt_0)
  then show ?thesis
    unfolding ranges_overlap_iff [OF assms(1,2)] extent_blocks_def
    by (auto simp: disjoint_iff not_le)
qed

text \<open>
  An extent list written into a directory entry is read back unchanged, for one, two or
  three extents: the extents must be non-empty and add up to the blocks the entry's size needs.
\<close>

lemma entry_extents_roundtrip:
  assumes "dirent_wf e" and "xs \<noteq> []" and "length xs \<le> 3"
    and "\<forall>x \<in> set xs. ex_blocks x \<noteq> 0"
    and "total_blocks xs = unat (allocated_blocks_for_entry e)"
    and "unat (allocated_blocks_for_entry e) < 2 ^ 24"
  shows "entry_extents (set_entry_extents xs e) = Some xs \<and>
    entry_parent_id (set_entry_extents xs e) = entry_parent_id e"
  using assms entry_extents_set_entry_extents set_entry_extents_wf by blast

end
