(* ===== verification/Lainfs_Check.thy ===== *)
theory Lainfs_Check
  imports Lainfs_Dirent
begin

text \<open>
  The directory checker and the single-step repair of \<^verbatim>\<open>kernel/fs/lainfs.c\<close>. The directory is the
  list of its 2048 entries; entry ids are 1-based, id 0 is the root. \<open>validate_directory\<close> gives
  the status, the reason and the entry id the C function stores through its out-parameters.
\<close>

abbreviation (input) LAINFS_CHECK_OK :: u32 where "LAINFS_CHECK_OK \<equiv> 0"
abbreviation (input) LAINFS_CHECK_NO_PARTITION :: u32 where "LAINFS_CHECK_NO_PARTITION \<equiv> 1"
abbreviation (input) LAINFS_CHECK_BAD_SUPERBLOCK :: u32 where "LAINFS_CHECK_BAD_SUPERBLOCK \<equiv> 2"
abbreviation (input) LAINFS_CHECK_BAD_LAYOUT :: u32 where "LAINFS_CHECK_BAD_LAYOUT \<equiv> 3"
abbreviation (input) LAINFS_CHECK_BAD_ENTRY_TYPE :: u32 where "LAINFS_CHECK_BAD_ENTRY_TYPE \<equiv> 4"
abbreviation (input) LAINFS_CHECK_BAD_NAME :: u32 where "LAINFS_CHECK_BAD_NAME \<equiv> 5"
abbreviation (input) LAINFS_CHECK_BAD_PARENT :: u32 where "LAINFS_CHECK_BAD_PARENT \<equiv> 6"
abbreviation (input) LAINFS_CHECK_BAD_DIRECTORY :: u32 where "LAINFS_CHECK_BAD_DIRECTORY \<equiv> 7"
abbreviation (input) LAINFS_CHECK_BAD_FILE_SIZE :: u32 where "LAINFS_CHECK_BAD_FILE_SIZE \<equiv> 8"
abbreviation (input) LAINFS_CHECK_BAD_FILE_EXTENT :: u32 where "LAINFS_CHECK_BAD_FILE_EXTENT \<equiv> 9"
abbreviation (input) LAINFS_CHECK_OVERLAPPING_EXTENTS :: u32 where "LAINFS_CHECK_OVERLAPPING_EXTENTS \<equiv> 10"

type_synonym directory = "lainfs_dirent_t list"

definition dir_entry :: "directory \<Rightarrow> nat \<Rightarrow> lainfs_dirent_t" where
  "dir_entry d index = d ! index"

definition entry_id_from_index :: "nat \<Rightarrow> u32" where
  "entry_id_from_index index = word_of_nat index + 1"

definition index_from_entry_id :: "u32 \<Rightarrow> nat" where
  "index_from_entry_id entry_id = unat (entry_id - 1)"

definition valid_dir_id :: "directory \<Rightarrow> u32 \<Rightarrow> bool" where
  "valid_dir_id d dir_id =
     (if dir_id = LAINFS_ROOT_DIR then True
      else if 2048 < dir_id then False
      else de_used (dir_entry d (index_from_entry_id dir_id)) = LAINFS_ENTRY_DIR)"

definition valid_name :: "bytes \<Rightarrow> bool" where
  "valid_name name =
     (let len = length (cstr name) in
      if len = 0 \<or> 30 < len then False
      else \<forall>i \<in> {0..<len}. \<not> (name ! i = 47 \<or> name ! i = 92 \<or> name ! i = 58 \<or>
                               name ! i = 32 \<or> name ! i = 9))"

function name_length :: "bytes \<Rightarrow> nat \<Rightarrow> nat" where
  "name_length name len =
     (if len < 31 \<and> name ! len \<noteq> 0 then name_length name (len + 1) else len)"
  by pat_completeness auto
termination
  by (relation "measure (\<lambda>(name, len). 31 - len)") auto

declare name_length.simps [simp del]

definition entry_name_is_valid :: "bytes \<Rightarrow> bool" where
  "entry_name_is_valid name =
     (let len = name_length name 0 in if 31 \<le> len then False else valid_name name)"

text \<open>
  The walk along the parent ids. The byte array \<^verbatim>\<open>seen\<close> is the set of the marked ids; \<open>Some c\<close> is
  the result 1 with the cycle id \<open>c\<close>, \<open>None\<close> the result 0.
\<close>

function parent_walk :: "directory \<Rightarrow> u32 set \<Rightarrow> u32 \<Rightarrow> u32 option" where
  "parent_walk d seen current =
     (if current = LAINFS_ROOT_DIR then None
      else if 2048 < current then None
      else if current \<in> seen then Some current
      else let entry = dir_entry d (index_from_entry_id current) in
        if de_used entry \<noteq> LAINFS_ENTRY_DIR then None
        else let parent_id = entry_parent_id entry in
          if parent_id = LAINFS_ROOT_DIR then None
          else if 2048 < parent_id then None
          else parent_walk d (insert current seen) parent_id)"
  by pat_completeness auto
termination
  by (relation "measure (\<lambda>(d, seen, current). card (- seen))")
    (auto intro!: psubset_card_mono)

declare parent_walk.simps [simp del]

definition find_directory_parent_cycle :: "directory \<Rightarrow> u32 \<Rightarrow> u32 option" where
  "find_directory_parent_cycle d dir_id =
     (if dir_id = LAINFS_ROOT_DIR \<or> 2048 < dir_id then None else parent_walk d {} dir_id)"

text \<open>
  The loop over the extents of one file: \<open>Some reason\<close> is the early failure. The inner loop
  compares an extent with the later ones of the same file.
\<close>

fun check_file_extents ::
  "partition_t \<Rightarrow> lainfs_superblock_t \<Rightarrow> u32 \<Rightarrow> lainfs_extent_t list \<Rightarrow> u32 option" where
  "check_file_extents part super tot [] = None"
| "check_file_extents part super tot (x # xs) =
     (let end_lba = (ucast (ex_start_lba x) :: u64) + ucast (ex_blocks x) in
      if ex_blocks x = 0 \<or> LAINFS_MAX_FILE_BLOCKS - ex_blocks x < tot \<or>
         ex_start_lba x < sb_data_start_lba super \<or> pt_block_count part < end_lba
      then Some LAINFS_CHECK_BAD_FILE_EXTENT
      else if \<exists>y \<in> set xs. ranges_overlap (ex_start_lba x) (ex_blocks x) (ex_start_lba y) (ex_blocks y)
      then Some LAINFS_CHECK_OVERLAPPING_EXTENTS
      else check_file_extents part super (tot + ex_blocks x) xs)"

text \<open>The checks of one entry: \<open>Some (reason, eid)\<close> is the failure the C loop returns with.\<close>

definition check_entry ::
  "partition_t \<Rightarrow> lainfs_superblock_t \<Rightarrow> directory \<Rightarrow> nat \<Rightarrow> (u32 \<times> u32) option" where
  "check_entry part super d i =
     (let entry = dir_entry d i; eid = entry_id_from_index i; parent_id = entry_parent_id entry in
      if de_used entry = 0 then None
      else if de_used entry \<noteq> LAINFS_ENTRY_FILE \<and> de_used entry \<noteq> LAINFS_ENTRY_DIR
      then Some (LAINFS_CHECK_BAD_ENTRY_TYPE, eid)
      else if \<not> entry_name_is_valid (de_name entry) then Some (LAINFS_CHECK_BAD_NAME, eid)
      else if 2048 < parent_id \<or> parent_id = eid then Some (LAINFS_CHECK_BAD_PARENT, eid)
      else if parent_id \<noteq> LAINFS_ROOT_DIR \<and>
              de_used (dir_entry d (index_from_entry_id parent_id)) \<noteq> LAINFS_ENTRY_DIR
      then Some (LAINFS_CHECK_BAD_PARENT, eid)
      else if de_used entry = LAINFS_ENTRY_DIR then
        (if de_start_lba entry \<noteq> 0 \<or> de_byte_size entry \<noteq> 0 then Some (LAINFS_CHECK_BAD_DIRECTORY, eid)
         else case find_directory_parent_cycle d eid of
           Some cycle_id \<Rightarrow> Some (LAINFS_CHECK_BAD_PARENT, if cycle_id \<noteq> 0 then cycle_id else eid)
         | None \<Rightarrow> None)
      else if LAINFS_FILE_CAPACITY < de_byte_size entry then Some (LAINFS_CHECK_BAD_FILE_SIZE, eid)
      else case entry_extents entry of
        None \<Rightarrow> Some (LAINFS_CHECK_BAD_FILE_EXTENT, eid)
      | Some extents \<Rightarrow>
          (case check_file_extents part super 0 extents of
             None \<Rightarrow> None
           | Some reason \<Rightarrow> Some (reason, eid)))"

fun check_entries ::
  "partition_t \<Rightarrow> lainfs_superblock_t \<Rightarrow> directory \<Rightarrow> nat list \<Rightarrow> (u32 \<times> u32) option" where
  "check_entries part super d [] = None"
| "check_entries part super d (i # is) =
     (case check_entry part super d i of
        Some failure \<Rightarrow> Some failure
      | None \<Rightarrow> check_entries part super d is)"

text \<open>The second pass compares the extents of every two files.\<close>

definition check_pair :: "directory \<Rightarrow> nat \<Rightarrow> nat \<Rightarrow> (u32 \<times> u32) option" where
  "check_pair d i j =
     (if de_used (dir_entry d j) \<noteq> LAINFS_ENTRY_FILE then None
      else case (entry_extents (dir_entry d i), entry_extents (dir_entry d j)) of
        (Some as, Some bs) \<Rightarrow>
          if \<exists>a \<in> set as. \<exists>b \<in> set bs.
               ranges_overlap (ex_start_lba a) (ex_blocks a) (ex_start_lba b) (ex_blocks b)
          then Some (LAINFS_CHECK_OVERLAPPING_EXTENTS, entry_id_from_index j) else None
      | _ \<Rightarrow> Some (LAINFS_CHECK_BAD_FILE_EXTENT, entry_id_from_index j))"

fun check_pairs_from :: "directory \<Rightarrow> nat \<Rightarrow> nat list \<Rightarrow> (u32 \<times> u32) option" where
  "check_pairs_from d i [] = None"
| "check_pairs_from d i (j # js) =
     (case check_pair d i j of
        Some failure \<Rightarrow> Some failure
      | None \<Rightarrow> check_pairs_from d i js)"

fun check_pairs :: "directory \<Rightarrow> nat list \<Rightarrow> (u32 \<times> u32) option" where
  "check_pairs d [] = None"
| "check_pairs d (i # is) =
     (if de_used (dir_entry d i) \<noteq> LAINFS_ENTRY_FILE then check_pairs d is
      else case check_pairs_from d i is of
        Some failure \<Rightarrow> Some failure
      | None \<Rightarrow> check_pairs d is)"

definition validate_directory_fail :: "u32 \<Rightarrow> u32 \<Rightarrow> int \<times> u32 \<times> u32" where
  "validate_directory_fail reason entry_id = (-1, reason, entry_id)"

definition layout_ok :: "partition_t \<Rightarrow> lainfs_superblock_t \<Rightarrow> bool" where
  "layout_ok part super \<longleftrightarrow>
     \<not> (sb_dir_start_lba super = 0 \<or> sb_dir_blocks super = 0 \<or>
        sb_data_start_lba super \<le> sb_dir_start_lba super \<or>
        (ucast (sb_data_start_lba super) :: u64) < ucast (sb_dir_start_lba super) + ucast (sb_dir_blocks super) \<or>
        pt_block_count part \<le> ucast (sb_data_start_lba super))"

definition validate_directory ::
  "partition_t option \<Rightarrow> lainfs_superblock_t \<Rightarrow> directory \<Rightarrow> int \<times> u32 \<times> u32" where
  "validate_directory part super d =
     (case part of
        None \<Rightarrow> validate_directory_fail LAINFS_CHECK_NO_PARTITION 0
      | Some pt \<Rightarrow>
          if \<not> layout_ok pt super then validate_directory_fail LAINFS_CHECK_BAD_LAYOUT 0
          else case check_entries pt super d [0..<LAINFS_MAX_FILES] of
            Some (reason, eid) \<Rightarrow> validate_directory_fail reason eid
          | None \<Rightarrow>
              (case check_pairs d [0..<LAINFS_MAX_FILES] of
                 Some (reason, eid) \<Rightarrow> validate_directory_fail reason eid
               | None \<Rightarrow> (0, LAINFS_CHECK_OK, 0)))"

text \<open>\<open>None\<close> is the result 0 (nothing repaired), \<open>Some d'\<close> the result 1 with the repaired directory.\<close>

definition repair_directory_once ::
  "partition_t option \<Rightarrow> lainfs_superblock_t \<Rightarrow> u32 \<Rightarrow> u32 \<Rightarrow> directory \<Rightarrow> directory option" where
  "repair_directory_once part super reason entry_id d =
     (if entry_id = 0 \<or> 2048 < entry_id then None
      else let i = index_from_entry_id entry_id; entry = dir_entry d i; parent_id = entry_parent_id entry in
        if de_used entry \<noteq> LAINFS_ENTRY_FILE \<and> de_used entry \<noteq> LAINFS_ENTRY_DIR then None
        else if reason = LAINFS_CHECK_BAD_PARENT \<and>
               (2048 < parent_id \<or> parent_id = entry_id \<or>
                (parent_id \<noteq> LAINFS_ROOT_DIR \<and>
                 de_used (dir_entry d (index_from_entry_id parent_id)) \<noteq> LAINFS_ENTRY_DIR) \<or>
                (de_used entry = LAINFS_ENTRY_DIR \<and> find_directory_parent_cycle d entry_id \<noteq> None))
        then Some (d[i := set_entry_parent_id LAINFS_ROOT_DIR entry])
        else if reason = LAINFS_CHECK_BAD_DIRECTORY \<and> de_used entry = LAINFS_ENTRY_DIR
        then Some (d[i := entry\<lparr>de_start_lba := 0, de_byte_size := 0\<rparr>])
        else if reason = LAINFS_CHECK_BAD_FILE_EXTENT \<and> de_used entry = LAINFS_ENTRY_FILE \<and>
                entry_extent_meta entry \<noteq> 0 \<and> legacy_extent_fields_valid part super entry \<and>
                entry_extents entry = None
        then Some (d[i := set_entry_extents
               [\<lparr>ex_start_lba = de_start_lba entry, ex_blocks = allocated_blocks_for_entry entry\<rparr>] entry])
        else None)"

end
