(* ===== verification/Lainfs_Valid.thy ===== *)
theory Lainfs_Valid
  imports Lainfs_Check
begin

text \<open>
  What a valid LainFS directory is, stated without reference to the checker, and the proof that
  the checker decides it. \<open>dir_valid\<close> says: the layout fits the partition; every used entry is a
  file or a directory with an acceptable name whose parent chain ends at the root; a directory
  owns no blocks; the extents of a file have the size its length needs, lie in the data area of
  the partition and do not overlap; and no two files share a block.
\<close>

subsection \<open>The directory tree\<close>

inductive root_depth :: "directory \<Rightarrow> u32 \<Rightarrow> nat \<Rightarrow> bool" where
  root: "root_depth d LAINFS_ROOT_DIR 0"
| step: "eid \<noteq> LAINFS_ROOT_DIR \<Longrightarrow> eid \<le> 2048 \<Longrightarrow>
    de_used (dir_entry d (index_from_entry_id eid)) = LAINFS_ENTRY_DIR \<Longrightarrow>
    root_depth d (entry_parent_id (dir_entry d (index_from_entry_id eid))) n \<Longrightarrow>
    root_depth d eid (Suc n)"

inductive_simps root_depth_root [simp]: "root_depth d LAINFS_ROOT_DIR n"
inductive_cases root_depthE: "root_depth d eid n"
inductive_cases root_depth_SucE: "root_depth d eid (Suc n)"

definition reaches_root :: "directory \<Rightarrow> u32 \<Rightarrow> bool" where
  "reaches_root d eid \<longleftrightarrow> (\<exists>n. root_depth d eid n)"

lemma reaches_root_root [simp]: "reaches_root d LAINFS_ROOT_DIR"
  by (simp add: reaches_root_def)

lemma reaches_root_step:
  assumes "eid \<noteq> LAINFS_ROOT_DIR" and "eid \<le> 2048"
    and "de_used (dir_entry d (index_from_entry_id eid)) = LAINFS_ENTRY_DIR"
  shows "reaches_root d eid \<longleftrightarrow> reaches_root d (entry_parent_id (dir_entry d (index_from_entry_id eid)))"
  using assms by (auto simp: reaches_root_def intro: root_depth.step elim: root_depthE)

lemma reaches_root_dir:
  assumes "reaches_root d eid"
  shows "eid = LAINFS_ROOT_DIR \<or>
    (eid \<le> 2048 \<and> de_used (dir_entry d (index_from_entry_id eid)) = LAINFS_ENTRY_DIR)"
  using assms by (auto simp: reaches_root_def elim: root_depthE)

lemma root_depth_unique: "root_depth d eid n \<Longrightarrow> root_depth d eid m \<Longrightarrow> m = n"
proof (induction arbitrary: m rule: root_depth.induct)
  case (root d)
  then show ?case by simp
next
  case (step eid d n)
  from step.prems step.hyps(1) step.IH show ?case by (auto elim: root_depthE)
qed

lemma reaches_root_no_self:
  assumes "reaches_root d eid" and "eid \<noteq> LAINFS_ROOT_DIR"
  shows "entry_parent_id (dir_entry d (index_from_entry_id eid)) \<noteq> eid"
proof
  assume self: "entry_parent_id (dir_entry d (index_from_entry_id eid)) = eid"
  obtain n where n: "root_depth d eid n" using assms(1) by (auto simp: reaches_root_def)
  with assms(2) self obtain m where "n = Suc m" "root_depth d eid m"
    by (auto elim: root_depthE)
  with n root_depth_unique show False by fastforce
qed

subsection \<open>Valid directories\<close>

definition extent_ok :: "partition_t \<Rightarrow> lainfs_superblock_t \<Rightarrow> lainfs_extent_t \<Rightarrow> bool" where
  "extent_ok part super x \<longleftrightarrow>
     ex_blocks x \<noteq> 0 \<and> sb_data_start_lba super \<le> ex_start_lba x \<and>
     unat (ex_start_lba x) + unat (ex_blocks x) \<le> unat (pt_block_count part)"

definition disjoint_extents :: "lainfs_extent_t list \<Rightarrow> bool" where
  "disjoint_extents xs \<longleftrightarrow> sorted_wrt (\<lambda>x y. extent_blocks x \<inter> extent_blocks y = {}) xs"

definition file_extents_ok :: "partition_t \<Rightarrow> lainfs_superblock_t \<Rightarrow> lainfs_dirent_t \<Rightarrow> bool" where
  "file_extents_ok part super e \<longleftrightarrow>
     de_byte_size e \<le> LAINFS_FILE_CAPACITY \<and>
     (\<exists>xs. entry_extents e = Some xs \<and> (\<forall>x \<in> set xs. extent_ok part super x) \<and> disjoint_extents xs)"

definition file_blocks :: "lainfs_dirent_t \<Rightarrow> nat set" where
  "file_blocks e = (case entry_extents e of None \<Rightarrow> {} | Some xs \<Rightarrow> (\<Union>x \<in> set xs. extent_blocks x))"

definition entry_valid :: "partition_t \<Rightarrow> lainfs_superblock_t \<Rightarrow> directory \<Rightarrow> lainfs_dirent_t \<Rightarrow> bool" where
  "entry_valid part super d e \<longleftrightarrow>
     de_used e = 0 \<or>
     (entry_name_is_valid (de_name e) \<and> reaches_root d (entry_parent_id e) \<and>
      (de_used e = LAINFS_ENTRY_DIR \<and> de_start_lba e = 0 \<and> de_byte_size e = 0 \<or>
       de_used e = LAINFS_ENTRY_FILE \<and> file_extents_ok part super e))"

definition files_disjoint :: "directory \<Rightarrow> bool" where
  "files_disjoint d \<longleftrightarrow>
     (\<forall>i < length d. \<forall>j < length d. i \<noteq> j \<longrightarrow>
        de_used (d ! i) = LAINFS_ENTRY_FILE \<longrightarrow> de_used (d ! j) = LAINFS_ENTRY_FILE \<longrightarrow>
        file_blocks (d ! i) \<inter> file_blocks (d ! j) = {})"

definition dir_valid :: "partition_t \<Rightarrow> lainfs_superblock_t \<Rightarrow> directory \<Rightarrow> bool" where
  "dir_valid part super d \<longleftrightarrow>
     layout_ok part super \<and> (\<forall>e \<in> set d. entry_valid part super d e) \<and> files_disjoint d"

subsection \<open>The parent walk finds exactly the chains that miss the root\<close>

lemma parent_walk_complete:
  assumes "root_depth d cur n" and "\<forall>x \<in> seen. \<forall>m. root_depth d x m \<longrightarrow> n < m"
  shows "parent_walk d seen cur = None"
  using assms
proof (induction arbitrary: seen rule: root_depth.induct)
  case (root d)
  then show ?case by (simp add: parent_walk.simps)
next
  case (step eid d n)
  have depth: "root_depth d eid (Suc n)" using step.hyps by (rule root_depth.step)
  with step.prems have "eid \<notin> seen" by blast
  moreover have "n < m" if "x \<in> insert eid seen" "root_depth d x m" for x m
  proof (cases "x = eid")
    case True
    with that(2) have "m = Suc n" using root_depth_unique [OF depth] by blast
    then show ?thesis by simp
  next
    case False
    with that step.prems have "Suc n < m" by blast
    then show ?thesis by simp
  qed
  then have "parent_walk d (insert eid seen) (entry_parent_id (dir_entry d (index_from_entry_id eid))) = None"
    by (intro step.IH) blast
  ultimately show ?case
    using step.hyps by (simp add: parent_walk.simps [of d seen eid] Let_def)
qed

lemma find_cycle_None:
  assumes "reaches_root d eid"
  shows "find_directory_parent_cycle d eid = None"
  using assms parent_walk_complete [of d eid _ "{}"]
  by (auto simp: find_directory_parent_cycle_def reaches_root_def)

text \<open>
  The converse needs that every directory entry names the root or a directory as its parent,
  which the checker has tested before it starts the walk of a later entry.
\<close>

definition parents_are_dirs :: "directory \<Rightarrow> bool" where
  "parents_are_dirs d \<longleftrightarrow> (\<forall>eid. eid \<noteq> LAINFS_ROOT_DIR \<longrightarrow> eid \<le> 2048 \<longrightarrow>
     de_used (dir_entry d (index_from_entry_id eid)) = LAINFS_ENTRY_DIR \<longrightarrow>
     valid_dir_id d (entry_parent_id (dir_entry d (index_from_entry_id eid))))"

lemma parent_walk_sound:
  assumes "parents_are_dirs d" and "valid_dir_id d cur" and "parent_walk d seen cur = None"
  shows "reaches_root d cur"
  using assms
proof (induction d seen cur rule: parent_walk.induct)
  case (1 d seen cur)
  show ?case
  proof (cases "cur = LAINFS_ROOT_DIR")
    case True
    then show ?thesis by simp
  next
    case False
    let ?e = "dir_entry d (index_from_entry_id cur)"
    from False "1.prems"(2) have cur: "cur \<le> 2048" "de_used ?e = LAINFS_ENTRY_DIR"
      by (auto simp: valid_dir_id_def not_less split: if_splits)
    then have parent: "valid_dir_id d (entry_parent_id ?e)"
      using "1.prems"(1) False by (auto simp: parents_are_dirs_def)
    have "reaches_root d (entry_parent_id ?e)"
    proof (cases "entry_parent_id ?e = LAINFS_ROOT_DIR")
      case False
      then have "\<not> 2048 < entry_parent_id ?e"
        using parent by (auto simp: valid_dir_id_def split: if_splits)
      moreover have "parent_walk d (insert cur seen) (entry_parent_id ?e) = None \<and> cur \<notin> seen"
        using "1.prems"(3) cur \<open>cur \<noteq> LAINFS_ROOT_DIR\<close> False calculation
        by (subst (asm) parent_walk.simps) (auto simp: Let_def not_less split: if_splits)
      ultimately show ?thesis
        using "1.IH" "1.prems"(1) cur \<open>cur \<noteq> LAINFS_ROOT_DIR\<close> False parent by (auto simp: not_less)
    qed simp
    with False cur show ?thesis by (simp add: reaches_root_step)
  qed
qed

subsection \<open>Extents\<close>

lemma blocks_for_size_bound:
  assumes "sz \<le> LAINFS_FILE_CAPACITY"
  shows "unat (blocks_for_size sz) = (unat sz + 511) div 512" and "unat (blocks_for_size sz) \<le> 8192"
proof -
  have sz: "unat sz \<le> 4194304" using assms by (simp add: word_le_nat_alt)
  then have "unat (sz + 511) = unat sz + 511" by (simp add: unat_word_ariths)
  moreover have "blocks_for_size sz = (sz + 511) div 512"
    by (simp add: blocks_for_size_def add.commute)
  ultimately show "unat (blocks_for_size sz) = (unat sz + 511) div 512"
    by (simp add: unat_div)
  with sz show "unat (blocks_for_size sz) \<le> 8192" by simp
qed

lemma allocated_blocks_bound:
  assumes "de_byte_size e \<le> LAINFS_FILE_CAPACITY"
  shows "unat (allocated_blocks_for_entry e) \<le> 8192"
  using blocks_for_size_bound(2) [OF assms] by (simp add: allocated_blocks_for_entry_def Let_def)

lemma extent_ok_ends:
  assumes "unat (pt_block_count part) < 2 ^ 32" and "extent_ok part super x"
  shows "unat (ex_start_lba x) + unat (ex_blocks x) < 2 ^ 32"
  using assms by (simp add: extent_ok_def)

lemma ranges_overlap_extents:
  assumes "unat (pt_block_count part) < 2 ^ 32" and "extent_ok part super x" and "extent_ok part super y"
  shows "ranges_overlap (ex_start_lba x) (ex_blocks x) (ex_start_lba y) (ex_blocks y) \<longleftrightarrow>
    extent_blocks x \<inter> extent_blocks y \<noteq> {}"
  using assms extent_ok_ends by (intro ranges_overlap_disjoint) (auto simp: extent_ok_def)

lemma extent_test_iff:
  assumes "unat (ex_blocks x) + unat tot \<le> 8192"
  shows "(ex_blocks x = 0 \<or> LAINFS_MAX_FILE_BLOCKS - ex_blocks x < tot \<or>
         ex_start_lba x < sb_data_start_lba super \<or>
         pt_block_count part < (ucast (ex_start_lba x) :: u64) + ucast (ex_blocks x)) \<longleftrightarrow>
    \<not> extent_ok part super x"
proof -
  have "ex_blocks x \<le> 8192" using assms by (simp add: word_le_nat_alt)
  then have "\<not> LAINFS_MAX_FILE_BLOCKS - ex_blocks x < tot"
    using assms by (simp add: word_less_nat_alt unat_sub)
  moreover have "unat ((ucast (ex_start_lba x) :: u64) + ucast (ex_blocks x)) =
      unat (ex_start_lba x) + unat (ex_blocks x)"
    using unat_u32_bound [of "ex_start_lba x"] unat_u32_bound [of "ex_blocks x"]
    by (simp add: unat_word_ariths)
  ultimately show ?thesis
    by (auto simp: extent_ok_def word_less_nat_alt word_le_nat_alt not_less)
qed

lemma check_file_extents_iff:
  assumes "unat (pt_block_count part) < 2 ^ 32" and "unat tot + total_blocks xs \<le> 8192"
  shows "check_file_extents part super tot xs = None \<longleftrightarrow>
    (\<forall>x \<in> set xs. extent_ok part super x) \<and> disjoint_extents xs"
  using assms(2)
proof (induction xs arbitrary: tot)
  case Nil
  then show ?case by (simp add: disjoint_extents_def)
next
  case (Cons x xs)
  have x: "unat (ex_blocks x) + unat tot \<le> 8192" using Cons.prems by simp
  then have "unat (tot + ex_blocks x) = unat tot + unat (ex_blocks x)"
    by (simp add: unat_word_ariths)
  then have IH: "check_file_extents part super (tot + ex_blocks x) xs = None \<longleftrightarrow>
      (\<forall>x \<in> set xs. extent_ok part super x) \<and> disjoint_extents xs"
    using Cons.prems by (intro Cons.IH) simp
  show ?case
  proof (cases "\<forall>y \<in> set (x # xs). extent_ok part super y")
    case True
    then have "ranges_overlap (ex_start_lba x) (ex_blocks x) (ex_start_lba y) (ex_blocks y) \<longleftrightarrow>
        extent_blocks x \<inter> extent_blocks y \<noteq> {}" if "y \<in> set xs" for y
      using that by (intro ranges_overlap_extents [OF assms(1)]) auto
    then have "(\<exists>y \<in> set xs. ranges_overlap (ex_start_lba x) (ex_blocks x) (ex_start_lba y) (ex_blocks y)) \<longleftrightarrow>
        \<not> (\<forall>y \<in> set xs. extent_blocks x \<inter> extent_blocks y = {})"
      by blast
    with IH True show ?thesis
      by (simp add: extent_test_iff [OF x] Let_def disjoint_extents_def)
  next
    case False
    with IH show ?thesis by (auto simp: extent_test_iff [OF x] Let_def)
  qed
qed

lemma file_extents_checked:
  assumes "unat (pt_block_count part) < 2 ^ 32" and "de_byte_size e \<le> LAINFS_FILE_CAPACITY"
    and "entry_extents e = Some xs"
  shows "check_file_extents part super 0 xs = None \<longleftrightarrow> file_extents_ok part super e"
  using assms entry_extentsD [OF assms(3)] allocated_blocks_bound [OF assms(2)]
  by (simp add: check_file_extents_iff file_extents_ok_def)

subsection \<open>The checker decides validity\<close>

lemma check_entries_iff:
  "check_entries part super d is = None \<longleftrightarrow> (\<forall>i \<in> set is. check_entry part super d i = None)"
  by (induction "is") (auto split: option.splits)

lemma check_pairs_from_iff:
  "check_pairs_from d i js = None \<longleftrightarrow> (\<forall>j \<in> set js. check_pair d i j = None)"
  by (induction js) (auto split: option.splits)

lemma check_pairs_iff:
  "check_pairs d is = None \<longleftrightarrow>
    sorted_wrt (\<lambda>i j. de_used (dir_entry d i) = LAINFS_ENTRY_FILE \<longrightarrow> check_pair d i j = None) is"
proof (induction "is")
  case Nil
  then show ?case by simp
next
  case (Cons i "is")
  then show ?case
    using check_pairs_from_iff [of d i "is"]
    by (cases "check_pairs_from d i is") (auto simp del: split_paired_All)
qed

lemma entry_ids:
  assumes "i < LAINFS_MAX_FILES"
  shows "entry_id_from_index i \<noteq> 0" "entry_id_from_index i \<le> 2048"
    "index_from_entry_id (entry_id_from_index i) = i" "unat (entry_id_from_index i) = i + 1"
proof -
  have "unat (word_of_nat i + 1 :: u32) = i + 1"
    using assms by (simp add: unat_word_ariths unat_of_nat_32)
  then show "unat (entry_id_from_index i) = i + 1" by (simp add: entry_id_from_index_def)
  then show "entry_id_from_index i \<noteq> 0" "entry_id_from_index i \<le> 2048"
    using assms by (auto simp: word_le_nat_alt)
  show "index_from_entry_id (entry_id_from_index i) = i"
    using assms by (simp add: index_from_entry_id_def entry_id_from_index_def unat_of_nat_32)
qed

lemma entry_id_index:
  assumes "eid \<noteq> 0" and "eid \<le> 2048"
  shows "index_from_entry_id eid < LAINFS_MAX_FILES" "entry_id_from_index (index_from_entry_id eid) = eid"
proof -
  have "unat (eid - 1) = unat eid - 1" using assms(1) by (simp add: unat_minus_one)
  moreover have "0 < unat eid" "unat eid \<le> 2048"
    using assms by (simp_all add: unat_gt_0 word_le_nat_alt)
  ultimately show "index_from_entry_id eid < LAINFS_MAX_FILES" by (simp add: index_from_entry_id_def)
  show "entry_id_from_index (index_from_entry_id eid) = eid"
    by (simp add: entry_id_from_index_def index_from_entry_id_def)
qed

lemma check_entry_complete:
  assumes part: "unat (pt_block_count part) < 2 ^ 32" and i: "i < LAINFS_MAX_FILES"
    and valid: "entry_valid part super d (d ! i)"
  shows "check_entry part super d i = None"
proof (cases "de_used (d ! i) = 0")
  case True
  then show ?thesis by (simp add: check_entry_def dir_entry_def)
next
  case False
  let ?e = "d ! i" and ?id = "entry_id_from_index i" and ?p = "entry_parent_id (d ! i)"
  from valid False have name: "entry_name_is_valid (de_name ?e)" and root: "reaches_root d ?p"
    by (auto simp: entry_valid_def)
  have p: "\<not> 2048 < ?p" "?p \<noteq> 0 \<longrightarrow> de_used (d ! index_from_entry_id ?p) = LAINFS_ENTRY_DIR"
    using reaches_root_dir [OF root] by (auto simp: dir_entry_def)
  have dir: "de_used ?e = LAINFS_ENTRY_DIR \<Longrightarrow> reaches_root d ?id"
    using reaches_root_step [of ?id d] entry_ids [OF i] root by (simp add: dir_entry_def)
  have self: "?p \<noteq> ?id"
  proof
    assume eq: "?p = ?id"
    with p(2) entry_ids [OF i] have "de_used ?e = LAINFS_ENTRY_DIR" by simp
    then show False
      using reaches_root_no_self [of d ?id] dir entry_ids [OF i] eq by (simp add: dir_entry_def)
  qed
  from valid False consider
      "de_used ?e = LAINFS_ENTRY_DIR" "de_start_lba ?e = 0" "de_byte_size ?e = 0"
    | "de_used ?e = LAINFS_ENTRY_FILE" "file_extents_ok part super ?e"
    by (auto simp: entry_valid_def)
  then show ?thesis
  proof cases
    case 1
    then show ?thesis
      using name p self find_cycle_None [OF dir] by (auto simp: check_entry_def dir_entry_def Let_def)
  next
    case 2
    then obtain xs where xs: "entry_extents ?e = Some xs" "de_byte_size ?e \<le> LAINFS_FILE_CAPACITY"
      by (auto simp: file_extents_ok_def)
    with 2 part have "check_file_extents part super 0 xs = None" by (simp add: file_extents_checked)
    with 2 name p self xs show ?thesis
      by (auto simp: check_entry_def dir_entry_def Let_def)
  qed
qed

lemma check_entry_sound:
  assumes part: "unat (pt_block_count part) < 2 ^ 32" and used: "de_used (d ! i) \<noteq> 0"
    and ok: "check_entry part super d i = None"
  shows "entry_name_is_valid (de_name (d ! i))" "valid_dir_id d (entry_parent_id (d ! i))"
    "de_used (d ! i) = LAINFS_ENTRY_DIR \<and> de_start_lba (d ! i) = 0 \<and> de_byte_size (d ! i) = 0 \<and>
       find_directory_parent_cycle d (entry_id_from_index i) = None \<or>
     de_used (d ! i) = LAINFS_ENTRY_FILE \<and> file_extents_ok part super (d ! i)"
  using used ok
  by (auto simp: check_entry_def dir_entry_def valid_dir_id_def Let_def file_extents_checked [OF part]
      not_less split: if_splits option.splits)

lemma check_entries_sound:
  assumes part: "unat (pt_block_count part) < 2 ^ 32" and d: "length d = LAINFS_MAX_FILES"
    and ok: "\<forall>i < LAINFS_MAX_FILES. check_entry part super d i = None"
  shows "\<forall>e \<in> set d. entry_valid part super d e"
proof
  have pd: "parents_are_dirs d"
    unfolding parents_are_dirs_def
  proof (intro allI impI)
    fix eid
    assume eid: "eid \<noteq> LAINFS_ROOT_DIR" "eid \<le> 2048"
      "de_used (dir_entry d (index_from_entry_id eid)) = LAINFS_ENTRY_DIR"
    with entry_id_index [OF eid(1,2)] ok check_entry_sound(2) [OF part, of d "index_from_entry_id eid"]
    show "valid_dir_id d (entry_parent_id (dir_entry d (index_from_entry_id eid)))"
      by (auto simp: dir_entry_def)
  qed
  have walk: "reaches_root d p" if p: "valid_dir_id d p" for p
  proof (cases "p = LAINFS_ROOT_DIR")
    case False
    with p have p': "p \<le> 2048" "de_used (d ! index_from_entry_id p) = LAINFS_ENTRY_DIR"
      by (auto simp: valid_dir_id_def dir_entry_def not_less split: if_splits)
    note ids = entry_id_index [OF False p'(1)]
    have "find_directory_parent_cycle d p = None"
      using check_entry_sound(3) [OF part, of d "index_from_entry_id p"] ok ids p'(2) by auto
    then show ?thesis
      using parent_walk_sound [OF pd p] False p'(1)
      by (auto simp: find_directory_parent_cycle_def not_less split: if_splits)
  qed simp
  fix e
  assume "e \<in> set d"
  then obtain i where i: "i < LAINFS_MAX_FILES" "e = d ! i"
    using d by (auto simp: in_set_conv_nth)
  show "entry_valid part super d e"
  proof (cases "de_used (d ! i) = 0")
    case True
    with i show ?thesis by (simp add: entry_valid_def)
  next
    case False
    note sound = check_entry_sound [OF part False, of super]
    show ?thesis
      using sound ok i walk by (auto simp: entry_valid_def)
  qed
qed

lemma check_pair_iff:
  assumes part: "unat (pt_block_count part) < 2 ^ 32"
    and i: "file_extents_ok part super (d ! i)" and j: "file_extents_ok part super (d ! j)"
  shows "check_pair d i j = None \<longleftrightarrow>
    (de_used (d ! j) = LAINFS_ENTRY_FILE \<longrightarrow> file_blocks (d ! i) \<inter> file_blocks (d ! j) = {})"
proof -
  obtain as bs where ext: "entry_extents (d ! i) = Some as" "entry_extents (d ! j) = Some bs"
    and ok: "\<forall>a \<in> set as. extent_ok part super a" "\<forall>b \<in> set bs. extent_ok part super b"
    using i j by (auto simp: file_extents_ok_def)
  have "ranges_overlap (ex_start_lba a) (ex_blocks a) (ex_start_lba b) (ex_blocks b) \<longleftrightarrow>
      extent_blocks a \<inter> extent_blocks b \<noteq> {}" if "a \<in> set as" "b \<in> set bs" for a b
    using that ok by (intro ranges_overlap_extents [OF part]) auto
  then have "(\<exists>a \<in> set as. \<exists>b \<in> set bs.
      ranges_overlap (ex_start_lba a) (ex_blocks a) (ex_start_lba b) (ex_blocks b)) \<longleftrightarrow>
      file_blocks (d ! i) \<inter> file_blocks (d ! j) \<noteq> {}"
    unfolding file_blocks_def ext option.case by blast
  then show ?thesis
    by (simp add: check_pair_def dir_entry_def ext)
qed

lemma sorted_wrt_upt_iff: "sorted_wrt P [0..<n] \<longleftrightarrow> (\<forall>j < n. \<forall>i < j. P i j)"
  by (auto simp: sorted_wrt_iff_nth_less)

lemma check_pairs_files_disjoint:
  assumes part: "unat (pt_block_count part) < 2 ^ 32" and d: "length d = LAINFS_MAX_FILES"
    and ok: "\<forall>e \<in> set d. entry_valid part super d e"
  shows "check_pairs d [0..<LAINFS_MAX_FILES] = None \<longleftrightarrow> files_disjoint d"
proof -
  have fe: "file_extents_ok part super (d ! i)" if "i < LAINFS_MAX_FILES" "de_used (d ! i) = LAINFS_ENTRY_FILE" for i
    using that ok d nth_mem [of i d] by (fastforce simp: entry_valid_def)
  have pair: "check_pair d i j = None \<longleftrightarrow>
      (de_used (d ! j) = LAINFS_ENTRY_FILE \<longrightarrow> file_blocks (d ! i) \<inter> file_blocks (d ! j) = {})"
    if "i < LAINFS_MAX_FILES" "j < LAINFS_MAX_FILES" "de_used (d ! i) = LAINFS_ENTRY_FILE" for i j
  proof (cases "de_used (d ! j) = LAINFS_ENTRY_FILE")
    case True
    with that show ?thesis using check_pair_iff [OF part fe fe] by blast
  next
    case False
    then show ?thesis by (simp add: check_pair_def dir_entry_def)
  qed
  show ?thesis
  proof
    assume "check_pairs d [0..<LAINFS_MAX_FILES] = None"
    then have lt: "file_blocks (d ! i) \<inter> file_blocks (d ! j) = {}"
      if "j < LAINFS_MAX_FILES" "i < j" "de_used (d ! i) = LAINFS_ENTRY_FILE" "de_used (d ! j) = LAINFS_ENTRY_FILE" for i j
      using that pair [of i j] by (simp add: check_pairs_iff sorted_wrt_upt_iff dir_entry_def)
    show "files_disjoint d"
      unfolding files_disjoint_def d
    proof (intro allI impI)
      fix i j
      assume "i < LAINFS_MAX_FILES" "j < LAINFS_MAX_FILES" "i \<noteq> j"
        "de_used (d ! i) = LAINFS_ENTRY_FILE" "de_used (d ! j) = LAINFS_ENTRY_FILE"
      then show "file_blocks (d ! i) \<inter> file_blocks (d ! j) = {}"
        using lt [of i j] lt [of j i] by (cases "i < j") (auto simp: Int_commute)
    qed
  next
    assume "files_disjoint d"
    then show "check_pairs d [0..<LAINFS_MAX_FILES] = None"
      using pair d
      by (simp add: check_pairs_iff sorted_wrt_upt_iff dir_entry_def files_disjoint_def)
  qed
qed

lemma validate_directory_iff:
  assumes part: "unat (pt_block_count part) < 2 ^ 32" and d: "length d = LAINFS_MAX_FILES"
  shows "fst (validate_directory (Some part) super d) = 0 \<longleftrightarrow> dir_valid part super d"
proof -
  have "check_entries part super d [0..<LAINFS_MAX_FILES] = None \<longleftrightarrow>
      (\<forall>e \<in> set d. entry_valid part super d e)"
    using check_entries_sound [OF part d] check_entry_complete [OF part] d
    by (auto simp: check_entries_iff)
  then show ?thesis
    using check_pairs_files_disjoint [OF part d]
    by (auto simp: validate_directory_def validate_directory_fail_def dir_valid_def split: option.splits)
qed

end
