(* ===== verification/Lainfs_Alloc.thy ===== *)
theory Lainfs_Alloc
  imports Lainfs_Valid
begin

text \<open>
  Searching the directory and allocating blocks (\<^verbatim>\<open>kernel/fs/lainfs.c\<close>). A pointer to an entry is
  the entry's index; a null result is \<open>None\<close>. The allocator \<open>find_free_extents\<close> takes the longest
  run of free blocks first and gives at most three extents. Block numbers inside its loops are
  natural numbers below the partition's block count, cast to 32 bits where the code casts.
\<close>

subsection \<open>Searching\<close>

definition find_entry_in_dir :: "directory \<Rightarrow> u32 \<Rightarrow> bytes \<Rightarrow> nat option" where
  "find_entry_in_dir d parent_id name =
     find (\<lambda>i. de_used (dir_entry d i) \<noteq> 0 \<and> entry_parent_id (dir_entry d i) = parent_id \<and>
               str_eq (de_name (dir_entry d i)) name) [0..<LAINFS_MAX_FILES]"

definition find_free_entry :: "directory \<Rightarrow> nat option" where
  "find_free_entry d = find (\<lambda>i. de_used (dir_entry d i) = 0) [0..<LAINFS_MAX_FILES]"

definition dir_has_children :: "directory \<Rightarrow> u32 \<Rightarrow> bool" where
  "dir_has_children d parent_id =
     (find (\<lambda>i. de_used (dir_entry d i) \<noteq> 0 \<and> entry_parent_id (dir_entry d i) = parent_id)
        [0..<LAINFS_MAX_FILES] \<noteq> None)"

text \<open>The loop ends only if the parent chain does: not returning is \<open>None\<close>.\<close>

partial_function (option) dir_is_descendant_of :: "directory \<Rightarrow> u32 \<Rightarrow> u32 \<Rightarrow> bool option" where
  "dir_is_descendant_of d current ancestor_id =
     (if current \<noteq> LAINFS_ROOT_DIR
      then if 2048 < current then Some False
           else if current = ancestor_id then Some True
           else if de_used (dir_entry d (index_from_entry_id current)) \<noteq> LAINFS_ENTRY_DIR then Some False
           else dir_is_descendant_of d (entry_parent_id (dir_entry d (index_from_entry_id current))) ancestor_id
      else Some (ancestor_id = LAINFS_ROOT_DIR))"

subsection \<open>Free blocks\<close>

fun free_scan :: "directory \<Rightarrow> u32 \<Rightarrow> u32 \<Rightarrow> nat \<Rightarrow> nat list \<Rightarrow> bool" where
  "free_scan d start_lba blocks ignore [] = True"
| "free_scan d start_lba blocks ignore (i # is) =
     (if i = ignore \<or> de_used (dir_entry d i) \<noteq> LAINFS_ENTRY_FILE
      then free_scan d start_lba blocks ignore is
      else case entry_extents (dir_entry d i) of
        None \<Rightarrow> False
      | Some extents \<Rightarrow>
          if \<exists>x \<in> set extents. ranges_overlap start_lba blocks (ex_start_lba x) (ex_blocks x) then False
          else free_scan d start_lba blocks ignore is)"

definition extent_is_free :: "lainfs_superblock_t \<Rightarrow> directory \<Rightarrow> u32 \<Rightarrow> u32 \<Rightarrow> nat \<Rightarrow> bool" where
  "extent_is_free super d start_lba blocks ignore =
     (if blocks = 0 \<or> start_lba < sb_data_start_lba super then False
      else free_scan d start_lba blocks ignore [0..<LAINFS_MAX_FILES])"

definition extent_overlaps_selected :: "u32 \<Rightarrow> u32 \<Rightarrow> lainfs_extent_t list \<Rightarrow> bool" where
  "extent_overlaps_selected start_lba blocks selected =
     (\<exists>x \<in> set selected. ranges_overlap start_lba blocks (ex_start_lba x) (ex_blocks x))"

definition block_free ::
  "lainfs_superblock_t \<Rightarrow> directory \<Rightarrow> nat \<Rightarrow> lainfs_extent_t list \<Rightarrow> nat \<Rightarrow> bool" where
  "block_free super d ignore selected start =
     (extent_is_free super d (word_of_nat start) 1 ignore \<and>
      \<not> extent_overlaps_selected (word_of_nat start) 1 selected)"

text \<open>The two inner \<^verbatim>\<open>while\<close> loops, over a test for free blocks.\<close>

function skip_used :: "(nat \<Rightarrow> bool) \<Rightarrow> nat \<Rightarrow> nat \<Rightarrow> nat" where
  "skip_used free data_end start =
     (if start < data_end \<and> \<not> free start then skip_used free data_end (start + 1) else start)"
  by pat_completeness auto
termination
  by (relation "measure (\<lambda>(free, data_end, start). data_end - start)") auto

function grow_run :: "(nat \<Rightarrow> bool) \<Rightarrow> nat \<Rightarrow> nat \<Rightarrow> nat \<Rightarrow> nat \<Rightarrow> nat \<times> nat" where
  "grow_run free data_end remaining start run =
     (if start < data_end \<and> run < remaining \<and> free start
      then grow_run free data_end remaining (start + 1) (run + 1) else (run, start))"
  by pat_completeness auto
termination
  by (relation "measure (\<lambda>(free, data_end, remaining, start, run). data_end - start)") auto

declare skip_used.simps [simp del] grow_run.simps [simp del]

lemma skip_used_le: "start \<le> skip_used free data_end start"
proof (induction free data_end start rule: skip_used.induct)
  case (1 free data_end start)
  then show ?case by (cases "start < data_end \<and> \<not> free start") (auto simp: skip_used.simps [of free data_end start])
qed

lemma skip_used_stop: "skip_used free data_end start < data_end \<Longrightarrow> free (skip_used free data_end start)"
proof (induction free data_end start rule: skip_used.induct)
  case (1 free data_end start)
  then show ?case
    by (cases "start < data_end \<and> \<not> free start") (auto simp: skip_used.simps [of free data_end start])
qed

lemma skip_used_end: "start \<le> data_end \<Longrightarrow> skip_used free data_end start \<le> data_end"
proof (induction free data_end start rule: skip_used.induct)
  case (1 free data_end start)
  then show ?case
    by (cases "start < data_end \<and> \<not> free start") (auto simp: skip_used.simps [of free data_end start])
qed

lemma grow_run_spec:
  assumes "grow_run free data_end remaining start run = (run', start')" and "start \<le> data_end" and "run \<le> remaining"
  shows "start' + run = start + run' \<and> run \<le> run' \<and> run' \<le> remaining \<and> start' \<le> data_end \<and>
    (\<forall>k. start \<le> k \<longrightarrow> k < start' \<longrightarrow> free k) \<and>
    (run' = remaining \<or> start' = data_end \<or> \<not> free start')"
  using assms
proof (induction free data_end remaining start run rule: grow_run.induct)
  case (1 free data_end remaining start run)
  show ?case
  proof (cases "start < data_end \<and> run < remaining \<and> free start")
    case True
    with "1.prems"(1) have "grow_run free data_end remaining (start + 1) (run + 1) = (run', start')"
      by (simp add: grow_run.simps [of free data_end remaining start run])
    with "1.IH" True have "start' + (run + 1) = start + 1 + run' \<and> run + 1 \<le> run' \<and> run' \<le> remaining \<and>
        start' \<le> data_end \<and> (\<forall>k. start + 1 \<le> k \<longrightarrow> k < start' \<longrightarrow> free k) \<and>
        (run' = remaining \<or> start' = data_end \<or> \<not> free start')"
      by simp
    with True show ?thesis
      by (auto simp: Suc_le_eq) (metis le_eq_less_or_eq)+
  next
    case False
    with "1.prems" show ?thesis by (auto simp: grow_run.simps [of free data_end remaining start run])
  qed
qed

text \<open>
  The scan for the longest run: \<open>best\<close> is the pair \<^verbatim>\<open>best_start\<close>, \<^verbatim>\<open>best_run\<close>. It runs inside the loop
  over \<^verbatim>\<open>remaining\<close>, so \<^verbatim>\<open>remaining\<close> is not 0.
\<close>

function best_scan :: "(nat \<Rightarrow> bool) \<Rightarrow> nat \<Rightarrow> nat \<Rightarrow> nat \<Rightarrow> u32 \<times> nat \<Rightarrow> u32 \<times> nat" where
  "best_scan free data_end remaining start best =
     (if start < data_end \<and> remaining \<noteq> 0
      then let run_start = skip_used free data_end start;
               (run, next) = grow_run free data_end remaining run_start 0
           in if snd best < run
              then if run = remaining then (word_of_nat run_start, run)
                   else best_scan free data_end remaining next (word_of_nat run_start, run)
              else best_scan free data_end remaining next best
      else best)"
  by pat_completeness auto

lemma scan_progress:
  assumes "start < data_end" and "remaining \<noteq> 0"
    and "grow_run free data_end remaining (skip_used free data_end start) 0 = (run, next)"
  shows "start < next"
proof (cases "skip_used free data_end start < data_end")
  case True
  then have "free (skip_used free data_end start)" by (rule skip_used_stop)
  with assms True have "grow_run free data_end remaining (skip_used free data_end start + 1) 1 = (run, next)"
    by (simp add: grow_run.simps [of free data_end remaining "skip_used free data_end start" 0])
  then have "skip_used free data_end start + 1 \<le> next"
    using grow_run_spec [of free data_end remaining "skip_used free data_end start + 1" 1 run "next"] assms(2) True
    by auto
  then show ?thesis using skip_used_le [of start free data_end] by simp
next
  case False
  then have "next = skip_used free data_end start"
    using assms(3) by (simp add: grow_run.simps [of free data_end remaining "skip_used free data_end start" 0])
  with False assms(1) show ?thesis by simp
qed

termination best_scan
proof (relation "measure (\<lambda>(free, data_end, remaining, start, best). data_end - start)", goal_cases)
  case 1
  show ?case by simp
next
  case (2 free data_end remaining start best run_start x run "next")
  then have "start < next" by (intro scan_progress [of start data_end remaining free run "next"]) auto
  with 2 show ?case by auto
next
  case (3 free data_end remaining start best run_start x run "next")
  then have "start < next" by (intro scan_progress [of start data_end remaining free run "next"]) auto
  with 3 show ?case by auto
qed

declare best_scan.simps [simp del]

function extent_loop ::
  "(lainfs_extent_t list \<Rightarrow> nat \<Rightarrow> bool) \<Rightarrow> nat \<Rightarrow> nat \<Rightarrow> nat \<Rightarrow> lainfs_extent_t list \<Rightarrow> lainfs_extent_t list option" where
  "extent_loop free data_start data_end remaining selected =
     (if remaining = 0 then Some selected
      else let (best_start, best_run) = best_scan (free selected) data_end remaining data_start (0, 0)
           in if best_run = 0 \<or> LAINFS_MAX_EXTENTS \<le> length selected then None
              else extent_loop free data_start data_end (remaining - best_run)
                     (selected @ [\<lparr>ex_start_lba = best_start, ex_blocks = word_of_nat best_run\<rparr>]))"
  by pat_completeness auto
termination
  by (relation "measure (\<lambda>(free, data_start, data_end, remaining, selected). remaining)") auto

declare extent_loop.simps [simp del]

definition find_free_extents ::
  "partition_t option \<Rightarrow> lainfs_superblock_t \<Rightarrow> directory \<Rightarrow> u32 \<Rightarrow> nat \<Rightarrow> lainfs_extent_t list option" where
  "find_free_extents part super d blocks ignore =
     (case part of
        None \<Rightarrow> None
      | Some pt \<Rightarrow>
          if blocks = 0 \<or> LAINFS_MAX_FILE_BLOCKS < blocks then None
          else extent_loop (block_free super d ignore) (unat (sb_data_start_lba super))
                 (unat (pt_block_count pt)) (unat blocks) [])"

subsection \<open>The allocator gives free, disjoint blocks\<close>

definition free_run :: "(nat \<Rightarrow> bool) \<Rightarrow> nat \<Rightarrow> nat \<Rightarrow> nat \<Rightarrow> u32 \<times> nat \<Rightarrow> bool" where
  "free_run free data_end remaining lo br \<longleftrightarrow>
     (\<exists>st \<ge> lo. fst br = word_of_nat st \<and> 0 < snd br \<and> snd br \<le> remaining \<and> st + snd br \<le> data_end \<and>
        (\<forall>k. st \<le> k \<longrightarrow> k < st + snd br \<longrightarrow> free k))"

lemma free_run_mono: "free_run free data_end remaining hi br \<Longrightarrow> lo \<le> hi \<Longrightarrow> free_run free data_end remaining lo br"
  unfolding free_run_def by (meson order_trans)

text \<open>One round of the scan.\<close>

lemma best_scan_step:
  assumes "start < data_end" and "remaining \<noteq> 0"
  obtains run "next" where
    "grow_run free data_end remaining (skip_used free data_end start) 0 = (run, next)" "start < next"
    "0 < run \<Longrightarrow> free_run free data_end remaining start (word_of_nat (skip_used free data_end start), run)"
    "best_scan free data_end remaining start best =
        (if snd best < run then if run = remaining then (word_of_nat (skip_used free data_end start), run)
         else best_scan free data_end remaining next (word_of_nat (skip_used free data_end start), run)
         else best_scan free data_end remaining next best)"
proof -
  let ?s = "skip_used free data_end start"
  obtain run "next" where g: "grow_run free data_end remaining ?s 0 = (run, next)"
    by (cases "grow_run free data_end remaining ?s 0")
  have spec: "next = ?s + run" "run \<le> remaining" "next \<le> data_end" "\<And>k. ?s \<le> k \<Longrightarrow> k < ?s + run \<Longrightarrow> free k"
    using grow_run_spec [OF g] skip_used_end [of start data_end free] assms by auto
  have "free_run free data_end remaining start (word_of_nat ?s, run)" if "0 < run"
    unfolding free_run_def using spec that skip_used_le [of start free data_end]
    by (intro exI [of _ ?s]) auto
  moreover have "best_scan free data_end remaining start best =
        (if snd best < run then if run = remaining then (word_of_nat ?s, run)
         else best_scan free data_end remaining next (word_of_nat ?s, run)
         else best_scan free data_end remaining next best)"
    using assms g by (simp add: best_scan.simps [of free data_end remaining start best] Let_def)
  ultimately show ?thesis using g scan_progress [OF assms g] by (intro that) auto
qed

lemma best_scan_done:
  "\<not> (start < data_end \<and> remaining \<noteq> 0) \<Longrightarrow> best_scan free data_end remaining start best = best"
  by (subst best_scan.simps) (rule if_not_P)

lemma best_scan_spec:
  "best_scan free data_end remaining start best = best \<or>
   free_run free data_end remaining start (best_scan free data_end remaining start best)"
proof (induction free data_end remaining start best rule: best_scan.induct)
  case (1 free data_end remaining start best)
  show ?case
  proof (cases "start < data_end \<and> remaining \<noteq> 0")
    case False
    then show ?thesis by (simp add: best_scan_done)
  next
    case True
    then have c: "start < data_end" "remaining \<noteq> 0" by auto
    let ?s = "skip_used free data_end start"
    obtain run "next" where g: "grow_run free data_end remaining ?s 0 = (run, next)" and mono: "start < next"
      and fr: "0 < run \<Longrightarrow> free_run free data_end remaining start (word_of_nat ?s, run)"
      and r: "best_scan free data_end remaining start best =
        (if snd best < run then if run = remaining then (word_of_nat ?s, run)
         else best_scan free data_end remaining next (word_of_nat ?s, run)
         else best_scan free data_end remaining next best)"
      by (rule best_scan_step [OF c]) (rule that)
    note IH = "1.IH" [OF True refl g [symmetric] refl]
    consider "snd best < run" "run = remaining" | "snd best < run" "run \<noteq> remaining" | "\<not> snd best < run"
      by blast
    then show ?thesis
    proof cases
      case 1
      with fr r show ?thesis by simp
    next
      case 2
      from IH(1) [OF 2] have "free_run free data_end remaining start
          (best_scan free data_end remaining next (word_of_nat ?s, run))"
      proof
        assume "best_scan free data_end remaining next (word_of_nat ?s, run) = (word_of_nat ?s, run)"
        with 2 fr show ?thesis by simp
      qed (use mono free_run_mono less_imp_le in blast)
      with r 2 show ?thesis by simp
    next
      case 3
      from IH(2) [OF 3] show ?thesis
        unfolding r if_not_P [OF 3] using mono free_run_mono less_imp_le by blast
    qed
  qed
qed

text \<open>If a free run of the wanted length exists, the scan returns a run of that length.\<close>

lemma skip_used_le_free: "start \<le> k \<Longrightarrow> free k \<Longrightarrow> skip_used free data_end start \<le> k"
proof (induction free data_end start rule: skip_used.induct)
  case (1 free data_end start)
  show ?case
  proof (cases "start < data_end \<and> \<not> free start")
    case True
    with "1.prems" have "start + 1 \<le> k" by (metis Suc_eq_plus1 Suc_leI le_neq_implies_less)
    with "1.IH" [OF True] "1.prems"(2) True show ?thesis
      by (simp add: skip_used.simps [of free data_end start])
  next
    case False
    with "1.prems"(1) show ?thesis by (auto simp: skip_used.simps [of free data_end start])
  qed
qed

lemma run_before:
  assumes g: "grow_run free data_end remaining s 0 = (run, next)" and s: "s \<le> st"
    and st: "st + remaining \<le> data_end" "\<And>k. st \<le> k \<Longrightarrow> k < st + remaining \<Longrightarrow> free k"
    and run: "run \<noteq> remaining"
  shows "next \<le> st"
proof (rule ccontr)
  have spec: "next = s + run" "run \<le> remaining" "next = data_end \<or> \<not> free next"
    using grow_run_spec [OF g] s st(1) run by auto
  assume "\<not> next \<le> st"
  moreover have "next < st + remaining" using spec(1,2) s run by linarith
  ultimately show False using spec(3) st by fastforce
qed

lemma best_scan_complete:
  assumes "start \<le> st" and "st + remaining \<le> data_end" and "remaining \<noteq> 0"
    and "\<And>k. st \<le> k \<Longrightarrow> k < st + remaining \<Longrightarrow> free k" and "snd best < remaining"
  shows "snd (best_scan free data_end remaining start best) = remaining"
  using assms
proof (induction free data_end remaining start best rule: best_scan.induct)
  case (1 free data_end remaining start best)
  have c: "start < data_end" "remaining \<noteq> 0" using "1.prems" by auto
  let ?s = "skip_used free data_end start"
  obtain run "next" where g: "grow_run free data_end remaining ?s 0 = (run, next)"
    and r: "best_scan free data_end remaining start best =
        (if snd best < run then if run = remaining then (word_of_nat ?s, run)
         else best_scan free data_end remaining next (word_of_nat ?s, run)
         else best_scan free data_end remaining next best)"
    by (rule best_scan_step [OF c]) (rule that)
  have "free st" using "1.prems"(3) by (intro "1.prems"(4)) auto
  then have s: "?s \<le> st" using "1.prems"(1) by (rule skip_used_le_free [rotated])
  show ?case
  proof (cases "run = remaining")
    case True
    with r "1.prems"(5) show ?thesis by simp
  next
    case False
    have "next \<le> st" by (rule run_before [OF g s "1.prems"(2,4) False])
    moreover have "run < remaining"
      using False grow_run_spec [OF g] s "1.prems"(2) by auto
    ultimately show ?thesis
      using r False "1.IH" [OF _ refl g [symmetric] refl] c "1.prems" by simp
  qed
qed

subsection \<open>Which blocks are free\<close>

text \<open>The blocks that the files other than entry \<open>ignore\<close> own.\<close>

definition used_blocks :: "directory \<Rightarrow> nat \<Rightarrow> nat set" where
  "used_blocks d ignore =
     (\<Union>i \<in> {i. i < length d \<and> i \<noteq> ignore \<and> de_used (d ! i) = LAINFS_ENTRY_FILE}. file_blocks (d ! i))"

lemma free_scan_iff:
  assumes "\<forall>i \<in> set is. i \<noteq> ignore \<longrightarrow> de_used (dir_entry d i) = LAINFS_ENTRY_FILE \<longrightarrow>
    (\<exists>xs. entry_extents (dir_entry d i) = Some xs \<and>
      (\<forall>x \<in> set xs. ranges_overlap start blocks (ex_start_lba x) (ex_blocks x) \<longleftrightarrow> \<not> P x))"
  shows "free_scan d start blocks ignore is \<longleftrightarrow>
    (\<forall>i \<in> set is. i \<noteq> ignore \<longrightarrow> de_used (dir_entry d i) = LAINFS_ENTRY_FILE \<longrightarrow>
      (\<forall>x \<in> set (the (entry_extents (dir_entry d i))). P x))"
  using assms
proof (induction "is")
  case Nil
  then show ?case by simp
next
  case (Cons i "is")
  then show ?case
    by (cases "i = ignore \<or> de_used (dir_entry d i) \<noteq> LAINFS_ENTRY_FILE") auto
qed

lemma single_block_overlap:
  assumes "unat (pt_block_count part) < 2 ^ 32" and "k < unat (pt_block_count part)" and "extent_ok part super x"
  shows "ranges_overlap (word_of_nat k) 1 (ex_start_lba x) (ex_blocks x) \<longleftrightarrow> k \<in> extent_blocks x"
proof -
  have k: "unat (word_of_nat k :: u32) = k" using assms by (intro unat_of_nat_32) simp
  have "0 < unat (ex_blocks x)" using assms(3) by (simp add: extent_ok_def unat_gt_0)
  then show ?thesis
    using assms k extent_ok_ends [OF assms(1,3)]
    by (subst ranges_overlap_iff) (auto simp: extent_blocks_def)
qed

lemma valid_file_extents:
  assumes "dir_valid part super d" and "i < length d" and "de_used (d ! i) = LAINFS_ENTRY_FILE"
  obtains xs where "entry_extents (d ! i) = Some xs" "\<forall>x \<in> set xs. extent_ok part super x" "disjoint_extents xs"
    "file_blocks (d ! i) = (\<Union>x \<in> set xs. extent_blocks x)"
proof -
  have "entry_valid part super d (d ! i)"
    using assms(1) nth_mem [OF assms(2)] by (simp add: dir_valid_def)
  then have "file_extents_ok part super (d ! i)"
    using assms(3) by (simp add: entry_valid_def)
  then show ?thesis using that by (auto simp: file_extents_ok_def file_blocks_def)
qed

lemma block_free_iff:
  assumes part: "unat (pt_block_count part) < 2 ^ 32" and d: "length d = LAINFS_MAX_FILES"
    and valid: "dir_valid part super d"
    and k: "unat (sb_data_start_lba super) \<le> k" "k < unat (pt_block_count part)"
    and sel: "\<forall>x \<in> set selected. extent_ok part super x"
  shows "block_free super d ignore selected k \<longleftrightarrow>
    k \<notin> used_blocks d ignore \<and> k \<notin> (\<Union>x \<in> set selected. extent_blocks x)"
proof -
  have ext: "\<exists>xs. entry_extents (dir_entry d i) = Some xs \<and>
      (\<forall>x \<in> set xs. ranges_overlap (word_of_nat k) 1 (ex_start_lba x) (ex_blocks x) \<longleftrightarrow> \<not> k \<notin> extent_blocks x)"
    if "i < LAINFS_MAX_FILES" "de_used (dir_entry d i) = LAINFS_ENTRY_FILE" for i
    using valid_file_extents [OF valid, of i] that d single_block_overlap [OF part k(2)]
    by (metis dir_entry_def)
  have "free_scan d (word_of_nat k) 1 ignore [0..<LAINFS_MAX_FILES] \<longleftrightarrow>
      (\<forall>i < LAINFS_MAX_FILES. i \<noteq> ignore \<longrightarrow> de_used (dir_entry d i) = LAINFS_ENTRY_FILE \<longrightarrow>
        (\<forall>x \<in> set (the (entry_extents (dir_entry d i))). k \<notin> extent_blocks x))"
    using ext by (subst free_scan_iff [where P = "\<lambda>x. k \<notin> extent_blocks x"]) auto
  also have "\<dots> \<longleftrightarrow> k \<notin> used_blocks d ignore"
    using ext d by (fastforce simp: used_blocks_def file_blocks_def dir_entry_def)
  finally have scan: "free_scan d (word_of_nat k) 1 ignore [0..<LAINFS_MAX_FILES] \<longleftrightarrow> k \<notin> used_blocks d ignore" .
  have "\<not> (word_of_nat k :: u32) < sb_data_start_lba super"
    using k part unat_of_nat_32 [of k] by (simp add: word_less_nat_alt)
  with scan have "extent_is_free super d (word_of_nat k) 1 ignore \<longleftrightarrow> k \<notin> used_blocks d ignore"
    by (simp add: extent_is_free_def)
  moreover have "extent_overlaps_selected (word_of_nat k) 1 selected \<longleftrightarrow> k \<in> (\<Union>x \<in> set selected. extent_blocks x)"
    using sel single_block_overlap [OF part k(2)] by (auto simp: extent_overlaps_selected_def)
  ultimately show ?thesis by (simp add: block_free_def)
qed

subsection \<open>The allocator\<close>

text \<open>A chosen run becomes an extent of exactly its blocks.\<close>

lemma run_extent:
  assumes part: "unat (pt_block_count part) < 2 ^ 32" and d: "length d = LAINFS_MAX_FILES"
    and valid: "dir_valid part super d" and sel: "\<forall>x \<in> set selected. extent_ok part super x"
    and run: "free_run (block_free super d ignore selected) (unat (pt_block_count part)) remaining
      (unat (sb_data_start_lba super)) (b, r)"
  defines "x \<equiv> \<lparr>ex_start_lba = b, ex_blocks = word_of_nat r\<rparr>"
  shows "extent_ok part super x" "unat (ex_blocks x) = r" "r \<le> remaining" "0 < r"
    "extent_blocks x \<inter> used_blocks d ignore = {}" "\<forall>y \<in> set selected. extent_blocks y \<inter> extent_blocks x = {}"
proof -
  obtain st where st: "unat (sb_data_start_lba super) \<le> st" "b = word_of_nat st" "0 < r" "r \<le> remaining"
    "st + r \<le> unat (pt_block_count part)" "\<And>k. st \<le> k \<Longrightarrow> k < st + r \<Longrightarrow> block_free super d ignore selected k"
    using run by (auto simp: free_run_def)
  then have u: "unat b = st" "unat (word_of_nat r :: u32) = r"
    using part by (auto intro!: unat_of_nat_32)
  then show "unat (ex_blocks x) = r" "r \<le> remaining" "0 < r" using st by (simp_all add: x_def)
  show "extent_ok part super x"
    using st u by (auto simp: extent_ok_def x_def word_le_nat_alt word_unat_eq_iff)
  have eb: "extent_blocks x = {st ..< st + r}" using u by (simp add: extent_blocks_def x_def)
  have "k \<notin> used_blocks d ignore \<and> k \<notin> (\<Union>y \<in> set selected. extent_blocks y)" if "k \<in> extent_blocks x" for k
    using that st eb by (subst block_free_iff [OF part d valid _ _ sel, symmetric]) auto
  then show "extent_blocks x \<inter> used_blocks d ignore = {}" "\<forall>y \<in> set selected. extent_blocks y \<inter> extent_blocks x = {}"
    by blast+
qed

definition alloc_ok :: "partition_t \<Rightarrow> lainfs_superblock_t \<Rightarrow> directory \<Rightarrow> nat \<Rightarrow> lainfs_extent_t list \<Rightarrow> bool" where
  "alloc_ok part super d ignore xs \<longleftrightarrow>
     length xs \<le> 3 \<and> (\<forall>x \<in> set xs. extent_ok part super x) \<and> disjoint_extents xs \<and>
     (\<Union>x \<in> set xs. extent_blocks x) \<inter> used_blocks d ignore = {}"

lemma extent_loop_done: "extent_loop free data_start data_end 0 selected = Some selected"
  by (simp add: extent_loop.simps)

lemma extent_loop_step:
  assumes "remaining \<noteq> 0" and "best_scan (free selected) data_end remaining data_start (0, 0) = (b, r)"
  shows "extent_loop free data_start data_end remaining selected =
    (if r = 0 \<or> LAINFS_MAX_EXTENTS \<le> length selected then None
     else extent_loop free data_start data_end (remaining - r)
            (selected @ [\<lparr>ex_start_lba = b, ex_blocks = word_of_nat r\<rparr>]))"
  using assms by (simp add: extent_loop.simps [of free data_start data_end remaining selected])

lemma extent_loop_sound:
  assumes "unat (pt_block_count part) < 2 ^ 32" and "length d = LAINFS_MAX_FILES" and "dir_valid part super d"
    and "extent_loop (block_free super d ignore) (unat (sb_data_start_lba super)) (unat (pt_block_count part))
           remaining selected = Some xs"
    and "alloc_ok part super d ignore selected"
  shows "alloc_ok part super d ignore xs \<and> total_blocks xs = total_blocks selected + remaining"
  using assms(4,5)
proof (induction remaining arbitrary: selected rule: less_induct)
  case (less remaining)
  let ?free = "block_free super d ignore"
  let ?ds = "unat (sb_data_start_lba super)" and ?de = "unat (pt_block_count part)"
  show ?case
  proof (cases "remaining = 0")
    case True
    with less.prems show ?thesis by (simp add: extent_loop_done)
  next
    case False
    obtain b r where br: "best_scan (?free selected) ?de remaining ?ds (0, 0) = (b, r)" by fastforce
    let ?x = "\<lparr>ex_start_lba = b, ex_blocks = word_of_nat r\<rparr>"
    from less.prems(1) have r: "r \<noteq> 0" "length selected < 3"
      and rest: "extent_loop ?free ?ds ?de (remaining - r) (selected @ [?x]) = Some xs"
      unfolding extent_loop_step [of remaining ?free, OF False br] by (auto split: if_splits)
    have sel: "\<forall>x \<in> set selected. extent_ok part super x" using less.prems(2) by (simp add: alloc_ok_def)
    have "free_run (?free selected) ?de remaining ?ds (b, r)"
      using best_scan_spec [of "?free selected" ?de remaining ?ds "(0, 0)"] br r(1) by simp
    note x = run_extent [OF assms(1,2,3) sel this]
    have "alloc_ok part super d ignore (selected @ [?x])"
      using less.prems(2) r(2) x by (auto simp: alloc_ok_def disjoint_extents_def sorted_wrt_append)
    from less.IH [OF _ rest this] r False x(2,3) show ?thesis by simp
  qed
qed

lemma find_free_extents_sound:
  assumes "unat (pt_block_count part) < 2 ^ 32" and "length d = LAINFS_MAX_FILES" and "dir_valid part super d"
    and "find_free_extents (Some part) super d blocks ignore = Some xs"
  shows "alloc_ok part super d ignore xs" "total_blocks xs = unat blocks" "xs \<noteq> []"
proof -
  from assms(4) have b: "blocks \<noteq> 0"
    and "extent_loop (block_free super d ignore) (unat (sb_data_start_lba super)) (unat (pt_block_count part))
      (unat blocks) [] = Some xs"
    by (auto simp: find_free_extents_def split: if_splits)
  from extent_loop_sound [OF assms(1-3) this(2)]
  have *: "alloc_ok part super d ignore xs \<and> total_blocks xs = unat blocks"
    by (simp add: alloc_ok_def disjoint_extents_def)
  then show "alloc_ok part super d ignore xs" "total_blocks xs = unat blocks" by auto
  with b show "xs \<noteq> []" by (auto simp: word_unat_eq_iff)
qed

lemma find_free_extents_complete:
  assumes part: "unat (pt_block_count part) < 2 ^ 32" and d: "length d = LAINFS_MAX_FILES"
    and valid: "dir_valid part super d"
    and blocks: "blocks \<noteq> 0" "blocks \<le> LAINFS_MAX_FILE_BLOCKS"
    and st: "unat (sb_data_start_lba super) \<le> st" "st + unat blocks \<le> unat (pt_block_count part)"
      "{st ..< st + unat blocks} \<inter> used_blocks d ignore = {}"
  shows "\<exists>b. find_free_extents (Some part) super d blocks ignore = Some [\<lparr>ex_start_lba = b, ex_blocks = blocks\<rparr>]"
proof -
  let ?free = "block_free super d ignore"
  let ?ds = "unat (sb_data_start_lba super)" and ?de = "unat (pt_block_count part)"
  have nz: "unat blocks \<noteq> 0" using blocks(1) by (simp add: word_unat_eq_iff)
  have "?free [] k" if "st \<le> k" "k < st + unat blocks" for k
    using that st block_free_iff [OF part d valid, of k "[]" ignore] by auto
  then have "snd (best_scan (?free []) ?de (unat blocks) ?ds (0, 0)) = unat blocks"
    using st nz by (intro best_scan_complete [of _ st]) auto
  then obtain b where "best_scan (?free []) ?de (unat blocks) ?ds (0, 0) = (b, unat blocks)"
    by (metis prod.collapse)
  then have "extent_loop ?free ?ds ?de (unat blocks) [] = Some [\<lparr>ex_start_lba = b, ex_blocks = blocks\<rparr>]"
    using nz by (simp add: extent_loop_step extent_loop_done)
  with blocks show ?thesis by (auto simp: find_free_extents_def not_less)
qed

subsection \<open>The walk towards the root\<close>

text \<open>
  \<open>ancestor_or_self\<close>: the directories on the way from an entry id to the root, the root included.
\<close>

inductive ancestor_or_self :: "directory \<Rightarrow> u32 \<Rightarrow> u32 \<Rightarrow> bool" where
  self: "ancestor_or_self d eid eid"
| step: "eid \<noteq> LAINFS_ROOT_DIR \<Longrightarrow> eid \<le> 2048 \<Longrightarrow>
    de_used (dir_entry d (index_from_entry_id eid)) = LAINFS_ENTRY_DIR \<Longrightarrow>
    ancestor_or_self d (entry_parent_id (dir_entry d (index_from_entry_id eid))) a \<Longrightarrow>
    ancestor_or_self d eid a"

inductive_cases ancestor_or_selfE: "ancestor_or_self d eid a"

lemma dir_is_descendant_of_iff:
  assumes "reaches_root d current"
  shows "\<exists>b. dir_is_descendant_of d current a = Some b \<and> (b \<longleftrightarrow> ancestor_or_self d current a)"
proof -
  obtain n where "root_depth d current n" using assms by (auto simp: reaches_root_def)
  then show ?thesis
  proof (induction rule: root_depth.induct)
    case (root d)
    have "ancestor_or_self d 0 a \<longleftrightarrow> a = 0" by (auto intro: ancestor_or_self.self elim: ancestor_or_selfE)
    then show ?case by (auto simp: dir_is_descendant_of.simps [of d 0])
  next
    case (step eid d n)
    let ?p = "entry_parent_id (dir_entry d (index_from_entry_id eid))"
    have "ancestor_or_self d eid a \<longleftrightarrow> eid = a \<or> ancestor_or_self d ?p a"
      using step.hyps by (auto intro: ancestor_or_self.intros elim: ancestor_or_selfE)
    then show ?case
      using step by (auto simp: dir_is_descendant_of.simps [of d eid] not_less)
  qed
qed

end
