(* ===== verification/Storage_Inv.thy ===== *)
theory Storage_Inv
  imports Storage
begin

text \<open>
  The invariant of the storage tables. After a partition scan every registered partition names
  a registered device and lies inside it, and every mount that is still present refers to a
  registered partition. The first part is kept by every step of the scan, whatever the bytes on
  the disks are and whatever the device drivers answer.
\<close>

definition partition_ok :: "'h storage \<Rightarrow> partition_t \<Rightarrow> bool" where
  "partition_ok s p \<longleftrightarrow>
     pt_present p \<and> pt_device_index p < block_device_count s \<and> 0 < unat (pt_start_lba p) \<and> 0 < unat (pt_block_count p) \<and>
     unat (pt_start_lba p) + unat (pt_block_count p) \<le> unat (bd_block_count (block_devices s ! pt_device_index p))"

definition storage_inv :: "'h storage \<Rightarrow> bool" where
  "storage_inv s \<longleftrightarrow>
     length (block_devices s) = STORAGE_MAX_BLOCK_DEVICES \<and>
     length (partitions s) = STORAGE_MAX_PARTITIONS \<and>
     length (mounts s) = STORAGE_MAX_MOUNTS \<and>
     block_device_count s \<le> STORAGE_MAX_BLOCK_DEVICES \<and>
     partition_count s \<le> STORAGE_MAX_PARTITIONS \<and>
     (\<forall>i < partition_count s. partition_ok s (partitions s ! i))"

definition mounts_ok :: "'h storage \<Rightarrow> bool" where
  "mounts_ok s \<longleftrightarrow>
     (\<forall>m \<in> set (mounts s). mt_present m \<longrightarrow> mt_partition_index m < partition_count s)"

text \<open>What no step of the scan touches.\<close>

definition same_devices :: "'h storage \<Rightarrow> 'h storage \<Rightarrow> bool" where
  "same_devices s t \<longleftrightarrow>
     block_devices t = block_devices s \<and> block_device_count t = block_device_count s \<and>
     mounts t = mounts s"

lemma same_devices_refl [simp]: "same_devices s s"
  by (simp add: same_devices_def)

lemma same_devices_trans [trans]: "same_devices s t \<Longrightarrow> same_devices t u \<Longrightarrow> same_devices s u"
  by (simp add: same_devices_def)

lemma same_devices_disk [simp]:
  "same_devices s (t\<lparr>disk := h\<rparr>) = same_devices s t"
  "same_devices (s\<lparr>disk := h\<rparr>) t = same_devices s t"
  by (simp_all add: same_devices_def)

lemma partition_ok_same_devices: "same_devices s t \<Longrightarrow> partition_ok t p = partition_ok s p"
  by (simp add: partition_ok_def same_devices_def)

lemma storage_inv_disk [simp]: "storage_inv (s\<lparr>disk := h\<rparr>) = storage_inv s"
  by (simp add: storage_inv_def partition_ok_def)

lemma partition_range_validD:
  assumes "partition_range_valid dev start n"
  shows "0 < start" "0 < n" "unat start + unat n \<le> unat (bd_block_count dev)"
proof -
  from assms have v: "start \<noteq> 0" "n \<noteq> 0" "start < bd_block_count dev" "n \<le> bd_block_count dev - start"
    by (auto simp: partition_range_valid_def split: if_splits)
  then show "0 < start" "0 < n" by (simp_all add: word_neq_0_conv)
  from v have "unat n \<le> unat (bd_block_count dev) - unat start"
    by (metis less_imp_le unat_sub word_le_nat_alt)
  then show "unat start + unat n \<le> unat (bd_block_count dev)"
    using v(3) by (simp add: word_less_nat_alt)
qed

subsection \<open>The steps of the scan\<close>

lemma storage_read_block_device_state:
  assumes "storage_read_block_device di lba n buf s = (st, buf', s')"
  obtains h where "s' = s\<lparr>disk := h\<rparr>"
  using assms that [of "disk s"]
  by (auto simp: storage_read_block_device_def Let_def split: if_splits option.splits prod.splits)

lemma detect_fs_hint_state:
  assumes "detect_fs_hint di start n ty s = (hint, s')"
  obtains h where "s' = s\<lparr>disk := h\<rparr>"
proof (cases "ty \<noteq> 0x99 \<or> n = 0")
  case True
  with assms have "s' = s\<lparr>disk := disk s\<rparr>"
    by (auto simp: detect_fs_hint_def split: if_splits)
  then show ?thesis by (rule that)
next
  case False
  obtain st sector s1 where
    r: "storage_read_block_device di start 1 (replicate SECTOR_SIZE 0) s = (st, sector, s1)"
    by (metis prod_cases3)
  with False assms have "s' = s1"
    by (auto simp: detect_fs_hint_def split: if_splits)
  with r show ?thesis
    by (auto elim: storage_read_block_device_state intro: that)
qed

lemma register_partition_inv:
  assumes "storage_inv s" and "di < block_device_count s"
  shows "storage_inv (register_partition di num start n ty s) \<and>
    same_devices s (register_partition di num start n ty s)"
proof -
  obtain hint s' where d: "detect_fs_hint di start n ty s = (hint, s')"
    by (metis surj_pair)
  then obtain h where "s' = s\<lparr>disk := h\<rparr>" by (rule detect_fs_hint_state)
  with d assms show ?thesis
    using partition_range_validD [of "block_devices s ! di" start n]
    by (auto simp: register_partition_def Let_def storage_inv_def same_devices_def
        partition_ok_def nth_list_update less_Suc_eq unat_gt_0)
qed

lemma mbr_scan_inv:
  assumes "storage_inv s" and "di < block_device_count s" and "mbr_scan di sector is gpt s = (gpt', s')"
  shows "storage_inv s' \<and> same_devices s s'"
  using assms
proof (induction di sector "is" gpt s rule: mbr_scan.induct)
  case (1 di sector gpt s)
  then show ?case by simp
next
  case (2 di sector i "is" gpt s)
  let ?e = "MBR_PARTITION_TABLE_OFFSET + i * MBR_PARTITION_ENTRY_SIZE"
  let ?t = "register_partition di (i + 1) (ucast (read_le32 (?e + 8) sector))
              (ucast (read_le32 (?e + 12) sector)) (sector ! (?e + 4)) s"
  have t: "storage_inv ?t" "same_devices s ?t"
    using register_partition_inv [OF "2.prems"(1,2)] by auto
  then have "di < block_device_count ?t"
    using "2.prems"(2) by (simp add: same_devices_def)
  with "2.IH" "2.prems" t show ?case
    by (auto simp: Let_def split: if_splits intro: same_devices_trans)
qed

lemma discover_mbr_inv:
  assumes "storage_inv s" and "di < block_device_count s" and "discover_mbr_partitions di s = (gpt, s')"
  shows "storage_inv s' \<and> same_devices s s'"
  using assms mbr_scan_inv [of "s\<lparr>disk := _\<rparr>" di]
  by (auto simp: discover_mbr_partitions_def Let_def same_devices_def
      split: if_splits option.splits prod.splits)

lemma gpt_scan_inv:
  assumes "storage_inv s" and "di < block_device_count s"
  shows "storage_inv (gpt_scan di rd lba sz i n s) \<and> same_devices s (gpt_scan di rd lba sz i n s)"
  using assms
proof (induction n arbitrary: i s)
  case 0
  then show ?case by simp
next
  case (Suc n)
  obtain st es h where r: "rd (bd_ctx (block_devices s ! di)) (lba + word_of_nat i * ucast sz div 512) 1
      (replicate SECTOR_SIZE 0) (disk s) = (st, es, h)"
    by (metis prod_cases3)
  let ?s = "s\<lparr>disk := h\<rparr>"
  have s: "storage_inv ?s" "di < block_device_count ?s" "same_devices s ?s"
    using Suc.prems by simp_all
  have reg: "storage_inv (register_partition di num start c ty ?s) \<and>
      same_devices s (register_partition di num start c ty ?s) \<and>
      di < block_device_count (register_partition di num start c ty ?s)" for num start c ty
    using register_partition_inv [OF s(1,2)] s(2,3) by (auto simp: same_devices_def)
  have next_reg: "storage_inv (gpt_scan di rd lba sz j n (register_partition di num start c ty ?s)) \<and>
      same_devices s (gpt_scan di rd lba sz j n (register_partition di num start c ty ?s))"
    for j num start c ty
    using Suc.IH reg by (meson same_devices_trans)
  show ?case
    using Suc.prems Suc.IH [OF s(1,2)] next_reg s r by (auto simp: Let_def)
qed

lemma discover_gpt_inv:
  assumes "storage_inv s" and "di < block_device_count s"
  shows "storage_inv (discover_gpt_partitions di s) \<and> same_devices s (discover_gpt_partitions di s)"
  using assms gpt_scan_inv [of "s\<lparr>disk := _\<rparr>" di]
  by (auto simp: discover_gpt_partitions_def Let_def same_devices_def
      split: option.splits prod.splits)

lemma drop_partitions_inv:
  assumes "storage_inv s"
  shows "storage_inv (drop_partitions start s) \<and> same_devices s (drop_partitions start s)"
  using assms
proof (induction start s rule: drop_partitions.induct)
  case (1 start s)
  show ?case
  proof (cases "start < partition_count s")
    case True
    let ?i = "partition_count s - 1"
    let ?t = "s\<lparr>partition_count := ?i,
                partitions := (partitions s)[?i := (partitions s ! ?i)\<lparr>pt_present := False\<rparr>]\<rparr>"
    have t: "storage_inv ?t" "same_devices s ?t"
      using "1.prems" by (auto simp: storage_inv_def partition_ok_def same_devices_def)
    with "1.IH" True have "storage_inv (drop_partitions start ?t) \<and> same_devices ?t (drop_partitions start ?t)"
      by simp
    with True t show ?thesis
      by (auto simp: drop_partitions.simps [of start s] Let_def intro: same_devices_trans)
  next
    case False
    with "1.prems" show ?thesis by (simp add: drop_partitions.simps [of start s])
  qed
qed

lemma discover_devices_inv:
  assumes "storage_inv s" and "\<forall>i \<in> set is. i < block_device_count s"
  shows "storage_inv (discover_devices is s) \<and> same_devices s (discover_devices is s)"
  using assms
proof (induction "is" s rule: discover_devices.induct)
  case (1 s)
  then show ?case by simp
next
  case (2 i "is" s)
  obtain gpt s' where d: "discover_mbr_partitions i s = (gpt, s')"
    by (metis surj_pair)
  with "2.prems" have s': "storage_inv s'" "same_devices s s'"
    using discover_mbr_inv by auto
  let ?g = "drop_partitions (partition_count s) s'"
  have g: "storage_inv ?g" "same_devices s' ?g"
    using drop_partitions_inv [OF s'(1)] by auto
  have i: "i < block_device_count ?g"
    using "2.prems"(2) s'(2) g(2) by (simp add: same_devices_def)
  let ?t = "if gpt then discover_gpt_partitions i ?g else s'"
  have t: "storage_inv ?t \<and> same_devices s ?t"
    using discover_gpt_inv [OF g(1) i] s' g(2) by (auto intro: same_devices_trans)
  moreover from t "2.prems"(2) have "\<forall>j \<in> set is. j < block_device_count ?t"
    by (simp add: same_devices_def)
  ultimately have "storage_inv (discover_devices is ?t) \<and> same_devices ?t (discover_devices is ?t)"
    using "2.IH" [OF _ _ d [symmetric]] by (auto split: if_splits)
  with t d show ?case
    by (auto intro: same_devices_trans simp del: if_split)
qed

lemma storage_find_partition_SomeD:
  assumes "storage_find_partition name s = Some i"
  shows "i < partition_count s" "pt_present (partitions s ! i)"
    "str_eq (pt_name (partitions s ! i)) name"
  using assms by (auto simp: storage_find_partition_def find_Some_iff)

lemma refresh_mounts_inv:
  assumes "storage_inv s"
  shows "storage_inv (refresh_mounts_after_partition_scan s) \<and>
    mounts_ok (refresh_mounts_after_partition_scan s)"
  using assms
  by (auto simp: storage_inv_def partition_ok_def mounts_ok_def refresh_mount_def
      refresh_mounts_after_partition_scan_def dest: storage_find_partition_SomeD
      split: if_splits option.splits)

end
