(* ===== verification/Block_Driver.thy ===== *)
theory Block_Driver
  imports Storage_Inv
begin

text \<open>
  The interface between a block device driver and the storage layer above it. A driver that
  honours the contract \<open>block_driver\<close> is an array of 512-byte blocks: reading returns the blocks and
  changes none (it may change other state of the device, such as its registers), writing replaces
  exactly the addressed ones. The lemmas of the locale lift this to the
  partition operations \<open>storage_read_partition\<close> and \<open>storage_write_partition\<close>: a partition is a
  window of that array, and access through it stays inside the window.
\<close>

text \<open>
  \<open>backed_by\<close> says that partition \<open>p\<close> is registered on a device whose function pointers are this
  driver, and lies inside the driver's capacity; \<open>part_window\<close> is the range of device blocks it
  occupies, \<open>part_block\<close> the contents of one of its blocks.
\<close>

definition backed_by ::
  "'h block_read_t \<Rightarrow> 'h block_write_t \<Rightarrow> nat \<Rightarrow> nat \<Rightarrow> ('h \<Rightarrow> bool) \<Rightarrow> nat \<Rightarrow> 'h storage \<Rightarrow> bool" where
  "backed_by rd wr ctx cap ok p s \<longleftrightarrow>
     p < partition_count s \<and>
     (let part = partitions s ! p; dev = block_devices s ! pt_device_index part in
        pt_present part \<and> bd_present dev \<and> bd_read dev = Some rd \<and> bd_write dev = Some wr \<and>
        bd_ctx dev = ctx \<and> unat (pt_start_lba part) + unat (pt_block_count part) \<le> cap) \<and>
     ok (disk s)"

definition part_blocks :: "nat \<Rightarrow> 'h storage \<Rightarrow> nat" where
  "part_blocks p s = unat (pt_block_count (partitions s ! p))"

definition part_window :: "nat \<Rightarrow> 'h storage \<Rightarrow> nat set" where
  "part_window p s = {unat (pt_start_lba (partitions s ! p)) ..<
                      unat (pt_start_lba (partitions s ! p)) + part_blocks p s}"

definition part_block :: "('h \<Rightarrow> nat \<Rightarrow> bytes) \<Rightarrow> nat \<Rightarrow> 'h storage \<Rightarrow> nat \<Rightarrow> bytes" where
  "part_block blk p s i = blk (disk s) (unat (pt_start_lba (partitions s ! p)) + i)"

lemma part_blocks_disk [simp]: "part_blocks p (s\<lparr>disk := h\<rparr>) = part_blocks p s"
  by (simp add: part_blocks_def)

lemma part_window_disk [simp]: "part_window p (s\<lparr>disk := h\<rparr>) = part_window p s"
  by (simp add: part_window_def)

lemma unat_add_ucast_le:
  fixes lba c :: u64 and n :: u32
  assumes "unat lba + unat n < 2 ^ 64"
  shows "c < lba + ucast n \<longleftrightarrow> unat c < unat lba + unat n"
  using assms
  by (simp add: word_less_nat_alt unat_word_ariths)

locale block_driver =
  fixes rd :: "'h block_read_t" and wr :: "'h block_write_t" and ctx :: nat and cap :: nat
    and blk :: "'h \<Rightarrow> nat \<Rightarrow> bytes" and ok :: "'h \<Rightarrow> bool"
  assumes cap_bound: "cap < 2 ^ 64"
    and blk_length: "ok h \<Longrightarrow> i < cap \<Longrightarrow> length (blk h i) = SECTOR_SIZE"
    and rd_spec: "ok h \<Longrightarrow> unat lba + unat n \<le> cap \<Longrightarrow> length buf = unat n * SECTOR_SIZE \<Longrightarrow>
      \<exists>h'. rd ctx lba n buf h = (0, concat (map (blk h) [unat lba..<unat lba + unat n]), h') \<and> ok h' \<and> blk h' = blk h"
    and wr_spec: "ok h \<Longrightarrow> unat lba + unat n \<le> cap \<Longrightarrow> length buf = unat n * SECTOR_SIZE \<Longrightarrow>
      \<exists>h'. wr ctx lba n buf h = (0, h') \<and> ok h' \<and>
        (\<forall>i < cap. blk h' i = (if unat lba \<le> i \<and> i < unat lba + unat n
           then slice ((i - unat lba) * SECTOR_SIZE) SECTOR_SIZE buf else blk h i))"
begin

abbreviation "backed \<equiv> backed_by rd wr ctx cap ok"
abbreviation "pblk \<equiv> part_block blk"

text \<open>Storage states that differ at most in device state that holds no block.\<close>

definition same_blocks :: "'h storage \<Rightarrow> 'h storage \<Rightarrow> bool" where
  "same_blocks s s' \<longleftrightarrow> (\<exists>h. s' = s\<lparr>disk := h\<rparr> \<and> ok h \<and> blk h = blk (disk s))"

lemma same_blocksD:
  assumes "same_blocks s s'"
  shows "pblk p s' = pblk p s" "part_blocks p s' = part_blocks p s" "part_window p s' = part_window p s"
    "partitions s' = partitions s" "partition_count s' = partition_count s" "mounts s' = mounts s"
    "block_devices s' = block_devices s" "\<exists>h. s' = s\<lparr>disk := h\<rparr>" "blk (disk s') = blk (disk s)"
    "backed p s \<Longrightarrow> backed p s'"
  using assms by (auto simp: same_blocks_def part_block_def fun_eq_iff backed_by_def Let_def)

lemma same_blocks_refl: "ok (disk s) \<Longrightarrow> same_blocks s s"
  unfolding same_blocks_def by (rule exI [of _ "disk s"]) simp

lemma backed_ok: "backed p s \<Longrightarrow> ok (disk s)"
  by (simp add: backed_by_def)

lemma part_window_cap: "backed p s \<Longrightarrow> i \<in> part_window p s \<Longrightarrow> i < cap"
  by (auto simp: backed_by_def part_window_def part_blocks_def Let_def)

lemma backed_start:
  assumes "backed p s" and "unat lba + unat n \<le> part_blocks p s"
  shows "unat (pt_start_lba (partitions s ! p) + lba) = unat (pt_start_lba (partitions s ! p)) + unat lba"
  using assms cap_bound by (simp add: backed_by_def part_blocks_def Let_def unat_word_ariths)

lemma backed_in_range:
  fixes lba :: u64 and n :: u32
  assumes "backed p s" and "unat lba + unat n \<le> part_blocks p s"
  shows "\<not> pt_block_count (partitions s ! p) < lba + ucast n"
proof -
  have "unat lba + unat n < 2 ^ 64"
    using assms cap_bound by (simp add: backed_by_def part_blocks_def Let_def)
  then show ?thesis
    using assms(2) unat_add_ucast_le by (simp add: part_blocks_def)
qed

lemma part_read:
  assumes "backed p s" and "unat lba + unat n \<le> part_blocks p s" and "length buf = unat n * SECTOR_SIZE"
  obtains s' where "storage_read_partition p lba n buf s =
    (0, concat (map (pblk p s) [unat lba..<unat lba + unat n]), s')" "same_blocks s s'"
proof -
  let ?st = "pt_start_lba (partitions s ! p)"
  have "\<exists>h'. rd ctx (?st + lba) n buf (disk s) =
      (0, concat (map (blk (disk s)) [unat (?st + lba)..<unat (?st + lba) + unat n]), h') \<and> ok h' \<and> blk h' = blk (disk s)"
    using assms backed_start [OF assms(1,2)]
    by (intro rd_spec) (auto simp: backed_by_def part_blocks_def Let_def)
  then obtain h' where r: "rd ctx (?st + lba) n buf (disk s) =
      (0, concat (map (blk (disk s)) [unat (?st + lba)..<unat (?st + lba) + unat n]), h')" "ok h'" "blk h' = blk (disk s)"
    by blast
  have "map (blk (disk s)) [unat (?st + lba)..<unat (?st + lba) + unat n] =
      map (pblk p s) [unat lba..<unat lba + unat n]"
    using backed_start [OF assms(1,2)]
    by (intro nth_equalityI) (auto simp: part_block_def add.assoc)
  with r(1) have "storage_read_partition p lba n buf s =
      (0, concat (map (pblk p s) [unat lba..<unat lba + unat n]), s\<lparr>disk := h'\<rparr>)"
    using assms(1) backed_in_range [OF assms(1,2)]
    by (simp add: storage_read_partition_def backed_by_def Let_def)
  then show ?thesis
    using r(2,3) by (intro that [of "s\<lparr>disk := h'\<rparr>"]) (auto simp: same_blocks_def)
qed

lemma part_read_one:
  assumes "backed p s" and "unat lba < part_blocks p s" and "length buf = SECTOR_SIZE"
  obtains s' where "storage_read_partition p lba 1 buf s = (0, pblk p s (unat lba), s')" "same_blocks s s'"
  using part_read [of p s lba 1 buf] assms by auto

lemma part_read_beyond:
  assumes "backed p s" and "part_blocks p s < unat lba + unat n" and "unat lba + unat n < 2 ^ 64"
  shows "storage_read_partition p lba n buf s = (-1, buf, s)"
proof -
  have "pt_block_count (partitions s ! p) < lba + ucast n"
    using assms unat_add_ucast_le by (simp add: part_blocks_def)
  then show ?thesis
    using assms(1) by (simp add: storage_read_partition_def backed_by_def Let_def)
qed

lemma part_write_beyond:
  assumes "backed p s" and "part_blocks p s < unat lba + unat n" and "unat lba + unat n < 2 ^ 64"
  shows "storage_write_partition p lba n buf s = (-1, s)"
proof -
  have "pt_block_count (partitions s ! p) < lba + ucast n"
    using assms unat_add_ucast_le by (simp add: part_blocks_def)
  then show ?thesis
    using assms(1) by (simp add: storage_write_partition_def backed_by_def Let_def)
qed

lemma part_write:
  assumes "backed p s" and "unat lba + unat n \<le> part_blocks p s" and "length buf = unat n * SECTOR_SIZE"
  obtains h' where "storage_write_partition p lba n buf s = (0, s\<lparr>disk := h'\<rparr>)"
    and "\<And>q. backed q s \<Longrightarrow> backed q (s\<lparr>disk := h'\<rparr>)"
    and "\<And>i. i < part_blocks p s \<Longrightarrow> pblk p (s\<lparr>disk := h'\<rparr>) i =
          (if unat lba \<le> i \<and> i < unat lba + unat n
           then slice ((i - unat lba) * SECTOR_SIZE) SECTOR_SIZE buf else pblk p s i)"
    and "\<And>i. i < cap \<Longrightarrow> i \<notin> part_window p s \<Longrightarrow> blk h' i = blk (disk s) i"
proof -
  let ?st = "pt_start_lba (partitions s ! p)"
  have st: "unat (?st + lba) = unat ?st + unat lba"
    using backed_start [OF assms(1,2)] .
  have "\<exists>h'. wr ctx (?st + lba) n buf (disk s) = (0, h') \<and> ok h' \<and>
        (\<forall>i < cap. blk h' i = (if unat (?st + lba) \<le> i \<and> i < unat (?st + lba) + unat n
           then slice ((i - unat (?st + lba)) * SECTOR_SIZE) SECTOR_SIZE buf else blk (disk s) i))"
    using assms st by (intro wr_spec) (auto simp: backed_by_def part_blocks_def Let_def)
  then obtain h' where h': "wr ctx (?st + lba) n buf (disk s) = (0, h')" "ok h'"
    and blk': "\<And>i. i < cap \<Longrightarrow> blk h' i = (if unat ?st + unat lba \<le> i \<and> i < unat ?st + unat lba + unat n
           then slice ((i - (unat ?st + unat lba)) * SECTOR_SIZE) SECTOR_SIZE buf else blk (disk s) i)"
    unfolding st by blast
  show ?thesis
  proof (rule that [of h'])
    show "storage_write_partition p lba n buf s = (0, s\<lparr>disk := h'\<rparr>)"
      using assms(1) h'(1) backed_in_range [OF assms(1,2)]
      by (simp add: storage_write_partition_def backed_by_def Let_def)
    show "backed q (s\<lparr>disk := h'\<rparr>)" if "backed q s" for q
      using that h'(2) by (simp add: backed_by_def)
    show "pblk p (s\<lparr>disk := h'\<rparr>) i = (if unat lba \<le> i \<and> i < unat lba + unat n
        then slice ((i - unat lba) * SECTOR_SIZE) SECTOR_SIZE buf else pblk p s i)"
      if "i < part_blocks p s" for i
      using that assms(1) blk' [of "unat ?st + i"]
      by (auto simp: part_block_def backed_by_def part_blocks_def Let_def)
    show "blk h' i = blk (disk s) i" if "i < cap" "i \<notin> part_window p s" for i
      using that assms(2) blk' [of i] by (auto simp: part_window_def)
  qed
qed

lemma part_block_length: "backed p s \<Longrightarrow> i < part_blocks p s \<Longrightarrow> length (pblk p s i) = SECTOR_SIZE"
  by (auto simp: part_block_def part_blocks_def backed_by_def Let_def intro: blk_length)

end

end
