(* ===== verification/Ramdisk.thy ===== *)
theory Ramdisk
  imports Block_Driver
begin

text \<open>
  The ramdisk driver of \<^verbatim>\<open>kernel/drivers/storage.c\<close>, the device \<^verbatim>\<open>rd0\<close> every boot registers. The
  static buffers \<^verbatim>\<open>ramdisk_mbr\<close> and \<^verbatim>\<open>ramdisk_overlay\<close> are the fields of the record \<open>disk_world\<close>;
  an overlay slot whose \<^verbatim>\<open>used\<close> flag is clear is \<open>None\<close>, since its bytes are never read before they
  are zeroed. The record is extensible: the state of other drivers can be added to it. The driver
  is shown to honour the contract \<open>block_driver\<close>.
\<close>

abbreviation (input) RAMDISK_BLOCKS :: u64 where "RAMDISK_BLOCKS \<equiv> 1048576"
abbreviation (input) RAMDISK_PARTITION_START_LBA :: u32 where "RAMDISK_PARTITION_START_LBA \<equiv> 2048"

record disk_world =
  ramdisk_mbr :: bytes
  ramdisk_overlay :: "nat \<Rightarrow> bytes option"

definition zero_sector :: bytes where
  "zero_sector = replicate SECTOR_SIZE 0"

definition create_demo_mbr :: "'z disk_world_scheme \<Rightarrow> 'z disk_world_scheme" where
  "create_demo_mbr w =
     (let entry = MBR_PARTITION_TABLE_OFFSET in
      w\<lparr>ramdisk_mbr :=
        (write_le32 (entry + 12) (ucast (RAMDISK_BLOCKS - ucast RAMDISK_PARTITION_START_LBA))
          (write_le32 (entry + 8) RAMDISK_PARTITION_START_LBA
            ((replicate SECTOR_SIZE 0)[entry := 0x80, entry + 4 := 0x99])))
        [MBR_SIGNATURE_OFFSET := 0x55, MBR_SIGNATURE_OFFSET + 1 := 0xAA]\<rparr>)"

definition find_ramdisk_overlay ::
  "u64 \<Rightarrow> bool \<Rightarrow> 'z disk_world_scheme \<Rightarrow> bytes option \<times> 'z disk_world_scheme" where
  "find_ramdisk_overlay lba create_if_missing w =
     (if RAMDISK_BLOCKS \<le> lba then (None, w)
      else case ramdisk_overlay w (unat lba) of
        Some d \<Rightarrow> (Some d, w)
      | None \<Rightarrow>
          if \<not> create_if_missing then (None, w)
          else (Some (replicate SECTOR_SIZE 0),
                w\<lparr>ramdisk_overlay := (ramdisk_overlay w)(unat lba := Some (replicate SECTOR_SIZE 0))\<rparr>))"

fun ramdisk_read_loop ::
  "u64 \<Rightarrow> nat list \<Rightarrow> bytes \<Rightarrow> 'z disk_world_scheme \<Rightarrow> bytes" where
  "ramdisk_read_loop lba [] out w = out"
| "ramdisk_read_loop lba (i # is) out w =
     (let current_lba = lba + word_of_nat i;
          overlay = (if current_lba = 0 then None else fst (find_ramdisk_overlay current_lba False w));
          src = (if current_lba = 0 then ramdisk_mbr w
                 else case overlay of Some d \<Rightarrow> d | None \<Rightarrow> zero_sector)
      in ramdisk_read_loop lba is (overwrite (i * SECTOR_SIZE) src out) w)"

definition ramdisk_read :: "'z disk_world_scheme block_read_t" where
  "ramdisk_read ctx lba count buffer w =
     (if count = 0 then (0, buffer, w)
      else if RAMDISK_BLOCKS < lba + ucast count then (-1, buffer, w)
      else (0, ramdisk_read_loop lba [0..<unat count] buffer w, w))"

fun ramdisk_write_loop ::
  "u64 \<Rightarrow> nat list \<Rightarrow> bytes \<Rightarrow> 'z disk_world_scheme \<Rightarrow> int \<times> 'z disk_world_scheme" where
  "ramdisk_write_loop lba [] inp w = (0, w)"
| "ramdisk_write_loop lba (i # is) inp w =
     (let current_lba = lba + word_of_nat i; src = slice (i * SECTOR_SIZE) SECTOR_SIZE inp in
      if current_lba = 0
      then ramdisk_write_loop lba is inp (w\<lparr>ramdisk_mbr := overwrite 0 src (ramdisk_mbr w)\<rparr>)
      else case find_ramdisk_overlay current_lba True w of
        (None, w') \<Rightarrow> (-1, w')
      | (Some d, w') \<Rightarrow>
          ramdisk_write_loop lba is inp
            (w'\<lparr>ramdisk_overlay := (ramdisk_overlay w')(unat current_lba := Some (overwrite 0 src d))\<rparr>))"

definition ramdisk_write :: "'z disk_world_scheme block_write_t" where
  "ramdisk_write ctx lba count buffer w =
     (if count = 0 then (0, w)
      else if RAMDISK_BLOCKS < lba + ucast count then (-1, w)
      else ramdisk_write_loop lba [0..<unat count] buffer w)"

subsection \<open>The driver as an array of blocks\<close>

definition ramdisk_block :: "'z disk_world_scheme \<Rightarrow> nat \<Rightarrow> bytes" where
  "ramdisk_block w i =
     (if i = 0 then ramdisk_mbr w
      else case ramdisk_overlay w i of Some d \<Rightarrow> d | None \<Rightarrow> zero_sector)"

definition ramdisk_ok :: "'z disk_world_scheme \<Rightarrow> bool" where
  "ramdisk_ok w \<longleftrightarrow> length (ramdisk_mbr w) = SECTOR_SIZE \<and>
     (\<forall>i d. ramdisk_overlay w i = Some d \<longrightarrow> length d = SECTOR_SIZE)"

lemma ramdisk_block_length: "ramdisk_ok w \<Longrightarrow> length (ramdisk_block w i) = SECTOR_SIZE"
  by (auto simp: ramdisk_ok_def ramdisk_block_def zero_sector_def split: option.splits)

lemma ramdisk_lba:
  fixes lba :: u64
  assumes "unat lba + m \<le> 1048576" and "i < m"
  shows "unat (lba + word_of_nat i) = unat lba + i" and "\<not> RAMDISK_BLOCKS \<le> lba + word_of_nat i"
    and "lba + word_of_nat i = 0 \<longleftrightarrow> unat lba + i = 0"
proof -
  show u: "unat (lba + word_of_nat i) = unat lba + i"
    using assms by (simp add: unat_word_ariths unat_of_nat_64)
  show "\<not> RAMDISK_BLOCKS \<le> lba + word_of_nat i"
    using assms u by (simp add: word_le_nat_alt)
  show "lba + word_of_nat i = 0 \<longleftrightarrow> unat lba + i = 0"
    using u by (metis unat_0 unat_eq_zero)
qed

lemma ramdisk_read_loop_step:
  assumes "unat lba + m \<le> 1048576" and "i < m"
  shows "ramdisk_read_loop lba (i # is) out w =
    ramdisk_read_loop lba is (overwrite (i * SECTOR_SIZE) (ramdisk_block w (unat lba + i)) out) w"
  using ramdisk_lba [OF assms]
  by (simp add: find_ramdisk_overlay_def ramdisk_block_def Let_def split: option.splits)

lemma ramdisk_read_loop_blocks:
  assumes "ramdisk_ok w" and "unat lba + m \<le> 1048576" and "length out = m * SECTOR_SIZE" and "k \<le> m"
    and "take (k * SECTOR_SIZE) out = concat (map (ramdisk_block w) [unat lba..<unat lba + k])"
  shows "ramdisk_read_loop lba [k..<m] out w = concat (map (ramdisk_block w) [unat lba..<unat lba + m])"
  using assms
proof (induction "m - k" arbitrary: k out)
  case 0
  then show ?case by simp
next
  case (Suc n)
  let ?b = "ramdisk_block w (unat lba + k)"
  let ?out = "overwrite (k * SECTOR_SIZE) ?b out"
  have k: "k < m" "[k..<m] = k # [Suc k..<m]"
    using Suc.hyps(2) by (auto simp: upt_conv_Cons)
  have b: "length ?b = SECTOR_SIZE" using ramdisk_block_length Suc.prems(1) .
  have fits: "k * SECTOR_SIZE + SECTOR_SIZE \<le> length out"
    using k Suc.prems(3) by simp
  then have len: "length ?out = m * SECTOR_SIZE"
    using Suc.prems(3) b by simp
  have "take (Suc k * SECTOR_SIZE) ?out = take (k * SECTOR_SIZE) out @ ?b"
    using fits b by (simp add: overwrite_def)
  then have "take (Suc k * SECTOR_SIZE) ?out = concat (map (ramdisk_block w) [unat lba..<unat lba + Suc k])"
    using Suc.prems(5) by simp
  then have "ramdisk_read_loop lba [Suc k..<m] ?out w = concat (map (ramdisk_block w) [unat lba..<unat lba + m])"
    using Suc k len by (intro Suc.hyps(1)) auto
  then show ?case
    by (simp only: k(2) ramdisk_read_loop_step [OF Suc.prems(2) k(1)])
qed

lemma ramdisk_write_loop_step:
  assumes "ramdisk_ok w" and "unat lba + m \<le> 1048576" and "i < m" and "length inp = m * SECTOR_SIZE"
  obtains w' where "ramdisk_write_loop lba (i # is) inp w = ramdisk_write_loop lba is inp w'"
    and "ramdisk_ok w'"
    and "\<And>j. ramdisk_block w' j =
      (if j = unat lba + i then slice (i * SECTOR_SIZE) SECTOR_SIZE inp else ramdisk_block w j)"
proof -
  let ?src = "slice (i * SECTOR_SIZE) SECTOR_SIZE inp"
  have src: "length ?src = SECTOR_SIZE"
    using assms(3,4) by (intro length_slice_in) simp
  note lba = ramdisk_lba [OF assms(2,3)]
  show ?thesis
  proof (cases "lba + word_of_nat i = 0")
    case True
    then show ?thesis
      using lba assms(1) src
      by (intro that [of "w\<lparr>ramdisk_mbr := ?src\<rparr>"])
        (auto simp: ramdisk_ok_def ramdisk_block_def Let_def)
  next
    case False
    then show ?thesis
      using lba assms(1) src
      by (intro that [of "w\<lparr>ramdisk_overlay := (ramdisk_overlay w)(unat lba + i := Some ?src)\<rparr>"])
        (auto simp: ramdisk_ok_def ramdisk_block_def Let_def find_ramdisk_overlay_def not_le
          split: option.splits)
  qed
qed

lemma ramdisk_write_loop_blocks:
  assumes "ramdisk_ok w" and "unat lba + m \<le> 1048576" and "length inp = m * SECTOR_SIZE" and "k \<le> m"
  obtains w' where "ramdisk_write_loop lba [k..<m] inp w = (0, w')" and "ramdisk_ok w'"
    and "\<And>j. ramdisk_block w' j = (if unat lba + k \<le> j \<and> j < unat lba + m
      then slice ((j - unat lba) * SECTOR_SIZE) SECTOR_SIZE inp else ramdisk_block w j)"
proof -
  have "\<exists>w'. ramdisk_write_loop lba [k..<m] inp w = (0, w') \<and> ramdisk_ok w' \<and>
    (\<forall>j. ramdisk_block w' j = (if unat lba + k \<le> j \<and> j < unat lba + m
      then slice ((j - unat lba) * SECTOR_SIZE) SECTOR_SIZE inp else ramdisk_block w j))"
    using assms(1,4)
  proof (induction "m - k" arbitrary: k w)
    case 0
    then show ?case by auto
  next
    case (Suc n)
    then have k: "k < m" "[k..<m] = k # [Suc k..<m]" "n = m - Suc k"
      by (auto simp: upt_conv_Cons)
    obtain w1 where w1: "ramdisk_write_loop lba (k # [Suc k..<m]) inp w = ramdisk_write_loop lba [Suc k..<m] inp w1"
        "ramdisk_ok w1"
        "\<And>j. ramdisk_block w1 j =
          (if j = unat lba + k then slice (k * SECTOR_SIZE) SECTOR_SIZE inp else ramdisk_block w j)"
      by (rule ramdisk_write_loop_step [OF Suc.prems(1) assms(2) k(1) assms(3), of "[Suc k..<m]"])
        (rule that)
    obtain w2 where w2: "ramdisk_write_loop lba [Suc k..<m] inp w1 = (0, w2)" "ramdisk_ok w2"
        "\<forall>j. ramdisk_block w2 j = (if unat lba + Suc k \<le> j \<and> j < unat lba + m
          then slice ((j - unat lba) * SECTOR_SIZE) SECTOR_SIZE inp else ramdisk_block w1 j)"
      using Suc.hyps(1) [OF k(3) w1(2)] k(1) by auto
    have "ramdisk_block w2 j = (if unat lba + k \<le> j \<and> j < unat lba + m
        then slice ((j - unat lba) * SECTOR_SIZE) SECTOR_SIZE inp else ramdisk_block w j)" for j
      using w2(3) w1(3) [of j] k(1) by auto
    with w1(1) w2(1,2) show ?case
      by (simp only: k(2)) blast
  qed
  with that show ?thesis by blast
qed

interpretation ramdisk: block_driver ramdisk_read ramdisk_write 0 1048576 ramdisk_block ramdisk_ok
proof unfold_locales
  show "(1048576 :: nat) < 2 ^ 64" by simp
next
  fix h :: "'a disk_world_scheme" and i :: nat
  assume "ramdisk_ok h"
  then show "length (ramdisk_block h i) = SECTOR_SIZE" by (rule ramdisk_block_length)
next
  fix h :: "'a disk_world_scheme" and lba :: u64 and n :: u32 and buf :: bytes
  assume a: "ramdisk_ok h" "unat lba + unat n \<le> 1048576" "length buf = unat n * SECTOR_SIZE"
  have "\<not> RAMDISK_BLOCKS < lba + ucast n"
    using a(2) unat_add_ucast_le [of lba n RAMDISK_BLOCKS] by simp
  then have "ramdisk_read 0 lba n buf h = (0, concat (map (ramdisk_block h) [unat lba..<unat lba + unat n]), h)"
    using a ramdisk_read_loop_blocks [OF a, of 0] by (auto simp: ramdisk_read_def unat_eq_zero)
  with a(1) show "\<exists>h'. ramdisk_read 0 lba n buf h = (0, concat (map (ramdisk_block h) [unat lba..<unat lba + unat n]), h') \<and>
      ramdisk_ok h' \<and> ramdisk_block h' = ramdisk_block h" by blast
next
  fix h :: "'a disk_world_scheme" and lba :: u64 and n :: u32 and buf :: bytes
  assume a: "ramdisk_ok h" "unat lba + unat n \<le> 1048576" "length buf = unat n * SECTOR_SIZE"
  have "\<not> RAMDISK_BLOCKS < lba + ucast n"
    using a(2) unat_add_ucast_le [of lba n RAMDISK_BLOCKS] by simp
  then show "\<exists>h'. ramdisk_write 0 lba n buf h = (0, h') \<and> ramdisk_ok h' \<and>
        (\<forall>i < 1048576. ramdisk_block h' i = (if unat lba \<le> i \<and> i < unat lba + unat n
           then slice ((i - unat lba) * SECTOR_SIZE) SECTOR_SIZE buf else ramdisk_block h i))"
  proof (cases "n = 0")
    case True
    with a(1) show ?thesis by (auto simp: ramdisk_write_def)
  next
    case False
    obtain h' where "ramdisk_write_loop lba [0..<unat n] buf h = (0, h')" "ramdisk_ok h'"
      "\<And>j. ramdisk_block h' j = (if unat lba + 0 \<le> j \<and> j < unat lba + unat n
        then slice ((j - unat lba) * SECTOR_SIZE) SECTOR_SIZE buf else ramdisk_block h j)"
      by (rule ramdisk_write_loop_blocks [OF a le0]) (rule that)
    with False \<open>\<not> RAMDISK_BLOCKS < lba + ucast n\<close> show ?thesis
      by (simp add: ramdisk_write_def)
  qed
qed

end
