(* ===== verification/Lainfs_Cache.thy ===== *)
theory Lainfs_Cache
  imports Lainfs_Alloc Ramdisk
begin

text \<open>
  The write-back caches of \<^verbatim>\<open>kernel/fs/lainfs.c\<close>: one superblock, one directory and sixteen data
  blocks. The static variables of the file are the record \<open>lainfs\<close>, together with the storage
  layer below (\<open>store\<close>) and the characters the file system has put on the console (\<open>console\<close>).
  The directory buffer is kept as its 2048 decoded entries; it is encoded where it is written to
  the disk and decoded where it is read. C's \<^verbatim>\<open>int\<close> flags are booleans; the statistics counters are
  64-bit and wrap. The static scratch buffer \<^verbatim>\<open>sector\<close> is always filled before it is used and is a
  local value here.
\<close>

abbreviation (input) LAINFS_DATA_CACHE_SLOTS :: nat where "LAINFS_DATA_CACHE_SLOTS \<equiv> 16"

record lainfs_data_cache_slot_t =
  sl_valid :: bool
  sl_dirty :: bool
  sl_partition_index :: nat
  sl_lba :: u32
  sl_age :: u64
  sl_data :: bytes

record lainfs_cache_stats_t =
  cs_directory_valid :: u32
  cs_directory_dirty :: u32
  cs_data_valid :: u32
  cs_data_dirty :: u32
  cs_directory_reads :: u64
  cs_directory_writes :: u64
  cs_directory_cache_hits :: u64
  cs_data_reads :: u64
  cs_data_writes :: u64
  cs_data_cache_hits :: u64
  cs_flushes :: u64

record 'h lainfs =
  directory :: directory
  super_cache :: lainfs_superblock_t
  super_cache_valid :: bool
  super_cache_partition :: nat
  directory_cache_valid :: bool
  directory_cache_dirty :: bool
  directory_cache_partition :: nat
  data_cache :: "lainfs_data_cache_slot_t list"
  cache_clock :: u64
  cache_stats :: lainfs_cache_stats_t
  lainfs_global_lock :: u32
  console :: bytes
  store :: "'h storage"

text \<open>
  The spin lock: \<open>None\<close> is a caller that spins for ever, since without another thread nobody
  releases the lock.
\<close>

definition lainfs_lock :: "'h lainfs \<Rightarrow> 'h lainfs option" where
  "lainfs_lock l = (if lainfs_global_lock l \<noteq> 0 then None else Some (l\<lparr>lainfs_global_lock := 1\<rparr>))"

definition lainfs_unlock :: "'h lainfs \<Rightarrow> 'h lainfs" where
  "lainfs_unlock l = l\<lparr>lainfs_global_lock := 0\<rparr>"

definition mount_for_drive :: "u8 \<Rightarrow> 'h lainfs \<Rightarrow> mount_t option" where
  "mount_for_drive drive_letter l = storage_get_mount_by_drive (to_upper drive_letter) (store l)"

subsection \<open>The superblock\<close>

definition super_magic_ok :: "lainfs_superblock_t \<Rightarrow> bool" where
  "super_magic_ok super \<longleftrightarrow>
     \<not> (sb_magic0 super \<noteq> LAINFS_MAGIC0 \<or> sb_magic1 super \<noteq> LAINFS_MAGIC1 \<or> sb_version super \<noteq> 1 \<or>
        sb_block_size super \<noteq> 512 \<or> sb_dir_blocks super \<noteq> 256 \<or> sb_max_files super \<noteq> 2048)"

definition raw_read_super ::
  "nat \<Rightarrow> lainfs_superblock_t \<Rightarrow> 'h lainfs \<Rightarrow> int \<times> lainfs_superblock_t \<times> 'h lainfs" where
  "raw_read_super partition_index super l =
     (let (st, buf, s) = storage_read_partition partition_index 0 1 (bytes_of_super super) (store l);
          super' = super_of_bytes buf; l' = l\<lparr>store := s\<rparr>
      in if st \<noteq> 0 then (-1, super', l')
         else if \<not> super_magic_ok super' then (-2, super', l')
         else (0, super', l'))"

definition read_super :: "nat \<Rightarrow> 'h lainfs \<Rightarrow> int \<times> lainfs_superblock_t \<times> 'h lainfs" where
  "read_super partition_index l =
     (if super_cache_valid l \<and> super_cache_partition l = partition_index then (0, super_cache l, l)
      else let (st, super, l') = raw_read_super partition_index (super_cache l) l
           in if st \<noteq> 0 then (-1, super, l'\<lparr>super_cache := super, super_cache_valid := False\<rparr>)
              else (0, super, l'\<lparr>super_cache := super, super_cache_valid := True,
                                 super_cache_partition := partition_index\<rparr>))"

subsection \<open>Writing caches back\<close>

definition count_flush :: "'h lainfs \<Rightarrow> 'h lainfs" where
  "count_flush l = l\<lparr>cache_stats := (cache_stats l)\<lparr>cs_flushes := cs_flushes (cache_stats l) + 1\<rparr>\<rparr>"

definition flush_data_cache_slot :: "nat \<Rightarrow> 'h lainfs \<Rightarrow> int \<times> 'h lainfs" where
  "flush_data_cache_slot slot_index l =
     (if LAINFS_DATA_CACHE_SLOTS \<le> slot_index then (-1, l)
      else let slot = data_cache l ! slot_index in
        if \<not> sl_valid slot \<or> \<not> sl_dirty slot then (0, l)
        else let (st, s) = storage_write_partition (sl_partition_index slot) (ucast (sl_lba slot)) 1
                             (sl_data slot) (store l);
                 l' = l\<lparr>store := s\<rparr>
             in if st \<noteq> 0 then (-1, l')
                else (0, count_flush (l'\<lparr>data_cache := (data_cache l)[slot_index := slot\<lparr>sl_dirty := False\<rparr>]\<rparr>)))"

fun flush_slots :: "(lainfs_data_cache_slot_t \<Rightarrow> bool) \<Rightarrow> nat list \<Rightarrow> 'h lainfs \<Rightarrow> int \<times> 'h lainfs" where
  "flush_slots sel [] l = (0, l)"
| "flush_slots sel (i # is) l =
     (if sl_valid (data_cache l ! i) \<and> sl_dirty (data_cache l ! i) \<and> sel (data_cache l ! i)
      then let (st, l') = flush_data_cache_slot i l
           in if st \<noteq> 0 then (-1, l') else flush_slots sel is l'
      else flush_slots sel is l)"

definition flush_data_cache_partition :: "nat \<Rightarrow> 'h lainfs \<Rightarrow> int \<times> 'h lainfs" where
  "flush_data_cache_partition partition_index l =
     flush_slots (\<lambda>slot. sl_partition_index slot = partition_index) [0..<LAINFS_DATA_CACHE_SLOTS] l"

text \<open>The uninitialised local superblock is the argument \<open>super\<close> of the raw read.\<close>

definition flush_directory_cache :: "'h lainfs \<Rightarrow> int \<times> 'h lainfs" where
  "flush_directory_cache l =
     (if \<not> directory_cache_valid l \<or> \<not> directory_cache_dirty l then (0, l)
      else let p = directory_cache_partition l;
               (st, super, l1) =
                 (if super_cache_valid l \<and> super_cache_partition l = p then (0, super_cache l, l)
                  else raw_read_super p (super_of_bytes (replicate 512 0)) l)
           in if st \<noteq> 0 then (-1, l1)
              else let (st', s) = storage_write_partition p (ucast (sb_dir_start_lba super))
                                    (sb_dir_blocks super) (bytes_of_dir (directory l1)) (store l1);
                       l2 = l1\<lparr>store := s\<rparr>
                   in if st' \<noteq> 0 then (-1, l2)
                      else (0, count_flush (l2\<lparr>directory_cache_dirty := False\<rparr>)))"

definition flush_partition_cache :: "nat \<Rightarrow> 'h lainfs \<Rightarrow> int \<times> 'h lainfs" where
  "flush_partition_cache partition_index l =
     (let (st, l1) = flush_data_cache_partition partition_index l
      in if st \<noteq> 0 then (-1, l1)
         else if directory_cache_valid l1 \<and> directory_cache_dirty l1 \<and>
                 directory_cache_partition l1 = partition_index
         then let (st', l2) = flush_directory_cache l1
              in if st' \<noteq> 0 then (-1, l2) else (0, l2)
         else (0, l1))"

definition drop_slot :: "nat \<Rightarrow> lainfs_data_cache_slot_t \<Rightarrow> lainfs_data_cache_slot_t" where
  "drop_slot partition_index slot =
     (if sl_valid slot \<and> sl_partition_index slot = partition_index
      then slot\<lparr>sl_valid := False, sl_dirty := False\<rparr> else slot)"

definition invalidate_partition_cache :: "nat \<Rightarrow> 'h lainfs \<Rightarrow> 'h lainfs" where
  "invalidate_partition_cache partition_index l =
     (let l1 = (if super_cache_valid l \<and> super_cache_partition l = partition_index
                then l\<lparr>super_cache_valid := False\<rparr> else l);
          l2 = (if directory_cache_valid l1 \<and> directory_cache_partition l1 = partition_index
                then l1\<lparr>directory_cache_valid := False, directory_cache_dirty := False\<rparr> else l1)
      in l2\<lparr>data_cache := map (drop_slot partition_index) (data_cache l2)\<rparr>)"

subsection \<open>Cached blocks\<close>

definition slot_matches :: "nat \<Rightarrow> u32 \<Rightarrow> lainfs_data_cache_slot_t \<Rightarrow> bool" where
  "slot_matches partition_index lba slot \<longleftrightarrow>
     sl_valid slot \<and> sl_partition_index slot = partition_index \<and> sl_lba slot = lba"

fun victim_scan :: "lainfs_data_cache_slot_t list \<Rightarrow> nat list \<Rightarrow> nat \<Rightarrow> u64 \<Rightarrow> nat" where
  "victim_scan slots [] victim oldest = victim"
| "victim_scan slots (i # is) victim oldest =
     (if \<not> sl_valid (slots ! i) then i
      else if sl_age (slots ! i) < oldest then victim_scan slots is i (sl_age (slots ! i))
      else victim_scan slots is victim oldest)"

definition cache_victim :: "'h lainfs \<Rightarrow> nat" where
  "cache_victim l = victim_scan (data_cache l) [0..<LAINFS_DATA_CACHE_SLOTS] 0 0xFFFFFFFFFFFFFFFF"

definition cache_hit :: "nat \<Rightarrow> u32 \<Rightarrow> 'h lainfs \<Rightarrow> nat option" where
  "cache_hit partition_index lba l =
     find (\<lambda>i. slot_matches partition_index lba (data_cache l ! i)) [0..<LAINFS_DATA_CACHE_SLOTS]"

definition cached_read_block :: "nat \<Rightarrow> u32 \<Rightarrow> bytes \<Rightarrow> 'h lainfs \<Rightarrow> int \<times> bytes \<times> 'h lainfs" where
  "cached_read_block partition_index lba buffer l =
     (case cache_hit partition_index lba l of
        Some i \<Rightarrow>
          let slot = data_cache l ! i; clock = cache_clock l + 1; stats = cache_stats l in
          (0, overwrite 0 (sl_data slot) buffer,
           l\<lparr>data_cache := (data_cache l)[i := slot\<lparr>sl_age := clock\<rparr>], cache_clock := clock,
             cache_stats := stats\<lparr>cs_data_cache_hits := cs_data_cache_hits stats + 1\<rparr>\<rparr>)
      | None \<Rightarrow>
          let victim = cache_victim l; (st, l1) = flush_data_cache_slot victim l
          in if st \<noteq> 0 then (-1, buffer, l1)
             else let slot = data_cache l1 ! victim;
                      (st', dat, s) = storage_read_partition partition_index (ucast lba) 1 (sl_data slot) (store l1);
                      l2 = l1\<lparr>store := s\<rparr>; stats = cache_stats l1; clock = cache_clock l1 + 1
                  in if st' \<noteq> 0
                     then (-1, buffer, l2\<lparr>data_cache := (data_cache l1)[victim :=
                            slot\<lparr>sl_valid := False, sl_dirty := False, sl_data := dat\<rparr>]\<rparr>)
                     else (0, overwrite 0 dat buffer,
                           l2\<lparr>data_cache := (data_cache l1)[victim :=
                                \<lparr>sl_valid = True, sl_dirty = False, sl_partition_index = partition_index,
                                 sl_lba = lba, sl_age = clock, sl_data = dat\<rparr>],
                              cache_clock := clock,
                              cache_stats := stats\<lparr>cs_data_reads := cs_data_reads stats + 1\<rparr>\<rparr>))"

definition cached_write_block :: "nat \<Rightarrow> u32 \<Rightarrow> bytes \<Rightarrow> 'h lainfs \<Rightarrow> int \<times> 'h lainfs" where
  "cached_write_block partition_index lba buffer l =
     (case cache_hit partition_index lba l of
        Some i \<Rightarrow>
          let slot = data_cache l ! i; clock = cache_clock l + 1; stats = cache_stats l in
          (0, l\<lparr>data_cache := (data_cache l)[i := slot\<lparr>sl_data := overwrite 0 buffer (sl_data slot),
                                                     sl_dirty := True, sl_age := clock\<rparr>],
                cache_clock := clock,
                cache_stats := stats\<lparr>cs_data_cache_hits := cs_data_cache_hits stats + 1,
                                     cs_data_writes := cs_data_writes stats + 1\<rparr>\<rparr>)
      | None \<Rightarrow>
          let victim = cache_victim l; (st, l1) = flush_data_cache_slot victim l
          in if st \<noteq> 0 then (-1, l1)
             else let slot = data_cache l1 ! victim; stats = cache_stats l1; clock = cache_clock l1 + 1
                  in (0, l1\<lparr>data_cache := (data_cache l1)[victim :=
                              \<lparr>sl_valid = True, sl_dirty = True, sl_partition_index = partition_index,
                               sl_lba = lba, sl_age = clock, sl_data = overwrite 0 buffer (sl_data slot)\<rparr>],
                            cache_clock := clock,
                            cache_stats := stats\<lparr>cs_data_writes := cs_data_writes stats + 1\<rparr>\<rparr>))"

subsection \<open>Format and the directory\<close>

definition fresh_super :: lainfs_superblock_t where
  "fresh_super = \<lparr>sb_magic0 = LAINFS_MAGIC0, sb_magic1 = LAINFS_MAGIC1, sb_version = 1, sb_block_size = 512,
     sb_dir_start_lba = 1, sb_dir_blocks = 256, sb_data_start_lba = 257, sb_max_files = 2048,
     sb_reserved = replicate 480 0\<rparr>"

definition empty_directory :: directory where
  "empty_directory = replicate LAINFS_MAX_FILES zero_dirent"

definition format_partition_index :: "nat \<Rightarrow> 'h lainfs \<Rightarrow> int \<times> 'h lainfs" where
  "format_partition_index partition_index l =
     (case storage_get_partition partition_index (store l) of
        None \<Rightarrow> (-2, l)
      | Some part \<Rightarrow>
          if pt_block_count part < 64 then (-2, l)
          else if \<not> storage_partition_is_writable partition_index (store l) then (-4, l)
          else let (st, l1) = (if directory_cache_valid l \<and> directory_cache_dirty l
                               then flush_directory_cache l else (0, l))
            in if st \<noteq> 0 then (-5, l1)
               else let l2 = invalidate_partition_cache partition_index l1;
                        (st1, s1) = storage_write_partition partition_index 0 1 (bytes_of_super fresh_super) (store l2);
                        l3 = l2\<lparr>store := s1\<rparr>
                    in if st1 \<noteq> 0 then (-5, l3)
                       else let l4 = l3\<lparr>directory := empty_directory\<rparr>;
                                (st2, s2) = storage_write_partition partition_index 1 256
                                              (bytes_of_dir empty_directory) (store l4);
                                l5 = l4\<lparr>store := s2\<rparr>
                            in if st2 \<noteq> 0 then (-5, l5)
                               else (0, invalidate_partition_cache partition_index
                                          (l5\<lparr>store := storage_discover_partitions (store l5)\<rparr>)))"

definition count_dir_hit :: "'h lainfs \<Rightarrow> 'h lainfs" where
  "count_dir_hit l = l\<lparr>cache_stats := (cache_stats l)\<lparr>cs_directory_cache_hits := cs_directory_cache_hits (cache_stats l) + 1\<rparr>\<rparr>"

definition count_dir_read :: "'h lainfs \<Rightarrow> 'h lainfs" where
  "count_dir_read l = l\<lparr>cache_stats := (cache_stats l)\<lparr>cs_directory_reads := cs_directory_reads (cache_stats l) + 1\<rparr>\<rparr>"

text \<open>Reading the directory blocks into the directory buffer.\<close>

definition read_directory :: "nat \<Rightarrow> lainfs_superblock_t \<Rightarrow> 'h lainfs \<Rightarrow> int \<times> 'h lainfs" where
  "read_directory partition_index super l =
     (let (st, buf, s) = storage_read_partition partition_index (ucast (sb_dir_start_lba super))
                           (sb_dir_blocks super) (bytes_of_dir (directory l)) (store l);
          l' = l\<lparr>store := s, directory := dir_of_bytes buf\<rparr>
      in if st \<noteq> 0 then (-1, l'\<lparr>directory_cache_valid := False, directory_cache_dirty := False\<rparr>)
         else (0, count_dir_read (l'\<lparr>directory_cache_valid := True, directory_cache_dirty := False,
                                      directory_cache_partition := partition_index\<rparr>)))"

definition load_directory_unchecked :: "nat \<Rightarrow> lainfs_superblock_t \<Rightarrow> 'h lainfs \<Rightarrow> int \<times> 'h lainfs" where
  "load_directory_unchecked partition_index super l =
     (if directory_cache_valid l \<and> directory_cache_partition l = partition_index then (0, count_dir_hit l)
      else let (st, l1) = (if directory_cache_valid l \<and> directory_cache_dirty l
                           then flush_directory_cache l else (0, l))
           in if st \<noteq> 0 then (-1, l1) else read_directory partition_index super l1)"

definition load_directory :: "nat \<Rightarrow> lainfs_superblock_t \<Rightarrow> 'h lainfs \<Rightarrow> int \<times> 'h lainfs" where
  "load_directory partition_index super l =
     (let (st, l1) = load_directory_unchecked partition_index super l
      in if st \<noteq> 0 then (-1, l1)
         else let (st', reason, entry_id) =
                    validate_directory (storage_get_partition partition_index (store l1)) super (directory l1)
              in if st' \<noteq> 0 then (-1, l1\<lparr>directory_cache_valid := False, directory_cache_dirty := False\<rparr>)
                 else (0, l1))"

definition save_directory :: "nat \<Rightarrow> 'h lainfs \<Rightarrow> int \<times> 'h lainfs" where
  "save_directory partition_index l =
     (0, l\<lparr>directory_cache_valid := True, directory_cache_dirty := True,
           directory_cache_partition := partition_index,
           cache_stats := (cache_stats l)\<lparr>cs_directory_writes := cs_directory_writes (cache_stats l) + 1\<rparr>\<rparr>)"

end
