(* ===== verification/Lainfs_Ops.thy ===== *)
theory Lainfs_Ops
  imports Lainfs_Cache "HOL-Library.Monad_Syntax"
begin

text \<open>
  The public operations of \<^verbatim>\<open>kernel/fs/lainfs.c\<close>. Each is a function of the state that gives the
  status, its out-parameters and the new state; \<open>None\<close> is a call that never returns, because it
  waits for a lock that is held or walks a parent chain without end. Every return path after the
  lock is taken releases it with \<open>lainfs_unlock\<close>, as in the code. A null out-pointer only drops a
  result. \<open>open_directory\<close> is the prefix that the operations share: read the superblock, load the
  directory, and on failure unlock and return the status of that call.
\<close>

subsection \<open>Console output\<close>

definition console_puts :: "bytes \<Rightarrow> 'h lainfs \<Rightarrow> 'h lainfs" where
  "console_puts s l = l\<lparr>console := console l @ cstr s\<rparr>"

fun dec_digits :: "nat \<Rightarrow> bytes" where
  "dec_digits n = (if n = 0 then [] else dec_digits (n div 10) @ [48 + word_of_nat (n mod 10)])"

declare dec_digits.simps [simp del]

definition console_put_dec64 :: "u64 \<Rightarrow> 'h lainfs \<Rightarrow> 'h lainfs" where
  "console_put_dec64 v l =
     l\<lparr>console := console l @ (if v = 0 then [48] else dec_digits (unat v))\<rparr>"

definition print_padded :: "bytes \<Rightarrow> nat \<Rightarrow> 'h lainfs \<Rightarrow> 'h lainfs" where
  "print_padded s width l =
     (let len = length (cstr s); l1 = console_puts s l
      in ((console_puts [32]) ^^ (width - len)) l1)"

subsection \<open>Formatting and flushing\<close>

definition lainfs_format :: "u8 \<Rightarrow> 'h lainfs \<Rightarrow> (int \<times> 'h lainfs) option" where
  "lainfs_format drive_letter l =
     (case mount_for_drive drive_letter l of
        None \<Rightarrow> Some (-1, l)
      | Some mount \<Rightarrow> do {
          l1 \<leftarrow> lainfs_lock l;
          let (status, l2) = format_partition_index (mt_partition_index mount) l1;
          Some (status, lainfs_unlock l2)
        })"

definition lainfs_format_partition :: "bytes \<Rightarrow> 'h lainfs \<Rightarrow> (int \<times> 'h lainfs) option" where
  "lainfs_format_partition partition_name l =
     (case storage_find_partition partition_name (store l) of
        None \<Rightarrow> Some (-1, l)
      | Some partition_index \<Rightarrow> do {
          l1 \<leftarrow> lainfs_lock l;
          let (status, l2) = format_partition_index partition_index l1;
          Some (status, lainfs_unlock l2)
        })"

definition lainfs_flush :: "u8 \<Rightarrow> 'h lainfs \<Rightarrow> (int \<times> 'h lainfs) option" where
  "lainfs_flush drive_letter l =
     (case mount_for_drive drive_letter l of
        None \<Rightarrow> Some (-1, l)
      | Some mount \<Rightarrow> do {
          l1 \<leftarrow> lainfs_lock l;
          let (status, l2) = flush_partition_cache (mt_partition_index mount) l1;
          Some (status, lainfs_unlock l2)
        })"

definition lainfs_flush_all :: "'h lainfs \<Rightarrow> (int \<times> 'h lainfs) option" where
  "lainfs_flush_all l = do {
     l1 \<leftarrow> lainfs_lock l;
     let (st, l2) = flush_slots (\<lambda>slot. True) [0..<LAINFS_DATA_CACHE_SLOTS] l1;
     if st \<noteq> 0 then Some (-1, lainfs_unlock l2)
     else let (st', l3) = (if directory_cache_valid l2 \<and> directory_cache_dirty l2
                           then flush_directory_cache l2 else (0, l2))
          in if st' \<noteq> 0 then Some (-1, lainfs_unlock l3) else Some (0, lainfs_unlock l3)
   }"

text \<open>The output buffer is the list \<open>out_partition_name\<close>; an empty list stands for no buffer.\<close>

definition lainfs_format_block_device ::
  "bytes \<Rightarrow> bytes \<Rightarrow> 'h lainfs \<Rightarrow> (int \<times> bytes \<times> 'h lainfs) option" where
  "lainfs_format_block_device device_name out_partition_name l =
     (let out = out_partition_name[0 := 0] in
      case storage_find_block_device device_name (store l) of
        None \<Rightarrow> Some (-1, out, l)
      | Some device_index \<Rightarrow> do {
          (fl, l1) \<leftarrow> lainfs_flush_all l;
          if fl \<noteq> 0 then Some (-5, out, l1)
          else let (status, partition_index, s) =
                     storage_create_mbr_partition device_index 0x99
                       (storage_unmount_block_device device_index (store l1));
                   l2 = l1\<lparr>store := s\<rparr>
               in if status = -2 then Some (-4, out, l2)
                  else if status = -4 then Some (-6, out, l2)
                  else if status = -5 then Some (-5, out, l2)
                  else if status \<noteq> 0 then Some (-2, out, l2)
                  else case storage_get_partition partition_index (store l2) of
                    None \<Rightarrow> Some (-3, out, l2)
                  | Some part \<Rightarrow> do {
                      let out' = (if out = [] then []
                                  else overwrite 0 (copy_chars (pt_name part) (length out - 1) @ [0]) out);
                      l3 \<leftarrow> lainfs_lock l2;
                      let (status', l4) = format_partition_index partition_index l3;
                      Some (status', out', lainfs_unlock l4)
                    }
        })"

subsection \<open>Checking and repairing\<close>

definition lainfs_check :: "u8 \<Rightarrow> 'h lainfs \<Rightarrow> (int \<times> u32 \<times> u32 \<times> 'h lainfs) option" where
  "lainfs_check drive_letter l =
     (case mount_for_drive drive_letter l of
        None \<Rightarrow> Some (-1, LAINFS_CHECK_NO_PARTITION, 0, l)
      | Some mount \<Rightarrow> do {
          l1 \<leftarrow> lainfs_lock l;
          let p = mt_partition_index mount;
          let (st, super, l2) = read_super p l1;
          if st \<noteq> 0 then Some (-1, LAINFS_CHECK_BAD_SUPERBLOCK, 0, lainfs_unlock l2)
          else let (st1, l3) =
                 (if \<not> (directory_cache_valid l2 \<and> directory_cache_partition l2 = p)
                  then let (st2, l4) = (if directory_cache_valid l2 \<and> directory_cache_dirty l2
                                        then flush_directory_cache l2 else (0, l2))
                       in if st2 \<noteq> 0 then (-1, l4) else read_directory p super l4
                  else (0, l2))
            in if st1 \<noteq> 0 then Some (-1, LAINFS_CHECK_BAD_LAYOUT, 0, lainfs_unlock l3)
               else let (status, reason, entry_id) =
                          validate_directory (storage_get_partition p (store l3)) super (directory l3)
                    in Some (status, reason, entry_id, lainfs_unlock l3)
        })"

record lainfs_entry_detail_t =
  ed_entry_id :: u32
  ed_type :: u32
  ed_parent_id :: u32
  ed_size :: u32
  ed_extent_valid :: u32
  ed_extent_count :: u32
  ed_extent_start_lba :: "u32 list"
  ed_extent_blocks :: "u32 list"
  ed_legacy_start_lba :: u32
  ed_legacy_blocks :: u32
  ed_name :: bytes

definition entry_detail :: "u32 \<Rightarrow> lainfs_dirent_t \<Rightarrow> lainfs_entry_detail_t" where
  "entry_detail entry_id entry =
     (let out = \<lparr>ed_entry_id = entry_id, ed_type = ucast (de_used entry),
                 ed_parent_id = entry_parent_id entry, ed_size = de_byte_size entry,
                 ed_extent_valid = 0, ed_extent_count = 0,
                 ed_extent_start_lba = replicate 3 0, ed_extent_blocks = replicate 3 0,
                 ed_legacy_start_lba = de_start_lba entry,
                 ed_legacy_blocks = allocated_blocks_for_entry entry,
                 ed_name = overwrite 0 (copy_chars (de_name entry) 31) (replicate 32 0)\<rparr>
      in if de_used entry = LAINFS_ENTRY_FILE
         then case entry_extents entry of
           Some xs \<Rightarrow> out\<lparr>ed_extent_valid := 1, ed_extent_count := word_of_nat (length xs),
                          ed_extent_start_lba := overwrite 0 (map ex_start_lba xs) (replicate 3 0),
                          ed_extent_blocks := overwrite 0 (map ex_blocks xs) (replicate 3 0)\<rparr>
         | None \<Rightarrow> out
         else if de_used entry = LAINFS_ENTRY_DIR then out\<lparr>ed_extent_valid := 1\<rparr>
         else out)"

definition lainfs_entry_detail ::
  "u8 \<Rightarrow> u32 \<Rightarrow> 'h lainfs \<Rightarrow> (int \<times> lainfs_entry_detail_t option \<times> 'h lainfs) option" where
  "lainfs_entry_detail drive_letter entry_id l =
     (case mount_for_drive drive_letter l of
        None \<Rightarrow> Some (-1, None, l)
      | Some mount \<Rightarrow>
          if entry_id = 0 \<or> 2048 < entry_id then Some (-1, None, l)
          else do {
            l1 \<leftarrow> lainfs_lock l;
            let p = mt_partition_index mount;
            let (st, super, l2) = read_super p l1;
            if st \<noteq> 0 then Some (-2, None, lainfs_unlock l2)
            else let (st1, l3) = load_directory_unchecked p super l2
                 in if st1 \<noteq> 0 then Some (-3, None, lainfs_unlock l3)
                    else let entry = dir_entry (directory l3) (index_from_entry_id entry_id)
                         in if de_used entry = 0 then Some (-4, None, lainfs_unlock l3)
                            else Some (0, Some (entry_detail entry_id entry), lainfs_unlock l3)
          })"

text \<open>
  The repair loop: \<open>repairs\<close> counts the repairs made so far. It gives the status, the reason, the
  entry id, the number of repairs and the state. The loop ends because it returns once more than
  2048 repairs have been made.
\<close>

definition repair_flush_failed :: "nat \<Rightarrow> 'h lainfs \<Rightarrow> int \<times> u32 \<times> u32 \<times> nat \<times> 'h lainfs" where
  "repair_flush_failed repairs l = (-1, LAINFS_CHECK_BAD_LAYOUT, 0, repairs, lainfs_unlock l)"

function repair_loop ::
  "nat \<Rightarrow> lainfs_superblock_t \<Rightarrow> nat \<Rightarrow> 'h lainfs \<Rightarrow> int \<times> u32 \<times> u32 \<times> nat \<times> 'h lainfs" where
  "repair_loop p super repairs l =
     (let part = storage_get_partition p (store l);
          (st, reason, entry_id) = validate_directory part super (directory l)
      in if st \<noteq> 0
         then case repair_directory_once part super reason entry_id (directory l) of
           None \<Rightarrow>
             let (st1, l1) = (if repairs \<noteq> 0 then flush_directory_cache l else (0, l))
             in if st1 \<noteq> 0 then repair_flush_failed repairs l1
                else (if repairs = 0 then -2 else -3, reason, entry_id, repairs, lainfs_unlock l1)
         | Some d \<Rightarrow>
             let l1 = l\<lparr>directory := d, directory_cache_valid := True, directory_cache_dirty := True,
                        directory_cache_partition := p\<rparr>
             in if LAINFS_MAX_FILES < repairs + 1
                then let (st2, l2) = flush_directory_cache l1
                     in if st2 \<noteq> 0 then repair_flush_failed (repairs + 1) l2
                        else (-4, reason, entry_id, repairs + 1, lainfs_unlock l2)
                else repair_loop p super (repairs + 1) l1
         else let (st3, l3) = (if directory_cache_dirty l then flush_directory_cache l else (0, l))
              in if st3 \<noteq> 0 then repair_flush_failed repairs l3
                 else (0, LAINFS_CHECK_OK, 0, repairs, lainfs_unlock l3))"
  by pat_completeness auto
termination
  by (relation "measure (\<lambda>(p, super, repairs, l). 2049 - repairs)") auto

declare repair_loop.simps [simp del]

definition lainfs_repair :: "u8 \<Rightarrow> 'h lainfs \<Rightarrow> (int \<times> u32 \<times> u32 \<times> nat \<times> 'h lainfs) option" where
  "lainfs_repair drive_letter l =
     (case mount_for_drive drive_letter l of
        None \<Rightarrow> Some (-1, LAINFS_CHECK_NO_PARTITION, 0, 0, l)
      | Some mount \<Rightarrow> do {
          l1 \<leftarrow> lainfs_lock l;
          let p = mt_partition_index mount;
          let (st, super, l2) = read_super p l1;
          if st \<noteq> 0 then Some (-1, LAINFS_CHECK_BAD_SUPERBLOCK, 0, 0, lainfs_unlock l2)
          else let (st1, l3) = load_directory_unchecked p super l2
               in if st1 \<noteq> 0 then Some (-1, LAINFS_CHECK_BAD_LAYOUT, 0, 0, lainfs_unlock l3)
                  else Some (repair_loop p super 0 l3)
        })"

definition lainfs_cache_stats :: "'h lainfs \<Rightarrow> (lainfs_cache_stats_t \<times> 'h lainfs) option" where
  "lainfs_cache_stats l = do {
     l1 \<leftarrow> lainfs_lock l;
     let out = (cache_stats l1)\<lparr>cs_directory_valid := (if directory_cache_valid l1 then 1 else 0),
                  cs_directory_dirty := (if directory_cache_dirty l1 then 1 else 0),
                  cs_data_valid := word_of_nat (length (filter sl_valid (data_cache l1))),
                  cs_data_dirty := word_of_nat (length (filter (\<lambda>slot. sl_valid slot \<and> sl_dirty slot) (data_cache l1)))\<rparr>;
     Some (out, lainfs_unlock l1)
   }"

subsection \<open>Directory operations\<close>

definition open_directory ::
  "int \<Rightarrow> int \<Rightarrow> nat \<Rightarrow> 'h lainfs \<Rightarrow> (int \<times> 'h lainfs) + (lainfs_superblock_t \<times> 'h lainfs)" where
  "open_directory super_error dir_error p l =
     (let (st, super, l1) = read_super p l
      in if st \<noteq> 0 then Inl (super_error, lainfs_unlock l1)
         else let (st1, l2) = load_directory p super l1
              in if st1 \<noteq> 0 then Inl (dir_error, lainfs_unlock l2) else Inr (super, l2))"

definition list_entry :: "nat \<Rightarrow> 'h lainfs \<Rightarrow> 'h lainfs" where
  "list_entry i l =
     (let entry = dir_entry (directory l) i;
          l1 = print_padded (if de_used entry = LAINFS_ENTRY_DIR then [68, 73, 82] else [70, 73, 76, 69]) 6 l;
          l2 = print_padded (de_name entry) 31 l1;
          l3 = (if de_used entry = LAINFS_ENTRY_DIR then console_puts [45] l2
                else console_put_dec64 (ucast (de_byte_size entry)) l2)
      in console_puts [10] l3)"

fun list_entries :: "u32 \<Rightarrow> nat list \<Rightarrow> bool \<Rightarrow> 'h lainfs \<Rightarrow> bool \<times> 'h lainfs" where
  "list_entries parent_id [] found l = (found, l)"
| "list_entries parent_id (i # is) found l =
     (if de_used (dir_entry (directory l) i) = 0 \<or> entry_parent_id (dir_entry (directory l) i) \<noteq> parent_id
      then list_entries parent_id is found l
      else list_entries parent_id is True (list_entry i l))"

text \<open>The two heading lines and the word \<^verbatim>\<open>empty\<close>, in ASCII codes.\<close>

definition list_heading :: bytes where
  "list_heading =
     [84, 89, 80, 69, 32, 32, 78, 65, 77, 69] @ replicate 27 32 @ [83, 73, 90, 69, 10]"

definition list_rule :: bytes where
  "list_rule = replicate 4 45 @ [32, 32] @ replicate 29 45 @ [32, 32] @ replicate 8 45 @ [10]"

definition lainfs_list_dir :: "u8 \<Rightarrow> u32 \<Rightarrow> 'h lainfs \<Rightarrow> (int \<times> 'h lainfs) option" where
  "lainfs_list_dir drive_letter parent_id l =
     (case mount_for_drive drive_letter l of
        None \<Rightarrow> Some (-1, l)
      | Some mount \<Rightarrow> do {
          l1 \<leftarrow> lainfs_lock l;
          case open_directory (-2) (-3) (mt_partition_index mount) l1 of
            Inl e \<Rightarrow> Some e
          | Inr (super, l2) \<Rightarrow>
              if \<not> valid_dir_id (directory l2) parent_id then Some (-5, lainfs_unlock l2)
              else let (found, l3) = list_entries parent_id [0..<LAINFS_MAX_FILES] False
                                       (console_puts list_rule (console_puts list_heading l2));
                       l4 = (if \<not> found then console_puts [101, 109, 112, 116, 121, 10] l3 else l3)
                   in Some (0, lainfs_unlock l4)
        })"

definition lainfs_list :: "u8 \<Rightarrow> 'h lainfs \<Rightarrow> (int \<times> 'h lainfs) option" where
  "lainfs_list drive_letter l = lainfs_list_dir drive_letter LAINFS_ROOT_DIR l"

definition new_dir_entry :: "u32 \<Rightarrow> bytes \<Rightarrow> lainfs_dirent_t" where
  "new_dir_entry parent_id name =
     set_entry_parent_id parent_id
       (zero_dirent\<lparr>de_used := LAINFS_ENTRY_DIR, de_name := copy_name (de_name zero_dirent) name\<rparr>)"

definition lainfs_make_dir_in_dir :: "u8 \<Rightarrow> u32 \<Rightarrow> bytes \<Rightarrow> 'h lainfs \<Rightarrow> (int \<times> 'h lainfs) option" where
  "lainfs_make_dir_in_dir drive_letter parent_id name l =
     (case mount_for_drive drive_letter l of
        None \<Rightarrow> Some (-1, l)
      | Some mount \<Rightarrow>
          if \<not> valid_name name then Some (-2, l)
          else do {
            l1 \<leftarrow> lainfs_lock l;
            case open_directory (-3) (-4) (mt_partition_index mount) l1 of
              Inl e \<Rightarrow> Some e
            | Inr (super, l2) \<Rightarrow>
                if \<not> valid_dir_id (directory l2) parent_id then Some (-7, lainfs_unlock l2)
                else if find_entry_in_dir (directory l2) parent_id name \<noteq> None then Some (-6, lainfs_unlock l2)
                else case find_free_entry (directory l2) of
                  None \<Rightarrow> Some (-5, lainfs_unlock l2)
                | Some slot \<Rightarrow>
                    let l3 = l2\<lparr>directory := (directory l2)[slot := new_dir_entry parent_id name]\<rparr>;
                        (st, l4) = save_directory (mt_partition_index mount) l3
                    in if st \<noteq> 0 then Some (-7, lainfs_unlock l4) else Some (0, lainfs_unlock l4)
          })"

definition lainfs_make_dir :: "u8 \<Rightarrow> bytes \<Rightarrow> 'h lainfs \<Rightarrow> (int \<times> 'h lainfs) option" where
  "lainfs_make_dir drive_letter name l = lainfs_make_dir_in_dir drive_letter LAINFS_ROOT_DIR name l"

text \<open>The id of the entry at an index: the pointer difference divided by the entry size.\<close>

definition entry_id :: "nat \<Rightarrow> u32" where
  "entry_id i = entry_id_from_index (i * LAINFS_ENTRY_SIZE div LAINFS_ENTRY_SIZE)"

definition lainfs_delete_in_dir :: "u8 \<Rightarrow> u32 \<Rightarrow> bytes \<Rightarrow> 'h lainfs \<Rightarrow> (int \<times> 'h lainfs) option" where
  "lainfs_delete_in_dir drive_letter parent_id name l =
     (case mount_for_drive drive_letter l of
        None \<Rightarrow> Some (-1, l)
      | Some mount \<Rightarrow>
          if \<not> valid_name name then Some (-2, l)
          else do {
            l1 \<leftarrow> lainfs_lock l;
            case open_directory (-3) (-4) (mt_partition_index mount) l1 of
              Inl e \<Rightarrow> Some e
            | Inr (super, l2) \<Rightarrow>
                if \<not> valid_dir_id (directory l2) parent_id then Some (-7, lainfs_unlock l2)
                else case find_entry_in_dir (directory l2) parent_id name of
                  None \<Rightarrow> Some (-5, lainfs_unlock l2)
                | Some i \<Rightarrow>
                    if de_used (dir_entry (directory l2) i) = LAINFS_ENTRY_DIR \<and>
                       dir_has_children (directory l2) (entry_id i)
                    then Some (-9, lainfs_unlock l2)
                    else let l3 = l2\<lparr>directory := (directory l2)[i := zero_dirent]\<rparr>;
                             (st, l4) = save_directory (mt_partition_index mount) l3
                         in if st \<noteq> 0 then Some (-6, lainfs_unlock l4) else Some (0, lainfs_unlock l4)
          })"

definition lainfs_delete :: "u8 \<Rightarrow> bytes \<Rightarrow> 'h lainfs \<Rightarrow> (int \<times> 'h lainfs) option" where
  "lainfs_delete drive_letter name l = lainfs_delete_in_dir drive_letter LAINFS_ROOT_DIR name l"

text \<open>
  The condition of rename is a C disjunction: the ancestor walk is only made when the entry is a
  directory and not itself the new parent.
\<close>

definition moves_below_itself :: "directory \<Rightarrow> nat \<Rightarrow> u32 \<Rightarrow> bool option" where
  "moves_below_itself d i new_parent_id =
     (if de_used (dir_entry d i) \<noteq> LAINFS_ENTRY_DIR then Some False
      else if entry_id i = new_parent_id then Some True
      else dir_is_descendant_of d new_parent_id (entry_id i))"

definition renamed_entry :: "u32 \<Rightarrow> bytes \<Rightarrow> lainfs_dirent_t \<Rightarrow> lainfs_dirent_t" where
  "renamed_entry new_parent_id new_name entry =
     set_entry_parent_id new_parent_id (entry\<lparr>de_name := copy_name (de_name entry) new_name\<rparr>)"

definition lainfs_rename_in_dir ::
  "u8 \<Rightarrow> u32 \<Rightarrow> bytes \<Rightarrow> u32 \<Rightarrow> bytes \<Rightarrow> 'h lainfs \<Rightarrow> (int \<times> 'h lainfs) option" where
  "lainfs_rename_in_dir drive_letter old_parent_id old_name new_parent_id new_name l =
     (case mount_for_drive drive_letter l of
        None \<Rightarrow> Some (-1, l)
      | Some mount \<Rightarrow>
          if \<not> valid_name old_name \<or> \<not> valid_name new_name then Some (-2, l)
          else do {
            l1 \<leftarrow> lainfs_lock l;
            case open_directory (-3) (-4) (mt_partition_index mount) l1 of
              Inl e \<Rightarrow> Some e
            | Inr (super, l2) \<Rightarrow>
                if \<not> valid_dir_id (directory l2) old_parent_id \<or> \<not> valid_dir_id (directory l2) new_parent_id
                then Some (-7, lainfs_unlock l2)
                else case find_entry_in_dir (directory l2) old_parent_id old_name of
                  None \<Rightarrow> Some (-5, lainfs_unlock l2)
                | Some i \<Rightarrow> do {
                    below \<leftarrow> moves_below_itself (directory l2) i new_parent_id;
                    if below then Some (-8, lainfs_unlock l2)
                    else if find_entry_in_dir (directory l2) new_parent_id new_name \<noteq> None
                    then Some (-6, lainfs_unlock l2)
                    else let l3 = l2\<lparr>directory := (directory l2)[i :=
                               renamed_entry new_parent_id new_name (dir_entry (directory l2) i)]\<rparr>;
                             (st, l4) = save_directory (mt_partition_index mount) l3
                         in if st \<noteq> 0 then Some (-7, lainfs_unlock l4) else Some (0, lainfs_unlock l4)
                  }
          })"

definition lainfs_rename :: "u8 \<Rightarrow> bytes \<Rightarrow> bytes \<Rightarrow> 'h lainfs \<Rightarrow> (int \<times> 'h lainfs) option" where
  "lainfs_rename drive_letter old_name new_name l =
     lainfs_rename_in_dir drive_letter LAINFS_ROOT_DIR old_name LAINFS_ROOT_DIR new_name l"

definition lainfs_find_dir :: "u8 \<Rightarrow> u32 \<Rightarrow> bytes \<Rightarrow> 'h lainfs \<Rightarrow> (int \<times> u32 \<times> 'h lainfs) option" where
  "lainfs_find_dir drive_letter parent_id name l =
     (case mount_for_drive drive_letter l of
        None \<Rightarrow> Some (-1, LAINFS_ROOT_DIR, l)
      | Some mount \<Rightarrow>
          if \<not> valid_name name then Some (-2, LAINFS_ROOT_DIR, l)
          else do {
            l1 \<leftarrow> lainfs_lock l;
            case open_directory (-3) (-4) (mt_partition_index mount) l1 of
              Inl (st, l2) \<Rightarrow> Some (st, LAINFS_ROOT_DIR, l2)
            | Inr (super, l2) \<Rightarrow>
                if \<not> valid_dir_id (directory l2) parent_id then Some (-7, LAINFS_ROOT_DIR, lainfs_unlock l2)
                else case find_entry_in_dir (directory l2) parent_id name of
                  None \<Rightarrow> Some (-5, LAINFS_ROOT_DIR, lainfs_unlock l2)
                | Some i \<Rightarrow>
                    if de_used (dir_entry (directory l2) i) \<noteq> LAINFS_ENTRY_DIR
                    then Some (-5, LAINFS_ROOT_DIR, lainfs_unlock l2)
                    else Some (0, entry_id i, lainfs_unlock l2)
          })"

definition lainfs_parent_dir :: "u8 \<Rightarrow> u32 \<Rightarrow> 'h lainfs \<Rightarrow> (int \<times> u32 \<times> 'h lainfs) option" where
  "lainfs_parent_dir drive_letter dir_id l =
     (case mount_for_drive drive_letter l of
        None \<Rightarrow> Some (-1, LAINFS_ROOT_DIR, l)
      | Some mount \<Rightarrow>
          if dir_id = LAINFS_ROOT_DIR then Some (0, LAINFS_ROOT_DIR, l)
          else do {
            l1 \<leftarrow> lainfs_lock l;
            case open_directory (-3) (-4) (mt_partition_index mount) l1 of
              Inl (st, l2) \<Rightarrow> Some (st, LAINFS_ROOT_DIR, l2)
            | Inr (super, l2) \<Rightarrow>
                if \<not> valid_dir_id (directory l2) dir_id then Some (-5, LAINFS_ROOT_DIR, lainfs_unlock l2)
                else Some (0, entry_parent_id (dir_entry (directory l2) (index_from_entry_id dir_id)),
                           lainfs_unlock l2)
          })"

definition is_child :: "u32 \<Rightarrow> lainfs_dirent_t \<Rightarrow> bool" where
  "is_child parent_id entry \<longleftrightarrow> de_used entry \<noteq> 0 \<and> entry_parent_id entry = parent_id"

fun count_children :: "directory \<Rightarrow> u32 \<Rightarrow> nat list \<Rightarrow> u32 \<Rightarrow> u32" where
  "count_children d parent_id [] count = count"
| "count_children d parent_id (i # is) count =
     count_children d parent_id is (if is_child parent_id (dir_entry d i) then count + 1 else count)"

definition lainfs_child_count :: "u8 \<Rightarrow> u32 \<Rightarrow> 'h lainfs \<Rightarrow> (int \<times> u32 option \<times> 'h lainfs) option" where
  "lainfs_child_count drive_letter parent_id l =
     (case mount_for_drive drive_letter l of
        None \<Rightarrow> Some (-1, None, l)
      | Some mount \<Rightarrow> do {
          l1 \<leftarrow> lainfs_lock l;
          case open_directory (-2) (-3) (mt_partition_index mount) l1 of
            Inl (st, l2) \<Rightarrow> Some (st, None, l2)
          | Inr (super, l2) \<Rightarrow>
              if \<not> valid_dir_id (directory l2) parent_id then Some (-5, None, lainfs_unlock l2)
              else Some (0, Some (count_children (directory l2) parent_id [0..<LAINFS_MAX_FILES] 0),
                         lainfs_unlock l2)
        })"

fun child_scan :: "directory \<Rightarrow> u32 \<Rightarrow> u32 \<Rightarrow> nat list \<Rightarrow> u32 \<Rightarrow> nat option" where
  "child_scan d parent_id child_index [] seen = None"
| "child_scan d parent_id child_index (i # is) seen =
     (if \<not> is_child parent_id (dir_entry d i) then child_scan d parent_id child_index is seen
      else if seen = child_index then Some i
      else child_scan d parent_id child_index is (seen + 1))"

text \<open>The out-parameters are the name buffer, the type and the size; the buffer is not empty.\<close>

definition lainfs_child_info ::
  "u8 \<Rightarrow> u32 \<Rightarrow> u32 \<Rightarrow> bytes \<Rightarrow> 'h lainfs \<Rightarrow> (int \<times> (bytes \<times> u32 \<times> u32) option \<times> 'h lainfs) option" where
  "lainfs_child_info drive_letter parent_id child_index out_name l =
     (case mount_for_drive drive_letter l of
        None \<Rightarrow> Some (-1, None, l)
      | Some mount \<Rightarrow>
          if out_name = [] then Some (-1, None, l)
          else do {
            l1 \<leftarrow> lainfs_lock l;
            case open_directory (-2) (-3) (mt_partition_index mount) l1 of
              Inl (st, l2) \<Rightarrow> Some (st, None, l2)
            | Inr (super, l2) \<Rightarrow>
                if \<not> valid_dir_id (directory l2) parent_id then Some (-5, None, lainfs_unlock l2)
                else case child_scan (directory l2) parent_id child_index [0..<LAINFS_MAX_FILES] 0 of
                  None \<Rightarrow> Some (-6, None, lainfs_unlock l2)
                | Some i \<Rightarrow>
                    let entry = dir_entry (directory l2) i in
                    Some (0, Some (overwrite 0 (copy_chars (de_name entry) (length out_name - 1) @ [0]) out_name,
                                   ucast (de_used entry),
                                   if de_used entry = LAINFS_ENTRY_DIR then 0 else de_byte_size entry),
                          lainfs_unlock l2)
          })"

end
