(* ===== verification/Lainfs_Files.thy ===== *)
theory Lainfs_Files
  imports Lainfs_Ops
begin

text \<open>
  Saving and loading whole files (\<^verbatim>\<open>lainfs_save_file_in_dir\<close>, \<^verbatim>\<open>lainfs_load_file_in_dir\<close> and their
  callers in \<^verbatim>\<open>kernel/fs/lainfs.c\<close>). The two nested loops over the extents of a file and the blocks of
  an extent are one recursion over the list of their block numbers, \<open>extent_lbas\<close>; the counter
  \<^verbatim>\<open>logical_block\<close> runs along.
\<close>

definition extent_lbas :: "lainfs_extent_t list \<Rightarrow> u32 list" where
  "extent_lbas extents =
     concat (map (\<lambda>x. map (\<lambda>block. ex_start_lba x + word_of_nat block) [0..<unat (ex_blocks x)]) extents)"

definition bytes_in_block :: "u32 \<Rightarrow> u32 \<Rightarrow> u32" where
  "bytes_in_block sz base =
     (let bytes_left = (if base < sz then sz - base else 0)
      in if bytes_left < 512 then bytes_left else 512)"

fun save_blocks :: "nat \<Rightarrow> bytes \<Rightarrow> u32 \<Rightarrow> u32 list \<Rightarrow> u32 \<Rightarrow> 'h lainfs \<Rightarrow> int \<times> 'h lainfs" where
  "save_blocks p buffer sz [] logical_block l = (0, l)"
| "save_blocks p buffer sz (lba # lbas) logical_block l =
     (let base = logical_block * 512;
          bytes_to_copy = bytes_in_block sz base;
          sector = overwrite 0 (slice (unat base) (unat bytes_to_copy) buffer) (replicate LAINFS_BLOCK_SIZE 0);
          (st, l1) = cached_write_block p lba sector l
      in if st \<noteq> 0 then (-6, l1) else save_blocks p buffer sz lbas (logical_block + 1) l1)"

definition new_file_entry :: "u32 \<Rightarrow> lainfs_dirent_t" where
  "new_file_entry parent_id = set_entry_parent_id parent_id (zero_dirent\<lparr>de_used := LAINFS_ENTRY_FILE\<rparr>)"

definition filled_entry :: "bytes \<Rightarrow> u32 \<Rightarrow> lainfs_extent_t list \<Rightarrow> lainfs_dirent_t \<Rightarrow> lainfs_dirent_t" where
  "filled_entry name sz extents entry =
     set_entry_extents extents (entry\<lparr>de_name := copy_name (de_name entry) name, de_byte_size := sz\<rparr>)"

text \<open>The slot of the file: the existing entry, or a free one that is initialised as an empty file.\<close>

definition file_slot :: "u32 \<Rightarrow> bytes \<Rightarrow> directory \<Rightarrow> (nat \<times> directory) option" where
  "file_slot parent_id name d =
     (case find_entry_in_dir d parent_id name of
        Some i \<Rightarrow> Some (i, d)
      | None \<Rightarrow>
          (case find (\<lambda>i. de_used (dir_entry d i) = 0) [0..<LAINFS_MAX_FILES] of
             None \<Rightarrow> None
           | Some i \<Rightarrow> Some (i, d[i := new_file_entry parent_id])))"

definition lainfs_save_file_in_dir ::
  "u8 \<Rightarrow> u32 \<Rightarrow> bytes \<Rightarrow> bytes \<Rightarrow> u32 \<Rightarrow> 'h lainfs \<Rightarrow> (int \<times> 'h lainfs) option" where
  "lainfs_save_file_in_dir drive_letter parent_id name buffer sz l =
     (case mount_for_drive drive_letter l of
        None \<Rightarrow> Some (-1, l)
      | Some mount \<Rightarrow>
          if \<not> valid_name name \<or> LAINFS_FILE_CAPACITY < sz then Some (-2, l)
          else do {
            l1 \<leftarrow> lainfs_lock l;
            let p = mt_partition_index mount;
            case open_directory (-3) (-4) p l1 of
              Inl e \<Rightarrow> Some e
            | Inr (super, l2) \<Rightarrow>
                if \<not> valid_dir_id (directory l2) parent_id then Some (-7, lainfs_unlock l2)
                else if (case find_entry_in_dir (directory l2) parent_id name of
                           Some i \<Rightarrow> de_used (dir_entry (directory l2) i) = LAINFS_ENTRY_DIR
                         | None \<Rightarrow> False)
                then Some (-8, lainfs_unlock l2)
                else case file_slot parent_id name (directory l2) of
                  None \<Rightarrow> Some (-5, lainfs_unlock l2)
                | Some (slot, d) \<Rightarrow>
                    let l3 = l2\<lparr>directory := d\<rparr>;
                        new_blocks = blocks_for_size sz;
                        required_blocks = (if new_blocks = 0 then 1 else new_blocks)
                    in case find_free_extents (storage_get_partition p (store l3)) super d required_blocks slot of
                         None \<Rightarrow> Some (-9, lainfs_unlock l3)
                       | Some new_extents \<Rightarrow>
                           let l4 = l3\<lparr>directory := d[slot := filled_entry name sz new_extents (dir_entry d slot)]\<rparr>;
                               (st, l5) = save_blocks p buffer sz (extent_lbas new_extents) 0 l4
                           in if st \<noteq> 0 then Some (-6, lainfs_unlock l5)
                              else let (st', l6) = save_directory p l5
                                   in if st' \<noteq> 0 then Some (-6, lainfs_unlock l6) else Some (0, lainfs_unlock l6)
          })"

definition lainfs_save_file :: "u8 \<Rightarrow> bytes \<Rightarrow> bytes \<Rightarrow> u32 \<Rightarrow> 'h lainfs \<Rightarrow> (int \<times> 'h lainfs) option" where
  "lainfs_save_file drive_letter name buffer sz l =
     lainfs_save_file_in_dir drive_letter LAINFS_ROOT_DIR name buffer sz l"

definition lainfs_write_file_in_dir :: "u8 \<Rightarrow> u32 \<Rightarrow> bytes \<Rightarrow> bytes \<Rightarrow> 'h lainfs \<Rightarrow> (int \<times> 'h lainfs) option" where
  "lainfs_write_file_in_dir drive_letter parent_id name txt l =
     lainfs_save_file_in_dir drive_letter parent_id name txt (word_of_nat (length (cstr txt))) l"

definition lainfs_write_file :: "u8 \<Rightarrow> bytes \<Rightarrow> bytes \<Rightarrow> 'h lainfs \<Rightarrow> (int \<times> 'h lainfs) option" where
  "lainfs_write_file drive_letter name txt l =
     lainfs_write_file_in_dir drive_letter LAINFS_ROOT_DIR name txt l"

fun load_blocks ::
  "nat \<Rightarrow> u32 \<Rightarrow> u32 list \<Rightarrow> u32 \<Rightarrow> bytes \<Rightarrow> 'h lainfs \<Rightarrow> int \<times> bytes \<times> 'h lainfs" where
  "load_blocks p sz [] logical_block buffer l = (0, buffer, l)"
| "load_blocks p sz (lba # lbas) logical_block buffer l =
     (let base = logical_block * 512;
          bytes_to_copy = bytes_in_block sz base;
          (st, sector, l1) = cached_read_block p lba (replicate LAINFS_BLOCK_SIZE 0) l
      in if st \<noteq> 0 then (-7, buffer, l1)
         else load_blocks p sz lbas (logical_block + 1)
                (overwrite (unat base) (slice 0 (unat bytes_to_copy) sector) buffer) l1)"

text \<open>The buffer is given with its size; the results are the status, the buffer and the size read.\<close>

definition lainfs_load_file_in_dir ::
  "u8 \<Rightarrow> u32 \<Rightarrow> bytes \<Rightarrow> bytes \<Rightarrow> u32 \<Rightarrow> 'h lainfs \<Rightarrow> (int \<times> bytes \<times> u32 \<times> 'h lainfs) option" where
  "lainfs_load_file_in_dir drive_letter parent_id name buffer buffer_size l =
     (case mount_for_drive drive_letter l of
        None \<Rightarrow> Some (-1, buffer, 0, l)
      | Some mount \<Rightarrow>
          if \<not> valid_name name \<or> buffer_size = 0 then Some (-2, buffer, 0, l)
          else do {
            l1 \<leftarrow> lainfs_lock l;
            let p = mt_partition_index mount;
            case open_directory (-3) (-4) p l1 of
              Inl (st, l2) \<Rightarrow> Some (st, buffer, 0, l2)
            | Inr (super, l2) \<Rightarrow>
                if \<not> valid_dir_id (directory l2) parent_id then Some (-7, buffer, 0, lainfs_unlock l2)
                else case find (\<lambda>i. \<not> (de_used (dir_entry (directory l2) i) = 0 \<or>
                                       de_used (dir_entry (directory l2) i) = LAINFS_ENTRY_DIR \<or>
                                       entry_parent_id (dir_entry (directory l2) i) \<noteq> parent_id \<or>
                                       \<not> str_eq (de_name (dir_entry (directory l2) i)) name)) [0..<LAINFS_MAX_FILES] of
                  None \<Rightarrow> Some (-5, buffer, 0, lainfs_unlock l2)
                | Some i \<Rightarrow>
                    let entry = dir_entry (directory l2) i in
                    if LAINFS_FILE_CAPACITY < de_byte_size entry \<or> buffer_size < de_byte_size entry
                    then Some (-6, buffer, 0, lainfs_unlock l2)
                    else case entry_extents entry of
                      None \<Rightarrow> Some (-7, buffer, 0, lainfs_unlock l2)
                    | Some extents \<Rightarrow>
                        let (st, buffer', l3) = load_blocks p (de_byte_size entry) (extent_lbas extents) 0 buffer l2
                        in if st \<noteq> 0 then Some (-7, buffer', 0, lainfs_unlock l3)
                           else Some (0, buffer', de_byte_size entry, lainfs_unlock l3)
          })"

definition lainfs_load_file ::
  "u8 \<Rightarrow> bytes \<Rightarrow> bytes \<Rightarrow> u32 \<Rightarrow> 'h lainfs \<Rightarrow> (int \<times> bytes \<times> u32 \<times> 'h lainfs) option" where
  "lainfs_load_file drive_letter name buffer buffer_size l =
     lainfs_load_file_in_dir drive_letter LAINFS_ROOT_DIR name buffer buffer_size l"

text \<open>
  What \<^verbatim>\<open>kmalloc\<close> gives is an argument: \<open>None\<close> is the null pointer, otherwise the buffer with
  whatever it holds. A character is put on the console one at a time, so a NUL puts nothing.
\<close>

definition lainfs_read_file_in_dir ::
  "bytes option \<Rightarrow> u8 \<Rightarrow> u32 \<Rightarrow> bytes \<Rightarrow> 'h lainfs \<Rightarrow> (int \<times> 'h lainfs) option" where
  "lainfs_read_file_in_dir heap_buffer drive_letter parent_id name l =
     (case heap_buffer of
        None \<Rightarrow> Some (-10, l)
      | Some buffer \<Rightarrow> do {
          (status, buf, sz, l1) \<leftarrow> lainfs_load_file_in_dir drive_letter parent_id name buffer LAINFS_FILE_CAPACITY l;
          if status \<noteq> 0 then Some (status, l1)
          else let buf' = buf[unat sz := 0];
                   l2 = fold (\<lambda>i. console_puts [buf' ! i, 0]) [0..<unat sz] l1
               in Some (0, console_puts [10] l2)
        })"

definition lainfs_read_file :: "bytes option \<Rightarrow> u8 \<Rightarrow> bytes \<Rightarrow> 'h lainfs \<Rightarrow> (int \<times> 'h lainfs) option" where
  "lainfs_read_file heap_buffer drive_letter name l =
     lainfs_read_file_in_dir heap_buffer drive_letter LAINFS_ROOT_DIR name l"

end
