(* ===== verification/Lainfs_Coherence.thy ===== *)
theory Lainfs_Coherence
  imports Lainfs_Files
begin

text \<open>
  The caches of LainFS are transparent. The contents of a block as the file system sees it, its
  \<open>lview\<close>, is the valid cache slot for the block if there is one and the block on the disk
  otherwise. The invariant \<open>cache_inv\<close> says that no block has two slots, that a clean slot agrees
  with the disk, and that slots hold data blocks only, never the superblock or the directory. The
  lemmas are proved for every driver that honours \<open>block_driver\<close>: evicting and flushing do not
  change what the file system sees, a cached read returns it, and a cached write changes it at
  one block.
\<close>

subsection \<open>Partitions that hold a file system\<close>

definition on_driver :: "'h block_read_t \<Rightarrow> 'h block_write_t \<Rightarrow> nat \<Rightarrow> nat \<Rightarrow> 'h storage \<Rightarrow> bool" where
  "on_driver rd wr ctx p s \<longleftrightarrow>
     p < partition_count s \<and>
     (let dev = block_devices s ! pt_device_index (partitions s ! p)
      in bd_read dev = Some rd \<and> bd_write dev = Some wr \<and> bd_ctx dev = ctx)"

definition windows_disjoint :: "'h block_read_t \<Rightarrow> 'h block_write_t \<Rightarrow> nat \<Rightarrow> 'h storage \<Rightarrow> bool" where
  "windows_disjoint rd wr ctx s \<longleftrightarrow>
     (\<forall>p q. p \<noteq> q \<longrightarrow> on_driver rd wr ctx p s \<longrightarrow> on_driver rd wr ctx q s \<longrightarrow>
        part_window p s \<inter> part_window q s = {})"

lemma windows_disjoint_disk [simp]: "windows_disjoint rd wr ctx (s\<lparr>disk := h\<rparr>) = windows_disjoint rd wr ctx s"
  by (simp add: windows_disjoint_def on_driver_def)

lemma backed_on_driver: "backed_by rd wr ctx cap ok p s \<Longrightarrow> on_driver rd wr ctx p s"
  by (simp add: backed_by_def on_driver_def Let_def)

definition disk_super :: "('h \<Rightarrow> nat \<Rightarrow> bytes) \<Rightarrow> nat \<Rightarrow> 'h storage \<Rightarrow> lainfs_superblock_t" where
  "disk_super blk p s = super_of_bytes (part_block blk p s 0)"

definition lview :: "('h \<Rightarrow> nat \<Rightarrow> bytes) \<Rightarrow> 'h lainfs \<Rightarrow> nat \<Rightarrow> u32 \<Rightarrow> bytes" where
  "lview blk l p lba =
     (case find (slot_matches p lba) (data_cache l) of
        Some slot \<Rightarrow> sl_data slot
      | None \<Rightarrow> part_block blk p (store l) (unat lba))"

definition driver_fs_ok ::
  "'h block_read_t \<Rightarrow> 'h block_write_t \<Rightarrow> nat \<Rightarrow> nat \<Rightarrow> ('h \<Rightarrow> nat \<Rightarrow> bytes) \<Rightarrow> ('h \<Rightarrow> bool) \<Rightarrow>
   nat \<Rightarrow> 'h storage \<Rightarrow> bool" where
  "driver_fs_ok rd wr ctx cap blk ok p s \<longleftrightarrow>
     backed_by rd wr ctx cap ok p s \<and> part_blocks p s < 2 ^ 32 \<and> super_magic_ok (disk_super blk p s) \<and>
     layout_ok (partitions s ! p) (disk_super blk p s)"

definition driver_data_lba ::
  "'h block_read_t \<Rightarrow> 'h block_write_t \<Rightarrow> nat \<Rightarrow> nat \<Rightarrow> ('h \<Rightarrow> nat \<Rightarrow> bytes) \<Rightarrow> ('h \<Rightarrow> bool) \<Rightarrow>
   nat \<Rightarrow> u32 \<Rightarrow> 'h storage \<Rightarrow> bool" where
  "driver_data_lba rd wr ctx cap blk ok p lba s \<longleftrightarrow>
     driver_fs_ok rd wr ctx cap blk ok p s \<and> sb_data_start_lba (disk_super blk p s) \<le> lba \<and>
     unat lba < part_blocks p s"

definition driver_slot_ok ::
  "'h block_read_t \<Rightarrow> 'h block_write_t \<Rightarrow> nat \<Rightarrow> nat \<Rightarrow> ('h \<Rightarrow> nat \<Rightarrow> bytes) \<Rightarrow> ('h \<Rightarrow> bool) \<Rightarrow>
   'h storage \<Rightarrow> lainfs_data_cache_slot_t \<Rightarrow> bool" where
  "driver_slot_ok rd wr ctx cap blk ok s slot \<longleftrightarrow>
     length (sl_data slot) = SECTOR_SIZE \<and>
     (sl_valid slot \<longrightarrow> driver_data_lba rd wr ctx cap blk ok (sl_partition_index slot) (sl_lba slot) s \<and>
        (\<not> sl_dirty slot \<longrightarrow> sl_data slot = part_block blk (sl_partition_index slot) s (unat (sl_lba slot))))"

text \<open>No two valid slots hold the same block.\<close>

definition slots_distinct :: "lainfs_data_cache_slot_t list \<Rightarrow> bool" where
  "slots_distinct slots \<longleftrightarrow>
     (\<forall>i < length slots. \<forall>j < length slots. \<forall>p lba.
        slot_matches p lba (slots ! i) \<longrightarrow> slot_matches p lba (slots ! j) \<longrightarrow> i = j)"

definition driver_cache_inv ::
  "'h block_read_t \<Rightarrow> 'h block_write_t \<Rightarrow> nat \<Rightarrow> nat \<Rightarrow> ('h \<Rightarrow> nat \<Rightarrow> bytes) \<Rightarrow> ('h \<Rightarrow> bool) \<Rightarrow>
   'h lainfs \<Rightarrow> bool" where
  "driver_cache_inv rd wr ctx cap blk ok l \<longleftrightarrow>
     length (data_cache l) = LAINFS_DATA_CACHE_SLOTS \<and> windows_disjoint rd wr ctx (store l) \<and>
     (\<forall>slot \<in> set (data_cache l). driver_slot_ok rd wr ctx cap blk ok (store l) slot) \<and>
     slots_distinct (data_cache l)"

definition same_caches :: "'h lainfs \<Rightarrow> 'h lainfs \<Rightarrow> bool" where
  "same_caches l l' \<longleftrightarrow>
     directory l' = directory l \<and> super_cache l' = super_cache l \<and>
     super_cache_valid l' = super_cache_valid l \<and> super_cache_partition l' = super_cache_partition l \<and>
     directory_cache_valid l' = directory_cache_valid l \<and> directory_cache_dirty l' = directory_cache_dirty l \<and>
     directory_cache_partition l' = directory_cache_partition l \<and>
     lainfs_global_lock l' = lainfs_global_lock l"

lemma same_caches_refl [simp]: "same_caches l l"
  by (simp add: same_caches_def)

lemma same_caches_trans: "same_caches l l' \<Longrightarrow> same_caches l' l'' \<Longrightarrow> same_caches l l''"
  by (simp add: same_caches_def)

subsection \<open>The slot of a block\<close>

lemma find_nth_unique:
  assumes "i < length xs" and "P (xs ! i)" and "\<And>j. j < length xs \<Longrightarrow> P (xs ! j) \<Longrightarrow> j = i"
  shows "find P xs = Some (xs ! i)"
proof (cases "find P xs")
  case None
  with assms(1,2) show ?thesis by (auto simp: find_None_iff)
next
  case (Some y)
  then obtain j where "j < length xs" "P (xs ! j)" "y = xs ! j" by (auto simp: find_Some_iff)
  with assms(3) Some show ?thesis by auto
qed

lemma lview_hit:
  assumes "slots_distinct (data_cache l)" and "i < length (data_cache l)" and "slot_matches p lba (data_cache l ! i)"
  shows "lview blk l p lba = sl_data (data_cache l ! i)"
proof -
  have "find (slot_matches p lba) (data_cache l) = Some (data_cache l ! i)"
    using assms by (intro find_nth_unique) (auto simp: slots_distinct_def)
  then show ?thesis by (simp add: lview_def)
qed

lemma lview_miss:
  assumes "\<forall>slot \<in> set (data_cache l). \<not> slot_matches p lba slot"
  shows "lview blk l p lba = part_block blk p (store l) (unat lba)"
proof -
  have "find (slot_matches p lba) (data_cache l) = None"
    using assms by (auto simp: find_None_iff)
  then show ?thesis by (simp add: lview_def)
qed

lemma lview_cong:
  assumes "slots_distinct (data_cache l)" and "slots_distinct (data_cache l')"
    and "length (data_cache l') = length (data_cache l)"
    and "\<And>j. j < length (data_cache l) \<Longrightarrow>
      slot_matches p lba (data_cache l' ! j) = slot_matches p lba (data_cache l ! j) \<and>
      (slot_matches p lba (data_cache l ! j) \<longrightarrow> sl_data (data_cache l' ! j) = sl_data (data_cache l ! j))"
    and "\<forall>slot \<in> set (data_cache l). \<not> slot_matches p lba slot \<Longrightarrow>
      part_block blk p (store l') (unat lba) = part_block blk p (store l) (unat lba)"
  shows "lview blk l' p lba = lview blk l p lba"
proof (cases "\<exists>j < length (data_cache l). slot_matches p lba (data_cache l ! j)")
  case True
  then obtain j where j: "j < length (data_cache l)" "slot_matches p lba (data_cache l ! j)" by blast
  with assms(3,4) have "lview blk l' p lba = sl_data (data_cache l' ! j)"
    by (intro lview_hit assms(2)) auto
  with j assms(4) show ?thesis by (simp add: lview_hit [OF assms(1) j])
next
  case False
  then have no: "\<forall>slot \<in> set (data_cache l). \<not> slot_matches p lba slot" by (auto simp: in_set_conv_nth)
  moreover have "\<forall>slot \<in> set (data_cache l'). \<not> slot_matches p lba slot"
    using False assms(3,4) by (auto simp: in_set_conv_nth)
  ultimately show ?thesis using assms(5) by (simp add: lview_miss)
qed

lemma slot_matches_update [simp]:
  "slot_matches p lba (slot\<lparr>sl_dirty := b\<rparr>) = slot_matches p lba slot"
  "slot_matches p lba (slot\<lparr>sl_age := a\<rparr>) = slot_matches p lba slot"
  "slot_matches p lba (slot\<lparr>sl_data := d\<rparr>) = slot_matches p lba slot"
  by (simp_all add: slot_matches_def)

lemma slots_distinct_update:
  assumes "slots_distinct slots" and "\<And>p lba. slot_matches p lba slot \<Longrightarrow> slot_matches p lba (slots ! i)"
  shows "slots_distinct (slots[i := slot])"
  unfolding slots_distinct_def
proof (intro allI impI)
  fix j k p lba
  assume "j < length (slots[i := slot])" "k < length (slots[i := slot])"
    "slot_matches p lba (slots[i := slot] ! j)" "slot_matches p lba (slots[i := slot] ! k)"
  then show "j = k"
    using assms by (cases "j = i"; cases "k = i") (auto simp: slots_distinct_def)
qed

lemma slots_distinct_new:
  assumes "slots_distinct slots" and "\<forall>s \<in> set slots. \<not> slot_matches p lba s"
    and "\<And>q b. slot_matches q b slot \<Longrightarrow> q = p \<and> b = lba"
  shows "slots_distinct (slots[i := slot])"
  unfolding slots_distinct_def
proof (intro allI impI)
  fix j k q b
  assume "j < length (slots[i := slot])" "k < length (slots[i := slot])"
    "slot_matches q b (slots[i := slot] ! j)" "slot_matches q b (slots[i := slot] ! k)"
  then show "j = k"
    using assms nth_mem [of j slots] nth_mem [of k slots]
    by (cases "j = i"; cases "k = i") (auto simp: slots_distinct_def)
qed

lemma cache_hit_SomeD:
  assumes "cache_hit p lba l = Some i"
  shows "i < LAINFS_DATA_CACHE_SLOTS" "slot_matches p lba (data_cache l ! i)"
  using assms by (auto simp: cache_hit_def find_Some_iff)

lemma cache_hit_NoneD:
  assumes "cache_hit p lba l = None" and "length (data_cache l) = LAINFS_DATA_CACHE_SLOTS"
  shows "\<forall>slot \<in> set (data_cache l). \<not> slot_matches p lba slot"
  using assms by (auto simp: cache_hit_def find_None_iff in_set_conv_nth)

lemma victim_scan_mem: "victim_scan slots is v oldest = v \<or> victim_scan slots is v oldest \<in> set is"
  by (induction slots "is" v oldest rule: victim_scan.induct) auto

lemma cache_victim_bound: "cache_victim l < LAINFS_DATA_CACHE_SLOTS"
  using victim_scan_mem [of "data_cache l" "[0..<LAINFS_DATA_CACHE_SLOTS]" 0 "0xFFFFFFFFFFFFFFFF"]
  by (auto simp: cache_victim_def)

context block_driver
begin

abbreviation "fs_ok \<equiv> driver_fs_ok rd wr ctx cap blk ok"
abbreviation "data_lba \<equiv> driver_data_lba rd wr ctx cap blk ok"
abbreviation "slot_ok \<equiv> driver_slot_ok rd wr ctx cap blk ok"
abbreviation "cache_inv \<equiv> driver_cache_inv rd wr ctx cap blk ok"

lemma part_write_frame:
  assumes "backed p s" and "windows_disjoint rd wr ctx s" and "unat lba + unat n \<le> part_blocks p s"
    and "length buf = unat n * SECTOR_SIZE"
  obtains h' where "storage_write_partition p lba n buf s = (0, s\<lparr>disk := h'\<rparr>)"
    and "\<And>q. backed q s \<Longrightarrow> backed q (s\<lparr>disk := h'\<rparr>)"
    and "\<And>q i. backed q s \<Longrightarrow> i < part_blocks q s \<Longrightarrow> pblk q (s\<lparr>disk := h'\<rparr>) i =
          (if q = p \<and> unat lba \<le> i \<and> i < unat lba + unat n
           then slice ((i - unat lba) * SECTOR_SIZE) SECTOR_SIZE buf else pblk q s i)"
proof -
  obtain h' where h': "storage_write_partition p lba n buf s = (0, s\<lparr>disk := h'\<rparr>)"
    "\<And>q. backed q s \<Longrightarrow> backed q (s\<lparr>disk := h'\<rparr>)"
    "\<And>i. i < part_blocks p s \<Longrightarrow> pblk p (s\<lparr>disk := h'\<rparr>) i =
          (if unat lba \<le> i \<and> i < unat lba + unat n
           then slice ((i - unat lba) * SECTOR_SIZE) SECTOR_SIZE buf else pblk p s i)"
    "\<And>i. i < cap \<Longrightarrow> i \<notin> part_window p s \<Longrightarrow> blk h' i = blk (disk s) i"
    by (rule part_write [OF assms(1,3,4)]) (rule that)
  have "pblk q (s\<lparr>disk := h'\<rparr>) i = pblk q s i" if "q \<noteq> p" "backed q s" "i < part_blocks q s" for q i
  proof -
    let ?i = "unat (pt_start_lba (partitions s ! q)) + i"
    have w: "?i \<in> part_window q s" using that(3) by (simp add: part_window_def)
    moreover have "part_window q s \<inter> part_window p s = {}"
      using assms(1,2) that(1,2) backed_on_driver by (metis windows_disjoint_def)
    ultimately have "blk h' ?i = blk (disk s) ?i"
      using part_window_cap [OF that(2)] by (intro h'(4)) blast+
    then show ?thesis by (simp add: part_block_def)
  qed
  with h' show ?thesis by (intro that [of h']) metis+
qed

lemma data_lba_pos:
  assumes "data_lba p lba s"
  shows "0 < unat lba" "sb_dir_start_lba (disk_super blk p s) \<noteq> 0"
    "unat (sb_dir_start_lba (disk_super blk p s)) + 256 \<le> unat lba"
proof -
  have lay: "layout_ok (partitions s ! p) (disk_super blk p s)" "super_magic_ok (disk_super blk p s)"
    using assms by (simp_all add: driver_data_lba_def driver_fs_ok_def)
  have le: "unat (sb_data_start_lba (disk_super blk p s)) \<le> unat lba"
    using assms by (simp add: driver_data_lba_def word_le_nat_alt)
  show "sb_dir_start_lba (disk_super blk p s) \<noteq> 0" using lay(1) by (simp add: layout_ok_def)
  have "unat ((ucast (sb_dir_start_lba (disk_super blk p s)) :: u64) + ucast (sb_dir_blocks (disk_super blk p s))) =
      unat (sb_dir_start_lba (disk_super blk p s)) + unat (sb_dir_blocks (disk_super blk p s))"
    using unat_u32_bound [of "sb_dir_start_lba (disk_super blk p s)"]
      unat_u32_bound [of "sb_dir_blocks (disk_super blk p s)"] by (simp add: unat_word_ariths)
  with lay le show "unat (sb_dir_start_lba (disk_super blk p s)) + 256 \<le> unat lba"
    by (simp add: layout_ok_def super_magic_ok_def word_less_nat_alt not_less)
  then show "0 < unat lba" by simp
qed

text \<open>
  A change of the disk that leaves the blocks below the data area alone keeps the file systems.
\<close>

definition keeps_meta :: "'h storage \<Rightarrow> 'h \<Rightarrow> bool" where
  "keeps_meta s h \<longleftrightarrow>
     (\<forall>q. backed q s \<longrightarrow> backed q (s\<lparr>disk := h\<rparr>)) \<and>
     (\<forall>q i. fs_ok q s \<longrightarrow> i < unat (sb_data_start_lba (disk_super blk q s)) \<longrightarrow>
        pblk q (s\<lparr>disk := h\<rparr>) i = pblk q s i)"

lemma layout_data_start:
  assumes "layout_ok part sb" and "unat (pt_block_count part) < 2 ^ 32"
  shows "0 < unat (sb_data_start_lba sb)" "unat (sb_data_start_lba sb) < unat (pt_block_count part)"
  using assms by (auto simp: layout_ok_def word_le_nat_alt not_le)

lemma keeps_meta_fs_ok:
  assumes "keeps_meta s h" and "fs_ok q s"
  shows "disk_super blk q (s\<lparr>disk := h\<rparr>) = disk_super blk q s" "fs_ok q (s\<lparr>disk := h\<rparr>)"
proof -
  have "0 < unat (sb_data_start_lba (disk_super blk q s))"
    using assms(2) by (intro layout_data_start(1)) (auto simp: driver_fs_ok_def part_blocks_def)
  with assms show d: "disk_super blk q (s\<lparr>disk := h\<rparr>) = disk_super blk q s"
    by (simp add: keeps_meta_def disk_super_def)
  show "fs_ok q (s\<lparr>disk := h\<rparr>)"
    using assms by (auto simp: driver_fs_ok_def keeps_meta_def d)
qed

lemma keeps_meta_data_lba: "keeps_meta s h \<Longrightarrow> data_lba q lba s \<Longrightarrow> data_lba q lba (s\<lparr>disk := h\<rparr>)"
  using keeps_meta_fs_ok by (simp add: driver_data_lba_def)

lemma keeps_meta_trans:
  assumes "keeps_meta s h" and "keeps_meta (s\<lparr>disk := h\<rparr>) h'"
  shows "keeps_meta s h'"
proof -
  have "pblk q (s\<lparr>disk := h'\<rparr>) i = pblk q s i"
    if "fs_ok q s" "i < unat (sb_data_start_lba (disk_super blk q s))" for q i
  proof -
    have "pblk q (s\<lparr>disk := h\<rparr>) i = pblk q s i" using assms(1) that by (simp add: keeps_meta_def)
    moreover have "pblk q (s\<lparr>disk := h\<rparr>\<lparr>disk := h'\<rparr>) i = pblk q (s\<lparr>disk := h\<rparr>) i"
      using assms that keeps_meta_fs_ok [OF assms(1) that(1)] by (auto simp: keeps_meta_def)
    ultimately show ?thesis by simp
  qed
  with assms show ?thesis by (auto simp: keeps_meta_def)
qed

lemma keeps_meta_refl [simp]: "keeps_meta s (disk s)"
  by (simp add: keeps_meta_def)

text \<open>What the data cache operations leave alone: everything but the slots and the data blocks.\<close>

definition cache_step :: "'h lainfs \<Rightarrow> 'h lainfs \<Rightarrow> bool" where
  "cache_step l l' \<longleftrightarrow>
     same_caches l l' \<and> (\<exists>h. store l' = (store l)\<lparr>disk := h\<rparr> \<and> keeps_meta (store l) h)"

lemma cache_step_refl [simp]: "cache_step l l"
  by (auto simp: cache_step_def intro!: exI [of _ "disk (store l)"])

lemma cache_stepE:
  assumes "cache_step l l'"
  obtains h where "same_caches l l'" "store l' = (store l)\<lparr>disk := h\<rparr>" "keeps_meta (store l) h"
  using assms by (auto simp: cache_step_def)

lemma cache_step_trans:
  assumes "cache_step l l'" and "cache_step l' l''"
  shows "cache_step l l''"
proof -
  obtain h where h: "same_caches l l'" "store l' = (store l)\<lparr>disk := h\<rparr>" "keeps_meta (store l) h"
    by (rule cache_stepE [OF assms(1)])
  obtain h' where h': "same_caches l' l''" "store l'' = (store l')\<lparr>disk := h'\<rparr>" "keeps_meta (store l') h'"
    by (rule cache_stepE [OF assms(2)])
  have "same_caches l l''" using h(1) h'(1) by (rule same_caches_trans)
  moreover have "store l'' = (store l)\<lparr>disk := h'\<rparr>" using h(2) h'(2) by simp
  moreover have "keeps_meta (store l) h'" using keeps_meta_trans [OF h(3)] h'(3) h(2) by simp
  ultimately show ?thesis unfolding cache_step_def by blast
qed

lemma cache_step_fs_ok:
  assumes "cache_step l l'" and "fs_ok q (store l)"
  shows "fs_ok q (store l')" "disk_super blk q (store l') = disk_super blk q (store l)"
    "part_blocks q (store l') = part_blocks q (store l)" "partitions (store l') = partitions (store l)"
  using keeps_meta_fs_ok [OF _ assms(2)] by (rule_tac [!] cache_stepE [OF assms(1)]) simp_all

lemma cache_step_data_lba: "cache_step l l' \<Longrightarrow> data_lba q lba (store l) \<Longrightarrow> data_lba q lba (store l')"
  using keeps_meta_data_lba by (elim cache_stepE) simp

lemma cache_invD:
  assumes "cache_inv l"
  shows "length (data_cache l) = LAINFS_DATA_CACHE_SLOTS" "windows_disjoint rd wr ctx (store l)"
    "i < LAINFS_DATA_CACHE_SLOTS \<Longrightarrow> slot_ok (store l) (data_cache l ! i)" "slots_distinct (data_cache l)"
  using assms nth_mem [of i "data_cache l"] by (auto simp: driver_cache_inv_def)

text \<open>Device state that holds no block does not matter.\<close>

lemma same_blocks_fs:
  assumes "same_blocks s s'"
  shows "disk_super blk q s' = disk_super blk q s" "fs_ok q s \<Longrightarrow> fs_ok q s'" "data_lba q b s \<Longrightarrow> data_lba q b s'"
    "slot_ok s slot \<Longrightarrow> slot_ok s' slot" "windows_disjoint rd wr ctx s' = windows_disjoint rd wr ctx s"
proof -
  note D = same_blocksD [OF assms]
  show super: "disk_super blk q s' = disk_super blk q s" for q by (simp add: disk_super_def D(1))
  show fs: "fs_ok q s'" if "fs_ok q s" for q
    using that D(10) by (simp add: driver_fs_ok_def super D(2,4))
  show lba: "data_lba q b s'" if "data_lba q b s" for q b
    using that fs by (simp add: driver_data_lba_def super D(2))
  show "slot_ok s' slot" if "slot_ok s slot"
    using that lba by (simp add: driver_slot_ok_def D(1))
  obtain h where "s' = s\<lparr>disk := h\<rparr>" using D(8) by blast
  then show "windows_disjoint rd wr ctx s' = windows_disjoint rd wr ctx s" by simp
qed

lemma same_blocks_cache:
  assumes "same_blocks (store l) s" and "cache_inv l"
  shows "cache_inv (l\<lparr>store := s\<rparr>)" "lview blk (l\<lparr>store := s\<rparr>) = lview blk l" "cache_step l (l\<lparr>store := s\<rparr>)"
proof -
  show "cache_inv (l\<lparr>store := s\<rparr>)"
    using assms(2) same_blocks_fs [OF assms(1)] by (simp add: driver_cache_inv_def)
  show "lview blk (l\<lparr>store := s\<rparr>) = lview blk l"
    using same_blocksD(1) [OF assms(1)] by (simp add: lview_def fun_eq_iff split: option.splits)
  obtain h where h: "s = (store l)\<lparr>disk := h\<rparr>" using same_blocksD(8) [OF assms(1)] by blast
  have "keeps_meta (store l) h"
    unfolding keeps_meta_def h [symmetric] using same_blocksD(1,10) [OF assms(1)] by simp
  with h show "cache_step l (l\<lparr>store := s\<rparr>)" by (auto simp: cache_step_def same_caches_def)
qed

lemma slot_write:
  assumes inv: "cache_inv l" and i: "i < LAINFS_DATA_CACHE_SLOTS"
    and v: "sl_valid (data_cache l ! i)"
  defines "slot \<equiv> data_cache l ! i"
  obtains h where "storage_write_partition (sl_partition_index slot) (ucast (sl_lba slot)) 1 (sl_data slot) (store l) =
      (0, (store l)\<lparr>disk := h\<rparr>)" "keeps_meta (store l) h"
    "\<And>q k. backed q (store l) \<Longrightarrow> k < part_blocks q (store l) \<Longrightarrow> pblk q ((store l)\<lparr>disk := h\<rparr>) k =
      (if q = sl_partition_index slot \<and> k = unat (sl_lba slot) then sl_data slot else pblk q (store l) k)"
proof -
  let ?p = "sl_partition_index slot" and ?lba = "sl_lba slot"
  have ok: "length (sl_data slot) = SECTOR_SIZE" "data_lba ?p ?lba (store l)"
    using cache_invD(3) [OF inv i] v by (simp_all add: driver_slot_ok_def slot_def)
  then have p: "backed ?p (store l)" "unat ?lba < part_blocks ?p (store l)"
    by (simp_all add: driver_data_lba_def driver_fs_ok_def)
  obtain h where h: "storage_write_partition ?p (ucast ?lba) 1 (sl_data slot) (store l) = (0, (store l)\<lparr>disk := h\<rparr>)"
    "\<And>q. backed q (store l) \<Longrightarrow> backed q ((store l)\<lparr>disk := h\<rparr>)"
    "\<And>q i. backed q (store l) \<Longrightarrow> i < part_blocks q (store l) \<Longrightarrow> pblk q ((store l)\<lparr>disk := h\<rparr>) i =
      (if q = ?p \<and> unat (ucast ?lba :: u64) \<le> i \<and> i < unat (ucast ?lba :: u64) + unat (1 :: u32)
       then slice ((i - unat (ucast ?lba :: u64)) * SECTOR_SIZE) SECTOR_SIZE (sl_data slot) else pblk q (store l) i)"
    using p ok by (rule_tac part_write_frame [OF p(1) cache_invD(2) [OF inv], of "ucast ?lba" 1 "sl_data slot"]) auto
  have blk': "pblk q ((store l)\<lparr>disk := h\<rparr>) k = (if q = ?p \<and> k = unat ?lba then sl_data slot else pblk q (store l) k)"
    if "backed q (store l)" "k < part_blocks q (store l)" for q k
    using h(3) [OF that] ok(1) by (auto simp: not_less_eq_eq)
  have "pblk q ((store l)\<lparr>disk := h\<rparr>) k = pblk q (store l) k"
    if "fs_ok q (store l)" "k < unat (sb_data_start_lba (disk_super blk q (store l)))" for q k
  proof -
    have "k < part_blocks q (store l)"
      using that layout_data_start(2) [of "partitions (store l) ! q" "disk_super blk q (store l)"]
      by (auto simp: driver_fs_ok_def part_blocks_def)
    moreover have "q = ?p \<Longrightarrow> k \<noteq> unat ?lba"
      using that(2) ok(2) by (auto simp: driver_data_lba_def word_le_nat_alt)
    ultimately show ?thesis using that(1) blk' by (auto simp: driver_fs_ok_def)
  qed
  with h(2) have "keeps_meta (store l) h" by (simp add: keeps_meta_def)
  with h(1) blk' show ?thesis by (intro that)
qed

definition lview_same :: "'h lainfs \<Rightarrow> 'h lainfs \<Rightarrow> bool" where
  "lview_same l l' \<longleftrightarrow> (\<forall>q lba. data_lba q lba (store l) \<longrightarrow> lview blk l' q lba = lview blk l q lba)"

lemma lview_same_refl [simp]: "lview_same l l"
  by (simp add: lview_same_def)

lemma slot_ok_frame:
  assumes "slot_ok s slot" and "keeps_meta s h"
    and "sl_valid slot \<Longrightarrow> \<not> sl_dirty slot \<Longrightarrow>
      pblk (sl_partition_index slot) (s\<lparr>disk := h\<rparr>) (unat (sl_lba slot)) = pblk (sl_partition_index slot) s (unat (sl_lba slot))"
  shows "slot_ok (s\<lparr>disk := h\<rparr>) slot"
  using assms keeps_meta_data_lba by (auto simp: driver_slot_ok_def)

text \<open>Writing a slot back changes neither the invariant nor what the file system sees.\<close>

lemma flush_slot_dirty:
  assumes inv: "cache_inv l" and i: "i < LAINFS_DATA_CACHE_SLOTS"
    and v: "sl_valid (data_cache l ! i)" "sl_dirty (data_cache l ! i)"
  obtains l' where "flush_data_cache_slot i l = (0, l')" "cache_step l l'" "cache_inv l'" "lview_same l l'"
    "data_cache l' = (data_cache l)[i := (data_cache l ! i)\<lparr>sl_dirty := False\<rparr>]"
proof -
  let ?slot = "data_cache l ! i"
  obtain h where h: "storage_write_partition (sl_partition_index ?slot) (ucast (sl_lba ?slot)) 1 (sl_data ?slot) (store l) =
      (0, (store l)\<lparr>disk := h\<rparr>)" "keeps_meta (store l) h"
    "\<And>q k. backed q (store l) \<Longrightarrow> k < part_blocks q (store l) \<Longrightarrow> pblk q ((store l)\<lparr>disk := h\<rparr>) k =
      (if q = sl_partition_index ?slot \<and> k = unat (sl_lba ?slot) then sl_data ?slot else pblk q (store l) k)"
    by (rule slot_write [OF inv i v(1)]) (rule that)
  define l' where "l' = count_flush (l\<lparr>store := (store l)\<lparr>disk := h\<rparr>,
    data_cache := (data_cache l)[i := ?slot\<lparr>sl_dirty := False\<rparr>]\<rparr>)"
  have l': "data_cache l' = (data_cache l)[i := ?slot\<lparr>sl_dirty := False\<rparr>]" "store l' = (store l)\<lparr>disk := h\<rparr>"
    by (simp_all add: l'_def count_flush_def)
  note len = cache_invD(1) [OF inv] and dist = cache_invD(4) [OF inv]
  have own: "data_lba (sl_partition_index ?slot) (sl_lba ?slot) (store l)"
    using cache_invD(3) [OF inv i] v(1) by (simp add: driver_slot_ok_def)
  have other: "pblk q (store l') (unat lba) = pblk q (store l) (unat lba)"
    if "data_lba q lba (store l)" "\<not> slot_matches q lba ?slot" for q lba
    using that h(3) [of q "unat lba"] v(1)
    by (auto simp: l' slot_matches_def driver_data_lba_def driver_fs_ok_def word_unat_eq_iff)
  have dist': "slots_distinct (data_cache l')"
    unfolding l' by (rule slots_distinct_update [OF dist]) simp
  have "slot_ok (store l') (data_cache l' ! j)" if j: "j < LAINFS_DATA_CACHE_SLOTS" for j
  proof (cases "j = i")
    case True
    then show ?thesis
      using cache_invD(3) [OF inv i] own keeps_meta_data_lba [OF h(2) own] h(3) len i
      by (auto simp: l' driver_slot_ok_def driver_data_lba_def driver_fs_ok_def)
  next
    case False
    have "\<not> slot_matches (sl_partition_index (data_cache l ! j)) (sl_lba (data_cache l ! j)) ?slot"
      if "sl_valid (data_cache l ! j)"
    proof
      assume "slot_matches (sl_partition_index (data_cache l ! j)) (sl_lba (data_cache l ! j)) ?slot"
      moreover have "slot_matches (sl_partition_index (data_cache l ! j)) (sl_lba (data_cache l ! j)) (data_cache l ! j)"
        using that by (simp add: slot_matches_def)
      ultimately show False using dist False i j len unfolding slots_distinct_def by metis
    qed
    then show ?thesis
      using cache_invD(3) [OF inv j] False other
      by (auto simp: l' driver_slot_ok_def intro: keeps_meta_data_lba [OF h(2)])
  qed
  then have inv': "cache_inv l'"
    using len dist' cache_invD(2) [OF inv] by (auto simp: driver_cache_inv_def l' in_set_conv_nth)
  have same: "lview_same l l'"
    unfolding lview_same_def
  proof (intro allI impI)
    fix q lba
    assume d: "data_lba q lba (store l)"
    show "lview blk l' q lba = lview blk l q lba"
    proof (rule lview_cong [OF dist dist'])
      show "pblk q (store l') (unat lba) = pblk q (store l) (unat lba)"
        if "\<forall>slot \<in> set (data_cache l). \<not> slot_matches q lba slot"
        using that i len nth_mem [of i "data_cache l"] by (intro other [OF d]) simp
    next
      fix j
      assume "j < length (data_cache l)"
      then show "slot_matches q lba (data_cache l' ! j) = slot_matches q lba (data_cache l ! j) \<and>
          (slot_matches q lba (data_cache l ! j) \<longrightarrow> sl_data (data_cache l' ! j) = sl_data (data_cache l ! j))"
        by (cases "j = i") (simp_all add: l')
    qed (simp add: l')
  qed
  have "flush_data_cache_slot i l = (0, l')"
    using i v h(1) by (simp add: flush_data_cache_slot_def l'_def)
  moreover have "cache_step l l'"
    using h(2) by (auto simp: cache_step_def l'_def count_flush_def same_caches_def)
  ultimately show ?thesis using inv' same l'(1) by (intro that)
qed

lemma flush_slot:
  assumes inv: "cache_inv l" and i: "i < LAINFS_DATA_CACHE_SLOTS"
  obtains l' where "flush_data_cache_slot i l = (0, l')" "cache_step l l'" "cache_inv l'" "lview_same l l'"
    "sl_valid (data_cache l' ! i) \<longrightarrow> \<not> sl_dirty (data_cache l' ! i)"
    "\<And>q lba j. slot_matches q lba (data_cache l' ! j) = slot_matches q lba (data_cache l ! j)"
proof (cases "sl_valid (data_cache l ! i) \<and> sl_dirty (data_cache l ! i)")
  case True
  obtain l' where l': "flush_data_cache_slot i l = (0, l')" "cache_step l l'" "cache_inv l'" "lview_same l l'"
    "data_cache l' = (data_cache l)[i := (data_cache l ! i)\<lparr>sl_dirty := False\<rparr>]"
    using True by (rule_tac flush_slot_dirty [OF inv i]) auto
  have "slot_matches q lba (data_cache l' ! j) = slot_matches q lba (data_cache l ! j)" for q lba j
    using i cache_invD(1) [OF inv] by (cases "j = i") (simp_all add: l'(5))
  moreover have "sl_valid (data_cache l' ! i) \<longrightarrow> \<not> sl_dirty (data_cache l' ! i)"
    using l'(5) i cache_invD(1) [OF inv] by simp
  ultimately show ?thesis using l'(1-4) by (intro that)
next
  case False
  then have "flush_data_cache_slot i l = (0, l)" using i by (auto simp: flush_data_cache_slot_def Let_def)
  with False inv show ?thesis by (intro that [of l]) auto
qed

text \<open>Putting a block into a slot whose old block is not dirty.\<close>

lemma install_slot:
  assumes inv: "cache_inv l" and v: "v < LAINFS_DATA_CACHE_SLOTS"
    and clean: "sl_valid (data_cache l ! v) \<longrightarrow> \<not> sl_dirty (data_cache l ! v)"
    and miss: "\<forall>slot \<in> set (data_cache l). \<not> slot_matches p lba slot"
    and ns: "slot_matches p lba ns" "slot_ok (store l) ns"
    and l': "data_cache l' = (data_cache l)[v := ns]" "store l' = store l"
  shows "cache_inv l'" "lview blk l' p lba = sl_data ns"
    "data_lba q b (store l) \<Longrightarrow> (q, b) \<noteq> (p, lba) \<Longrightarrow> lview blk l' q b = lview blk l q b"
proof -
  note len = cache_invD(1) [OF inv] and dist = cache_invD(4) [OF inv]
  have key: "q = p \<and> b = lba" if "slot_matches q b ns" for q b
    using that ns(1) by (simp add: slot_matches_def)
  have dist': "slots_distinct (data_cache l')"
    unfolding l' by (rule slots_distinct_new [OF dist miss]) (rule key)
  show "cache_inv l'"
    using inv dist' ns(2) len set_update_subset_insert [of "data_cache l" v ns]
    unfolding driver_cache_inv_def l' by auto
  show "lview blk l' p lba = sl_data ns"
    using lview_hit [OF dist', of v p lba blk] v len ns(1) by (simp add: l')
  assume d: "data_lba q b (store l)" and ne: "(q, b) \<noteq> (p, lba)"
  then have no: "\<not> slot_matches q b ns" using key by auto
  show "lview blk l' q b = lview blk l q b"
  proof (cases "slot_matches q b (data_cache l ! v)")
    case True
    have "lview blk l q b = sl_data (data_cache l ! v)"
      using True v len by (intro lview_hit [OF dist]) auto
    also have "\<dots> = pblk q (store l) (unat b)"
      using cache_invD(3) [OF inv v] True clean by (auto simp: driver_slot_ok_def slot_matches_def)
    finally have "lview blk l q b = pblk q (store l) (unat b)" .
    moreover have "\<not> slot_matches q b (data_cache l' ! j)" if "j < LAINFS_DATA_CACHE_SLOTS" for j
    proof (cases "j = v")
      case True
      then show ?thesis using no v len by (simp add: l')
    next
      case False
      then show ?thesis
        using dist \<open>slot_matches q b (data_cache l ! v)\<close> v that len unfolding slots_distinct_def l' by auto
    qed
    then have "lview blk l' q b = pblk q (store l') (unat b)"
      using len by (intro lview_miss) (auto simp: l'(1) in_set_conv_nth)
    ultimately show ?thesis by (simp add: l')
  next
    case False
    show ?thesis
    proof (rule lview_cong [OF dist dist'])
      fix j
      assume "j < length (data_cache l)"
      then show "slot_matches q b (data_cache l' ! j) = slot_matches q b (data_cache l ! j) \<and>
          (slot_matches q b (data_cache l ! j) \<longrightarrow> sl_data (data_cache l' ! j) = sl_data (data_cache l ! j))"
        using False no by (cases "j = v") (simp_all add: l')
    qed (simp_all add: l')
  qed
qed

text \<open>Changing the slot that already holds the block.\<close>

lemma touch_slot:
  assumes inv: "cache_inv l" and i: "i < LAINFS_DATA_CACHE_SLOTS" "slot_matches p lba (data_cache l ! i)"
    and ns: "slot_matches p lba ns" "slot_ok (store l) ns"
    and l': "data_cache l' = (data_cache l)[i := ns]" "store l' = store l"
  shows "cache_inv l'" "lview blk l' p lba = sl_data ns"
    "(q, b) \<noteq> (p, lba) \<Longrightarrow> lview blk l' q b = lview blk l q b"
proof -
  note len = cache_invD(1) [OF inv] and dist = cache_invD(4) [OF inv]
  have key: "slot_matches r c ns = slot_matches r c (data_cache l ! i)" for r c
    using i(2) ns(1) by (auto simp: slot_matches_def)
  then have dist': "slots_distinct (data_cache l')"
    unfolding l' by (intro slots_distinct_update [OF dist]) simp
  show "cache_inv l'"
    using inv dist' ns(2) len set_update_subset_insert [of "data_cache l" i ns]
    unfolding driver_cache_inv_def l' by auto
  show "lview blk l' p lba = sl_data ns"
    using lview_hit [OF dist', of i p lba blk] i len ns(1) by (simp add: l')
  assume ne: "(q, b) \<noteq> (p, lba)"
  have no: "\<not> slot_matches q b (data_cache l ! i)" using ne i(2) by (auto simp: slot_matches_def)
  show "lview blk l' q b = lview blk l q b"
  proof (rule lview_cong [OF dist dist'])
    fix j
    assume "j < length (data_cache l)"
    then show "slot_matches q b (data_cache l' ! j) = slot_matches q b (data_cache l ! j) \<and>
        (slot_matches q b (data_cache l ! j) \<longrightarrow> sl_data (data_cache l' ! j) = sl_data (data_cache l ! j))"
      using key no by (cases "j = i") (simp_all add: l')
  qed (simp_all add: l')
qed

text \<open>A victim slot that has been written back, with the view and the misses of before.\<close>

lemma evict:
  assumes inv: "cache_inv l" and miss: "cache_hit p lba l = None"
  obtains l' where "flush_data_cache_slot (cache_victim l) l = (0, l')" "cache_step l l'" "cache_inv l'" "lview_same l l'"
    "sl_valid (data_cache l' ! cache_victim l) \<longrightarrow> \<not> sl_dirty (data_cache l' ! cache_victim l)"
    "\<forall>slot \<in> set (data_cache l'). \<not> slot_matches p lba slot"
proof -
  obtain l' where l': "flush_data_cache_slot (cache_victim l) l = (0, l')" "cache_step l l'" "cache_inv l'" "lview_same l l'"
    "sl_valid (data_cache l' ! cache_victim l) \<longrightarrow> \<not> sl_dirty (data_cache l' ! cache_victim l)"
    "\<And>q lba j. slot_matches q lba (data_cache l' ! j) = slot_matches q lba (data_cache l ! j)"
    by (rule flush_slot [OF inv cache_victim_bound]) (rule that)
  have "\<not> slot_matches p lba (data_cache l' ! j)" if "j < LAINFS_DATA_CACHE_SLOTS" for j
    using cache_hit_NoneD [OF miss cache_invD(1) [OF inv]] that nth_mem [of j "data_cache l"]
      cache_invD(1) [OF inv] by (simp add: l'(6))
  then have "\<forall>slot \<in> set (data_cache l'). \<not> slot_matches p lba slot"
    using cache_invD(1) [OF l'(3)] by (auto simp: in_set_conv_nth)
  with l'(1-5) show ?thesis by (intro that)
qed

lemma cached_write:
  assumes inv: "cache_inv l" and d: "data_lba p lba (store l)" and buf: "length buf = SECTOR_SIZE"
  obtains l' where "cached_write_block p lba buf l = (0, l')" "cache_step l l'" "cache_inv l'"
    "lview blk l' p lba = buf"
    "\<And>q b. data_lba q b (store l) \<Longrightarrow> (q, b) \<noteq> (p, lba) \<Longrightarrow> lview blk l' q b = lview blk l q b"
proof (cases "cache_hit p lba l")
  case (Some i)
  note hit = cache_hit_SomeD [OF Some]
  define ns where "ns = (data_cache l ! i)\<lparr>sl_data := buf, sl_dirty := True, sl_age := cache_clock l + 1\<rparr>"
  obtain l' where l': "cached_write_block p lba buf l = (0, l')" "same_caches l l'"
    "data_cache l' = (data_cache l)[i := ns]" "store l' = store l"
    using Some cache_invD(3) [OF inv hit(1)] buf
    by (simp add: cached_write_block_def Let_def same_caches_def driver_slot_ok_def ns_def)
  have ns: "slot_matches p lba ns" "slot_ok (store l) ns"
    using hit(2) d buf by (auto simp: slot_matches_def ns_def driver_slot_ok_def)
  have "cache_step l l'" using l'(2,4) by (auto simp: cache_step_def intro!: exI [of _ "disk (store l)"])
  with touch_slot [OF inv hit ns l'(3,4)] show ?thesis by (intro that [OF l'(1)]) (auto simp: ns_def)
next
  case None
  obtain l1 where l1: "flush_data_cache_slot (cache_victim l) l = (0, l1)" "cache_step l l1" "cache_inv l1" "lview_same l l1"
    "sl_valid (data_cache l1 ! cache_victim l) \<longrightarrow> \<not> sl_dirty (data_cache l1 ! cache_victim l)"
    "\<forall>slot \<in> set (data_cache l1). \<not> slot_matches p lba slot"
    by (rule evict [OF inv None]) (rule that)
  define ns where "ns = \<lparr>sl_valid = True, sl_dirty = True, sl_partition_index = p, sl_lba = lba,
    sl_age = cache_clock l1 + 1, sl_data = buf\<rparr>"
  obtain l' where l': "cached_write_block p lba buf l = (0, l')" "same_caches l1 l'"
    "data_cache l' = (data_cache l1)[cache_victim l := ns]" "store l' = store l1"
    using None l1(1) cache_invD(3) [OF l1(3) cache_victim_bound [of l]] buf
    by (simp add: cached_write_block_def Let_def same_caches_def driver_slot_ok_def ns_def)
  have ns: "slot_matches p lba ns" "slot_ok (store l1) ns"
    using cache_step_data_lba [OF l1(2) d] buf by (auto simp: slot_matches_def ns_def driver_slot_ok_def)
  note install = install_slot [OF l1(3) cache_victim_bound l1(5,6) ns l'(3,4)]
  have "cache_step l1 l'" using l'(2,4) by (auto simp: cache_step_def intro!: exI [of _ "disk (store l1)"])
  then have "cache_step l l'" by (rule cache_step_trans [OF l1(2)])
  moreover have "lview blk l' q b = lview blk l q b" if "data_lba q b (store l)" "(q, b) \<noteq> (p, lba)" for q b
    using install(3) [OF cache_step_data_lba [OF l1(2) that(1)] that(2)] l1(4) that(1) by (simp add: lview_same_def)
  ultimately show ?thesis using install(1,2) by (intro that [OF l'(1)]) (auto simp: ns_def)
qed

lemma cached_read:
  assumes inv: "cache_inv l" and d: "data_lba p lba (store l)" and buf: "length buf = SECTOR_SIZE"
  obtains l' where "cached_read_block p lba buf l = (0, lview blk l p lba, l')" "cache_step l l'" "cache_inv l'"
    "lview_same l l'"
proof (cases "cache_hit p lba l")
  case (Some i)
  note hit = cache_hit_SomeD [OF Some]
  define ns where "ns = (data_cache l ! i)\<lparr>sl_age := cache_clock l + 1\<rparr>"
  have slot: "slot_ok (store l) (data_cache l ! i)" by (rule cache_invD(3) [OF inv hit(1)])
  have v: "lview blk l p lba = sl_data (data_cache l ! i)"
    using hit cache_invD(1) [OF inv] by (intro lview_hit [OF cache_invD(4) [OF inv]]) auto
  obtain l' where l': "cached_read_block p lba buf l = (0, lview blk l p lba, l')" "same_caches l l'"
    "data_cache l' = (data_cache l)[i := ns]" "store l' = store l"
    using Some slot buf
    by (simp add: cached_read_block_def Let_def same_caches_def driver_slot_ok_def ns_def v)
  have ns: "slot_matches p lba ns" "slot_ok (store l) ns"
    using hit(2) slot by (auto simp: slot_matches_def ns_def driver_slot_ok_def)
  note touch = touch_slot [OF inv hit ns l'(3,4)]
  have "lview_same l l'"
    unfolding lview_same_def
  proof (intro allI impI)
    fix q b
    show "lview blk l' q b = lview blk l q b"
      using touch(2) touch(3) [of q b] v by (cases "(q, b) = (p, lba)") (auto simp: ns_def)
  qed
  moreover have "cache_step l l'" using l'(2,4) by (auto simp: cache_step_def intro!: exI [of _ "disk (store l)"])
  ultimately show ?thesis using l'(1) touch(1) by (intro that)
next
  case None
  obtain l1 where l1: "flush_data_cache_slot (cache_victim l) l = (0, l1)" "cache_step l l1" "cache_inv l1" "lview_same l l1"
    "sl_valid (data_cache l1 ! cache_victim l) \<longrightarrow> \<not> sl_dirty (data_cache l1 ! cache_victim l)"
    "\<forall>slot \<in> set (data_cache l1). \<not> slot_matches p lba slot"
    by (rule evict [OF inv None]) (rule that)
  have d1: "data_lba p lba (store l1)" by (rule cache_step_data_lba [OF l1(2) d])
  let ?dat = "pblk p (store l1) (unat lba)"
  have v: "?dat = lview blk l p lba"
    using lview_miss [OF l1(6), of blk] l1(4) d by (simp add: lview_same_def)
  have p: "backed p (store l1)" "unat lba < part_blocks p (store l1)"
    using d1 by (simp_all add: driver_data_lba_def driver_fs_ok_def)
  have len: "length ?dat = SECTOR_SIZE" by (rule part_block_length [OF p])
  define ns where "ns = \<lparr>sl_valid = True, sl_dirty = False, sl_partition_index = p, sl_lba = lba,
    sl_age = cache_clock l1 + 1, sl_data = ?dat\<rparr>"
  have "length (sl_data (data_cache l1 ! cache_victim l)) = SECTOR_SIZE"
    using cache_invD(3) [OF l1(3) cache_victim_bound [of l]] by (simp add: driver_slot_ok_def)
  then obtain s where s: "storage_read_partition p (ucast lba) 1 (sl_data (data_cache l1 ! cache_victim l)) (store l1) =
      (0, ?dat, s)" "same_blocks (store l1) s"
    using part_read_one [OF p(1), of "ucast lba"] p(2) by auto
  let ?l2 = "l1\<lparr>store := s\<rparr>"
  note l2 = same_blocks_cache [OF s(2) l1(3)] and d2 = same_blocks_fs(3) [OF s(2)]
  obtain l' where l': "cached_read_block p lba buf l = (0, lview blk l p lba, l')" "same_caches ?l2 l'"
    "data_cache l' = (data_cache ?l2)[cache_victim l := ns]" "store l' = store ?l2"
    using None l1(1) buf len s(1)
    by (simp add: cached_read_block_def Let_def same_caches_def ns_def v)
  have ns: "slot_matches p lba ns" "slot_ok (store ?l2) ns"
    using d2 [OF d1] len same_blocksD(1) [OF s(2)] by (auto simp: slot_matches_def ns_def driver_slot_ok_def)
  have victim: "sl_valid (data_cache ?l2 ! cache_victim l) \<longrightarrow> \<not> sl_dirty (data_cache ?l2 ! cache_victim l)"
    "\<forall>slot \<in> set (data_cache ?l2). \<not> slot_matches p lba slot" using l1(5,6) by simp_all
  note install = install_slot [OF l2(1) cache_victim_bound victim ns l'(3,4)]
  have "cache_step ?l2 l'" using l'(2,4) by (auto simp: cache_step_def intro!: exI [of _ "disk s"])
  then have "cache_step l l'" using cache_step_trans [OF cache_step_trans [OF l1(2) l2(3)]] by blast
  moreover have "lview blk l' q b = lview blk l q b" if "data_lba q b (store l)" for q b
  proof (cases "(q, b) = (p, lba)")
    case True
    with install(2) v show ?thesis by (simp add: ns_def)
  next
    case False
    have "data_lba q b (store ?l2)" using d2 [OF cache_step_data_lba [OF l1(2) that]] by simp
    from install(3) [OF this False] show ?thesis using l2(2) l1(4) that by (simp add: lview_same_def)
  qed
  then have "lview_same l l'" by (simp add: lview_same_def)
  ultimately show ?thesis using l'(1) install(1) by (intro that)
qed

end

end
