(* ===== verification/Lainfs_Dircache.thy ===== *)
theory Lainfs_Dircache
  imports Lainfs_Coherence
begin

text \<open>
  The superblock and directory caches. What the file system holds for a partition is its directory
  \<open>fs_dir\<close> -- the cached one if the cache is for this partition, otherwise the one on the disk -- and
  the contents of its data blocks, \<open>lview\<close>. The invariant \<open>lainfs_inv\<close> extends the data cache
  invariant by: the cached superblock is the one on the disk, a clean cached directory is the
  one on the disk, and a dirty one belongs to a partition with a valid layout. Reading the
  superblock, writing the directory back and loading a directory keep the invariant and what the
  file system holds, for every partition.
\<close>

definition disk_dir :: "('h \<Rightarrow> nat \<Rightarrow> bytes) \<Rightarrow> nat \<Rightarrow> 'h storage \<Rightarrow> directory" where
  "disk_dir blk p s =
     (let st = unat (sb_dir_start_lba (disk_super blk p s))
      in dir_of_bytes (concat (map (part_block blk p s) [st..<st + LAINFS_DIR_BLOCKS])))"

definition fs_dir :: "('h \<Rightarrow> nat \<Rightarrow> bytes) \<Rightarrow> 'h lainfs \<Rightarrow> nat \<Rightarrow> directory" where
  "fs_dir blk l p =
     (if directory_cache_valid l \<and> directory_cache_partition l = p then directory l
      else disk_dir blk p (store l))"

definition dir_wf :: "directory \<Rightarrow> bool" where
  "dir_wf d \<longleftrightarrow> length d = LAINFS_MAX_FILES \<and> (\<forall>e \<in> set d. dirent_wf e)"

definition driver_lainfs_inv ::
  "'h block_read_t \<Rightarrow> 'h block_write_t \<Rightarrow> nat \<Rightarrow> nat \<Rightarrow> ('h \<Rightarrow> nat \<Rightarrow> bytes) \<Rightarrow> ('h \<Rightarrow> bool) \<Rightarrow>
   'h lainfs \<Rightarrow> bool" where
  "driver_lainfs_inv rd wr ctx cap blk ok l \<longleftrightarrow>
     driver_cache_inv rd wr ctx cap blk ok l \<and> dir_wf (directory l) \<and>
     length (sb_reserved (super_cache l)) = 480 \<and>
     (super_cache_valid l \<longrightarrow>
        super_cache l = disk_super blk (super_cache_partition l) (store l) \<and>
        driver_fs_ok rd wr ctx cap blk ok (super_cache_partition l) (store l)) \<and>
     (directory_cache_valid l \<longrightarrow>
        driver_fs_ok rd wr ctx cap blk ok (directory_cache_partition l) (store l) \<and>
        (\<not> directory_cache_dirty l \<longrightarrow>
           directory l = disk_dir blk (directory_cache_partition l) (store l)))"

lemma dir_wf_bytes:
  assumes "dir_wf d"
  shows "length (bytes_of_dir d) = 131072" "dir_of_bytes (bytes_of_dir d) = d"
  using assms length_bytes_of_dir [of d] dir_of_bytes_of_dir [of d] by (auto simp: dir_wf_def)

lemma disk_super_reserved:
  assumes "length (part_block blk p s 0) = SECTOR_SIZE"
  shows "length (sb_reserved (disk_super blk p s)) = 480"
  using assms by (simp add: disk_super_def super_of_bytes_def)

context block_driver
begin

abbreviation "lainfs_inv \<equiv> driver_lainfs_inv rd wr ctx cap blk ok"

lemma lainfs_invD:
  assumes "lainfs_inv l"
  shows "cache_inv l" "dir_wf (directory l)" "length (sb_reserved (super_cache l)) = 480"
    "super_cache_valid l \<Longrightarrow> super_cache l = disk_super blk (super_cache_partition l) (store l)"
    "super_cache_valid l \<Longrightarrow> fs_ok (super_cache_partition l) (store l)"
    "directory_cache_valid l \<Longrightarrow> fs_ok (directory_cache_partition l) (store l)"
    "directory_cache_valid l \<Longrightarrow> \<not> directory_cache_dirty l \<Longrightarrow>
      directory l = disk_dir blk (directory_cache_partition l) (store l)"
  using assms by (simp_all add: driver_lainfs_inv_def)

lemma fs_okD:
  assumes "fs_ok p s"
  shows "backed p s" "unat (pt_block_count (partitions s ! p)) < 2 ^ 32" "super_magic_ok (disk_super blk p s)"
    "layout_ok (partitions s ! p) (disk_super blk p s)" "sb_dir_blocks (disk_super blk p s) = 256"
    "0 < unat (sb_dir_start_lba (disk_super blk p s))"
    "unat (sb_dir_start_lba (disk_super blk p s)) + 256 \<le> unat (sb_data_start_lba (disk_super blk p s))"
    "unat (sb_data_start_lba (disk_super blk p s)) < part_blocks p s"
proof -
  show "backed p s" "unat (pt_block_count (partitions s ! p)) < 2 ^ 32" "super_magic_ok (disk_super blk p s)"
    and lay: "layout_ok (partitions s ! p) (disk_super blk p s)"
    using assms by (simp_all add: driver_fs_ok_def part_blocks_def)
  then show b: "sb_dir_blocks (disk_super blk p s) = 256" by (simp add: super_magic_ok_def)
  show "0 < unat (sb_dir_start_lba (disk_super blk p s))"
    using lay by (auto simp: layout_ok_def unat_gt_0 word_neq_0_conv)
  show lt: "unat (sb_data_start_lba (disk_super blk p s)) < part_blocks p s"
    using layout_data_start(2) [OF lay] assms by (simp add: driver_fs_ok_def part_blocks_def)
  have "data_lba p (sb_data_start_lba (disk_super blk p s)) s"
    using assms lt by (simp add: driver_data_lba_def)
  then show "unat (sb_dir_start_lba (disk_super blk p s)) + 256 \<le> unat (sb_data_start_lba (disk_super blk p s))"
    by (rule data_lba_pos)
qed

lemma raw_read_super_ok:
  assumes "fs_ok p (store l)" and "length (sb_reserved super) = 480"
  obtains s where "raw_read_super p super l = (0, disk_super blk p (store l), l\<lparr>store := s\<rparr>)" "same_blocks (store l) s"
proof -
  obtain s where "storage_read_partition p 0 1 (bytes_of_super super) (store l) = (0, pblk p (store l) 0, s)"
    "same_blocks (store l) s"
    by (rule part_read_one [OF fs_okD(1) [OF assms(1)], of 0 "bytes_of_super super"]) (use fs_okD(8) [OF assms(1)] assms(2) in auto)
  then show ?thesis
    using fs_okD(3) [OF assms(1)] by (intro that [of s]) (simp_all add: raw_read_super_def disk_super_def)
qed

lemma same_blocks_dir: "same_blocks s s' \<Longrightarrow> disk_dir blk q s' = disk_dir blk q s"
  by (simp add: disk_dir_def same_blocks_fs(1) same_blocksD(1))

lemma same_blocks_inv:
  assumes "same_blocks (store l) s" and "lainfs_inv l"
  shows "lainfs_inv (l\<lparr>store := s\<rparr>)"
  using assms(2) same_blocks_fs(1,2) [OF assms(1)] same_blocks_dir [OF assms(1)] same_blocks_cache(1) [OF assms(1)]
  by (simp add: driver_lainfs_inv_def)

lemma read_super_ok:
  assumes inv: "lainfs_inv l" and p: "fs_ok p (store l)"
  obtains l' where "read_super p l = (0, disk_super blk p (store l), l')" "lainfs_inv l'"
    "same_blocks (store l) (store l')" "data_cache l' = data_cache l" "directory l' = directory l"
    "directory_cache_valid l' = directory_cache_valid l" "directory_cache_dirty l' = directory_cache_dirty l"
    "directory_cache_partition l' = directory_cache_partition l" "lainfs_global_lock l' = lainfs_global_lock l"
proof (cases "super_cache_valid l \<and> super_cache_partition l = p")
  case True
  then have "read_super p l = (0, disk_super blk p (store l), l)"
    using lainfs_invD(4) [OF inv] by (auto simp: read_super_def)
  with inv show ?thesis using same_blocks_refl [OF backed_ok [OF fs_okD(1) [OF p]]] by (intro that [of l]) auto
next
  case False
  obtain s where s: "raw_read_super p (super_cache l) l = (0, disk_super blk p (store l), l\<lparr>store := s\<rparr>)"
    "same_blocks (store l) s"
    by (rule raw_read_super_ok [OF p lainfs_invD(3) [OF inv]])
  let ?l = "l\<lparr>store := s, super_cache := disk_super blk p (store l), super_cache_valid := True, super_cache_partition := p\<rparr>"
  have "read_super p l = (0, disk_super blk p (store l), ?l)"
    using s(1) False by (auto simp: read_super_def)
  moreover have "length (pblk p (store l) 0) = SECTOR_SIZE"
    using fs_okD(8) [OF p] by (intro part_block_length [OF fs_okD(1) [OF p]]) simp
  then have "lainfs_inv ?l"
    using same_blocks_inv [OF s(2) inv] same_blocks_fs(1,2) [OF s(2)] p disk_super_reserved [of blk p "store l"]
    by (simp add: driver_lainfs_inv_def driver_cache_inv_def)
  moreover note s(2)
  ultimately show ?thesis by (intro that [of ?l]) auto
qed

subsection \<open>Writing the directory back\<close>

text \<open>
  A change of the disk inside the directory area of one partition: the superblocks, the data
  blocks and the other directories stay.
\<close>

definition dir_write :: "nat \<Rightarrow> directory \<Rightarrow> 'h storage \<Rightarrow> 'h \<Rightarrow> bool" where
  "dir_write p d s h \<longleftrightarrow>
     (\<forall>q. backed q s \<longrightarrow> backed q (s\<lparr>disk := h\<rparr>)) \<and>
     (\<forall>q. fs_ok q s \<longrightarrow> fs_ok q (s\<lparr>disk := h\<rparr>) \<and> disk_super blk q (s\<lparr>disk := h\<rparr>) = disk_super blk q s \<and>
        disk_dir blk q (s\<lparr>disk := h\<rparr>) = (if q = p then d else disk_dir blk q s)) \<and>
     (\<forall>q lba. data_lba q lba s \<longrightarrow> pblk q (s\<lparr>disk := h\<rparr>) (unat lba) = pblk q s (unat lba))"

lemma write_dir_blocks:
  assumes p: "fs_ok p s" and w: "windows_disjoint rd wr ctx s" and d: "dir_wf d"
  obtains h where "storage_write_partition p (ucast (sb_dir_start_lba (disk_super blk p s))) 256 (bytes_of_dir d) s =
      (0, s\<lparr>disk := h\<rparr>)" "dir_write p d s h"
proof -
  let ?st = "unat (sb_dir_start_lba (disk_super blk p s))"
  note ok = fs_okD [OF p]
  obtain h where h: "storage_write_partition p (ucast (sb_dir_start_lba (disk_super blk p s))) 256 (bytes_of_dir d) s =
      (0, s\<lparr>disk := h\<rparr>)"
    "\<And>q. backed q s \<Longrightarrow> backed q (s\<lparr>disk := h\<rparr>)"
    "\<And>q i. backed q s \<Longrightarrow> i < part_blocks q s \<Longrightarrow> pblk q (s\<lparr>disk := h\<rparr>) i =
      (if q = p \<and> ?st \<le> i \<and> i < ?st + 256 then slice ((i - ?st) * SECTOR_SIZE) SECTOR_SIZE (bytes_of_dir d) else pblk q s i)"
    using ok dir_wf_bytes(1) [OF d]
    by (rule_tac part_write_frame [OF ok(1) w, of "ucast (sb_dir_start_lba (disk_super blk p s))" 256 "bytes_of_dir d"]) auto
  have super: "disk_super blk q (s\<lparr>disk := h\<rparr>) = disk_super blk q s" if "fs_ok q s" for q
    using h(3) [OF fs_okD(1) [OF that], of 0] fs_okD(8) [OF that] ok(6) by (simp add: disk_super_def)
  have fs: "fs_ok q (s\<lparr>disk := h\<rparr>)" if "fs_ok q s" for q
    using that super [OF that] h(2) by (auto simp: driver_fs_ok_def)
  have dat: "pblk q (s\<lparr>disk := h\<rparr>) (unat lba) = pblk q s (unat lba)" if "data_lba q lba s" for q lba
    using that h(3) [of q "unat lba"] data_lba_pos(3) [OF that] by (auto simp: driver_data_lba_def driver_fs_ok_def)
  have dir: "disk_dir blk q (s\<lparr>disk := h\<rparr>) = (if q = p then d else disk_dir blk q s)" if q: "fs_ok q s" for q
  proof -
    let ?sq = "unat (sb_dir_start_lba (disk_super blk q s))"
    have in_part: "?sq + k < part_blocks q s" if "k < 256" for k
      using that fs_okD(7,8) [OF q] by linarith
    have "map (pblk q (s\<lparr>disk := h\<rparr>)) [?sq..<?sq + 256] =
        (if q = p then map (\<lambda>k. slice (k * SECTOR_SIZE) SECTOR_SIZE (bytes_of_dir d)) [0..<256]
         else map (pblk q s) [?sq..<?sq + 256])"
      using in_part h(3) [OF fs_okD(1) [OF q]] by (intro nth_equalityI) auto
    moreover have "concat (map (\<lambda>k. slice (k * SECTOR_SIZE) SECTOR_SIZE (bytes_of_dir d)) [0..<256]) = bytes_of_dir d"
      using dir_wf_bytes(1) [OF d] by (intro concat_slices) simp
    ultimately show ?thesis
      using dir_wf_bytes(2) [OF d] by (simp add: disk_dir_def super [OF q])
  qed
  have "dir_write p d s h"
    unfolding dir_write_def using h(2) super fs dat dir by blast
  with h(1) show ?thesis by (rule that)
qed

lemma dir_write_data_lba: "dir_write p d s h \<Longrightarrow> data_lba q lba s \<Longrightarrow> data_lba q lba (s\<lparr>disk := h\<rparr>)"
  by (simp add: dir_write_def driver_data_lba_def)

lemma dir_write_cache:
  assumes "cache_inv l" and "dir_write p d (store l) h" and "store l' = (store l)\<lparr>disk := h\<rparr>"
    and "data_cache l' = data_cache l"
  shows "cache_inv l'" "lview_same l l'"
proof -
  have "slot_ok (store l') slot" if "slot_ok (store l) slot" for slot
    using that dir_write_data_lba [OF assms(2)] assms(2,3) by (auto simp: driver_slot_ok_def dir_write_def)
  then show "cache_inv l'" using assms(1,3,4) by (simp add: driver_cache_inv_def)
  have "lview blk l' q lba = lview blk l q lba" if "data_lba q lba (store l)" for q lba
    using that assms(2-4) by (simp add: lview_def dir_write_def split: option.splits)
  then show "lview_same l l'" by (simp add: lview_same_def)
qed

subsection \<open>Operations that do not change what the file system holds\<close>

definition fs_same :: "'h lainfs \<Rightarrow> 'h lainfs \<Rightarrow> bool" where
  "fs_same l l' \<longleftrightarrow>
     (\<exists>h. store l' = (store l)\<lparr>disk := h\<rparr>) \<and>
     (\<forall>q. fs_ok q (store l) \<longrightarrow> fs_ok q (store l') \<and>
        disk_super blk q (store l') = disk_super blk q (store l) \<and> fs_dir blk l' q = fs_dir blk l q) \<and>
     lview_same l l' \<and> lainfs_global_lock l' = lainfs_global_lock l"

lemma fs_same_refl [simp]: "fs_same l l"
  by (auto simp: fs_same_def intro!: exI [of _ "disk (store l)"])

lemma fs_sameD:
  assumes "fs_same l l'"
  shows "fs_ok q (store l) \<Longrightarrow> fs_ok q (store l')"
    "fs_ok q (store l) \<Longrightarrow> disk_super blk q (store l') = disk_super blk q (store l)"
    "fs_ok q (store l) \<Longrightarrow> fs_dir blk l' q = fs_dir blk l q"
    "partitions (store l') = partitions (store l)" "part_blocks q (store l') = part_blocks q (store l)"
    "mounts (store l') = mounts (store l)" "partition_count (store l') = partition_count (store l)"
    "lview_same l l'" "lainfs_global_lock l' = lainfs_global_lock l"
proof -
  obtain h where "store l' = (store l)\<lparr>disk := h\<rparr>" using assms by (auto simp: fs_same_def)
  then show "partitions (store l') = partitions (store l)" "part_blocks q (store l') = part_blocks q (store l)"
    "mounts (store l') = mounts (store l)" "partition_count (store l') = partition_count (store l)"
    by simp_all
qed (use assms in \<open>simp_all add: fs_same_def\<close>)

lemma fs_same_data_lba: "fs_same l l' \<Longrightarrow> data_lba q lba (store l) \<Longrightarrow> data_lba q lba (store l')"
  using fs_sameD(1,2,5) by (simp add: driver_data_lba_def)

lemma fs_same_trans:
  assumes "fs_same l l'" and "fs_same l' l''"
  shows "fs_same l l''"
proof -
  have "lview_same l l''"
    using fs_sameD(8) [OF assms(1)] fs_sameD(8) [OF assms(2)] fs_same_data_lba [OF assms(1)]
    by (simp add: lview_same_def)
  moreover have "fs_ok q (store l'') \<and> disk_super blk q (store l'') = disk_super blk q (store l) \<and>
      fs_dir blk l'' q = fs_dir blk l q" if "fs_ok q (store l)" for q
    using that fs_sameD(1-3) [OF assms(1)] fs_sameD(1-3) [OF assms(2)] by simp
  moreover have "\<exists>h. store l'' = (store l)\<lparr>disk := h\<rparr>"
    using assms by (auto simp: fs_same_def)
  moreover have "lainfs_global_lock l'' = lainfs_global_lock l"
    using fs_sameD(9) [OF assms(1)] fs_sameD(9) [OF assms(2)] by simp
  ultimately show ?thesis unfolding fs_same_def by blast
qed

lemma same_blocks_same:
  assumes "same_blocks (store l) s"
  shows "fs_same l (l\<lparr>store := s\<rparr>)" "fs_dir blk (l\<lparr>store := s\<rparr>) q = fs_dir blk l q"
proof -
  have "lview blk (l\<lparr>store := s\<rparr>) = lview blk l"
    using same_blocksD(1) [OF assms] by (simp add: lview_def fun_eq_iff split: option.splits)
  then show "fs_same l (l\<lparr>store := s\<rparr>)"
    using same_blocks_fs(1,2) [OF assms] same_blocks_dir [OF assms] same_blocksD(8) [OF assms]
    by (simp add: fs_same_def lview_same_def fs_dir_def)
  show "fs_dir blk (l\<lparr>store := s\<rparr>) q = fs_dir blk l q"
    using same_blocks_dir [OF assms] by (simp add: fs_dir_def)
qed

lemma write_back_directory:
  assumes inv: "lainfs_inv l" and v: "directory_cache_valid l"
  defines "p \<equiv> directory_cache_partition l"
  obtains h l' where "storage_write_partition p (ucast (sb_dir_start_lba (disk_super blk p (store l)))) 256
      (bytes_of_dir (directory l)) (store l) = (0, (store l)\<lparr>disk := h\<rparr>)"
    "l' = count_flush (l\<lparr>store := (store l)\<lparr>disk := h\<rparr>, directory_cache_dirty := False\<rparr>)"
    "lainfs_inv l'" "fs_same l l'" "disk_dir blk p (store l') = directory l"
proof -
  note I = lainfs_invD [OF inv]
  have p: "fs_ok p (store l)" using I(6) v by (simp add: p_def)
  obtain h where h: "storage_write_partition p (ucast (sb_dir_start_lba (disk_super blk p (store l)))) 256
      (bytes_of_dir (directory l)) (store l) = (0, (store l)\<lparr>disk := h\<rparr>)" "dir_write p (directory l) (store l) h"
    by (rule write_dir_blocks [OF p cache_invD(2) [OF I(1)] I(2)]) (rule that)
  define l' where "l' = count_flush (l\<lparr>store := (store l)\<lparr>disk := h\<rparr>, directory_cache_dirty := False\<rparr>)"
  have l': "store l' = (store l)\<lparr>disk := h\<rparr>" "data_cache l' = data_cache l" "directory l' = directory l"
    "directory_cache_valid l' = directory_cache_valid l" "\<not> directory_cache_dirty l'"
    "directory_cache_partition l' = p" "super_cache l' = super_cache l" "super_cache_valid l' = super_cache_valid l"
    "super_cache_partition l' = super_cache_partition l" "lainfs_global_lock l' = lainfs_global_lock l"
    by (simp_all add: l'_def p_def count_flush_def)
  note c = dir_write_cache [OF I(1) h(2) l'(1,2)]
  have W: "fs_ok q (store l') \<and> disk_super blk q (store l') = disk_super blk q (store l) \<and>
      disk_dir blk q (store l') = (if q = p then directory l else disk_dir blk q (store l))"
    if "fs_ok q (store l)" for q
    using h(2) that unfolding dir_write_def l'(1) by blast
  have "lainfs_inv l'"
    unfolding driver_lainfs_inv_def using c(1) I W l' v by (simp add: p_def)
  moreover have "fs_same l l'"
    unfolding fs_same_def using W c(2) l' v by (intro conjI exI [of _ h]) (simp_all add: fs_dir_def p_def)
  moreover have "disk_dir blk p (store l') = directory l" using W [OF p] by simp
  ultimately show ?thesis by (intro that [OF h(1) l'_def])
qed

lemma flush_super:
  assumes inv: "lainfs_inv l" and v: "directory_cache_valid l"
  defines "p \<equiv> directory_cache_partition l"
  obtains s where "(if super_cache_valid l \<and> super_cache_partition l = p then (0, super_cache l, l)
      else raw_read_super p (super_of_bytes (replicate 512 0)) l) = (0, disk_super blk p (store l), l\<lparr>store := s\<rparr>)"
    "same_blocks (store l) s"
proof (cases "super_cache_valid l \<and> super_cache_partition l = p")
  case True
  have "fs_ok p (store l)" using lainfs_invD(6) [OF inv v] by (simp add: p_def)
  with True show ?thesis
    using lainfs_invD(4) [OF inv] same_blocks_refl [OF backed_ok [OF fs_okD(1)]] by (intro that [of "store l"]) auto
next
  case False
  have p: "fs_ok p (store l)" using lainfs_invD(6) [OF inv v] by (simp add: p_def)
  have "length (sb_reserved (super_of_bytes (replicate 512 0))) = 480" by (simp add: super_of_bytes_def)
  then obtain s where "raw_read_super p (super_of_bytes (replicate 512 0)) l = (0, disk_super blk p (store l), l\<lparr>store := s\<rparr>)"
    "same_blocks (store l) s" by (rule raw_read_super_ok [OF p])
  with False show ?thesis by (intro that [of s]) auto
qed

lemma flush_directory_ok:
  assumes inv: "lainfs_inv l" and v: "directory_cache_valid l" "directory_cache_dirty l"
  obtains l' where "flush_directory_cache l = (0, l')" "lainfs_inv l'" "fs_same l l'"
    "directory_cache_valid l'" "\<not> directory_cache_dirty l'"
    "directory_cache_partition l' = directory_cache_partition l" "directory l' = directory l"
    "disk_dir blk (directory_cache_partition l) (store l') = directory l" "data_cache l' = data_cache l"
proof -
  let ?p = "directory_cache_partition l"
  obtain s where super: "(if super_cache_valid l \<and> super_cache_partition l = ?p then (0, super_cache l, l)
      else raw_read_super ?p (super_of_bytes (replicate 512 0)) l) = (0, disk_super blk ?p (store l), l\<lparr>store := s\<rparr>)"
    and s: "same_blocks (store l) s"
    by (rule flush_super [OF inv v(1)]) (rule that)
  let ?k = "l\<lparr>store := s\<rparr>"
  have k: "lainfs_inv ?k" "directory_cache_valid ?k" using same_blocks_inv [OF s inv] v(1) by simp_all
  have e: "disk_super blk ?p s = disk_super blk ?p (store l)" by (rule same_blocks_fs(1) [OF s])
  obtain h l' where h: "storage_write_partition ?p (ucast (sb_dir_start_lba (disk_super blk ?p (store l)))) 256
      (bytes_of_dir (directory l)) s = (0, s\<lparr>disk := h\<rparr>)"
    and l': "l' = count_flush (?k\<lparr>store := s\<lparr>disk := h\<rparr>, directory_cache_dirty := False\<rparr>)"
    and r: "lainfs_inv l'" "fs_same ?k l'" "disk_dir blk ?p (store l') = directory l"
    by (rule write_back_directory [OF k]) (simp add: e)
  have "sb_dir_blocks (disk_super blk ?p (store l)) = 256" using fs_okD(5) [OF lainfs_invD(6) [OF inv v(1)]] .
  then have "flush_directory_cache l = (0, l')"
    unfolding flush_directory_cache_def Let_def super using v h by (simp add: l')
  moreover have "fs_same l l'" by (rule fs_same_trans [OF same_blocks_same(1) [OF s] r(2)])
  ultimately show ?thesis using r v(1) by (intro that [of l']) (simp_all add: l' count_flush_def)
qed

subsection \<open>Loading a directory\<close>

lemma lainfs_inv_cong:
  assumes "lainfs_inv l" and "store l' = store l" and "data_cache l' = data_cache l" and "directory l' = directory l"
    and "directory_cache_valid l' = directory_cache_valid l" and "directory_cache_dirty l' = directory_cache_dirty l"
    and "directory_cache_partition l' = directory_cache_partition l" and "super_cache l' = super_cache l"
    and "super_cache_valid l' = super_cache_valid l" and "super_cache_partition l' = super_cache_partition l"
  shows "lainfs_inv l'"
  using assms by (simp add: driver_lainfs_inv_def driver_cache_inv_def)

lemma fs_same_cong:
  assumes "store l' = store l" and "data_cache l' = data_cache l" and "lainfs_global_lock l' = lainfs_global_lock l"
    and "\<And>q. fs_ok q (store l) \<Longrightarrow> fs_dir blk l' q = fs_dir blk l q"
  shows "fs_same l l'"
  unfolding fs_same_def lview_same_def lview_def using assms
  by (intro conjI exI [of _ "disk (store l)"]) (simp_all cong: option.case_cong)

lemma read_directory_ok:
  assumes inv: "lainfs_inv l" and p: "fs_ok p (store l)"
    and clean: "directory_cache_valid l \<Longrightarrow> \<not> directory_cache_dirty l" and miss: "fs_dir blk l p = disk_dir blk p (store l)"
  obtains l' where "read_directory p (disk_super blk p (store l)) l = (0, l')" "lainfs_inv l'" "fs_same l l'"
    "directory_cache_valid l'" "directory_cache_partition l' = p" "directory l' = disk_dir blk p (store l)"
proof -
  let ?st = "sb_dir_start_lba (disk_super blk p (store l))"
  let ?dir = "concat (map (pblk p (store l)) [unat ?st..<unat ?st + 256])"
  note I = lainfs_invD [OF inv] and ok = fs_okD [OF p]
  obtain s where s: "storage_read_partition p (ucast ?st) 256 (bytes_of_dir (directory l)) (store l) = (0, ?dir, s)"
    "same_blocks (store l) s"
    using part_read [OF ok(1), of "ucast ?st" 256] ok(7,8) dir_wf_bytes(1) [OF I(2)] by auto
  note k = same_blocks_inv [OF s(2) inv] and ksame = same_blocks_same [OF s(2)]
  have "length ?dir = 131072"
    using length_concat_blocks [of "map (pblk p (store l)) [unat ?st..<unat ?st + 256]" 512]
      part_block_length [OF ok(1)] ok(7,8) by auto
  then have "dir_wf (dir_of_bytes ?dir)" using dir_of_bytes_wf by (simp add: dir_wf_def)
  moreover have d: "disk_dir blk p (store l) = dir_of_bytes ?dir" by (simp add: disk_dir_def Let_def)
  moreover have ks: "fs_ok p s" "disk_dir blk p s = dir_of_bytes ?dir"
    using same_blocks_fs(2) [OF s(2) p] same_blocks_dir [OF s(2), of p] d by simp_all
  moreover define l' where "l' = count_dir_read (l\<lparr>store := s, directory := dir_of_bytes ?dir, directory_cache_valid := True,
    directory_cache_dirty := False, directory_cache_partition := p\<rparr>)"
  have l': "store l' = s" "data_cache l' = data_cache l" "directory l' = dir_of_bytes ?dir"
    "directory_cache_valid l'" "\<not> directory_cache_dirty l'" "directory_cache_partition l' = p"
    "super_cache l' = super_cache l" "super_cache_valid l' = super_cache_valid l"
    "super_cache_partition l' = super_cache_partition l" "lainfs_global_lock l' = lainfs_global_lock l"
    by (simp_all add: l'_def count_dir_read_def)
  ultimately have "read_directory p (disk_super blk p (store l)) l = (0, l')" "lainfs_inv l'"
    using s(1) k ok(5) by (simp_all add: read_directory_def l'_def driver_lainfs_inv_def driver_cache_inv_def count_dir_read_def)
  moreover have "fs_dir blk l' q = fs_dir blk (l\<lparr>store := s\<rparr>) q" for q
    using l' lainfs_invD(7) [OF k] clean ksame(2) [of p] miss d ks(2) by (auto simp: fs_dir_def)
  then have "fs_same (l\<lparr>store := s\<rparr>) l'" using l' by (intro fs_same_cong) simp_all
  then have "fs_same l l'" by (rule fs_same_trans [OF ksame(1)])
  ultimately show ?thesis using l' d by (intro that [of l']) simp_all
qed

lemma load_unchecked_ok:
  assumes inv: "lainfs_inv l" and p: "fs_ok p (store l)"
  obtains l' where "load_directory_unchecked p (disk_super blk p (store l)) l = (0, l')" "lainfs_inv l'" "fs_same l l'"
    "directory_cache_valid l'" "directory_cache_partition l' = p" "directory l' = fs_dir blk l p"
proof -
  consider (hit) "directory_cache_valid l \<and> directory_cache_partition l = p"
    | (dirty) "directory_cache_valid l" "directory_cache_partition l \<noteq> p" "directory_cache_dirty l"
    | (clean) "\<not> (directory_cache_valid l \<and> directory_cache_partition l = p)"
        "\<not> (directory_cache_valid l \<and> directory_cache_dirty l)"
    by blast
  then show ?thesis
  proof cases
    case hit
    let ?l = "count_dir_hit l"
    have "lainfs_inv ?l" by (rule lainfs_inv_cong [OF inv]) (simp_all add: count_dir_hit_def)
    moreover have "fs_same l ?l" by (rule fs_same_cong) (simp_all add: count_dir_hit_def fs_dir_def)
    ultimately show ?thesis
      using hit by (intro that [of ?l]) (simp_all add: load_directory_unchecked_def count_dir_hit_def fs_dir_def)
  next
    case dirty
    obtain l1 where l1: "flush_directory_cache l = (0, l1)" "lainfs_inv l1" "fs_same l l1"
      "directory_cache_valid l1" "\<not> directory_cache_dirty l1" "directory_cache_partition l1 = directory_cache_partition l"
      using dirty by (rule_tac flush_directory_ok [OF inv]) auto
    have p1: "fs_ok p (store l1)" "disk_super blk p (store l1) = disk_super blk p (store l)"
      "fs_dir blk l1 p = fs_dir blk l p"
      using fs_sameD(1-3) [OF l1(3) p] .
    moreover have d1: "fs_dir blk l1 p = disk_dir blk p (store l1)" using dirty l1(6) by (simp add: fs_dir_def)
    ultimately obtain l' where l': "read_directory p (disk_super blk p (store l1)) l1 = (0, l')" "lainfs_inv l'" "fs_same l1 l'"
      "directory_cache_valid l'" "directory_cache_partition l' = p" "directory l' = disk_dir blk p (store l1)"
      using l1(5) by (rule_tac read_directory_ok [OF l1(2) p1(1)]) auto
    then show ?thesis
      using dirty l1(1) p1 d1 fs_same_trans [OF l1(3) l'(3)]
      by (intro that [of l']) (simp_all add: load_directory_unchecked_def)
  next
    case clean
    then have d: "fs_dir blk l p = disk_dir blk p (store l)" by (auto simp: fs_dir_def)
    obtain l' where "read_directory p (disk_super blk p (store l)) l = (0, l')" "lainfs_inv l'" "fs_same l l'"
      "directory_cache_valid l'" "directory_cache_partition l' = p" "directory l' = disk_dir blk p (store l)"
      using clean by (rule_tac read_directory_ok [OF inv p _ d]) auto
    then show ?thesis
      using clean d by (intro that [of l']) (auto simp: load_directory_unchecked_def)
  qed
qed

lemma get_partition_fs_ok: "fs_ok p s \<Longrightarrow> storage_get_partition p s = Some (partitions s ! p)"
  by (simp add: driver_fs_ok_def backed_by_def storage_get_partition_def Let_def)

lemma load_directory_ok:
  assumes inv: "lainfs_inv l" and p: "fs_ok p (store l)"
    and valid: "dir_valid (partitions (store l) ! p) (disk_super blk p (store l)) (fs_dir blk l p)"
  obtains l' where "load_directory p (disk_super blk p (store l)) l = (0, l')" "lainfs_inv l'" "fs_same l l'"
    "directory_cache_valid l'" "directory_cache_partition l' = p" "directory l' = fs_dir blk l p"
proof -
  obtain l' where l': "load_directory_unchecked p (disk_super blk p (store l)) l = (0, l')" "lainfs_inv l'" "fs_same l l'"
    "directory_cache_valid l'" "directory_cache_partition l' = p" "directory l' = fs_dir blk l p"
    by (rule load_unchecked_ok [OF inv p]) (rule that)
  have part: "storage_get_partition p (store l') = Some (partitions (store l) ! p)"
    using get_partition_fs_ok [OF fs_sameD(1) [OF l'(3) p]] fs_sameD(4) [OF l'(3)] by simp
  have "fst (validate_directory (Some (partitions (store l) ! p)) (disk_super blk p (store l)) (directory l')) = 0"
    using validate_directory_iff [OF fs_okD(2) [OF p]] valid lainfs_invD(2) [OF l'(2)] l'(6)
    by (simp add: dir_wf_def)
  then have "load_directory p (disk_super blk p (store l)) l = (0, l')"
    using l'(1) part by (auto simp: load_directory_def split: prod.splits)
  with l'(2-6) show ?thesis by (intro that)
qed

lemma load_directory_invalid:
  assumes inv: "lainfs_inv l" and p: "fs_ok p (store l)"
    and bad: "\<not> dir_valid (partitions (store l) ! p) (disk_super blk p (store l)) (fs_dir blk l p)"
  obtains l' where "load_directory p (disk_super blk p (store l)) l = (-1, l')"
    "\<not> directory_cache_valid l'" "\<not> directory_cache_dirty l'" "lainfs_global_lock l' = lainfs_global_lock l"
proof -
  obtain l' where l': "load_directory_unchecked p (disk_super blk p (store l)) l = (0, l')" "lainfs_inv l'" "fs_same l l'"
    "directory_cache_valid l'" "directory_cache_partition l' = p" "directory l' = fs_dir blk l p"
    by (rule load_unchecked_ok [OF inv p]) (rule that)
  have part: "storage_get_partition p (store l') = Some (partitions (store l) ! p)"
    using get_partition_fs_ok [OF fs_sameD(1) [OF l'(3) p]] fs_sameD(4) [OF l'(3)] by simp
  have "fst (validate_directory (Some (partitions (store l) ! p)) (disk_super blk p (store l)) (directory l')) \<noteq> 0"
    using validate_directory_iff [OF fs_okD(2) [OF p]] bad lainfs_invD(2) [OF l'(2)] l'(6)
    by (simp add: dir_wf_def)
  then show ?thesis
    using l'(1) part fs_sameD(9) [OF l'(3)]
    by (intro that [of "l'\<lparr>directory_cache_valid := False, directory_cache_dirty := False\<rparr>"])
      (auto simp: load_directory_def split: prod.splits)
qed

text \<open>The prefix of the public operations, on a partition with a valid file system.\<close>

lemma open_directory_ok:
  assumes inv: "lainfs_inv l" and p: "fs_ok p (store l)"
    and valid: "dir_valid (partitions (store l) ! p) (disk_super blk p (store l)) (fs_dir blk l p)"
  obtains l' where "open_directory e1 e2 p l = Inr (disk_super blk p (store l), l')" "lainfs_inv l'" "fs_same l l'"
    "directory_cache_valid l'" "directory_cache_partition l' = p" "directory l' = fs_dir blk l p"
proof -
  obtain l1 where l1: "read_super p l = (0, disk_super blk p (store l), l1)" "lainfs_inv l1"
    "same_blocks (store l) (store l1)" "data_cache l1 = data_cache l" "directory l1 = directory l"
    "directory_cache_valid l1 = directory_cache_valid l" "directory_cache_dirty l1 = directory_cache_dirty l"
    "directory_cache_partition l1 = directory_cache_partition l" "lainfs_global_lock l1 = lainfs_global_lock l"
    by (rule read_super_ok [OF inv p]) (rule that)
  have dir: "fs_dir blk l1 q = fs_dir blk l q" for q using l1 same_blocks_dir [OF l1(3)] by (simp add: fs_dir_def)
  then have "fs_same (l\<lparr>store := store l1\<rparr>) l1"
    using l1(4,9) same_blocks_same(2) [OF l1(3)] by (intro fs_same_cong) auto
  then have same: "fs_same l l1" by (rule fs_same_trans [OF same_blocks_same(1) [OF l1(3)]])
  have p1: "fs_ok p (store l1)" by (rule same_blocks_fs(2) [OF l1(3) p])
  have e: "disk_super blk p (store l1) = disk_super blk p (store l)" "partitions (store l1) = partitions (store l)"
    using same_blocks_fs(1) [OF l1(3)] same_blocksD(4) [OF l1(3)] by simp_all
  obtain l' where l': "load_directory p (disk_super blk p (store l1)) l1 = (0, l')" "lainfs_inv l'" "fs_same l1 l'"
    "directory_cache_valid l'" "directory_cache_partition l' = p" "directory l' = fs_dir blk l1 p"
    using valid e dir by (rule_tac load_directory_ok [OF l1(2) p1]) auto
  have "open_directory e1 e2 p l = Inr (disk_super blk p (store l), l')"
    using l1(1) e(1) l'(1) by (simp add: open_directory_def)
  with l' dir fs_same_trans [OF same l'(3)] show ?thesis by (intro that [of l']) simp_all
qed

end

end
