(* ===== verification/Lainfs_Dirops.thy ===== *)
theory Lainfs_Dirops
  imports Lainfs_Files
begin

text \<open>
  Changes of one directory entry, as the public operations make them, keep the directory valid:
  adding a directory, deleting an entry, renaming and moving an entry, and giving a file new
  extents. The heart is the directory tree: no operation may cut an entry off the root.
\<close>

subsection \<open>Names\<close>

lemma copy_chars_take: "copy_chars cs n = take n (cstr cs)"
  by (induction cs n rule: copy_chars.induct) (auto simp: cstr_def take_Cons' split: nat.splits)

lemma nth_cstr: "i < length (cstr p) \<Longrightarrow> p ! i = cstr p ! i"
  unfolding cstr_def by (rule takeWhile_nth [symmetric])

lemma valid_name_iff:
  "valid_name p \<longleftrightarrow> 0 < length (cstr p) \<and> length (cstr p) \<le> 30 \<and> set (cstr p) \<inter> {47, 92, 58, 32, 9} = {}"
proof -
  have "(\<forall>i \<in> {0..<length (cstr p)}. \<not> (p ! i = 47 \<or> p ! i = 92 \<or> p ! i = 58 \<or> p ! i = 32 \<or> p ! i = 9)) \<longleftrightarrow>
      (\<forall>x \<in> set (cstr p). x \<notin> {47, 92, 58, 32, 9})"
    by (auto simp: all_set_conv_all_nth nth_cstr)
  then show ?thesis by (auto simp: valid_name_def Let_def)
qed

lemma name_length_cstr:
  assumes "31 \<le> length p" and "k \<le> length (cstr p)" and "k \<le> 31"
  shows "name_length p k = min 31 (length (cstr p))"
  using assms
proof (induction p k rule: name_length.induct)
  case (1 p k)
  show ?case
  proof (cases "k < 31 \<and> p ! k \<noteq> 0")
    case True
    have "k < length (cstr p)"
    proof (rule ccontr)
      assume "\<not> k < length (cstr p)"
      with "1.prems" True have "k = length (cstr p)" "k < length p" by auto
      then have "p ! k = 0" using nth_length_takeWhile [of "\<lambda>c. c \<noteq> 0" p] by (simp add: cstr_def)
      with True show False by simp
    qed
    with "1.IH" [OF True] "1.prems" True show ?thesis by (simp add: name_length.simps [of p k])
  next
    case False
    moreover have "\<not> k < length (cstr p)" if "p ! k = 0"
      using that nth_cstr [of k p] nth_mem [of k "cstr p"] by (auto simp: cstr_def dest: set_takeWhileD)
    ultimately have "k = 31 \<or> k = length (cstr p)" using "1.prems" by auto
    with False "1.prems" show ?thesis by (auto simp: name_length.simps [of p k])
  qed
qed

lemma cstr_copy_name:
  assumes "length (cstr name) \<le> 30"
  shows "cstr (copy_name dst name) = cstr name"
proof -
  have "0 \<notin> set (cstr name)" by (auto simp: cstr_def dest: set_takeWhileD)
  with assms show ?thesis
    by (simp add: copy_name_def copy_chars_take cstr_overwrite_terminated)
qed

lemma copy_name_valid:
  assumes "valid_name name" and "length dst = 31"
  shows "entry_name_is_valid (copy_name dst name)" "length (copy_name dst name) = 31"
    "str_eq (copy_name dst name) name"
proof -
  have len: "length (cstr name) \<le> 30" using assms(1) by (simp add: valid_name_iff)
  then show l: "length (copy_name dst name) = 31"
    using assms(2) by (simp add: copy_name_def copy_chars_take)
  show "str_eq (copy_name dst name) name" using len by (simp add: str_eq_iff cstr_copy_name)
  have "name_length (copy_name dst name) 0 = length (cstr name)"
    using name_length_cstr [of "copy_name dst name" 0] l len cstr_copy_name [OF len] by simp
  then show "entry_name_is_valid (copy_name dst name)"
    using assms(1) len cstr_copy_name [OF len] by (simp add: entry_name_is_valid_def valid_name_iff)
qed

subsection \<open>The tree after a change of one entry\<close>

lemma dir_entry_update: "dir_entry (d[i := e]) j = (if j = i \<and> i < length d then e else dir_entry d j)"
  by (cases "i < length d") (auto simp: dir_entry_def list_update_beyond)

lemma index_neq: "eid \<noteq> entry_id_from_index i \<Longrightarrow> eid \<noteq> 0 \<Longrightarrow> eid \<le> 2048 \<Longrightarrow> index_from_entry_id eid \<noteq> i"
  using entry_id_index(2) by auto

text \<open>The chain of an entry stays as long as it does not pass through the changed entry.\<close>

lemma root_depth_update:
  assumes "root_depth d eid n" and "\<not> ancestor_or_self d eid (entry_id_from_index i) \<or>
      de_used (dir_entry d i) \<noteq> LAINFS_ENTRY_DIR"
  shows "root_depth (d[i := e]) eid n"
  using assms
proof (induction rule: root_depth.induct)
  case (root d)
  then show ?case by simp
next
  case (step eid d n)
  have ne: "index_from_entry_id eid \<noteq> i"
  proof
    assume i: "index_from_entry_id eid = i"
    then have "entry_id_from_index i = eid" using entry_id_index(2) step.hyps(1,2) by blast
    then have "ancestor_or_self d eid (entry_id_from_index i)" by (simp add: ancestor_or_self.self)
    with step.prems step.hyps(3) i show False by blast
  qed
  have "root_depth (d[i := e]) (entry_parent_id (dir_entry d (index_from_entry_id eid))) n"
    using step by (intro step.IH) (auto intro: ancestor_or_self.step)
  with step.hyps(1-3) ne show ?case by (intro root_depth.step) (simp_all add: dir_entry_update)
qed

lemma reaches_root_update:
  assumes "reaches_root d eid" and "de_used (dir_entry d i) \<noteq> LAINFS_ENTRY_DIR"
  shows "reaches_root (d[i := e]) eid"
  using assms root_depth_update unfolding reaches_root_def by blast

lemma no_children_ancestor:
  assumes "ancestor_or_self d eid a" and "\<forall>i < LAINFS_MAX_FILES. de_used (dir_entry d i) \<noteq> 0 \<longrightarrow> entry_parent_id (dir_entry d i) \<noteq> a"
  shows "eid = a"
  using assms
proof (induction rule: ancestor_or_self.induct)
  case (self d eid)
  then show ?case by simp
next
  case (step eid d a)
  have "entry_parent_id (dir_entry d (index_from_entry_id eid)) = a" using step.IH step.prems .
  moreover have "index_from_entry_id eid < LAINFS_MAX_FILES" using entry_id_index(1) step.hyps(1,2) .
  moreover have "de_used (dir_entry d (index_from_entry_id eid)) \<noteq> 0" using step.hyps(3) by simp
  ultimately show ?case using step.prems by blast
qed

text \<open>Moving a directory to a parent that is not below it keeps every chain, with new lengths.\<close>

lemma reaches_root_move:
  assumes np: "reaches_root d np" "\<not> ancestor_or_self d np (entry_id_from_index i)"
    and i: "i < LAINFS_MAX_FILES" "length d = LAINFS_MAX_FILES"
    and e: "de_used e = de_used (dir_entry d i)" "entry_parent_id e = np"
    and eid: "reaches_root d eid"
  shows "reaches_root (d[i := e]) eid"
proof -
  have np': "reaches_root (d[i := e]) np"
    using np root_depth_update unfolding reaches_root_def by blast
  obtain n where "root_depth d eid n" using eid by (auto simp: reaches_root_def)
  then show ?thesis
    using np' i e
  proof (induction rule: root_depth.induct)
    case (root d)
    then show ?case by simp
  next
    case (step eid d n)
    let ?j = "index_from_entry_id eid"
    have used: "de_used (dir_entry (d[i := e]) ?j) = LAINFS_ENTRY_DIR"
      using step.hyps(3) step.prems(4) by (auto simp: dir_entry_update)
    have "reaches_root (d[i := e]) (entry_parent_id (dir_entry (d[i := e]) ?j))"
      using step.IH step.prems by (auto simp: dir_entry_update)
    then show ?case
      using step.hyps(1,2) used by (simp add: reaches_root_step)
  qed
qed

subsection \<open>Validity after a change of one entry\<close>

lemma dir_valid_update:
  assumes valid: "dir_valid part super d" and d: "length d = LAINFS_MAX_FILES" and i: "i < LAINFS_MAX_FILES"
    and tree: "\<And>j. j < LAINFS_MAX_FILES \<Longrightarrow> j \<noteq> i \<Longrightarrow> de_used (d ! j) \<noteq> 0 \<Longrightarrow>
      reaches_root (d[i := e]) (entry_parent_id (d ! j))"
    and e: "entry_valid part super (d[i := e]) e"
    and blocks: "de_used e = LAINFS_ENTRY_FILE \<Longrightarrow> file_blocks e \<inter> used_blocks d i = {}"
  shows "dir_valid part super (d[i := e])"
proof -
  have "entry_valid part super (d[i := e]) (d[i := e] ! j)" if j: "j < LAINFS_MAX_FILES" for j
  proof (cases "j = i")
    case True
    with e i d show ?thesis by simp
  next
    case False
    have "entry_valid part super d (d ! j)" using valid j d by (simp add: dir_valid_def)
    with False tree [OF j False] show ?thesis by (auto simp: entry_valid_def)
  qed
  then have ents: "\<forall>x \<in> set (d[i := e]). entry_valid part super (d[i := e]) x"
    using d by (auto simp: in_set_conv_nth)
  have "file_blocks e \<inter> file_blocks (d ! j) = {}"
    if "j < LAINFS_MAX_FILES" "j \<noteq> i" "de_used e = LAINFS_ENTRY_FILE" "de_used (d ! j) = LAINFS_ENTRY_FILE" for j
    using blocks that d by (fastforce simp: used_blocks_def)
  then have "files_disjoint (d[i := e])"
    using valid d i unfolding files_disjoint_def dir_valid_def
    by (simp add: nth_list_update) (metis inf_commute)
  with ents valid show ?thesis by (simp add: dir_valid_def)
qed

lemma valid_entry_parent:
  assumes "dir_valid part super d" and "j < length d" and "de_used (d ! j) \<noteq> 0"
  shows "reaches_root d (entry_parent_id (d ! j))"
  using assms by (auto simp: dir_valid_def entry_valid_def dest!: nth_mem)

lemma valid_dir_reaches_root:
  assumes "dir_valid part super d" and "length d = LAINFS_MAX_FILES" and "valid_dir_id d eid"
  shows "reaches_root d eid"
proof (cases "eid = LAINFS_ROOT_DIR")
  case False
  then have eid: "eid \<le> 2048" "de_used (dir_entry d (index_from_entry_id eid)) = LAINFS_ENTRY_DIR"
    using assms(3) by (auto simp: valid_dir_id_def split: if_splits)
  have "reaches_root d (entry_parent_id (dir_entry d (index_from_entry_id eid)))"
    using valid_entry_parent [OF assms(1), of "index_from_entry_id eid"] entry_id_index(1) [OF False eid(1)]
      assms(2) eid(2) by (simp add: dir_entry_def)
  with False eid show ?thesis by (simp add: reaches_root_step)
qed simp

text \<open>Entries of which the used mark is not \<open>LAINFS_ENTRY_DIR\<close> carry no tree structure.\<close>

lemma dir_valid_leaf:
  assumes "dir_valid part super d" and "length d = LAINFS_MAX_FILES" and "i < LAINFS_MAX_FILES"
    and "de_used (d ! i) \<noteq> LAINFS_ENTRY_DIR"
    and "entry_valid part super (d[i := e]) e"
    and "de_used e = LAINFS_ENTRY_FILE \<Longrightarrow> file_blocks e \<inter> used_blocks d i = {}"
  shows "dir_valid part super (d[i := e])"
proof (rule dir_valid_update [OF assms(1-3) _ assms(5,6)])
  fix j
  assume "j < LAINFS_MAX_FILES" "de_used (d ! j) \<noteq> 0"
  then have "reaches_root d (entry_parent_id (d ! j))"
    using valid_entry_parent [OF assms(1)] assms(2) by simp
  then show "reaches_root (d[i := e]) (entry_parent_id (d ! j))"
    using assms(4) by (intro reaches_root_update) (simp_all add: dir_entry_def)
qed

lemma find_free_entryD:
  assumes "find_free_entry d = Some i"
  shows "i < LAINFS_MAX_FILES" "de_used (d ! i) = 0"
  using assms by (auto simp: find_free_entry_def find_Some_iff dir_entry_def)

lemma find_entryD:
  assumes "find_entry_in_dir d parent_id name = Some i"
  shows "i < LAINFS_MAX_FILES" "de_used (d ! i) \<noteq> 0" "entry_parent_id (d ! i) = parent_id" "str_eq (de_name (d ! i)) name"
  using assms by (auto simp: find_entry_in_dir_def find_Some_iff dir_entry_def)

subsection \<open>Adding a directory\<close>

lemma new_dir_entry_fields:
  "de_used (new_dir_entry parent_id name) = LAINFS_ENTRY_DIR" "de_start_lba (new_dir_entry parent_id name) = 0"
  "de_byte_size (new_dir_entry parent_id name) = 0"
  "de_name (new_dir_entry parent_id name) = copy_name (replicate 31 0) name"
  by (simp_all add: new_dir_entry_def zero_dirent_def)

lemma new_dir_entry_wf:
  assumes "valid_name name"
  shows "dirent_wf (new_dir_entry parent_id name)" "entry_parent_id (new_dir_entry parent_id name) = parent_id"
proof -
  have "dirent_wf (zero_dirent\<lparr>de_used := LAINFS_ENTRY_DIR, de_name := copy_name (de_name zero_dirent) name\<rparr>)"
    using copy_name_valid(2) [OF assms, of "replicate 31 0"] by (simp add: dirent_wf_def zero_dirent_def)
  then show "dirent_wf (new_dir_entry parent_id name)" "entry_parent_id (new_dir_entry parent_id name) = parent_id"
    by (simp_all add: new_dir_entry_def)
qed

lemma make_dir_valid:
  assumes valid: "dir_valid part super d" and d: "length d = LAINFS_MAX_FILES"
    and free: "find_free_entry d = Some i" and parent: "valid_dir_id d parent_id" and name: "valid_name name"
  shows "dir_valid part super (d[i := new_dir_entry parent_id name])"
proof -
  note i = find_free_entryD [OF free]
  let ?e = "new_dir_entry parent_id name"
  have "reaches_root (d[i := ?e]) parent_id"
    using valid_dir_reaches_root [OF valid d parent] i(2)
    by (intro reaches_root_update) (simp_all add: dir_entry_def)
  then have "entry_valid part super (d[i := ?e]) ?e"
    using copy_name_valid(1) [OF name, of "replicate 31 0"] new_dir_entry_wf [OF name]
    by (simp add: entry_valid_def new_dir_entry_fields)
  then show ?thesis
    using i by (intro dir_valid_leaf [OF valid d i(1)]) (simp_all add: new_dir_entry_fields)
qed

subsection \<open>Deleting an entry\<close>

lemma dir_has_children_iff:
  "dir_has_children d a \<longleftrightarrow> (\<exists>j < LAINFS_MAX_FILES. de_used (d ! j) \<noteq> 0 \<and> entry_parent_id (d ! j) = a)"
  by (auto simp: dir_has_children_def find_None_iff dir_entry_def)

lemma delete_valid:
  assumes valid: "dir_valid part super d" and d: "length d = LAINFS_MAX_FILES" and i: "i < LAINFS_MAX_FILES"
    and no: "de_used (d ! i) = LAINFS_ENTRY_DIR \<Longrightarrow> \<not> dir_has_children d (entry_id i)"
  shows "dir_valid part super (d[i := zero_dirent])"
proof (cases "de_used (d ! i) = LAINFS_ENTRY_DIR")
  case False
  then show ?thesis
    by (intro dir_valid_leaf [OF valid d i]) (simp_all add: entry_valid_def)
next
  case True
  then have no_child: "\<forall>j < LAINFS_MAX_FILES. de_used (dir_entry d j) \<noteq> 0 \<longrightarrow>
      entry_parent_id (dir_entry d j) \<noteq> entry_id_from_index i"
    using no by (auto simp: dir_has_children_iff entry_id_def dir_entry_def)
  show ?thesis
  proof (rule dir_valid_update [OF valid d i])
    fix j
    assume j: "j < LAINFS_MAX_FILES" "de_used (d ! j) \<noteq> 0"
    then have "reaches_root d (entry_parent_id (d ! j))" "entry_parent_id (d ! j) \<noteq> entry_id_from_index i"
      using valid_entry_parent [OF valid, of j] d no_child by (simp_all add: dir_entry_def)
    moreover have "\<not> ancestor_or_self d (entry_parent_id (d ! j)) (entry_id_from_index i)"
      using calculation(2) no_children_ancestor [OF _ no_child] by blast
    ultimately show "reaches_root (d[i := zero_dirent]) (entry_parent_id (d ! j))"
      using root_depth_update unfolding reaches_root_def by blast
  qed (simp_all add: entry_valid_def)
qed

subsection \<open>Renaming and moving an entry\<close>

lemma renamed_entry_fields:
  "de_used (renamed_entry np name e) = de_used e" "de_start_lba (renamed_entry np name e) = de_start_lba e"
  "de_byte_size (renamed_entry np name e) = de_byte_size e"
  "de_name (renamed_entry np name e) = copy_name (de_name e) name"
  by (simp_all add: renamed_entry_def)

lemma name_update_extents [simp]:
  "entry_extents (e\<lparr>de_name := n\<rparr>) = entry_extents e"
proof -
  have "coded_extents (e\<lparr>de_name := n\<rparr>) c = coded_extents e c" for c
    by (simp add: coded_extents_def entry_extent_meta_def entry_extra_extent_start_def entry_extra_extent_blocks_def)
  then show ?thesis
    by (simp add: entry_extents_def Let_def allocated_blocks_for_entry_def entry_extent_meta_def)
qed

lemma renamed_entry_wf:
  assumes "valid_name name" and "dirent_wf e"
  shows "dirent_wf (renamed_entry np name e)" "entry_parent_id (renamed_entry np name e) = np"
    "entry_extents (renamed_entry np name e) = entry_extents e"
proof -
  have "dirent_wf (e\<lparr>de_name := copy_name (de_name e) name\<rparr>)"
    using copy_name_valid(2) [OF assms(1)] assms(2) by (simp add: dirent_wf_def)
  then show "dirent_wf (renamed_entry np name e)" "entry_parent_id (renamed_entry np name e) = np"
    "entry_extents (renamed_entry np name e) = entry_extents e"
    by (simp_all add: renamed_entry_def)
qed

lemma rename_valid:
  assumes valid: "dir_valid part super d" and d: "length d = LAINFS_MAX_FILES" and i: "i < LAINFS_MAX_FILES"
    and wf: "dirent_wf (d ! i)" and used: "de_used (d ! i) \<noteq> 0"
    and np: "valid_dir_id d np" and name: "valid_name name"
    and below: "moves_below_itself d i np = Some False"
  shows "dir_valid part super (d[i := renamed_entry np name (d ! i)])"
proof -
  let ?e = "renamed_entry np name (d ! i)"
  note e = renamed_entry_wf [OF name wf, of np]
  have root: "reaches_root d np" by (rule valid_dir_reaches_root [OF valid d np])
  have tree: "reaches_root (d[i := ?e]) eid" if "reaches_root d eid" for eid
  proof (cases "de_used (d ! i) = LAINFS_ENTRY_DIR")
    case True
    then have "\<not> ancestor_or_self d np (entry_id_from_index i)"
      using below dir_is_descendant_of_iff [OF root, of "entry_id i"]
      by (auto simp: moves_below_itself_def dir_entry_def entry_id_def split: if_splits)
    then show ?thesis
      using reaches_root_move [OF root _ i d _ e(2) that] by (simp add: renamed_entry_fields dir_entry_def)
  next
    case False
    then show ?thesis using that by (intro reaches_root_update) (simp_all add: dir_entry_def)
  qed
  have old: "entry_valid part super d (d ! i)" using valid i d by (simp add: dir_valid_def)
  have blocks: "file_blocks ?e = file_blocks (d ! i)" by (simp add: file_blocks_def e(3))
  have "entry_valid part super (d[i := ?e]) ?e"
    using old used tree [OF root] e copy_name_valid(1) [OF name] wf
    by (auto simp: entry_valid_def renamed_entry_fields file_extents_ok_def dirent_wf_def)
  moreover have "file_blocks ?e \<inter> used_blocks d i = {}" if "de_used ?e = LAINFS_ENTRY_FILE"
    using valid that i d unfolding blocks dir_valid_def files_disjoint_def used_blocks_def
    by (auto simp: renamed_entry_fields)
  ultimately show ?thesis
    using tree valid_entry_parent [OF valid] d by (intro dir_valid_update [OF valid d i]) simp_all
qed

lemma moves_below_itself_returns:
  assumes "reaches_root d np"
  shows "\<exists>b. moves_below_itself d i np = Some b"
  using dir_is_descendant_of_iff [OF assms] by (auto simp: moves_below_itself_def)

subsection \<open>Giving a file its extents\<close>

lemma filled_entry_spec:
  assumes wf: "dirent_wf e" and name: "valid_name name" and sz: "sz \<le> LAINFS_FILE_CAPACITY"
    and req: "req = (if blocks_for_size sz = 0 then 1 else blocks_for_size sz)"
    and xs: "xs \<noteq> []" "length xs \<le> 3" "\<forall>x \<in> set xs. ex_blocks x \<noteq> 0" "total_blocks xs = unat req"
  shows "dirent_wf (filled_entry name sz xs e)" "entry_extents (filled_entry name sz xs e) = Some xs"
    "entry_parent_id (filled_entry name sz xs e) = entry_parent_id e"
proof -
  let ?e = "e\<lparr>de_name := copy_name (de_name e) name, de_byte_size := sz\<rparr>"
  have w: "dirent_wf ?e" using wf copy_name_valid(2) [OF name] by (simp add: dirent_wf_def)
  have a: "allocated_blocks_for_entry ?e = req" by (simp add: allocated_blocks_for_entry_def req Let_def)
  have "unat (allocated_blocks_for_entry ?e) \<le> 8192" using sz by (intro allocated_blocks_bound) simp
  then show "entry_extents (filled_entry name sz xs e) = Some xs"
    unfolding filled_entry_def using xs a by (intro entry_extents_set_entry_extents [OF w]) simp_all
  show "dirent_wf (filled_entry name sz xs e)" "entry_parent_id (filled_entry name sz xs e) = entry_parent_id e"
    using set_entry_extents_wf [OF w xs(1,2)] by (simp_all add: filled_entry_def entry_parent_id_def)
qed

lemma filled_entry_fields:
  "de_used (filled_entry name sz xs e) = de_used e" "de_byte_size (filled_entry name sz xs e) = sz"
  "de_name (filled_entry name sz xs e) = copy_name (de_name e) name"
  by (simp_all add: filled_entry_def set_entry_extents_def Let_def set_entry_extent_meta_def)

lemma save_valid:
  assumes valid: "dir_valid part super d" and d: "length d = LAINFS_MAX_FILES" and i: "i < LAINFS_MAX_FILES"
    and wf: "dirent_wf e" and old: "de_used (d ! i) \<noteq> LAINFS_ENTRY_DIR" and used: "de_used e = LAINFS_ENTRY_FILE"
    and parent: "reaches_root d (entry_parent_id e)"
    and name: "valid_name name" and sz: "sz \<le> LAINFS_FILE_CAPACITY"
    and req: "req = (if blocks_for_size sz = 0 then 1 else blocks_for_size sz)"
    and xs: "xs \<noteq> []" "total_blocks xs = unat req" "alloc_ok part super d i xs"
  shows "dir_valid part super (d[i := filled_entry name sz xs e])"
proof -
  have x: "length xs \<le> 3" "\<forall>x \<in> set xs. ex_blocks x \<noteq> 0" "\<forall>x \<in> set xs. extent_ok part super x"
    "disjoint_extents xs" "(\<Union>x \<in> set xs. extent_blocks x) \<inter> used_blocks d i = {}"
    using xs(3) by (auto simp: alloc_ok_def extent_ok_def)
  let ?e = "filled_entry name sz xs e"
  note spec = filled_entry_spec [OF wf name sz req xs(1) x(1,2) xs(2)]
  have "reaches_root (d[i := ?e]) (entry_parent_id e)"
    using parent old by (intro reaches_root_update) (simp_all add: dir_entry_def)
  then have "entry_valid part super (d[i := ?e]) ?e"
    using spec used copy_name_valid(1) [OF name] wf sz x(3,4)
    by (simp add: entry_valid_def filled_entry_fields file_extents_ok_def dirent_wf_def)
  then show ?thesis
    using old x(5) spec(2) by (intro dir_valid_leaf [OF valid d i]) (simp_all add: file_blocks_def)
qed

text \<open>The allocator does not look at the entry it is told to ignore.\<close>

lemma free_scan_ignore: "free_scan (d[i := e]) start blocks i is = free_scan d start blocks i is"
  by (induction d start blocks i "is" rule: free_scan.induct) (auto simp: dir_entry_update split: option.splits)

lemma find_free_extents_ignore:
  "find_free_extents part super (d[i := e]) blocks i = find_free_extents part super d blocks i"
proof -
  have "block_free super (d[i := e]) i = block_free super d i"
    by (intro ext) (simp add: block_free_def extent_is_free_def free_scan_ignore)
  then show ?thesis by (simp add: find_free_extents_def split: option.splits)
qed

subsection \<open>The slot of a file\<close>

lemma new_file_entry_fields:
  "dirent_wf (new_file_entry parent_id)" "de_used (new_file_entry parent_id) = LAINFS_ENTRY_FILE"
  "entry_parent_id (new_file_entry parent_id) = parent_id"
proof -
  have "dirent_wf (zero_dirent\<lparr>de_used := LAINFS_ENTRY_FILE\<rparr>)" by (simp add: dirent_wf_def zero_dirent_def)
  then show "dirent_wf (new_file_entry parent_id)" "entry_parent_id (new_file_entry parent_id) = parent_id"
    by (simp_all add: new_file_entry_def)
  show "de_used (new_file_entry parent_id) = LAINFS_ENTRY_FILE" by (simp add: new_file_entry_def)
qed

lemma file_slotD:
  assumes slot: "file_slot parent_id name d = Some (i, d')" and d: "length d = LAINFS_MAX_FILES"
    and wf: "\<forall>e \<in> set d. dirent_wf e" and valid: "dir_valid part super d"
    and notdir: "case find_entry_in_dir d parent_id name of
        Some i \<Rightarrow> de_used (dir_entry d i) \<noteq> LAINFS_ENTRY_DIR | None \<Rightarrow> True"
  shows "i < LAINFS_MAX_FILES" "de_used (d ! i) \<noteq> LAINFS_ENTRY_DIR" "d' = d[i := dir_entry d' i]"
    "dirent_wf (dir_entry d' i)" "de_used (dir_entry d' i) = LAINFS_ENTRY_FILE" "entry_parent_id (dir_entry d' i) = parent_id"
proof -
  consider (old) "find_entry_in_dir d parent_id name = Some i" "d' = d"
    | (new) "find_entry_in_dir d parent_id name = None" "find_free_entry d = Some i" "d' = d[i := new_file_entry parent_id]"
    using slot by (auto simp: file_slot_def find_free_entry_def split: option.splits)
  then have "i < LAINFS_MAX_FILES \<and> de_used (d ! i) \<noteq> LAINFS_ENTRY_DIR \<and> d' = d[i := dir_entry d' i] \<and>
    dirent_wf (dir_entry d' i) \<and> de_used (dir_entry d' i) = LAINFS_ENTRY_FILE \<and> entry_parent_id (dir_entry d' i) = parent_id"
  proof cases
    case old
    note i = find_entryD [OF old(1)]
    have "entry_valid part super d (d ! i)" using valid i(1) d by (simp add: dir_valid_def)
    with old i notdir wf d show ?thesis
      by (auto simp: entry_valid_def dir_entry_def)
  next
    case new
    note i = find_free_entryD [OF new(2)]
    with new d show ?thesis by (simp add: dir_entry_def new_file_entry_fields)
  qed
  then show "i < LAINFS_MAX_FILES" "de_used (d ! i) \<noteq> LAINFS_ENTRY_DIR" "d' = d[i := dir_entry d' i]"
    "dirent_wf (dir_entry d' i)" "de_used (dir_entry d' i) = LAINFS_ENTRY_FILE" "entry_parent_id (dir_entry d' i) = parent_id"
    by auto
qed

end
