(* ===== verification/Lainfs_Spec.thy ===== *)
theory Lainfs_Spec
  imports Lainfs_Dircache Lainfs_Dirops
begin

text \<open>
  The public directory operations refine pure functions on the directory. \<open>ready\<close> is the state in
  which a drive is used: the lock is free, the caches are coherent, and the drive is mounted on a
  partition with a valid file system. In such a state every operation returns, releases the lock,
  gives the status and the directory of its specification, leaves the directories of the other
  partitions and all data blocks alone, and the state is ready again.
\<close>

subsection \<open>Specifications\<close>

definition make_dir_spec :: "u32 \<Rightarrow> bytes \<Rightarrow> directory \<Rightarrow> int \<times> directory" where
  "make_dir_spec parent_id name d =
     (if \<not> valid_name name then (-2, d)
      else if \<not> valid_dir_id d parent_id then (-7, d)
      else if find_entry_in_dir d parent_id name \<noteq> None then (-6, d)
      else case find_free_entry d of
        None \<Rightarrow> (-5, d)
      | Some i \<Rightarrow> (0, d[i := new_dir_entry parent_id name]))"

definition delete_spec :: "u32 \<Rightarrow> bytes \<Rightarrow> directory \<Rightarrow> int \<times> directory" where
  "delete_spec parent_id name d =
     (if \<not> valid_name name then (-2, d)
      else if \<not> valid_dir_id d parent_id then (-7, d)
      else case find_entry_in_dir d parent_id name of
        None \<Rightarrow> (-5, d)
      | Some i \<Rightarrow>
          if de_used (d ! i) = LAINFS_ENTRY_DIR \<and>
             (\<exists>j < LAINFS_MAX_FILES. de_used (d ! j) \<noteq> 0 \<and> entry_parent_id (d ! j) = entry_id_from_index i)
          then (-9, d) else (0, d[i := zero_dirent]))"

definition rename_spec :: "u32 \<Rightarrow> bytes \<Rightarrow> u32 \<Rightarrow> bytes \<Rightarrow> directory \<Rightarrow> int \<times> directory" where
  "rename_spec old_parent_id old_name new_parent_id new_name d =
     (if \<not> valid_name old_name \<or> \<not> valid_name new_name then (-2, d)
      else if \<not> valid_dir_id d old_parent_id \<or> \<not> valid_dir_id d new_parent_id then (-7, d)
      else case find_entry_in_dir d old_parent_id old_name of
        None \<Rightarrow> (-5, d)
      | Some i \<Rightarrow>
          if de_used (d ! i) = LAINFS_ENTRY_DIR \<and> ancestor_or_self d new_parent_id (entry_id_from_index i) then (-8, d)
          else if find_entry_in_dir d new_parent_id new_name \<noteq> None then (-6, d)
          else (0, d[i := renamed_entry new_parent_id new_name (d ! i)]))"

definition driver_ready ::
  "'h block_read_t \<Rightarrow> 'h block_write_t \<Rightarrow> nat \<Rightarrow> nat \<Rightarrow> ('h \<Rightarrow> nat \<Rightarrow> bytes) \<Rightarrow> ('h \<Rightarrow> bool) \<Rightarrow>
   u8 \<Rightarrow> nat \<Rightarrow> 'h lainfs \<Rightarrow> bool" where
  "driver_ready rd wr ctx cap blk ok drive p l \<longleftrightarrow>
     lainfs_global_lock l = 0 \<and> driver_lainfs_inv rd wr ctx cap blk ok l \<and>
     (case mount_for_drive drive l of None \<Rightarrow> False | Some m \<Rightarrow> mt_partition_index m = p) \<and>
     driver_fs_ok rd wr ctx cap blk ok p (store l) \<and>
     dir_valid (partitions (store l) ! p) (disk_super blk p (store l)) (fs_dir blk l p)"

text \<open>
  \<open>fs_changed p d l l'\<close>: between the two states the file system of partition \<open>p\<close> has got the
  directory \<open>d\<close>, and nothing else that any of the file systems holds has changed.
\<close>

definition driver_fs_changed ::
  "'h block_read_t \<Rightarrow> 'h block_write_t \<Rightarrow> nat \<Rightarrow> nat \<Rightarrow> ('h \<Rightarrow> nat \<Rightarrow> bytes) \<Rightarrow> ('h \<Rightarrow> bool) \<Rightarrow>
   nat \<Rightarrow> directory \<Rightarrow> 'h lainfs \<Rightarrow> 'h lainfs \<Rightarrow> bool" where
  "driver_fs_changed rd wr ctx cap blk ok p d l l' \<longleftrightarrow>
     (\<exists>h. store l' = (store l)\<lparr>disk := h\<rparr>) \<and>
     (\<forall>q. driver_fs_ok rd wr ctx cap blk ok q (store l) \<longrightarrow>
        driver_fs_ok rd wr ctx cap blk ok q (store l') \<and>
        disk_super blk q (store l') = disk_super blk q (store l) \<and>
        fs_dir blk l' q = (if q = p then d else fs_dir blk l q)) \<and>
     (\<forall>q lba. driver_data_lba rd wr ctx cap blk ok q lba (store l) \<longrightarrow> lview blk l' q lba = lview blk l q lba)"

context block_driver
begin

abbreviation "ready \<equiv> driver_ready rd wr ctx cap blk ok"
abbreviation "fs_changed \<equiv> driver_fs_changed rd wr ctx cap blk ok"

lemma readyD:
  assumes "ready drive p l"
  obtains m where "mount_for_drive drive l = Some m" "mt_partition_index m = p" "lainfs_global_lock l = 0"
    "lainfs_inv l" "fs_ok p (store l)" "dir_valid (partitions (store l) ! p) (disk_super blk p (store l)) (fs_dir blk l p)"
  using assms by (auto simp: driver_ready_def split: option.splits)

lemma fs_dir_lock [simp]: "fs_dir blk (l\<lparr>lainfs_global_lock := x\<rparr>) q = fs_dir blk l q"
  by (simp add: fs_dir_def)

lemma lview_lock [simp]: "lview blk (l\<lparr>lainfs_global_lock := x\<rparr>) q lba = lview blk l q lba"
  by (simp add: lview_def cong: option.case_cong)

lemma lainfs_inv_lock [simp]: "lainfs_inv (l\<lparr>lainfs_global_lock := x\<rparr>) = lainfs_inv l"
  by (simp add: driver_lainfs_inv_def driver_cache_inv_def)

lemma fs_changed_lock [simp]:
  "fs_changed p d (l\<lparr>lainfs_global_lock := x\<rparr>) l' = fs_changed p d l l'"
  "fs_changed p d l (l'\<lparr>lainfs_global_lock := x\<rparr>) = fs_changed p d l l'"
  by (simp_all add: driver_fs_changed_def)

lemma fs_same_changed: "fs_same l l' \<Longrightarrow> d = fs_dir blk l p \<Longrightarrow> fs_changed p d l l'"
  by (auto simp: fs_same_def driver_fs_changed_def lview_same_def)

text \<open>Entering an operation: lock, superblock, directory.\<close>

lemma enter:
  assumes "ready drive p l"
  obtains m l2 where "mount_for_drive drive l = Some m" "mt_partition_index m = p"
    "lainfs_lock l = Some (l\<lparr>lainfs_global_lock := 1\<rparr>)"
    "\<And>e1 e2. open_directory e1 e2 p (l\<lparr>lainfs_global_lock := 1\<rparr>) = Inr (disk_super blk p (store l), l2)"
    "lainfs_inv l2" "fs_changed p (fs_dir blk l p) l l2" "fs_ok p (store l2)"
    "directory_cache_valid l2" "directory_cache_partition l2 = p" "directory l2 = fs_dir blk l p"
    "partitions (store l2) = partitions (store l)" "disk_super blk p (store l2) = disk_super blk p (store l)"
proof -
  obtain m where m: "mount_for_drive drive l = Some m" "mt_partition_index m = p" "lainfs_global_lock l = 0"
    "lainfs_inv l" "fs_ok p (store l)" "dir_valid (partitions (store l) ! p) (disk_super blk p (store l)) (fs_dir blk l p)"
    by (rule readyD [OF assms]) (rule that)
  let ?l = "l\<lparr>lainfs_global_lock := 1\<rparr>"
  obtain l2 where l2: "open_directory 0 0 p ?l = Inr (disk_super blk p (store ?l), l2)" "lainfs_inv l2" "fs_same ?l l2"
    "directory_cache_valid l2" "directory_cache_partition l2 = p" "directory l2 = fs_dir blk ?l p"
    using m by (rule_tac open_directory_ok [of ?l p]) auto
  have "open_directory e1 e2 p ?l = Inr (disk_super blk p (store l), l2)" for e1 e2
    using l2(1) by (auto simp: open_directory_def Let_def split: prod.splits if_splits)
  moreover have "fs_changed p (fs_dir blk l p) l l2" using fs_same_changed [OF l2(3)] by simp
  ultimately show ?thesis
    using m l2 fs_sameD(1,2) [OF l2(3), of p] fs_sameD(4) [OF l2(3)] by (intro that [of m l2]) (auto simp: lainfs_lock_def)
qed

text \<open>Leaving an operation with a directory that is valid.\<close>

lemma mount_for_drive_cong: "mounts (store l') = mounts (store l) \<Longrightarrow> mount_for_drive drive l' = mount_for_drive drive l"
  by (simp add: mount_for_drive_def storage_get_mount_by_drive_def Let_def)

lemma leave:
  assumes "ready drive p l" and "lainfs_inv l'" and "fs_changed p d l l'"
    and "dir_valid (partitions (store l) ! p) (disk_super blk p (store l)) d"
  shows "ready drive p (lainfs_unlock l')" "fs_changed p d l (lainfs_unlock l')"
proof -
  have m: "fs_ok p (store l)" "case mount_for_drive drive l of None \<Rightarrow> False | Some m \<Rightarrow> mt_partition_index m = p"
    using assms(1) by (simp_all add: driver_ready_def)
  obtain h where h: "store l' = (store l)\<lparr>disk := h\<rparr>" using assms(3) by (auto simp: driver_fs_changed_def)
  have "fs_ok p (store l')" "disk_super blk p (store l') = disk_super blk p (store l)" "fs_dir blk l' p = d"
    using assms(3) m(1) by (simp_all add: driver_fs_changed_def)
  moreover have "mount_for_drive drive (lainfs_unlock l') = mount_for_drive drive l"
    by (rule mount_for_drive_cong) (simp add: lainfs_unlock_def h)
  ultimately show "ready drive p (lainfs_unlock l')"
    using assms m h by (simp add: driver_ready_def lainfs_unlock_def)
  show "fs_changed p d l (lainfs_unlock l')" using assms(3) by (simp add: lainfs_unlock_def)
qed

text \<open>Replacing the cached directory and marking it dirty.\<close>

lemma save_directory_changed:
  assumes "lainfs_inv l2" and "fs_changed p d0 l l2" and "fs_ok p (store l2)" and "dir_wf d"
    and c: "directory_cache_valid l2" "directory_cache_partition l2 = p"
  obtains l' where "save_directory p (l2\<lparr>directory := d\<rparr>) = (0, l')" "lainfs_inv l'" "fs_changed p d l l'"
proof -
  define l' where "l' = snd (save_directory p (l2\<lparr>directory := d\<rparr>))"
  have l': "store l' = store l2" "data_cache l' = data_cache l2" "directory l' = d" "directory_cache_valid l'"
    "directory_cache_dirty l'" "directory_cache_partition l' = p" "super_cache l' = super_cache l2"
    "super_cache_valid l' = super_cache_valid l2" "super_cache_partition l' = super_cache_partition l2"
    by (simp_all add: l'_def save_directory_def)
  have r: "save_directory p (l2\<lparr>directory := d\<rparr>) = (0, l')" by (simp add: save_directory_def l'_def)
  have i: "lainfs_inv l'"
    using assms(1,3,4) l' by (simp add: driver_lainfs_inv_def driver_cache_inv_def)
  have "fs_dir blk l' q = (if q = p then d else fs_dir blk l2 q)" for q
    using l' c by (simp add: fs_dir_def)
  moreover have "lview blk l' q lba = lview blk l2 q lba" for q lba
    using l' by (simp add: lview_def cong: option.case_cong)
  ultimately have "fs_changed p d l l'"
    using assms(2) l'(1) unfolding driver_fs_changed_def by simp
  with r i show ?thesis by (rule that)
qed

subsection \<open>The directory operations\<close>

lemma dir_wf_update: "dir_wf d \<Longrightarrow> dirent_wf e \<Longrightarrow> dir_wf (d[i := e])"
  unfolding dir_wf_def using set_update_subset_insert [of d i e] by auto

text \<open>
  The common frame: an operation that leaves with status \<open>st\<close> and directory \<open>d\<close>. \<open>keep\<close> is a
  return path that has not changed the directory, \<open>commit\<close> the one that stores a new one.
\<close>

definition refines :: "u8 \<Rightarrow> nat \<Rightarrow> 'h lainfs \<Rightarrow> int \<times> directory \<Rightarrow> (int \<times> 'h lainfs) option \<Rightarrow> bool" where
  "refines drive p l spec res \<longleftrightarrow>
     (\<exists>l'. res = Some (fst spec, l') \<and> ready drive p l' \<and> fs_changed p (snd spec) l l')"

lemma refinesI: "ready drive p l' \<Longrightarrow> fs_changed p d l l' \<Longrightarrow> refines drive p l (st, d) (Some (st, l'))"
  by (simp add: refines_def)

lemma refines_unchanged: "ready drive p l \<Longrightarrow> refines drive p l (st, fs_dir blk l p) (Some (st, l))"
  by (intro refinesI fs_same_changed) simp_all

lemma keep:
  assumes "ready drive p l" and "lainfs_inv l2" and "fs_changed p (fs_dir blk l p) l l2"
  shows "refines drive p l (st, fs_dir blk l p) (Some (st, lainfs_unlock l2))"
proof -
  have "dir_valid (partitions (store l) ! p) (disk_super blk p (store l)) (fs_dir blk l p)"
    using assms(1) by (simp add: driver_ready_def)
  then show ?thesis using leave [OF assms] by (intro refinesI)
qed

lemma commit:
  assumes "ready drive p l" and "lainfs_inv l2" and "fs_changed p d0 l l2" and "fs_ok p (store l2)"
    and "directory_cache_valid l2" and "directory_cache_partition l2 = p" and "dir_wf d"
    and "dir_valid (partitions (store l) ! p) (disk_super blk p (store l)) d"
  shows "refines drive p l (0, d)
    (let (st, l4) = save_directory p (l2\<lparr>directory := d\<rparr>)
     in if st \<noteq> 0 then Some (e, lainfs_unlock l4) else Some (0, lainfs_unlock l4))"
proof -
  obtain l4 where l4: "save_directory p (l2\<lparr>directory := d\<rparr>) = (0, l4)" "lainfs_inv l4" "fs_changed p d l l4"
    by (rule save_directory_changed [OF assms(2-4,7,5,6)]) (rule that)
  show ?thesis
    using leave [OF assms(1) l4(2,3) assms(8)] l4(1) by (simp add: refinesI)
qed

lemma ready_dir:
  assumes "ready drive p l"
  shows "dir_valid (partitions (store l) ! p) (disk_super blk p (store l)) (fs_dir blk l p)" "dir_wf (fs_dir blk l p)"
proof -
  show "dir_valid (partitions (store l) ! p) (disk_super blk p (store l)) (fs_dir blk l p)"
    using assms by (simp add: driver_ready_def)
  obtain l2 where "lainfs_inv l2" "directory l2 = fs_dir blk l p" by (rule enter [OF assms]) (rule that)
  then show "dir_wf (fs_dir blk l p)" using lainfs_invD(2) by fastforce
qed

lemma make_dir_refines:
  assumes "ready drive p l"
  shows "refines drive p l (make_dir_spec parent_id name (fs_dir blk l p)) (lainfs_make_dir_in_dir drive parent_id name l)"
proof -
  obtain m l2 where E: "mount_for_drive drive l = Some m" "mt_partition_index m = p"
    "lainfs_lock l = Some (l\<lparr>lainfs_global_lock := 1\<rparr>)"
    "\<And>e1 e2. open_directory e1 e2 p (l\<lparr>lainfs_global_lock := 1\<rparr>) = Inr (disk_super blk p (store l), l2)"
    "lainfs_inv l2" "fs_changed p (fs_dir blk l p) l l2" "fs_ok p (store l2)"
    "directory_cache_valid l2" "directory_cache_partition l2 = p" "directory l2 = fs_dir blk l p"
    by (rule enter [OF assms]) (rule that)
  note R = ready_dir [OF assms] and k = keep [OF assms E(5,6)]
  show ?thesis
  proof (cases "find_free_entry (fs_dir blk l p)")
    case None
    then show ?thesis
      using E k refines_unchanged [OF assms]
      by (simp add: make_dir_spec_def lainfs_make_dir_in_dir_def)
  next
    case (Some i)
    have "refines drive p l (0, (fs_dir blk l p)[i := new_dir_entry parent_id name])
      (let (st, l4) = save_directory p (l2\<lparr>directory := (fs_dir blk l p)[i := new_dir_entry parent_id name]\<rparr>)
       in if st \<noteq> 0 then Some (-7, lainfs_unlock l4) else Some (0, lainfs_unlock l4))"
      if "valid_name name" "valid_dir_id (fs_dir blk l p) parent_id"
      using that R Some new_dir_entry_wf(1) [OF that(1)]
      by (intro commit [OF assms E(5-9)] dir_wf_update make_dir_valid) (auto simp: dir_wf_def)
    then show ?thesis
      using Some E k refines_unchanged [OF assms]
      by (simp add: make_dir_spec_def lainfs_make_dir_in_dir_def Let_def)
  qed
qed

lemma delete_refines:
  assumes "ready drive p l"
  shows "refines drive p l (delete_spec parent_id name (fs_dir blk l p)) (lainfs_delete_in_dir drive parent_id name l)"
proof -
  obtain m l2 where E: "mount_for_drive drive l = Some m" "mt_partition_index m = p"
    "lainfs_lock l = Some (l\<lparr>lainfs_global_lock := 1\<rparr>)"
    "\<And>e1 e2. open_directory e1 e2 p (l\<lparr>lainfs_global_lock := 1\<rparr>) = Inr (disk_super blk p (store l), l2)"
    "lainfs_inv l2" "fs_changed p (fs_dir blk l p) l l2" "fs_ok p (store l2)"
    "directory_cache_valid l2" "directory_cache_partition l2 = p" "directory l2 = fs_dir blk l p"
    by (rule enter [OF assms]) (rule that)
  note R = ready_dir [OF assms] and k = keep [OF assms E(5,6)]
  show ?thesis
  proof (cases "find_entry_in_dir (fs_dir blk l p) parent_id name")
    case None
    then show ?thesis
      using E k refines_unchanged [OF assms] by (simp add: delete_spec_def lainfs_delete_in_dir_def)
  next
    case (Some i)
    let ?d = "fs_dir blk l p"
    have "refines drive p l (0, ?d[i := zero_dirent])
      (let (st, l4) = save_directory p (l2\<lparr>directory := ?d[i := zero_dirent]\<rparr>)
       in if st \<noteq> 0 then Some (-6, lainfs_unlock l4) else Some (0, lainfs_unlock l4))"
      if "\<not> (de_used (?d ! i) = LAINFS_ENTRY_DIR \<and> dir_has_children ?d (entry_id i))"
      using that R find_entryD(1) [OF Some]
      by (intro commit [OF assms E(5-9)] dir_wf_update delete_valid) (auto simp: dir_wf_def)
    moreover have "dir_has_children ?d (entry_id i) \<longleftrightarrow>
        (\<exists>j < LAINFS_MAX_FILES. de_used (?d ! j) \<noteq> 0 \<and> entry_parent_id (?d ! j) = entry_id_from_index i)"
      by (simp add: dir_has_children_iff entry_id_def)
    ultimately show ?thesis
      using Some E k refines_unchanged [OF assms]
      by (auto simp: delete_spec_def lainfs_delete_in_dir_def Let_def dir_entry_def)
  qed
qed

lemma rename_refines:
  assumes "ready drive p l"
  shows "refines drive p l (rename_spec old_parent_id old_name new_parent_id new_name (fs_dir blk l p))
    (lainfs_rename_in_dir drive old_parent_id old_name new_parent_id new_name l)"
proof -
  obtain m l2 where E: "mount_for_drive drive l = Some m" "mt_partition_index m = p"
    "lainfs_lock l = Some (l\<lparr>lainfs_global_lock := 1\<rparr>)"
    "\<And>e1 e2. open_directory e1 e2 p (l\<lparr>lainfs_global_lock := 1\<rparr>) = Inr (disk_super blk p (store l), l2)"
    "lainfs_inv l2" "fs_changed p (fs_dir blk l p) l l2" "fs_ok p (store l2)"
    "directory_cache_valid l2" "directory_cache_partition l2 = p" "directory l2 = fs_dir blk l p"
    by (rule enter [OF assms]) (rule that)
  note R = ready_dir [OF assms] and k = keep [OF assms E(5,6)]
  let ?d = "fs_dir blk l p"
  consider (early) "\<not> valid_name old_name \<or> \<not> valid_name new_name \<or> \<not> valid_dir_id ?d old_parent_id \<or>
      \<not> valid_dir_id ?d new_parent_id \<or> find_entry_in_dir ?d old_parent_id old_name = None"
    | (found) i where "valid_name old_name" "valid_name new_name" "valid_dir_id ?d old_parent_id"
      "valid_dir_id ?d new_parent_id" "find_entry_in_dir ?d old_parent_id old_name = Some i"
    by fastforce
  then show ?thesis
  proof cases
    case early
    then show ?thesis
      using E k refines_unchanged [OF assms] by (auto simp: rename_spec_def lainfs_rename_in_dir_def)
  next
    case (found i)
    note i = find_entryD [OF found(5)]
    have root: "reaches_root ?d new_parent_id"
      using valid_dir_reaches_root [OF R(1) _ found(4)] R(2) by (simp add: dir_wf_def)
    let ?below = "de_used (?d ! i) = LAINFS_ENTRY_DIR \<and> ancestor_or_self ?d new_parent_id (entry_id_from_index i)"
    have below: "moves_below_itself ?d i new_parent_id = Some ?below"
      using dir_is_descendant_of_iff [OF root, of "entry_id_from_index i"] ancestor_or_self.self [of ?d "entry_id_from_index i"]
      by (auto simp: moves_below_itself_def dir_entry_def entry_id_def)
    let ?e = "renamed_entry new_parent_id new_name (?d ! i)"
    have "refines drive p l (0, ?d[i := ?e])
      (let (st, l4) = save_directory p (l2\<lparr>directory := ?d[i := ?e]\<rparr>)
       in if st \<noteq> 0 then Some (-7, lainfs_unlock l4) else Some (0, lainfs_unlock l4))"
      if "\<not> ?below"
      using that R i found(2,4) below renamed_entry_wf(1) [OF found(2)]
      by (intro commit [OF assms E(5-9)] dir_wf_update rename_valid) (auto simp: dir_wf_def)
    then show ?thesis
      using found E k below
      by (simp add: rename_spec_def lainfs_rename_in_dir_def Let_def dir_entry_def)
  qed
qed

end

end
