(* ===== verification/Lainfs_File_Spec.thy ===== *)
theory Lainfs_File_Spec
  imports Lainfs_Spec
begin

text \<open>
  Saving and loading files through the caches. The blocks of a file are written to the blocks of
  its new extents and nowhere else; loading returns the contents of the blocks of the entry's
  extents, cut to the file's size. Together they give the round trip: what was saved is loaded, and
  no other file changes.
\<close>

subsection \<open>The blocks of a list of extents\<close>

lemma length_extent_lbas: "length (extent_lbas xs) = total_blocks xs"
  by (induction xs) (simp_all add: extent_lbas_def)

lemma extent_lba:
  assumes "extent_ok part super x" and "unat (pt_block_count part) < 2 ^ 32" and "b < unat (ex_blocks x)"
  shows "unat (ex_start_lba x + word_of_nat b) = unat (ex_start_lba x) + b"
  using assms by (simp add: extent_ok_def unat_word_ariths unat_of_nat_32)

lemma set_extent_lbas:
  assumes "\<forall>x \<in> set xs. extent_ok part super x" and "unat (pt_block_count part) < 2 ^ 32"
  shows "unat ` set (extent_lbas xs) = (\<Union>x \<in> set xs. extent_blocks x)"
proof -
  have "unat ` (\<lambda>b. ex_start_lba x + word_of_nat b) ` {0..<unat (ex_blocks x)} = extent_blocks x" if "x \<in> set xs" for x
  proof -
    have "(\<lambda>b. unat (ex_start_lba x + word_of_nat b)) ` {0..<unat (ex_blocks x)} =
        (\<lambda>b. unat (ex_start_lba x) + b) ` {0..<unat (ex_blocks x)}"
      using that assms extent_lba by (intro image_cong) auto
    then show ?thesis by (simp add: image_image extent_blocks_def image_add_atLeastLessThan add.commute)
  qed
  then show ?thesis by (simp add: extent_lbas_def image_UN)
qed

lemma extent_lbas_data:
  assumes "\<forall>x \<in> set xs. extent_ok part super x" and "unat (pt_block_count part) < 2 ^ 32" and "lba \<in> set (extent_lbas xs)"
  shows "sb_data_start_lba super \<le> lba" "unat lba < unat (pt_block_count part)"
proof -
  have "unat lba \<in> (\<Union>x \<in> set xs. extent_blocks x)" using set_extent_lbas [OF assms(1,2)] assms(3) by blast
  then obtain x where "x \<in> set xs" "unat lba \<in> extent_blocks x" by blast
  with assms(1) show "sb_data_start_lba super \<le> lba" "unat lba < unat (pt_block_count part)"
    by (auto simp: extent_ok_def extent_blocks_def word_le_nat_alt)
qed

lemma distinct_extent_lbas:
  assumes "\<forall>x \<in> set xs. extent_ok part super x" and "unat (pt_block_count part) < 2 ^ 32" and "disjoint_extents xs"
  shows "distinct (extent_lbas xs)"
  using assms(1,3)
proof (induction xs)
  case Nil
  then show ?case by (simp add: extent_lbas_def)
next
  case (Cons x xs)
  let ?b = "map (\<lambda>b. ex_start_lba x + word_of_nat b) [0..<unat (ex_blocks x)]"
  have "distinct ?b"
    using extent_lba [OF _ assms(2)] Cons.prems(1) by (auto simp: distinct_map inj_on_def word_unat_eq_iff)
  moreover have "set ?b \<inter> set (extent_lbas xs) = {}"
  proof -
    have "unat ` set ?b = extent_blocks x"
      using set_extent_lbas [of "[x]" part super] assms(2) Cons.prems(1) by (simp add: extent_lbas_def)
    moreover have "unat ` set (extent_lbas xs) = (\<Union>y \<in> set xs. extent_blocks y)"
      using Cons.prems(1) by (intro set_extent_lbas [where super = super, OF _ assms(2)]) simp
    moreover have "extent_blocks x \<inter> (\<Union>y \<in> set xs. extent_blocks y) = {}"
      using Cons.prems(2) by (auto simp: disjoint_extents_def)
    ultimately show ?thesis by blast
  qed
  moreover have "distinct (extent_lbas xs)" using Cons by (simp add: disjoint_extents_def)
  ultimately show ?case by (simp add: extent_lbas_def)
qed

subsection \<open>What is written into one block\<close>

definition file_block :: "bytes \<Rightarrow> nat \<Rightarrow> nat \<Rightarrow> bytes" where
  "file_block buffer sz k =
     overwrite 0 (slice (k * LAINFS_BLOCK_SIZE) (min LAINFS_BLOCK_SIZE (sz - k * LAINFS_BLOCK_SIZE)) buffer)
       (replicate LAINFS_BLOCK_SIZE 0)"

lemma block_base: "k < 8192 \<Longrightarrow> unat (word_of_nat k * 512 :: u32) = k * 512"
  by (simp add: unat_word_ariths unat_of_nat_32)

lemma unat_bytes_in_block:
  assumes "k < 8192"
  shows "unat (bytes_in_block sz (word_of_nat k * 512)) = min 512 (unat sz - k * 512)"
proof -
  note b = block_base [OF assms]
  have "unat (sz - word_of_nat k * 512) = unat sz - k * 512" if "word_of_nat k * 512 < sz"
    using that b by (simp add: unat_sub less_imp_le)
  then show ?thesis
    using b by (auto simp: bytes_in_block_def Let_def word_less_nat_alt not_less min_def)
qed

lemma file_block_bytes:
  assumes "sz \<le> length buffer"
  shows "length (file_block buffer sz k) = 512"
    and "j < 512 \<Longrightarrow> k * 512 + j < sz \<Longrightarrow> file_block buffer sz k ! j = buffer ! (k * 512 + j)"
proof -
  let ?n = "min 512 (sz - k * 512)"
  show "length (file_block buffer sz k) = 512"
    using assms by (simp add: file_block_def length_slice)
  assume j: "j < 512" "k * 512 + j < sz"
  then have n: "j < ?n" "k * 512 + ?n \<le> length buffer" using assms by auto
  then have "length (slice (k * 512) ?n buffer) = ?n" by simp
  with n j show "file_block buffer sz k ! j = buffer ! (k * 512 + j)"
    by (simp add: file_block_def nth_overwrite nth_slice)
qed

text \<open>The contents of a file: the blocks of its extents, cut to its size.\<close>

definition file_contents :: "('h \<Rightarrow> nat \<Rightarrow> bytes) \<Rightarrow> 'h lainfs \<Rightarrow> nat \<Rightarrow> lainfs_dirent_t \<Rightarrow> bytes" where
  "file_contents blk l p e =
     take (unat (de_byte_size e))
       (concat (map (lview blk l p) (extent_lbas (case entry_extents e of Some xs \<Rightarrow> xs | None \<Rightarrow> []))))"

lemma find_stronger:
  assumes "find P xs = Some x" and "P' x" and "\<And>y. P' y \<Longrightarrow> P y"
  shows "find P' xs = Some x"
  using assms by (induction xs) (auto split: if_splits)

context block_driver
begin

lemma save_blocks_ok:
  assumes "cache_inv l" and "\<forall>lba \<in> set lbas. data_lba p lba (store l)" and "distinct lbas"
    and "k + length lbas \<le> 8192" and "unat sz \<le> length buffer"
  obtains l' where "save_blocks p buffer sz lbas (word_of_nat k) l = (0, l')" "cache_step l l'" "cache_inv l'"
    "\<And>j. j < length lbas \<Longrightarrow> lview blk l' p (lbas ! j) = file_block buffer (unat sz) (k + j)"
    "\<And>q b. data_lba q b (store l) \<Longrightarrow> \<not> (q = p \<and> b \<in> set lbas) \<Longrightarrow> lview blk l' q b = lview blk l q b"
proof -
  have "\<exists>l'. save_blocks p buffer sz lbas (word_of_nat k) l = (0, l') \<and> cache_step l l' \<and> cache_inv l' \<and>
    (\<forall>j < length lbas. lview blk l' p (lbas ! j) = file_block buffer (unat sz) (k + j)) \<and>
    (\<forall>q b. data_lba q b (store l) \<longrightarrow> \<not> (q = p \<and> b \<in> set lbas) \<longrightarrow> lview blk l' q b = lview blk l q b)"
    using assms(1-4)
  proof (induction lbas arbitrary: k l)
    case Nil
    then show ?case by auto
  next
    case (Cons lba lbas)
    let ?sector = "overwrite 0 (slice (unat (word_of_nat k * 512 :: u32)) (unat (bytes_in_block sz (word_of_nat k * 512))) buffer)
      (replicate LAINFS_BLOCK_SIZE 0)"
    have k: "k < 8192" using Cons.prems(4) by simp
    have sector: "?sector = file_block buffer (unat sz) k"
      by (simp add: file_block_def block_base [OF k] unat_bytes_in_block [OF k])
    have len: "length ?sector = 512" unfolding sector by (rule file_block_bytes(1) [OF assms(5)])
    have d: "data_lba p lba (store l)" using Cons.prems(2) by simp
    obtain l1 where l1: "cached_write_block p lba ?sector l = (0, l1)" "cache_step l l1" "cache_inv l1"
      "lview blk l1 p lba = ?sector"
      "\<And>q b. data_lba q b (store l) \<Longrightarrow> (q, b) \<noteq> (p, lba) \<Longrightarrow> lview blk l1 q b = lview blk l q b"
      by (rule cached_write [OF Cons.prems(1) d len]) (rule that)
    have d1: "\<forall>x \<in> set lbas. data_lba p x (store l1)" using Cons.prems(2) cache_step_data_lba [OF l1(2)] by simp
    obtain l' where l': "save_blocks p buffer sz lbas (word_of_nat (k + 1)) l1 = (0, l')" "cache_step l1 l'" "cache_inv l'"
      "\<forall>j < length lbas. lview blk l' p (lbas ! j) = file_block buffer (unat sz) (k + 1 + j)"
      "\<forall>q b. data_lba q b (store l1) \<longrightarrow> \<not> (q = p \<and> b \<in> set lbas) \<longrightarrow> lview blk l' q b = lview blk l1 q b"
      using Cons.IH [OF l1(3) d1, of "k + 1"] Cons.prems(3,4) by auto
    have "save_blocks p buffer sz (lba # lbas) (word_of_nat k) l = (0, l')"
      using l1(1) l'(1) by (simp add: Let_def add.commute)
    moreover have "lview blk l' p lba = file_block buffer (unat sz) k"
      using l'(5) cache_step_data_lba [OF l1(2) d] Cons.prems(3) l1(4) sector by simp
    then have "lview blk l' p ((lba # lbas) ! j) = file_block buffer (unat sz) (k + j)" if "j < length (lba # lbas)" for j
      using that l'(4) by (cases j) auto
    moreover have "lview blk l' q b = lview blk l q b" if "data_lba q b (store l)" "\<not> (q = p \<and> b \<in> set (lba # lbas))" for q b
      using that l'(5) l1(5) cache_step_data_lba [OF l1(2)] by auto
    ultimately show ?case using l'(3) cache_step_trans [OF l1(2) l'(2)] by blast
  qed
  with that show ?thesis by blast
qed

text \<open>
  Loading: byte \<open>i\<close> of the file comes from block \<open>i div 512\<close> of its block list; bytes of the buffer
  beyond the file are not touched.
\<close>

definition loaded :: "'h lainfs \<Rightarrow> nat \<Rightarrow> u32 list \<Rightarrow> nat \<Rightarrow> nat \<Rightarrow> bytes \<Rightarrow> bytes \<Rightarrow> bool" where
  "loaded l p lbas k sz buffer buffer' \<longleftrightarrow>
     length buffer' = length buffer \<and>
     (\<forall>i < length buffer. buffer' ! i =
        (if k * 512 \<le> i \<and> i < min sz ((k + length lbas) * 512)
         then lview blk l p (lbas ! (i div 512 - k)) ! (i mod 512) else buffer ! i))"

lemma loaded_step:
  assumes k: "k < 8192" and sz: "sz \<le> length buffer" and len: "length (lview blk l p lba) = 512"
    and rest: "loaded l p lbas (k + 1) sz (overwrite (k * 512) (slice 0 (min 512 (sz - k * 512)) (lview blk l p lba)) buffer) buffer'"
  shows "loaded l p (lba # lbas) k sz buffer buffer'"
proof -
  let ?n = "min 512 (sz - k * 512)"
  let ?mid = "overwrite (k * 512) (slice 0 ?n (lview blk l p lba)) buffer"
  have sl: "length (slice 0 ?n (lview blk l p lba)) = ?n" using len by simp
  have nth: "slice 0 ?n (lview blk l p lba) ! j = lview blk l p lba ! j" if "j < ?n" for j
    using that by (simp add: slice_def)
  have mid: "length ?mid = length buffer \<and> (\<forall>i < length buffer. ?mid ! i =
      (if k * 512 \<le> i \<and> i < min sz ((k + 1) * 512) then lview blk l p lba ! (i - k * 512) else buffer ! i))"
  proof (cases "k * 512 < sz")
    case True
    then have fits: "k * 512 + length (slice 0 ?n (lview blk l p lba)) \<le> length buffer" using sz sl by linarith
    then show ?thesis using sl by (auto simp: nth_overwrite intro!: nth) linarith+
  next
    case False
    then show ?thesis by (auto simp: slice_def)
  qed
  show ?thesis
    unfolding loaded_def
  proof (intro conjI allI impI)
    show "length buffer' = length buffer" using rest mid by (simp add: loaded_def)
    fix i
    assume i: "i < length buffer"
    consider (own) "k * 512 \<le> i" "i < (k + 1) * 512" | (other) "i < k * 512 \<or> (k + 1) * 512 \<le> i" by linarith
    then show "buffer' ! i = (if k * 512 \<le> i \<and> i < min sz ((k + length (lba # lbas)) * 512)
        then lview blk l p ((lba # lbas) ! (i div 512 - k)) ! (i mod 512) else buffer ! i)"
    proof cases
      case own
      then have "i div 512 = k" by (intro div_nat_eqI) (simp_all add: algebra_simps)
      moreover from this have "i mod 512 = i - k * 512" by (simp add: minus_mult_div_eq_mod [symmetric] mult.commute)
      moreover have "buffer' ! i = ?mid ! i" using rest mid i own by (simp add: loaded_def)
      ultimately show ?thesis using mid i own by simp
    next
      case other
      then have "i div 512 \<noteq> k" by auto
      with other rest mid i show ?thesis
        by (cases "i < k * 512") (auto simp: loaded_def nth_Cons' diff_Suc_eq_diff_pred [symmetric] dest: div_le_mono [of "(k + 1) * 512" _ 512])
    qed
  qed
qed

lemma load_blocks_ok:
  assumes "cache_inv l" and "\<forall>lba \<in> set lbas. data_lba p lba (store l)"
    and "\<forall>lba \<in> set lbas. length (lview blk l p lba) = 512"
    and "k + length lbas \<le> 8192" and "unat sz \<le> length buffer"
  obtains l' buffer' where "load_blocks p sz lbas (word_of_nat k) buffer l = (0, buffer', l')" "cache_step l l'" "cache_inv l'"
    "lview_same l l'" "loaded l p lbas k (unat sz) buffer buffer'"
proof -
  have "\<exists>buffer' l'. load_blocks p sz lbas (word_of_nat k) buffer l = (0, buffer', l') \<and> cache_step l l' \<and> cache_inv l' \<and>
    lview_same l l' \<and> loaded l p lbas k (unat sz) buffer buffer'"
    using assms
  proof (induction lbas arbitrary: k l buffer)
    case Nil
    then show ?case by (auto simp: loaded_def)
  next
    case (Cons lba lbas)
    have k: "k < 8192" using Cons.prems(4) by simp
    have d: "data_lba p lba (store l)" using Cons.prems(2) by simp
    let ?v = "lview blk l p lba"
    let ?buf = "overwrite (k * 512) (slice 0 (min 512 (unat sz - k * 512)) ?v) buffer"
    obtain l1 where l1: "cached_read_block p lba (replicate LAINFS_BLOCK_SIZE 0) l = (0, ?v, l1)" "cache_step l l1" "cache_inv l1"
      "lview_same l l1"
      by (rule cached_read [OF Cons.prems(1) d, of "replicate LAINFS_BLOCK_SIZE 0"]) (simp, rule that)
    have d1: "\<forall>x \<in> set lbas. data_lba p x (store l1)" using Cons.prems(2) cache_step_data_lba [OF l1(2)] by simp
    have v1: "lview blk l1 p x = lview blk l p x" if "x \<in> set lbas" for x
      using that Cons.prems(2) l1(4) by (simp add: lview_same_def)
    then have len1: "\<forall>x \<in> set lbas. length (lview blk l1 p x) = 512" using Cons.prems(3) by simp
    have "length (slice 0 (min 512 (unat sz - k * 512)) ?v) = min 512 (unat sz - k * 512)" using Cons.prems(3) by simp
    then have buf: "unat sz \<le> length ?buf" using Cons.prems(5) by (simp add: overwrite_def min_def)
    obtain buffer' l' where l': "load_blocks p sz lbas (word_of_nat (k + 1)) ?buf l1 = (0, buffer', l')" "cache_step l1 l'"
      "cache_inv l'" "lview_same l1 l'" "loaded l1 p lbas (k + 1) (unat sz) ?buf buffer'"
      using Cons.IH [OF l1(3) d1 len1 _ buf, of "k + 1"] Cons.prems(4) by auto
    have "loaded l p lbas (k + 1) (unat sz) ?buf buffer'"
    proof -
      have "lview blk l1 p (lbas ! (i div 512 - (k + 1))) = lview blk l p (lbas ! (i div 512 - (k + 1)))"
        if "(k + 1) * 512 \<le> i" "i < (k + 1 + length lbas) * 512" for i
        using that by (intro v1 nth_mem) (simp add: less_mult_imp_div_less diff_less_mono2 algebra_simps div_less_iff_less_mult less_diff_conv2 le_div_geq)
      then show ?thesis using l'(5) unfolding loaded_def by simp
    qed
    then have "loaded l p (lba # lbas) k (unat sz) buffer buffer'"
      using loaded_step [OF k Cons.prems(5)] Cons.prems(3) by simp
    moreover have "load_blocks p sz (lba # lbas) (word_of_nat k) buffer l = (0, buffer', l')"
      using l1(1) l'(1) by (simp add: Let_def add.commute block_base [OF k] unat_bytes_in_block [OF k])
    moreover have "lview_same l l'"
      using l1(4) l'(4) cache_step_data_lba [OF l1(2)] by (simp add: lview_same_def)
    ultimately show ?case using l'(3) cache_step_trans [OF l1(2) l'(2)] by blast
  qed
  with that show ?thesis by blast
qed

subsection \<open>Saving a file\<close>

lemma keeps_meta_disk_dir:
  assumes "keeps_meta s h" and "fs_ok q s"
  shows "disk_dir blk q (s\<lparr>disk := h\<rparr>) = disk_dir blk q s"
proof -
  let ?st = "unat (sb_dir_start_lba (disk_super blk q s))"
  have e: "map (pblk q (s\<lparr>disk := h\<rparr>)) [?st..<?st + 256] = map (pblk q s) [?st..<?st + 256]"
    using assms fs_okD(7) [OF assms(2)] by (intro map_cong) (auto simp: keeps_meta_def)
  show ?thesis by (simp only: disk_dir_def Let_def keeps_meta_fs_ok(1) [OF assms] e)
qed

text \<open>The last step of a save: the data blocks are written, the new directory is marked dirty.\<close>

lemma finish_save:
  assumes inv: "lainfs_inv l2" and p: "fs_ok p (store l2)" "directory_cache_valid l2" "directory_cache_partition l2 = p"
    and d: "dir_wf d" and step: "cache_step (l2\<lparr>directory := d\<rparr>) l5" and c: "cache_inv l5"
  obtains l6 where "save_directory p l5 = (0, l6)" "lainfs_inv l6" "\<And>q b. lview blk l6 q b = lview blk l5 q b"
    "\<And>q. fs_ok q (store l2) \<Longrightarrow> fs_ok q (store l6) \<and> disk_super blk q (store l6) = disk_super blk q (store l2) \<and>
      fs_dir blk l6 q = (if q = p then d else fs_dir blk l2 q)"
    "\<exists>h. store l6 = (store l2)\<lparr>disk := h\<rparr>"
proof -
  obtain h where h: "same_caches (l2\<lparr>directory := d\<rparr>) l5" "store l5 = (store l2)\<lparr>disk := h\<rparr>" "keeps_meta (store l2) h"
    using cache_stepE [OF step] by auto
  define l6 where "l6 = snd (save_directory p l5)"
  have l6: "store l6 = store l5" "data_cache l6 = data_cache l5" "directory l6 = d" "directory_cache_valid l6"
    "directory_cache_dirty l6" "directory_cache_partition l6 = p" "super_cache l6 = super_cache l2"
    "super_cache_valid l6 = super_cache_valid l2" "super_cache_partition l6 = super_cache_partition l2"
    using h(1) by (simp_all add: l6_def save_directory_def same_caches_def)
  have F: "fs_ok q (store l6) \<and> disk_super blk q (store l6) = disk_super blk q (store l2) \<and>
      disk_dir blk q (store l6) = disk_dir blk q (store l2)" if "fs_ok q (store l2)" for q
    using keeps_meta_fs_ok [OF h(3) that] keeps_meta_disk_dir [OF h(3) that] by (simp add: l6(1) h(2))
  have "lainfs_inv l6"
    using lainfs_invD [OF inv] F p(1) d c l6 by (simp add: driver_lainfs_inv_def driver_cache_inv_def)
  moreover have "save_directory p l5 = (0, l6)" by (simp add: l6_def save_directory_def)
  moreover have "lview blk l6 q b = lview blk l5 q b" for q b using l6 by (simp add: lview_def cong: option.case_cong)
  moreover have "\<exists>h. store l6 = (store l2)\<lparr>disk := h\<rparr>" using l6(1) h(2) by auto
  moreover have "fs_dir blk l6 q = (if q = p then d else fs_dir blk l2 q)" if "fs_ok q (store l2)" for q
    using F [OF that] l6 p(2,3) by (simp add: fs_dir_def)
  ultimately show ?thesis using F by (intro that [of l6]) simp_all
qed

text \<open>The effect of a successful save on what the file systems hold.\<close>

definition file_saved ::
  "nat \<Rightarrow> directory \<Rightarrow> u32 list \<Rightarrow> bytes \<Rightarrow> nat \<Rightarrow> 'h lainfs \<Rightarrow> 'h lainfs \<Rightarrow> bool" where
  "file_saved p d lbas buffer sz l l' \<longleftrightarrow>
     (\<exists>h. store l' = (store l)\<lparr>disk := h\<rparr>) \<and>
     (\<forall>q. fs_ok q (store l) \<longrightarrow> fs_ok q (store l') \<and> disk_super blk q (store l') = disk_super blk q (store l) \<and>
        fs_dir blk l' q = (if q = p then d else fs_dir blk l q)) \<and>
     (\<forall>j < length lbas. lview blk l' p (lbas ! j) = file_block buffer sz j) \<and>
     (\<forall>q b. data_lba q b (store l) \<longrightarrow> \<not> (q = p \<and> b \<in> set lbas) \<longrightarrow> lview blk l' q b = lview blk l q b)"

lemma ready_saved:
  assumes "ready drive p l" and "lainfs_inv l'" and "file_saved p d lbas buffer sz l l'"
    and "dir_valid (partitions (store l) ! p) (disk_super blk p (store l)) d"
  shows "ready drive p (lainfs_unlock l')" "file_saved p d lbas buffer sz l (lainfs_unlock l')"
proof -
  have m: "fs_ok p (store l)" "case mount_for_drive drive l of None \<Rightarrow> False | Some m \<Rightarrow> mt_partition_index m = p"
    using assms(1) by (simp_all add: driver_ready_def)
  obtain h where h: "store l' = (store l)\<lparr>disk := h\<rparr>" using assms(3) by (auto simp: file_saved_def)
  have "fs_ok p (store l')" "disk_super blk p (store l') = disk_super blk p (store l)" "fs_dir blk l' p = d"
    using assms(3) m(1) by (simp_all add: file_saved_def)
  moreover have "mount_for_drive drive (lainfs_unlock l') = mount_for_drive drive l"
    by (rule mount_for_drive_cong) (simp add: lainfs_unlock_def h)
  ultimately show "ready drive p (lainfs_unlock l')"
    using assms m h by (simp add: driver_ready_def lainfs_unlock_def)
  show "file_saved p d lbas buffer sz l (lainfs_unlock l')" using assms(3) by (simp add: file_saved_def lainfs_unlock_def)
qed

abbreviation required_blocks :: "u32 \<Rightarrow> u32" where
  "required_blocks sz \<equiv> (if blocks_for_size sz = 0 then 1 else blocks_for_size sz)"

lemma required_blocks_bound:
  assumes "sz \<le> LAINFS_FILE_CAPACITY"
  shows "unat (required_blocks sz) \<le> 8192" "unat sz \<le> unat (required_blocks sz) * 512"
  using blocks_for_size_bound [OF assms] by auto

definition can_save :: "u32 \<Rightarrow> bytes \<Rightarrow> u32 \<Rightarrow> directory \<Rightarrow> bool" where
  "can_save parent_id name sz d \<longleftrightarrow>
     valid_name name \<and> sz \<le> LAINFS_FILE_CAPACITY \<and> valid_dir_id d parent_id \<and>
     (case find_entry_in_dir d parent_id name of
        Some i \<Rightarrow> de_used (dir_entry d i) \<noteq> LAINFS_ENTRY_DIR | None \<Rightarrow> True)"

lemma save_file_ok:
  assumes ready: "ready drive p l" and can: "can_save parent_id name sz (fs_dir blk l p)"
    and buf: "unat sz \<le> length buffer"
    and slot: "file_slot parent_id name (fs_dir blk l p) = Some (i, d1)"
    and free: "find_free_extents (Some (partitions (store l) ! p)) (disk_super blk p (store l)) (fs_dir blk l p)
      (required_blocks sz) i = Some xs"
  defines "d' \<equiv> (fs_dir blk l p)[i := filled_entry name sz xs (dir_entry d1 i)]"
  obtains l' where "lainfs_save_file_in_dir drive parent_id name buffer sz l = Some (0, l')" "ready drive p l'"
    "file_saved p d' (extent_lbas xs) buffer (unat sz) l l'"
proof -
  let ?d = "fs_dir blk l p" and ?part = "partitions (store l) ! p" and ?super = "disk_super blk p (store l)"
  obtain m l2 where E: "mount_for_drive drive l = Some m" "mt_partition_index m = p"
    "lainfs_lock l = Some (l\<lparr>lainfs_global_lock := 1\<rparr>)"
    "\<And>e1 e2. open_directory e1 e2 p (l\<lparr>lainfs_global_lock := 1\<rparr>) = Inr (disk_super blk p (store l), l2)"
    "lainfs_inv l2" "fs_changed p ?d l l2" "fs_ok p (store l2)"
    "directory_cache_valid l2" "directory_cache_partition l2 = p" "directory l2 = ?d"
    "partitions (store l2) = partitions (store l)" "disk_super blk p (store l2) = ?super"
    by (rule enter [OF ready]) (rule that)
  note R = ready_dir [OF ready]
  have C: "valid_name name" "sz \<le> LAINFS_FILE_CAPACITY" "valid_dir_id ?d parent_id"
    "case find_entry_in_dir ?d parent_id name of Some i \<Rightarrow> de_used (dir_entry ?d i) \<noteq> LAINFS_ENTRY_DIR | None \<Rightarrow> True"
    using can by (simp_all add: can_save_def)
  have wf: "length ?d = LAINFS_MAX_FILES" "\<forall>e \<in> set ?d. dirent_wf e" using R(2) by (simp_all add: dir_wf_def)
  note S = file_slotD [OF slot wf R(1) C(4)]
  have pb: "unat (pt_block_count ?part) < 2 ^ 32" using fs_okD(2) [OF E(7)] by (simp add: E(11))
  note A = find_free_extents_sound [OF pb wf(1) R(1) free]
  have A': "\<forall>x \<in> set xs. extent_ok ?part ?super x" "disjoint_extents xs" "length xs \<le> 3" "\<forall>x \<in> set xs. ex_blocks x \<noteq> 0"
    using A(1) by (auto simp: alloc_ok_def extent_ok_def)
  have valid': "dir_valid ?part ?super d'"
    unfolding d'_def
    using S valid_dir_reaches_root [OF R(1) wf(1) C(3)]
    by (intro save_valid [OF R(1) wf(1) S(1,4,2,5) _ C(1,2) refl A(3,2,1)]) simp
  have wf': "dir_wf d'"
    unfolding d'_def using filled_entry_spec(1) [OF S(4) C(1,2) refl A(3) A'(3,4) A(2)] by (intro dir_wf_update R(2))
  let ?l4 = "l2\<lparr>directory := d'\<rparr>"
  have c4: "cache_inv ?l4" using lainfs_invD(1) [OF E(5)] by (simp add: driver_cache_inv_def)
  have lbas: "\<forall>lba \<in> set (extent_lbas xs). data_lba p lba (store ?l4)"
    using extent_lbas_data [OF A'(1) pb] E(7,11,12) by (simp add: driver_data_lba_def part_blocks_def)
  have len: "0 + length (extent_lbas xs) \<le> 8192"
    using required_blocks_bound(1) [OF C(2)] A(2) by (simp add: length_extent_lbas)
  obtain l5 where l5: "save_blocks p buffer sz (extent_lbas xs) (word_of_nat 0) ?l4 = (0, l5)" "cache_step ?l4 l5" "cache_inv l5"
    "\<And>j. j < length (extent_lbas xs) \<Longrightarrow> lview blk l5 p (extent_lbas xs ! j) = file_block buffer (unat sz) (0 + j)"
    "\<And>q b. data_lba q b (store ?l4) \<Longrightarrow> \<not> (q = p \<and> b \<in> set (extent_lbas xs)) \<Longrightarrow> lview blk l5 q b = lview blk ?l4 q b"
    by (rule save_blocks_ok [OF c4 lbas distinct_extent_lbas [OF A'(1) pb A'(2)] len buf]) (rule that)
  obtain l6 where l6: "save_directory p l5 = (0, l6)" "lainfs_inv l6" "\<And>q b. lview blk l6 q b = lview blk l5 q b"
    "\<And>q. fs_ok q (store l2) \<Longrightarrow> fs_ok q (store l6) \<and> disk_super blk q (store l6) = disk_super blk q (store l2) \<and>
      fs_dir blk l6 q = (if q = p then d' else fs_dir blk l2 q)"
    "\<exists>h. store l6 = (store l2)\<lparr>disk := h\<rparr>"
    by (rule finish_save [OF E(5,7,8,9) wf' l5(2,3)]) (rule that)
  have ch: "\<exists>h. store l2 = (store l)\<lparr>disk := h\<rparr>"
    "\<And>q. fs_ok q (store l) \<Longrightarrow> fs_ok q (store l2) \<and> disk_super blk q (store l2) = disk_super blk q (store l) \<and> fs_dir blk l2 q = fs_dir blk l q"
    "\<And>q b. data_lba q b (store l) \<Longrightarrow> lview blk l2 q b = lview blk l q b"
    using E(6) by (auto simp: driver_fs_changed_def split: if_splits)
  have dl: "data_lba q b (store l2)" if "data_lba q b (store l)" for q b
    using that ch(1,2) by (auto simp: driver_data_lba_def)
  have lv4: "lview blk ?l4 q b = lview blk l2 q b" for q b by (simp add: lview_def cong: option.case_cong)
  have saved: "file_saved p d' (extent_lbas xs) buffer (unat sz) l l6"
    unfolding file_saved_def
  proof (intro conjI allI impI)
    show "\<exists>h. store l6 = (store l)\<lparr>disk := h\<rparr>" using ch(1) l6(5) by auto
    fix q b
    assume "data_lba q b (store l)" "\<not> (q = p \<and> b \<in> set (extent_lbas xs))"
    then show "lview blk l6 q b = lview blk l q b" using l5(5) [of q b] dl lv4 l6(3) ch(3) by simp
  qed (use ch(2) l6(3,4) l5(4) in auto)
  have "\<not> LAINFS_FILE_CAPACITY < sz" using C(2) by simp
  moreover have "find_free_extents (storage_get_partition p (store l2)) ?super d1 (required_blocks sz) i = Some xs"
    using free S(3) find_free_extents_ignore [of "Some ?part" ?super ?d i "dir_entry d1 i" "required_blocks sz"]
      get_partition_fs_ok [OF E(7)] E(11) by simp
  moreover have "d1[i := filled_entry name sz xs (dir_entry d1 i)] = d'"
    unfolding d'_def using S(3) by (metis list_update_overwrite)
  ultimately have "lainfs_save_file_in_dir drive parent_id name buffer sz l = Some (0, lainfs_unlock l6)"
    using C E(1-4,10) slot l5(1) l6(1)
    by (simp add: lainfs_save_file_in_dir_def Let_def split: option.splits)
  then show ?thesis using ready_saved [OF ready l6(2) saved valid'] by (rule that)
qed

subsection \<open>Loading a file\<close>

lemma lview_length:
  assumes "cache_inv l" and "data_lba q b (store l)"
  shows "length (lview blk l q b) = 512"
proof (cases "find (slot_matches q b) (data_cache l)")
  case None
  then show ?thesis
    using assms(2) part_block_length by (simp add: lview_def driver_data_lba_def driver_fs_ok_def)
next
  case (Some slot)
  then have "slot \<in> set (data_cache l)" by (auto simp: find_Some_iff)
  with assms(1) Some show ?thesis by (simp add: lview_def driver_cache_inv_def driver_slot_ok_def)
qed

lemma loaded_contents:
  assumes "loaded l p lbas 0 sz out out'" and "\<forall>b \<in> set lbas. length (lview blk l p b) = 512"
    and "sz \<le> length lbas * 512" and "sz \<le> length out"
  shows "out' = overwrite 0 (take sz (concat (map (lview blk l p) lbas))) out"
proof (rule nth_equalityI)
  let ?c = "concat (map (lview blk l p) lbas)"
  have len: "length ?c = length lbas * 512"
    using assms(2) length_concat_blocks [of "map (lview blk l p) lbas" 512] by simp
  then have t: "length (take sz ?c) = sz" using assms(3) by simp
  show "length out' = length (overwrite 0 (take sz ?c) out)"
    using assms(1,4) t by (simp add: loaded_def)
  fix i
  assume "i < length out'"
  then have i: "i < length out" using assms(1) by (simp add: loaded_def)
  have "?c ! i = lview blk l p (lbas ! (i div 512)) ! (i mod 512)" if "i < sz"
  proof -
    have "i div 512 < length lbas" using that assms(3) by (intro less_mult_imp_div_less) simp
    then show ?thesis
      using nth_concat_blocks [of "map (lview blk l p) lbas" 512 i] assms(2,3) that by simp
  qed
  then show "out' ! i = overwrite 0 (take sz ?c) out ! i"
    using assms(1,3,4) i t by (auto simp: loaded_def nth_overwrite)
qed

lemma cache_step_lainfs:
  assumes inv: "lainfs_inv l" and step: "cache_step l l'" and c: "cache_inv l'"
  shows "lainfs_inv l'" "fs_ok q (store l) \<Longrightarrow> fs_dir blk l' q = fs_dir blk l q"
proof -
  obtain h where h: "same_caches l l'" "store l' = (store l)\<lparr>disk := h\<rparr>" "keeps_meta (store l) h"
    by (rule cache_stepE [OF step])
  have F: "fs_ok q (store l') \<and> disk_super blk q (store l') = disk_super blk q (store l) \<and>
      disk_dir blk q (store l') = disk_dir blk q (store l)" if "fs_ok q (store l)" for q
    using keeps_meta_fs_ok [OF h(3) that] keeps_meta_disk_dir [OF h(3) that] by (simp add: h(2))
  show "lainfs_inv l'"
    using lainfs_invD [OF inv] F c h(1) by (simp add: driver_lainfs_inv_def same_caches_def)
  show "fs_dir blk l' q = fs_dir blk l q" if "fs_ok q (store l)"
    using F [OF that] h(1) by (simp add: fs_dir_def same_caches_def)
qed

lemma fs_changed_step:
  assumes "lainfs_inv l2" and "fs_changed p d l l2" and "cache_step l2 l3" and "cache_inv l3" and "lview_same l2 l3"
  shows "fs_changed p d l l3"
proof -
  have dl: "data_lba q b (store l2)" if "data_lba q b (store l)" for q b
    using that assms(2) by (auto simp: driver_data_lba_def driver_fs_changed_def)
  have "lview blk l3 q b = lview blk l q b" if "data_lba q b (store l)" for q b
    using that dl assms(2,5) by (simp add: driver_fs_changed_def lview_same_def)
  moreover have "fs_ok q (store l3) \<and> disk_super blk q (store l3) = disk_super blk q (store l) \<and>
      fs_dir blk l3 q = (if q = p then d else fs_dir blk l q)" if "fs_ok q (store l)" for q
    using that assms(2) cache_step_fs_ok(1,2) [OF assms(3), of q] cache_step_lainfs(2) [OF assms(1,3,4), of q]
    by (simp add: driver_fs_changed_def)
  moreover have "\<exists>h. store l3 = (store l)\<lparr>disk := h\<rparr>"
    using assms(2,3) by (auto simp: driver_fs_changed_def cache_step_def)
  ultimately show ?thesis unfolding driver_fs_changed_def by blast
qed

lemma load_file_ok:
  assumes ready: "ready drive p l" and name: "valid_name name" "bufsz \<noteq> 0" and dir: "valid_dir_id (fs_dir blk l p) parent_id"
    and found: "find_entry_in_dir (fs_dir blk l p) parent_id name = Some i"
      "de_used (fs_dir blk l p ! i) = LAINFS_ENTRY_FILE"
    and fits: "de_byte_size (fs_dir blk l p ! i) \<le> bufsz" "length out = unat bufsz"
  defines "e \<equiv> fs_dir blk l p ! i"
  obtains l' where "lainfs_load_file_in_dir drive parent_id name out bufsz l =
      Some (0, overwrite 0 (file_contents blk l p e) out, de_byte_size e, l')" "ready drive p l'"
    "fs_changed p (fs_dir blk l p) l l'"
proof -
  let ?d = "fs_dir blk l p" and ?part = "partitions (store l) ! p" and ?super = "disk_super blk p (store l)"
  obtain m l2 where E: "mount_for_drive drive l = Some m" "mt_partition_index m = p"
    "lainfs_lock l = Some (l\<lparr>lainfs_global_lock := 1\<rparr>)"
    "\<And>e1 e2. open_directory e1 e2 p (l\<lparr>lainfs_global_lock := 1\<rparr>) = Inr (disk_super blk p (store l), l2)"
    "lainfs_inv l2" "fs_changed p ?d l l2" "fs_ok p (store l2)"
    "directory_cache_valid l2" "directory_cache_partition l2 = p" "directory l2 = ?d"
    "partitions (store l2) = partitions (store l)" "disk_super blk p (store l2) = ?super"
    by (rule enter [OF ready]) (rule that)
  note R = ready_dir [OF ready] and F = find_entryD [OF found(1)]
  have i: "i < length ?d" using F(1) R(2) by (simp add: dir_wf_def)
  have "entry_valid ?part ?super ?d e" using R(1) i by (simp add: e_def dir_valid_def)
  then obtain xs where xs: "de_byte_size e \<le> LAINFS_FILE_CAPACITY" "entry_extents e = Some xs"
    "\<forall>x \<in> set xs. extent_ok ?part ?super x"
    using found(2) by (auto simp: entry_valid_def e_def file_extents_ok_def)
  let ?lbas = "extent_lbas xs" and ?sz = "de_byte_size e"
  have pb: "unat (pt_block_count ?part) < 2 ^ 32" using fs_okD(2) [OF E(7)] by (simp add: E(11))
  have tot: "length ?lbas = unat (allocated_blocks_for_entry e)"
    using entry_extentsD(4) [OF xs(2)] by (simp add: length_extent_lbas)
  have lbas: "\<forall>lba \<in> set ?lbas. data_lba p lba (store l2)"
    using extent_lbas_data [OF xs(3) pb] E(7,11,12) by (simp add: driver_data_lba_def part_blocks_def)
  have len: "\<forall>lba \<in> set ?lbas. length (lview blk l2 p lba) = 512"
    using lbas lview_length [OF lainfs_invD(1) [OF E(5)]] by blast
  have cap: "0 + length ?lbas \<le> 8192" "unat ?sz \<le> length ?lbas * 512"
    using required_blocks_bound [OF xs(1)] tot by (simp_all add: allocated_blocks_for_entry_def Let_def split: if_splits)
  have sz: "unat ?sz \<le> length out" using fits by (simp add: e_def word_le_nat_alt)
  obtain l3 out' where l3: "load_blocks p ?sz ?lbas (word_of_nat 0) out l2 = (0, out', l3)" "cache_step l2 l3" "cache_inv l3"
    "lview_same l2 l3" "loaded l2 p ?lbas 0 (unat ?sz) out out'"
    by (rule load_blocks_ok [OF lainfs_invD(1) [OF E(5)] lbas len cap(1) sz]) (rule that)
  have same: "map (lview blk l2 p) ?lbas = map (lview blk l p) ?lbas"
  proof (rule map_cong [OF HOL.refl])
    fix lba
    assume "lba \<in> set ?lbas"
    then have "data_lba p lba (store l)"
      using extent_lbas_data [OF xs(3) pb] ready by (simp add: driver_data_lba_def driver_ready_def part_blocks_def)
    then show "lview blk l2 p lba = lview blk l p lba" using E(6) by (simp add: driver_fs_changed_def)
  qed
  have out': "out' = overwrite 0 (file_contents blk l p e) out"
    using loaded_contents [OF l3(5) len cap(2) sz] by (simp only: file_contents_def xs(2) option.case same)
  have ch: "fs_changed p ?d l l3" by (rule fs_changed_step [OF E(5,6) l3(2-4)])
  have "find (\<lambda>j. \<not> (de_used (dir_entry ?d j) = 0 \<or> de_used (dir_entry ?d j) = LAINFS_ENTRY_DIR \<or>
      entry_parent_id (dir_entry ?d j) \<noteq> parent_id \<or> \<not> str_eq (de_name (dir_entry ?d j)) name)) [0..<LAINFS_MAX_FILES] = Some i"
    by (rule find_stronger [OF found(1) [unfolded find_entry_in_dir_def]])
      (use F found(2) in \<open>auto simp: dir_entry_def\<close>)
  moreover have "\<not> (LAINFS_FILE_CAPACITY < ?sz \<or> bufsz < ?sz)" using xs(1) fits(1) by (simp add: e_def not_less)
  ultimately have "lainfs_load_file_in_dir drive parent_id name out bufsz l = Some (0, out', ?sz, lainfs_unlock l3)"
    using name dir E(1-4,10) xs(2) l3(1) by (simp add: lainfs_load_file_in_dir_def Let_def dir_entry_def e_def)
  then show ?thesis
    using leave [OF ready cache_step_lainfs(1) [OF E(5) l3(2,3)] ch R(1)] unfolding out' by (rule that)
qed

subsection \<open>What a save means for the files\<close>

lemma save_success:
  assumes ready: "ready drive p l" and res: "lainfs_save_file_in_dir drive parent_id name buffer sz l = Some (0, l')"
  obtains i d1 xs where "can_save parent_id name sz (fs_dir blk l p)" "file_slot parent_id name (fs_dir blk l p) = Some (i, d1)"
    "find_free_extents (Some (partitions (store l) ! p)) (disk_super blk p (store l)) (fs_dir blk l p) (required_blocks sz) i = Some xs"
proof -
  let ?d = "fs_dir blk l p" and ?part = "partitions (store l) ! p" and ?super = "disk_super blk p (store l)"
  obtain m l2 where E: "mount_for_drive drive l = Some m" "mt_partition_index m = p"
    "lainfs_lock l = Some (l\<lparr>lainfs_global_lock := 1\<rparr>)"
    "\<And>e1 e2. open_directory e1 e2 p (l\<lparr>lainfs_global_lock := 1\<rparr>) = Inr (disk_super blk p (store l), l2)"
    "lainfs_inv l2" "fs_changed p ?d l l2" "fs_ok p (store l2)"
    "directory_cache_valid l2" "directory_cache_partition l2 = p" "directory l2 = ?d"
    "partitions (store l2) = partitions (store l)" "disk_super blk p (store l2) = ?super"
    by (rule enter [OF ready]) (rule that)
  have part: "storage_get_partition p (store l2) = Some ?part" using get_partition_fs_ok [OF E(7)] E(11) by simp
  have C: "can_save parent_id name sz ?d" "file_slot parent_id name ?d \<noteq> None"
    using res E(1-4,10)
    by (auto simp: lainfs_save_file_in_dir_def can_save_def Let_def not_less split: if_splits option.splits)
  then obtain i d1 where slot: "file_slot parent_id name ?d = Some (i, d1)" by auto
  have "find_free_extents (Some ?part) ?super d1 (required_blocks sz) i \<noteq> None"
    using res E(1-4,10) C(1) slot part
    by (auto simp: lainfs_save_file_in_dir_def can_save_def Let_def not_less split: if_splits option.splits)
  moreover have "d1 = ?d[i := dir_entry d1 i]"
    using C(1) ready_dir [OF ready] by (intro file_slotD [OF slot]) (auto simp: dir_wf_def can_save_def)
  then have "find_free_extents (Some ?part) ?super d1 (required_blocks sz) i =
      find_free_extents (Some ?part) ?super ?d (required_blocks sz) i"
    by (metis find_free_extents_ignore)
  ultimately show ?thesis using C(1) slot by (auto intro: that)
qed

lemma concat_file_blocks:
  assumes "sz \<le> length buffer" and "sz \<le> n * 512"
  shows "take sz (concat (map (file_block buffer sz) [0..<n])) = take sz buffer"
proof (rule nth_equalityI)
  let ?bs = "map (file_block buffer sz) [0..<n]"
  have b: "\<forall>x \<in> set ?bs. length x = 512" using file_block_bytes(1) [OF assms(1)] by auto
  have len: "length (concat ?bs) = n * 512" using length_concat_blocks [OF b] by simp
  show "length (take sz (concat ?bs)) = length (take sz buffer)" using len assms by simp
  fix i
  assume "i < length (take sz (concat ?bs))"
  then have i: "i < sz" "i < n * 512" using len by auto
  have "concat ?bs ! i = ?bs ! (i div 512) ! (i mod 512)" using i(2) by (intro nth_concat_blocks [OF b]) simp
  moreover have "i div 512 < n" using i(2) by (rule less_mult_imp_div_less)
  moreover have "file_block buffer sz (i div 512) ! (i mod 512) = buffer ! (i div 512 * 512 + i mod 512)"
    using i(1) by (intro file_block_bytes(2) [OF assms(1)]) simp_all
  ultimately show "take sz (concat ?bs) ! i = take sz buffer ! i" using i by simp
qed

lemma saved_contents:
  assumes "file_saved p d' (extent_lbas xs) buffer (unat sz) l l'" and "entry_extents e = Some xs" and "de_byte_size e = sz"
    and "unat sz \<le> length buffer" and "unat sz \<le> total_blocks xs * 512"
  shows "file_contents blk l' p e = take (unat sz) buffer"
proof -
  have "map (lview blk l' p) (extent_lbas xs) = map (file_block buffer (unat sz)) [0..<total_blocks xs]"
    using assms(1) by (intro nth_equalityI) (simp_all add: length_extent_lbas file_saved_def)
  then show ?thesis using assms(2,3) concat_file_blocks [OF assms(4,5)] by (simp only: file_contents_def option.case)
qed

lemma saved_other_contents:
  assumes ready: "ready drive p l" and saved: "file_saved p d' (extent_lbas xs) buffer sz l l'"
    and xs: "\<forall>x \<in> set xs. extent_ok (partitions (store l) ! p) (disk_super blk p (store l)) x"
      "(\<Union>x \<in> set xs. extent_blocks x) \<inter> used_blocks (fs_dir blk l p) i = {}"
    and j: "j < LAINFS_MAX_FILES" "j \<noteq> i" "de_used (fs_dir blk l p ! j) = LAINFS_ENTRY_FILE"
  shows "file_contents blk l' p (fs_dir blk l p ! j) = file_contents blk l p (fs_dir blk l p ! j)"
proof -
  let ?d = "fs_dir blk l p" and ?part = "partitions (store l) ! p" and ?super = "disk_super blk p (store l)"
  have p: "fs_ok p (store l)" using ready by (simp add: driver_ready_def)
  have len: "j < length ?d" using j(1) ready_dir(2) [OF ready] by (simp add: dir_wf_def)
  obtain ys where ys: "entry_extents (?d ! j) = Some ys" "\<forall>x \<in> set ys. extent_ok ?part ?super x"
    "file_blocks (?d ! j) = (\<Union>x \<in> set ys. extent_blocks x)"
    by (rule valid_file_extents [OF ready_dir(1) [OF ready] len j(3)]) (rule that)
  have "file_blocks (?d ! j) \<subseteq> used_blocks ?d i" using j len unfolding used_blocks_def by auto
  then have disj: "unat ` set (extent_lbas ys) \<inter> unat ` set (extent_lbas xs) = {}"
    unfolding set_extent_lbas [OF xs(1) fs_okD(2) [OF p]] set_extent_lbas [OF ys(2) fs_okD(2) [OF p]] ys(3) [symmetric]
    using xs(2) by blast
  have "map (lview blk l' p) (extent_lbas ys) = map (lview blk l p) (extent_lbas ys)"
  proof (rule map_cong [OF HOL.refl])
    fix b
    assume b: "b \<in> set (extent_lbas ys)"
    then have "data_lba p b (store l)"
      using extent_lbas_data [OF ys(2) fs_okD(2) [OF p]] p by (simp add: driver_data_lba_def part_blocks_def)
    moreover have "b \<notin> set (extent_lbas xs)" using disj b by blast
    ultimately show "lview blk l' p b = lview blk l p b" using saved by (simp add: file_saved_def)
  qed
  then show ?thesis using ys(1) by (simp only: file_contents_def option.case)
qed

lemma find_saved_entry:
  assumes slot: "file_slot parent_id name d = Some (i, d1)" and d: "length d = LAINFS_MAX_FILES"
    and e: "de_used e \<noteq> 0" "entry_parent_id e = parent_id" "str_eq (de_name e) name"
  shows "find_entry_in_dir (d[i := e]) parent_id name = Some i"
proof -
  let ?P = "\<lambda>d i. de_used (dir_entry d i) \<noteq> 0 \<and> entry_parent_id (dir_entry d i) = parent_id \<and> str_eq (de_name (dir_entry d i)) name"
  have i: "i < LAINFS_MAX_FILES \<and> (\<forall>j < i. \<not> ?P d j)"
  proof (cases "find_entry_in_dir d parent_id name")
    case None
    then show ?thesis
      using slot by (auto simp: file_slot_def find_entry_in_dir_def find_Some_iff find_None_iff split: option.splits)
  next
    case (Some k)
    then have "k = i" using slot by (simp add: file_slot_def)
    with Some show ?thesis by (auto simp: find_entry_in_dir_def find_Some_iff)
  qed
  then have "?P (d[i := e]) i" "\<forall>j < i. \<not> ?P (d[i := e]) j"
    using e d by (auto simp: dir_entry_update)
  then show ?thesis using i by (auto simp: find_entry_in_dir_def find_Some_iff intro!: exI [of _ i])
qed

end

end
