(* ===== verification/Lainfs_Durable.thy ===== *)
theory Lainfs_Durable
  imports Lainfs_File_Spec
begin

text \<open>
  A saved file can be loaded, and what the file system holds is in the blocks of its drive after a
  flush. The second part compares a state with one in which no cache is valid and the drive has the
  same blocks: what a kernel that starts finds on a drive that keeps its blocks, such as a hard
  disk. (The ramdisk is no such drive: \<^verbatim>\<open>storage_init\<close> clears it.)
\<close>

definition caches_empty :: "'h lainfs \<Rightarrow> bool" where
  "caches_empty l \<longleftrightarrow> \<not> directory_cache_valid l \<and> \<not> super_cache_valid l \<and> (\<forall>slot \<in> set (data_cache l). \<not> sl_valid slot)"

lemma caches_empty_fs_dir: "caches_empty l \<Longrightarrow> fs_dir blk l p = disk_dir blk p (store l)"
  by (simp add: caches_empty_def fs_dir_def)

lemma caches_empty_lview: "caches_empty l \<Longrightarrow> lview blk l p lba = part_block blk p (store l) (unat lba)"
  by (intro lview_miss) (auto simp: caches_empty_def slot_matches_def)

context block_driver
begin

lemma saved_entry:
  assumes ready: "ready drive p l" and res: "lainfs_save_file_in_dir drive parent_id name buffer sz l = Some (0, l')"
    and buf: "unat sz \<le> length buffer"
  obtains i where "ready drive p l'" "valid_name name" "valid_dir_id (fs_dir blk l' p) parent_id"
    "find_entry_in_dir (fs_dir blk l' p) parent_id name = Some i"
    "de_used (fs_dir blk l' p ! i) = LAINFS_ENTRY_FILE" "de_byte_size (fs_dir blk l' p ! i) = sz"
    "file_contents blk l' p (fs_dir blk l' p ! i) = take (unat sz) buffer"
proof -
  let ?d = "fs_dir blk l p"
  obtain i d1 xs where S: "can_save parent_id name sz ?d" "file_slot parent_id name ?d = Some (i, d1)"
    "find_free_extents (Some (partitions (store l) ! p)) (disk_super blk p (store l)) ?d (required_blocks sz) i = Some xs"
    by (rule save_success [OF ready res]) (rule that)
  define e where "e = filled_entry name sz xs (dir_entry d1 i)"
  obtain l1 where l1: "lainfs_save_file_in_dir drive parent_id name buffer sz l = Some (0, l1)" "ready drive p l1"
    "file_saved p (?d[i := e]) (extent_lbas xs) buffer (unat sz) l l1"
    by (rule save_file_ok [OF ready S(1) buf S(2,3), folded e_def]) (rule that)
  then have l': "ready drive p l'" "file_saved p (?d[i := e]) (extent_lbas xs) buffer (unat sz) l l'" using res by simp_all
  note R = ready_dir [OF ready]
  have wf: "length ?d = LAINFS_MAX_FILES" "\<forall>e \<in> set ?d. dirent_wf e" using R(2) by (simp_all add: dir_wf_def)
  have C: "valid_name name" "sz \<le> LAINFS_FILE_CAPACITY" "valid_dir_id ?d parent_id"
    "case find_entry_in_dir ?d parent_id name of Some i \<Rightarrow> de_used (dir_entry ?d i) \<noteq> LAINFS_ENTRY_DIR | None \<Rightarrow> True"
    using S(1) by (simp_all add: can_save_def)
  note slot = file_slotD [OF S(2) wf R(1) C(4)]
  have p: "fs_ok p (store l)" using ready by (simp add: driver_ready_def)
  note A = find_free_extents_sound [OF fs_okD(2) [OF p] wf(1) R(1) S(3)]
  have xs: "length xs \<le> 3" "\<forall>x \<in> set xs. ex_blocks x \<noteq> 0" using A(1) by (auto simp: alloc_ok_def extent_ok_def)
  note F = filled_entry_spec [OF slot(4) C(1,2) HOL.refl A(3) xs A(2), folded e_def]
  have e: "de_used e = LAINFS_ENTRY_FILE" "de_byte_size e = sz" "str_eq (de_name e) name" "entry_parent_id e = parent_id"
    using slot(4,5,6) F(3) copy_name_valid(3) [OF C(1)] by (simp_all add: e_def filled_entry_fields dirent_wf_def)
  have dir': "fs_dir blk l' p = ?d[i := e]" using l'(2) p by (simp add: file_saved_def)
  then have ei: "fs_dir blk l' p ! i = e" using slot(1) wf(1) by simp
  have v: "valid_dir_id (fs_dir blk l' p) parent_id"
    using C(3) slot(2) by (cases "index_from_entry_id parent_id = i") (auto simp: dir' valid_dir_id_def dir_entry_def split: if_splits)
  have f: "find_entry_in_dir (fs_dir blk l' p) parent_id name = Some i"
    unfolding dir' using e by (intro find_saved_entry [OF S(2) wf(1)]) simp_all
  have "file_contents blk l' p e = take (unat sz) buffer"
    using required_blocks_bound(2) [OF C(2)] A(2) by (intro saved_contents [OF l'(2) F(2) e(2) buf]) simp
  with l'(1) C(1) v f e ei show ?thesis by (intro that [of i]) simp_all
qed

lemma save_load:
  assumes ready: "ready drive p l" and res: "lainfs_save_file_in_dir drive parent_id name buffer sz l = Some (0, l')"
    and buf: "unat sz \<le> length buffer" and out: "sz \<le> bufsz" "bufsz \<noteq> 0" "length out = unat bufsz"
  obtains l'' where "ready drive p l'"
    "lainfs_load_file_in_dir drive parent_id name out bufsz l' = Some (0, overwrite 0 (take (unat sz) buffer) out, sz, l'')"
    "ready drive p l''"
proof -
  obtain i where i: "ready drive p l'" "valid_name name" "valid_dir_id (fs_dir blk l' p) parent_id"
    "find_entry_in_dir (fs_dir blk l' p) parent_id name = Some i"
    "de_used (fs_dir blk l' p ! i) = LAINFS_ENTRY_FILE" "de_byte_size (fs_dir blk l' p ! i) = sz"
    "file_contents blk l' p (fs_dir blk l' p ! i) = take (unat sz) buffer"
    by (rule saved_entry [OF ready res buf]) (rule that)
  then show ?thesis
    using load_file_ok [OF i(1,2) out(2) i(3-5) _ out(3)] out(1) that by metis
qed

lemma save_keeps_others:
  assumes ready: "ready drive p l" and res: "lainfs_save_file_in_dir drive parent_id name buffer sz l = Some (0, l')"
    and buf: "unat sz \<le> length buffer"
  obtains i where "\<And>j. j < LAINFS_MAX_FILES \<Longrightarrow> j \<noteq> i \<Longrightarrow> fs_dir blk l' p ! j = fs_dir blk l p ! j"
    "\<And>j. j < LAINFS_MAX_FILES \<Longrightarrow> j \<noteq> i \<Longrightarrow> de_used (fs_dir blk l p ! j) = LAINFS_ENTRY_FILE \<Longrightarrow>
      file_contents blk l' p (fs_dir blk l p ! j) = file_contents blk l p (fs_dir blk l p ! j)"
    "find_entry_in_dir (fs_dir blk l p) parent_id name \<in> {None, Some i}"
    "find_entry_in_dir (fs_dir blk l p) parent_id name = None \<Longrightarrow> de_used (fs_dir blk l p ! i) = 0"
proof -
  let ?d = "fs_dir blk l p"
  obtain i d1 xs where S: "can_save parent_id name sz ?d" "file_slot parent_id name ?d = Some (i, d1)"
    "find_free_extents (Some (partitions (store l) ! p)) (disk_super blk p (store l)) ?d (required_blocks sz) i = Some xs"
    by (rule save_success [OF ready res]) (rule that)
  obtain l1 where l1: "lainfs_save_file_in_dir drive parent_id name buffer sz l = Some (0, l1)" "ready drive p l1"
    "file_saved p (?d[i := filled_entry name sz xs (dir_entry d1 i)]) (extent_lbas xs) buffer (unat sz) l l1"
    by (rule save_file_ok [OF ready S(1) buf S(2,3)]) (rule that)
  then have l': "file_saved p (?d[i := filled_entry name sz xs (dir_entry d1 i)]) (extent_lbas xs) buffer (unat sz) l l'"
    using res by simp
  have p: "fs_ok p (store l)" using ready by (simp add: driver_ready_def)
  have wf: "length ?d = LAINFS_MAX_FILES" using ready_dir(2) [OF ready] by (simp add: dir_wf_def)
  note A = find_free_extents_sound(1) [OF fs_okD(2) [OF p] wf ready_dir(1) [OF ready] S(3)]
  have "fs_dir blk l' p ! j = ?d ! j" if "j \<noteq> i" for j
    using l' p that by (simp add: file_saved_def)
  moreover have "file_contents blk l' p (?d ! j) = file_contents blk l p (?d ! j)"
    if "j < LAINFS_MAX_FILES" "j \<noteq> i" "de_used (?d ! j) = LAINFS_ENTRY_FILE" for j
    using A that by (intro saved_other_contents [OF ready l']) (simp_all add: alloc_ok_def)
  moreover have "find_entry_in_dir ?d parent_id name \<in> {None, Some i}"
    "find_entry_in_dir ?d parent_id name = None \<Longrightarrow> de_used (?d ! i) = 0"
    using S(2) by (auto simp: file_slot_def find_Some_iff dir_entry_def split: option.splits)
  ultimately show ?thesis by (intro that)
qed

subsection \<open>Flushing\<close>

lemma flush_slots_ok:
  assumes "cache_inv l" and "set is \<subseteq> {..<LAINFS_DATA_CACHE_SLOTS}" and sel: "\<And>slot b. sel (slot\<lparr>sl_dirty := b\<rparr>) = sel slot"
  shows "\<exists>l'. flush_slots sel is l = (0, l') \<and> cache_step l l' \<and> cache_inv l' \<and> lview_same l l' \<and>
    (\<forall>i \<in> set is. sel (data_cache l' ! i) \<longrightarrow> sl_valid (data_cache l' ! i) \<longrightarrow> \<not> sl_dirty (data_cache l' ! i)) \<and>
    (\<forall>i. \<not> sl_dirty (data_cache l ! i) \<longrightarrow> data_cache l' ! i = data_cache l ! i) \<and>
    (\<forall>i. data_cache l' ! i = data_cache l ! i \<or> data_cache l' ! i = (data_cache l ! i)\<lparr>sl_dirty := False\<rparr>)"
  using assms(1,2)
proof (induction "is" arbitrary: l)
  case Nil
  then show ?case by simp
next
  case (Cons i "is")
  have i: "i < LAINFS_DATA_CACHE_SLOTS" using Cons.prems(2) by simp
  show ?case
  proof (cases "sl_valid (data_cache l ! i) \<and> sl_dirty (data_cache l ! i) \<and> sel (data_cache l ! i)")
    case True
    obtain l1 where l1: "flush_data_cache_slot i l = (0, l1)" "cache_step l l1" "cache_inv l1" "lview_same l l1"
      "data_cache l1 = (data_cache l)[i := (data_cache l ! i)\<lparr>sl_dirty := False\<rparr>]"
      using True by (rule_tac flush_slot_dirty [OF Cons.prems(1) i]) auto
    have n: "data_cache l1 ! j = (if j = i then (data_cache l ! i)\<lparr>sl_dirty := False\<rparr> else data_cache l ! j)" for j
      using l1(5) i cache_invD(1) [OF Cons.prems(1)] by simp
    obtain l' where l': "flush_slots sel is l1 = (0, l')" "cache_step l1 l'" "cache_inv l'" "lview_same l1 l'"
      "\<forall>i \<in> set is. sel (data_cache l' ! i) \<longrightarrow> sl_valid (data_cache l' ! i) \<longrightarrow> \<not> sl_dirty (data_cache l' ! i)"
      "\<forall>i. \<not> sl_dirty (data_cache l1 ! i) \<longrightarrow> data_cache l' ! i = data_cache l1 ! i"
      "\<forall>i. data_cache l' ! i = data_cache l1 ! i \<or> data_cache l' ! i = (data_cache l1 ! i)\<lparr>sl_dirty := False\<rparr>"
      using Cons.IH [OF l1(3)] Cons.prems(2) by auto
    have "lview_same l l'" using l1(4) l'(4) cache_step_data_lba [OF l1(2)] by (simp add: lview_same_def)
    moreover have "flush_slots sel (i # is) l = (0, l')" using True l1(1) l'(1) by simp
    moreover have "\<not> sl_dirty (data_cache l' ! i)" using l'(6) n by simp
    moreover have "data_cache l' ! j = data_cache l ! j" if "\<not> sl_dirty (data_cache l ! j)" for j
      using that l'(6) n True by (cases "j = i") auto
    moreover have "data_cache l' ! j = data_cache l ! j \<or> data_cache l' ! j = (data_cache l ! j)\<lparr>sl_dirty := False\<rparr>" for j
      using spec [OF l'(7), of j] n [of j] by (cases "j = i") auto
    ultimately show ?thesis using l'(3,5) cache_step_trans [OF l1(2) l'(2)] by (intro exI [of _ l']) auto
  next
    case False
    obtain l' where l': "flush_slots sel is l = (0, l')" "cache_step l l'" "cache_inv l'" "lview_same l l'"
      "\<forall>i \<in> set is. sel (data_cache l' ! i) \<longrightarrow> sl_valid (data_cache l' ! i) \<longrightarrow> \<not> sl_dirty (data_cache l' ! i)"
      "\<forall>i. \<not> sl_dirty (data_cache l ! i) \<longrightarrow> data_cache l' ! i = data_cache l ! i"
      "\<forall>i. data_cache l' ! i = data_cache l ! i \<or> data_cache l' ! i = (data_cache l ! i)\<lparr>sl_dirty := False\<rparr>"
      using Cons.IH [OF Cons.prems(1)] Cons.prems(2) by auto
    have "sel (data_cache l' ! i) \<longrightarrow> sl_valid (data_cache l' ! i) \<longrightarrow> \<not> sl_dirty (data_cache l' ! i)"
      using l'(6,7) False sel by (metis (no_types, lifting) lainfs_data_cache_slot_t.select_convs(2)
        lainfs_data_cache_slot_t.surjective lainfs_data_cache_slot_t.update_convs(2))
    with l' False show ?thesis by (intro exI [of _ l']) auto
  qed
qed

lemma clean_on_disk:
  assumes "cache_inv l" and "data_lba p lba (store l)"
    and "\<forall>i < LAINFS_DATA_CACHE_SLOTS. sl_partition_index (data_cache l ! i) = p \<longrightarrow> sl_valid (data_cache l ! i) \<longrightarrow> \<not> sl_dirty (data_cache l ! i)"
  shows "pblk p (store l) (unat lba) = lview blk l p lba"
proof (cases "\<exists>i < LAINFS_DATA_CACHE_SLOTS. slot_matches p lba (data_cache l ! i)")
  case True
  then obtain i where i: "i < LAINFS_DATA_CACHE_SLOTS" "slot_matches p lba (data_cache l ! i)" by blast
  have "lview blk l p lba = sl_data (data_cache l ! i)"
    using i cache_invD(1) [OF assms(1)] by (intro lview_hit [OF cache_invD(4) [OF assms(1)]]) auto
  with i assms(3) cache_invD(3) [OF assms(1) i(1)] show ?thesis by (simp add: slot_matches_def driver_slot_ok_def)
next
  case False
  then show ?thesis
    using cache_invD(1) [OF assms(1)] by (subst lview_miss) (auto simp: in_set_conv_nth)
qed

lemma flush_durable:
  assumes ready: "ready drive p l"
  obtains l' where "lainfs_flush drive l = Some (0, l')" "ready drive p l'" "fs_changed p (fs_dir blk l p) l l'"
    "disk_dir blk p (store l') = fs_dir blk l p"
    "\<And>lba. data_lba p lba (store l) \<Longrightarrow> pblk p (store l') (unat lba) = lview blk l p lba"
proof -
  obtain m where m: "mount_for_drive drive l = Some m" "mt_partition_index m = p" "lainfs_global_lock l = 0"
    "lainfs_inv l" "fs_ok p (store l)" "dir_valid (partitions (store l) ! p) (disk_super blk p (store l)) (fs_dir blk l p)"
    by (rule readyD [OF ready]) (rule that)
  let ?l = "l\<lparr>lainfs_global_lock := 1\<rparr>" and ?sel = "\<lambda>slot. sl_partition_index slot = p"
  have inv: "lainfs_inv ?l" using m(4) by simp
  obtain l1 where l1: "flush_slots ?sel [0..<LAINFS_DATA_CACHE_SLOTS] ?l = (0, l1)" "cache_step ?l l1" "cache_inv l1" "lview_same ?l l1"
    "\<forall>i \<in> set [0..<LAINFS_DATA_CACHE_SLOTS]. ?sel (data_cache l1 ! i) \<longrightarrow> sl_valid (data_cache l1 ! i) \<longrightarrow> \<not> sl_dirty (data_cache l1 ! i)"
    using flush_slots_ok [OF lainfs_invD(1) [OF inv], of "[0..<LAINFS_DATA_CACHE_SLOTS]" ?sel]
    by (force simp: lessThan_atLeast0)
  have inv1: "lainfs_inv l1" by (rule cache_step_lainfs(1) [OF inv l1(2,3)])
  have "fs_changed p (fs_dir blk ?l p) ?l ?l" by (intro fs_same_changed) simp_all
  then have "fs_changed p (fs_dir blk ?l p) ?l l1" by (rule fs_changed_step [OF inv _ l1(2-4)])
  then have ch1: "fs_changed p (fs_dir blk l p) l l1" by simp
  have "\<exists>l2. flush_partition_cache p ?l = (0, l2) \<and> lainfs_inv l2 \<and> fs_same l1 l2 \<and> data_cache l2 = data_cache l1 \<and>
      disk_dir blk p (store l2) = fs_dir blk l1 p"
  proof (cases "directory_cache_valid l1 \<and> directory_cache_dirty l1 \<and> directory_cache_partition l1 = p")
    case True
    obtain l2 where "flush_directory_cache l1 = (0, l2)" "lainfs_inv l2" "fs_same l1 l2"
      "disk_dir blk (directory_cache_partition l1) (store l2) = directory l1" "data_cache l2 = data_cache l1"
      using True by (rule_tac flush_directory_ok [OF inv1]) auto
    with True l1(1) show ?thesis
      by (simp add: flush_partition_cache_def flush_data_cache_partition_def fs_dir_def)
  next
    case False
    then have "disk_dir blk p (store l1) = fs_dir blk l1 p" using lainfs_invD(7) [OF inv1] by (auto simp: fs_dir_def)
    with False inv1 l1(1) show ?thesis
      by (auto simp: flush_partition_cache_def flush_data_cache_partition_def)
  qed
  then obtain l2 where l2: "flush_partition_cache p ?l = (0, l2)" "lainfs_inv l2" "fs_same l1 l2" "data_cache l2 = data_cache l1"
    "disk_dir blk p (store l2) = fs_dir blk l1 p" by blast
  have dl: "data_lba q b (store l1)" if "data_lba q b (store l)" for q b
    using that ch1 by (auto simp: driver_data_lba_def driver_fs_changed_def)
  have ch2: "fs_changed p (fs_dir blk l p) l l2"
    using ch1 fs_sameD(1-3,8) [OF l2(3)] l2(3) dl
    by (auto simp: driver_fs_changed_def fs_same_def lview_same_def)
  have disk: "pblk p (store l2) (unat lba) = lview blk l p lba" if d: "data_lba p lba (store l)" for lba
  proof -
    have d2: "data_lba p lba (store l2)" by (rule fs_same_data_lba [OF l2(3) dl [OF d]])
    then show ?thesis
      using clean_on_disk [OF lainfs_invD(1) [OF l2(2)] d2] l1(5) l2(4) ch2 d by (simp add: driver_fs_changed_def)
  qed
  have "fs_dir blk l1 p = fs_dir blk l p" using ch1 m(5) by (simp add: driver_fs_changed_def)
  moreover have "lainfs_flush drive l = Some (0, lainfs_unlock l2)"
    using m l2(1) by (simp add: lainfs_flush_def lainfs_lock_def)
  ultimately show ?thesis
    using leave [OF ready l2(2) ch2 m(6)] disk l2(5) by (intro that [of "lainfs_unlock l2"]) (simp_all add: lainfs_unlock_def)
qed

text \<open>
  A restart on a drive that keeps its blocks: the caches are cold, the storage tables and the blocks
  of the drive are those of the state before, other state of the device may differ. The superblock
  and directory buffers hold arbitrary entries of the right size.
\<close>

definition restarted :: "'h lainfs \<Rightarrow> 'h lainfs \<Rightarrow> bool" where
  "restarted l r \<longleftrightarrow> caches_empty r \<and> lainfs_global_lock r = 0 \<and> same_blocks (store l) (store r) \<and> dir_wf (directory r) \<and>
     length (sb_reserved (super_cache r)) = 480 \<and> length (data_cache r) = LAINFS_DATA_CACHE_SLOTS \<and>
     (\<forall>slot \<in> set (data_cache r). length (sl_data slot) = SECTOR_SIZE)"

lemma restart_ready:
  assumes ready: "ready drive p l" and r: "restarted l r" and dir: "disk_dir blk p (store l) = fs_dir blk l p"
  shows "ready drive p r" "fs_dir blk r p = fs_dir blk l p"
proof -
  obtain m where m: "mount_for_drive drive l = Some m" "mt_partition_index m = p" "lainfs_global_lock l = 0"
    "lainfs_inv l" "fs_ok p (store l)" "dir_valid (partitions (store l) ! p) (disk_super blk p (store l)) (fs_dir blk l p)"
    by (rule readyD [OF ready]) (rule that)
  have same: "same_blocks (store l) (store r)" using r by (simp add: restarted_def)
  note F = same_blocks_fs [OF same] and D = same_blocksD [OF same]
  show d: "fs_dir blk r p = fs_dir blk l p"
    using r dir caches_empty_fs_dir [of r blk p] same_blocks_dir [OF same, of p] by (simp add: restarted_def)
  have "slots_distinct (data_cache r)"
    using r unfolding restarted_def caches_empty_def slots_distinct_def slot_matches_def by (metis nth_mem)
  then have "cache_inv r"
    using r cache_invD(2) [OF lainfs_invD(1) [OF m(4)]] F(5)
    by (simp add: driver_cache_inv_def restarted_def caches_empty_def driver_slot_ok_def)
  then have "lainfs_inv r" using r by (simp add: driver_lainfs_inv_def restarted_def caches_empty_def)
  moreover have "mount_for_drive drive r = mount_for_drive drive l"
    using D(6) by (intro mount_for_drive_cong) simp
  ultimately show "ready drive p r"
    using m r d F(1,2) D(4) by (simp add: driver_ready_def restarted_def)
qed

lemma flush_restart:
  assumes ready: "ready drive p l" and fl: "lainfs_flush drive l = Some (st, l')" and r: "restarted l' r"
  shows "st = 0" "ready drive p r" "fs_dir blk r p = fs_dir blk l p"
    "data_lba p lba (store l) \<Longrightarrow> lview blk r p lba = lview blk l p lba"
proof -
  obtain l1 where l1: "lainfs_flush drive l = Some (0, l1)" "ready drive p l1" "fs_changed p (fs_dir blk l p) l l1"
    "disk_dir blk p (store l1) = fs_dir blk l p"
    "\<And>lba. data_lba p lba (store l) \<Longrightarrow> pblk p (store l1) (unat lba) = lview blk l p lba"
    by (rule flush_durable [OF ready]) (rule that)
  have e: "l1 = l'" "st = 0" using l1(1) fl by auto
  have p: "fs_ok p (store l)" using ready by (simp add: driver_ready_def)
  have d: "fs_dir blk l' p = fs_dir blk l p" using l1(3) p e by (simp add: driver_fs_changed_def)
  show "st = 0" by (rule e(2))
  show "ready drive p r" using restart_ready(1) [OF _ r] l1(2,4) d e by simp
  show "fs_dir blk r p = fs_dir blk l p" using restart_ready(2) [OF _ r] l1(2,4) d e by simp
  show "lview blk r p lba = lview blk l p lba" if "data_lba p lba (store l)"
    using l1(5) [OF that] r e caches_empty_lview [of r blk p lba] same_blocksD(1) [of "store l'" "store r" p]
    by (simp add: restarted_def)
qed

lemma contents_cong:
  assumes valid: "dir_valid (partitions (store l) ! p) (disk_super blk p (store l)) d" and p: "fs_ok p (store l)"
    and j: "j < length d" "de_used (d ! j) = LAINFS_ENTRY_FILE"
    and same: "\<And>lba. data_lba p lba (store l) \<Longrightarrow> lview blk l' p lba = lview blk l p lba"
  shows "file_contents blk l' p (d ! j) = file_contents blk l p (d ! j)"
proof -
  obtain ys where ys: "entry_extents (d ! j) = Some ys" "\<forall>x \<in> set ys. extent_ok (partitions (store l) ! p) (disk_super blk p (store l)) x"
    by (rule valid_file_extents [OF valid j]) (rule that)
  have "map (lview blk l' p) (extent_lbas ys) = map (lview blk l p) (extent_lbas ys)"
    using extent_lbas_data [OF ys(2) fs_okD(2) [OF p]] p
    by (intro map_cong HOL.refl same) (simp add: driver_data_lba_def part_blocks_def)
  then show ?thesis using ys(1) by (simp only: file_contents_def option.case)
qed

text \<open>A file that is in the directory is loaded with its contents, also after a flush and a restart.\<close>

lemma load_after_restart:
  assumes ready: "ready drive p l" and fl: "lainfs_flush drive l = Some (st, l')" and r: "restarted l' r"
    and name: "valid_name name" "bufsz \<noteq> 0" and dir: "valid_dir_id (fs_dir blk l p) parent_id"
    and found: "find_entry_in_dir (fs_dir blk l p) parent_id name = Some i" "de_used (fs_dir blk l p ! i) = LAINFS_ENTRY_FILE"
    and fits: "de_byte_size (fs_dir blk l p ! i) \<le> bufsz" "length out = unat bufsz"
  shows "\<exists>r'. lainfs_load_file_in_dir drive parent_id name out bufsz r =
    Some (0, overwrite 0 (file_contents blk l p (fs_dir blk l p ! i)) out, de_byte_size (fs_dir blk l p ! i), r')"
proof -
  note R = flush_restart [OF ready fl r]
  have "i < length (fs_dir blk l p)" using find_entryD(1) [OF found(1)] ready_dir(2) [OF ready] by (simp add: dir_wf_def)
  then have c: "file_contents blk r p (fs_dir blk l p ! i) = file_contents blk l p (fs_dir blk l p ! i)"
    using ready R(4) found(2) by (intro contents_cong) (auto simp: driver_ready_def)
  obtain r' where "lainfs_load_file_in_dir drive parent_id name out bufsz r =
      Some (0, overwrite 0 (file_contents blk r p (fs_dir blk r p ! i)) out, de_byte_size (fs_dir blk r p ! i), r')"
    by (rule load_file_ok [OF R(2) name, of parent_id i out]) (use dir found fits R(3) in auto)
  then show ?thesis using R(3) c by auto
qed

end

end
