(* ===== verification/Lainfs_Demo.thy ===== *)
theory Lainfs_Demo
  imports Lainfs_Durable
begin

text \<open>
  A concrete machine: the ramdisk with its one partition, freshly formatted and mounted as drive
  C, with empty caches. It satisfies the assumption \<open>ready\<close> of the theorems about the operations,
  and the witnesses below use it.
\<close>

definition demo_disk :: disk_world where
  "demo_disk = \<lparr>ramdisk_mbr = replicate SECTOR_SIZE 0, ramdisk_overlay = (\<lambda>i. None)(2048 := Some (bytes_of_super fresh_super))\<rparr>"

definition demo_device :: "disk_world block_device_t" where
  "demo_device = \<lparr>bd_present = True, bd_name = [114, 100, 48, 0, 0, 0, 0, 0], bd_block_size = 512, bd_block_count = 1048576,
     bd_read = Some ramdisk_read, bd_write = Some ramdisk_write, bd_ctx = 0\<rparr>"

definition no_device :: "'h block_device_t" where
  "no_device = \<lparr>bd_present = False, bd_name = replicate 8 0, bd_block_size = 0, bd_block_count = 0,
     bd_read = None, bd_write = None, bd_ctx = 0\<rparr>"

definition demo_partition :: partition_t where
  "demo_partition = \<lparr>pt_present = True, pt_name = [114, 100, 48, 112, 49, 0, 0, 0, 0, 0, 0, 0], pt_device_index = 0,
     pt_partition_number = 1, pt_start_lba = 2048, pt_block_count = 1046528, pt_mbr_type = 0x99,
     pt_fs_hint = [108, 97, 105, 110, 102, 115, 0, 0]\<rparr>"

definition no_partition :: partition_t where
  "no_partition = \<lparr>pt_present = False, pt_name = replicate 12 0, pt_device_index = 0, pt_partition_number = 0,
     pt_start_lba = 0, pt_block_count = 0, pt_mbr_type = 0, pt_fs_hint = replicate 8 0\<rparr>"

definition no_mount :: mount_t where
  "no_mount = \<lparr>mt_present = False, mt_drive_letter = 0, mt_partition_index = 0, mt_partition_name = replicate 12 0,
     mt_fs_name = replicate 8 0\<rparr>"

definition demo_mount :: mount_t where
  "demo_mount = \<lparr>mt_present = True, mt_drive_letter = 67, mt_partition_index = 0,
     mt_partition_name = [114, 100, 48, 112, 49, 0, 0, 0, 0, 0, 0, 0], mt_fs_name = [108, 97, 105, 110, 102, 115, 0, 0]\<rparr>"

definition demo_storage :: "disk_world storage" where
  "demo_storage = \<lparr>block_devices = demo_device # replicate 7 no_device, partitions = demo_partition # replicate 15 no_partition,
     mounts = (replicate 26 no_mount)[2 := demo_mount], block_device_count = 1, partition_count = 1, disk = demo_disk\<rparr>"

definition zero_stats :: lainfs_cache_stats_t where
  "zero_stats = \<lparr>cs_directory_valid = 0, cs_directory_dirty = 0, cs_data_valid = 0, cs_data_dirty = 0, cs_directory_reads = 0,
     cs_directory_writes = 0, cs_directory_cache_hits = 0, cs_data_reads = 0, cs_data_writes = 0, cs_data_cache_hits = 0,
     cs_flushes = 0\<rparr>"

definition empty_slot :: lainfs_data_cache_slot_t where
  "empty_slot = \<lparr>sl_valid = False, sl_dirty = False, sl_partition_index = 0, sl_lba = 0, sl_age = 0,
     sl_data = replicate SECTOR_SIZE 0\<rparr>"

definition cold_caches :: "'h storage \<Rightarrow> 'h lainfs" where
  "cold_caches s = \<lparr>directory = empty_directory, super_cache = super_of_bytes (replicate 512 0), super_cache_valid = False,
     super_cache_partition = 0, directory_cache_valid = False, directory_cache_dirty = False, directory_cache_partition = 0,
     data_cache = replicate LAINFS_DATA_CACHE_SLOTS empty_slot, cache_clock = 0, cache_stats = zero_stats,
     lainfs_global_lock = 0, console = [], store = s\<rparr>"

definition demo :: "disk_world lainfs" where
  "demo = cold_caches demo_storage"

subsection \<open>The fresh file system\<close>

lemma bytes_of_empty_directory: "bytes_of_dir empty_directory = replicate 131072 0"
proof -
  have "bytes_of_dirent zero_dirent = replicate 64 0"
    by (simp add: bytes_of_dirent_def zero_dirent_def bytes32_def numeral_eq_Suc)
  moreover have "concat (replicate n (replicate m x)) = replicate (n * m) x" for n m and x :: u8
    by (induction n) (simp_all add: replicate_add)
  ultimately show ?thesis by (simp add: bytes_of_dir_def empty_directory_def)
qed

lemma empty_directory_wf: "dir_wf empty_directory"
  by (simp add: dir_wf_def empty_directory_def)

lemma dir_of_zero_bytes: "dir_of_bytes (replicate 131072 0) = empty_directory"
  using dir_wf_bytes(2) [OF empty_directory_wf] by (simp only: bytes_of_empty_directory)

lemma fresh_super_magic: "super_magic_ok fresh_super"
  by (simp add: super_magic_ok_def fresh_super_def)

lemma fresh_super_layout: "257 < pt_block_count part \<Longrightarrow> layout_ok part fresh_super"
  by (simp add: layout_ok_def fresh_super_def not_le)

lemma empty_directory_valid: "layout_ok part super \<Longrightarrow> dir_valid part super empty_directory"
  by (simp add: dir_valid_def empty_directory_def entry_valid_def files_disjoint_def)

lemma zero_blocks: "concat (map (\<lambda>i. replicate 512 (0 :: u8)) [1..<257]) = replicate 131072 0"
proof -
  have "concat (map (\<lambda>i. replicate m x) [a..<a + n]) = replicate (n * m) x" for a n m and x :: u8
    by (induction n) (simp_all add: replicate_add [symmetric] add.commute)
  from this [of 512 0 1 256] show ?thesis by simp
qed

lemma dir_entry_empty: "i < LAINFS_MAX_FILES \<Longrightarrow> dir_entry empty_directory i = zero_dirent"
  by (simp add: dir_entry_def empty_directory_def)

lemma find_entry_empty: "find_entry_in_dir empty_directory parent_id name = None"
  by (auto simp: find_entry_in_dir_def find_None_iff dir_entry_empty)

lemma find_free_empty: "find_free_entry empty_directory = Some 0"
proof -
  have "[0..<LAINFS_MAX_FILES] = 0 # [Suc 0..<LAINFS_MAX_FILES]" by (rule upt_conv_Cons) simp
  moreover have "de_used (dir_entry empty_directory 0) = 0" by (simp add: dir_entry_empty)
  ultimately show ?thesis unfolding find_free_entry_def by (simp only: find.simps simp_thms if_True)
qed

lemma valid_root: "valid_dir_id d LAINFS_ROOT_DIR"
  by (simp add: valid_dir_id_def)

lemma used_blocks_empty: "used_blocks empty_directory i = {}"
  by (auto simp: used_blocks_def empty_directory_def)

text \<open>A freshly formatted partition on any driver: the file system is valid and empty, and has room for a file.\<close>

context block_driver
begin

text \<open>A kernel that starts on the same storage tables and the same blocks.\<close>

lemma cold_restart: "ok h \<Longrightarrow> blk h = blk (disk (store l)) \<Longrightarrow> restarted l (cold_caches ((store l)\<lparr>disk := h\<rparr>))"
  using empty_directory_wf
  by (auto simp: restarted_def same_blocks_def caches_empty_def cold_caches_def empty_slot_def super_of_bytes_def)

definition fresh_partition :: "nat \<Rightarrow> 'h storage \<Rightarrow> bool" where
  "fresh_partition p s \<longleftrightarrow> backed p s \<and> 257 < part_blocks p s \<and> part_blocks p s < 2 ^ 32 \<and> windows_disjoint rd wr ctx s \<and>
     pblk p s 0 = bytes_of_super fresh_super \<and> (\<forall>i. 0 < i \<longrightarrow> i < 257 \<longrightarrow> pblk p s i = replicate 512 0)"

lemma fresh_disk:
  assumes "fresh_partition p s"
  shows "disk_super blk p s = fresh_super" "disk_dir blk p s = empty_directory" "fs_ok p s"
    "layout_ok (partitions s ! p) fresh_super"
proof -
  have "length (sb_reserved fresh_super) = 480" by (simp add: fresh_super_def)
  then show super: "disk_super blk p s = fresh_super"
    using assms by (simp add: fresh_partition_def disk_super_def super_of_bytes_of_super)
  have "map (pblk p s) [1..<257] = map (\<lambda>i. replicate 512 0) [1..<257]"
    using assms by (simp add: fresh_partition_def)
  then have "concat (map (pblk p s) [1..<257]) = replicate 131072 0" using zero_blocks by (simp only:)
  then show "disk_dir blk p s = empty_directory"
    by (simp add: disk_dir_def super fresh_super_def dir_of_zero_bytes Let_def)
  show lay: "layout_ok (partitions s ! p) fresh_super"
    using assms by (intro fresh_super_layout) (simp add: fresh_partition_def part_blocks_def word_less_nat_alt)
  show "fs_ok p s"
    using assms lay fresh_super_magic by (simp add: driver_fs_ok_def fresh_partition_def super)
qed

lemma fresh_ready:
  assumes fresh: "fresh_partition p s" and m: "storage_get_mount_by_drive (to_upper drive) s = Some m" "mt_partition_index m = p"
  shows "ready drive p (cold_caches s)" "fs_dir blk (cold_caches s) p = empty_directory"
proof -
  note F = fresh_disk [OF fresh]
  show dir: "fs_dir blk (cold_caches s) p = empty_directory"
    by (simp add: fs_dir_def cold_caches_def F(2))
  have "cache_inv (cold_caches s)"
    using fresh by (simp add: driver_cache_inv_def cold_caches_def driver_slot_ok_def empty_slot_def slots_distinct_def
        slot_matches_def fresh_partition_def)
  then have "lainfs_inv (cold_caches s)"
    using empty_directory_wf by (simp add: driver_lainfs_inv_def cold_caches_def super_of_bytes_def)
  moreover have "dir_valid (partitions s ! p) fresh_super empty_directory"
    by (rule empty_directory_valid [OF F(4)])
  ultimately show "ready drive p (cold_caches s)"
    using F(1,3) m dir by (simp add: driver_ready_def mount_for_drive_def cold_caches_def)
qed

lemma fresh_save:
  assumes ready: "ready drive p l" and fresh: "fresh_partition p (store l)" and dir: "fs_dir blk l p = empty_directory"
    and name: "valid_name name" and sz: "blocks_for_size sz = 1" "sz \<le> LAINFS_FILE_CAPACITY" "unat sz \<le> length buffer"
  shows "\<exists>l'. lainfs_save_file_in_dir drive LAINFS_ROOT_DIR name buffer sz l = Some (0, l')"
proof -
  note F = fresh_disk [OF fresh]
  have slot: "file_slot LAINFS_ROOT_DIR name (fs_dir blk l p) = Some (0, empty_directory[0 := new_file_entry LAINFS_ROOT_DIR])"
    using find_free_empty by (simp add: file_slot_def dir find_entry_empty find_free_entry_def)
  have can: "can_save LAINFS_ROOT_DIR name sz (fs_dir blk l p)"
    using name sz(2) by (simp add: can_save_def valid_root dir find_entry_empty)
  have "257 < part_blocks p (store l)" using fresh by (simp add: fresh_partition_def)
  then have "\<exists>b. find_free_extents (Some (partitions (store l) ! p)) fresh_super empty_directory 1 0 =
      Some [\<lparr>ex_start_lba = b, ex_blocks = 1\<rparr>]"
    using fs_okD(2) [OF F(3)] empty_directory_valid [OF F(4)]
    by (intro find_free_extents_complete [of _ _ _ _ 257])
      (simp_all add: part_blocks_def empty_directory_def fresh_super_def used_blocks_empty [unfolded empty_directory_def])
  then obtain xs where "find_free_extents (Some (partitions (store l) ! p)) (disk_super blk p (store l))
      (fs_dir blk l p) (required_blocks sz) 0 = Some xs"
    by (auto simp: F(1) dir sz(1))
  then show ?thesis using save_file_ok [OF ready can sz(3) slot, of xs] by auto
qed

end

subsection \<open>The demo machine is ready\<close>

abbreviation "rd_ready \<equiv> driver_ready ramdisk_read ramdisk_write 0 1048576 ramdisk_block ramdisk_ok"
abbreviation "rd_changed \<equiv> driver_fs_changed ramdisk_read ramdisk_write 0 1048576 ramdisk_block ramdisk_ok"
abbreviation "rd_fs_ok \<equiv> driver_fs_ok ramdisk_read ramdisk_write 0 1048576 ramdisk_block ramdisk_ok"
abbreviation "rd_inv \<equiv> driver_lainfs_inv ramdisk_read ramdisk_write 0 1048576 ramdisk_block ramdisk_ok"
abbreviation "rd_data_lba \<equiv> driver_data_lba ramdisk_read ramdisk_write 0 1048576 ramdisk_block ramdisk_ok"

lemma demo_backed: "backed_by ramdisk_read ramdisk_write 0 1048576 ramdisk_ok 0 demo_storage"
proof -
  have "length (bytes_of_super fresh_super) = 512" by (simp add: fresh_super_def)
  then show ?thesis
    by (simp add: backed_by_def demo_storage_def demo_partition_def demo_device_def ramdisk_ok_def demo_disk_def)
qed

lemma demo_fresh: "ramdisk.fresh_partition 0 demo_storage"
proof -
  have "part_block ramdisk_block 0 demo_storage i = (if i = 0 then bytes_of_super fresh_super else replicate 512 0)" for i
    by (simp add: part_block_def demo_storage_def demo_disk_def demo_partition_def ramdisk_block_def zero_sector_def)
  moreover have "windows_disjoint ramdisk_read ramdisk_write 0 demo_storage"
    by (simp add: windows_disjoint_def on_driver_def demo_storage_def)
  moreover have "part_blocks 0 demo_storage = 1046528"
    by (simp add: part_blocks_def demo_storage_def demo_partition_def)
  ultimately show ?thesis using demo_backed by (simp add: ramdisk.fresh_partition_def)
qed

lemmas demo_disk_super = ramdisk.fresh_disk(1) [OF demo_fresh] and demo_disk_dir = ramdisk.fresh_disk(2) [OF demo_fresh]
  and demo_fs_ok = ramdisk.fresh_disk(3) [OF demo_fresh]

lemma demo_ready: "rd_ready 67 0 demo"
proof -
  have "storage_get_mount_by_drive (to_upper 67) demo_storage = Some demo_mount"
    by (simp add: storage_get_mount_by_drive_def to_upper_def demo_storage_def demo_mount_def)
  then show ?thesis
    unfolding demo_def by (rule ramdisk.fresh_ready(1) [OF demo_fresh]) (simp add: demo_mount_def)
qed

end
