(* ===== verification/Storage_Props.thy ===== *)
theory Storage_Props
  imports Lainfs_Demo
begin

text \<open>
  The properties of the storage layer: the tables a partition scan leaves behind, and partition
  access. The witnesses use the tables of the demo machine and the ramdisk.
\<close>

text \<open>The ramdisk with the partition table that the boot writes.\<close>

definition scan_storage :: "disk_world storage" where
  "scan_storage = demo_storage\<lparr>disk := create_demo_mbr demo_disk, partition_count := 0\<rparr>"

lemma scan_finds: "partition_count (storage_discover_partitions scan_storage) = 1"
  by code_simp

lemma scan_start: "pt_start_lba (partitions (storage_discover_partitions scan_storage) ! 0) = 2048"
  by code_simp

text \<open>
  C23. Whatever the disks hold and whatever the drivers answer, a partition scan ends with
  tables in which every registered partition names a registered device and lies inside it (it starts behind
  block 0, is not empty, and its last block is a block of the device, over unbounded numbers), and
  every mount that is still present points at a registered partition. The scan never changes
  the device table.
\<close>

theorem storage_discover_partitions_inv:
  assumes "length (block_devices s) = 8" and "length (partitions s) = 16"
    and "length (mounts s) = 26" and "block_device_count s \<le> 8"
  shows "storage_inv (storage_discover_partitions s) \<and>
    mounts_ok (storage_discover_partitions s) \<and>
    block_devices (storage_discover_partitions s) = block_devices s \<and>
    block_device_count (storage_discover_partitions s) = block_device_count s"
proof -
  let ?s = "s\<lparr>partition_count := 0\<rparr>"
  let ?t = "discover_devices [0..<block_device_count s] ?s"
  have "storage_inv ?s" using assms by (simp add: storage_inv_def)
  then have "storage_inv ?t \<and> same_devices ?s ?t"
    by (rule discover_devices_inv) simp
  then show ?thesis
    using refresh_mounts_inv [of ?t]
    by (auto simp: storage_discover_partitions_def refresh_mounts_after_partition_scan_def
        same_devices_def)
qed

theorem storage_discover_partitions_inv_witness:
  "partition_count (storage_discover_partitions scan_storage) = 1 \<and> partition_ok scan_storage (partitions (storage_discover_partitions scan_storage) ! 0) \<and>
    pt_start_lba (partitions (storage_discover_partitions scan_storage) ! 0) = 2048"
proof -
  have a: "length (block_devices scan_storage) = 8" "length (partitions scan_storage) = 16" "length (mounts scan_storage) = 26"
    "block_device_count scan_storage \<le> 8" by (simp_all add: scan_storage_def demo_storage_def)
  let ?s = "storage_discover_partitions scan_storage"
  have inv: "storage_inv ?s" "block_devices ?s = block_devices scan_storage" "block_device_count ?s = block_device_count scan_storage"
    using storage_discover_partitions_inv [OF a] by simp_all
  then have "partition_ok ?s (partitions ?s ! 0)" using scan_finds by (simp add: storage_inv_def)
  then show ?thesis using scan_finds scan_start inv(2,3) by (simp add: partition_ok_def)
qed

end
