(* ===== verification/Ata.thy ===== *)
theory Ata
  imports Block_Driver
begin

text \<open>
  The ATA driver of \<^verbatim>\<open>kernel/drivers/storage.c\<close>, the device \<^verbatim>\<open>hd1\<close>: programmed input and output on the
  primary channel. The machine instructions behind \<^verbatim>\<open>inb\<close>, \<^verbatim>\<open>outb\<close>, \<^verbatim>\<open>inw\<close> and \<^verbatim>\<open>outw\<close> are the record
  \<open>ports\<close>, a parameter of every definition, and what the driver relies on of the disk behind them is
  the locale \<open>ata_disk\<close>: the behaviour the ATA standard gives the registers, for a disk that works. Under
  it the driver is shown to honour \<open>block_driver\<close>, so that everything proved of the file system
  for such a driver holds for a file system on an ATA disk; every wait ends, and when a write returns
  nothing is left in the write cache of the disk.
\<close>

record 'h ports =
  port_inb :: "u16 \<Rightarrow> 'h \<Rightarrow> u8 \<times> 'h"
  port_outb :: "u16 \<Rightarrow> u8 \<Rightarrow> 'h \<Rightarrow> 'h"
  port_inw :: "u16 \<Rightarrow> 'h \<Rightarrow> u16 \<times> 'h"
  port_outw :: "u16 \<Rightarrow> u16 \<Rightarrow> 'h \<Rightarrow> 'h"

abbreviation (input) ATA_PRIMARY_IO :: u16 where "ATA_PRIMARY_IO \<equiv> 0x1F0"
abbreviation (input) ATA_PRIMARY_CTRL :: u16 where "ATA_PRIMARY_CTRL \<equiv> 0x3F6"
abbreviation (input) ATA_SR_BSY :: u8 where "ATA_SR_BSY \<equiv> 0x80"
abbreviation (input) ATA_SR_DF :: u8 where "ATA_SR_DF \<equiv> 0x20"
abbreviation (input) ATA_SR_DRQ :: u8 where "ATA_SR_DRQ \<equiv> 0x08"
abbreviation (input) ATA_SR_ERR :: u8 where "ATA_SR_ERR \<equiv> 0x01"
abbreviation (input) ATA_CMD_READ_SECTORS :: u8 where "ATA_CMD_READ_SECTORS \<equiv> 0x20"
abbreviation (input) ATA_CMD_WRITE_SECTORS :: u8 where "ATA_CMD_WRITE_SECTORS \<equiv> 0x30"
abbreviation (input) ATA_CMD_CACHE_FLUSH :: u8 where "ATA_CMD_CACHE_FLUSH \<equiv> 0xE7"

subsection \<open>The driver\<close>

definition io_wait :: "'h ports \<Rightarrow> 'h \<Rightarrow> 'h" where
  "io_wait P h = port_outb P 0x80 0 h"

fun ata_wait_ready_loop :: "'h ports \<Rightarrow> nat \<Rightarrow> 'h \<Rightarrow> int \<times> 'h" where
  "ata_wait_ready_loop P 0 h = (-1, h)"
| "ata_wait_ready_loop P (Suc n) h =
     (let (status, h') = port_inb P (ATA_PRIMARY_IO + 7) h
      in if status = 0xFF then ata_wait_ready_loop P n h'
         else if status AND (ATA_SR_ERR OR ATA_SR_DF) \<noteq> 0 then (-1, h')
         else if status AND ATA_SR_BSY = 0 then (0, h')
         else ata_wait_ready_loop P n h')"

definition ata_wait_ready :: "'h ports \<Rightarrow> 'h \<Rightarrow> int \<times> 'h" where
  "ata_wait_ready P h = ata_wait_ready_loop P 1000000 h"

fun ata_wait_drq_loop :: "'h ports \<Rightarrow> nat \<Rightarrow> 'h \<Rightarrow> int \<times> 'h" where
  "ata_wait_drq_loop P 0 h = (-1, h)"
| "ata_wait_drq_loop P (Suc n) h =
     (let (status, h') = port_inb P (ATA_PRIMARY_IO + 7) h
      in if status = 0xFF then ata_wait_drq_loop P n h'
         else if status AND (ATA_SR_ERR OR ATA_SR_DF) \<noteq> 0 then (-1, h')
         else if status AND ATA_SR_BSY = 0 \<and> status AND ATA_SR_DRQ \<noteq> 0 then (0, h')
         else ata_wait_drq_loop P n h')"

definition ata_wait_drq :: "'h ports \<Rightarrow> 'h \<Rightarrow> int \<times> 'h" where
  "ata_wait_drq P h = ata_wait_drq_loop P 1000000 h"

definition ata_soft_reset :: "'h ports \<Rightarrow> 'h \<Rightarrow> 'h" where
  "ata_soft_reset P h =
     (let h1 = (io_wait P ^^ 8) (port_outb P ATA_PRIMARY_CTRL 0x04 h);
          h2 = (io_wait P ^^ 8) (port_outb P ATA_PRIMARY_CTRL 0x00 h1)
      in snd (ata_wait_ready P h2))"

text \<open>The context handle of the device is the field \<^verbatim>\<open>slave\<close> of its \<^verbatim>\<open>ata_device_t\<close>.\<close>

definition ata_select :: "'h ports \<Rightarrow> nat \<Rightarrow> u64 \<Rightarrow> 'h \<Rightarrow> int \<times> 'h" where
  "ata_select P slave lba h =
     (if 0x0FFFFFFF < lba then (-1, h)
      else let (st, h1) = ata_wait_ready P h
           in if st \<noteq> 0 then (-1, h1)
              else let h2 = port_outb P (ATA_PRIMARY_IO + 6)
                         (ucast ((0xE0 :: u64) OR (if slave \<noteq> 0 then 0x10 else 0) OR (drop_bit 24 lba AND 0x0F))) h1;
                       h3 = io_wait P h2
                   in ata_wait_ready P h3)"

text \<open>The registers of one sector and the command, the same in reading and writing.\<close>

definition ata_issue :: "'h ports \<Rightarrow> u64 \<Rightarrow> u8 \<Rightarrow> 'h \<Rightarrow> 'h" where
  "ata_issue P lba command h =
     port_outb P (ATA_PRIMARY_IO + 7) command
       (port_outb P (ATA_PRIMARY_IO + 5) (ucast (drop_bit 16 lba AND 0xFF))
         (port_outb P (ATA_PRIMARY_IO + 4) (ucast (drop_bit 8 lba AND 0xFF))
           (port_outb P (ATA_PRIMARY_IO + 3) (ucast (lba AND 0xFF))
             (port_outb P (ATA_PRIMARY_IO + 2) 1 h))))"

fun ata_read_words :: "'h ports \<Rightarrow> nat \<Rightarrow> nat list \<Rightarrow> bytes \<Rightarrow> 'h \<Rightarrow> bytes \<times> 'h" where
  "ata_read_words P base [] out h = (out, h)"
| "ata_read_words P base (i # is) out h =
     (let (w, h') = port_inw P ATA_PRIMARY_IO h
      in ata_read_words P base is
           (out[base + i * 2 := ucast (w AND 0xFF), base + i * 2 + 1 := ucast (drop_bit 8 w)]) h')"

fun ata_read_sectors :: "'h ports \<Rightarrow> nat \<Rightarrow> u64 \<Rightarrow> nat list \<Rightarrow> bytes \<Rightarrow> 'h \<Rightarrow> int \<times> bytes \<times> 'h" where
  "ata_read_sectors P slave lba [] out h = (0, out, h)"
| "ata_read_sectors P slave lba (sector # sectors) out h =
     (let current_lba = lba + word_of_nat sector; (st, h1) = ata_select P slave current_lba h
      in if st \<noteq> 0 then (-1, out, h1)
         else let (st', h2) = ata_wait_drq P (ata_issue P current_lba ATA_CMD_READ_SECTORS h1)
              in if st' \<noteq> 0 then (-1, out, h2)
                 else let (out', h3) = ata_read_words P (sector * SECTOR_SIZE) [0..<SECTOR_SIZE div 2] out h2
                      in ata_read_sectors P slave lba sectors out' h3)"

definition ata_pio_read :: "'h ports \<Rightarrow> 'h block_read_t" where
  "ata_pio_read P slave lba count buffer h =
     (if count = 0 then (0, buffer, h) else ata_read_sectors P slave lba [0..<unat count] buffer h)"

fun ata_write_words :: "'h ports \<Rightarrow> nat \<Rightarrow> nat list \<Rightarrow> bytes \<Rightarrow> 'h \<Rightarrow> 'h" where
  "ata_write_words P base [] inp h = h"
| "ata_write_words P base (i # is) inp h =
     ata_write_words P base is inp
       (port_outw P ATA_PRIMARY_IO
         (ucast (inp ! (base + i * 2)) OR push_bit 8 (ucast (inp ! (base + i * 2 + 1)))) h)"

fun ata_write_sectors :: "'h ports \<Rightarrow> nat \<Rightarrow> u64 \<Rightarrow> nat list \<Rightarrow> bytes \<Rightarrow> 'h \<Rightarrow> int \<times> 'h" where
  "ata_write_sectors P slave lba [] inp h = (0, h)"
| "ata_write_sectors P slave lba (sector # sectors) inp h =
     (let current_lba = lba + word_of_nat sector; (st, h1) = ata_select P slave current_lba h
      in if st \<noteq> 0 then (-1, h1)
         else let (st2, h2) = ata_wait_drq P (ata_issue P current_lba ATA_CMD_WRITE_SECTORS h1)
              in if st2 \<noteq> 0 then (-1, h2)
                 else let (st3, h3) = ata_wait_ready P
                            (ata_write_words P (sector * SECTOR_SIZE) [0..<SECTOR_SIZE div 2] inp h2)
                      in if st3 \<noteq> 0 then (-1, h3)
                         else let (st4, h4) = ata_wait_ready P (port_outb P (ATA_PRIMARY_IO + 7) ATA_CMD_CACHE_FLUSH h3)
                              in if st4 \<noteq> 0 then (-1, h4) else ata_write_sectors P slave lba sectors inp h4)"

definition ata_pio_write :: "'h ports \<Rightarrow> 'h block_write_t" where
  "ata_pio_write P slave lba count buffer h =
     (if count = 0 then (0, h) else ata_write_sectors P slave lba [0..<unat count] buffer h)"

definition ata_probe :: "'h ports \<Rightarrow> nat \<Rightarrow> bytes \<Rightarrow> 'h \<Rightarrow> int \<times> 'h" where
  "ata_probe P slave sector h =
     (let (st, sector', h') = ata_pio_read P slave 0 1 sector h in if st \<noteq> 0 then (-1, h') else (0, h'))"

subsection \<open>What a working disk does\<close>

text \<open>
  What can be observed of the channel: the task file registers, the phase of a transfer, the number of
  polls for which the status register still shows the device busy, whether the write cache of the
  disk is empty, and the sectors. While a sector is read the phase has the words still to come,
  while one is written the address and the words that have arrived.
\<close>

datatype ata_phase = Idle | Reading "u16 list" | Writing nat "u16 list"

record ata_view =
  av_device :: u8
  av_count :: u8
  av_low :: u8
  av_mid :: u8
  av_high :: u8
  av_phase :: ata_phase
  av_delay :: nat
  av_flushed :: bool
  av_sectors :: "nat \<Rightarrow> bytes"

definition words_bytes :: "u16 list \<Rightarrow> bytes" where
  "words_bytes ws = concat (map (\<lambda>w. [ucast (w AND 0xFF), ucast (drop_bit 8 w)]) ws)"

definition ata_address :: "ata_view \<Rightarrow> nat" where
  "ata_address v = unat (av_low v) + 256 * unat (av_mid v) + 65536 * unat (av_high v) + 16777216 * unat (av_device v AND 0x0F)"

definition selects :: "nat \<Rightarrow> ata_view \<Rightarrow> bool" where
  "selects slave v \<longleftrightarrow> av_device v AND 0xF0 = (if slave \<noteq> 0 then 0xF0 else 0xE0)"

definition set_register :: "u16 \<Rightarrow> u8 \<Rightarrow> ata_view \<Rightarrow> ata_view" where
  "set_register port b v =
     (if port = 0x1F2 then v\<lparr>av_count := b\<rparr> else if port = 0x1F3 then v\<lparr>av_low := b\<rparr>
      else if port = 0x1F4 then v\<lparr>av_mid := b\<rparr> else if port = 0x1F5 then v\<lparr>av_high := b\<rparr>
      else if port = 0x1F6 then v\<lparr>av_device := b\<rparr> else v)"

locale ata_disk =
  fixes P :: "'h ports" and slave :: nat and cap :: nat and view :: "'h \<Rightarrow> ata_view" and live :: "'h \<Rightarrow> bool"
  assumes cap_28: "cap \<le> 2 ^ 28"
    and sectors_whole: "live h \<Longrightarrow> i < cap \<Longrightarrow> length (av_sectors (view h) i) = SECTOR_SIZE"
    and delay_bound: "live h \<Longrightarrow> av_delay (view h) < 1000000"
    and status_ready: "live h \<Longrightarrow> av_delay (view h) = 0 \<Longrightarrow>
      \<exists>st h'. port_inb P 0x1F7 h = (st, h') \<and> live h' \<and> view h' = view h \<and> st \<noteq> 0xFF \<and> st AND 0x21 = 0 \<and>
        st AND 0x80 = 0 \<and> (st AND 0x08 = 0 \<longleftrightarrow> av_phase (view h) = Idle)"
    and status_busy: "live h \<Longrightarrow> av_delay (view h) = Suc n \<Longrightarrow>
      \<exists>st h'. port_inb P 0x1F7 h = (st, h') \<and> live h' \<and> view h' = (view h)\<lparr>av_delay := n\<rparr> \<and>
        (st = 0xFF \<or> st AND 0x21 = 0 \<and> st AND 0x80 \<noteq> 0)"
    and delay_port: "live h \<Longrightarrow> live (port_outb P 0x80 b h) \<and> view (port_outb P 0x80 b h) = view h"
    and register: "live h \<Longrightarrow> av_delay (view h) = 0 \<Longrightarrow> av_phase (view h) = Idle \<Longrightarrow> port \<in> {0x1F2, 0x1F3, 0x1F4, 0x1F5} \<Longrightarrow>
      live (port_outb P port b h) \<and> view (port_outb P port b h) = set_register port b (view h)"
    and device: "live h \<Longrightarrow> av_delay (view h) = 0 \<Longrightarrow> av_phase (view h) = Idle \<Longrightarrow>
      live (port_outb P 0x1F6 b h) \<and> (\<exists>n. view (port_outb P 0x1F6 b h) = (set_register 0x1F6 b (view h))\<lparr>av_delay := n\<rparr>)"
    and read_command: "live h \<Longrightarrow> av_delay (view h) = 0 \<Longrightarrow> av_phase (view h) = Idle \<Longrightarrow> selects slave (view h) \<Longrightarrow>
      av_count (view h) = 1 \<Longrightarrow> ata_address (view h) < cap \<Longrightarrow>
      live (port_outb P 0x1F7 0x20 h) \<and>
      (\<exists>ws n. words_bytes ws = av_sectors (view h) (ata_address (view h)) \<and>
         view (port_outb P 0x1F7 0x20 h) = (view h)\<lparr>av_phase := Reading ws, av_delay := n\<rparr>)"
    and read_data: "live h \<Longrightarrow> av_delay (view h) = 0 \<Longrightarrow> av_phase (view h) = Reading (w # ws) \<Longrightarrow>
      \<exists>h'. port_inw P 0x1F0 h = (w, h') \<and> live h' \<and>
        view h' = (view h)\<lparr>av_phase := if ws = [] then Idle else Reading ws\<rparr>"
    and write_command: "live h \<Longrightarrow> av_delay (view h) = 0 \<Longrightarrow> av_phase (view h) = Idle \<Longrightarrow> selects slave (view h) \<Longrightarrow>
      av_count (view h) = 1 \<Longrightarrow> ata_address (view h) < cap \<Longrightarrow>
      live (port_outb P 0x1F7 0x30 h) \<and>
      (\<exists>n. view (port_outb P 0x1F7 0x30 h) = (view h)\<lparr>av_phase := Writing (ata_address (view h)) [], av_delay := n\<rparr>)"
    and write_data: "live h \<Longrightarrow> av_delay (view h) = 0 \<Longrightarrow> av_phase (view h) = Writing a ws \<Longrightarrow> length ws < 255 \<Longrightarrow>
      live (port_outw P 0x1F0 w h) \<and> view (port_outw P 0x1F0 w h) = (view h)\<lparr>av_phase := Writing a (ws @ [w])\<rparr>"
    and write_last: "live h \<Longrightarrow> av_delay (view h) = 0 \<Longrightarrow> av_phase (view h) = Writing a ws \<Longrightarrow> length ws = 255 \<Longrightarrow>
      live (port_outw P 0x1F0 w h) \<and>
      (\<exists>n. view (port_outw P 0x1F0 w h) = (view h)\<lparr>av_phase := Idle, av_delay := n, av_flushed := False,
         av_sectors := (av_sectors (view h))(a := words_bytes (ws @ [w]))\<rparr>)"
    and flush_command: "live h \<Longrightarrow> av_delay (view h) = 0 \<Longrightarrow> av_phase (view h) = Idle \<Longrightarrow> selects slave (view h) \<Longrightarrow>
      live (port_outb P 0x1F7 0xE7 h) \<and> (\<exists>n. view (port_outb P 0x1F7 0xE7 h) = (view h)\<lparr>av_flushed := True, av_delay := n\<rparr>)"
begin

end

subsection \<open>Words and addresses\<close>

lemma length_words_bytes [simp]: "length (words_bytes ws) = 2 * length ws"
  by (induction ws) (simp_all add: words_bytes_def)

lemma words_bytes_Cons: "words_bytes (w # ws) = ucast (w AND 0xFF) # ucast (drop_bit 8 w) # words_bytes ws"
  by (simp add: words_bytes_def)

definition word_of_pair :: "nat \<Rightarrow> bytes \<Rightarrow> nat \<Rightarrow> u16" where
  "word_of_pair base inp i = ucast (inp ! (base + i * 2)) OR push_bit 8 (ucast (inp ! (base + i * 2 + 1)))"

lemma byte_pair:
  fixes a b :: u8
  defines "w \<equiv> (ucast a OR push_bit 8 (ucast b) :: u16)"
  shows "ucast (w AND 0xFF) = a" "ucast (drop_bit 8 w) = b"
proof -
  have m: "(0xFF :: u16) = mask 8" by (simp add: mask_eq_exp_minus_1)
  show "ucast (w AND 0xFF) = a" unfolding w_def m by (rule bit_word_eqI) (auto simp: bit_simps)
  show "ucast (drop_bit 8 w) = b"
    unfolding w_def by (rule bit_word_eqI) (auto simp: bit_simps dest: bit_imp_le_length)
qed

lemma words_of_sector:
  assumes "base + 2 * n \<le> length inp"
  shows "words_bytes (map (word_of_pair base inp) [0..<n]) = slice base (2 * n) inp"
  using assms
proof (induction n)
  case (Suc n)
  have "words_bytes (map (word_of_pair base inp) [0..<Suc n]) =
      words_bytes (map (word_of_pair base inp) [0..<n]) @ [inp ! (base + n * 2), inp ! (base + n * 2 + 1)]"
    using byte_pair by (simp add: words_bytes_def word_of_pair_def)
  also have "\<dots> = slice base (2 * n) inp @ [inp ! (base + n * 2), inp ! (base + n * 2 + 1)]" using Suc by simp
  also have "\<dots> = slice base (2 * Suc n) inp"
    using Suc.prems by (intro nth_equalityI) (auto simp: nth_append nth_slice nth_Cons' mult.commute less_Suc_eq)
  finally show ?case .
qed (simp add: words_bytes_def slice_def)

lemma overwrite_two:
  assumes "n + 2 + length ys \<le> length xs"
  shows "overwrite (n + 2) ys (xs[n := a, n + 1 := b]) = overwrite n (a # b # ys) xs"
  using assms by (intro nth_equalityI) (auto simp: nth_overwrite nth_Cons' nth_list_update)

lemma four_bytes:
  "n mod 256 + 256 * (n div 256 mod 256) + 65536 * (n div 256 div 256 mod 256) + 16777216 * (n div 256 div 256 div 256) = (n :: nat)"
proof -
  define a b where "a = n div 256" and "b = a div 256"
  have "n = 256 * a + n mod 256" "a = 256 * b + a mod 256" "b = 256 * (b div 256) + b mod 256"
    unfolding a_def b_def by simp_all
  then show ?thesis unfolding a_def [symmetric] b_def [symmetric] by linarith
qed

lemma unat_drop_bit: "unat (drop_bit k (lba :: u64)) = unat lba div 2 ^ k"
proof -
  have "unat (drop_bit k lba) = drop_bit k (unat lba)" by (rule unat_drop_bit_eq)
  then show ?thesis by (simp only: drop_bit_eq_div)
qed

lemma lba_byte: "unat (ucast (drop_bit k (lba :: u64) AND 0xFF) :: u8) = unat lba div 2 ^ k mod 256"
proof -
  have m: "(0xFF :: u64) = mask 8" by (simp add: mask_eq_exp_minus_1)
  have "ucast (drop_bit k lba AND 0xFF) = (ucast (drop_bit k lba) :: u8)"
    unfolding m by (auto intro!: bit_word_eqI simp: bit_simps)
  then have "unat (ucast (drop_bit k lba AND 0xFF) :: u8) = unat (drop_bit k lba) mod 256"
    by (simp add: unsigned_ucast_eq take_bit_eq_mod)
  then show ?thesis by (simp only: unat_drop_bit)
qed

lemma device_bits:
  fixes lba :: u64 and slave :: nat
  defines "d \<equiv> (ucast ((0xE0 :: u64) OR (if slave \<noteq> 0 then 0x10 else 0) OR (drop_bit 24 lba AND 0x0F)) :: u8)"
  shows "d AND 0xF0 = (if slave \<noteq> 0 then 0xF0 else 0xE0)" "d AND 0x0F = ucast (drop_bit 24 lba AND 0x0F)"
proof -
  have e: "d = (0xE0 OR (if slave \<noteq> 0 then 0x10 else 0)) OR ucast (drop_bit 24 lba AND 0x0F)"
    unfolding d_def by (rule bit_word_eqI) (auto simp: bit_simps)
  have low: "(ucast (drop_bit 24 lba AND 0x0F) :: u8) = ucast (drop_bit 24 lba) AND 0x0F"
    by (rule bit_word_eqI) (auto simp: bit_simps)
  have z: "(ucast (drop_bit 24 lba) AND 0x0F) AND (0xF0 :: u8) = 0"
    by (simp add: and.assoc)
  show "d AND 0xF0 = (if slave \<noteq> 0 then 0xF0 else 0xE0)"
    unfolding e low by (simp add: bit.conj_disj_distrib2 z)
  show "d AND 0x0F = ucast (drop_bit 24 lba AND 0x0F)"
    unfolding e low by (simp add: bit.conj_disj_distrib2 and.assoc)
qed

text \<open>The registers after \<^verbatim>\<open>ata_select\<close> and the four address writes hold the address.\<close>

lemma address_registers:
  fixes lba :: u64
  assumes "lba \<le> 0x0FFFFFFF" and "av_device v = ucast ((0xE0 :: u64) OR (if slave \<noteq> 0 then 0x10 else 0) OR (drop_bit 24 lba AND 0x0F))"
    and "av_low v = ucast (lba AND 0xFF)" and "av_mid v = ucast (drop_bit 8 lba AND 0xFF)"
    and "av_high v = ucast (drop_bit 16 lba AND 0xFF)"
  shows "ata_address v = unat lba" "selects slave v"
proof -
  have l: "unat lba < 2 ^ 28" using assms(1) by (simp add: word_le_nat_alt)
  have m: "(0x0F :: u64) = mask 4" by (simp add: mask_eq_exp_minus_1)
  have "av_device v AND 0x0F = ucast (drop_bit 24 lba AND 0x0F)" unfolding assms(2) by (rule device_bits(2))
  also have "\<dots> = ucast (take_bit 4 (drop_bit 24 lba))" unfolding m by (simp add: take_bit_eq_mask)
  finally have "unat (av_device v AND 0x0F) = take_bit 4 (unat (drop_bit 24 lba))"
    by (simp add: unsigned_ucast_eq unsigned_take_bit_eq)
  also have "\<dots> = unat lba div 2 ^ 24 mod 16" unfolding unat_drop_bit by (simp add: take_bit_eq_mod)
  finally have d: "unat (av_device v AND 0x0F) = unat lba div 2 ^ 24" using l by simp
  have b: "unat (av_low v) = unat lba mod 256" "unat (av_mid v) = unat lba div 2 ^ 8 mod 256"
    "unat (av_high v) = unat lba div 2 ^ 16 mod 256"
    using lba_byte [of 0 lba] lba_byte [of 8 lba] lba_byte [of 16 lba] assms(3-5) by simp_all
  have q: "unat lba div 2 ^ 16 = unat lba div 2 ^ 8 div 256" "unat lba div 2 ^ 24 = unat lba div 2 ^ 8 div 256 div 256"
    by (simp_all add: div_mult2_eq [symmetric])
  show "ata_address v = unat lba"
    unfolding ata_address_def d b q using four_bytes [of "unat lba"] by simp
  show "selects slave v" unfolding selects_def assms(2) device_bits(1) ..
qed

subsection \<open>Waiting\<close>

context ata_disk
begin

lemma wait_ready_loop:
  assumes "live h" and "av_delay (view h) < n"
  shows "\<exists>h'. ata_wait_ready_loop P n h = (0, h') \<and> live h' \<and> view h' = (view h)\<lparr>av_delay := 0\<rparr>"
  using assms
proof (induction n arbitrary: h)
  case (Suc n)
  show ?case
  proof (cases "av_delay (view h)")
    case 0
    then show ?thesis using status_ready [OF Suc.prems(1) 0] by auto
  next
    case (Suc m)
    obtain st h' where h': "port_inb P 0x1F7 h = (st, h')" "live h'" "view h' = (view h)\<lparr>av_delay := m\<rparr>"
      "st = 0xFF \<or> st AND 0x21 = 0 \<and> st AND 0x80 \<noteq> 0"
      using status_busy [OF Suc.prems(1) Suc] by blast
    then show ?thesis using Suc.IH [OF h'(2)] Suc.prems(2) Suc by auto
  qed
qed simp

lemma wait_drq_loop:
  assumes "live h" and "av_delay (view h) < n" and "av_phase (view h) \<noteq> Idle"
  shows "\<exists>h'. ata_wait_drq_loop P n h = (0, h') \<and> live h' \<and> view h' = (view h)\<lparr>av_delay := 0\<rparr>"
  using assms
proof (induction n arbitrary: h)
  case (Suc n)
  show ?case
  proof (cases "av_delay (view h)")
    case 0
    then show ?thesis using status_ready [OF Suc.prems(1) 0] Suc.prems(3) by auto
  next
    case (Suc m)
    obtain st h' where h': "port_inb P 0x1F7 h = (st, h')" "live h'" "view h' = (view h)\<lparr>av_delay := m\<rparr>"
      "st = 0xFF \<or> st AND 0x21 = 0 \<and> st AND 0x80 \<noteq> 0"
      using status_busy [OF Suc.prems(1) Suc] by blast
    then show ?thesis using Suc.IH [OF h'(2)] Suc.prems(2,3) Suc by auto
  qed
qed simp

lemma wait_ready:
  assumes "live h"
  obtains h' where "ata_wait_ready P h = (0, h')" "live h'" "view h' = (view h)\<lparr>av_delay := 0\<rparr>"
  using wait_ready_loop [OF assms delay_bound [OF assms]] by (auto simp: ata_wait_ready_def)

lemma wait_drq:
  assumes "live h" and "av_phase (view h) \<noteq> Idle"
  obtains h' where "ata_wait_drq P h = (0, h')" "live h'" "view h' = (view h)\<lparr>av_delay := 0\<rparr>"
  using wait_drq_loop [OF assms(1) delay_bound [OF assms(1)] assms(2)] by (auto simp: ata_wait_drq_def)

subsection \<open>One sector\<close>

text \<open>The channel between two sectors: the disk works, no transfer is under way, the write cache is empty.\<close>

definition at_rest :: "'h \<Rightarrow> bool" where
  "at_rest h \<longleftrightarrow> live h \<and> av_phase (view h) = Idle \<and> av_flushed (view h)"

lemma select_ok:
  assumes "live h" and "av_phase (view h) = Idle" and "lba \<le> 0x0FFFFFFF"
  obtains h' where "ata_select P slave lba h = (0, h')" "live h'"
    "view h' = (view h)\<lparr>av_device := ucast ((0xE0 :: u64) OR (if slave \<noteq> 0 then 0x10 else 0) OR (drop_bit 24 lba AND 0x0F)),
       av_delay := 0\<rparr>"
proof -
  let ?d = "ucast ((0xE0 :: u64) OR (if slave \<noteq> 0 then 0x10 else 0) OR (drop_bit 24 lba AND 0x0F)) :: u8"
  obtain h1 where h1: "ata_wait_ready P h = (0, h1)" "live h1" "view h1 = (view h)\<lparr>av_delay := 0\<rparr>"
    by (rule wait_ready [OF assms(1)])
  define h3 where "h3 = io_wait P (port_outb P 0x1F6 ?d h1)"
  obtain n where h3: "live h3" "view h3 = (view h)\<lparr>av_device := ?d, av_delay := n\<rparr>"
    using device [OF h1(2), of ?d] h1(3) assms(2) delay_port [of "port_outb P 0x1F6 ?d h1" 0]
    by (auto simp: h3_def io_wait_def set_register_def)
  obtain h4 where h4: "ata_wait_ready P h3 = (0, h4)" "live h4" "view h4 = (view h3)\<lparr>av_delay := 0\<rparr>"
    by (rule wait_ready [OF h3(1)])
  have "\<not> 0x0FFFFFFF < lba" using assms(3) by (simp add: not_less)
  then have "ata_select P slave lba h = (0, h4)"
    unfolding ata_select_def using h1(1) h4(1) by (simp add: h3_def)
  with h4(2,3) h3(2) show ?thesis by (intro that [of h4]) simp_all
qed

lemma issue_registers:
  assumes "live h" and "av_delay (view h) = 0" and "av_phase (view h) = Idle"
    and "av_device (view h) = ucast ((0xE0 :: u64) OR (if slave \<noteq> 0 then 0x10 else 0) OR (drop_bit 24 lba AND 0x0F))"
    and "lba \<le> 0x0FFFFFFF"
  obtains h' where "ata_issue P lba command h = port_outb P 0x1F7 command h'" "live h'" "av_delay (view h') = 0"
    "av_phase (view h') = Idle" "av_count (view h') = 1" "ata_address (view h') = unat lba" "selects slave (view h')"
    "av_sectors (view h') = av_sectors (view h)" "av_flushed (view h') = av_flushed (view h)"
proof -
  define h1 where "h1 = port_outb P 0x1F2 1 h"
  define h2 where "h2 = port_outb P 0x1F3 (ucast (lba AND 0xFF)) h1"
  define h3 where "h3 = port_outb P 0x1F4 (ucast (drop_bit 8 lba AND 0xFF)) h2"
  define h4 where "h4 = port_outb P 0x1F5 (ucast (drop_bit 16 lba AND 0xFF)) h3"
  have 1: "live h1" "view h1 = (view h)\<lparr>av_count := 1\<rparr>"
    using register [OF assms(1-3), of "0x1F2" 1] by (simp_all add: h1_def set_register_def)
  have 2: "live h2" "view h2 = (view h1)\<lparr>av_low := ucast (lba AND 0xFF)\<rparr>"
    using register [OF 1(1), of "0x1F3"] 1 assms(2,3) by (simp_all add: h2_def set_register_def)
  have 3: "live h3" "view h3 = (view h2)\<lparr>av_mid := ucast (drop_bit 8 lba AND 0xFF)\<rparr>"
    using register [OF 2(1), of "0x1F4"] 1 2 assms(2,3) by (simp_all add: h3_def set_register_def)
  have 4: "live h4" "view h4 = (view h3)\<lparr>av_high := ucast (drop_bit 16 lba AND 0xFF)\<rparr>"
    using register [OF 3(1), of "0x1F5"] 1 2 3 assms(2,3) by (simp_all add: h4_def set_register_def)
  have "ata_address (view h4) = unat lba" "selects slave (view h4)"
    by (rule address_registers [OF assms(5)]; simp add: 1 2 3 4 assms(4))+
  moreover have "ata_issue P lba command h = port_outb P 0x1F7 command h4"
    by (simp add: ata_issue_def h1_def h2_def h3_def h4_def)
  ultimately show ?thesis using 1 2 3 4 assms(2,3) by (intro that [of h4]) simp_all
qed

lemma read_words:
  assumes "live h" and "av_delay (view h) = 0" and "av_phase (view h) = Reading ws" and "ws \<noteq> []"
    and "base + (k + length ws) * 2 \<le> length out"
  shows "\<exists>h'. ata_read_words P base [k..<k + length ws] out h = (overwrite (base + k * 2) (words_bytes ws) out, h') \<and>
    live h' \<and> view h' = (view h)\<lparr>av_phase := Idle\<rparr>"
  using assms
proof (induction ws arbitrary: k out h)
  case (Cons w ws)
  obtain h' where h': "port_inw P 0x1F0 h = (w, h')" "live h'" "view h' = (view h)\<lparr>av_phase := if ws = [] then Idle else Reading ws\<rparr>"
    using read_data [OF Cons.prems(1-3)] by blast
  let ?out = "out[base + k * 2 := ucast (w AND 0xFF), base + k * 2 + 1 := ucast (drop_bit 8 w)]"
  have u: "[k..<k + length (w # ws)] = k # [Suc k..<Suc k + length ws]"
    using upt_conv_Cons [of k "k + length (w # ws)"] by (simp del: upt_Suc)
  have o: "overwrite (base + Suc k * 2) (words_bytes ws) ?out = overwrite (base + k * 2) (words_bytes (w # ws)) out"
    using overwrite_two [of "base + k * 2" "words_bytes ws" out] Cons.prems(5) by (simp add: words_bytes_Cons)
  have s: "ata_read_words P base [k..<k + length (w # ws)] out h = ata_read_words P base [Suc k..<Suc k + length ws] ?out h'"
    unfolding u using h'(1) by simp
  show ?case
  proof (cases "ws = []")
    case True
    with o have "?out = overwrite (base + k * 2) (words_bytes (w # ws)) out" by (simp add: words_bytes_def)
    then show ?thesis unfolding s using h' True by simp
  next
    case False
    then show ?thesis
      unfolding s o [symmetric] using Cons.IH [of h' "Suc k" ?out] h' Cons.prems(2,5) by simp
  qed
qed simp

lemma write_words:
  assumes "live h" and "av_delay (view h) = 0" and "av_phase (view h) = Writing a ws" and "length ws + Suc m = 256"
  shows "\<exists>n. live (ata_write_words P base [length ws..<256] inp h) \<and>
    view (ata_write_words P base [length ws..<256] inp h) = (view h)\<lparr>av_phase := Idle, av_delay := n, av_flushed := False,
      av_sectors := (av_sectors (view h))(a := words_bytes (ws @ map (word_of_pair base inp) [length ws..<256]))\<rparr>"
  using assms(1-4)
proof (induction m arbitrary: ws h)
  case 0
  then have "[length ws..<256] = [length ws]" by (simp add: upt_conv_Cons)
  moreover obtain n where "live (port_outw P 0x1F0 (word_of_pair base inp (length ws)) h)"
    "view (port_outw P 0x1F0 (word_of_pair base inp (length ws)) h) = (view h)\<lparr>av_phase := Idle, av_delay := n, av_flushed := False,
      av_sectors := (av_sectors (view h))(a := words_bytes (ws @ [word_of_pair base inp (length ws)]))\<rparr>"
    using write_last [OF 0(1-3), of "word_of_pair base inp (length ws)"] 0(4) by auto
  ultimately show ?case by (intro exI [of _ n]) (simp add: word_of_pair_def fun_upd_def)
next
  case (Suc m)
  let ?w = "word_of_pair base inp (length ws)" and ?h = "port_outw P 0x1F0 (word_of_pair base inp (length ws)) h"
  have u: "[length ws..<256] = length ws # [length (ws @ [?w])..<256]"
    using Suc.prems(4) by (simp add: upt_conv_Cons)
  have h': "live ?h" "view ?h = (view h)\<lparr>av_phase := Writing a (ws @ [?w])\<rparr>"
    using write_data [OF Suc.prems(1-3), of ?w] Suc.prems(4) by auto
  have s: "ata_write_words P base [length ws..<256] inp h = ata_write_words P base [length (ws @ [?w])..<256] inp ?h"
    unfolding u by (simp add: word_of_pair_def)
  obtain n where "live (ata_write_words P base [length (ws @ [?w])..<256] inp ?h)"
    "view (ata_write_words P base [length (ws @ [?w])..<256] inp ?h) = (view ?h)\<lparr>av_phase := Idle, av_delay := n, av_flushed := False,
      av_sectors := (av_sectors (view ?h))(a := words_bytes ((ws @ [?w]) @ map (word_of_pair base inp) [length (ws @ [?w])..<256]))\<rparr>"
    using Suc.IH [OF h'(1), of "ws @ [?w]"] h'(2) Suc.prems(2,4) by (auto simp: fun_upd_def)
  then show ?case unfolding s by (auto simp: h'(2) fun_upd_def u)
qed

lemma lba_in_cap:
  fixes lba :: u64
  assumes "unat lba < cap"
  shows "lba \<le> 0x0FFFFFFF"
  using assms cap_28 by (simp add: word_le_nat_alt)

lemma command_ready:
  assumes "at_rest h" and "unat lba < cap"
  obtains h' where "ata_select P slave lba h = (0, fst h')" "ata_issue P lba command (fst h') = port_outb P 0x1F7 command (snd h')"
    "live (snd h')" "av_delay (view (snd h')) = 0" "av_phase (view (snd h')) = Idle" "av_count (view (snd h')) = 1"
    "ata_address (view (snd h')) = unat lba" "selects slave (view (snd h'))"
    "av_sectors (view (snd h')) = av_sectors (view h)" "av_flushed (view (snd h'))"
proof -
  note lba = lba_in_cap [OF assms(2)]
  obtain h1 where h1: "ata_select P slave lba h = (0, h1)" "live h1"
    "view h1 = (view h)\<lparr>av_device := ucast ((0xE0 :: u64) OR (if slave \<noteq> 0 then 0x10 else 0) OR (drop_bit 24 lba AND 0x0F)),
       av_delay := 0\<rparr>"
    using assms(1) by (auto simp: at_rest_def intro: select_ok [OF _ _ lba])
  have v: "av_delay (view h1) = 0" "av_phase (view h1) = Idle"
    "av_device (view h1) = ucast ((0xE0 :: u64) OR (if slave \<noteq> 0 then 0x10 else 0) OR (drop_bit 24 lba AND 0x0F))"
    "av_sectors (view h1) = av_sectors (view h)" "av_flushed (view h1)"
    using assms(1) by (simp_all add: at_rest_def h1(3))
  obtain h2 where h2: "ata_issue P lba command h1 = port_outb P 0x1F7 command h2" "live h2" "av_delay (view h2) = 0"
    "av_phase (view h2) = Idle" "av_count (view h2) = 1" "ata_address (view h2) = unat lba" "selects slave (view h2)"
    "av_sectors (view h2) = av_sectors (view h1)" "av_flushed (view h2) = av_flushed (view h1)"
    by (rule issue_registers [OF h1(2) v(1-3) lba])
  show ?thesis using h1(1) h2 v(4,5) by (intro that [of "(h1, h2)"]) simp_all
qed

lemma read_sector:
  assumes rest: "at_rest h" and a: "unat (lba + word_of_nat i) < cap" and out: "i * 512 + 512 \<le> length out"
  obtains h' where "ata_read_sectors P slave lba (i # is) out h =
      ata_read_sectors P slave lba is (overwrite (i * 512) (av_sectors (view h) (unat (lba + word_of_nat i))) out) h'"
    "at_rest h'" "av_sectors (view h') = av_sectors (view h)"
proof -
  let ?a = "unat (lba + word_of_nat i)"
  obtain hh where S: "ata_select P slave (lba + word_of_nat i) h = (0, fst hh)"
    "ata_issue P (lba + word_of_nat i) 0x20 (fst hh) = port_outb P 0x1F7 0x20 (snd hh)"
    "live (snd hh)" "av_delay (view (snd hh)) = 0" "av_phase (view (snd hh)) = Idle" "av_count (view (snd hh)) = 1"
    "ata_address (view (snd hh)) = ?a" "selects slave (view (snd hh))"
    "av_sectors (view (snd hh)) = av_sectors (view h)" "av_flushed (view (snd hh))"
    by (rule command_ready [OF rest a])
  let ?h = "port_outb P 0x1F7 0x20 (snd hh)"
  obtain ws n where R: "live ?h" "words_bytes ws = av_sectors (view h) ?a"
    "view ?h = (view (snd hh))\<lparr>av_phase := Reading ws, av_delay := n\<rparr>"
    using read_command [OF S(3-5,8,6)] S(7,9) a by auto
  obtain h2 where h2: "ata_wait_drq P ?h = (0, h2)" "live h2" "view h2 = (view ?h)\<lparr>av_delay := 0\<rparr>"
    using R(3) by (auto intro: wait_drq [OF R(1)])
  have len: "length ws = 256"
    using sectors_whole [OF S(3), of ?a] a S(9) length_words_bytes [of ws] R(2) by simp
  obtain h3 where h3: "ata_read_words P (i * 512) [0..<256] out h2 = (overwrite (i * 512) (words_bytes ws) out, h3)"
    "live h3" "view h3 = (view h2)\<lparr>av_phase := Idle\<rparr>"
    using read_words [OF h2(2), of ws "i * 512" 0 out] h2(3) R(3) len out by (cases "ws = []") auto
  have "at_rest h3" "av_sectors (view h3) = av_sectors (view h)"
    using h3(2,3) h2(3) R(3) S(9,10) by (simp_all add: at_rest_def)
  moreover have "ata_read_sectors P slave lba (i # is) out h =
      ata_read_sectors P slave lba is (overwrite (i * 512) (av_sectors (view h) ?a) out) h3"
    using S(1,2) h2(1) h3(1) R(2) by (simp add: Let_def)
  ultimately show ?thesis by (intro that [of h3])
qed

lemma write_sector:
  assumes rest: "at_rest h" and a: "unat (lba + word_of_nat i) < cap" and inp: "i * 512 + 512 \<le> length inp"
  obtains h' where "ata_write_sectors P slave lba (i # is) inp h = ata_write_sectors P slave lba is inp h'" "at_rest h'"
    "av_sectors (view h') = (av_sectors (view h))(unat (lba + word_of_nat i) := slice (i * 512) 512 inp)"
proof -
  let ?a = "unat (lba + word_of_nat i)"
  obtain hh where S: "ata_select P slave (lba + word_of_nat i) h = (0, fst hh)"
    "ata_issue P (lba + word_of_nat i) 0x30 (fst hh) = port_outb P 0x1F7 0x30 (snd hh)"
    "live (snd hh)" "av_delay (view (snd hh)) = 0" "av_phase (view (snd hh)) = Idle" "av_count (view (snd hh)) = 1"
    "ata_address (view (snd hh)) = ?a" "selects slave (view (snd hh))"
    "av_sectors (view (snd hh)) = av_sectors (view h)" "av_flushed (view (snd hh))"
    by (rule command_ready [OF rest a])
  let ?h = "port_outb P 0x1F7 0x30 (snd hh)"
  obtain n where R: "live ?h" "view ?h = (view (snd hh))\<lparr>av_phase := Writing ?a [], av_delay := n\<rparr>"
    using write_command [OF S(3-5,8,6)] S(7) a by auto
  obtain h2 where h2: "ata_wait_drq P ?h = (0, h2)" "live h2" "view h2 = (view ?h)\<lparr>av_delay := 0\<rparr>"
    using R(2) by (auto intro: wait_drq [OF R(1)])
  define h3 where "h3 = ata_write_words P (i * 512) [0..<256] inp h2"
  obtain n' where h3: "live h3" "view h3 = (view h2)\<lparr>av_phase := Idle, av_delay := n', av_flushed := False,
      av_sectors := (av_sectors (view h2))(?a := words_bytes (map (word_of_pair (i * 512) inp) [0..<256]))\<rparr>"
    using write_words [OF h2(2), of ?a "[]" 255 "i * 512" inp] h2(3) R(2) by (auto simp: h3_def)
  have b: "words_bytes (map (word_of_pair (i * 512) inp) [0..<256]) = slice (i * 512) 512 inp"
    using words_of_sector [of "i * 512" 256 inp] inp by simp
  obtain h4 where h4: "ata_wait_ready P h3 = (0, h4)" "live h4" "view h4 = (view h3)\<lparr>av_delay := 0\<rparr>"
    by (rule wait_ready [OF h3(1)])
  have sel: "selects slave (view h4)" using S(8) h4(3) h3(2) h2(3) R(2) by (simp add: selects_def)
  obtain m where h5: "live (port_outb P 0x1F7 0xE7 h4)"
    "view (port_outb P 0x1F7 0xE7 h4) = (view h4)\<lparr>av_flushed := True, av_delay := m\<rparr>"
    using flush_command [OF h4(2) _ _ sel] h4(3) h3(2) by auto
  obtain h6 where h6: "ata_wait_ready P (port_outb P 0x1F7 0xE7 h4) = (0, h6)" "live h6"
    "view h6 = (view (port_outb P 0x1F7 0xE7 h4))\<lparr>av_delay := 0\<rparr>"
    by (rule wait_ready [OF h5(1)])
  have "at_rest h6" "av_sectors (view h6) = (av_sectors (view h))(?a := slice (i * 512) 512 inp)"
    using h6(2,3) h5(2) h4(3) h3(2) h2(3) R(2) S(9) b by (simp_all add: at_rest_def)
  moreover have "ata_write_sectors P slave lba (i # is) inp h = ata_write_sectors P slave lba is inp h6"
    using S(1,2) h2(1) h4(1) h6(1) by (simp add: Let_def h3_def)
  ultimately show ?thesis by (intro that [of h6])
qed

subsection \<open>The driver is an array of blocks\<close>

lemma lba_plus:
  fixes lba :: u64
  assumes "unat lba + m \<le> cap" and "i < m"
  shows "unat (lba + word_of_nat i) = unat lba + i"
  using assms cap_28 by (simp add: unat_word_ariths unat_of_nat_64)

lemma read_sectors:
  assumes "at_rest h" and "unat lba + m \<le> cap" and "length out = m * 512" and "k \<le> m"
    and "take (k * 512) out = concat (map (av_sectors (view h)) [unat lba..<unat lba + k])"
  shows "\<exists>h'. ata_read_sectors P slave lba [k..<m] out h =
      (0, concat (map (av_sectors (view h)) [unat lba..<unat lba + m]), h') \<and> at_rest h' \<and> av_sectors (view h') = av_sectors (view h)"
  using assms
proof (induction "m - k" arbitrary: k out h)
  case 0
  then show ?case by auto
next
  case (Suc n)
  then have k: "k < m" "[k..<m] = k # [Suc k..<m]" "n = m - Suc k" by (auto simp: upt_conv_Cons)
  note a = lba_plus [OF Suc.prems(2) k(1)]
  let ?b = "av_sectors (view h) (unat lba + k)"
  let ?out = "overwrite (k * 512) ?b out"
  have fits: "k * 512 + 512 \<le> length out" using k(1) Suc.prems(3) by simp
  obtain h' where h': "ata_read_sectors P slave lba [k..<m] out h = ata_read_sectors P slave lba [Suc k..<m] ?out h'"
    "at_rest h'" "av_sectors (view h') = av_sectors (view h)"
    unfolding k(2) using Suc.prems(2) k(1) fits by (rule_tac read_sector [OF Suc.prems(1), of lba k out "[Suc k..<m]"]) (auto simp: a)
  have b: "length ?b = 512" using sectors_whole [of h] Suc.prems(1,2) k(1) by (simp add: at_rest_def)
  have "take (Suc k * 512) ?out = take (k * 512) out @ ?b" using fits b by (simp add: overwrite_def)
  then have "take (Suc k * 512) ?out = concat (map (av_sectors (view h')) [unat lba..<unat lba + Suc k])"
    using Suc.prems(5) h'(3) by simp
  moreover have "length ?out = m * 512" using Suc.prems(3) fits b by simp
  ultimately show ?case
    using Suc.hyps(1) [OF k(3) h'(2) Suc.prems(2), of ?out] k(1) h'(1,3) by auto
qed

lemma write_sectors:
  assumes "at_rest h" and "unat lba + m \<le> cap" and "length inp = m * 512" and "k \<le> m"
  shows "\<exists>h'. ata_write_sectors P slave lba [k..<m] inp h = (0, h') \<and> at_rest h' \<and>
    (\<forall>j. av_sectors (view h') j = (if unat lba + k \<le> j \<and> j < unat lba + m
      then slice ((j - unat lba) * 512) 512 inp else av_sectors (view h) j))"
  using assms(1,4)
proof (induction "m - k" arbitrary: k h)
  case 0
  then show ?case by auto
next
  case (Suc n)
  then have k: "k < m" "[k..<m] = k # [Suc k..<m]" "n = m - Suc k" by (auto simp: upt_conv_Cons)
  note a = lba_plus [OF assms(2) k(1)]
  obtain h1 where h1: "ata_write_sectors P slave lba [k..<m] inp h = ata_write_sectors P slave lba [Suc k..<m] inp h1" "at_rest h1"
    "av_sectors (view h1) = (av_sectors (view h))(unat lba + k := slice (k * 512) 512 inp)"
    unfolding k(2) using assms(2,3) k(1)
    by (rule_tac write_sector [OF Suc.prems(1), of lba k inp "[Suc k..<m]"]) (auto simp: a)
  obtain h2 where h2: "ata_write_sectors P slave lba [Suc k..<m] inp h1 = (0, h2)" "at_rest h2"
    "\<forall>j. av_sectors (view h2) j = (if unat lba + Suc k \<le> j \<and> j < unat lba + m
      then slice ((j - unat lba) * 512) 512 inp else av_sectors (view h1) j)"
    using Suc.hyps(1) [OF k(3) h1(2)] k(1) by auto
  have "av_sectors (view h2) j = (if unat lba + k \<le> j \<and> j < unat lba + m
      then slice ((j - unat lba) * 512) 512 inp else av_sectors (view h) j)" for j
    using h2(3) h1(3) k(1) by auto
  with h1(1) h2(1,2) show ?case by auto
qed

end

text \<open>
  An ATA disk that works is a block driver: reads return the sectors and change none, writes replace
  exactly the sectors addressed and leave the write cache of the disk empty.
\<close>

sublocale ata_disk \<subseteq> ata: block_driver "ata_pio_read P" "ata_pio_write P" slave cap "\<lambda>h. av_sectors (view h)" at_rest
proof unfold_locales
  show "cap < 2 ^ 64" using cap_28 by simp
next
  fix h i
  assume "at_rest h" "i < cap"
  then show "length (av_sectors (view h) i) = SECTOR_SIZE" using sectors_whole by (simp add: at_rest_def)
next
  fix h and lba :: u64 and n :: u32 and buf :: bytes
  assume a: "at_rest h" "unat lba + unat n \<le> cap" "length buf = unat n * SECTOR_SIZE"
  then show "\<exists>h'. ata_pio_read P slave lba n buf h =
      (0, concat (map (av_sectors (view h)) [unat lba..<unat lba + unat n]), h') \<and> at_rest h' \<and> av_sectors (view h') = av_sectors (view h)"
    using read_sectors [OF a, of 0] by (auto simp: ata_pio_read_def)
next
  fix h and lba :: u64 and n :: u32 and buf :: bytes
  assume a: "at_rest h" "unat lba + unat n \<le> cap" "length buf = unat n * SECTOR_SIZE"
  then show "\<exists>h'. ata_pio_write P slave lba n buf h = (0, h') \<and> at_rest h' \<and>
      (\<forall>i < cap. av_sectors (view h') i = (if unat lba \<le> i \<and> i < unat lba + unat n
         then slice ((i - unat lba) * SECTOR_SIZE) SECTOR_SIZE buf else av_sectors (view h) i))"
    using write_sectors [OF a, of 0] by (auto simp: ata_pio_write_def)
qed

context ata_disk
begin

lemma ata_block_driver: "block_driver (ata_pio_read P) (ata_pio_write P) slave cap (\<lambda>h. av_sectors (view h)) at_rest"
  by (rule ata.block_driver_axioms)

end

end
