(* ===== verification/Ata_Demo.thy ===== *)
theory Ata_Demo
  imports Lainfs_Demo Ata
begin

text \<open>
  A disk that meets the contract \<open>ata_disk\<close>, and a machine with a freshly formatted file system on it.
  The disk is a register-level emulation: its state is what can be observed of it, a command makes
  it busy for a few polls. It shows that the contract can be met, and the witnesses about what
  a flush leaves on a drive use the machine.
\<close>

definition emulated_status :: "ata_view \<Rightarrow> u8 \<times> ata_view" where
  "emulated_status v =
     (case av_delay v of
        0 \<Rightarrow> (if av_phase v = Idle then 0x40 else 0x48, v)
      | Suc n \<Rightarrow> (0x80, v\<lparr>av_delay := n\<rparr>))"

definition emulated_command :: "u8 \<Rightarrow> ata_view \<Rightarrow> ata_view" where
  "emulated_command b v =
     (if b = ATA_CMD_READ_SECTORS
      then v\<lparr>av_phase := Reading (map (word_of_pair 0 (av_sectors v (ata_address v))) [0..<256]), av_delay := 2\<rparr>
      else if b = ATA_CMD_WRITE_SECTORS then v\<lparr>av_phase := Writing (ata_address v) [], av_delay := 2\<rparr>
      else if b = ATA_CMD_CACHE_FLUSH then v\<lparr>av_flushed := True, av_delay := 3\<rparr>
      else v)"

definition emulated_ports :: "ata_view ports" where
  "emulated_ports =
     \<lparr>port_inb = (\<lambda>port v. if port = 0x1F7 then emulated_status v else (0, v)),
      port_outb = (\<lambda>port b v. if port = 0x1F7 then emulated_command b v
        else if port = 0x1F6 then (set_register port b v)\<lparr>av_delay := 1\<rparr> else set_register port b v),
      port_inw = (\<lambda>port v. case av_phase v of
          Reading (w # ws) \<Rightarrow> (w, v\<lparr>av_phase := if ws = [] then Idle else Reading ws\<rparr>)
        | _ \<Rightarrow> (0, v)),
      port_outw = (\<lambda>port w v. case av_phase v of
          Writing a ws \<Rightarrow>
            if length ws < 255 then v\<lparr>av_phase := Writing a (ws @ [w])\<rparr>
            else v\<lparr>av_phase := Idle, av_delay := 4, av_flushed := False,
                   av_sectors := (av_sectors v)(a := words_bytes (ws @ [w]))\<rparr>
        | _ \<Rightarrow> v)\<rparr>"

definition emulated_live :: "ata_view \<Rightarrow> bool" where
  "emulated_live v \<longleftrightarrow> av_delay v < 1000000 \<and> (\<forall>i < 131072. length (av_sectors v i) = SECTOR_SIZE)"

lemma emulated_words:
  "emulated_live v \<Longrightarrow> i < 131072 \<Longrightarrow> words_bytes (map (word_of_pair 0 (av_sectors v i)) [0..<256]) = av_sectors v i"
  using words_of_sector [of 0 256 "av_sectors v i"] by (simp add: emulated_live_def)

interpretation emulated: ata_disk emulated_ports 1 131072 "\<lambda>v. v" emulated_live
proof unfold_locales
  show "(131072 :: nat) \<le> 2 ^ 28" by simp
next
  fix h :: ata_view and ws n a w
  assume "emulated_live h" "av_delay h = 0" "av_phase h = Writing a ws" "length ws = 255"
  then show "emulated_live (port_outw emulated_ports 0x1F0 w h) \<and>
      (\<exists>n. port_outw emulated_ports 0x1F0 w h = h\<lparr>av_phase := Idle, av_delay := n, av_flushed := False,
         av_sectors := (av_sectors h)(a := words_bytes (ws @ [w]))\<rparr>)"
    by (intro conjI exI [of _ 4]) (simp_all add: emulated_ports_def emulated_live_def)
next
  fix h :: ata_view
  assume "emulated_live h" "av_delay h = 0" "av_phase h = Idle" "selects 1 h" "av_count h = 1" "ata_address h < 131072"
  then show "emulated_live (port_outb emulated_ports 0x1F7 0x20 h) \<and>
      (\<exists>ws n. words_bytes ws = av_sectors h (ata_address h) \<and>
         port_outb emulated_ports 0x1F7 0x20 h = h\<lparr>av_phase := Reading ws, av_delay := n\<rparr>)"
    using emulated_words [of h "ata_address h"]
    by (intro conjI exI [of _ "map (word_of_pair 0 (av_sectors h (ata_address h))) [0..<256]"] exI [of _ 2])
      (simp_all add: emulated_ports_def emulated_live_def emulated_command_def)
next
  fix h :: ata_view and b
  assume "emulated_live h" "av_delay h = 0" "av_phase h = Idle"
  then show "emulated_live (port_outb emulated_ports 0x1F6 b h) \<and>
      (\<exists>n. port_outb emulated_ports 0x1F6 b h = (set_register 0x1F6 b h)\<lparr>av_delay := n\<rparr>)"
    by (intro conjI exI [of _ 1]) (simp_all add: emulated_ports_def emulated_live_def set_register_def)
next
  fix h :: ata_view
  assume "emulated_live h" "av_delay h = 0" "av_phase h = Idle" "selects 1 h"
  then show "emulated_live (port_outb emulated_ports 0x1F7 0xE7 h) \<and>
      (\<exists>n. port_outb emulated_ports 0x1F7 0xE7 h = h\<lparr>av_flushed := True, av_delay := n\<rparr>)"
    by (intro conjI exI [of _ 3]) (simp_all add: emulated_ports_def emulated_live_def emulated_command_def)
next
  fix h :: ata_view
  assume "emulated_live h" "av_delay h = 0" "av_phase h = Idle" "selects 1 h" "av_count h = 1" "ata_address h < 131072"
  then show "emulated_live (port_outb emulated_ports 0x1F7 0x30 h) \<and>
      (\<exists>n. port_outb emulated_ports 0x1F7 0x30 h = h\<lparr>av_phase := Writing (ata_address h) [], av_delay := n\<rparr>)"
    by (intro conjI exI [of _ 2]) (simp_all add: emulated_ports_def emulated_live_def emulated_command_def)
qed (auto simp: emulated_ports_def emulated_live_def emulated_status_def set_register_def split: if_splits)

subsection \<open>A machine with a file system on the disk\<close>

abbreviation "hd_read \<equiv> ata_pio_read emulated_ports"
abbreviation "hd_write \<equiv> ata_pio_write emulated_ports"
abbreviation "hd_ready \<equiv> driver_ready hd_read hd_write 1 131072 av_sectors emulated.at_rest"

definition hd_disk :: ata_view where
  "hd_disk = \<lparr>av_device = 0, av_count = 0, av_low = 0, av_mid = 0, av_high = 0, av_phase = Idle, av_delay = 0,
     av_flushed = True, av_sectors = (\<lambda>i. replicate 512 0)(2048 := bytes_of_super fresh_super)\<rparr>"

definition hd_device :: "ata_view block_device_t" where
  "hd_device = \<lparr>bd_present = True, bd_name = [104, 100, 49, 0, 0, 0, 0, 0], bd_block_size = 512, bd_block_count = 131072,
     bd_read = Some hd_read, bd_write = Some hd_write, bd_ctx = 1\<rparr>"

definition hd_partition :: partition_t where
  "hd_partition = \<lparr>pt_present = True, pt_name = [104, 100, 49, 112, 49, 0, 0, 0, 0, 0, 0, 0], pt_device_index = 0,
     pt_partition_number = 1, pt_start_lba = 2048, pt_block_count = 129024, pt_mbr_type = 0x99,
     pt_fs_hint = [108, 97, 105, 110, 102, 115, 0, 0]\<rparr>"

definition hd_mount :: mount_t where
  "hd_mount = demo_mount\<lparr>mt_partition_name := [104, 100, 49, 112, 49, 0, 0, 0, 0, 0, 0, 0]\<rparr>"

definition hd_storage :: "ata_view storage" where
  "hd_storage = \<lparr>block_devices = hd_device # replicate 7 no_device, partitions = hd_partition # replicate 15 no_partition,
     mounts = (replicate 26 no_mount)[2 := hd_mount], block_device_count = 1, partition_count = 1, disk = hd_disk\<rparr>"

definition hd_machine :: "ata_view lainfs" where
  "hd_machine = cold_caches hd_storage"

lemma hd_rest: "emulated.at_rest hd_disk"
  by (simp add: emulated.at_rest_def emulated_live_def hd_disk_def fresh_super_def)

lemma hd_fresh: "emulated.ata.fresh_partition 0 hd_storage"
proof -
  have "part_block av_sectors 0 hd_storage i = (if i = 0 then bytes_of_super fresh_super else replicate 512 0)" for i
    by (simp add: part_block_def hd_storage_def hd_disk_def hd_partition_def)
  moreover have "windows_disjoint hd_read hd_write 1 hd_storage"
    by (simp add: windows_disjoint_def on_driver_def hd_storage_def)
  moreover have "part_blocks 0 hd_storage = 129024"
    by (simp add: part_blocks_def hd_storage_def hd_partition_def)
  moreover have "backed_by hd_read hd_write 1 131072 emulated.at_rest 0 hd_storage"
    using hd_rest by (simp add: backed_by_def hd_storage_def hd_partition_def hd_device_def)
  ultimately show ?thesis unfolding emulated.ata.fresh_partition_def by simp
qed

lemma hd_facts: "hd_ready 67 0 hd_machine" "fs_dir av_sectors hd_machine 0 = empty_directory" "store hd_machine = hd_storage"
proof -
  have "storage_get_mount_by_drive (to_upper 67) hd_storage = Some hd_mount"
    by (simp add: storage_get_mount_by_drive_def to_upper_def hd_storage_def hd_mount_def demo_mount_def)
  from emulated.ata.fresh_ready [OF hd_fresh this]
  show "hd_ready 67 0 hd_machine" "fs_dir av_sectors hd_machine 0 = empty_directory"
    unfolding hd_machine_def by (simp_all add: hd_mount_def demo_mount_def)
  show "store hd_machine = hd_storage" by (simp add: hd_machine_def cold_caches_def)
qed

lemma hd_driver: "block_driver hd_read hd_write 1 131072 av_sectors emulated.at_rest"
  by unfold_locales

subsection \<open>Properties\<close>



end
