(* ===== verification/Lainfs_Props.thy ===== *)
theory Lainfs_Props
  imports Ata_Demo
begin

text \<open>
  The properties of LainFS. Most are stated on the ramdisk, with the contract of the driver discharged by
  the interpretation \<open>ramdisk\<close>, and have their witnesses on the demo machine; the one about what a flush
  leaves on the drive is stated for every driver that honours the contract, and has its witness on
  an ATA disk.
\<close>

subsection \<open>Facts about the demo machine\<close>

lemma demo_dir: "fs_dir ramdisk_block demo 0 = empty_directory"
  using demo_disk_dir by (simp add: fs_dir_def demo_def cold_caches_def)

lemma valid_name_a: "valid_name [97]"
  by (simp add: valid_name_def cstr_def)

lemma demo_store: "store demo = demo_storage" "part_blocks 0 demo_storage = 1046528"
  by (simp_all add: demo_def cold_caches_def part_blocks_def demo_storage_def demo_partition_def)

lemma fresh_data_start: "sb_data_start_lba fresh_super = 257"
  by (simp add: fresh_super_def)

lemma demo_save_block:
  assumes "valid_name name" and "blocks_for_size sz = 1" and "sz \<le> LAINFS_FILE_CAPACITY" and "unat sz \<le> length buffer"
  shows "\<exists>l'. lainfs_save_file_in_dir 67 LAINFS_ROOT_DIR name buffer sz demo = Some (0, l')"
  using demo_fresh by (intro ramdisk.fresh_save [OF demo_ready _ demo_dir assms]) (simp add: demo_store)

lemma demo_save: "\<exists>l'. lainfs_save_file_in_dir 67 LAINFS_ROOT_DIR [97] [1, 2, 3] 3 demo = Some (0, l')"
  by (rule demo_save_block [OF valid_name_a]) (simp_all add: blocks_for_size_def)

lemma demo_valid: "dir_valid demo_partition fresh_super empty_directory"
  by (intro empty_directory_valid fresh_super_layout) (simp add: demo_partition_def)

lemma demo_free:
  "\<exists>b. find_free_extents (Some demo_partition) fresh_super empty_directory 1 0 = Some [\<lparr>ex_start_lba = b, ex_blocks = 1\<rparr>]"
  using demo_valid
  by (intro find_free_extents_complete [of _ _ _ _ 257])
    (simp_all add: demo_partition_def empty_directory_def fresh_super_def used_blocks_empty [unfolded empty_directory_def])

text \<open>The directory of the demo machine after a directory \<^verbatim>\<open>a\<close> has been made in the root.\<close>

definition made_dir :: directory where
  "made_dir = empty_directory[0 := new_dir_entry LAINFS_ROOT_DIR [97]]"

lemma dir_entry_made:
  "i < LAINFS_MAX_FILES \<Longrightarrow> dir_entry made_dir i = (if i = 0 then new_dir_entry LAINFS_ROOT_DIR [97] else zero_dirent)"
  by (simp add: dir_entry_def made_dir_def empty_directory_def)

lemma new_entry_a:
  "de_used (new_dir_entry LAINFS_ROOT_DIR [97]) = LAINFS_ENTRY_DIR"
  "entry_parent_id (new_dir_entry LAINFS_ROOT_DIR [97]) = LAINFS_ROOT_DIR"
  using new_dir_entry_wf(2) [OF valid_name_a] by (simp_all add: new_dir_entry_fields)

lemma demo_made: "\<exists>l' :: disk_world lainfs. rd_ready 67 0 l' \<and> fs_dir ramdisk_block l' 0 = made_dir"
proof -
  obtain l' where "rd_ready 67 0 l'" "rd_changed 0 made_dir demo l'"
    using ramdisk.make_dir_refines [OF demo_ready, of LAINFS_ROOT_DIR "[97]"]
    by (auto simp: ramdisk.refines_def make_dir_spec_def demo_dir valid_name_a valid_root find_entry_empty
        find_free_empty made_dir_def)
  moreover have "rd_fs_ok 0 (store demo)" using demo_ready by (simp add: driver_ready_def)
  ultimately have "fs_dir ramdisk_block l' 0 = made_dir" by (simp add: driver_fs_changed_def)
  with \<open>rd_ready 67 0 l'\<close> show ?thesis by blast
qed

lemma find_entry_made: "find_entry_in_dir made_dir LAINFS_ROOT_DIR [97] = Some 0"
proof -
  have "str_eq (de_name (new_dir_entry LAINFS_ROOT_DIR [97])) [97]"
    using copy_name_valid(3) [OF valid_name_a] by (simp add: new_dir_entry_fields)
  then show ?thesis
    by (auto simp: find_entry_in_dir_def find_Some_iff dir_entry_made new_entry_a intro!: exI [of _ 0])
qed

lemma find_other_made: "cstr name \<noteq> [97] \<Longrightarrow> find_entry_in_dir made_dir parent_id name = None"
  using cstr_copy_name [of "[97]" "replicate 31 0"]
  by (auto simp: find_entry_in_dir_def find_None_iff dir_entry_made new_dir_entry_fields str_eq_iff)
    (auto simp: cstr_def)

lemma made_children:
  "\<not> (\<exists>j < LAINFS_MAX_FILES. de_used (made_dir ! j) \<noteq> 0 \<and> entry_parent_id (made_dir ! j) = entry_id_from_index 0)"
  using dir_entry_made by (auto simp: dir_entry_def new_entry_a entry_id_from_index_def split: if_splits)

text \<open>
  The machine with the ATA disk, with changes that are only in its caches: the directory \<^verbatim>\<open>a\<close> in the
  directory cache and block 300 of the partition in a slot of the data cache.
\<close>

definition dirty_slot :: lainfs_data_cache_slot_t where
  "dirty_slot = \<lparr>sl_valid = True, sl_dirty = True, sl_partition_index = 0, sl_lba = 300, sl_age = 1, sl_data = replicate 512 7\<rparr>"

definition hd_dirty :: "ata_view lainfs" where
  "hd_dirty = hd_machine\<lparr>directory := made_dir, directory_cache_valid := True, directory_cache_dirty := True, directory_cache_partition := 0,
     data_cache := dirty_slot # replicate 15 empty_slot\<rparr>"

lemma hd_dirty_facts:
  "disk_dir av_sectors 0 (store hd_dirty) = empty_directory" "fs_dir av_sectors hd_dirty 0 = made_dir"
  "lview av_sectors hd_dirty 0 300 = replicate 512 7"
  "driver_data_lba hd_read hd_write 1 131072 av_sectors emulated.at_rest 0 300 (store hd_dirty)"
  "part_block av_sectors 0 (store hd_dirty) 300 = replicate 512 0"
proof -
  note F = emulated.ata.fresh_disk [OF hd_fresh]
  have st: "store hd_dirty = hd_storage" using hd_facts(3) by (simp add: hd_dirty_def)
  show "disk_dir av_sectors 0 (store hd_dirty) = empty_directory" unfolding st by (rule F(2))
  show "fs_dir av_sectors hd_dirty 0 = made_dir" by (simp add: fs_dir_def hd_dirty_def)
  show "lview av_sectors hd_dirty 0 300 = replicate 512 7"
    by (simp add: lview_def hd_dirty_def dirty_slot_def slot_matches_def)
  show "driver_data_lba hd_read hd_write 1 131072 av_sectors emulated.at_rest 0 300 (store hd_dirty)"
  proof -
    have "part_blocks 0 hd_storage = 129024" by (simp add: part_blocks_def hd_storage_def hd_partition_def)
    moreover have "sb_data_start_lba fresh_super = 257" by (simp add: fresh_super_def)
    ultimately show ?thesis unfolding st driver_data_lba_def F(1) using F(3) by simp
  qed
  show "part_block av_sectors 0 (store hd_dirty) 300 = replicate 512 0"
    unfolding st by (simp add: part_block_def hd_storage_def hd_disk_def hd_partition_def)
qed

lemma hd_dirty_ready: "hd_ready 67 0 hd_dirty"
proof -
  note F = emulated.ata.fresh_disk [OF hd_fresh]
  have st: "store hd_dirty = hd_storage" using hd_facts(3) by (simp add: hd_dirty_def)
  have len: "length empty_directory = LAINFS_MAX_FILES" by (simp add: empty_directory_def)
  have valid: "dir_valid (partitions hd_storage ! 0) fresh_super made_dir"
    unfolding made_dir_def
    by (rule make_dir_valid [OF empty_directory_valid [OF F(4)] len find_free_empty valid_root valid_name_a])
  have wf: "dir_wf made_dir"
    using empty_directory_wf new_dir_entry_wf(1) [OF valid_name_a] set_update_subset_insert [of empty_directory 0]
    by (fastforce simp: dir_wf_def made_dir_def)
  have inv: "driver_lainfs_inv hd_read hd_write 1 131072 av_sectors emulated.at_rest hd_machine"
    "case mount_for_drive 67 hd_machine of None \<Rightarrow> False | Some m \<Rightarrow> mt_partition_index m = 0" "lainfs_global_lock hd_machine = 0"
    using hd_facts(1) unfolding driver_ready_def by simp_all
  have "slots_distinct (dirty_slot # replicate 15 empty_slot)"
    by (auto simp: slots_distinct_def nth_Cons' slot_matches_def empty_slot_def split: if_splits)
  moreover have "driver_slot_ok hd_read hd_write 1 131072 av_sectors emulated.at_rest hd_storage dirty_slot"
    "driver_slot_ok hd_read hd_write 1 131072 av_sectors emulated.at_rest hd_storage empty_slot"
    using hd_dirty_facts(4) by (simp_all add: driver_slot_ok_def dirty_slot_def empty_slot_def st)
  moreover have "windows_disjoint hd_read hd_write 1 hd_storage"
    using hd_fresh unfolding emulated.ata.fresh_partition_def by simp
  ultimately have "driver_cache_inv hd_read hd_write 1 131072 av_sectors emulated.at_rest hd_dirty"
    unfolding driver_cache_inv_def st by (simp add: hd_dirty_def)
  then have "driver_lainfs_inv hd_read hd_write 1 131072 av_sectors emulated.at_rest hd_dirty"
    using inv(1) F(3) wf unfolding driver_lainfs_inv_def st by (simp add: hd_dirty_def hd_machine_def cold_caches_def)
  moreover have "mount_for_drive 67 hd_dirty = mount_for_drive 67 hd_machine"
    by (rule emulated.ata.mount_for_drive_cong) (simp add: st hd_facts(3))
  ultimately show ?thesis
    using inv(2,3) F(3) valid hd_dirty_facts(2) unfolding driver_ready_def st by (simp add: F(1) hd_dirty_def)
qed

subsection \<open>Directories\<close>

text \<open>
  C5. Making a directory on a mounted, valid file system returns, with the status and the
  directory its specification gives; the resulting file system is valid, the lock is free, and no
  data block and no other partition's directory has changed.
\<close>

theorem lainfs_make_dir_correct:
  assumes "rd_ready drive p l"
  shows "\<exists>l'. lainfs_make_dir_in_dir drive parent_id name l =
      Some (fst (make_dir_spec parent_id name (fs_dir ramdisk_block l p)), l') \<and>
    rd_ready drive p l' \<and> rd_changed p (snd (make_dir_spec parent_id name (fs_dir ramdisk_block l p))) l l'"
  using ramdisk.make_dir_refines [OF assms] by (simp add: ramdisk.refines_def)

theorem lainfs_make_dir_correct_witness:
  "\<exists>l'. lainfs_make_dir_in_dir 67 LAINFS_ROOT_DIR [97] demo = Some (0, l') \<and> rd_ready 67 0 l' \<and>
    rd_changed 0 (empty_directory[0 := new_dir_entry LAINFS_ROOT_DIR [97]]) demo l'"
  using lainfs_make_dir_correct [OF demo_ready, of LAINFS_ROOT_DIR "[97]"]
  by (simp add: make_dir_spec_def demo_dir valid_name_a valid_root find_entry_empty find_free_empty)

text \<open>
  C6. Deleting an entry on a mounted, valid file system returns, with the status and the directory
  its specification gives: a directory that has children is kept; the file system stays valid.
\<close>

theorem lainfs_delete_correct:
  assumes "rd_ready drive p l"
  shows "\<exists>l'. lainfs_delete_in_dir drive parent_id name l =
      Some (fst (delete_spec parent_id name (fs_dir ramdisk_block l p)), l') \<and>
    rd_ready drive p l' \<and> rd_changed p (snd (delete_spec parent_id name (fs_dir ramdisk_block l p))) l l'"
  using ramdisk.delete_refines [OF assms] by (simp add: ramdisk.refines_def)

theorem lainfs_delete_correct_witness:
  "\<exists>(l :: disk_world lainfs) l'. rd_ready 67 0 l \<and> lainfs_delete_in_dir 67 LAINFS_ROOT_DIR [97] l = Some (0, l') \<and> rd_ready 67 0 l' \<and>
    rd_changed 0 (made_dir[0 := zero_dirent]) l l'"
proof -
  obtain l :: "disk_world lainfs" where l: "rd_ready 67 0 l" "fs_dir ramdisk_block l 0 = made_dir" using demo_made by blast
  have "delete_spec LAINFS_ROOT_DIR [97] made_dir = (0, made_dir[0 := zero_dirent])"
    by (simp add: delete_spec_def valid_name_a valid_root find_entry_made made_children)
  then show ?thesis using lainfs_delete_correct [OF l(1), of LAINFS_ROOT_DIR "[97]"] l by auto
qed

text \<open>
  C4. Renaming or moving an entry on a mounted, valid file system returns -- the walk towards the
  root ends -- with the status and the directory its specification gives: a directory is not moved
  below itself, and every entry is still reachable from the root.
\<close>

theorem lainfs_rename_correct:
  assumes "rd_ready drive p l"
  shows "\<exists>l'. lainfs_rename_in_dir drive old_parent_id old_name new_parent_id new_name l =
      Some (fst (rename_spec old_parent_id old_name new_parent_id new_name (fs_dir ramdisk_block l p)), l') \<and>
    rd_ready drive p l' \<and>
    rd_changed p (snd (rename_spec old_parent_id old_name new_parent_id new_name (fs_dir ramdisk_block l p))) l l'"
  using ramdisk.rename_refines [OF assms] by (simp add: ramdisk.refines_def)

theorem lainfs_rename_correct_witness:
  "\<exists>(l :: disk_world lainfs) l'. rd_ready 67 0 l \<and>
    lainfs_rename_in_dir 67 LAINFS_ROOT_DIR [97] LAINFS_ROOT_DIR [98] l = Some (0, l') \<and> rd_ready 67 0 l' \<and>
    rd_changed 0 (made_dir[0 := renamed_entry LAINFS_ROOT_DIR [98] (made_dir ! 0)]) l l'"
proof -
  obtain l :: "disk_world lainfs" where l: "rd_ready 67 0 l" "fs_dir ramdisk_block l 0 = made_dir" using demo_made by blast
  have "\<not> ancestor_or_self made_dir LAINFS_ROOT_DIR (entry_id_from_index 0)"
    by (auto simp: entry_id_from_index_def elim: ancestor_or_selfE)
  moreover have "find_entry_in_dir made_dir LAINFS_ROOT_DIR [98] = None"
    by (rule find_other_made) (simp add: cstr_def)
  moreover have "valid_name [98]" by (simp add: valid_name_def cstr_def)
  ultimately have "rename_spec LAINFS_ROOT_DIR [97] LAINFS_ROOT_DIR [98] made_dir =
      (0, made_dir[0 := renamed_entry LAINFS_ROOT_DIR [98] (made_dir ! 0)])"
    by (simp add: rename_spec_def valid_name_a valid_root find_entry_made)
  then show ?thesis using lainfs_rename_correct [OF l(1), of LAINFS_ROOT_DIR "[97]" LAINFS_ROOT_DIR "[98]"] l by auto
qed

subsection \<open>Files\<close>

text \<open>
  C1. A file that was saved is loaded again, byte for byte: on a mounted, valid file system, if
  \<open>lainfs_save_file_in_dir\<close> reports success then the file system is valid again and loading the same
  name into a buffer that is large enough reports success, the size that was saved and the saved
  bytes, with the rest of the buffer untouched.
\<close>

theorem lainfs_save_load_roundtrip:
  assumes "rd_ready drive p l" and "lainfs_save_file_in_dir drive parent_id name buffer sz l = Some (0, l')"
    and "unat sz \<le> length buffer" and "sz \<le> bufsz" and "bufsz \<noteq> 0" and "length out = unat bufsz"
  shows "rd_ready drive p l' \<and>
    (\<exists>l''. lainfs_load_file_in_dir drive parent_id name out bufsz l' =
       Some (0, overwrite 0 (take (unat sz) buffer) out, sz, l'') \<and> rd_ready drive p l'')"
  using ramdisk.save_load [OF assms] by metis

theorem lainfs_save_load_roundtrip_witness:
  "\<exists>l' l''. lainfs_save_file_in_dir 67 LAINFS_ROOT_DIR [97] [1, 2, 3] 3 demo = Some (0, l') \<and>
    lainfs_load_file_in_dir 67 LAINFS_ROOT_DIR [97] [0, 0, 0, 0] 4 l' = Some (0, [1, 2, 3, 0], 3, l'')"
proof -
  obtain l' where l': "lainfs_save_file_in_dir 67 LAINFS_ROOT_DIR [97] [1, 2, 3] 3 demo = Some (0, l')"
    using demo_save by blast
  then show ?thesis
    using lainfs_save_load_roundtrip [OF demo_ready l', of 4 "[0, 0, 0, 0]"] by (auto simp: overwrite_def)
qed

text \<open>
  C3. Saving a file changes one directory entry, that of the file, and leaves every other file
  of the directory with the same contents.
\<close>

theorem lainfs_save_keeps_other_files:
  assumes "rd_ready drive p l" and "lainfs_save_file_in_dir drive parent_id name buffer sz l = Some (0, l')"
    and "unat sz \<le> length buffer"
  shows "\<exists>i. find_entry_in_dir (fs_dir ramdisk_block l p) parent_id name \<in> {None, Some i} \<and>
    (find_entry_in_dir (fs_dir ramdisk_block l p) parent_id name = None \<longrightarrow> de_used (fs_dir ramdisk_block l p ! i) = 0) \<and>
    (\<forall>j < LAINFS_MAX_FILES. j \<noteq> i \<longrightarrow> fs_dir ramdisk_block l' p ! j = fs_dir ramdisk_block l p ! j \<and>
       (de_used (fs_dir ramdisk_block l p ! j) = LAINFS_ENTRY_FILE \<longrightarrow>
        file_contents ramdisk_block l' p (fs_dir ramdisk_block l' p ! j) =
        file_contents ramdisk_block l p (fs_dir ramdisk_block l p ! j)))"
proof -
  obtain i where "\<And>j. j < LAINFS_MAX_FILES \<Longrightarrow> j \<noteq> i \<Longrightarrow> fs_dir ramdisk_block l' p ! j = fs_dir ramdisk_block l p ! j"
    "\<And>j. j < LAINFS_MAX_FILES \<Longrightarrow> j \<noteq> i \<Longrightarrow> de_used (fs_dir ramdisk_block l p ! j) = LAINFS_ENTRY_FILE \<Longrightarrow>
      file_contents ramdisk_block l' p (fs_dir ramdisk_block l p ! j) = file_contents ramdisk_block l p (fs_dir ramdisk_block l p ! j)"
    "find_entry_in_dir (fs_dir ramdisk_block l p) parent_id name \<in> {None, Some i}"
    "find_entry_in_dir (fs_dir ramdisk_block l p) parent_id name = None \<Longrightarrow> de_used (fs_dir ramdisk_block l p ! i) = 0"
    by (rule ramdisk.save_keeps_others [OF assms]) (rule that)
  then show ?thesis by (intro exI [of _ i]) simp
qed

theorem lainfs_save_keeps_other_files_witness:
  "\<exists>l' i. lainfs_save_file_in_dir 67 LAINFS_ROOT_DIR [97] [1, 2, 3] 3 demo = Some (0, l') \<and>
    (\<forall>j < LAINFS_MAX_FILES. j \<noteq> i \<longrightarrow> fs_dir ramdisk_block l' 0 ! j = zero_dirent)"
proof -
  obtain l' where l': "lainfs_save_file_in_dir 67 LAINFS_ROOT_DIR [97] [1, 2, 3] 3 demo = Some (0, l')"
    using demo_save by blast
  obtain i where "\<forall>j < LAINFS_MAX_FILES. j \<noteq> i \<longrightarrow> fs_dir ramdisk_block l' 0 ! j = fs_dir ramdisk_block demo 0 ! j"
    using lainfs_save_keeps_other_files [OF demo_ready l'] by auto
  with l' show ?thesis by (intro exI [of _ l'] exI [of _ i]) (simp add: demo_dir empty_directory_def)
qed

text \<open>
  C8. A save succeeds whenever it can, for a new file and for one that exists and is overwritten:
  the name and the size are acceptable, the parent is a directory, the name is that of a file there
  or is free and the directory has a slot \<open>i\<close> left, and outside the blocks of all files but the one in
  slot \<open>i\<close> the data area has a contiguous run of the size of the file.
\<close>

theorem lainfs_save_succeeds:
  assumes "rd_ready drive p l" and "valid_name name" and "sz \<le> LAINFS_FILE_CAPACITY" and "unat sz \<le> length buffer"
    and "valid_dir_id (fs_dir ramdisk_block l p) parent_id"
    and "case find_entry_in_dir (fs_dir ramdisk_block l p) parent_id name of
        None \<Rightarrow> find_free_entry (fs_dir ramdisk_block l p) = Some i
      | Some j \<Rightarrow> j = i \<and> de_used (dir_entry (fs_dir ramdisk_block l p) i) \<noteq> LAINFS_ENTRY_DIR"
    and "blocks = (if blocks_for_size sz = 0 then 1 else blocks_for_size sz)"
    and "unat (sb_data_start_lba (disk_super ramdisk_block p (store l))) \<le> st"
    and "st + unat blocks \<le> part_blocks p (store l)"
    and "{st ..< st + unat blocks} \<inter> used_blocks (fs_dir ramdisk_block l p) i = {}"
  shows "\<exists>l'. lainfs_save_file_in_dir drive parent_id name buffer sz l = Some (0, l') \<and> rd_ready drive p l'"
proof -
  let ?d = "fs_dir ramdisk_block l p"
  obtain d1 where slot: "file_slot parent_id name ?d = Some (i, d1)"
    using assms(6) by (auto simp: file_slot_def find_free_entry_def split: option.splits)
  have can: "ramdisk.can_save parent_id name sz ?d"
    using assms(2,3,5,6) by (auto simp: ramdisk.can_save_def split: option.splits)
  note R = ramdisk.ready_dir [OF assms(1)]
  have p: "rd_fs_ok p (store l)" using assms(1) by (simp add: driver_ready_def)
  have "unat blocks \<le> 8192" using ramdisk.required_blocks_bound(1) [OF assms(3)] assms(7) by simp
  then have b: "blocks \<noteq> 0" "blocks \<le> LAINFS_MAX_FILE_BLOCKS" using assms(7) by (auto simp: word_le_nat_alt)
  have len: "length ?d = LAINFS_MAX_FILES" using R(2) by (simp add: dir_wf_def)
  obtain b where free: "find_free_extents (Some (partitions (store l) ! p)) (disk_super ramdisk_block p (store l)) ?d blocks i =
      Some [\<lparr>ex_start_lba = b, ex_blocks = blocks\<rparr>]"
    using find_free_extents_complete [OF ramdisk.fs_okD(2) [OF p] len R(1) b assms(8) _ assms(10)] assms(9)
    unfolding part_blocks_def by blast
  obtain l' where "lainfs_save_file_in_dir drive parent_id name buffer sz l = Some (0, l')" "rd_ready drive p l'"
    by (rule ramdisk.save_file_ok [OF assms(1) can assms(4) slot free [unfolded assms(7)]])
  then show ?thesis by blast
qed

theorem lainfs_save_succeeds_witness:
  "\<exists>l'. lainfs_save_file_in_dir 67 LAINFS_ROOT_DIR [97] [1, 2, 3] 3 demo = Some (0, l') \<and> rd_ready 67 0 l'"
  using lainfs_save_succeeds [OF demo_ready valid_name_a, of 3 "[1, 2, 3]" LAINFS_ROOT_DIR 0 1 257]
  by (simp add: demo_dir find_entry_empty find_free_empty valid_root blocks_for_size_def used_blocks_empty
      demo_disk_super demo_store fresh_data_start)

text \<open>
  C2. After a flush the drive alone determines the file system, for every driver that honours the block
  contract (as the ATA driver does). The flush of a mounted, valid file system returns with success, and for
  every state \<open>h\<close> of the device with the same blocks -- whatever else of the device has changed -- a kernel that
  starts with empty caches on it, with the partition registered and mounted as before, finds a valid
  file system: its directory is the one before the flush, and every data block has the contents
  the file system saw before the flush, also those that were only in the caches. Nothing is claimed for a
  drive that loses its blocks, such as the ramdisk, which \<^verbatim>\<open>storage_init\<close> clears.
\<close>

theorem lainfs_flush_durable:
  assumes "block_driver rd wr ctx cap blk ok" and "driver_ready rd wr ctx cap blk ok drive p l"
  shows "\<exists>l'. lainfs_flush drive l = Some (0, l') \<and> driver_ready rd wr ctx cap blk ok drive p l' \<and>
    (\<forall>h. ok h \<longrightarrow> blk h = blk (disk (store l')) \<longrightarrow>
      (let r = cold_caches ((store l')\<lparr>disk := h\<rparr>) in
         driver_ready rd wr ctx cap blk ok drive p r \<and> fs_dir blk r p = fs_dir blk l p \<and>
         (\<forall>lba. driver_data_lba rd wr ctx cap blk ok p lba (store l) \<longrightarrow> lview blk r p lba = lview blk l p lba)))"
proof -
  obtain l' where l': "lainfs_flush drive l = Some (0, l')" "driver_ready rd wr ctx cap blk ok drive p l'"
    by (rule block_driver.flush_durable [OF assms])
  note R = block_driver.flush_restart [OF assms l'(1) block_driver.cold_restart [OF assms(1)]]
  from l' R show ?thesis by (auto simp: Let_def)
qed

theorem lainfs_flush_durable_witness:
  "disk_dir av_sectors 0 (store hd_dirty) = empty_directory \<and> part_block av_sectors 0 (store hd_dirty) 300 = replicate 512 0 \<and>
   (\<exists>l'. lainfs_flush 67 hd_dirty = Some (0, l') \<and>
      (let r = cold_caches ((store l')\<lparr>disk := (disk (store l'))\<lparr>av_device := 0, av_delay := 0\<rparr>\<rparr>) in
         fs_dir av_sectors r 0 = made_dir \<and> lview av_sectors r 0 300 = replicate 512 7))"
proof -
  obtain l' where l': "lainfs_flush 67 hd_dirty = Some (0, l')" "hd_ready 67 0 l'"
    and r: "\<And>h. emulated.at_rest h \<Longrightarrow> av_sectors h = av_sectors (disk (store l')) \<Longrightarrow>
      hd_ready 67 0 (cold_caches ((store l')\<lparr>disk := h\<rparr>)) \<and>
      fs_dir av_sectors (cold_caches ((store l')\<lparr>disk := h\<rparr>)) 0 = made_dir \<and>
      lview av_sectors (cold_caches ((store l')\<lparr>disk := h\<rparr>)) 0 300 = replicate 512 7"
    using lainfs_flush_durable [OF hd_driver hd_dirty_ready] hd_dirty_facts(2-4) by (auto simp: Let_def)
  have rest: "emulated.at_rest (disk (store l'))"
    using l'(2) by (simp add: driver_ready_def driver_fs_ok_def backed_by_def)
  show ?thesis
    using l' r [of "(disk (store l'))\<lparr>av_device := 0, av_delay := 0\<rparr>"] rest hd_dirty_facts(1)
    by (auto simp: Let_def emulated.at_rest_def emulated_live_def hd_dirty_facts(5))
qed

text \<open>
  C18. Loading a file that exists and fits returns its contents and its size, and changes nothing
  that the file system holds.
\<close>

theorem lainfs_load_returns_contents:
  assumes "rd_ready drive p l" and "valid_name name" and "bufsz \<noteq> 0"
    and "valid_dir_id (fs_dir ramdisk_block l p) parent_id"
    and "find_entry_in_dir (fs_dir ramdisk_block l p) parent_id name = Some i"
    and "de_used (fs_dir ramdisk_block l p ! i) = LAINFS_ENTRY_FILE"
    and "de_byte_size (fs_dir ramdisk_block l p ! i) \<le> bufsz" and "length out = unat bufsz"
  shows "\<exists>l'. lainfs_load_file_in_dir drive parent_id name out bufsz l =
      Some (0, overwrite 0 (file_contents ramdisk_block l p (fs_dir ramdisk_block l p ! i)) out,
            de_byte_size (fs_dir ramdisk_block l p ! i), l') \<and>
    rd_ready drive p l' \<and> rd_changed p (fs_dir ramdisk_block l p) l l'"
  using ramdisk.load_file_ok [OF assms] by metis

theorem lainfs_load_returns_contents_witness:
  "\<exists>(l :: disk_world lainfs) l'. lainfs_load_file_in_dir 67 LAINFS_ROOT_DIR [97] [0, 0, 0, 0] 4 l = Some (0, [1, 2, 3, 0], 3, l') \<and> rd_ready 67 0 l'"
proof -
  obtain l where "lainfs_save_file_in_dir 67 LAINFS_ROOT_DIR [97] [1, 2, 3] 3 demo = Some (0, l)"
    using demo_save by blast
  then obtain i where i: "rd_ready 67 0 l" "valid_name [97]" "valid_dir_id (fs_dir ramdisk_block l 0) LAINFS_ROOT_DIR"
    "find_entry_in_dir (fs_dir ramdisk_block l 0) LAINFS_ROOT_DIR [97] = Some i"
    "de_used (fs_dir ramdisk_block l 0 ! i) = LAINFS_ENTRY_FILE" "de_byte_size (fs_dir ramdisk_block l 0 ! i) = 3"
    "file_contents ramdisk_block l 0 (fs_dir ramdisk_block l 0 ! i) = take (unat (3 :: u32)) [1, 2, 3]"
    by (rule ramdisk.saved_entry [OF demo_ready]) (simp, rule that)
  show ?thesis
    using lainfs_load_returns_contents [OF i(1,2) _ i(3-5), of 4 "[0, 0, 0, 0]"] i(6,7) by (auto simp: overwrite_def)
qed

subsection \<open>Block allocation and the directory tree\<close>

text \<open>
  C7. On a valid directory the allocator, when it succeeds, gives at most three extents that add
  up to the requested blocks, lie in the data area of the partition, do not overlap each other and
  share no block with any file other than the ignored entry.
\<close>

theorem find_free_extents_safe:
  assumes "unat (pt_block_count part) < 2 ^ 32" and "length d = LAINFS_MAX_FILES"
    and "dir_valid part super d"
    and "find_free_extents (Some part) super d blocks ignore = Some xs"
  shows "length xs \<le> 3 \<and> total_blocks xs = unat blocks \<and> (\<forall>x \<in> set xs. extent_ok part super x) \<and>
    disjoint_extents xs \<and>
    (\<forall>i < LAINFS_MAX_FILES. i \<noteq> ignore \<longrightarrow> de_used (d ! i) = LAINFS_ENTRY_FILE \<longrightarrow>
       (\<Union>x \<in> set xs. extent_blocks x) \<inter> file_blocks (d ! i) = {})"
  using find_free_extents_sound [OF assms] assms(2) by (fastforce simp: alloc_ok_def used_blocks_def)

theorem find_free_extents_safe_witness:
  "\<exists>xs. find_free_extents (Some demo_partition) fresh_super empty_directory 1 0 = Some xs \<and>
    length xs \<le> 3 \<and> total_blocks xs = 1 \<and> disjoint_extents xs"
proof -
  obtain xs where "find_free_extents (Some demo_partition) fresh_super empty_directory 1 0 = Some xs"
    using demo_free by blast
  then show ?thesis
    using find_free_extents_safe [of demo_partition empty_directory fresh_super 1 0 xs] demo_valid
    by (simp add: demo_partition_def empty_directory_def)
qed

text \<open>
  The allocator finds space whenever there is a contiguous run of free blocks of the
  requested size in the data area, and then it gives a single extent.
\<close>

lemma find_free_extents_contiguous:
  assumes "unat (pt_block_count part) < 2 ^ 32" and "length d = LAINFS_MAX_FILES"
    and "dir_valid part super d" and "blocks \<noteq> 0" and "blocks \<le> LAINFS_MAX_FILE_BLOCKS"
    and "unat (sb_data_start_lba super) \<le> st" and "st + unat blocks \<le> unat (pt_block_count part)"
    and "\<And>i. i < LAINFS_MAX_FILES \<Longrightarrow> i \<noteq> ignore \<Longrightarrow> de_used (d ! i) = LAINFS_ENTRY_FILE \<Longrightarrow>
           {st ..< st + unat blocks} \<inter> file_blocks (d ! i) = {}"
  shows "\<exists>b. find_free_extents (Some part) super d blocks ignore = Some [\<lparr>ex_start_lba = b, ex_blocks = blocks\<rparr>]"
  using assms by (intro find_free_extents_complete) (auto simp: used_blocks_def)

subsection \<open>The checker\<close>

text \<open>
  C15. The directory check that guards every operation accepts exactly the valid directories: superblock and
  partition agree, every entry in use has a proper name, a chain of parents that ends at the root and, for a
  file, extents inside the data area that match its size, and no two files share a block.
\<close>

theorem validate_directory_decides:
  assumes "unat (pt_block_count part) < 2 ^ 32" and "length d = LAINFS_MAX_FILES"
  shows "fst (validate_directory (Some part) super d) = 0 \<longleftrightarrow>
    layout_ok part super \<and> (\<forall>e \<in> set d. entry_valid part super d e) \<and> files_disjoint d"
  using validate_directory_iff [OF assms] by (simp add: dir_valid_def)

theorem validate_directory_decides_witness:
  "fst (validate_directory (Some demo_partition) fresh_super empty_directory) = 0"
  using validate_directory_decides [of demo_partition empty_directory fresh_super] demo_valid
  by (simp add: dir_valid_def demo_partition_def empty_directory_def)

end
