(* ===== verification/Lainfs_Faults.thy ===== *)
theory Lainfs_Faults
  imports Lainfs_Props
begin

text \<open>
  Two sequences of calls after which LainFS does not do what it means to. Both come from the one static directory
  buffer: a save that fails leaves a half-made entry in it, and formatting one partition clears it
  while it caches the directory of another.
\<close>

subsection \<open>A save that finds no space\<close>

lemma read_super_frame:
  "read_super p (l\<lparr>directory := d, lainfs_global_lock := g\<rparr>) =
     (let (st, super, l') = read_super p l in (st, super, l'\<lparr>directory := d, lainfs_global_lock := g\<rparr>))"
  by (simp add: read_super_def raw_read_super_def Let_def split: prod.splits)

lemma new_file_entry_invalid: "de_used (new_file_entry parent_id) \<noteq> 0 \<and> \<not> entry_name_is_valid (de_name (new_file_entry parent_id))"
  by (simp add: new_file_entry_def set_entry_parent_id_def zero_dirent_def entry_name_is_valid_def valid_name_def cstr_def takeWhile_replicate)

context block_driver
begin

lemma failed_save_directory:
  assumes ready: "ready drive p l" and new: "find_entry_in_dir (fs_dir blk l p) parent_id name = None"
    and res: "lainfs_save_file_in_dir drive parent_id name buffer sz l = Some (-9, l')"
  obtains i l2 where "i < LAINFS_MAX_FILES"
    "l' = l2\<lparr>directory := (fs_dir blk l p)[i := new_file_entry parent_id], lainfs_global_lock := 0\<rparr>"
    "lainfs_inv l2" "fs_ok p (store l2)" "directory_cache_valid l2" "directory_cache_partition l2 = p"
    "mount_for_drive drive l2 = mount_for_drive drive l"
proof -
  obtain m l2 where E: "mount_for_drive drive l = Some m" "mt_partition_index m = p"
    "lainfs_lock l = Some (l\<lparr>lainfs_global_lock := 1\<rparr>)"
    "\<And>e1 e2. open_directory e1 e2 p (l\<lparr>lainfs_global_lock := 1\<rparr>) = Inr (disk_super blk p (store l), l2)"
    "lainfs_inv l2" "fs_changed p (fs_dir blk l p) l l2" "fs_ok p (store l2)"
    "directory_cache_valid l2" "directory_cache_partition l2 = p" "directory l2 = fs_dir blk l p"
    "partitions (store l2) = partitions (store l)" "disk_super blk p (store l2) = disk_super blk p (store l)"
    by (rule enter [OF ready]) (rule that)
  have "\<exists>h. store l2 = (store l)\<lparr>disk := h\<rparr>" using E(6) by (auto simp: driver_fs_changed_def)
  then have mnt: "mount_for_drive drive l2 = mount_for_drive drive l"
    by (auto simp: mount_for_drive_def storage_get_mount_by_drive_def Let_def)
  have "\<exists>i < LAINFS_MAX_FILES. l' = lainfs_unlock (l2\<lparr>directory := (fs_dir blk l p)[i := new_file_entry parent_id]\<rparr>)"
    using res E(1-4,10) new
    by (auto simp: lainfs_save_file_in_dir_def Let_def file_slot_def find_Some_iff save_directory_def
        split: if_splits option.splits prod.splits)
  then show ?thesis using that E mnt by (auto simp: lainfs_unlock_def)
qed

lemma save_no_space:
  assumes ready: "ready drive p l" and can: "can_save parent_id name sz (fs_dir blk l p)"
    and slot: "file_slot parent_id name (fs_dir blk l p) = Some (i, d1)"
    and full: "find_free_extents (Some (partitions (store l) ! p)) (disk_super blk p (store l)) (fs_dir blk l p)
      (if blocks_for_size sz = 0 then 1 else blocks_for_size sz) i = None"
  shows "\<exists>l'. lainfs_save_file_in_dir drive parent_id name buffer sz l = Some (-9, l')"
proof -
  let ?d = "fs_dir blk l p" and ?part = "partitions (store l) ! p" and ?super = "disk_super blk p (store l)"
  obtain m l2 where E: "mount_for_drive drive l = Some m" "mt_partition_index m = p"
    "lainfs_lock l = Some (l\<lparr>lainfs_global_lock := 1\<rparr>)"
    "\<And>e1 e2. open_directory e1 e2 p (l\<lparr>lainfs_global_lock := 1\<rparr>) = Inr (disk_super blk p (store l), l2)"
    "lainfs_inv l2" "fs_changed p ?d l l2" "fs_ok p (store l2)"
    "directory_cache_valid l2" "directory_cache_partition l2 = p" "directory l2 = ?d"
    "partitions (store l2) = partitions (store l)" "disk_super blk p (store l2) = ?super"
    by (rule enter [OF ready]) (rule that)
  note R = ready_dir [OF ready]
  have C: "valid_name name" "sz \<le> LAINFS_FILE_CAPACITY" "valid_dir_id ?d parent_id"
    "case find_entry_in_dir ?d parent_id name of Some i \<Rightarrow> de_used (dir_entry ?d i) \<noteq> LAINFS_ENTRY_DIR | None \<Rightarrow> True"
    using can by (simp_all add: can_save_def)
  have wf: "length ?d = LAINFS_MAX_FILES" "\<forall>e \<in> set ?d. dirent_wf e" using R(2) by (simp_all add: dir_wf_def)
  note S = file_slotD [OF slot wf R(1) C(4)]
  have "find_free_extents (storage_get_partition p (store l2)) ?super d1
      (if blocks_for_size sz = 0 then 1 else blocks_for_size sz) i = None"
    using full S(3) find_free_extents_ignore [of "Some ?part" ?super ?d i "dir_entry d1 i"]
      get_partition_fs_ok [OF E(7)] E(11) by simp
  then show ?thesis
    using C E(1-4,10) slot by (auto simp: lainfs_save_file_in_dir_def Let_def not_less split: option.splits)
qed

text \<open>The next operation that opens the directory finds it invalid and drops the cached directory.\<close>

lemma open_after_failed_save:
  assumes inv: "lainfs_inv l2" and ok: "fs_ok p (store l2)" and c: "directory_cache_valid l2" "directory_cache_partition l2 = p"
    and bad: "\<not> dir_valid (partitions (store l2) ! p) (disk_super blk p (store l2)) d" and d: "length d = LAINFS_MAX_FILES"
  shows "\<exists>l3. open_directory e1 e2 p (l2\<lparr>directory := d, lainfs_global_lock := g\<rparr>) = Inl (e2, l3) \<and>
    \<not> directory_cache_valid l3 \<and> \<not> directory_cache_dirty l3"
proof -
  obtain l1 where l1: "read_super p l2 = (0, disk_super blk p (store l2), l1)" "same_blocks (store l2) (store l1)"
    "directory_cache_valid l1 = directory_cache_valid l2" "directory_cache_partition l1 = directory_cache_partition l2"
    by (rule read_super_ok [OF inv ok])
  let ?part = "partitions (store l2) ! p"
  have "fst (validate_directory (Some ?part) (disk_super blk p (store l2)) d) \<noteq> 0"
    using bad validate_directory_iff [OF fs_okD(2) [OF ok] d] by simp
  moreover have "storage_get_partition p (store l2) = Some ?part" by (rule get_partition_fs_ok [OF ok])
  moreover have "storage_get_partition p (store l1) = storage_get_partition p (store l2)"
    using same_blocksD(4,5) [OF l1(2)] by (simp add: storage_get_partition_def)
  ultimately show ?thesis
    using l1 c by (auto simp: open_directory_def read_super_frame load_directory_def load_directory_unchecked_def
        count_dir_hit_def lainfs_unlock_def Let_def split: prod.splits)
qed

lemma load_after_failed_save:
  assumes ready: "ready drive p l" and new: "find_entry_in_dir (fs_dir blk l p) parent_id name = None"
    and res: "lainfs_save_file_in_dir drive parent_id name buffer sz l = Some (-9, l')"
    and args: "valid_name name'" "bufsz \<noteq> 0"
  shows "\<exists>l''. lainfs_load_file_in_dir drive parent_id' name' out bufsz l' = Some (-4, out, 0, l'') \<and>
    \<not> directory_cache_valid l'' \<and> \<not> directory_cache_dirty l''"
proof -
  obtain i l2 where F: "i < LAINFS_MAX_FILES"
    "l' = l2\<lparr>directory := (fs_dir blk l p)[i := new_file_entry parent_id], lainfs_global_lock := 0\<rparr>"
    "lainfs_inv l2" "fs_ok p (store l2)" "directory_cache_valid l2" "directory_cache_partition l2 = p"
    "mount_for_drive drive l2 = mount_for_drive drive l"
    by (rule failed_save_directory [OF ready new res])
  obtain m where m: "mount_for_drive drive l = Some m" "mt_partition_index m = p" by (rule readyD [OF ready])
  let ?d = "(fs_dir blk l p)[i := new_file_entry parent_id]"
  have len: "length ?d = LAINFS_MAX_FILES" using ready_dir(2) [OF ready] by (simp add: dir_wf_def)
  then have "new_file_entry parent_id \<in> set ?d" using F(1) by (intro set_update_memI) simp
  then have "\<not> dir_valid part super ?d" for part super
    using new_file_entry_invalid [of parent_id] by (auto simp: dir_valid_def entry_valid_def)
  then obtain l3 where "open_directory (-3) (-4) p (l2\<lparr>directory := ?d, lainfs_global_lock := 1\<rparr>) = Inl (-4, l3)"
    "\<not> directory_cache_valid l3" "\<not> directory_cache_dirty l3"
    using open_after_failed_save [OF F(3-6) _ len, of "-3" "-4" 1] by blast
  moreover have "lainfs_lock l' = Some (l2\<lparr>directory := ?d, lainfs_global_lock := 1\<rparr>)"
    by (simp add: lainfs_lock_def F(2))
  moreover have "mount_for_drive drive l' = Some m"
    using F(2,7) m(1) by (simp add: mount_for_drive_def)
  ultimately show ?thesis using args m(2) by (simp add: lainfs_load_file_in_dir_def Let_def)
qed

end

subsection \<open>Formatting one partition while the directory of another is cached\<close>

lemma flush_directory_cache_keeps:
  assumes "flush_directory_cache l = (st, l')"
  shows "directory_cache_valid l' = directory_cache_valid l" "directory_cache_partition l' = directory_cache_partition l"
  using assms
  by (auto simp: flush_directory_cache_def raw_read_super_def count_flush_def Let_def split: if_splits prod.splits)

lemma invalidate_other:
  "directory_cache_partition l \<noteq> q \<Longrightarrow>
    directory_cache_valid (invalidate_partition_cache q l) = directory_cache_valid l \<and>
    directory_cache_partition (invalidate_partition_cache q l) = directory_cache_partition l \<and>
    directory (invalidate_partition_cache q l) = directory l"
  by (simp add: invalidate_partition_cache_def Let_def)

lemma format_clears_cached_directory:
  assumes "format_partition_index q l = (0, l')" and "directory_cache_valid l" and "directory_cache_partition l = p" and "p \<noteq> q"
  shows "directory_cache_valid l' \<and> directory_cache_partition l' = p \<and> directory l' = empty_directory"
proof -
  obtain st l1 where f: "(if directory_cache_valid l \<and> directory_cache_dirty l then flush_directory_cache l else (0, l)) = (st, l1)"
    by force
  then have l1: "directory_cache_valid l1" "directory_cache_partition l1 = p"
    using assms(2,3) flush_directory_cache_keeps [of l st l1] by (auto split: if_splits)
  have "\<exists>s. l' = invalidate_partition_cache q ((invalidate_partition_cache q l1)\<lparr>directory := empty_directory, store := s\<rparr>)"
    using assms(1) by (auto simp: format_partition_index_def f Let_def split: option.splits if_splits prod.splits)
  then show ?thesis using l1 assms(4) invalidate_other [of l1 q] by (auto simp: invalidate_other)
qed

subsection \<open>Machines for the witnesses\<close>

text \<open>A partition with a single data block, and two partitions of which the first has a directory cached.\<close>

lemma no_space:
  assumes "unat (pt_block_count part) < 2 ^ 32" and "length d = LAINFS_MAX_FILES" and "dir_valid part super d"
    and "unat (pt_block_count part) < unat (sb_data_start_lba super) + unat blocks" and "blocks \<noteq> 0"
  shows "find_free_extents (Some part) super d blocks ignore = None"
proof (rule ccontr)
  assume "find_free_extents (Some part) super d blocks ignore \<noteq> None"
  then obtain xs where xs: "find_free_extents (Some part) super d blocks ignore = Some xs" by blast
  note A = find_free_extents_sound [OF assms(1-3) xs]
  have ok: "\<forall>x \<in> set xs. extent_ok part super x" "disjoint_extents xs" using A(1) by (auto simp: alloc_ok_def)
  have "length (extent_lbas xs) = card (unat ` set (extent_lbas xs))"
    using distinct_card [OF distinct_extent_lbas [OF ok(1) assms(1) ok(2)]] card_image [of unat "set (extent_lbas xs)"]
    by (simp add: inj_on_def word_unat_eq_iff)
  also have "\<dots> \<le> card {unat (sb_data_start_lba super)..<unat (pt_block_count part)}"
    using extent_lbas_data [OF ok(1) assms(1)] by (intro card_mono) (auto simp: word_le_nat_alt)
  finally have "unat blocks \<le> unat (pt_block_count part) - unat (sb_data_start_lba super)"
    using A(2) by (simp add: length_extent_lbas)
  moreover have "0 < unat blocks" using assms(5) by (simp add: unat_gt_0)
  ultimately show False using assms(4) by linarith
qed

definition small_partition :: partition_t where
  "small_partition = demo_partition\<lparr>pt_block_count := 258\<rparr>"

definition small_storage :: "disk_world storage" where
  "small_storage = demo_storage\<lparr>partitions := small_partition # replicate 15 no_partition\<rparr>"

definition small :: "disk_world lainfs" where
  "small = cold_caches small_storage"

lemma small_blocks: "part_block ramdisk_block 0 small_storage = part_block ramdisk_block 0 demo_storage"
  by (simp add: part_block_def small_storage_def demo_storage_def small_partition_def fun_eq_iff)

lemma small_disk: "disk_super ramdisk_block 0 small_storage = fresh_super" "disk_dir ramdisk_block 0 small_storage = empty_directory"
  using demo_disk_super demo_disk_dir by (simp_all add: disk_super_def disk_dir_def small_blocks)

lemma small_ready: "rd_ready 67 0 small" "fs_dir ramdisk_block small 0 = empty_directory"
proof -
  show d: "fs_dir ramdisk_block small 0 = empty_directory"
    using small_disk(2) by (simp add: fs_dir_def small_def cold_caches_def)
  have "length (bytes_of_super fresh_super) = 512" by (simp add: fresh_super_def)
  then have "backed_by ramdisk_read ramdisk_write 0 1048576 ramdisk_ok 0 small_storage"
    by (simp add: backed_by_def small_storage_def small_partition_def demo_storage_def demo_partition_def demo_device_def
        ramdisk_ok_def demo_disk_def)
  then have "rd_fs_ok 0 small_storage"
    using small_disk(1) fresh_super_magic fresh_super_layout [of small_partition]
    by (simp add: driver_fs_ok_def part_blocks_def small_storage_def small_partition_def)
  moreover have "driver_cache_inv ramdisk_read ramdisk_write 0 1048576 ramdisk_block ramdisk_ok small"
    by (simp add: driver_cache_inv_def small_def cold_caches_def driver_slot_ok_def empty_slot_def slots_distinct_def
        slot_matches_def windows_disjoint_def on_driver_def small_storage_def demo_storage_def)
  then have "rd_inv small"
    using empty_directory_wf by (simp add: driver_lainfs_inv_def small_def cold_caches_def super_of_bytes_def)
  moreover have "dir_valid (partitions small_storage ! 0) fresh_super empty_directory"
    by (intro empty_directory_valid fresh_super_layout) (simp add: small_storage_def small_partition_def)
  moreover have "case mount_for_drive 67 small of None \<Rightarrow> False | Some m \<Rightarrow> mt_partition_index m = 0"
    by (simp add: mount_for_drive_def storage_get_mount_by_drive_def to_upper_def small_def cold_caches_def
        small_storage_def demo_storage_def demo_mount_def)
  ultimately show "rd_ready 67 0 small"
    using d small_disk(1) by (simp add: driver_ready_def small_def cold_caches_def)
qed

lemma small_full: "\<exists>l'. lainfs_save_file_in_dir 67 LAINFS_ROOT_DIR [97] buffer 1000 small = Some (-9, l')"
proof (rule ramdisk.save_no_space [OF small_ready(1)])
  show "ramdisk.can_save LAINFS_ROOT_DIR [97] 1000 (fs_dir ramdisk_block small 0)"
    by (simp add: ramdisk.can_save_def valid_name_a valid_root small_ready(2) find_entry_empty)
  show "file_slot LAINFS_ROOT_DIR [97] (fs_dir ramdisk_block small 0) = Some (0, empty_directory[0 := new_file_entry LAINFS_ROOT_DIR])"
    using find_free_empty by (simp add: file_slot_def small_ready(2) find_entry_empty find_free_entry_def)
  have st: "store small = small_storage" "partitions small_storage ! 0 = small_partition"
    by (simp_all add: small_def cold_caches_def small_storage_def)
  have "dir_valid small_partition fresh_super empty_directory"
    by (intro empty_directory_valid fresh_super_layout) (simp add: small_partition_def)
  then show "find_free_extents (Some (partitions (store small) ! 0)) (disk_super ramdisk_block 0 (store small))
      (fs_dir ramdisk_block small 0) (if blocks_for_size 1000 = 0 then 1 else blocks_for_size 1000) 0 = None"
    unfolding st small_disk(1) small_ready(2)
    by (intro no_space) (simp_all add: small_partition_def empty_directory_def fresh_super_def blocks_for_size_def)
qed

definition two_storage :: "disk_world storage" where
  "two_storage = demo_storage\<lparr>partitions := [small_partition, small_partition\<lparr>pt_start_lba := 4096\<rparr>] @ replicate 14 no_partition,
     partition_count := 2\<rparr>"

definition two :: "disk_world lainfs" where
  "two = (cold_caches two_storage)\<lparr>directory := made_dir, directory_cache_valid := True, directory_cache_partition := 0\<rparr>"

lemma two_format: "\<exists>l'. format_partition_index 1 two = (0, l')"
proof -
  have len: "length (bytes_of_super fresh_super) = 512" by (simp add: fresh_super_def)
  have b: "backed_by ramdisk_read ramdisk_write 0 1048576 ramdisk_ok 1 two_storage" "part_blocks 1 two_storage = 258"
    using len by (simp_all add: backed_by_def part_blocks_def two_storage_def small_partition_def demo_storage_def demo_partition_def
        demo_device_def ramdisk_ok_def demo_disk_def)
  obtain h1 where h1: "storage_write_partition 1 0 1 (bytes_of_super fresh_super) two_storage = (0, two_storage\<lparr>disk := h1\<rparr>)"
    "\<And>q. backed_by ramdisk_read ramdisk_write 0 1048576 ramdisk_ok q two_storage \<Longrightarrow>
      backed_by ramdisk_read ramdisk_write 0 1048576 ramdisk_ok q (two_storage\<lparr>disk := h1\<rparr>)"
    by (rule ramdisk.part_write [OF b(1), of 0 1 "bytes_of_super fresh_super"]) (use b(2) len in simp_all)
  have "length (bytes_of_dir empty_directory) = 131072"
    using length_bytes_of_dir [of empty_directory] empty_directory_wf by (simp add: dir_wf_def)
  then obtain h2 where "storage_write_partition 1 1 256 (bytes_of_dir empty_directory) (two_storage\<lparr>disk := h1\<rparr>) =
      (0, two_storage\<lparr>disk := h1\<rparr>\<lparr>disk := h2\<rparr>)"
    by (rule_tac ramdisk.part_write [OF h1(2) [OF b(1)], of 1 256 "bytes_of_dir empty_directory"]) (use b(2) in simp_all)
  moreover have "storage_get_partition 1 two_storage = Some (small_partition\<lparr>pt_start_lba := 4096\<rparr>)"
    "storage_partition_is_writable 1 two_storage" "\<not> pt_block_count small_partition < 64"
    by (simp_all add: storage_get_partition_def storage_partition_is_writable_def two_storage_def small_partition_def
        demo_partition_def demo_storage_def demo_device_def)
  moreover have "store two = two_storage" "\<not> directory_cache_dirty two" by (simp_all add: two_def cold_caches_def)
  ultimately show ?thesis
    using h1(1) by (simp add: format_partition_index_def invalidate_partition_cache_def Let_def)
qed

subsection \<open>The faults\<close>

text \<open>
  C16. A save of a new file that fails because no space is left does not leave the file system as it was: the
  entry that was being made stays in the cached directory without a name, so the next load of any file
  fails with \<^verbatim>\<open>-4\<close>, and the cached directory is dropped together with changes that were never flushed.
\<close>

theorem failed_save_drops_directory:
  assumes "rd_ready drive p l" and "find_entry_in_dir (fs_dir ramdisk_block l p) parent_id name = None"
    and "lainfs_save_file_in_dir drive parent_id name buffer sz l = Some (-9, l')"
    and "valid_name name'" and "bufsz \<noteq> 0"
  shows "\<exists>l''. lainfs_load_file_in_dir drive parent_id' name' out bufsz l' = Some (-4, out, 0, l'') \<and>
    \<not> directory_cache_valid l'' \<and> \<not> directory_cache_dirty l''"
  by (rule ramdisk.load_after_failed_save [OF assms])

theorem failed_save_drops_directory_witness:
  "\<exists>l' l''. lainfs_save_file_in_dir 67 LAINFS_ROOT_DIR [97] [] 1000 small = Some (-9, l') \<and>
    lainfs_load_file_in_dir 67 LAINFS_ROOT_DIR [97] [0] 1 l' = Some (-4, [0], 0, l'')"
proof -
  obtain l' where l': "lainfs_save_file_in_dir 67 LAINFS_ROOT_DIR [97] [] 1000 small = Some (-9, l')"
    using small_full by blast
  then show ?thesis
    using failed_save_drops_directory [OF small_ready(1) _ l' valid_name_a, of 1 LAINFS_ROOT_DIR "[0]"]
    by (auto simp: small_ready(2) find_entry_empty)
qed

text \<open>
  C17. Formatting a partition empties the directory of another one: when the directory buffer caches partition
  \<open>p\<close> and partition \<open>q\<close> is formatted, the buffer is cleared but still taken for the directory of \<open>p\<close>, whose files are gone
  from then on for every operation.
\<close>

theorem format_empties_other_directory:
  assumes "format_partition_index q l = (0, l')" and "directory_cache_valid l" and "directory_cache_partition l = p" and "p \<noteq> q"
  shows "fs_dir blk l' p = empty_directory \<and> directory_cache_valid l' \<and> directory_cache_partition l' = p"
  using format_clears_cached_directory [OF assms] by (simp add: fs_dir_def)

theorem format_empties_other_directory_witness:
  "\<exists>l'. format_partition_index 1 two = (0, l') \<and> fs_dir ramdisk_block two 0 = made_dir \<and>
    fs_dir ramdisk_block l' 0 = empty_directory"
proof -
  obtain l' where l': "format_partition_index 1 two = (0, l')" using two_format by blast
  have "fs_dir ramdisk_block l' 0 = empty_directory"
    using format_empties_other_directory [OF l', of 0 ramdisk_block] by (simp add: two_def)
  then show ?thesis using l' by (auto simp: fs_dir_def two_def)
qed

end
