(* ===== verification/Phys_Mem.thy ===== *)
theory Phys_Mem
  imports Prelude
begin

text \<open>
  Physical memory as the kernel's allocators see it: identity-mapped, byte addressed by 64-bit
  addresses, multi-byte fields little-endian (x86-64). A C struct access through a pointer is a
  load or a store at the field's offset. The theory also holds the boot information record of
  \<^verbatim>\<open>bootinfo.h\<close>, the EFI memory descriptors both allocators walk, and the alignment arithmetic
  shared by their proofs.
\<close>

subsection \<open>Loads and stores\<close>

type_synonym memory = "u64 \<Rightarrow> u8"

definition load_bytes :: "memory \<Rightarrow> u64 \<Rightarrow> nat \<Rightarrow> bytes" where
  "load_bytes m a n = map (\<lambda>i. m (a + word_of_nat i)) [0..<n]"

fun store_bytes :: "u64 \<Rightarrow> bytes \<Rightarrow> memory \<Rightarrow> memory" where
  "store_bytes a [] m = m"
| "store_bytes a (b # bs) m = store_bytes (a + 1) bs (m(a := b))"

definition le16 :: "bytes \<Rightarrow> u16" where
  "le16 p = ucast (p ! 0) OR push_bit 8 (ucast (p ! 1))"

definition bytes16 :: "u16 \<Rightarrow> bytes" where
  "bytes16 v = [ucast (v AND 0xFF), ucast (drop_bit 8 v AND 0xFF)]"

definition le64 :: "bytes \<Rightarrow> u64" where
  "le64 p = ucast (le32 (take 4 p)) OR push_bit 32 (ucast (le32 (drop 4 p)))"

definition bytes64 :: "u64 \<Rightarrow> bytes" where
  "bytes64 v = bytes32 (ucast v) @ bytes32 (ucast (drop_bit 32 v))"

definition load16 :: "memory \<Rightarrow> u64 \<Rightarrow> u16" where "load16 m a = le16 (load_bytes m a 2)"
definition load32 :: "memory \<Rightarrow> u64 \<Rightarrow> u32" where "load32 m a = le32 (load_bytes m a 4)"
definition load64 :: "memory \<Rightarrow> u64 \<Rightarrow> u64" where "load64 m a = le64 (load_bytes m a 8)"
definition store16 :: "u64 \<Rightarrow> u16 \<Rightarrow> memory \<Rightarrow> memory" where "store16 a v = store_bytes a (bytes16 v)"
definition store32 :: "u64 \<Rightarrow> u32 \<Rightarrow> memory \<Rightarrow> memory" where "store32 a v = store_bytes a (bytes32 v)"
definition store64 :: "u64 \<Rightarrow> u64 \<Rightarrow> memory \<Rightarrow> memory" where "store64 a v = store_bytes a (bytes64 v)"

lemma length_load_bytes [simp]: "length (load_bytes m a n) = n"
  by (simp add: load_bytes_def)

lemma length_bytes16 [simp]: "length (bytes16 v) = 2"
  by (simp add: bytes16_def)

lemma length_bytes64 [simp]: "length (bytes64 v) = 8"
  by (simp add: bytes64_def)

lemma le16_bytes16 [simp, codec_simps]: "le16 (bytes16 v) = v"
proof (rule bit_word_eqI)
  fix n :: nat
  assume n: "n < LENGTH(16)"
  have m: "(0xFF :: u16) = mask 8" by (simp add: mask_eq_exp_minus_1)
  show "bit (le16 (bytes16 v)) n = bit v n"
    using n by (cases "n < 8") (auto simp: le16_def bytes16_def m bit_simps)
qed

lemma le64_bytes64 [simp, codec_simps]: "le64 (bytes64 v) = v"
proof (rule bit_word_eqI)
  fix n :: nat
  assume "n < LENGTH(64)"
  then show "bit (le64 (bytes64 v)) n = bit v n"
    by (cases "n < 32") (auto simp: le64_def bytes64_def bit_simps)
qed

text \<open>
  The bytes an access touches: as a set of addresses, for an access that does not run over the
  end of the address space.
\<close>

definition region :: "u64 \<Rightarrow> nat \<Rightarrow> nat set" where
  "region a n = {unat a..<unat a + n}"

definition in_space :: "u64 \<Rightarrow> nat \<Rightarrow> bool" where
  "in_space a n \<longleftrightarrow> unat a + n < 2 ^ 64"

lemma unat_add_small: "unat a + n < 2 ^ 64 \<Longrightarrow> unat (a + word_of_nat n :: u64) = unat a + n"
  by (simp add: unat_word_ariths unat_of_nat take_bit_nat_eq_self)

lemma store_bytes_apply:
  assumes "unat a + length bs < 2 ^ 64"
  shows "store_bytes a bs m x =
    (if unat x \<in> region a (length bs) then bs ! (unat x - unat a) else m x)"
  using assms
proof (induction bs arbitrary: a m)
  case Nil
  then show ?case by (simp add: region_def)
next
  case (Cons b bs)
  have u: "unat (a + 1) = unat a + 1" using unat_add_small [of a 1] Cons.prems by simp
  then have "unat (a + 1) + length bs < 2 ^ 64" using Cons.prems by simp
  note ih = Cons.IH [OF this]
  have e: "store_bytes a (b # bs) m x =
      (if unat x \<in> region (a + 1) (length bs) then bs ! (unat x - unat (a + 1)) else (m(a := b)) x)"
    by (simp only: store_bytes.simps ih)
  have "x = a \<longleftrightarrow> unat x = unat a" by (simp add: word_unat_eq_iff)
  then show ?case unfolding e by (auto simp: region_def u nth_Cons')
qed

lemma load_bytes_store_same:
  assumes "in_space a (length bs)" and "n = length bs"
  shows "load_bytes (store_bytes a bs m) a n = bs"
proof (rule nth_equalityI)
  fix i
  assume "i < length (load_bytes (store_bytes a bs m) a n)"
  then have i: "i < length bs" using assms(2) by simp
  then have "unat (a + word_of_nat i) = unat a + i"
    using assms(1) by (intro unat_add_small) (simp add: in_space_def)
  then show "load_bytes (store_bytes a bs m) a n ! i = bs ! i"
    using assms i by (simp add: load_bytes_def store_bytes_apply in_space_def region_def)
qed (simp add: assms(2))

lemma load_bytes_cong:
  assumes "in_space a n" and "\<And>x. unat x \<in> region a n \<Longrightarrow> m x = m' x"
  shows "load_bytes m a n = load_bytes m' a n"
proof -
  have "m (a + word_of_nat i) = m' (a + word_of_nat i)" if "i < n" for i
  proof -
    have "unat (a + word_of_nat i) = unat a + i"
      using assms(1) that by (intro unat_add_small) (simp add: in_space_def)
    then show ?thesis using that by (intro assms(2)) (simp add: region_def)
  qed
  then show ?thesis by (simp add: load_bytes_def)
qed

lemma load_bytes_store_other:
  assumes "in_space a (length bs)" and "in_space b n"
    and "region a (length bs) \<inter> region b n = {}"
  shows "load_bytes (store_bytes a bs m) b n = load_bytes m b n"
  using assms by (intro load_bytes_cong) (auto simp: store_bytes_apply in_space_def)

lemma store_bytes_append:
  "store_bytes a (xs @ ys) m = store_bytes (a + word_of_nat (length xs)) ys (store_bytes a xs m)"
proof (induction xs arbitrary: a m)
  case (Cons x xs)
  have "a + 1 + word_of_nat (length xs) = a + word_of_nat (Suc (length xs))" by simp
  then show ?case using Cons.IH [of "a + 1" "m(a := x)"] by (simp only: append_Cons store_bytes.simps list.size add_Suc_right add_0_right)
qed simp

lemma load_bytes_slice:
  "i + k \<le> n \<Longrightarrow> load_bytes m (a + word_of_nat i) k = slice i k (load_bytes m a n)"
  by (rule nth_equalityI) (simp_all add: load_bytes_def nth_slice add.assoc flip: of_nat_add)

text \<open>Memory that differs from another at most in a set of addresses.\<close>

definition only_in :: "nat set \<Rightarrow> memory \<Rightarrow> memory \<Rightarrow> bool" where
  "only_in X m m' \<longleftrightarrow> (\<forall>x. unat x \<notin> X \<longrightarrow> m' x = m x)"

lemma only_in_refl [simp]: "only_in X m m"
  by (simp add: only_in_def)

lemma only_in_trans: "only_in X m m' \<Longrightarrow> only_in X m' m'' \<Longrightarrow> only_in X m m''"
  by (simp add: only_in_def)

lemma only_in_mono: "only_in X m m' \<Longrightarrow> X \<subseteq> Y \<Longrightarrow> only_in Y m m'"
  by (auto simp: only_in_def)

lemma only_in_store:
  assumes "in_space a (length bs)" and "region a (length bs) \<subseteq> X" and "only_in X m m'"
  shows "only_in X m (store_bytes a bs m')"
  using assms by (auto simp: only_in_def store_bytes_apply in_space_def)

lemma only_in_load:
  assumes "only_in X m m'" and "in_space a n" and "region a n \<inter> X = {}"
  shows "load_bytes m' a n = load_bytes m a n"
  using assms by (intro load_bytes_cong) (auto simp: only_in_def)

lemma region_mono: "i + k \<le> n \<Longrightarrow> in_space a n \<Longrightarrow> region (a + word_of_nat i) k \<subseteq> region a n"
  using unat_add_small [of a i] by (auto simp: region_def in_space_def)

lemma in_space_part: "i + k \<le> n \<Longrightarrow> in_space a n \<Longrightarrow> in_space (a + word_of_nat i) k"
  using unat_add_small [of a i] by (auto simp: in_space_def)

lemma in_space_le: "in_space a n \<Longrightarrow> k \<le> n \<Longrightarrow> in_space a k"
  by (simp add: in_space_def)

lemma region_le: "k \<le> n \<Longrightarrow> region a k \<subseteq> region a n"
  by (auto simp: region_def)

subsection \<open>Boot information\<close>

record boot_info_t =
  bi_magic :: u64
  bi_kernel_base :: u64
  bi_kernel_size :: u64
  bi_memory_map :: u64
  bi_memory_map_size :: u64
  bi_memory_map_descriptor_size :: u64
  bi_memory_map_descriptor_version :: u64
  bi_framebuffer_base :: u64
  bi_framebuffer_width :: u32
  bi_framebuffer_height :: u32
  bi_framebuffer_pixels_per_scanline :: u32
  bi_framebuffer_format :: u32
  bi_rsdp :: u64

record efi_memory_descriptor_t =
  ed_type :: u32
  ed_pad :: u32
  ed_physical_start :: u64
  ed_virtual_start :: u64
  ed_number_of_pages :: u64
  ed_attribute :: u64

abbreviation (input) EFI_CONVENTIONAL_MEMORY :: u32 where "EFI_CONVENTIONAL_MEMORY \<equiv> 7"
abbreviation (input) DESCRIPTOR_SIZE :: u64 where "DESCRIPTOR_SIZE \<equiv> 40"

definition read_descriptor :: "memory \<Rightarrow> u64 \<Rightarrow> efi_memory_descriptor_t" where
  "read_descriptor m a =
     \<lparr>ed_type = load32 m a, ed_pad = load32 m (a + 4), ed_physical_start = load64 m (a + 8),
      ed_virtual_start = load64 m (a + 16), ed_number_of_pages = load64 m (a + 24), ed_attribute = load64 m (a + 32)\<rparr>"

end
