(* ===== verification/Dma.thy ===== *)
theory Dma
  imports Phys_Mem
begin

text \<open>
  The DMA pool of \<^verbatim>\<open>kernel/core/dma.c\<close>: four megabytes of conventional memory below 4 GB, chosen at
  boot outside the kernel image and the memory map, handed out by a bump allocator. The static
  variables are the record \<open>dma\<close>; physical memory is passed explicitly. As in the page
  allocator, the walk over the memory map may wrap around and not end (\<open>None\<close>).
\<close>

abbreviation (input) DMA_POOL_LIMIT :: u64 where "DMA_POOL_LIMIT \<equiv> 0x100000000"
abbreviation (input) DMA_POOL_MIN :: u64 where "DMA_POOL_MIN \<equiv> 0x01000000"
abbreviation (input) DMA_POOL_SIZE :: u64 where "DMA_POOL_SIZE \<equiv> 4 * 1024 * 1024"

record dma =
  dma_pool_base_addr :: u64
  dma_pool_size_bytes :: u64
  dma_pool_offset :: u64

definition dma_align_up64 :: "u64 \<Rightarrow> u64 \<Rightarrow> u64" where
  "dma_align_up64 v alignment =
     (if alignment = 0 then v else (v + alignment - 1) AND NOT (alignment - 1))"

definition dma_overlaps :: "u64 \<Rightarrow> u64 \<Rightarrow> u64 \<Rightarrow> u64 \<Rightarrow> bool" where
  "dma_overlaps start end other_start other_end \<longleftrightarrow> start < other_end \<and> other_start < end"

text \<open>The body of the loop of \<^verbatim>\<open>dma_init\<close>: the pool's address when the descriptor can hold it.\<close>

definition dma_candidate :: "boot_info_t \<Rightarrow> efi_memory_descriptor_t \<Rightarrow> u64 option" where
  "dma_candidate info desc =
     (if ed_type desc \<noteq> EFI_CONVENTIONAL_MEMORY then None
      else let start0 = ed_physical_start desc;
               end0 = start0 + ed_number_of_pages desc * 4096;
               end = (if end0 > DMA_POOL_LIMIT then DMA_POOL_LIMIT else end0);
               start1 = (if start0 < DMA_POOL_MIN then DMA_POOL_MIN else start0);
               start = dma_align_up64 start1 4096
           in if end \<le> start \<or> end - start < DMA_POOL_SIZE then None
              else if dma_overlaps start (start + DMA_POOL_SIZE)
                        (bi_kernel_base info) (bi_kernel_base info + bi_kernel_size info) \<or>
                      dma_overlaps start (start + DMA_POOL_SIZE)
                        (bi_memory_map info) (bi_memory_map info + bi_memory_map_size info)
              then None
              else Some start)"

partial_function (option) dma_scan :: "boot_info_t \<Rightarrow> memory \<Rightarrow> u64 \<Rightarrow> dma \<Rightarrow> dma option" where
  "dma_scan info m off d =
     (if off + DESCRIPTOR_SIZE \<le> bi_memory_map_size info
      then (case dma_candidate info (read_descriptor m (bi_memory_map info + off)) of
              None \<Rightarrow> dma_scan info m (off + bi_memory_map_descriptor_size info) d
            | Some start \<Rightarrow> Some \<lparr>dma_pool_base_addr = start, dma_pool_size_bytes = DMA_POOL_SIZE,
                                  dma_pool_offset = 0\<rparr>)
      else Some d)"

declare dma_scan.simps [code]

definition dma_init :: "boot_info_t option \<Rightarrow> memory \<Rightarrow> dma option" where
  "dma_init info m =
     (let d = \<lparr>dma_pool_base_addr = 0, dma_pool_size_bytes = 0, dma_pool_offset = 0\<rparr>
      in case info of None \<Rightarrow> Some d
         | Some info \<Rightarrow>
             if bi_memory_map info = 0 \<or> bi_memory_map_size info = 0 \<or>
                bi_memory_map_descriptor_size info < DESCRIPTOR_SIZE
             then Some d
             else dma_scan info m 0 d)"

definition dma_alloc :: "u32 \<Rightarrow> u32 \<Rightarrow> dma \<Rightarrow> memory \<Rightarrow> u64 \<times> dma \<times> memory" where
  "dma_alloc n alignment d m =
     (if dma_pool_base_addr d = 0 \<or> n = 0 then (0, d, m)
      else let off = dma_align_up64 (dma_pool_offset d) (if alignment \<noteq> 0 then ucast alignment else 16)
           in if off + ucast n > dma_pool_size_bytes d then (0, d, m)
              else let addr = dma_pool_base_addr d + off
                   in (addr, d\<lparr>dma_pool_offset := off + ucast n\<rparr>,
                       store_bytes addr (replicate (unat n) 0) m))"

definition dma_phys :: "u64 \<Rightarrow> u64" where "dma_phys ptr = ptr"
definition dma_pool_base :: "dma \<Rightarrow> u64" where "dma_pool_base d = dma_pool_base_addr d"
definition dma_pool_size :: "dma \<Rightarrow> u64" where "dma_pool_size d = dma_pool_size_bytes d"

end
