(* ===== verification/Kmem_Pages.thy ===== *)
theory Kmem_Pages
  imports Phys_Mem "HOL-Library.Multiset"
begin

text \<open>
  The page allocator of \<^verbatim>\<open>kernel/core/kmem.c\<close>: a table of at most 128 ranges of free pages, built
  from the EFI memory map, kept sorted and coalesced.

  The static variables of the file are the record \<open>kmem\<close>, together with physical memory
  (\<open>memory\<close>). The table \<^verbatim>\<open>free_ranges[0..free_range_count)\<close> is a list, whose length is the counter;
  the stale entries behind it are never read. The operations are modelled as one caller at a time
  runs them: each locked section runs to its end, and the spin lock itself is left out.
  A loop over the memory map whose 64-bit offset wraps may run for ever; \<open>kmem_init\<close> returns
  \<open>None\<close> then.
\<close>

abbreviation (input) KMEM_PAGE_SIZE :: u64 where "KMEM_PAGE_SIZE \<equiv> 4096"
abbreviation (input) KMEM_MIN_ADDRESS :: u64 where "KMEM_MIN_ADDRESS \<equiv> 0x00100000"
abbreviation (input) KMEM_MAX_RANGES :: nat where "KMEM_MAX_RANGES \<equiv> 128"
abbreviation (input) KMEM_SMALL_CLASS_COUNT :: nat where "KMEM_SMALL_CLASS_COUNT \<equiv> 8"

record page_range_t =
  pr_start :: u64
  pr_pages :: u64

record kmem =
  free_ranges :: "page_range_t list"
  total_page_count :: u64
  free_page_count :: u64
  heap_used_bytes :: u64
  allocation_count :: u64
  free_count :: u64
  live_allocations :: u64
  peak_live_allocations :: u64
  invalid_frees :: u64
  double_frees :: u64
  guard_failures :: u64
  allocation_failures :: u64
  small_free :: "u64 list"
  memory :: memory

definition align_up64 :: "u64 \<Rightarrow> u64 \<Rightarrow> u64" where
  "align_up64 v alignment = (v + alignment - 1) AND NOT (alignment - 1)"

definition align_down64 :: "u64 \<Rightarrow> u64 \<Rightarrow> u64" where
  "align_down64 v alignment = v AND NOT (alignment - 1)"

definition overlaps :: "u64 \<Rightarrow> u64 \<Rightarrow> u64 \<Rightarrow> u64 \<Rightarrow> bool" where
  "overlaps start end other_start other_end \<longleftrightarrow> start < other_end \<and> other_start < end"

definition fill_memory :: "u64 \<Rightarrow> nat \<Rightarrow> u8 \<Rightarrow> memory \<Rightarrow> memory" where
  "fill_memory p n v = store_bytes p (replicate n v)"

definition zero_memory :: "u64 \<Rightarrow> nat \<Rightarrow> memory \<Rightarrow> memory" where
  "zero_memory p n = store_bytes p (replicate n 0)"

definition remove_range_index :: "nat \<Rightarrow> page_range_t list \<Rightarrow> page_range_t list" where
  "remove_range_index index rs =
     (if index \<ge> length rs then rs else take index rs @ drop (index + 1) rs)"

subsection \<open>Coalescing\<close>

definition sort_step :: "nat \<Rightarrow> nat \<Rightarrow> page_range_t list \<Rightarrow> page_range_t list" where
  "sort_step i j rs =
     (if pr_start (rs ! j) < pr_start (rs ! i) then rs[i := rs ! j, j := rs ! i] else rs)"

definition sort_ranges :: "page_range_t list \<Rightarrow> page_range_t list" where
  "sort_ranges rs = fold (\<lambda>i. fold (sort_step i) [i + 1..<length rs]) [0..<length rs] rs"

function merge_ranges :: "nat \<Rightarrow> page_range_t list \<Rightarrow> page_range_t list" where
  "merge_ranges i rs =
     (if i + 1 < length rs
      then let a = rs ! i; b = rs ! (i + 1);
               end = pr_start a + pr_pages a * KMEM_PAGE_SIZE
           in if end \<ge> pr_start b
              then let next_end = pr_start b + pr_pages b * KMEM_PAGE_SIZE;
                       rs' = (if next_end > end
                              then rs[i := a\<lparr>pr_pages := (next_end - pr_start a) div KMEM_PAGE_SIZE\<rparr>]
                              else rs)
                   in merge_ranges i (remove_range_index (i + 1) rs')
              else merge_ranges (i + 1) rs
      else rs)"
  by pat_completeness auto
termination
  by (relation "measure (\<lambda>(i, rs). length rs - i)") (auto simp: remove_range_index_def Let_def)

declare merge_ranges.simps [simp del]

definition coalesce_ranges :: "page_range_t list \<Rightarrow> page_range_t list" where
  "coalesce_ranges rs = merge_ranges 0 (sort_ranges rs)"

subsection \<open>Building the table\<close>

definition add_free_range :: "u64 \<Rightarrow> u64 \<Rightarrow> kmem \<Rightarrow> kmem" where
  "add_free_range start pages k =
     (if pages = 0 \<or> length (free_ranges k) \<ge> KMEM_MAX_RANGES then k
      else k\<lparr>free_ranges := free_ranges k @ [\<lparr>pr_start = start, pr_pages = pages\<rparr>],
             total_page_count := total_page_count k + pages,
             free_page_count := free_page_count k + pages\<rparr>)"

definition take_pages :: "u64 \<Rightarrow> page_range_t list \<Rightarrow> kmem \<Rightarrow> kmem" where
  "take_pages n rs k =
     k\<lparr>free_ranges := rs, free_page_count := free_page_count k - n,
       total_page_count := total_page_count k - n\<rparr>"

text \<open>The body of the loop of \<^verbatim>\<open>reserve_range\<close>: the new state, and whether \<^verbatim>\<open>i\<close> is incremented.\<close>

definition reserve_step :: "u64 \<Rightarrow> u64 \<Rightarrow> nat \<Rightarrow> kmem \<Rightarrow> bool \<times> kmem" where
  "reserve_step start end i k =
     (let rs = free_ranges k; r = rs ! i;
          range_start = pr_start r; range_end = range_start + pr_pages r * KMEM_PAGE_SIZE
      in if \<not> overlaps range_start range_end start end then (True, k)
         else if start \<le> range_start \<and> end \<ge> range_end
         then (False, take_pages (pr_pages r) (remove_range_index i rs) k)
         else if start \<le> range_start
         then let removed = (end - range_start) div KMEM_PAGE_SIZE
              in (True, take_pages removed
                    (rs[i := \<lparr>pr_start = range_start + removed * KMEM_PAGE_SIZE,
                              pr_pages = pr_pages r - removed\<rparr>]) k)
         else if end \<ge> range_end
         then let removed = (range_end - start) div KMEM_PAGE_SIZE
              in (True, take_pages removed (rs[i := r\<lparr>pr_pages := pr_pages r - removed\<rparr>]) k)
         else if length rs < KMEM_MAX_RANGES
         then let left_pages = (start - range_start) div KMEM_PAGE_SIZE;
                  right_pages = (range_end - end) div KMEM_PAGE_SIZE
              in (True, take_pages ((end - start) div KMEM_PAGE_SIZE)
                    (rs[i := r\<lparr>pr_pages := left_pages\<rparr>] @
                       [\<lparr>pr_start = end, pr_pages = right_pages\<rparr>]) k)
         else (True, k))"

lemma reserve_step_length:
  assumes "reserve_step start end i k = (adv, k')" and "i < length (free_ranges k)"
  shows "if adv then length (free_ranges k') = length (free_ranges k) \<or>
                     length (free_ranges k) < 128 \<and> length (free_ranges k') = length (free_ranges k) + 1
         else length (free_ranges k') = length (free_ranges k) - 1"
  using assms
  by (auto simp: reserve_step_def take_pages_def remove_range_index_def Let_def split: if_splits)

function reserve_loop :: "u64 \<Rightarrow> u64 \<Rightarrow> nat \<Rightarrow> kmem \<Rightarrow> kmem" where
  "reserve_loop start end i k =
     (if i < length (free_ranges k)
      then let (adv, k') = reserve_step start end i k
           in reserve_loop start end (if adv then i + 1 else i) k'
      else k)"
  by pat_completeness auto
termination
  by (relation "measures [\<lambda>(start, end, i, k). length (free_ranges k) - i,
                          \<lambda>(start, end, i, k). 128 - length (free_ranges k)]")
    (auto dest!: reserve_step_length [OF sym] split: if_splits)

declare reserve_loop.simps [simp del]

definition reserve_range :: "u64 \<Rightarrow> u64 \<Rightarrow> kmem \<Rightarrow> kmem" where
  "reserve_range start end k =
     reserve_loop (align_down64 start KMEM_PAGE_SIZE) (align_up64 end KMEM_PAGE_SIZE) 0 k"

definition add_descriptor :: "efi_memory_descriptor_t \<Rightarrow> kmem \<Rightarrow> kmem" where
  "add_descriptor desc k =
     (if ed_type desc \<noteq> EFI_CONVENTIONAL_MEMORY then k
      else let start0 = align_up64 (ed_physical_start desc) KMEM_PAGE_SIZE;
               start = (if start0 < KMEM_MIN_ADDRESS then KMEM_MIN_ADDRESS else start0);
               end = align_down64 (ed_physical_start desc + ed_number_of_pages desc * KMEM_PAGE_SIZE)
                       KMEM_PAGE_SIZE
           in if end > start then add_free_range start ((end - start) div KMEM_PAGE_SIZE) k else k)"

partial_function (option) add_descriptors :: "boot_info_t \<Rightarrow> u64 \<Rightarrow> kmem \<Rightarrow> kmem option" where
  "add_descriptors info off k =
     (if off + DESCRIPTOR_SIZE \<le> bi_memory_map_size info
      then add_descriptors info (off + bi_memory_map_descriptor_size info)
             (add_descriptor (read_descriptor (memory k) (bi_memory_map info + off)) k)
      else Some k)"

declare add_descriptors.simps [code]

definition kmem_reset :: "kmem \<Rightarrow> kmem" where
  "kmem_reset k =
     k\<lparr>free_ranges := [], total_page_count := 0, free_page_count := 0, heap_used_bytes := 0,
       allocation_count := 0, free_count := 0, live_allocations := 0, peak_live_allocations := 0,
       invalid_frees := 0, double_frees := 0, guard_failures := 0, allocation_failures := 0,
       small_free := replicate KMEM_SMALL_CLASS_COUNT 0\<rparr>"

definition reserve_boot_ranges :: "boot_info_t \<Rightarrow> u64 \<Rightarrow> u64 \<Rightarrow> kmem \<Rightarrow> kmem" where
  "reserve_boot_ranges info pool_base pool_size k =
     (let k1 = reserve_range (bi_kernel_base info) (bi_kernel_base info + bi_kernel_size info) k;
          k2 = reserve_range (bi_memory_map info) (bi_memory_map info + bi_memory_map_size info) k1;
          k3 = (if bi_rsdp info \<noteq> 0 then reserve_range (bi_rsdp info) (bi_rsdp info + KMEM_PAGE_SIZE) k2
                else k2);
          k4 = (if bi_framebuffer_base info \<noteq> 0 \<and> bi_framebuffer_height info \<noteq> 0 \<and>
                   bi_framebuffer_pixels_per_scanline info \<noteq> 0
                then reserve_range (bi_framebuffer_base info)
                       (bi_framebuffer_base info + ucast (bi_framebuffer_height info) *
                          ucast (bi_framebuffer_pixels_per_scanline info) * 4) k3
                else k3)
      in if pool_base \<noteq> 0 \<and> pool_size \<noteq> 0 then reserve_range pool_base (pool_base + pool_size) k4
         else k4)"

text \<open>\<^verbatim>\<open>pool_base\<close> and \<^verbatim>\<open>pool_size\<close> are what \<^verbatim>\<open>dma_pool_base()\<close> and \<^verbatim>\<open>dma_pool_size()\<close> return.\<close>

definition kmem_init :: "boot_info_t option \<Rightarrow> u64 \<Rightarrow> u64 \<Rightarrow> kmem \<Rightarrow> kmem option" where
  "kmem_init info pool_base pool_size k =
     (let k0 = kmem_reset k
      in case info of None \<Rightarrow> Some k0
         | Some info \<Rightarrow>
             if bi_memory_map info = 0 \<or> bi_memory_map_size info = 0 \<or>
                bi_memory_map_descriptor_size info < DESCRIPTOR_SIZE
             then Some k0
             else case add_descriptors info 0 k0 of None \<Rightarrow> None
                  | Some k1 \<Rightarrow>
                      let k2 = reserve_boot_ranges info pool_base pool_size k1
                      in Some (k2\<lparr>free_ranges := coalesce_ranges (free_ranges k2)\<rparr>))"

subsection \<open>Allocation\<close>

fun page_alloc_scan :: "nat \<Rightarrow> u64 \<Rightarrow> page_range_t list \<Rightarrow> nat option" where
  "page_alloc_scan i page_count [] = None"
| "page_alloc_scan i page_count (r # rs) =
     (if pr_pages r < page_count then page_alloc_scan (i + 1) page_count rs else Some i)"

definition page_alloc :: "u32 \<Rightarrow> kmem \<Rightarrow> u64 \<times> kmem" where
  "page_alloc page_count k =
     (if page_count = 0 then (0, k)
      else let n = ucast page_count :: u64; rs = free_ranges k;
               (addr, k1) =
                 (case page_alloc_scan 0 n rs of None \<Rightarrow> (0, k)
                  | Some i \<Rightarrow>
                      let r = rs ! i;
                          r' = \<lparr>pr_start = pr_start r + n * KMEM_PAGE_SIZE, pr_pages = pr_pages r - n\<rparr>;
                          rs' = rs[i := r']
                      in (pr_start r,
                          k\<lparr>free_ranges := (if pr_pages r' = 0 then remove_range_index i rs' else rs'),
                            free_page_count := free_page_count k - n\<rparr>));
               k2 = (if addr = 0 then k1\<lparr>allocation_failures := allocation_failures k1 + 1\<rparr> else k1)
           in if addr \<noteq> 0
              then (addr, k2\<lparr>memory := zero_memory addr (unat (n * KMEM_PAGE_SIZE)) (memory k2)\<rparr>)
              else (addr, k2))"

definition page_free :: "u64 \<Rightarrow> u32 \<Rightarrow> kmem \<Rightarrow> kmem" where
  "page_free addr page_count k =
     (if addr = 0 \<or> page_count = 0 \<or> addr AND (KMEM_PAGE_SIZE - 1) \<noteq> 0 then k
      else if length (free_ranges k) < KMEM_MAX_RANGES
      then k\<lparr>free_ranges := coalesce_ranges
                 (free_ranges k @ [\<lparr>pr_start = addr, pr_pages = ucast page_count\<rparr>]),
             free_page_count := free_page_count k + ucast page_count\<rparr>
      else k)"

definition kmem_total_pages :: "kmem \<Rightarrow> u64" where "kmem_total_pages k = total_page_count k"
definition kmem_free_pages :: "kmem \<Rightarrow> u64" where "kmem_free_pages k = free_page_count k"

end
