(* ===== verification/Kmem_Ranges.thy ===== *)
theory Kmem_Ranges
  imports Kmem_Pages
begin

text \<open>
  What a table of free ranges means: the set of the addresses of its pages. The theory proves the
  range arithmetic free of wrap-around for ranges that lie in the address space, and that sorting
  and merging (\<open>coalesce_ranges\<close>) keep the set and give the one canonical table for it.
\<close>

definition rend :: "page_range_t \<Rightarrow> nat" where
  "rend r = unat (pr_start r) + unat (pr_pages r) * 4096"

definition rng :: "page_range_t \<Rightarrow> nat set" where
  "rng r = {unat (pr_start r)..<rend r}"

definition covers :: "page_range_t list \<Rightarrow> nat set" where
  "covers rs = (\<Union>r \<in> set rs. rng r)"

definition range_ok :: "page_range_t \<Rightarrow> bool" where
  "range_ok r \<longleftrightarrow> 0 < unat (pr_start r) \<and> 4096 dvd unat (pr_start r) \<and> 0 < unat (pr_pages r) \<and>
     rend r < 2 ^ 64"

definition apart :: "page_range_t list \<Rightarrow> bool" where
  "apart rs \<longleftrightarrow> sorted_wrt (\<lambda>a b. rng a \<inter> rng b = {}) rs"

definition canonical :: "page_range_t list \<Rightarrow> bool" where
  "canonical rs \<longleftrightarrow> (\<forall>r \<in> set rs. range_ok r) \<and> sorted_wrt (\<lambda>a b. rend a < unat (pr_start b)) rs"

definition pages_of :: "page_range_t list \<Rightarrow> nat" where
  "pages_of rs = (\<Sum>r \<leftarrow> rs. unat (pr_pages r))"

lemma covers_simps [simp]:
  "covers [] = {}" "covers (r # rs) = rng r \<union> covers rs" "covers (rs @ rs') = covers rs \<union> covers rs'"
  by (auto simp: covers_def)

lemma pages_of_simps [simp]:
  "pages_of [] = 0" "pages_of (r # rs) = unat (pr_pages r) + pages_of rs"
  "pages_of (rs @ rs') = pages_of rs + pages_of rs'"
  by (simp_all add: pages_of_def)

lemma finite_rng [simp]: "finite (rng r)"
  by (simp add: rng_def)

lemma finite_covers [simp]: "finite (covers rs)"
  by (induction rs) simp_all

lemma card_rng: "card (rng r) = unat (pr_pages r) * 4096"
  by (simp add: rng_def rend_def)

lemma covers_mset: "mset rs = mset rs' \<Longrightarrow> covers rs = covers rs'"
  by (auto simp: covers_def dest: mset_eq_setD)

lemma pages_of_mset: "mset rs = mset rs' \<Longrightarrow> pages_of rs = pages_of rs'"
  unfolding pages_of_def by (metis mset_map sum_mset_sum_list)

lemma card_covers: "apart rs \<Longrightarrow> card (covers rs) = pages_of rs * 4096"
proof (induction rs)
  case (Cons r rs)
  then have "rng r \<inter> covers rs = {}" "apart rs" by (auto simp: apart_def covers_def)
  then show ?case using Cons.IH by (simp add: card_Un_disjoint card_rng)
qed simp

subsection \<open>Range arithmetic does not wrap\<close>

lemma unat_mult_4096: "unat n * 4096 < 2 ^ 64 \<Longrightarrow> unat (n * 4096 :: u64) = unat n * 4096"
  by (simp add: unat_word_ariths)

lemma unat_add_u64: "unat a + unat b < 2 ^ 64 \<Longrightarrow> unat (a + b :: u64) = unat a + unat b"
  by (simp add: unat_word_ariths)

lemma unat_sub_u64: "unat b \<le> unat a \<Longrightarrow> unat (a - b :: u64) = unat a - unat b"
  by (simp add: unat_sub word_le_nat_alt)

lemma unat_div_4096: "unat (a div 4096 :: u64) = unat a div 4096"
  by (simp add: unat_div)

lemma range_ok_end: "range_ok r \<Longrightarrow> unat (pr_start r + pr_pages r * 4096) = rend r"
  by (simp add: range_ok_def rend_def unat_mult_4096 unat_add_u64)

lemma rend_dvd: "range_ok r \<Longrightarrow> 4096 dvd rend r"
  by (simp add: range_ok_def rend_def)

lemma range_ok_less: "range_ok r \<Longrightarrow> unat (pr_start r) < rend r"
  by (simp add: range_ok_def rend_def)

subsection \<open>Sorting\<close>

lemma length_sort_step [simp]: "length (sort_step i j rs) = length rs"
  by (simp add: sort_step_def)

lemma mset_sort_step: "i < length rs \<Longrightarrow> j < length rs \<Longrightarrow> mset (sort_step i j rs) = mset rs"
  by (simp add: sort_step_def mset_swap)

lemma sort_pass:
  assumes "i < j" and "j \<le> length rs" and "rs' = fold (sort_step i) [i + 1..<j] rs"
  shows "length rs' = length rs \<and> mset rs' = mset rs \<and> take i rs' = take i rs \<and>
    (\<forall>k. i \<le> k \<and> k < j \<longrightarrow> pr_start (rs' ! i) \<le> pr_start (rs' ! k))"
  using assms
proof (induction j arbitrary: rs')
  case 0
  then show ?case by simp
next
  case (Suc j)
  show ?case
  proof (cases "i = j")
    case True
    then have "rs' = rs" using Suc.prems by simp
    then show ?thesis using True by (auto simp: le_Suc_eq less_Suc_eq)
  next
    case False
    define qs where "qs = fold (sort_step i) [i + 1..<j] rs"
    have ij: "i < j" "j < length rs" using False Suc.prems by auto
    then have q: "length qs = length rs" "mset qs = mset rs" "take i qs = take i rs"
      "\<And>k. i \<le> k \<Longrightarrow> k < j \<Longrightarrow> pr_start (qs ! i) \<le> pr_start (qs ! k)"
      using Suc.IH [OF _ _ qs_def] by auto
    have r: "rs' = sort_step i j qs" using ij Suc.prems(3) by (simp add: qs_def)
    have "mset rs' = mset rs" using r q ij by (simp add: mset_sort_step)
    moreover have "take i rs' = take i rs" using ij q(3) by (simp add: r sort_step_def)
    moreover have "pr_start (rs' ! i) \<le> pr_start (rs' ! k)" if "i \<le> k" "k < Suc j" for k
      using that ij q(1) q(4) [of k]
      by (cases "k = i"; cases "k = j") (auto simp: r sort_step_def nth_list_update)
    ultimately show ?thesis using q(1) by (simp add: r)
  qed
qed

lemma sort_outer:
  assumes "m \<le> length rs" and "rs' = fold (\<lambda>i. fold (sort_step i) [i + 1..<length rs]) [0..<m] rs"
  shows "length rs' = length rs \<and> mset rs' = mset rs \<and>
    (\<forall>a b. a < m \<and> a < b \<and> b < length rs \<longrightarrow> pr_start (rs' ! a) \<le> pr_start (rs' ! b))"
  using assms
proof (induction m arbitrary: rs')
  case 0
  then show ?case by simp
next
  case (Suc m)
  define qs where "qs = fold (\<lambda>i. fold (sort_step i) [i + 1..<length rs]) [0..<m] rs"
  have q: "length qs = length rs" "mset qs = mset rs"
    "\<And>a b. a < m \<Longrightarrow> a < b \<Longrightarrow> b < length rs \<Longrightarrow> pr_start (qs ! a) \<le> pr_start (qs ! b)"
    using Suc.IH [OF _ qs_def] Suc.prems(1) by auto
  have e: "rs' = fold (sort_step m) [m + 1..<length rs] qs" using Suc.prems(2) by (simp add: qs_def)
  have p: "length rs' = length qs" "mset rs' = mset qs" "take m rs' = take m qs"
    "\<And>k. m \<le> k \<Longrightarrow> k < length rs \<Longrightarrow> pr_start (rs' ! m) \<le> pr_start (rs' ! k)"
    using sort_pass [of m "length rs" qs rs'] e q(1) Suc.prems(1) by auto
  have "mset (take m rs') + mset (drop m rs') = mset (take m qs) + mset (drop m qs)"
    using p(2) by (simp flip: mset_append)
  then have d: "set (drop m rs') = set (drop m qs)" using p(3) by (auto dest: mset_eq_setD)
  have "pr_start (rs' ! a) \<le> pr_start (rs' ! b)" if "a < Suc m" "a < b" "b < length rs" for a b
  proof (cases "a = m")
    case True
    then show ?thesis using p(4) that by simp
  next
    case False
    then have a: "a < m" using that by simp
    have ra: "rs' ! a = qs ! a" using p(3) a by (metis nth_take)
    show ?thesis
    proof (cases "b < m")
      case True
      then have "rs' ! b = qs ! b" using p(3) by (metis nth_take)
      then show ?thesis using q(3) a that ra by simp
    next
      case False
      then have "rs' ! b \<in> set (drop m rs')"
        using that p(1) q(1) by (auto simp: in_set_conv_nth intro!: exI [of _ "b - m"])
      then obtain c where "c < length qs - m" "rs' ! b = qs ! (m + c)"
        unfolding d by (auto simp: in_set_conv_nth)
      then show ?thesis using q(3) [OF a, of "m + c"] a ra q(1) by simp
    qed
  qed
  then show ?case using p q by simp
qed

lemma sort_ranges_sorted:
  "mset (sort_ranges rs) = mset rs" (is ?m)
  "sorted_wrt (\<lambda>a b. pr_start a \<le> pr_start b) (sort_ranges rs)" (is ?s)
proof -
  note * = sort_outer [OF order_refl, OF sort_ranges_def]
  show ?m using * by simp
  show ?s using * by (simp add: sorted_wrt_iff_nth_less)
qed

subsection \<open>Merging\<close>

definition merge_two :: "page_range_t \<Rightarrow> page_range_t \<Rightarrow> page_range_t" where
  "merge_two a b =
     (let end = pr_start a + pr_pages a * 4096; next_end = pr_start b + pr_pages b * 4096
      in if next_end > end then a\<lparr>pr_pages := (next_end - pr_start a) div 4096\<rparr> else a)"

fun merge_list :: "page_range_t list \<Rightarrow> page_range_t list" where
  "merge_list (a # b # rs) =
     (if pr_start a + pr_pages a * 4096 \<ge> pr_start b then merge_list (merge_two a b # rs)
      else a # merge_list (b # rs))"
| "merge_list rs = rs"

lemma drop_two: "i + 1 < length rs \<Longrightarrow> drop i rs = rs ! i # rs ! (i + 1) # drop (i + 2) rs"
  by (simp add: Cons_nth_drop_Suc)

lemma merge_ranges_list: "i \<le> length rs \<Longrightarrow> merge_ranges i rs = take i rs @ merge_list (drop i rs)"
proof (induction i rs rule: merge_ranges.induct)
  case (1 i rs)
  show ?case
  proof (cases "i + 1 < length rs")
    case False
    then have "length (drop i rs) \<le> 1" by simp
    then have "merge_list (drop i rs) = drop i rs"
      by (cases "drop i rs"; cases "tl (drop i rs)") auto
    then show ?thesis using False by (subst merge_ranges.simps) simp
  next
    case True
    let ?a = "rs ! i" and ?b = "rs ! (i + 1)"
    let ?aend = "pr_start ?a + pr_pages ?a * 4096" and ?bend = "pr_start ?b + pr_pages ?b * 4096"
    show ?thesis
    proof (cases "?aend \<ge> pr_start ?b")
      case end_ge: True
      define rs' where "rs' = (if ?bend > ?aend
        then rs[i := ?a\<lparr>pr_pages := (?bend - pr_start ?a) div 4096\<rparr>] else rs)"
      have "rs' = rs[i := merge_two ?a ?b]"
        by (simp add: rs'_def merge_two_def Let_def)
      moreover have "remove_range_index (i + 1) rs' = take (i + 1) rs' @ drop (i + 2) rs'"
        using True by (simp add: remove_range_index_def rs'_def)
      ultimately have r: "remove_range_index (i + 1) rs' = take i rs @ merge_two ?a ?b # drop (i + 2) rs"
        using True by (simp add: take_Suc_conv_app_nth)
      have "merge_ranges i rs = merge_ranges i (remove_range_index (i + 1) rs')"
        using True end_ge by (subst merge_ranges.simps) (simp add: rs'_def Let_def)
      also have "\<dots> = take i (remove_range_index (i + 1) rs') @
          merge_list (drop i (remove_range_index (i + 1) rs'))"
        using True end_ge by (intro 1(1) [OF _ HOL.refl HOL.refl HOL.refl _ HOL.refl]) (simp_all add: rs'_def remove_range_index_def)
      also have "\<dots> = take i rs @ merge_list (drop i rs)"
        unfolding r using True end_ge by (simp add: drop_two)
      finally show ?thesis .
    next
      case end_lt: False
      have "merge_ranges i rs = merge_ranges (i + 1) rs"
        using True end_lt by (subst merge_ranges.simps) simp
      also have "\<dots> = take (i + 1) rs @ merge_list (drop (i + 1) rs)"
        using True end_lt by (intro 1(2) [OF _ HOL.refl HOL.refl HOL.refl]) simp_all
      also have "\<dots> = take i rs @ merge_list (drop i rs)"
      proof -
        have "drop (i + 1) rs = rs ! (i + 1) # drop (i + 2) rs" using True by (simp add: Cons_nth_drop_Suc)
        moreover have "take (i + 1) rs = take i rs @ [rs ! i]" using True by (simp add: take_Suc_conv_app_nth)
        ultimately show ?thesis unfolding drop_two [OF True] using end_lt by simp
      qed
      finally show ?thesis .
    qed
  qed
qed

lemma merge_two_ok:
  assumes "range_ok a" and "range_ok b" and "pr_start a \<le> pr_start b"
    and "pr_start a + pr_pages a * 4096 \<ge> pr_start b"
  shows "range_ok (merge_two a b)" and "pr_start (merge_two a b) = pr_start a"
    and "rng (merge_two a b) = rng a \<union> rng b"
proof -
  have sb: "unat (pr_start a) \<le> unat (pr_start b)" "unat (pr_start b) \<le> rend a"
    using assms(3,4) range_ok_end [OF assms(1)] by (simp_all add: word_le_nat_alt)
  have "rend (merge_two a b) = max (rend a) (rend b) \<and> pr_start (merge_two a b) = pr_start a"
  proof (cases "rend b > rend a")
    case False
    then show ?thesis using assms by (simp add: merge_two_def Let_def word_less_nat_alt range_ok_end)
  next
    case True
    have le: "unat (pr_start a) \<le> rend b" using sb True by simp
    have "4096 dvd rend b - unat (pr_start a)"
      using rend_dvd [OF assms(2)] assms(1) by (simp add: range_ok_def dvd_diff_nat)
    moreover have "unat ((pr_start b + pr_pages b * 4096 - pr_start a) div 4096) =
        (rend b - unat (pr_start a)) div 4096"
      using le assms(2) by (simp add: unat_div_4096 unat_sub_u64 range_ok_end)
    ultimately show ?thesis
      using True le assms
      by (simp add: merge_two_def Let_def word_less_nat_alt range_ok_end rend_def [of "a\<lparr>pr_pages := _\<rparr>"])
  qed
  then have e: "rend (merge_two a b) = max (rend a) (rend b)" and s: "pr_start (merge_two a b) = pr_start a"
    by auto
  show "pr_start (merge_two a b) = pr_start a" by (rule s)
  show "rng (merge_two a b) = rng a \<union> rng b"
    using sb range_ok_less [OF assms(2)] by (auto simp: rng_def e s)
  have "unat (pr_start a) < rend (merge_two a b)" using range_ok_less [OF assms(1)] by (simp add: e)
  then have "0 < unat (pr_pages (merge_two a b))" by (simp add: rend_def s)
  then show "range_ok (merge_two a b)"
    using assms(1,2) e s by (simp add: range_ok_def)
qed

lemma merge_list_canonical:
  assumes "\<forall>r \<in> set rs. range_ok r" and "sorted_wrt (\<lambda>a b. pr_start a \<le> pr_start b) rs"
  shows "canonical (merge_list rs) \<and> covers (merge_list rs) = covers rs \<and>
    (\<forall>r \<in> set (merge_list rs). \<exists>q \<in> set rs. pr_start r = pr_start q) \<and>
    length (merge_list rs) \<le> length rs"
  using assms
proof (induction rs rule: merge_list.induct)
  case (1 a b rs)
  show ?case
  proof (cases "pr_start a + pr_pages a * 4096 \<ge> pr_start b")
    case True
    note m = merge_two_ok [OF _ _ _ True]
    have "canonical (merge_list (merge_two a b # rs)) \<and>
        covers (merge_list (merge_two a b # rs)) = covers (merge_two a b # rs) \<and>
        (\<forall>r \<in> set (merge_list (merge_two a b # rs)). \<exists>q \<in> set (merge_two a b # rs). pr_start r = pr_start q) \<and>
        length (merge_list (merge_two a b # rs)) \<le> length (merge_two a b # rs)"
      using 1(3,4) m by (intro 1(1) [OF True]) auto
    then show ?thesis using True 1(3,4) m by auto
  next
    case False
    have ih: "canonical (merge_list (b # rs))" "covers (merge_list (b # rs)) = covers (b # rs)"
      "\<forall>r \<in> set (merge_list (b # rs)). \<exists>q \<in> set (b # rs). pr_start r = pr_start q"
      "length (merge_list (b # rs)) \<le> length (b # rs)"
      using 1(2) [OF False] 1(3,4) by auto
    have "rend a < unat (pr_start b)"
      using False range_ok_end [of a] 1(3) by (simp add: word_le_nat_alt)
    moreover have "\<forall>q \<in> set (b # rs). unat (pr_start b) \<le> unat (pr_start q)"
      using 1(4) by (auto simp: word_le_nat_alt)
    ultimately have "\<forall>r \<in> set (merge_list (b # rs)). rend a < unat (pr_start r)"
      using ih(3) by fastforce
    then show ?thesis using False ih 1(3) by (auto simp: canonical_def)
  qed
qed (auto simp: canonical_def)

lemma coalesce_ranges_ok:
  assumes "\<forall>r \<in> set rs. range_ok r"
  shows "canonical (coalesce_ranges rs)" and "covers (coalesce_ranges rs) = covers rs"
    and "length (coalesce_ranges rs) \<le> length rs"
proof -
  have m: "mset (sort_ranges rs) = mset rs" by (rule sort_ranges_sorted)
  then have "\<forall>r \<in> set (sort_ranges rs). range_ok r" "length (sort_ranges rs) = length rs"
    using assms by (auto dest: mset_eq_setD mset_eq_length)
  then show "canonical (coalesce_ranges rs)" "covers (coalesce_ranges rs) = covers rs"
    "length (coalesce_ranges rs) \<le> length rs"
    using merge_list_canonical [OF _ sort_ranges_sorted(2), of rs] covers_mset [OF m]
    by (simp_all add: coalesce_ranges_def merge_ranges_list)
qed

end
