(* ===== verification/Page_Source.thy ===== *)
theory Page_Source
  imports Phys_Mem
begin

text \<open>
  The contract of a page allocator as its clients use it: a set of available addresses, an
  allocation that takes a block of whole pages out of it, and a release that gives a block back
  when there is room to record it. Clients own a list of blocks; the lemmas of the locale show
  that owned blocks never overlap each other or the available memory, whatever is allocated and
  released, and that no memory is lost as long as there is room.
\<close>

abbreviation block :: "u64 \<times> u32 \<Rightarrow> nat set" where
  "block b \<equiv> region (fst b) (unat (snd b) * 4096)"

definition block_ok :: "u64 \<times> u32 \<Rightarrow> bool" where
  "block_ok b \<longleftrightarrow> fst b \<noteq> 0 \<and> snd b \<noteq> 0 \<and> 4096 dvd unat (fst b) \<and> in_space (fst b) (unat (snd b) * 4096)"

lemma block_nonempty: "block_ok b \<Longrightarrow> unat (fst b) \<in> block b"
  by (simp add: block_ok_def region_def unat_gt_0)

locale page_source =
  fixes ok :: "'s \<Rightarrow> bool"
    and avail :: "'s \<Rightarrow> nat set"
    and room :: "'s \<Rightarrow> bool"
    and alloc :: "u32 \<Rightarrow> 's \<Rightarrow> u64 \<times> 's"
    and release :: "u64 \<Rightarrow> u32 \<Rightarrow> 's \<Rightarrow> 's"
  assumes alloc_some:
      "ok s \<Longrightarrow> n \<noteq> 0 \<Longrightarrow> alloc n s = (a, s') \<Longrightarrow> a \<noteq> 0 \<Longrightarrow>
         ok s' \<and> block_ok (a, n) \<and> block (a, n) \<subseteq> avail s \<and> avail s' = avail s - block (a, n)"
    and alloc_none: "ok s \<Longrightarrow> n \<noteq> 0 \<Longrightarrow> alloc n s = (0, s') \<Longrightarrow> ok s' \<and> avail s' = avail s"
    and release_room:
      "ok s \<Longrightarrow> block_ok (a, n) \<Longrightarrow> block (a, n) \<inter> avail s = {} \<Longrightarrow> room s \<Longrightarrow>
         ok (release a n s) \<and> avail (release a n s) = avail s \<union> block (a, n)"
    and release_full: "ok s \<Longrightarrow> \<not> room s \<Longrightarrow> ok (release a n s) \<and> avail (release a n s) = avail s"
begin

definition owns :: "(u64 \<times> u32) list \<Rightarrow> 's \<Rightarrow> bool" where
  "owns bs s \<longleftrightarrow> ok s \<and> (\<forall>b \<in> set bs. block_ok b \<and> block b \<inter> avail s = {}) \<and>
     sorted_wrt (\<lambda>b c. block b \<inter> block c = {}) bs"

definition pool :: "(u64 \<times> u32) list \<Rightarrow> 's \<Rightarrow> nat set" where
  "pool bs s = avail s \<union> (\<Union>b \<in> set bs. block b)"

lemma owns_Nil: "ok s \<Longrightarrow> owns [] s"
  by (simp add: owns_def)

lemma owns_alloc:
  assumes "owns bs s" and "n \<noteq> 0" and "alloc n s = (a, s')" and "a \<noteq> 0"
  shows "owns ((a, n) # bs) s'" and "pool ((a, n) # bs) s' = pool bs s"
proof -
  have s: "ok s" using assms(1) by (simp add: owns_def)
  note new = alloc_some [OF s assms(2-4)]
  show "owns ((a, n) # bs) s'" using assms(1) new by (auto simp: owns_def)
  show "pool ((a, n) # bs) s' = pool bs s" using new by (auto simp: pool_def)
qed

lemma owns_alloc_none:
  assumes "owns bs s" and "n \<noteq> 0" and "alloc n s = (0, s')"
  shows "owns bs s'" and "pool bs s' = pool bs s"
  using assms alloc_none [of s n s'] by (auto simp: owns_def pool_def)

lemma sorted_wrt_remove1: "sorted_wrt P bs \<Longrightarrow> sorted_wrt P (remove1 b bs)"
  by (induction bs) (auto dest: notin_set_remove1)

lemma owns_apart:
  assumes "owns bs s" and "b \<in> set bs" and "c \<in> set (remove1 b bs)"
  shows "block b \<inter> block c = {}"
proof -
  obtain xs ys where bs: "bs = xs @ b # ys" "b \<notin> set xs" using assms(2) by (auto dest: split_list_first)
  have "c \<in> set xs \<union> set ys" using assms(3) bs by (simp add: remove1_append)
  then show ?thesis using assms(1) by (auto simp: owns_def bs sorted_wrt_append)
qed

lemma owns_release:
  assumes "owns bs s" and "(a, n) \<in> set bs"
  shows "owns (remove1 (a, n) bs) (release a n s)"
    and "room s \<Longrightarrow> pool (remove1 (a, n) bs) (release a n s) = pool bs s"
proof -
  have s: "ok s" "block_ok (a, n)" "block (a, n) \<inter> avail s = {}"
    using assms bspec [of "set bs" "\<lambda>b. block_ok b \<and> block b \<inter> avail s = {}" "(a, n)"] by (simp_all add: owns_def)
  have sub: "set (remove1 (a, n) bs) \<subseteq> set bs" by (rule set_remove1_subset)
  note apart = owns_apart [OF assms]
  show "owns (remove1 (a, n) bs) (release a n s)"
  proof (cases "room s")
    case True
    note r = release_room [OF s True]
    have "block b \<inter> avail (release a n s) = {}" if b: "b \<in> set (remove1 (a, n) bs)" for b
      using apart [OF b] assms(1) sub b r by (auto simp: owns_def)
    then show ?thesis using assms(1) sub r by (auto simp: owns_def intro: sorted_wrt_remove1)
  next
    case False
    then show ?thesis
      using assms(1) sub release_full [OF s(1) False] by (auto simp: owns_def intro: sorted_wrt_remove1)
  qed
  show "pool (remove1 (a, n) bs) (release a n s) = pool bs s" if "room s"
  proof -
    have "x \<in> set bs \<longleftrightarrow> x \<in> insert (a, n) (set (remove1 (a, n) bs))" for x
      using assms(2) by (cases "x = (a, n)") simp_all
    then have "set bs = insert (a, n) (set (remove1 (a, n) bs))" by blast
    then show ?thesis using release_room [OF s that] by (auto simp: pool_def)
  qed
qed

text \<open>A block that is released while there is no room stays out of reach: it is neither available nor given out again.\<close>

lemma owns_lost:
  assumes "owns (bs @ lost) s" and "(a, n) \<in> set bs" and "\<not> room s"
  shows "owns (remove1 (a, n) bs @ (a, n) # lost) (release a n s)"
    and "pool (remove1 (a, n) bs @ (a, n) # lost) (release a n s) = pool (bs @ lost) s"
proof -
  obtain xs ys where bs: "bs = xs @ (a, n) # ys" "(a, n) \<notin> set xs" using assms(2) by (auto dest: split_list_first)
  have r: "remove1 (a, n) bs = xs @ ys" using bs by (simp add: remove1_append)
  have "ok s" using assms(1) by (simp add: owns_def)
  note full = release_full [OF this assms(3), of a n]
  show "owns (remove1 (a, n) bs @ (a, n) # lost) (release a n s)"
    using assms(1) full unfolding r by (auto simp: owns_def bs(1) sorted_wrt_append)
  show "pool (remove1 (a, n) bs @ (a, n) # lost) (release a n s) = pool (bs @ lost) s"
    using full unfolding r by (auto simp: pool_def bs(1))
qed

lemma alloc_release:
  assumes "ok s" and "n \<noteq> 0" and "alloc n s = (a, s')" and "a \<noteq> 0" and "room s'"
  shows "ok (release a n s')" and "avail (release a n s') = avail s"
proof -
  note new = alloc_some [OF assms(1-4)]
  then have "block (a, n) \<inter> avail s' = {}" by auto
  then show "ok (release a n s')" "avail (release a n s') = avail s"
    using release_room [of s' a n] new assms(5) by auto
qed

end

end
