(* ===== verification/Kmem_Inv.thy ===== *)
theory Kmem_Inv
  imports Kmem_Ranges Page_Source
begin

text \<open>
  The page allocator as a set of free addresses: \<open>free_set\<close>. An allocation takes its pages out of
  the set and zeroes them, a free puts them back; the table stays canonical and the counter of
  free pages is the size of the set.
\<close>

definition free_set :: "kmem \<Rightarrow> nat set" where
  "free_set k = covers (free_ranges k)"

definition kmem_ok :: "kmem \<Rightarrow> bool" where
  "kmem_ok k \<longleftrightarrow> canonical (free_ranges k) \<and> length (free_ranges k) \<le> 128 \<and>
     unat (free_page_count k) = pages_of (free_ranges k)"

subsection \<open>Canonical tables\<close>

lemma canonical_Nil [simp]: "canonical []"
  by (simp add: canonical_def)

lemma canonical_Cons:
  "canonical (r # rs) \<longleftrightarrow> range_ok r \<and> canonical rs \<and> (\<forall>q \<in> set rs. rend r < unat (pr_start q))"
  by (auto simp: canonical_def)

lemma canonical_append:
  "canonical (xs @ ys) \<longleftrightarrow>
     canonical xs \<and> canonical ys \<and> (\<forall>a \<in> set xs. \<forall>b \<in> set ys. rend a < unat (pr_start b))"
  by (auto simp: canonical_def sorted_wrt_append)

lemma canonical_apart: "canonical rs \<Longrightarrow> apart rs"
  unfolding canonical_def apart_def
  by (elim conjE, erule sorted_wrt_mono_rel [rotated]) (auto simp: rng_def)

lemma canonical_above: "canonical (r # rs) \<Longrightarrow> x \<in> covers rs \<Longrightarrow> rend r < x"
  by (auto simp: canonical_Cons covers_def rng_def)

lemma canonical_first: "canonical (r # rs) \<Longrightarrow> x \<in> covers (r # rs) \<Longrightarrow> unat (pr_start r) \<le> x"
  using canonical_above [of r rs x] by (auto simp: rng_def rend_def)

lemma canonical_gap: "canonical (r # rs) \<Longrightarrow> rend r \<notin> covers (r # rs)"
  using canonical_above [of r rs "rend r"] by (auto simp: rng_def)

lemma start_in_covers: "canonical (r # rs) \<Longrightarrow> unat (pr_start r) \<in> covers (r # rs)"
  using range_ok_less [of r] by (simp add: canonical_Cons rng_def)

lemma canonical_head_le:
  assumes "canonical (r # rs)" and "canonical (q # qs)" and "covers (r # rs) = covers (q # qs)"
  shows "unat (pr_start r) \<le> unat (pr_start q)" and "rend q \<le> rend r"
proof -
  show le: "unat (pr_start r) \<le> unat (pr_start q)"
    using canonical_first [OF assms(1)] start_in_covers [OF assms(2)] unfolding assms(3) by blast
  have "unat (pr_start q) \<le> unat (pr_start r)"
    using canonical_first [OF assms(2)] start_in_covers [OF assms(1)] unfolding assms(3) by blast
  then show "rend q \<le> rend r"
    using canonical_gap [OF assms(1)] range_ok_less [of r] assms(1,3)
    by (cases "rend q \<le> rend r") (auto simp: rng_def canonical_Cons)
qed

lemma page_range_eqI: "unat (pr_start r) = unat (pr_start q) \<Longrightarrow> rend r = rend q \<Longrightarrow> r = (q :: page_range_t)"
  by (simp add: rend_def page_range_t.equality word_unat_eq_iff)

lemma canonical_unique:
  assumes "canonical rs" and "canonical qs" and "covers rs = covers qs"
  shows "rs = qs"
  using assms
proof (induction rs arbitrary: qs)
  case Nil
  then show ?case using start_in_covers by (cases qs) auto
next
  case (Cons r rs)
  then obtain q qs' where qs: "qs = q # qs'" using start_in_covers [of r rs] by (cases qs) auto
  have "r = q"
    using canonical_head_le [of r rs q qs'] canonical_head_le [of q qs' r rs] Cons.prems
    by (intro page_range_eqI) (simp_all add: qs)
  have "rng r \<inter> covers rs = {}" if "canonical (r # rs)" for r rs
    using canonical_apart [OF that] by (auto simp: apart_def covers_def)
  then have "covers rs = covers qs'"
    using Cons.prems \<open>r = q\<close> unfolding qs covers_simps by blast
  then show ?case using Cons \<open>r = q\<close> by (simp add: qs canonical_Cons)
qed

lemma card_free_set: "kmem_ok k \<Longrightarrow> card (free_set k) = unat (free_page_count k) * 4096"
  by (simp add: kmem_ok_def free_set_def card_covers canonical_apart)

subsection \<open>Allocation\<close>

lemma page_alloc_scan_Some:
  "page_alloc_scan j n rs = Some i \<Longrightarrow>
     \<exists>xs r ys. rs = xs @ r # ys \<and> i = j + length xs \<and> n \<le> pr_pages r \<and> (\<forall>q \<in> set xs. pr_pages q < n)"
proof (induction rs arbitrary: j)
  case (Cons q rs)
  show ?case
  proof (cases "pr_pages q < n")
    case True
    then obtain xs r ys where "rs = xs @ r # ys" "i = Suc j + length xs" "n \<le> pr_pages r"
      "\<forall>q \<in> set xs. pr_pages q < n"
      using Cons by fastforce
    then show ?thesis using True by (intro exI [of _ "q # xs"] exI [of _ r] exI [of _ ys]) simp
  next
    case False
    then show ?thesis using Cons.prems by (intro exI [of _ "[]"]) simp
  qed
qed simp

lemma page_alloc_scan_None: "page_alloc_scan j n rs = None \<longleftrightarrow> (\<forall>r \<in> set rs. pr_pages r < n)"
  by (induction rs arbitrary: j) (auto simp: not_less [symmetric])

definition cut_range :: "u64 \<Rightarrow> page_range_t \<Rightarrow> page_range_t list" where
  "cut_range n r =
     (if pr_pages r = n then [] else [\<lparr>pr_start = pr_start r + n * 4096, pr_pages = pr_pages r - n\<rparr>])"

lemma cut_range_ok:
  assumes "range_ok r" and "n \<le> pr_pages r" and "n \<noteq> 0"
  shows "\<forall>q \<in> set (cut_range n r). range_ok q \<and> unat (pr_start r) \<le> unat (pr_start q) \<and> rend q = rend r"
    and "covers (cut_range n r) = rng r - region (pr_start r) (unat n * 4096)"
    and "region (pr_start r) (unat n * 4096) \<subseteq> rng r"
    and "pages_of (cut_range n r) = unat (pr_pages r) - unat n"
proof -
  have n: "unat n \<le> unat (pr_pages r)" using assms(2) by (simp add: word_le_nat_alt)
  have b: "unat (pr_start r) + unat (pr_pages r) * 4096 < 2 ^ 64"
    using assms(1) by (simp add: range_ok_def rend_def)
  then have u: "unat (pr_start r + n * 4096) = unat (pr_start r) + unat n * 4096"
    "unat (pr_pages r - n) = unat (pr_pages r) - unat n"
    using n by (simp_all add: unat_mult_4096 unat_add_u64 unat_sub_u64)
  show "region (pr_start r) (unat n * 4096) \<subseteq> rng r"
    using n by (auto simp: region_def rng_def rend_def)
  have eq: "pr_pages r = n \<longleftrightarrow> unat (pr_pages r) = unat n" by (simp add: word_unat_eq_iff)
  have rend: "unat (pr_start r + n * 4096) + unat (pr_pages r - n) * 4096 = rend r"
    using n unfolding u rend_def by (simp add: diff_mult_distrib)
  show "\<forall>q \<in> set (cut_range n r). range_ok q \<and> unat (pr_start r) \<le> unat (pr_start q) \<and> rend q = rend r"
    using assms(1) n b rend by (auto simp: cut_range_def range_ok_def rend_def u eq)
  show "covers (cut_range n r) = rng r - region (pr_start r) (unat n * 4096)"
    using n rend by (auto simp: cut_range_def rng_def region_def u eq rend_def [of r] rend_def [of "\<lparr>pr_start = _, pr_pages = _\<rparr>"])
  show "pages_of (cut_range n r) = unat (pr_pages r) - unat n"
    by (auto simp: cut_range_def u)
qed

lemma page_alloc_cases:
  assumes "page_count \<noteq> 0" and "kmem_ok k" and "page_alloc page_count k = (addr, k')"
  obtains (none) "addr = 0" "k' = k\<lparr>allocation_failures := allocation_failures k + 1\<rparr>"
      "\<forall>r \<in> set (free_ranges k). unat (pr_pages r) < unat page_count"
  | (some) xs r ys where "free_ranges k = xs @ r # ys" "ucast page_count \<le> pr_pages r" "addr = pr_start r"
      "range_ok r" "\<forall>q \<in> set xs. pr_pages q < ucast page_count"
      "k' = k\<lparr>free_ranges := xs @ cut_range (ucast page_count) r @ ys,
              free_page_count := free_page_count k - ucast page_count,
              memory := zero_memory addr (unat page_count * 4096) (memory k)\<rparr>"
proof (cases "page_alloc_scan 0 (ucast page_count) (free_ranges k)")
  case None
  then have "\<forall>r \<in> set (free_ranges k). pr_pages r < ucast page_count"
    unfolding page_alloc_scan_None .
  then show ?thesis using none assms(1,3) None by (simp add: page_alloc_def word_less_nat_alt)
next
  case (Some i)
  then obtain xs r ys where s: "free_ranges k = xs @ r # ys" "i = length xs" "ucast page_count \<le> pr_pages r"
    "\<forall>q \<in> set xs. pr_pages q < ucast page_count"
    using page_alloc_scan_Some [OF Some] by auto
  have r: "range_ok r" using assms(2) s(1) by (simp add: kmem_ok_def canonical_def)
  then have "pr_start r \<noteq> 0" by (auto simp: range_ok_def)
  moreover have "unat (ucast page_count * 4096 :: u64) = unat page_count * 4096"
    using unat_u32_bound [of page_count] by (simp add: unat_mult_4096)
  ultimately show ?thesis
    using some [OF s(1,3) _ r s(4)] assms(1,3) Some s(1,2)
    by (auto simp: page_alloc_def Let_def cut_range_def remove_range_index_def)
qed

lemma zero_memory_apply:
  "in_space p n \<Longrightarrow> zero_memory p n m x = (if unat x \<in> region p n then 0 else m x)"
  by (auto simp: zero_memory_def store_bytes_apply in_space_def region_def)

lemma rng_in_covers: "r \<in> set rs \<Longrightarrow> rng r \<subseteq> covers rs"
  by (auto simp: covers_def)

lemma canonical_disjoint_rest:
  assumes "canonical (xs @ r # ys)"
  shows "rng r \<inter> (covers xs \<union> covers ys) = {}"
  using canonical_apart [OF assms] by (auto simp: apart_def sorted_wrt_append covers_def)

lemma page_alloc_ok:
  assumes "kmem_ok k" and "page_count \<noteq> 0" and "page_alloc page_count k = (addr, k')" and "addr \<noteq> 0"
  shows "kmem_ok k'" and "region addr (unat page_count * 4096) \<subseteq> free_set k"
    and "free_set k' = free_set k - region addr (unat page_count * 4096)"
    and "4096 dvd unat addr" and "in_space addr (unat page_count * 4096)"
    and "memory k' = zero_memory addr (unat page_count * 4096) (memory k)"
proof -
  have "kmem_ok k' \<and> region addr (unat page_count * 4096) \<subseteq> free_set k \<and>
      free_set k' = free_set k - region addr (unat page_count * 4096) \<and> 4096 dvd unat addr \<and>
      in_space addr (unat page_count * 4096) \<and>
      memory k' = zero_memory addr (unat page_count * 4096) (memory k)" (is ?thesis)
    using assms(2,1,3)
  proof (cases rule: page_alloc_cases)
    case none
    then show ?thesis
      using assms(4) by simp
  next
    case (some xs r ys)
    let ?n = "ucast page_count :: u64"
    have "?n \<noteq> 0" using assms(2) by (metis unat_ucast_32_64 unat_eq_0)
    note cut = cut_range_ok [OF some(4,2) this, unfolded unat_ucast_32_64]
    have can: "canonical (xs @ r # ys)" using assms(1) some(1) by (simp add: kmem_ok_def)
    have d: "rng r \<inter> (covers xs \<union> covers ys) = {}" by (rule canonical_disjoint_rest [OF can])
    have "\<forall>q \<in> set (cut_range ?n r). \<forall>b \<in> set ys. rend q < unat (pr_start b)"
      using cut(1) can by (auto simp: canonical_append canonical_Cons)
    moreover have "\<forall>a \<in> set xs. \<forall>q \<in> set (cut_range ?n r). rend a < unat (pr_start q)"
      using cut(1) can by (force simp: canonical_append canonical_Cons)
    moreover have "canonical (cut_range ?n r)"
      using cut(1) by (auto simp: canonical_def cut_range_def)
    ultimately have can': "canonical (xs @ cut_range ?n r @ ys)"
      using can by (auto simp: canonical_append canonical_Cons)
    have len: "length (xs @ cut_range ?n r @ ys) \<le> length (free_ranges k)"
      by (simp add: some(1) cut_range_def)
    have np: "unat page_count \<le> unat (pr_pages r)" using some(2) by (simp add: word_le_nat_alt)
    have cnt: "unat (free_page_count k) = pages_of (xs @ r # ys)"
      using assms(1) some(1) by (simp add: kmem_ok_def)
    have "unat (free_page_count k - ?n) = pages_of (xs @ cut_range ?n r @ ys)"
      using cnt np cut(4) by (subst unat_sub_u64) simp_all
    then have "kmem_ok k'" using can' len assms(1) some(6) by (simp add: kmem_ok_def)
    moreover have "region addr (unat page_count * 4096) \<subseteq> free_set k"
      using cut(3) some(1,3) by (auto simp: free_set_def)
    moreover have "free_set k' = free_set k - region addr (unat page_count * 4096)"
      using cut(2,3) d some(1,3,6) by (auto simp: free_set_def)
    moreover have "4096 dvd unat addr" "in_space addr (unat page_count * 4096)"
      using some(3,4) np by (auto simp: range_ok_def rend_def in_space_def)
    ultimately show ?thesis
      using some(6) by simp
  qed
  then show "kmem_ok k'" "region addr (unat page_count * 4096) \<subseteq> free_set k"
    "free_set k' = free_set k - region addr (unat page_count * 4096)"
    "4096 dvd unat addr" "in_space addr (unat page_count * 4096)"
    "memory k' = zero_memory addr (unat page_count * 4096) (memory k)"
    by auto
qed

lemma canonical_gap_all:
  assumes "canonical rs" and "r \<in> set rs"
  shows "rend r \<notin> covers rs"
proof -
  obtain xs ys where rs: "rs = xs @ r # ys" using assms(2) by (auto dest: split_list)
  have "canonical (r # ys)" "\<forall>a \<in> set xs. rend a < unat (pr_start r)" "range_ok r"
    using assms(1) by (auto simp: rs canonical_append canonical_Cons)
  then show ?thesis
    using canonical_gap [of r ys] range_ok_less [of r] by (fastforce simp: rs covers_def rng_def)
qed

text \<open>A run of free addresses lies in one range, so a failed allocation means there is none.\<close>

lemma canonical_run:
  assumes "canonical rs" and "region a n \<subseteq> covers rs" and "0 < n"
  obtains r where "r \<in> set rs" and "region a n \<subseteq> rng r"
proof -
  have "unat a \<in> covers rs" using assms(2,3) by (auto simp: region_def)
  then obtain r where r: "r \<in> set rs" "unat a \<in> rng r" by (auto simp: covers_def)
  have "unat a + n \<le> rend r"
  proof (rule ccontr)
    assume "\<not> unat a + n \<le> rend r"
    then have "rend r \<in> region a n" using r(2) by (simp add: region_def rng_def)
    then show False using canonical_gap_all [OF assms(1) r(1)] assms(2) by auto
  qed
  then show ?thesis using r by (intro that [OF r(1)]) (auto simp: region_def rng_def)
qed

lemma page_alloc_none:
  assumes "kmem_ok k" and "page_count \<noteq> 0" and "page_alloc page_count k = (0, k')"
  shows "k' = k\<lparr>allocation_failures := allocation_failures k + 1\<rparr>"
    and "\<not> region a (unat page_count * 4096) \<subseteq> free_set k"
proof -
  have *: "k' = k\<lparr>allocation_failures := allocation_failures k + 1\<rparr> \<and>
      (\<forall>r \<in> set (free_ranges k). unat (pr_pages r) < unat page_count)"
    using assms(2,1,3)
  proof (cases rule: page_alloc_cases)
    case (some xs r ys)
    then show ?thesis by (simp add: range_ok_def)
  qed simp
  then show "k' = k\<lparr>allocation_failures := allocation_failures k + 1\<rparr>" by simp
  show "\<not> region a (unat page_count * 4096) \<subseteq> free_set k"
  proof
    assume "region a (unat page_count * 4096) \<subseteq> free_set k"
    moreover have "0 < unat page_count * 4096" using assms(2) by (simp add: unat_gt_0)
    moreover have "canonical (free_ranges k)" using assms(1) by (simp add: kmem_ok_def)
    ultimately obtain r where r: "r \<in> set (free_ranges k)" "region a (unat page_count * 4096) \<subseteq> rng r"
      unfolding free_set_def by (elim canonical_run)
    then have "card (region a (unat page_count * 4096)) \<le> card (rng r)" by (intro card_mono) simp_all
    then have "unat page_count \<le> unat (pr_pages r)" by (simp add: card_rng region_def)
    then show False using * r(1) by auto
  qed
qed

subsection \<open>Free\<close>

lemma canonical_bound: "canonical rs \<Longrightarrow> covers rs \<subseteq> {0..<2 ^ 64}"
  by (force simp: canonical_def covers_def rng_def range_ok_def)

lemma aligned_mask: "addr AND 4095 = (0 :: u64) \<longleftrightarrow> 4096 dvd unat addr"
proof -
  have "(4095 :: u64) = mask 12" by (simp add: mask_eq_exp_minus_1)
  then have "addr AND 4095 = take_bit 12 addr" by (simp add: take_bit_eq_mask)
  moreover have "unat (take_bit 12 addr) = unat addr mod 4096"
    by (simp add: unsigned_take_bit_eq) (simp add: take_bit_eq_mod)
  ultimately show ?thesis by (simp add: word_unat_eq_iff dvd_eq_mod_eq_0)
qed

lemma page_free_ok:
  assumes "kmem_ok k" and "page_count \<noteq> 0" and "addr \<noteq> 0" and "4096 dvd unat addr"
    and "in_space addr (unat page_count * 4096)"
    and "region addr (unat page_count * 4096) \<inter> free_set k = {}"
    and "length (free_ranges k) < 128"
  shows "kmem_ok (page_free addr page_count k)"
    and "free_set (page_free addr page_count k) = free_set k \<union> region addr (unat page_count * 4096)"
    and "memory (page_free addr page_count k) = memory k"
proof -
  define r where "r = \<lparr>pr_start = addr, pr_pages = ucast page_count\<rparr>"
  define rs where "rs = coalesce_ranges (free_ranges k @ [r])"
  have r: "rng r = region addr (unat page_count * 4096)" by (simp add: r_def rng_def rend_def region_def)
  have "range_ok r"
    using assms(2-5) by (simp add: range_ok_def r_def rend_def in_space_def unat_gt_0)
  then have ok: "\<forall>q \<in> set (free_ranges k @ [r]). range_ok q"
    using assms(1) by (simp add: kmem_ok_def canonical_def)
  have rs: "canonical rs" "covers rs = covers (free_ranges k @ [r])" "length rs \<le> Suc (length (free_ranges k))"
    using coalesce_ranges_ok [OF ok] by (simp_all add: rs_def)
  have p: "page_free addr page_count k =
      k\<lparr>free_ranges := rs, free_page_count := free_page_count k + ucast page_count\<rparr>"
    using assms by (simp add: page_free_def aligned_mask rs_def r_def)
  have cov: "covers rs = free_set k \<union> region addr (unat page_count * 4096)"
    by (simp add: rs(2) free_set_def r)
  then have "card (covers rs) = card (free_set k) + unat page_count * 4096"
    using assms(6) by (subst cov, subst card_Un_disjoint) (auto simp: free_set_def region_def)
  then have pg: "pages_of rs = unat (free_page_count k) + unat page_count"
    using card_covers [OF canonical_apart [OF rs(1)]] card_free_set [OF assms(1)] by simp
  have "card (covers rs) \<le> card {0..<(2 :: nat) ^ 64}" by (intro card_mono canonical_bound rs(1)) simp
  then have "pages_of rs < 2 ^ 64" using card_covers [OF canonical_apart [OF rs(1)]] by simp
  then have "unat (free_page_count k + ucast page_count) = pages_of rs"
    using pg by (subst unat_add_u64) simp_all
  then show "kmem_ok (page_free addr page_count k)"
    using rs assms(7) by (simp add: p kmem_ok_def)
  show "free_set (page_free addr page_count k) = free_set k \<union> region addr (unat page_count * 4096)"
    using cov by (simp add: p free_set_def)
  show "memory (page_free addr page_count k) = memory k" by (simp add: p)
qed

lemma page_free_full: "128 \<le> length (free_ranges k) \<Longrightarrow> page_free addr page_count k = k"
  by (simp add: page_free_def)

subsection \<open>The allocator provides pages\<close>

interpretation kmem_pages: page_source kmem_ok free_set "\<lambda>k. length (free_ranges k) < 128"
  page_alloc page_free
proof unfold_locales
  fix k k' :: kmem and n a
  assume a: "kmem_ok k" "n \<noteq> 0" "page_alloc n k = (a, k')" "a \<noteq> 0"
  show "kmem_ok k' \<and> block_ok (a, n) \<and> block (a, n) \<subseteq> free_set k \<and>
      free_set k' = free_set k - block (a, n)"
    using page_alloc_ok [OF a] a(2,4) by (simp add: block_ok_def)
next
  fix k k' :: kmem and n
  assume "kmem_ok k" "n \<noteq> 0" "page_alloc n k = (0, k')"
  from page_alloc_none(1) [OF this] this(1) show "kmem_ok k' \<and> free_set k' = free_set k"
    by (simp add: kmem_ok_def free_set_def)
next
  fix k :: kmem and a n
  assume "kmem_ok k" "block_ok (a, n)" "block (a, n) \<inter> free_set k = {}" "length (free_ranges k) < 128"
  then show "kmem_ok (page_free a n k) \<and> free_set (page_free a n k) = free_set k \<union> block (a, n)"
    using page_free_ok [of k n a] by (simp add: block_ok_def)
next
  fix k :: kmem and a n
  assume "kmem_ok k" "\<not> length (free_ranges k) < 128"
  then show "kmem_ok (page_free a n k) \<and> free_set (page_free a n k) = free_set k"
    by (simp add: page_free_full)
qed

text \<open>
  Any sequence of page allocations and frees by callers that free what they own: the state, the
  blocks handed out and not yet freed, and the blocks that were freed while the table of ranges was
  full.
\<close>

inductive page_run :: "kmem \<Rightarrow> kmem \<Rightarrow> (u64 \<times> u32) list \<Rightarrow> (u64 \<times> u32) list \<Rightarrow> bool" for k0 where
  start: "page_run k0 k0 [] []"
| alloc: "page_run k0 k bs lost \<Longrightarrow> n \<noteq> 0 \<Longrightarrow> page_alloc n k = (a, k') \<Longrightarrow> a \<noteq> 0 \<Longrightarrow> page_run k0 k' ((a, n) # bs) lost"
| fail: "page_run k0 k bs lost \<Longrightarrow> n \<noteq> 0 \<Longrightarrow> page_alloc n k = (0, k') \<Longrightarrow> page_run k0 k' bs lost"
| free: "page_run k0 k bs lost \<Longrightarrow> (a, n) \<in> set bs \<Longrightarrow>
    page_run k0 (page_free a n k) (remove1 (a, n) bs) (if length (free_ranges k) < 128 then lost else (a, n) # lost)"

lemma page_run_owns:
  assumes "page_run k0 k bs lost" and "kmem_ok k0"
  shows "kmem_pages.owns (bs @ lost) k \<and> kmem_pages.pool (bs @ lost) k = free_set k0"
  using assms
proof (induction rule: page_run.induct)
  case start
  then show ?case by (simp add: kmem_pages.owns_Nil kmem_pages.pool_def)
next
  case (alloc k bs lost n a k')
  then show ?case using kmem_pages.owns_alloc [of "bs @ lost" k n a k'] by simp
next
  case (fail k bs lost n k')
  then show ?case using kmem_pages.owns_alloc_none [of "bs @ lost" k n k'] by simp
next
  case (free k bs lost a n)
  then show ?case
    using kmem_pages.owns_release [of "bs @ lost" k a n] kmem_pages.owns_lost [of bs lost k a n] by (simp add: remove1_append)
qed

end
