(* ===== verification/Kmem_Init.thy ===== *)
theory Kmem_Init
  imports Kmem_Inv
begin

text \<open>
  Building the table of free ranges at boot: \<open>reserve_range\<close> takes exactly the pages of an interval
  out of the free set, and \<open>kmem_init\<close> ends with a canonical table of the conventional memory
  that no reserved region touches.
\<close>

definition table_ok :: "kmem \<Rightarrow> bool" where
  "table_ok k \<longleftrightarrow> (\<forall>r \<in> set (free_ranges k). range_ok r) \<and> apart (free_ranges k) \<and>
     unat (free_page_count k) = pages_of (free_ranges k) \<and> total_page_count k = free_page_count k"

lemma apart_append:
  "apart (xs @ ys) \<longleftrightarrow> apart xs \<and> apart ys \<and> (\<forall>x \<in> set xs. \<forall>y \<in> set ys. rng x \<inter> rng y = {})"
  by (simp add: apart_def sorted_wrt_append)

lemma apart_Cons: "apart (r # rs) \<longleftrightarrow> (\<forall>q \<in> set rs. rng r \<inter> rng q = {}) \<and> apart rs"
  by (simp add: apart_def)

lemma apart_Nil [simp]: "apart []"
  by (simp add: apart_def)

subsection \<open>Cutting one range\<close>

text \<open>The pieces that are left of a range when the interval from \<open>S\<close> to \<open>E\<close> is taken out of it.\<close>

definition mk_range :: "nat \<Rightarrow> nat \<Rightarrow> page_range_t" where
  "mk_range a b = \<lparr>pr_start = word_of_nat a, pr_pages = word_of_nat ((b - a) div 4096)\<rparr>"

definition pieces :: "nat \<Rightarrow> nat \<Rightarrow> page_range_t \<Rightarrow> page_range_t list" where
  "pieces S E r =
     (if unat (pr_start r) < S then [mk_range (unat (pr_start r)) S] else []) @
     (if E < rend r then [mk_range E (rend r)] else [])"

lemma mk_range:
  assumes "0 < a" and "a < b" and "b < 2 ^ 64" and "4096 dvd a" and "4096 dvd b"
  shows "range_ok (mk_range a b)" and "rng (mk_range a b) = {a..<b}"
    and "unat (pr_pages (mk_range a b)) * 4096 = b - a"
proof -
  have d: "4096 dvd b - a" using assms by (simp add: dvd_diff_nat)
  have u: "unat (pr_start (mk_range a b)) = a" "unat (pr_pages (mk_range a b)) = (b - a) div 4096"
    using assms by (simp_all add: mk_range_def unat_of_nat_64)
  have e: "unat (pr_pages (mk_range a b)) * 4096 = b - a" using d u by simp
  then have r: "rend (mk_range a b) = b" using assms u by (simp add: rend_def)
  have "0 < unat (pr_pages (mk_range a b))" using e assms(2) by (cases "unat (pr_pages (mk_range a b))") simp_all
  then show "range_ok (mk_range a b)" using assms u r by (simp add: range_ok_def)
  show "rng (mk_range a b) = {a..<b}" using u r by (simp add: rng_def)
  show "unat (pr_pages (mk_range a b)) * 4096 = b - a" by (rule e)
qed

lemma mk_range_eqI:
  assumes "unat (pr_start r) = a" and "unat (pr_pages r) = (b - a) div 4096"
  shows "r = mk_range a b"
proof -
  have "pr_pages r = word_of_nat ((b - a) div 4096)" by (simp flip: assms(2))
  moreover have "pr_start r = word_of_nat a" by (simp flip: assms(1))
  ultimately show ?thesis by (simp add: mk_range_def page_range_t.equality)
qed

definition page_interval :: "nat \<Rightarrow> nat \<Rightarrow> bool" where
  "page_interval S E \<longleftrightarrow> S \<le> E \<and> E < 2 ^ 64 \<and> 4096 dvd S \<and> 4096 dvd E"

lemma pieces_cases:
  assumes "range_ok r" and "page_interval S E" and "unat (pr_start r) < E \<and> S < rend r"
  defines "a \<equiv> unat (pr_start r)" and "b \<equiv> rend r"
  obtains
    (whole) "S \<le> a" "b \<le> E" "pieces S E r = []"
  | (front) "S \<le> a" "E < b" "pieces S E r = [mk_range E b]" "range_ok (mk_range E b)" "rng (mk_range E b) = {E..<b}"
  | (rear) "a < S" "b \<le> E" "pieces S E r = [mk_range a S]" "range_ok (mk_range a S)" "rng (mk_range a S) = {a..<S}"
  | (middle) "a < S" "E < b" "pieces S E r = [mk_range a S, mk_range E b]"
      "range_ok (mk_range a S)" "rng (mk_range a S) = {a..<S}" "range_ok (mk_range E b)" "rng (mk_range E b) = {E..<b}"
proof -
  have r: "0 < a" "b < 2 ^ 64" "4096 dvd a" "4096 dvd b"
    using assms(1) rend_dvd [OF assms(1)] by (simp_all add: range_ok_def a_def b_def)
  have i: "S \<le> E" "E < 2 ^ 64" "4096 dvd S" "4096 dvd E" using assms(2) by (simp_all add: page_interval_def)
  have L: "a < S \<Longrightarrow> range_ok (mk_range a S) \<and> rng (mk_range a S) = {a..<S}"
    using mk_range [of a S] r i by linarith
  have R: "E < b \<Longrightarrow> range_ok (mk_range E b) \<and> rng (mk_range E b) = {E..<b}"
    using mk_range [of E b] r i assms(3) by (simp add: a_def)
  show ?thesis
    using L R whole front rear middle by (cases "a < S"; cases "E < b") (auto simp: pieces_def a_def b_def)
qed

lemma cut_front: "(S :: nat) \<le> a \<Longrightarrow> a < E \<Longrightarrow> {a..<b} - {S..<E} = {E..<b}"
  by (rule set_eqI) (simp, linarith)

lemma cut_rear: "a < (S :: nat) \<Longrightarrow> S < b \<Longrightarrow> b \<le> E \<Longrightarrow> {a..<b} - {S..<E} = {a..<S}"
  by (rule set_eqI) (simp, linarith)

lemma cut_middle: "a < (S :: nat) \<Longrightarrow> S \<le> E \<Longrightarrow> E < b \<Longrightarrow> {a..<b} - {S..<E} = {a..<S} \<union> {E..<b}"
  by (rule set_eqI) (simp, linarith)

lemma pieces_ok:
  assumes "range_ok r" and "page_interval S E" and "unat (pr_start r) < E \<and> S < rend r"
  shows "(\<forall>q \<in> set (pieces S E r). range_ok q \<and> rng q \<subseteq> rng r \<and> rng q \<inter> {S..<E} = {}) \<and>
    covers (pieces S E r) = rng r - {S..<E} \<and> apart (pieces S E r)"
proof -
  have i: "S \<le> E" using assms(2) by (simp add: page_interval_def)
  define a where "a = unat (pr_start r)"
  define b where "b = rend r"
  have r: "rng r = {a..<b}" by (simp add: rng_def a_def b_def)
  have ab: "a < E" "S < b" using assms(3) by (simp_all add: a_def b_def)
  show ?thesis unfolding r
  proof (rule pieces_cases [OF assms, folded a_def b_def])
    assume "S \<le> a" "b \<le> E" "pieces S E r = []"
    then show "(\<forall>q \<in> set (pieces S E r). range_ok q \<and> rng q \<subseteq> {a..<b} \<and> rng q \<inter> {S..<E} = {}) \<and>
        covers (pieces S E r) = {a..<b} - {S..<E} \<and> apart (pieces S E r)" by auto
  next
    assume p: "S \<le> a" "E < b" "pieces S E r = [mk_range E b]" "range_ok (mk_range E b)" "rng (mk_range E b) = {E..<b}"
    have "{a..<b} - {S..<E} = {E..<b}" "{E..<b} \<subseteq> {a..<b}" "{E..<b} \<inter> {S..<E} = {}" using cut_front [OF p(1) ab(1)] ab by simp_all
    then show "(\<forall>q \<in> set (pieces S E r). range_ok q \<and> rng q \<subseteq> {a..<b} \<and> rng q \<inter> {S..<E} = {}) \<and>
        covers (pieces S E r) = {a..<b} - {S..<E} \<and> apart (pieces S E r)"
      by (simp add: p(3-5) apart_Cons)
  next
    assume p: "a < S" "b \<le> E" "pieces S E r = [mk_range a S]" "range_ok (mk_range a S)" "rng (mk_range a S) = {a..<S}"
    have "{a..<b} - {S..<E} = {a..<S}" "{a..<S} \<subseteq> {a..<b}" "{a..<S} \<inter> {S..<E} = {}" using cut_rear [OF p(1) ab(2) p(2)] ab by simp_all
    then show "(\<forall>q \<in> set (pieces S E r). range_ok q \<and> rng q \<subseteq> {a..<b} \<and> rng q \<inter> {S..<E} = {}) \<and>
        covers (pieces S E r) = {a..<b} - {S..<E} \<and> apart (pieces S E r)"
      by (simp add: p(3-5) apart_Cons)
  next
    assume p: "a < S" "E < b" "pieces S E r = [mk_range a S, mk_range E b]"
      "range_ok (mk_range a S)" "rng (mk_range a S) = {a..<S}" "range_ok (mk_range E b)" "rng (mk_range E b) = {E..<b}"
    have "{a..<b} - {S..<E} = {a..<S} \<union> {E..<b}" "{a..<S} \<subseteq> {a..<b}" "{E..<b} \<subseteq> {a..<b}"
      "{a..<S} \<inter> {S..<E} = {}" "{E..<b} \<inter> {S..<E} = {}" "{a..<S} \<inter> {E..<b} = {}" using cut_middle [OF p(1) i p(2)] ab i by simp_all
    then show "(\<forall>q \<in> set (pieces S E r). range_ok q \<and> rng q \<subseteq> {a..<b} \<and> rng q \<inter> {S..<E} = {}) \<and>
        covers (pieces S E r) = {a..<b} - {S..<E} \<and> apart (pieces S E r)"
      by (simp add: p(3-7) apart_Cons)
  qed
qed

subsection \<open>One step of the reservation loop\<close>

text \<open>
  A step replaces the range at the index by its pieces: the first piece stays in place, a second
  one is appended to the table. It advances unless nothing is left of the range.
\<close>

lemma div_diff_4096: "(4096 * x - 4096 * y) div 4096 = x - (y :: nat)"
  by (simp flip: diff_mult_distrib2)

lemma reserve_step_pieces:
  assumes rs: "free_ranges k = xs @ r # ys" "i = length xs" and r: "range_ok r"
    and int: "page_interval (unat start) (unat end)"
    and over: "unat (pr_start r) < unat end \<and> unat start < rend r"
    and room: "length (free_ranges k) < 128 \<or> \<not> (unat (pr_start r) < unat start \<and> unat end < rend r)"
  obtains n ps qs where "pieces (unat start) (unat end) r = ps @ qs"
    "reserve_step start end i k = (ps \<noteq> [], take_pages n (xs @ ps @ ys @ qs) k)"
    "length ps \<le> 1" "unat n + pages_of (ps @ qs) = unat (pr_pages r)"
    "qs \<noteq> [] \<longrightarrow> length qs = 1 \<and> length (free_ranges k) < 128 \<and> unat (pr_start r) < unat start \<and> unat end < rend r"
proof -
  obtain s e a where se: "unat start = 4096 * s" "unat end = 4096 * e" "unat (pr_start r) = 4096 * a"
    using int r by (auto simp: page_interval_def range_ok_def elim!: dvdE)
  define m where "m = unat (pr_pages r)"
  have b: "rend r = 4096 * (a + m)" by (simp add: rend_def se m_def)
  have le: "s \<le> e" "a < e" "s < a + m" "a + m < 2 ^ 52" "0 < m" "e < 2 ^ 52"
    using int over r by (simp_all add: page_interval_def range_ok_def se b m_def)
  have w: "unat (pr_start r + pr_pages r * 4096) = 4096 * (a + m)" using range_ok_end [OF r] b by simp
  have nth: "free_ranges k ! i = r" "(free_ranges k)[i := q] = xs @ q # ys" "i < length (free_ranges k)" for q
    by (simp_all add: rs)
  have rem: "remove_range_index i (free_ranges k) = xs @ ys" by (simp add: rs remove_range_index_def)
  have ov: "overlaps (pr_start r) (pr_start r + pr_pages r * 4096) start end"
    using le by (simp add: overlaps_def word_less_nat_alt w se)
  note simps = reserve_step_def Let_def nth rem ov w se word_le_nat_alt word_less_nat_alt
  have mk: "unat (pr_pages (mk_range (4096 * x) (4096 * y))) = y - x" if "y < 2 ^ 52" for x y
    using that by (simp add: mk_range_def unat_of_nat_64 flip: diff_mult_distrib2)
  consider "s \<le> a \<and> a + m \<le> e" | "s \<le> a \<and> e < a + m" | "a < s \<and> a + m \<le> e" | "a < s \<and> e < a + m" by linarith
  then show ?thesis
  proof cases
    case 1
    then show ?thesis
      by (intro that [of "[]" "[]" "pr_pages r"]) (simp_all add: simps pieces_def b)
  next
    case 2
    define n where "n = (end - pr_start r) div 4096"
    have n: "unat n = e - a" using le(2) by (simp add: n_def unat_div_4096 unat_sub_u64 se flip: diff_mult_distrib2)
    have q: "\<lparr>pr_start = pr_start r + n * 4096, pr_pages = pr_pages r - n\<rparr> = mk_range (4096 * e) (4096 * (a + m))"
    proof (rule mk_range_eqI)
      have "unat (n * 4096) = (e - a) * 4096" using n le(6) less_imp_diff_less [of e "2 ^ 52" a] by (subst unat_mult_4096) simp_all
      then show "unat (pr_start \<lparr>pr_start = pr_start r + n * 4096, pr_pages = pr_pages r - n\<rparr>) = 4096 * e"
      proof -
        have "4096 * a + (e - a) * 4096 = 4096 * e" using le(2) by (simp add: diff_mult_distrib)
        then show ?thesis
          using \<open>unat (n * 4096) = (e - a) * 4096\<close> le(6) unat_add_u64 [of "pr_start r" "n * 4096"] by (simp add: se)
      qed
      show "unat (pr_pages \<lparr>pr_start = pr_start r + n * 4096, pr_pages = pr_pages r - n\<rparr>) =
          (4096 * (a + m) - 4096 * e) div 4096"
      proof -
        have "e - a \<le> m" "m - (e - a) = a + m - e" using 2 le(2) by linarith+
        then show ?thesis unfolding div_diff_4096 using n unat_sub_u64 [of n "pr_pages r"] by (simp flip: m_def)
      qed
    qed
    then show ?thesis
      using 2 le n mk [of "a + m" e]
      by (intro that [of "[mk_range (4096 * e) (4096 * (a + m))]" "[]" n])
        (simp_all add: simps pieces_def b n_def [symmetric] flip: m_def)
  next
    case 3
    define n where "n = (pr_start r + pr_pages r * 4096 - start) div 4096"
    have n: "unat n = a + m - s" using le(3) by (simp add: n_def unat_div_4096 unat_sub_u64 se w flip: diff_mult_distrib2)
    have q: "r\<lparr>pr_pages := pr_pages r - n\<rparr> = mk_range (4096 * a) (4096 * s)"
    proof (rule mk_range_eqI)
      have "a + m - s \<le> m" "m - (a + m - s) = s - a" using 3 le(3) by linarith+
      then show "unat (pr_pages (r\<lparr>pr_pages := pr_pages r - n\<rparr>)) = (4096 * s - 4096 * a) div 4096"
        unfolding div_diff_4096 using n unat_sub_u64 [of n "pr_pages r"] by (simp flip: m_def)
    qed (simp add: se)
    then show ?thesis
      using 3 le n mk [of s a]
      by (intro that [of "[mk_range (4096 * a) (4096 * s)]" "[]" n])
        (simp_all add: simps pieces_def b n_def [symmetric] flip: m_def)
  next
    case 4
    define n where "n = (end - start) div 4096"
    have n: "unat n = e - s" using le(1) by (simp add: n_def unat_div_4096 unat_sub_u64 se flip: diff_mult_distrib2)
    have u: "unat ((start - pr_start r) div 4096) = s - a" "unat ((pr_start r + pr_pages r * 4096 - end) div 4096) = a + m - e"
      using 4 by (simp_all add: unat_div_4096 unat_sub_u64 se w flip: diff_mult_distrib2)
    have q: "r\<lparr>pr_pages := (start - pr_start r) div 4096\<rparr> = mk_range (4096 * a) (4096 * s)"
      "\<lparr>pr_start = end, pr_pages = (pr_start r + pr_pages r * 4096 - end) div 4096\<rparr> = mk_range (4096 * e) (4096 * (a + m))"
      using u by (auto intro!: mk_range_eqI simp: se simp flip: diff_mult_distrib2)
    have "length (free_ranges k) < 128" using room 4 by (simp add: se b)
    then show ?thesis
      using 4 le n mk [of s a] mk [of "a + m" e] q
      by (intro that [of "[mk_range (4096 * a) (4096 * s)]" "[mk_range (4096 * e) (4096 * (a + m))]" n])
        (simp_all add: simps pieces_def b n_def [symmetric] flip: m_def)
  qed
qed

subsection \<open>The loop\<close>

definition inside :: "nat \<Rightarrow> nat \<Rightarrow> page_range_t \<Rightarrow> bool" where
  "inside S E r \<longleftrightarrow> unat (pr_start r) < S \<and> E < rend r"

definition needed :: "nat \<Rightarrow> nat \<Rightarrow> kmem \<Rightarrow> nat" where
  "needed S E k = length (free_ranges k) + (if \<exists>r \<in> set (free_ranges k). inside S E r then 1 else 0)"

definition reserve_inv :: "nat \<Rightarrow> nat \<Rightarrow> nat \<Rightarrow> kmem \<Rightarrow> bool" where
  "reserve_inv S E i k \<longleftrightarrow> table_ok k \<and> needed S E k \<le> 128 \<and>
     (\<forall>r \<in> set (take i (free_ranges k)). rng r \<inter> {S..<E} = {})"

lemma inside_unique:
  assumes "inside S E r" and "inside S E q" and "S \<le> E"
  shows "rng r \<inter> rng q \<noteq> {}"
proof -
  have "S - 1 \<in> rng r \<inter> rng q" using assms by (auto simp: inside_def rng_def)
  then show ?thesis by blast
qed

lemma rng_bounds: "range_ok q \<Longrightarrow> rng q = {x..<y} \<Longrightarrow> x < y \<Longrightarrow> unat (pr_start q) = x \<and> rend q = y"
  using range_ok_less [of q] by (simp add: rng_def atLeastLessThan_eq_iff)

lemma pieces_not_inside:
  assumes "page_interval S E" and "range_ok r" and "unat (pr_start r) < E \<and> S < rend r" and "q \<in> set (pieces S E r)"
  shows "\<not> inside S E q"
proof -
  have i: "S \<le> E" using assms(1) by (simp add: page_interval_def)
  from assms(2,1,3) show ?thesis
  proof (rule pieces_cases)
    assume p: "pieces S E r = []"
    then show ?thesis using assms(4) by simp
  next
    assume p: "pieces S E r = [mk_range E (rend r)]" "rng (mk_range E (rend r)) = {E..<rend r}" "E < rend r"
      "range_ok (mk_range E (rend r))"
    then show ?thesis using rng_bounds [OF p(4,2,3)] assms(4) i by (simp add: inside_def)
  next
    assume p: "pieces S E r = [mk_range (unat (pr_start r)) S]" "unat (pr_start r) < S"
      "rng (mk_range (unat (pr_start r)) S) = {unat (pr_start r)..<S}" "range_ok (mk_range (unat (pr_start r)) S)"
    then show ?thesis using rng_bounds [OF p(4,3,2)] assms(4) i by (simp add: inside_def)
  next
    assume p: "pieces S E r = [mk_range (unat (pr_start r)) S, mk_range E (rend r)]"
      "rng (mk_range (unat (pr_start r)) S) = {unat (pr_start r)..<S}" "range_ok (mk_range (unat (pr_start r)) S)"
      "rng (mk_range E (rend r)) = {E..<rend r}" "range_ok (mk_range E (rend r))" "unat (pr_start r) < S" "E < rend r"
    then show ?thesis using rng_bounds [OF p(3,2,6)] rng_bounds [OF p(5,4,7)] assms(4) i by (auto simp: inside_def)
  qed
qed

lemma apart_replace:
  assumes "apart (xs @ r # ys)" and "apart (ps @ qs)" and "\<forall>q \<in> set (ps @ qs). rng q \<subseteq> rng r"
  shows "apart (xs @ ps @ ys @ qs)"
proof -
  have x: "rng x \<inter> rng q = {}" if "x \<in> set xs" "q \<in> set (ps @ qs)" for x q
    using assms(1,3) that by (simp add: apart_append) blast
  have y: "rng q \<inter> rng y = {}" if "y \<in> set ys" "q \<in> set (ps @ qs)" for y q
    using assms(1,3) that by (simp add: apart_append apart_Cons) blast
  have "apart xs" "apart ys" "apart ps" "apart qs" "\<forall>p \<in> set ps. \<forall>q \<in> set qs. rng p \<inter> rng q = {}"
    "\<forall>x \<in> set xs. \<forall>y \<in> set ys. rng x \<inter> rng y = {}"
    using assms(1,2) by (simp_all add: apart_append apart_Cons)
  moreover have "\<forall>q \<in> set ps. \<forall>y \<in> set ys. rng q \<inter> rng y = {}" "\<forall>y \<in> set ys. \<forall>q \<in> set qs. rng y \<inter> rng q = {}"
    using y by (auto simp: Int_commute)
  ultimately show ?thesis using x by (simp add: apart_append ball_Un)
qed

lemma table_ok_replace:
  assumes "table_ok k" and "free_ranges k = xs @ r # ys" and "apart (ps @ qs)"
    and "\<forall>q \<in> set (ps @ qs). range_ok q \<and> rng q \<subseteq> rng r" and "unat n + pages_of (ps @ qs) = unat (pr_pages r)"
  shows "table_ok (take_pages n (xs @ ps @ ys @ qs) k)"
proof -
  have t: "apart (xs @ r # ys)" "unat (free_page_count k) = pages_of (xs @ r # ys)"
    "total_page_count k = free_page_count k" "\<forall>q \<in> set (xs @ r # ys). range_ok q"
    using assms(1,2) by (simp_all add: table_ok_def)
  have "unat (free_page_count k - n) = pages_of (xs @ ps @ ys @ qs)"
    using t(2) assms(5) by (subst unat_sub_u64) simp_all
  moreover have "apart (xs @ ps @ ys @ qs)" using assms(4) by (intro apart_replace [OF t(1) assms(3)]) simp
  moreover have "\<forall>q \<in> set (xs @ ps @ ys @ qs). range_ok q" using t(4) assms(4) by (simp add: ball_Un)
  ultimately show ?thesis by (simp add: table_ok_def take_pages_def t(3))
qed

lemma reserve_step_inv:
  assumes inv: "reserve_inv (unat start) (unat end) i k" and i: "i < length (free_ranges k)"
    and int: "page_interval (unat start) (unat end)" and res: "reserve_step start end i k = (adv, k')"
  shows "reserve_inv (unat start) (unat end) (if adv then i + 1 else i) k'"
    and "free_set k' - {unat start..<unat end} = free_set k - {unat start..<unat end}"
    and "needed (unat start) (unat end) k' \<le> needed (unat start) (unat end) k" and "memory k' = memory k"
proof -
  let ?S = "unat start" and ?E = "unat end"
  define xs where "xs = take i (free_ranges k)"
  define r where "r = free_ranges k ! i"
  define ys where "ys = drop (Suc i) (free_ranges k)"
  have rs: "free_ranges k = xs @ r # ys" "i = length xs" using i by (simp_all add: xs_def r_def ys_def id_take_nth_drop)
  have ok: "\<forall>q \<in> set (xs @ r # ys). range_ok q" "apart (xs @ r # ys)"
    "unat (free_page_count k) = pages_of (xs @ r # ys)" "total_page_count k = free_page_count k"
    using inv by (simp_all add: reserve_inv_def table_ok_def rs(1))
  then have r: "range_ok r" by simp
  have pre: "\<forall>q \<in> set xs. rng q \<inter> {?S..<?E} = {}" using inv by (simp add: reserve_inv_def xs_def)
  have SE: "?S \<le> ?E" using int by (simp add: page_interval_def)
  have "reserve_inv ?S ?E (if adv then i + 1 else i) k' \<and>
    free_set k' - {?S..<?E} = free_set k - {?S..<?E} \<and> needed ?S ?E k' \<le> needed ?S ?E k \<and> memory k' = memory k"
  proof (cases "unat (pr_start r) < ?E \<and> ?S < rend r")
    case False
    then have "\<not> overlaps (pr_start r) (pr_start r + pr_pages r * 4096) start end"
      using range_ok_end [OF r] by (auto simp: overlaps_def word_less_nat_alt)
    then have "adv" "k' = k" using res by (simp_all add: reserve_step_def Let_def r_def)
    moreover have "rng r \<inter> {?S..<?E} = {}" using False by (auto simp: rng_def)
    ultimately show ?thesis using inv pre rs by (simp add: reserve_inv_def)
  next
    case True
    have room: "length (free_ranges k) < 128 \<or> \<not> (unat (pr_start r) < ?S \<and> ?E < rend r)"
      using inv rs by (auto simp: reserve_inv_def needed_def inside_def split: if_splits)
    obtain n ps qs where P: "pieces ?S ?E r = ps @ qs"
      "reserve_step start end i k = (ps \<noteq> [], take_pages n (xs @ ps @ ys @ qs) k)"
      "length ps \<le> 1" "unat n + pages_of (ps @ qs) = unat (pr_pages r)"
      "qs \<noteq> [] \<longrightarrow> length qs = 1 \<and> length (free_ranges k) < 128 \<and> unat (pr_start r) < ?S \<and> ?E < rend r"
      by (rule reserve_step_pieces [OF rs r int True room]) (rule that)
    note C = pieces_ok [OF r int True, unfolded P(1)]
    have k': "k' = take_pages n (xs @ ps @ ys @ qs) k" "adv = (ps \<noteq> [])" using res P(2) by auto
    have fr: "free_ranges k' = xs @ ps @ ys @ qs" by (simp add: k' take_pages_def)
    have "table_ok k" using inv by (simp add: reserve_inv_def)
    then have t: "table_ok k'" unfolding k' using C P(4) rs(1) by (intro table_ok_replace) simp_all
    have ni: "\<forall>q \<in> set (ps @ qs). \<not> inside ?S ?E q" using pieces_not_inside [OF int r True] by (simp add: P(1))
    have nd: "needed ?S ?E k' \<le> needed ?S ?E k"
    proof (cases "qs = []")
      case True
      then show ?thesis using ni P(3) by (simp add: needed_def fr rs(1) bex_Un)
    next
      case False
      then have in_r: "inside ?S ?E r" using P(5) by (simp add: inside_def)
      then have "\<forall>q \<in> set (xs @ ys). \<not> inside ?S ?E q"
        using inside_unique [OF in_r _ SE] inside_unique [OF _ in_r SE] ok(2)
        by (simp add: apart_append apart_Cons ball_Un) blast
      then show ?thesis using ni in_r P(3,5) False by (simp add: needed_def fr rs(1) ball_Un bex_Un)
    qed
    have "\<forall>q \<in> set (take (if adv then i + 1 else i) (free_ranges k')). rng q \<inter> {?S..<?E} = {}"
      using pre C P(3) by (cases ps) (auto simp: fr k'(2) rs(2))
    moreover have "free_set k' - {?S..<?E} = free_set k - {?S..<?E}"
    proof -
      have "covers ps \<union> covers qs = rng r - {?S..<?E}" using C by simp
      then show ?thesis by (simp add: free_set_def fr rs(1)) blast
    qed
    ultimately show ?thesis using t nd inv by (simp add: reserve_inv_def k' take_pages_def)
  qed
  then show "reserve_inv ?S ?E (if adv then i + 1 else i) k'" "free_set k' - {?S..<?E} = free_set k - {?S..<?E}"
    "needed ?S ?E k' \<le> needed ?S ?E k" "memory k' = memory k" by auto
qed

lemma reserve_loop_ok:
  assumes "reserve_inv (unat start) (unat end) i k" and "page_interval (unat start) (unat end)"
  shows "table_ok (reserve_loop start end i k) \<and>
    free_set (reserve_loop start end i k) = free_set k - {unat start..<unat end} \<and>
    length (free_ranges (reserve_loop start end i k)) \<le> needed (unat start) (unat end) k \<and>
    memory (reserve_loop start end i k) = memory k"
  using assms
proof (induction start "end" i k rule: reserve_loop.induct)
  case (1 start "end" i k)
  show ?case
  proof (cases "i < length (free_ranges k)")
    case False
    then have "free_set k \<inter> {unat start..<unat end} = {}"
      using 1(2) by (auto simp: reserve_inv_def free_set_def covers_def)
    then show ?thesis
      using False 1(2) by (subst (1 2 3 4) reserve_loop.simps) (auto simp: reserve_inv_def needed_def)
  next
    case True
    obtain adv k' where st: "reserve_step start end i k = (adv, k')" by force
    note s = reserve_step_inv [OF 1(2) True 1(3) st]
    have e: "reserve_loop start end i k = reserve_loop start end (if adv then i + 1 else i) k'"
      using True by (subst reserve_loop.simps) (simp add: st)
    show ?thesis
      unfolding e using 1(1) [OF True st [symmetric] HOL.refl s(1) 1(3)] s(2,3,4) by simp
  qed
qed

subsection \<open>Alignment\<close>

lemma and_not_mask12: "unat (v AND - 4096 :: u64) = unat v div 4096 * 4096"
proof -
  have "(- 4096 :: u64) = NOT (mask 12)" by (simp add: mask_eq_exp_minus_1)
  moreover have "v AND NOT (mask 12) = push_bit 12 (drop_bit 12 v)"
    by (rule bit_word_eqI) (auto simp: bit_simps)
  moreover have "push_bit 12 (drop_bit 12 v) = v - take_bit 12 v"
    using bits_ident [of 12 v] by (simp add: eq_diff_eq)
  moreover have t: "unat (take_bit 12 v) = unat v mod 4096"
    by (simp add: unsigned_take_bit_eq) (simp add: take_bit_eq_mod)
  ultimately show ?thesis
    using unat_sub_u64 [of "take_bit 12 v" v] by (simp only: t mod_less_eq_dividend minus_mod_eq_div_mult simp_thms)
qed

lemma unat_align_down: "unat (align_down64 v 4096) = unat v div 4096 * 4096"
  by (simp add: align_down64_def and_not_mask12)

lemma unat_align_up:
  assumes "unat v + 4095 < 2 ^ 64"
  shows "unat (align_up64 v 4096) = (unat v + 4095) div 4096 * 4096"
proof -
  have "unat (v + word_of_nat 4095) = unat v + 4095" using assms by (rule unat_add_small)
  then have "unat (4095 + v) = unat v + 4095" by (simp add: add.commute)
  then show ?thesis by (simp add: align_up64_def and_not_mask12)
qed

subsection \<open>Reserving a region\<close>

text \<open>The pages that a region of memory touches, and the pages that lie inside one.\<close>

definition pages_touched :: "nat \<Rightarrow> nat \<Rightarrow> nat set" where
  "pages_touched a b = {a div 4096 * 4096..<(b + 4095) div 4096 * 4096}"

lemma region_touched: "region a n \<subseteq> pages_touched (unat a) (unat a + n)"
proof
  fix x
  assume x: "x \<in> region a n"
  have "unat a div 4096 * 4096 \<le> unat a" by simp
  moreover have "unat a + n \<le> (unat a + n + 4095) div 4096 * 4096"
    using div_mult_mod_eq [of "unat a + n + 4095" 4096] mod_less_divisor [of 4096 "unat a + n + 4095"] by linarith
  ultimately show "x \<in> pages_touched (unat a) (unat a + n)" using x by (auto simp: region_def pages_touched_def)
qed

definition region_ok :: "u64 \<Rightarrow> u64 \<Rightarrow> bool" where
  "region_ok base len \<longleftrightarrow> unat base + unat len + 4095 < 2 ^ 64"

lemma needed_bound: "length (free_ranges k) < n \<Longrightarrow> needed S E k \<le> n"
  by (simp add: needed_def)

lemma reserve_range_ok:
  assumes "table_ok k" and "length (free_ranges k) < 128" and "region_ok base len"
  shows "table_ok (reserve_range base (base + len) k)"
    and "free_set (reserve_range base (base + len) k) = free_set k - pages_touched (unat base) (unat base + unat len)"
    and "length (free_ranges (reserve_range base (base + len) k)) \<le> length (free_ranges k) + 1"
    and "memory (reserve_range base (base + len) k) = memory k"
proof -
  define S where "S = align_down64 base 4096"
  define E where "E = align_up64 (base + len) 4096"
  have u: "unat (base + len) = unat base + unat len"
    using assms(3) by (intro unat_add_u64) (simp add: region_ok_def)
  have S: "unat S = unat base div 4096 * 4096" by (simp add: S_def unat_align_down)
  have E: "unat E = (unat base + unat len + 4095) div 4096 * 4096"
    using assms(3) by (simp add: E_def unat_align_up u region_ok_def)
  have "unat base div 4096 \<le> (unat base + unat len + 4095) div 4096" by (intro div_le_mono) simp
  then have int: "page_interval (unat S) (unat E)"
    using unat_u64_bound [of E] by (simp add: page_interval_def S E)
  have inv: "reserve_inv (unat S) (unat E) 0 k"
    using assms(1) needed_bound [OF assms(2)] by (simp add: reserve_inv_def)
  have e: "reserve_range base (base + len) k = reserve_loop S E 0 k" by (simp add: reserve_range_def S_def E_def)
  note R = reserve_loop_ok [OF inv int]
  show "table_ok (reserve_range base (base + len) k)" "memory (reserve_range base (base + len) k) = memory k"
    using R by (simp_all add: e)
  show "free_set (reserve_range base (base + len) k) = free_set k - pages_touched (unat base) (unat base + unat len)"
    using R by (simp add: e pages_touched_def S E)
  show "length (free_ranges (reserve_range base (base + len) k)) \<le> length (free_ranges k) + 1"
    using R needed_bound [of k "length (free_ranges k) + 1" "unat S" "unat E"] by (simp add: e)
qed

subsection \<open>The memory map\<close>

definition desc_conventional :: "efi_memory_descriptor_t \<Rightarrow> bool" where
  "desc_conventional d \<longleftrightarrow> ed_type d = EFI_CONVENTIONAL_MEMORY"

definition desc_region :: "efi_memory_descriptor_t \<Rightarrow> nat set" where
  "desc_region d = {unat (ed_physical_start d)..<unat (ed_physical_start d) + unat (ed_number_of_pages d) * 4096}"

definition desc_ok :: "efi_memory_descriptor_t \<Rightarrow> bool" where
  "desc_ok d \<longleftrightarrow> unat (ed_physical_start d) + unat (ed_number_of_pages d) * 4096 + 4095 < 2 ^ 64"

text \<open>The whole pages of a descriptor from one megabyte on.\<close>

definition usable :: "efi_memory_descriptor_t \<Rightarrow> nat set" where
  "usable d =
     {max 0x100000 ((unat (ed_physical_start d) + 4095) div 4096 * 4096)..<
      (unat (ed_physical_start d) + unat (ed_number_of_pages d) * 4096) div 4096 * 4096}"

lemma usable_region: "usable d \<subseteq> desc_region d"
  by (auto simp: usable_def desc_region_def)

lemma add_descriptor_other: "\<not> desc_conventional d \<Longrightarrow> add_descriptor d k = k"
  by (simp add: add_descriptor_def desc_conventional_def)

lemma add_descriptor_cases:
  assumes "desc_ok d" and "desc_conventional d" and "length (free_ranges k) < 128"
  obtains (empty) "add_descriptor d k = k" "usable d = {}"
  | (new) r where "add_descriptor d k = k\<lparr>free_ranges := free_ranges k @ [r],
        total_page_count := total_page_count k + pr_pages r, free_page_count := free_page_count k + pr_pages r\<rparr>"
      "range_ok r" "rng r = usable d"
proof -
  let ?p = "ed_physical_start d" and ?n = "ed_number_of_pages d"
  define a where "a = max 0x100000 ((unat ?p + 4095) div 4096 * 4096)"
  define b where "b = (unat ?p + unat ?n * 4096) div 4096 * 4096"
  define start where "start = (if align_up64 ?p 4096 < 0x100000 then 0x100000 else align_up64 ?p 4096)"
  define E where "E = align_down64 (?p + ?n * 4096) 4096"
  have "unat (align_up64 ?p 4096) = (unat ?p + 4095) div 4096 * 4096"
    using assms(1) by (intro unat_align_up) (simp add: desc_ok_def)
  then have sa: "unat start = a" by (simp add: start_def a_def word_less_nat_alt max_def)
  have "unat (?p + ?n * 4096) = unat ?p + unat ?n * 4096"
    using assms(1) by (simp add: desc_ok_def unat_add_u64 unat_mult_4096)
  then have Eb: "unat E = b" by (simp add: E_def b_def unat_align_down)
  have us: "usable d = {a..<b}" by (simp add: usable_def a_def b_def)
  have st: "add_descriptor d k = (if E > start then add_free_range start ((E - start) div 4096) k else k)"
    using assms(2) by (simp add: add_descriptor_def desc_conventional_def Let_def start_def E_def)
  show ?thesis
  proof (cases "a < b")
    case False
    then show ?thesis using empty us by (simp add: st word_less_nat_alt sa Eb)
  next
    case True
    have dvd: "4096 dvd a" "4096 dvd b" by (simp_all add: a_def b_def max_def)
    have ub: "unat ((E - start) div 4096) = (b - a) div 4096"
      using True by (simp add: unat_div_4096 unat_sub_u64 sa Eb)
    define r where "r = \<lparr>pr_start = start, pr_pages = (E - start) div 4096\<rparr>"
    have e: "r = mk_range a b" by (rule mk_range_eqI) (simp_all add: r_def sa ub)
    have a0: "0 < a" by (simp add: a_def)
    have bb: "b < 2 ^ 64" using unat_u64_bound [of E] by (simp add: Eb)
    have mk: "range_ok r" "rng r = {a..<b}" using mk_range(1,2) [OF a0 True bb dvd] by (simp_all add: e)
    have rp: "pr_pages r = (E - start) div 4096" by (simp add: r_def)
    have nz: "pr_pages r \<noteq> 0" using mk(1) by (auto simp: range_ok_def)
    have "start < E" using True by (simp add: word_less_nat_alt sa Eb)
    then have "add_descriptor d k = k\<lparr>free_ranges := free_ranges k @ [r],
        total_page_count := total_page_count k + pr_pages r, free_page_count := free_page_count k + pr_pages r\<rparr>"
      unfolding st rp [symmetric] using nz assms(3) by (simp add: add_free_range_def) (simp add: r_def)
    then show ?thesis using new mk us by simp
  qed
qed

lemma covers_bound:
  assumes "\<forall>r \<in> set rs. range_ok r" and "apart rs"
  shows "pages_of rs < 2 ^ 64"
proof -
  have "covers rs \<subseteq> {0..<2 ^ 64}" using assms(1) by (fastforce simp: covers_def rng_def range_ok_def)
  then have "card (covers rs) \<le> card {0..<(2 :: nat) ^ 64}" by (intro card_mono) simp_all
  then show ?thesis using card_covers [OF assms(2)] by simp
qed

definition gained :: "efi_memory_descriptor_t \<Rightarrow> nat set" where
  "gained d = (if desc_conventional d then usable d else {})"

lemma add_descriptor_ok:
  assumes "table_ok k" and "desc_conventional d \<longrightarrow> length (free_ranges k) < 128" and "desc_ok d" and "gained d \<inter> free_set k = {}"
  shows "table_ok (add_descriptor d k) \<and> free_set (add_descriptor d k) = free_set k \<union> gained d \<and>
    length (free_ranges (add_descriptor d k)) \<le> length (free_ranges k) + (if desc_conventional d then 1 else 0) \<and>
    memory (add_descriptor d k) = memory k"
proof (cases "desc_conventional d")
  case False
  then show ?thesis using assms(1) by (simp add: add_descriptor_other gained_def)
next
  case True
  then have "length (free_ranges k) < 128" using assms(2) by simp
  with assms(3) True show ?thesis
  proof (cases rule: add_descriptor_cases)
    case empty
    then show ?thesis using assms(1) True by (simp add: gained_def)
  next
    case (new r)
    have t: "\<forall>r \<in> set (free_ranges k). range_ok r" "apart (free_ranges k)"
      "unat (free_page_count k) = pages_of (free_ranges k)" "total_page_count k = free_page_count k"
      using assms(1) by (simp_all add: table_ok_def)
    have "rng r \<inter> covers (free_ranges k) = {}" using assms(4) True new(3) by (simp add: gained_def free_set_def)
    then have ap: "apart (free_ranges k @ [r])" using t(2) by (auto simp: apart_append apart_Cons covers_def)
    have "pages_of (free_ranges k @ [r]) < 2 ^ 64" using t(1) new(2) by (intro covers_bound ap) simp
    then have "unat (free_page_count k + pr_pages r) = pages_of (free_ranges k @ [r])"
      using t(3) by (subst unat_add_u64) simp_all
    then show ?thesis using t ap new True by (simp add: table_ok_def free_set_def gained_def)
  qed
qed

definition descs_ok :: "efi_memory_descriptor_t list \<Rightarrow> bool" where
  "descs_ok ds \<longleftrightarrow> (\<forall>d \<in> set ds. desc_ok d) \<and>
     sorted_wrt (\<lambda>d e. desc_conventional d \<longrightarrow> desc_conventional e \<longrightarrow> desc_region d \<inter> desc_region e = {}) ds"

lemma gained_apart:
  "(desc_conventional d \<longrightarrow> desc_conventional e \<longrightarrow> desc_region d \<inter> desc_region e = {}) \<Longrightarrow> gained d \<inter> gained e = {}"
  using usable_region [of d] usable_region [of e] by (auto simp: gained_def)

lemma add_descriptors_fold:
  assumes "descs_ok ds" and "table_ok k" and "length (free_ranges k) + length (filter desc_conventional ds) \<le> 128"
    and "\<forall>d \<in> set ds. gained d \<inter> free_set k = {}"
  shows "table_ok (fold add_descriptor ds k) \<and>
    free_set (fold add_descriptor ds k) = free_set k \<union> (\<Union>d \<in> set ds. gained d) \<and>
    length (free_ranges (fold add_descriptor ds k)) \<le> length (free_ranges k) + length (filter desc_conventional ds) \<and>
    memory (fold add_descriptor ds k) = memory k"
  using assms
proof (induction ds arbitrary: k)
  case (Cons d ds)
  have d: "descs_ok ds" "desc_ok d" "\<forall>e \<in> set ds. gained d \<inter> gained e = {}"
    using Cons.prems(1) gained_apart [of d] by (auto simp: descs_ok_def)
  have A: "table_ok (add_descriptor d k) \<and> free_set (add_descriptor d k) = free_set k \<union> gained d \<and>
      length (free_ranges (add_descriptor d k)) \<le> length (free_ranges k) + (if desc_conventional d then 1 else 0) \<and>
      memory (add_descriptor d k) = memory k"
    using Cons.prems d(2) by (intro add_descriptor_ok) (simp_all split: if_splits)
  have "\<forall>e \<in> set ds. gained e \<inter> free_set (add_descriptor d k) = {}"
    using A d(3) Cons.prems(4) by auto
  then have "table_ok (fold add_descriptor ds (add_descriptor d k)) \<and>
      free_set (fold add_descriptor ds (add_descriptor d k)) = free_set (add_descriptor d k) \<union> (\<Union>d \<in> set ds. gained d) \<and>
      length (free_ranges (fold add_descriptor ds (add_descriptor d k))) \<le>
        length (free_ranges (add_descriptor d k)) + length (filter desc_conventional ds) \<and>
      memory (fold add_descriptor ds (add_descriptor d k)) = memory (add_descriptor d k)"
    using A Cons.prems(3) by (intro Cons.IH d(1)) (simp_all split: if_splits)
  then show ?case using A by (auto split: if_splits)
qed simp

subsection \<open>Walking the memory map\<close>

text \<open>The descriptors of the memory map, in order.\<close>

definition map_count :: "boot_info_t \<Rightarrow> nat" where
  "map_count info =
     (if unat (bi_memory_map_size info) < 40 then 0
      else (unat (bi_memory_map_size info) - 40) div unat (bi_memory_map_descriptor_size info) + 1)"

definition map_descriptors :: "boot_info_t \<Rightarrow> memory \<Rightarrow> efi_memory_descriptor_t list" where
  "map_descriptors info m =
     map (\<lambda>i. read_descriptor m (bi_memory_map info + word_of_nat (i * unat (bi_memory_map_descriptor_size info))))
       [0..<map_count info]"

definition map_bounded :: "boot_info_t \<Rightarrow> bool" where
  "map_bounded info \<longleftrightarrow> 40 \<le> unat (bi_memory_map_descriptor_size info) \<and>
     unat (bi_memory_map_size info) + unat (bi_memory_map_descriptor_size info) + 40 < 2 ^ 64"

lemma map_count_iff:
  assumes "map_bounded info"
  shows "i < map_count info \<longleftrightarrow> i * unat (bi_memory_map_descriptor_size info) + 40 \<le> unat (bi_memory_map_size info)"
proof (cases "unat (bi_memory_map_size info) < 40")
  case False
  then have "i < map_count info \<longleftrightarrow> i \<le> (unat (bi_memory_map_size info) - 40) div unat (bi_memory_map_descriptor_size info)"
    by (auto simp: map_count_def)
  also have "\<dots> \<longleftrightarrow> i * unat (bi_memory_map_descriptor_size info) \<le> unat (bi_memory_map_size info) - 40"
    using assms by (intro less_eq_div_iff_mult_less_eq) (simp add: map_bounded_def)
  finally show ?thesis using False by auto
qed (simp add: map_count_def)

lemma memory_add_descriptor: "memory (add_descriptor d k) = memory k"
  by (simp add: add_descriptor_def add_free_range_def Let_def)

lemma unat_offset: "n + 40 < 2 ^ 64 \<Longrightarrow> unat (word_of_nat n + 40 :: u64) = n + 40"
  using unat_add_small [of "word_of_nat n" 40] by (simp add: unat_of_nat_64)

text \<open>The offset of a descriptor does not wrap, up to the first one behind the map.\<close>

lemma map_offset:
  assumes b: "map_bounded info" and i: "i \<le> map_count info"
  shows "unat (word_of_nat (i * unat (bi_memory_map_descriptor_size info)) + 40 :: u64) =
    i * unat (bi_memory_map_descriptor_size info) + 40"
proof -
  let ?d = "unat (bi_memory_map_descriptor_size info)" and ?s = "unat (bi_memory_map_size info)"
  have "i * ?d \<le> ?s + ?d"
  proof (cases i)
    case (Suc j)
    then have "j * ?d + 40 \<le> ?s" using map_count_iff [OF b, of j] i by simp
    then show ?thesis using Suc by simp
  qed simp
  then have "i * ?d + 40 < 2 ^ 64" using b by (simp add: map_bounded_def)
  then show ?thesis by (rule unat_offset)
qed

lemma add_descriptors_returns:
  assumes b: "map_bounded info" and "i \<le> map_count info"
  shows "add_descriptors info (word_of_nat (i * unat (bi_memory_map_descriptor_size info))) k =
    Some (fold add_descriptor (drop i (map_descriptors info (memory k))) k)"
  using assms(2)
proof (induction "map_count info - i" arbitrary: i k)
  case 0
  let ?d = "unat (bi_memory_map_descriptor_size info)"
  have i: "i = map_count info" using 0 by simp
  then have "unat (bi_memory_map_size info) < i * ?d + 40" using map_count_iff [OF b, of i] by simp
  then show ?case
    using map_offset [OF b, of i] by (subst add_descriptors.simps) (simp add: word_le_nat_alt map_descriptors_def i)
next
  case (Suc x)
  let ?d = "unat (bi_memory_map_descriptor_size info)"
  have i: "i < map_count info" using Suc(2) by simp
  then have le: "i * ?d + 40 \<le> unat (bi_memory_map_size info)" using map_count_iff [OF b] by simp
  have u: "unat (word_of_nat (i * ?d) + 40 :: u64) = i * ?d + 40" using i by (intro map_offset [OF b]) simp
  let ?k = "add_descriptor (read_descriptor (memory k) (bi_memory_map info + word_of_nat (i * ?d))) k"
  have "add_descriptors info (word_of_nat (i * ?d)) k = add_descriptors info (word_of_nat (Suc i * ?d)) ?k"
    using le u by (subst add_descriptors.simps) (simp add: word_le_nat_alt add.commute)
  also have "\<dots> = Some (fold add_descriptor (drop (Suc i) (map_descriptors info (memory ?k))) ?k)"
    using Suc(2) i by (intro Suc(1)) simp_all
  also have "\<dots> = Some (fold add_descriptor (drop i (map_descriptors info (memory k))) k)"
  proof -
    have "drop i (map_descriptors info (memory k)) =
        read_descriptor (memory k) (bi_memory_map info + word_of_nat (i * ?d)) # drop (Suc i) (map_descriptors info (memory k))"
      using i by (subst Cons_nth_drop_Suc [symmetric]) (simp_all add: map_descriptors_def)
    then show ?thesis by (simp add: memory_add_descriptor)
  qed
  finally show ?case .
qed

subsection \<open>Initialisation\<close>

text \<open>The regions that are reserved at boot, as pairs of an address and a length.\<close>

definition boot_regions :: "boot_info_t \<Rightarrow> u64 \<Rightarrow> u64 \<Rightarrow> (u64 \<times> u64) list" where
  "boot_regions info pool_base pool_size =
     [(bi_kernel_base info, bi_kernel_size info), (bi_memory_map info, bi_memory_map_size info)] @
     (if bi_rsdp info \<noteq> 0 then [(bi_rsdp info, 4096)] else []) @
     (if bi_framebuffer_base info \<noteq> 0 \<and> bi_framebuffer_height info \<noteq> 0 \<and> bi_framebuffer_pixels_per_scanline info \<noteq> 0
      then [(bi_framebuffer_base info,
             ucast (bi_framebuffer_height info) * ucast (bi_framebuffer_pixels_per_scanline info) * 4)] else []) @
     (if pool_base \<noteq> 0 \<and> pool_size \<noteq> 0 then [(pool_base, pool_size)] else [])"

definition reserved :: "(u64 \<times> u64) list \<Rightarrow> nat set" where
  "reserved rs = (\<Union>(base, len) \<in> set rs. pages_touched (unat base) (unat base + unat len))"

lemma reserve_boot_ranges_fold:
  "reserve_boot_ranges info pool_base pool_size k =
     fold (\<lambda>(base, len). reserve_range base (base + len)) (boot_regions info pool_base pool_size) k"
  by (simp add: reserve_boot_ranges_def boot_regions_def Let_def)

lemma reserve_fold_ok:
  assumes "table_ok k" and "length (free_ranges k) + length rs \<le> 128" and "\<forall>(base, len) \<in> set rs. region_ok base len"
  shows "table_ok (fold (\<lambda>(base, len). reserve_range base (base + len)) rs k) \<and>
    free_set (fold (\<lambda>(base, len). reserve_range base (base + len)) rs k) = free_set k - reserved rs \<and>
    length (free_ranges (fold (\<lambda>(base, len). reserve_range base (base + len)) rs k)) \<le> length (free_ranges k) + length rs"
  using assms
proof (induction rs arbitrary: k)
  case Nil
  then show ?case by (simp add: reserved_def)
next
  case (Cons r rs)
  obtain base len where r: "r = (base, len)" by force
  have ok: "length (free_ranges k) < 128" "region_ok base len" using Cons.prems(2,3) by (simp_all add: r)
  note A = reserve_range_ok [OF Cons.prems(1) ok]
  let ?f = "fold (\<lambda>(base, len). reserve_range base (base + len)) rs (reserve_range base (base + len) k)"
  have "table_ok ?f \<and> free_set ?f = free_set (reserve_range base (base + len) k) - reserved rs \<and>
      length (free_ranges ?f) \<le> length (free_ranges (reserve_range base (base + len) k)) + length rs"
    using A Cons.prems(2,3) by (intro Cons.IH) simp_all
  then show ?case using A(2,3) by (auto simp: r reserved_def)
qed

lemma table_ok_reset: "table_ok (kmem_reset k)" "free_set (kmem_reset k) = {}" "free_ranges (kmem_reset k) = []"
  "memory (kmem_reset k) = memory k"
  by (simp_all add: table_ok_def kmem_reset_def free_set_def)

lemma pages_of_coalesce:
  assumes "\<forall>r \<in> set rs. range_ok r" and "apart rs"
  shows "pages_of (coalesce_ranges rs) = pages_of rs"
proof -
  note c = coalesce_ranges_ok [OF assms(1)]
  have "card (covers (coalesce_ranges rs)) = card (covers rs)" using c(2) by simp
  then show ?thesis using card_covers [OF assms(2)] card_covers [OF canonical_apart [OF c(1)]] by simp
qed

lemma kmem_init_returns:
  assumes map: "bi_memory_map info \<noteq> 0" "bi_memory_map_size info \<noteq> 0" "map_bounded info"
    and descs: "descs_ok (map_descriptors info (memory k))"
    and regions: "\<forall>(base, len) \<in> set (boot_regions info pool_base pool_size). region_ok base len"
    and count: "length (filter desc_conventional (map_descriptors info (memory k))) \<le> 123"
  obtains k' where "kmem_init (Some info) pool_base pool_size k = Some k'" "kmem_ok k'"
    "free_set k' = (\<Union>d \<in> set (map_descriptors info (memory k)). gained d) - reserved (boot_regions info pool_base pool_size)"
    "total_page_count k' = free_page_count k'"
proof -
  define ds where "ds = map_descriptors info (memory k)"
  define k1 where "k1 = fold add_descriptor ds (kmem_reset k)"
  define k2 where "k2 = reserve_boot_ranges info pool_base pool_size k1"
  have r: "add_descriptors info 0 (kmem_reset k) = Some k1"
    using add_descriptors_returns [OF map(3), of 0 "kmem_reset k"] by (simp add: k1_def ds_def table_ok_reset)
  have len: "length (filter desc_conventional ds) \<le> 123" using count by (simp add: ds_def)
  have A: "table_ok k1 \<and> free_set k1 = (\<Union>d \<in> set ds. gained d) \<and> length (free_ranges k1) \<le> length (filter desc_conventional ds)"
    using add_descriptors_fold [of ds "kmem_reset k"] descs len by (simp add: k1_def table_ok_reset flip: ds_def)
  have "length (boot_regions info pool_base pool_size) \<le> 5" by (simp add: boot_regions_def)
  then have B: "table_ok k2 \<and> free_set k2 = free_set k1 - reserved (boot_regions info pool_base pool_size) \<and>
      length (free_ranges k2) \<le> 128"
    using reserve_fold_ok [OF _ _ regions, of k1] A len by (auto simp: k2_def reserve_boot_ranges_fold)
  define k' where "k' = k2\<lparr>free_ranges := coalesce_ranges (free_ranges k2)\<rparr>"
  have t: "\<forall>r \<in> set (free_ranges k2). range_ok r" "apart (free_ranges k2)" using B by (simp_all add: table_ok_def)
  note C = coalesce_ranges_ok [OF t(1)]
  have "kmem_ok k'"
    using B C pages_of_coalesce [OF t] by (simp add: kmem_ok_def k'_def table_ok_def)
  moreover have "free_set k' = free_set k2" "total_page_count k' = free_page_count k'"
    using C(2) B by (simp_all add: k'_def free_set_def table_ok_def)
  moreover have "kmem_init (Some info) pool_base pool_size k = Some k'"
    using map r by (simp add: kmem_init_def Let_def k'_def k2_def map_bounded_def word_less_nat_alt not_less)
  ultimately show ?thesis using A B that by (simp add: ds_def)
qed

end
