(* ===== verification/Boot_Memory.thy ===== *)
theory Boot_Memory
  imports Dma Kmem_Init
begin

text \<open>
  The DMA pool and its place beside the page allocator: the bump allocator hands out disjoint
  zeroed blocks of the pool, the pool chosen at boot lies in conventional memory outside the
  kernel and the memory map, and the page allocator initialised after it never owns a page of it.
\<close>

subsection \<open>Rounding up\<close>

lemma and_not_bounds:
  fixes x m :: u64
  shows "unat x - unat m \<le> unat (x AND NOT m)" "unat (x AND NOT m) \<le> unat x"
proof -
  have "(x AND NOT m) AND (x AND m) = 0" by (rule bit_word_eqI) (auto simp: bit_simps)
  then have "(x AND NOT m) + (x AND m) = (x AND NOT m) OR (x AND m)" by (rule disjunctive_add_eq_or)
  also have "\<dots> = x" by (rule bit_word_eqI) (auto simp: bit_simps)
  finally have "x AND NOT m = x - (x AND m)" by (simp add: eq_diff_eq)
  moreover have "unat (x AND m) \<le> unat m" "unat (x AND m) \<le> unat x"
    using word_and_le1 [of x m] word_and_le2 [of x m] by (simp_all add: word_le_nat_alt)
  ultimately show "unat x - unat m \<le> unat (x AND NOT m)" "unat (x AND NOT m) \<le> unat x"
    using unat_sub_u64 [of "x AND m" x] by simp_all
qed

lemma dma_align_bounds:
  assumes "unat v + unat a < 2 ^ 64" and "a \<noteq> 0"
  shows "unat v \<le> unat (dma_align_up64 v a)" "unat (dma_align_up64 v a) < unat v + unat a"
proof -
  have a: "1 \<le> unat a" using assms(2) by (simp add: unat_gt_0 Suc_leI)
  have m: "unat (a - 1) = unat a - 1" using unat_sub_u64 [of 1 a] a by simp
  have "unat (v + (a - 1)) = unat v + (unat a - 1)" using assms a m by (subst unat_add_u64) simp_all
  then have "unat (v + a - 1) = unat v + (unat a - 1)" by (simp only: add_diff_eq)
  then show "unat v \<le> unat (dma_align_up64 v a)" "unat (dma_align_up64 v a) < unat v + unat a"
    using and_not_bounds [of "v + a - 1" "a - 1"] m a assms(2) by (simp_all add: dma_align_up64_def)
qed

subsection \<open>The bump allocator\<close>

definition dma_ok :: "dma \<Rightarrow> bool" where
  "dma_ok d \<longleftrightarrow> unat (dma_pool_base_addr d) + unat (dma_pool_size_bytes d) < 2 ^ 33 \<and>
     dma_pool_offset d \<le> dma_pool_size_bytes d"

definition dma_used :: "dma \<Rightarrow> nat set" where
  "dma_used d = {unat (dma_pool_base_addr d)..<unat (dma_pool_base_addr d) + unat (dma_pool_offset d)}"

definition dma_pool :: "dma \<Rightarrow> nat set" where
  "dma_pool d = {unat (dma_pool_base_addr d)..<unat (dma_pool_base_addr d) + unat (dma_pool_size_bytes d)}"

lemma dma_alloc_ok:
  assumes ok: "dma_ok d" and res: "dma_alloc n alignment d m = (addr, d', m')" and addr: "addr \<noteq> 0"
  shows "dma_ok d'" and "region addr (unat n) \<subseteq> dma_pool d" and "region addr (unat n) \<inter> dma_used d = {}"
    and "dma_used d \<union> region addr (unat n) \<subseteq> dma_used d'" and "dma_pool d' = dma_pool d"
    and "in_space addr (unat n)" and "m' = store_bytes addr (replicate (unat n) 0) m" and "n \<noteq> 0"
proof -
  define a :: u64 where "a = (if alignment \<noteq> 0 then ucast alignment else 16)"
  define off where "off = dma_align_up64 (dma_pool_offset d) a"
  have nz: "dma_pool_base_addr d \<noteq> 0" "n \<noteq> 0" "\<not> off + ucast n > dma_pool_size_bytes d"
    using res addr by (auto simp: dma_alloc_def Let_def off_def a_def split: if_splits)
  have r: "addr = dma_pool_base_addr d + off" "d' = d\<lparr>dma_pool_offset := off + ucast n\<rparr>"
    "m' = store_bytes addr (replicate (unat n) 0) m"
    using res nz by (auto simp: dma_alloc_def Let_def off_def a_def split: if_splits)
  have b: "unat (dma_pool_base_addr d) + unat (dma_pool_size_bytes d) < 2 ^ 33"
    "unat (dma_pool_offset d) \<le> unat (dma_pool_size_bytes d)"
    using ok by (simp_all add: dma_ok_def word_le_nat_alt)
  have a: "a \<noteq> 0" "unat a < 2 ^ 32"
    using unat_u32_bound [of alignment] unat_ucast_32_64 [of alignment] by (auto simp: a_def simp flip: unat_eq_0)
  have ov: "unat (dma_pool_offset d) + unat a < 2 ^ 64" using a(2) b by simp
  have off: "unat (dma_pool_offset d) \<le> unat off" "unat off < unat (dma_pool_offset d) + unat a"
    using dma_align_bounds [OF ov a(1)] by (simp_all add: off_def)
  have sum: "unat (off + ucast n) = unat off + unat n"
    using off(2) b a(2) unat_u32_bound [of n] by (subst unat_add_u64) simp_all
  then have le: "unat off + unat n \<le> unat (dma_pool_size_bytes d)" using nz(3) by (simp add: word_less_nat_alt not_less)
  have ua: "unat addr = unat (dma_pool_base_addr d) + unat off"
    using le b(1) unfolding r(1) by (intro unat_add_u64) simp
  show "dma_ok d'" using ok le sum by (simp add: dma_ok_def r(2) word_le_nat_alt)
  show "region addr (unat n) \<subseteq> dma_pool d" using le by (auto simp: region_def dma_pool_def ua)
  show "region addr (unat n) \<inter> dma_used d = {}" using off(1) by (auto simp: region_def dma_used_def ua)
  show "dma_used d \<union> region addr (unat n) \<subseteq> dma_used d'" using off(1) by (auto simp: region_def dma_used_def ua r(2) sum)
  show "dma_pool d' = dma_pool d" by (simp add: dma_pool_def r(2))
  show "in_space addr (unat n)" using le b(1) by (simp add: in_space_def ua)
  show "m' = store_bytes addr (replicate (unat n) 0) m" "n \<noteq> 0" by (rule r(3), rule nz(2))
qed

lemma dma_alloc_null: "dma_alloc n alignment d m = (0, d', m') \<Longrightarrow> dma_ok d \<Longrightarrow> d' = d \<and> m' = m"
proof -
  assume res: "dma_alloc n alignment d m = (0, d', m')" and ok: "dma_ok d"
  show ?thesis
  proof (cases "dma_pool_base_addr d = 0 \<or> n = 0 \<or>
      dma_align_up64 (dma_pool_offset d) (if alignment \<noteq> 0 then ucast alignment else 16) + ucast n > dma_pool_size_bytes d")
    case True
    then show ?thesis using res by (auto simp: dma_alloc_def Let_def split: if_splits)
  next
    case False
    define a :: u64 where "a = (if alignment \<noteq> 0 then ucast alignment else 16)"
    have e: "dma_pool_base_addr d + dma_align_up64 (dma_pool_offset d) a = 0" using res False by (auto simp: dma_alloc_def Let_def a_def)
    have a: "a \<noteq> 0" "unat a < 2 ^ 32"
      using unat_u32_bound [of alignment] unat_ucast_32_64 [of alignment] by (auto simp: a_def simp flip: unat_eq_0)
    have b: "unat (dma_pool_base_addr d) + unat (dma_pool_size_bytes d) < 2 ^ 33"
      "unat (dma_pool_offset d) \<le> unat (dma_pool_size_bytes d)"
      using ok by (simp_all add: dma_ok_def word_le_nat_alt)
    then have ov: "unat (dma_pool_offset d) + unat a < 2 ^ 64" using a(2) by simp
    have "unat (dma_pool_base_addr d + dma_align_up64 (dma_pool_offset d) a) =
        unat (dma_pool_base_addr d) + unat (dma_align_up64 (dma_pool_offset d) a)"
      using dma_align_bounds(2) [OF ov a(1)] a(2) b by (intro unat_add_u64) simp
    then have "unat (dma_pool_base_addr d) = 0" using e by simp
    then have "dma_pool_base_addr d = 0" by (simp add: unat_eq_0)
    then show ?thesis using False by simp
  qed
qed

text \<open>Any sequence of allocations from the pool: the blocks handed out.\<close>

inductive dma_run :: "dma \<Rightarrow> dma \<Rightarrow> (u64 \<times> u32) list \<Rightarrow> bool" for d0 where
  start: "dma_run d0 d0 []"
| alloc: "dma_run d0 d bs \<Longrightarrow> dma_alloc n alignment d m = (addr, d', m') \<Longrightarrow> addr \<noteq> 0 \<Longrightarrow>
    dma_run d0 d' ((addr, n) # bs)"
| fail: "dma_run d0 d bs \<Longrightarrow> dma_alloc n alignment d m = (0, d', m') \<Longrightarrow> dma_run d0 d' bs"

lemma dma_run_inv:
  assumes "dma_run d0 d bs" and "dma_ok d0"
  shows "dma_ok d \<and> dma_pool d = dma_pool d0 \<and> (\<forall>b \<in> set bs. region (fst b) (unat (snd b)) \<subseteq> dma_pool d0 \<inter> dma_used d) \<and>
    sorted_wrt (\<lambda>b c. region (fst b) (unat (snd b)) \<inter> region (fst c) (unat (snd c)) = {}) bs"
  using assms
proof (induction rule: dma_run.induct)
  case start
  then show ?case by simp
next
  case (alloc d bs n alignment m addr d' m')
  then have IH: "dma_ok d" "dma_pool d = dma_pool d0" "\<forall>b \<in> set bs. region (fst b) (unat (snd b)) \<subseteq> dma_pool d0 \<inter> dma_used d"
    "sorted_wrt (\<lambda>b c. region (fst b) (unat (snd b)) \<inter> region (fst c) (unat (snd c)) = {}) bs" by simp_all
  note A = dma_alloc_ok [OF IH(1) alloc.hyps(2,3)]
  have "\<forall>b \<in> set bs. region addr (unat n) \<inter> region (fst b) (unat (snd b)) = {}" using IH(3) A(3) by blast
  then show ?case using IH A by (simp add: Ball_def) blast
next
  case (fail d bs n alignment m d' m')
  then show ?case using dma_alloc_null [OF fail.hyps(2)] by simp
qed

subsection \<open>Choosing the pool\<close>

lemma dma_align_4096:
  assumes "unat v + 4095 < 2 ^ 64"
  shows "unat (dma_align_up64 v 4096) = (unat v + 4095) div 4096 * 4096"
  using unat_align_up [OF assms] by (simp add: dma_align_up64_def align_up64_def)

definition pool_region :: "u64 \<Rightarrow> nat set" where
  "pool_region base = {unat base..<unat base + 4194304}"

lemma dma_candidate_ok:
  assumes cand: "dma_candidate info desc = Some base" and ok: "desc_ok desc"
    and kernel: "region_ok (bi_kernel_base info) (bi_kernel_size info)"
    and map: "region_ok (bi_memory_map info) (bi_memory_map_size info)"
  shows "4096 dvd unat base" "0x1000000 \<le> unat base" "unat base + 4194304 \<le> 2 ^ 32" "desc_conventional desc"
    "pool_region base \<subseteq> desc_region desc"
    "pool_region base \<inter> region (bi_kernel_base info) (unat (bi_kernel_size info)) = {}"
    "pool_region base \<inter> region (bi_memory_map info) (unat (bi_memory_map_size info)) = {}"
proof -
  let ?p = "ed_physical_start desc" and ?n = "ed_number_of_pages desc"
  define E where "E = (if ?p + ?n * 4096 > DMA_POOL_LIMIT then DMA_POOL_LIMIT else ?p + ?n * 4096)"
  define S where "S = (if ?p < DMA_POOL_MIN then DMA_POOL_MIN else ?p)"
  have b: "base = dma_align_up64 S 4096" and size: "\<not> (E \<le> base \<or> E - base < DMA_POOL_SIZE)"
    and ko: "\<not> dma_overlaps base (base + DMA_POOL_SIZE) (bi_kernel_base info) (bi_kernel_base info + bi_kernel_size info)"
    and mo: "\<not> dma_overlaps base (base + DMA_POOL_SIZE) (bi_memory_map info) (bi_memory_map info + bi_memory_map_size info)"
    and conv: "ed_type desc = EFI_CONVENTIONAL_MEMORY"
    using cand by (auto simp: dma_candidate_def Let_def S_def E_def split: if_splits)
  have p: "unat ?p + unat ?n * 4096 + 4095 < 2 ^ 64" using ok by (simp add: desc_ok_def)
  then have "unat (?p + ?n * 4096) = unat ?p + unat ?n * 4096" by (simp add: unat_add_u64 unat_mult_4096)
  then have E: "unat E \<le> unat ?p + unat ?n * 4096" "unat E \<le> 2 ^ 32"
    by (auto simp: E_def word_less_nat_alt)
  have S: "unat ?p \<le> unat S" "0x1000000 \<le> unat S" "unat S + 4095 < 2 ^ 64"
    using p by (auto simp: S_def word_less_nat_alt)
  have ub: "unat base = (unat S + 4095) div 4096 * 4096" unfolding b by (rule dma_align_4096 [OF S(3)])
  then show al: "4096 dvd unat base" by simp
  have Sb: "unat S \<le> unat base"
    using ub div_mult_mod_eq [of "unat S + 4095" 4096] mod_less_divisor [of 4096 "unat S + 4095"] by linarith
  then show "0x1000000 \<le> unat base" using S(2) by linarith
  have eb: "unat base < unat E" "unat (E - base) = unat E - unat base" using size by (auto simp: word_le_nat_alt unat_sub_u64)
  then have top: "unat base + 4194304 \<le> unat E" using size by (auto simp: word_less_nat_alt)
  then show "unat base + 4194304 \<le> 2 ^ 32" using E(2) by linarith
  show "desc_conventional desc" using conv by (simp add: desc_conventional_def)
  show "pool_region base \<subseteq> desc_region desc" using top E(1) S(1) Sb by (auto simp: pool_region_def desc_region_def)
  have ue: "unat (base + DMA_POOL_SIZE) = unat base + 4194304"
    using unat_add_small [of base 4194304] top E(2) by simp
  have uk: "unat (bi_kernel_base info + bi_kernel_size info) = unat (bi_kernel_base info) + unat (bi_kernel_size info)"
    "unat (bi_memory_map info + bi_memory_map_size info) = unat (bi_memory_map info) + unat (bi_memory_map_size info)"
    using kernel map by (simp_all add: region_ok_def unat_add_u64)
  show "pool_region base \<inter> region (bi_kernel_base info) (unat (bi_kernel_size info)) = {}"
    using ko ue uk(1) by (auto simp: dma_overlaps_def word_less_nat_alt pool_region_def region_def)
  show "pool_region base \<inter> region (bi_memory_map info) (unat (bi_memory_map_size info)) = {}"
    using mo ue uk(2) by (auto simp: dma_overlaps_def word_less_nat_alt pool_region_def region_def)
qed

definition no_pool :: dma where
  "no_pool = \<lparr>dma_pool_base_addr = 0, dma_pool_size_bytes = 0, dma_pool_offset = 0\<rparr>"

definition pool_at :: "u64 \<Rightarrow> dma" where
  "pool_at base = \<lparr>dma_pool_base_addr = base, dma_pool_size_bytes = DMA_POOL_SIZE, dma_pool_offset = 0\<rparr>"

lemma dma_scan_returns:
  assumes b: "map_bounded info" and "i \<le> map_count info"
  shows "\<exists>d'. dma_scan info m (word_of_nat (i * unat (bi_memory_map_descriptor_size info))) d = Some d' \<and>
    (d' = d \<or> (\<exists>desc \<in> set (drop i (map_descriptors info m)). \<exists>base. dma_candidate info desc = Some base \<and> d' = pool_at base))"
  using assms(2)
proof (induction "map_count info - i" arbitrary: i)
  case 0
  then have i: "i = map_count info" by simp
  have "\<not> (word_of_nat (i * unat (bi_memory_map_descriptor_size info)) + 40 \<le> bi_memory_map_size info)"
    using map_offset [OF b, of i] map_count_iff [OF b, of i] i by (simp add: word_le_nat_alt)
  then show ?case by (subst dma_scan.simps) simp
next
  case (Suc x)
  let ?d = "unat (bi_memory_map_descriptor_size info)"
  let ?desc = "read_descriptor m (bi_memory_map info + word_of_nat (i * ?d))"
  have i: "i < map_count info" using Suc(2) by simp
  have le: "word_of_nat (i * ?d) + 40 \<le> bi_memory_map_size info"
    using map_offset [OF b, of i] map_count_iff [OF b, of i] i by (simp add: word_le_nat_alt)
  have dr: "drop i (map_descriptors info m) = ?desc # drop (Suc i) (map_descriptors info m)"
    using i by (subst Cons_nth_drop_Suc [symmetric]) (simp_all add: map_descriptors_def)
  show ?case
  proof (cases "dma_candidate info ?desc")
    case None
    have "dma_scan info m (word_of_nat (i * ?d)) d = dma_scan info m (word_of_nat (Suc i * ?d)) d"
      using le None by (subst dma_scan.simps) (simp add: add.commute)
    moreover have "x = map_count info - Suc i" "Suc i \<le> map_count info" using Suc(2) i by simp_all
    note Suc(1) [OF this]
    ultimately show ?thesis unfolding dr by (metis list.set_intros(2))
  next
    case (Some base)
    then have "dma_scan info m (word_of_nat (i * ?d)) d = Some (pool_at base)"
      using le by (subst dma_scan.simps) (simp add: pool_at_def)
    then show ?thesis using Some dr by auto
  qed
qed

lemma dma_init_returns:
  assumes map: "map_bounded info" and descs: "descs_ok (map_descriptors info m)"
    and kernel: "region_ok (bi_kernel_base info) (bi_kernel_size info)"
    and mapr: "region_ok (bi_memory_map info) (bi_memory_map_size info)"
  obtains d where "dma_init (Some info) m = Some d" "dma_ok d"
    "dma_pool_base d = 0 \<or>
     (\<exists>desc \<in> set (map_descriptors info m). dma_pool d = pool_region (dma_pool_base d) \<and> 4096 dvd unat (dma_pool_base d) \<and>
        0x1000000 \<le> unat (dma_pool_base d) \<and> unat (dma_pool_base d) + 4194304 \<le> 2 ^ 32 \<and>
        desc_conventional desc \<and> dma_pool d \<subseteq> desc_region desc \<and>
        dma_pool d \<inter> region (bi_kernel_base info) (unat (bi_kernel_size info)) = {} \<and>
        dma_pool d \<inter> region (bi_memory_map info) (unat (bi_memory_map_size info)) = {})"
    "dma_pool_base d = 0 \<or> dma_pool_size d = DMA_POOL_SIZE"
proof -
  have none: "dma_ok no_pool" "dma_pool_base no_pool = 0" by (simp_all add: dma_ok_def no_pool_def dma_pool_base_def)
  show ?thesis
  proof (cases "bi_memory_map info = 0 \<or> bi_memory_map_size info = 0")
    case True
    then have "dma_init (Some info) m = Some no_pool" by (auto simp: dma_init_def no_pool_def)
    then show ?thesis using that none by blast
  next
    case False
    have e: "dma_init (Some info) m = dma_scan info m 0 no_pool"
      using False map by (simp add: dma_init_def no_pool_def map_bounded_def word_less_nat_alt)
    obtain d where d: "dma_scan info m 0 no_pool = Some d"
      "d = no_pool \<or> (\<exists>desc \<in> set (map_descriptors info m). \<exists>base. dma_candidate info desc = Some base \<and> d = pool_at base)"
      using dma_scan_returns [OF map, of 0 m no_pool] by auto
    show ?thesis
    proof (cases "d = no_pool")
      case True
      then show ?thesis using that d(1) e none by simp
    next
      case no: False
      then obtain desc base where c: "desc \<in> set (map_descriptors info m)" "dma_candidate info desc = Some base" "d = pool_at base"
        using d(2) by blast
      have "desc_ok desc" using descs c(1) by (simp add: descs_ok_def)
      note C = dma_candidate_ok [OF c(2) this kernel mapr]
      have p: "dma_pool_base d = base" "dma_pool_size d = DMA_POOL_SIZE" "dma_pool d = pool_region base"
        by (simp_all add: c(3) pool_at_def dma_pool_base_def dma_pool_size_def dma_pool_def pool_region_def)
      have "dma_ok d" using C(3) by (simp add: dma_ok_def c(3) pool_at_def)
      then show ?thesis using that [of d] d(1) e c(1) C p by auto
    qed
  qed
qed

end
