(* ===== verification/Kmem_Heap.thy ===== *)
theory Kmem_Heap
  imports Kmem_Inv
begin

text \<open>
  The kernel heap of \<^verbatim>\<open>kernel/core/kmem.c\<close>: eight size classes of small blocks, each with a free list
  threaded through the free blocks, and whole pages for larger requests. Every allocation has a
  24-byte header before the returned pointer and a 4-byte guard behind the requested bytes. The
  header and the free lists live in physical memory, so aliasing is modelled: a store through one
  pointer is seen by a load through another. Walking a free list that has become cyclic does not
  end; the operations that walk one return \<open>None\<close> then.
\<close>

abbreviation (input) KMEM_ALLOC_MAGIC :: u64 where "KMEM_ALLOC_MAGIC \<equiv> 0x4B4D454D48454150"
abbreviation (input) KMEM_FREED_MAGIC :: u64 where "KMEM_FREED_MAGIC \<equiv> 0x4B4D454D46524545"
abbreviation (input) KMEM_GUARD_MAGIC :: u32 where "KMEM_GUARD_MAGIC \<equiv> 0xC0FFEE42"
abbreviation (input) HEADER_SIZE :: u64 where "HEADER_SIZE \<equiv> 24"

definition small_class_sizes :: "u32 list" where
  "small_class_sizes = [32, 64, 128, 256, 512, 1024, 2048, 4096]"

record kmalloc_header_t =
  hd_magic :: u64
  hd_bytes :: u32
  hd_allocated_bytes :: u32
  hd_class_index :: u16
  hd_page_count :: u16
  hd_reserved :: u32

definition read_header :: "memory \<Rightarrow> u64 \<Rightarrow> kmalloc_header_t" where
  "read_header m h =
     \<lparr>hd_magic = load64 m h, hd_bytes = load32 m (h + 8), hd_allocated_bytes = load32 m (h + 12),
      hd_class_index = load16 m (h + 16), hd_page_count = load16 m (h + 18),
      hd_reserved = load32 m (h + 20)\<rparr>"

definition write_header :: "u64 \<Rightarrow> kmalloc_header_t \<Rightarrow> memory \<Rightarrow> memory" where
  "write_header h hdr m =
     (let m1 = store64 h (hd_magic hdr) m;
          m2 = store32 (h + 8) (hd_bytes hdr) m1;
          m3 = store32 (h + 12) (hd_allocated_bytes hdr) m2;
          m4 = store16 (h + 16) (hd_class_index hdr) m3;
          m5 = store16 (h + 18) (hd_page_count hdr) m4
      in store32 (h + 20) (hd_reserved hdr) m5)"

subsection \<open>Size classes\<close>

fun class_scan :: "nat \<Rightarrow> u32 \<Rightarrow> u32 list \<Rightarrow> nat option" where
  "class_scan i need [] = None"
| "class_scan i need (s # ss) = (if need \<le> s then Some i else class_scan (i + 1) need ss)"

text \<open>\<open>None\<close> stands for the result \<open>-1\<close>.\<close>

definition class_for_size :: "u32 \<Rightarrow> nat option" where
  "class_for_size bytes =
     (let overhead = 24 + 4 :: u32
      in if bytes > 0xffffffff - overhead then None
         else class_scan 0 (bytes + overhead) small_class_sizes)"

definition push_block :: "nat \<Rightarrow> u64 \<Rightarrow> kmem \<Rightarrow> kmem" where
  "push_block class_index b k =
     k\<lparr>memory := store64 b (small_free k ! class_index) (memory k),
       small_free := (small_free k)[class_index := b]\<rparr>"

definition populate_class :: "nat \<Rightarrow> kmem \<Rightarrow> kmem" where
  "populate_class class_index k =
     (let block_size = unat (small_class_sizes ! class_index); (page, k1) = page_alloc 1 k
      in if page = 0 then k1
         else fold (\<lambda>i. push_block class_index (page + word_of_nat (i * block_size)))
                [0..<4096 div block_size] k1)"

definition kmalloc_guard_for_header :: "memory \<Rightarrow> u64 \<Rightarrow> u64" where
  "kmalloc_guard_for_header m h = h + HEADER_SIZE + ucast (hd_bytes (read_header m h))"

partial_function (option) chain_contains :: "memory \<Rightarrow> u64 \<Rightarrow> u64 \<Rightarrow> bool option" where
  "chain_contains m b it =
     (if it = 0 then Some False
      else if it = b then Some True
      else chain_contains m b (load64 m it))"

declare chain_contains.simps [code]

fun chains_contain :: "memory \<Rightarrow> u64 \<Rightarrow> u64 list \<Rightarrow> bool option" where
  "chains_contain m b [] = Some False"
| "chains_contain m b (h # hs) =
     (case chain_contains m b h of None \<Rightarrow> None
      | Some True \<Rightarrow> Some True
      | Some False \<Rightarrow> chains_contain m b hs)"

definition small_free_list_contains :: "u64 \<Rightarrow> kmem \<Rightarrow> bool option" where
  "small_free_list_contains b k = chains_contain (memory k) b (small_free k)"

subsection \<open>Statistics of an allocation\<close>

definition kmalloc_note_alloc :: "u64 \<Rightarrow> kmem \<Rightarrow> kmem" where
  "kmalloc_note_alloc charged_bytes k =
     (let live = live_allocations k + 1
      in k\<lparr>heap_used_bytes := heap_used_bytes k + charged_bytes,
           allocation_count := allocation_count k + 1,
           live_allocations := live,
           peak_live_allocations :=
             (if live > peak_live_allocations k then live else peak_live_allocations k)\<rparr>)"

definition kmalloc_note_free :: "u64 \<Rightarrow> kmem \<Rightarrow> kmem" where
  "kmalloc_note_free charged_bytes k =
     k\<lparr>heap_used_bytes :=
         (if heap_used_bytes k \<ge> charged_bytes then heap_used_bytes k - charged_bytes else 0),
       free_count := free_count k + 1,
       live_allocations := (if live_allocations k > 0 then live_allocations k - 1 else live_allocations k)\<rparr>"

definition count_alloc_failure :: "kmem \<Rightarrow> kmem" where
  "count_alloc_failure k = k\<lparr>allocation_failures := allocation_failures k + 1\<rparr>"

subsection \<open>Allocation and free\<close>

definition kmalloc_small :: "nat \<Rightarrow> u32 \<Rightarrow> kmem \<Rightarrow> u64 \<times> kmem" where
  "kmalloc_small class_index n k =
     (let k1 = (if small_free k ! class_index = 0 then populate_class class_index k else k);
          b = small_free k1 ! class_index
      in if b = 0 then (0, count_alloc_failure k1)
         else let k2 = k1\<lparr>small_free := (small_free k1)[class_index := load64 (memory k1) b]\<rparr>;
                  m1 = write_header b
                         \<lparr>hd_magic = KMEM_ALLOC_MAGIC, hd_bytes = n,
                          hd_allocated_bytes = small_class_sizes ! class_index,
                          hd_class_index = word_of_nat class_index, hd_page_count = 0,
                          hd_reserved = 0\<rparr> (memory k2);
                  m2 = store32 (kmalloc_guard_for_header m1 b) KMEM_GUARD_MAGIC m1;
                  m3 = fill_memory (b + HEADER_SIZE) (unat n) 0xA5 m2
              in (b + HEADER_SIZE,
                  kmalloc_note_alloc (ucast (small_class_sizes ! class_index)) (k2\<lparr>memory := m3\<rparr>)))"

definition kmalloc_large :: "u32 \<Rightarrow> kmem \<Rightarrow> u64 \<times> kmem" where
  "kmalloc_large n k =
     (let overhead = 24 + 4 :: u32
      in if n > 0xffffffff - overhead - (4096 - 1) then (0, count_alloc_failure k)
         else let pages = (n + overhead + 4096 - 1) div 4096
              in if pages > 0xffff then (0, count_alloc_failure k)
                 else let (h, k1) = page_alloc pages k
                      in if h = 0 then (0, k1)
                         else let m1 = write_header h
                                         \<lparr>hd_magic = KMEM_ALLOC_MAGIC, hd_bytes = n,
                                          hd_allocated_bytes = pages * 4096, hd_class_index = 0xffff,
                                          hd_page_count = ucast pages, hd_reserved = 0\<rparr> (memory k1);
                                  m2 = store32 (kmalloc_guard_for_header m1 h) KMEM_GUARD_MAGIC m1
                              in (h + HEADER_SIZE,
                                  kmalloc_note_alloc (ucast pages * KMEM_PAGE_SIZE) (k1\<lparr>memory := m2\<rparr>)))"

definition kmalloc :: "u32 \<Rightarrow> kmem \<Rightarrow> u64 \<times> kmem" where
  "kmalloc n k =
     (if n = 0 then (0, k)
      else case class_for_size n of
             Some class_index \<Rightarrow> kmalloc_small class_index n k
           | None \<Rightarrow> kmalloc_large n k)"

definition kzalloc :: "u32 \<Rightarrow> kmem \<Rightarrow> u64 \<times> kmem" where
  "kzalloc n k =
     (let (ptr, k1) = kmalloc n k
      in if ptr \<noteq> 0 then (ptr, k1\<lparr>memory := zero_memory ptr (unat n) (memory k1)\<rparr>) else (ptr, k1))"

definition kfree_large :: "u64 \<Rightarrow> kmem \<Rightarrow> kmem" where
  "kfree_large ptr k =
     (let h = ptr - HEADER_SIZE;
          pages = ucast (hd_page_count (read_header (memory k) h)) :: u32;
          m1 = store64 h KMEM_FREED_MAGIC (memory k);
          m2 = store32 (kmalloc_guard_for_header m1 h) 0 m1;
          m3 = fill_memory ptr (unat (hd_bytes (read_header m2 h))) 0xDD m2
      in page_free h pages (kmalloc_note_free (ucast pages * KMEM_PAGE_SIZE) (k\<lparr>memory := m3\<rparr>)))"

definition kfree_small :: "u64 \<Rightarrow> kmem \<Rightarrow> kmem" where
  "kfree_small ptr k =
     (let h = ptr - HEADER_SIZE;
          class_index = unat (hd_class_index (read_header (memory k) h));
          m1 = store32 (kmalloc_guard_for_header (memory k) h) 0 (memory k);
          m2 = fill_memory ptr (unat (hd_bytes (read_header m1 h))) 0xDD m1;
          m3 = store64 h KMEM_FREED_MAGIC m2
      in kmalloc_note_free (ucast (small_class_sizes ! class_index))
           (push_block class_index h (k\<lparr>memory := m3\<rparr>)))"

definition kfree :: "u64 \<Rightarrow> kmem \<Rightarrow> kmem option" where
  "kfree ptr k =
     (if ptr = 0 then Some k
      else let h = ptr - HEADER_SIZE; hdr = read_header (memory k) h
           in if hd_magic hdr \<noteq> KMEM_ALLOC_MAGIC
              then if hd_magic hdr = KMEM_FREED_MAGIC then Some (k\<lparr>double_frees := double_frees k + 1\<rparr>)
                   else (case small_free_list_contains h k of None \<Rightarrow> None
                         | Some True \<Rightarrow> Some (k\<lparr>double_frees := double_frees k + 1\<rparr>)
                         | Some False \<Rightarrow> Some (k\<lparr>invalid_frees := invalid_frees k + 1\<rparr>))
              else let k1 = (if load32 (memory k) (kmalloc_guard_for_header (memory k) h) \<noteq> KMEM_GUARD_MAGIC
                             then k\<lparr>guard_failures := guard_failures k + 1\<rparr> else k)
                   in if hd_class_index hdr = 0xffff then Some (kfree_large ptr k1)
                      else if unat (hd_class_index hdr) < KMEM_SMALL_CLASS_COUNT
                      then Some (kfree_small ptr k1)
                      else Some (k1\<lparr>invalid_frees := invalid_frees k1 + 1\<rparr>))"

definition kmalloc_size :: "u64 \<Rightarrow> kmem \<Rightarrow> u32" where
  "kmalloc_size ptr k =
     (if ptr = 0 then 0
      else let h = ptr - HEADER_SIZE; hdr = read_header (memory k) h
           in if hd_magic hdr \<noteq> KMEM_ALLOC_MAGIC then 0
              else if load32 (memory k) (kmalloc_guard_for_header (memory k) h) \<noteq> KMEM_GUARD_MAGIC then 0
              else hd_bytes hdr)"

definition kmem_heap_used_bytes :: "kmem \<Rightarrow> u64" where "kmem_heap_used_bytes k = heap_used_bytes k"

subsection \<open>Statistics\<close>

record kmem_stats_t =
  ks_total_pages :: u64
  ks_free_pages :: u64
  ks_heap_used_bytes :: u64
  ks_small_free_blocks :: u64
  ks_free_ranges :: u64
  ks_largest_free_range_pages :: u64
  ks_smallest_free_range_pages :: u64
  ks_allocation_failures :: u64
  ks_fragmentation_percent :: u32
  ks_allocation_count :: u64
  ks_free_count :: u64
  ks_live_allocations :: u64
  ks_peak_live_allocations :: u64
  ks_invalid_frees :: u64
  ks_double_frees :: u64
  ks_guard_failures :: u64

fun range_extremes :: "u64 \<Rightarrow> u64 \<Rightarrow> page_range_t list \<Rightarrow> u64 \<times> u64" where
  "range_extremes largest smallest [] = (largest, smallest)"
| "range_extremes largest smallest (r # rs) =
     range_extremes (if pr_pages r > largest then pr_pages r else largest)
       (if smallest = 0 \<or> pr_pages r < smallest then pr_pages r else smallest) rs"

partial_function (option) chain_count :: "memory \<Rightarrow> u64 \<Rightarrow> u64 \<Rightarrow> u64 option" where
  "chain_count m n it = (if it = 0 then Some n else chain_count m (n + 1) (load64 m it))"

declare chain_count.simps [code]

fun chains_count :: "memory \<Rightarrow> u64 \<Rightarrow> u64 list \<Rightarrow> u64 option" where
  "chains_count m n [] = Some n"
| "chains_count m n (h # hs) =
     (case chain_count m n h of None \<Rightarrow> None | Some n' \<Rightarrow> chains_count m n' hs)"

definition kmem_get_stats :: "kmem \<Rightarrow> kmem_stats_t option" where
  "kmem_get_stats k =
     (let (largest, smallest) = range_extremes 0 0 (free_ranges k)
      in case chains_count (memory k) 0 (small_free k) of None \<Rightarrow> None
         | Some small_blocks \<Rightarrow> Some
             \<lparr>ks_total_pages = total_page_count k, ks_free_pages = free_page_count k,
              ks_heap_used_bytes = heap_used_bytes k, ks_small_free_blocks = small_blocks,
              ks_free_ranges = word_of_nat (length (free_ranges k)),
              ks_largest_free_range_pages = largest, ks_smallest_free_range_pages = smallest,
              ks_allocation_failures = allocation_failures k,
              ks_fragmentation_percent =
                (if free_page_count k = 0 \<or> largest \<ge> free_page_count k then 0
                 else ucast (((free_page_count k - largest) * 100) div free_page_count k)),
              ks_allocation_count = allocation_count k, ks_free_count = free_count k,
              ks_live_allocations = live_allocations k,
              ks_peak_live_allocations = peak_live_allocations k,
              ks_invalid_frees = invalid_frees k, ks_double_frees = double_frees k,
              ks_guard_failures = guard_failures k\<rparr>)"

definition kmem_fault_total :: "kmem_stats_t \<Rightarrow> u64" where
  "kmem_fault_total stats = ks_invalid_frees stats + ks_double_frees stats + ks_guard_failures stats"

end
