(* ===== verification/Kmem_Blocks.thy ===== *)
theory Kmem_Blocks
  imports Kmem_Heap
begin

text \<open>
  Size classes, headers, guards and free lists of the heap: the facts about a single block that
  the invariant of the heap rests on.
\<close>

subsection \<open>Size classes\<close>

definition class_bytes :: "nat \<Rightarrow> nat" where
  "class_bytes c = unat (small_class_sizes ! c)"

lemma class_cases:
  assumes "c < (8 :: nat)"
  shows "c = 0 \<or> c = 1 \<or> c = 2 \<or> c = 3 \<or> c = 4 \<or> c = 5 \<or> c = 6 \<or> c = 7"
  using assms by linarith

lemma class_bytes_pow: "c < 8 \<Longrightarrow> class_bytes c = 2 ^ (c + 5)"
  by (drule class_cases) (auto simp: class_bytes_def small_class_sizes_def)

lemma class_bytes_bounds:
  assumes "c < 8"
  shows "32 \<le> class_bytes c" "class_bytes c \<le> 4096" "32 dvd class_bytes c" "class_bytes c dvd 4096"
  using class_cases [OF assms] by (auto simp: class_bytes_pow)

lemma class_scan_Some:
  "class_scan i need ss = Some c \<Longrightarrow>
     i \<le> c \<and> c < i + length ss \<and> need \<le> ss ! (c - i) \<and> (\<forall>j. i \<le> j \<and> j < c \<longrightarrow> ss ! (j - i) < need)"
proof (induction ss arbitrary: i)
  case (Cons s ss)
  show ?case
  proof (cases "need \<le> s")
    case True
    then show ?thesis using Cons.prems by auto
  next
    case False
    then have IH: "Suc i \<le> c \<and> c < Suc i + length ss \<and> need \<le> ss ! (c - Suc i) \<and>
        (\<forall>j. Suc i \<le> j \<and> j < c \<longrightarrow> ss ! (j - Suc i) < need)"
      using Cons.IH [of "Suc i"] Cons.prems by simp
    have "(s # ss) ! (j - i) < need" if "i \<le> j" "j < c" for j
      using that IH False by (cases "j = i") (auto simp: nth_Cons' not_le)
    moreover have "(s # ss) ! (c - i) = ss ! (c - Suc i)" using IH by (simp add: nth_Cons')
    ultimately show ?thesis using IH by simp
  qed
qed simp

lemma class_scan_None: "class_scan i need ss = None \<longleftrightarrow> (\<forall>s \<in> set ss. s < need)"
  by (induction ss arbitrary: i) (auto simp: not_le)

lemma unat_overhead: "n \<le> 0xffffffff - 28 \<Longrightarrow> unat (n + 28 :: u32) = unat n + 28"
  by (simp add: word_le_nat_alt unat_word_ariths)

lemma class_for_size_Some:
  assumes "class_for_size n = Some c"
  shows "c < 8" and "unat n + 28 \<le> class_bytes c" and "\<forall>j < c. class_bytes j < unat n + 28"
proof -
  have n: "n \<le> 0xffffffff - 28" and s: "class_scan 0 (n + 28) small_class_sizes = Some c"
    using assms by (simp_all add: class_for_size_def not_less split: if_splits)
  note u = unat_overhead [OF n]
  have "c < 8" "n + 28 \<le> small_class_sizes ! c" "\<forall>j < c. small_class_sizes ! j < n + 28"
    using class_scan_Some [OF s] by (auto simp: small_class_sizes_def)
  then show "c < 8" "unat n + 28 \<le> class_bytes c" "\<forall>j < c. class_bytes j < unat n + 28"
    by (simp_all add: word_le_nat_alt word_less_nat_alt u class_bytes_def)
qed

lemma class_for_size_None: "class_for_size n = None \<longleftrightarrow> 4096 < unat n + 28"
proof (cases "n \<le> 0xffffffff - 28")
  case True
  then have "class_for_size n = None \<longleftrightarrow> class_scan 0 (n + 28) small_class_sizes = None"
    by (auto simp: class_for_size_def)
  also have "\<dots> \<longleftrightarrow> 4096 < unat (n + 28)"
    unfolding class_scan_None by (auto simp: small_class_sizes_def word_less_nat_alt)
  finally show ?thesis by (simp add: unat_overhead [OF True])
next
  case False
  then show ?thesis by (auto simp: class_for_size_def word_le_nat_alt word_less_nat_alt)
qed

subsection \<open>Headers\<close>

definition bytes_of_header :: "kmalloc_header_t \<Rightarrow> bytes" where
  "bytes_of_header h =
     bytes64 (hd_magic h) @ bytes32 (hd_bytes h) @ bytes32 (hd_allocated_bytes h) @
     bytes16 (hd_class_index h) @ bytes16 (hd_page_count h) @ bytes32 (hd_reserved h)"

lemma length_bytes_of_header [simp]: "length (bytes_of_header h) = 24"
  by (simp add: bytes_of_header_def)

lemma write_header_bytes: "write_header h hdr m = store_bytes h (bytes_of_header hdr) m"
  by (simp add: write_header_def bytes_of_header_def store_bytes_append store64_def store32_def store16_def Let_def
      add.commute)

lemma read_header_bytes:
  assumes "bs = load_bytes m h 24"
  shows "read_header m h =
    \<lparr>hd_magic = le64 (slice 0 8 bs), hd_bytes = le32 (slice 8 4 bs), hd_allocated_bytes = le32 (slice 12 4 bs),
     hd_class_index = le16 (slice 16 2 bs), hd_page_count = le16 (slice 18 2 bs), hd_reserved = le32 (slice 20 4 bs)\<rparr>"
  using load_bytes_slice [of 0 8 24 m h] load_bytes_slice [of 8 4 24 m h] load_bytes_slice [of 12 4 24 m h]
    load_bytes_slice [of 16 2 24 m h] load_bytes_slice [of 18 2 24 m h] load_bytes_slice [of 20 4 24 m h]
  by (simp add: read_header_def load64_def load32_def load16_def assms)

lemma header_slices:
  "slice 0 8 (bytes_of_header h) = bytes64 (hd_magic h)" "slice 8 4 (bytes_of_header h) = bytes32 (hd_bytes h)"
  "slice 12 4 (bytes_of_header h) = bytes32 (hd_allocated_bytes h)"
  "slice 16 2 (bytes_of_header h) = bytes16 (hd_class_index h)"
  "slice 18 2 (bytes_of_header h) = bytes16 (hd_page_count h)"
  "slice 20 4 (bytes_of_header h) = bytes32 (hd_reserved h)"
  by (simp_all add: bytes_of_header_def slice_append_right slice_append_left)

lemma read_write_header:
  assumes "in_space h 24"
  shows "read_header (write_header h hdr m) h = hdr"
proof -
  have "load_bytes (write_header h hdr m) h 24 = bytes_of_header hdr"
    using assms by (simp add: write_header_bytes load_bytes_store_same)
  then show ?thesis by (simp add: read_header_bytes header_slices)
qed

lemma read_header_frame:
  assumes "only_in X m m'" and "in_space h 24" and "region h 24 \<inter> X = {}"
  shows "read_header m' h = read_header m h"
  using only_in_load [OF assms] read_header_bytes [OF HOL.refl, of m h] read_header_bytes [OF HOL.refl, of m' h] by simp

lemma load64_frame:
  assumes "only_in X m m'" and "in_space a 8" and "region a 8 \<inter> X = {}"
  shows "load64 m' a = load64 m a"
  using only_in_load [OF assms] by (simp add: load64_def)

lemma load32_frame:
  assumes "only_in X m m'" and "in_space a 4" and "region a 4 \<inter> X = {}"
  shows "load32 m' a = load32 m a"
  using only_in_load [OF assms] by (simp add: load32_def)

lemma load_store_64: "in_space a 8 \<Longrightarrow> load64 (store64 a v m) a = v"
  by (simp add: load64_def store64_def load_bytes_store_same)

lemma load_store_32: "in_space a 4 \<Longrightarrow> load32 (store32 a v m) a = v"
  by (simp add: load32_def store32_def load_bytes_store_same)

lemma only_in_store64: "in_space a 8 \<Longrightarrow> region a 8 \<subseteq> X \<Longrightarrow> only_in X m m' \<Longrightarrow> only_in X m (store64 a v m')"
  unfolding store64_def by (rule only_in_store) simp_all

lemma only_in_store32: "in_space a 4 \<Longrightarrow> region a 4 \<subseteq> X \<Longrightarrow> only_in X m m' \<Longrightarrow> only_in X m (store32 a v m')"
  unfolding store32_def by (rule only_in_store) simp_all

lemma only_in_fill: "in_space a n \<Longrightarrow> region a n \<subseteq> X \<Longrightarrow> only_in X m m' \<Longrightarrow> only_in X m (fill_memory a n v m')"
  unfolding fill_memory_def by (rule only_in_store) simp_all

lemma only_in_header:
  "in_space h 24 \<Longrightarrow> region h 24 \<subseteq> X \<Longrightarrow> only_in X m m' \<Longrightarrow> only_in X m (write_header h hdr m')"
  unfolding write_header_bytes by (rule only_in_store) simp_all

lemma only_in_zero: "in_space a n \<Longrightarrow> only_in (region a n) m (zero_memory a n m)"
  by (simp add: only_in_def zero_memory_apply)

subsection \<open>Free lists\<close>

fun chain :: "memory \<Rightarrow> u64 \<Rightarrow> u64 list \<Rightarrow> bool" where
  "chain m a [] \<longleftrightarrow> a = 0"
| "chain m a (b # bs) \<longleftrightarrow> a = b \<and> b \<noteq> 0 \<and> chain m (load64 m b) bs"

lemma chain_frame:
  assumes "chain m a bs" and "only_in X m m'" and "\<forall>b \<in> set bs. in_space b 8 \<and> region b 8 \<inter> X = {}"
  shows "chain m' a bs"
  using assms by (induction bs arbitrary: a) (auto simp: load64_frame)

lemma chain_contains_decides:
  "chain m a bs \<Longrightarrow> chain_contains m b a = Some (b \<in> set bs \<and> b \<noteq> 0)"
proof (induction bs arbitrary: a)
  case Nil
  then show ?case by (subst chain_contains.simps) simp
next
  case (Cons c bs)
  then show ?case by (subst chain_contains.simps) auto
qed

lemma chain_count_length: "chain m a bs \<Longrightarrow> chain_count m n a = Some (n + word_of_nat (length bs))"
proof (induction bs arbitrary: a n)
  case Nil
  then show ?case by (subst chain_count.simps) simp
next
  case (Cons c bs)
  then show ?case by (subst chain_count.simps) (simp add: add.assoc)
qed

lemma chain_nonzero: "chain m a bs \<Longrightarrow> 0 \<notin> set bs"
  by (induction bs arbitrary: a) auto

lemma chain_head: "chain m a bs \<Longrightarrow> a \<noteq> 0 \<Longrightarrow> \<exists>cs. bs = a # cs \<and> chain m (load64 m a) cs"
  by (cases bs) auto

lemma chain_zero: "chain m 0 bs \<longleftrightarrow> bs = []"
  by (cases bs) auto

end
