(* ===== verification/Kmem_Heap_Inv.thy ===== *)
theory Kmem_Heap_Inv
  imports Kmem_Blocks
begin

text \<open>
  The invariant of the heap. A ghost state names the blocks on the free lists (\<open>fl\<close>, per class)
  and the live allocations (\<open>L\<close>, header address and requested bytes). All these blocks are apart
  from each other and from the free pages; the free lists in memory are the ghost lists; every
  live block has its header and its guard.
\<close>

subsection \<open>Requests\<close>

definition large_pages :: "u32 \<Rightarrow> u32" where
  "large_pages n = (n + 28 + 4096 - 1) div 4096"

definition allocatable :: "u32 \<Rightarrow> bool" where
  "allocatable n \<longleftrightarrow> n \<noteq> 0 \<and> (class_for_size n = None \<longrightarrow> n \<le> 0xffffffff - 28 - 4095 \<and> large_pages n \<le> 0xffff)"

definition block_bytes :: "u32 \<Rightarrow> nat" where
  "block_bytes n = (case class_for_size n of Some c \<Rightarrow> class_bytes c | None \<Rightarrow> unat (large_pages n) * 4096)"

definition live_header :: "u32 \<Rightarrow> kmalloc_header_t" where
  "live_header n =
     (case class_for_size n of
        Some c \<Rightarrow> \<lparr>hd_magic = KMEM_ALLOC_MAGIC, hd_bytes = n, hd_allocated_bytes = small_class_sizes ! c,
                   hd_class_index = word_of_nat c, hd_page_count = 0, hd_reserved = 0\<rparr>
      | None \<Rightarrow> \<lparr>hd_magic = KMEM_ALLOC_MAGIC, hd_bytes = n, hd_allocated_bytes = large_pages n * 4096,
                 hd_class_index = 0xffff, hd_page_count = ucast (large_pages n), hd_reserved = 0\<rparr>)"

lemma unat_large_pages:
  assumes "n \<le> 0xffffffff - 28 - 4095"
  shows "unat (large_pages n) = (unat n + 4123) div 4096"
proof -
  have "unat (n + 4123 :: u32) = unat n + 4123" using assms by (simp add: word_le_nat_alt unat_word_ariths)
  then have "unat (4123 + n) = unat n + 4123" by (simp only: add.commute)
  then show ?thesis by (simp add: large_pages_def unat_div)
qed

lemma block_fits: "allocatable n \<Longrightarrow> unat n + 28 \<le> block_bytes n"
proof (cases "class_for_size n")
  case None
  assume "allocatable n"
  then have "n \<le> 0xffffffff - 28 - 4095" using None by (simp add: allocatable_def)
  then have "block_bytes n = (unat n + 4123) div 4096 * 4096"
    using None unat_large_pages by (simp add: block_bytes_def)
  then show ?thesis using div_mult_mod_eq [of "unat n + 4123" 4096] mod_less_divisor [of 4096 "unat n + 4123"] by linarith
next
  case (Some c)
  then show ?thesis using class_for_size_Some(2) [OF Some] by (simp add: block_bytes_def)
qed

lemma live_header_fields [simp]:
  "hd_magic (live_header n) = KMEM_ALLOC_MAGIC" "hd_bytes (live_header n) = n"
  by (simp_all add: live_header_def split: option.split)

subsection \<open>Layout\<close>

definition reg :: "u64 \<times> nat \<Rightarrow> nat set" where
  "reg x = region (fst x) (snd x)"

definition blk_ok :: "u64 \<times> nat \<Rightarrow> bool" where
  "blk_ok x \<longleftrightarrow> fst x \<noteq> 0 \<and> 32 dvd unat (fst x) \<and> 32 \<le> snd x \<and> in_space (fst x) (snd x)"

definition layout :: "nat set \<Rightarrow> (u64 \<times> nat) set \<Rightarrow> bool" where
  "layout F B \<longleftrightarrow> (\<forall>x \<in> B. blk_ok x \<and> reg x \<inter> F = {}) \<and> (\<forall>x \<in> B. \<forall>y \<in> B. x \<noteq> y \<longrightarrow> reg x \<inter> reg y = {})"

lemma layout_sub: "layout F B \<Longrightarrow> B' \<subseteq> B \<Longrightarrow> F' \<subseteq> F \<Longrightarrow> layout F' B'"
  unfolding layout_def by blast

lemma layout_add:
  assumes "layout F B" and "P \<subseteq> F" and "\<forall>x \<in> N. blk_ok x \<and> reg x \<subseteq> P"
    and "\<forall>x \<in> N. \<forall>y \<in> N. x \<noteq> y \<longrightarrow> reg x \<inter> reg y = {}"
  shows "layout (F - P) (B \<union> N)"
proof -
  have "reg x \<inter> reg y = {}" if "x \<in> B" "y \<in> N" for x y
    using assms(1-3) that unfolding layout_def by blast
  then show ?thesis using assms unfolding layout_def by (simp add: ball_Un) blast
qed

lemma layout_release:
  assumes "layout F B" and "x \<in> B"
  shows "layout (F \<union> reg x) (B - {x})"
  using assms unfolding layout_def by blast

subsection \<open>The invariant\<close>

definition free_blocks :: "(nat \<Rightarrow> u64 list) \<Rightarrow> (u64 \<times> nat) set" where
  "free_blocks fl = (\<Union>c < 8. (\<lambda>b. (b, class_bytes c)) ` set (fl c))"

definition live_blocks :: "(u64 \<times> u32) set \<Rightarrow> (u64 \<times> nat) set" where
  "live_blocks L = (\<lambda>(h, n). (h, block_bytes n)) ` L"

definition live_at :: "memory \<Rightarrow> u64 \<Rightarrow> u32 \<Rightarrow> bool" where
  "live_at m h n \<longleftrightarrow> read_header m h = live_header n \<and> load32 m (h + 24 + ucast n) = KMEM_GUARD_MAGIC"

definition heap_inv :: "kmem \<Rightarrow> (nat \<Rightarrow> u64 list) \<Rightarrow> (u64 \<times> u32) set \<Rightarrow> bool" where
  "heap_inv k fl L \<longleftrightarrow> kmem_ok k \<and> length (small_free k) = 8 \<and>
     (\<forall>c < 8. chain (memory k) (small_free k ! c) (fl c) \<and> distinct (fl c)) \<and>
     layout (free_set k) (free_blocks fl \<union> live_blocks L) \<and> free_blocks fl \<inter> live_blocks L = {} \<and>
     (\<forall>(h, n) \<in> L. allocatable n \<and> live_at (memory k) h n \<and> (class_for_size n = None \<longrightarrow> 4096 dvd unat h))"

lemma heap_invD:
  assumes "heap_inv k fl L"
  shows "kmem_ok k" "length (small_free k) = 8"
    "\<And>c. c < 8 \<Longrightarrow> chain (memory k) (small_free k ! c) (fl c)" "\<And>c. c < 8 \<Longrightarrow> distinct (fl c)"
    "layout (free_set k) (free_blocks fl \<union> live_blocks L)" "free_blocks fl \<inter> live_blocks L = {}"
    "\<And>h n. (h, n) \<in> L \<Longrightarrow> allocatable n" "\<And>h n. (h, n) \<in> L \<Longrightarrow> live_at (memory k) h n"
    "\<And>h n. (h, n) \<in> L \<Longrightarrow> class_for_size n = None \<Longrightarrow> 4096 dvd unat h"
  using assms unfolding heap_inv_def by auto

lemma heap_invI:
  assumes "kmem_ok k" "length (small_free k) = 8"
    "\<And>c. c < 8 \<Longrightarrow> chain (memory k) (small_free k ! c) (fl c)" "\<And>c. c < 8 \<Longrightarrow> distinct (fl c)"
    "layout (free_set k) (free_blocks fl \<union> live_blocks L)" "free_blocks fl \<inter> live_blocks L = {}"
    "\<And>h n. (h, n) \<in> L \<Longrightarrow> allocatable n" "\<And>h n. (h, n) \<in> L \<Longrightarrow> live_at (memory k) h n"
    "\<And>h n. (h, n) \<in> L \<Longrightarrow> class_for_size n = None \<Longrightarrow> 4096 dvd unat h"
  shows "heap_inv k fl L"
  using assms unfolding heap_inv_def by auto

lemma mem_free_blocks: "(b, s) \<in> free_blocks fl \<longleftrightarrow> (\<exists>c < 8. s = class_bytes c \<and> b \<in> set (fl c))"
  by (auto simp: free_blocks_def)

lemma free_blockI: "c < 8 \<Longrightarrow> b \<in> set (fl c) \<Longrightarrow> (b, class_bytes c) \<in> free_blocks fl"
  by (auto simp: free_blocks_def)

lemma live_blockI: "(h, n) \<in> L \<Longrightarrow> (h, block_bytes n) \<in> live_blocks L"
  by (force simp: live_blocks_def)

subsection \<open>What a change inside one region leaves alone\<close>

lemma layout_apart:
  assumes "layout F B" and "x \<in> B" and "X \<subseteq> F \<or> (\<exists>y \<in> B. y \<noteq> x \<and> X \<subseteq> reg y)"
  shows "reg x \<inter> X = {}"
  using assms unfolding layout_def by blast

lemma reg_front: "k \<le> snd x \<Longrightarrow> region (fst x) k \<subseteq> reg x"
  by (simp add: reg_def region_le)

lemma chain_keep:
  assumes "chain m a bs" and "only_in X m m'" and "\<forall>b \<in> set bs. blk_ok (b, s) \<and> reg (b, s) \<inter> X = {}"
  shows "chain m' a bs"
proof (rule chain_frame [OF assms(1,2)], intro ballI conjI)
  fix b
  assume "b \<in> set bs"
  then have b: "blk_ok (b, s)" "reg (b, s) \<inter> X = {}" using assms(3) by auto
  then show "in_space b 8" by (auto simp: blk_ok_def intro: in_space_le)
  show "region b 8 \<inter> X = {}" using b reg_front [of 8 "(b, s)"] by (auto simp: blk_ok_def)
qed

lemma live_parts:
  assumes "allocatable n" and "blk_ok (h, block_bytes n)"
  shows "in_space h 24" "region h 24 \<subseteq> reg (h, block_bytes n)"
    "in_space (h + 24) (unat n)" "region (h + 24) (unat n) \<subseteq> reg (h, block_bytes n)"
    "in_space (h + 24 + ucast n) 4" "region (h + 24 + ucast n) 4 \<subseteq> reg (h, block_bytes n)"
    "unat (h + 24) = unat h + 24" "unat (h + 24 + ucast n) = unat h + 24 + unat n"
proof -
  have f: "unat n + 28 \<le> block_bytes n" by (rule block_fits [OF assms(1)])
  have s: "in_space h (block_bytes n)" using assms(2) by (simp add: blk_ok_def)
  have w: "h + 24 + ucast n = h + word_of_nat (24 + unat n)"
  proof -
    have "(ucast n :: u64) = word_of_nat (unat n)" by simp
    then show ?thesis by simp
  qed
  have a: "h + 24 = h + word_of_nat 24" by simp
  show "in_space h 24" using s f by (auto intro: in_space_le)
  show "region h 24 \<subseteq> reg (h, block_bytes n)" using f by (simp add: reg_def region_le)
  show "in_space (h + 24) (unat n)" unfolding a using f by (intro in_space_part [OF _ s]) simp
  show "region (h + 24) (unat n) \<subseteq> reg (h, block_bytes n)" unfolding a reg_def fst_conv snd_conv using f by (intro region_mono [OF _ s]) simp
  show "in_space (h + 24 + ucast n) 4" unfolding w using f by (intro in_space_part [OF _ s]) simp
  show "region (h + 24 + ucast n) 4 \<subseteq> reg (h, block_bytes n)"
    unfolding w reg_def fst_conv snd_conv using f by (intro region_mono [OF _ s]) simp
  show "unat (h + 24) = unat h + 24" unfolding a using s f by (intro unat_add_small) (simp add: in_space_def)
  show "unat (h + 24 + ucast n) = unat h + 24 + unat n"
    unfolding w using s f unat_add_small [of h "24 + unat n"] by (simp add: in_space_def)
qed

lemma live_keep:
  assumes "live_at m h n" and "only_in X m m'" and "allocatable n" and "blk_ok (h, block_bytes n)"
    and "reg (h, block_bytes n) \<inter> X = {}"
  shows "live_at m' h n"
proof -
  note p = live_parts [OF assms(3,4)]
  have "region h 24 \<inter> X = {}" "region (h + 24 + ucast n) 4 \<inter> X = {}" using p(2,6) assms(5) by auto
  then show ?thesis
    using assms(1) read_header_frame [OF assms(2) p(1)] load32_frame [OF assms(2) p(5)] by (simp add: live_at_def)
qed

lemma heap_frame:
  assumes inv: "heap_inv k fl L" and k': "kmem_ok k'" "small_free k' = small_free k"
    and lay: "layout (free_set k') (free_blocks fl \<union> live_blocks L)"
    and mem: "only_in X (memory k) (memory k')" and X: "\<forall>x \<in> free_blocks fl \<union> live_blocks L. reg x \<inter> X = {}"
  shows "heap_inv k' fl L"
proof -
  have ok: "\<forall>x \<in> free_blocks fl \<union> live_blocks L. blk_ok x" using heap_invD(5) [OF inv] by (simp add: layout_def)
  have "chain (memory k') (small_free k' ! c) (fl c)" if c: "c < 8" for c
    using ok X free_blockI [OF c, of _ fl] unfolding k'(2)
    by (intro chain_keep [OF heap_invD(3) [OF inv c] mem, of "class_bytes c"]) blast
  moreover have "live_at (memory k') h n" if "(h, n) \<in> L" for h n
    using ok X live_blockI [OF that] by (intro live_keep [OF heap_invD(8) [OF inv that] mem heap_invD(7) [OF inv that]]) blast+
  ultimately show ?thesis using inv k' lay unfolding heap_inv_def by (auto simp: case_prod_unfold)
qed

end
