(* ===== verification/Kmem_Heap_Ops.thy ===== *)
theory Kmem_Heap_Ops
  imports Kmem_Heap_Inv
begin

text \<open>The operations of the heap keep its invariant, and what they return.\<close>

subsection \<open>Giving a block to a free list\<close>

lemma class_bytes_inj: "c < 8 \<Longrightarrow> d < 8 \<Longrightarrow> class_bytes c = class_bytes d \<Longrightarrow> c = d"
  by (simp add: class_bytes_pow)

lemma free_blocks_push:
  assumes "c < 8"
  shows "free_blocks (fl(c := b # fl c)) = insert (b, class_bytes c) (free_blocks fl)"
proof (rule set_eqI)
  fix x :: "u64 \<times> nat"
  obtain a s where x: "x = (a, s)" by force
  show "x \<in> free_blocks (fl(c := b # fl c)) \<longleftrightarrow> x \<in> insert (b, class_bytes c) (free_blocks fl)"
    using assms unfolding x by (auto simp: mem_free_blocks split: if_splits)
qed

lemma free_blocks_pop:
  assumes "c < 8" and "fl c = b # bs" and "distinct (fl c)"
  shows "free_blocks (fl(c := bs)) = free_blocks fl - {(b, class_bytes c)}"
proof (rule set_eqI)
  fix x :: "u64 \<times> nat"
  obtain a s where x: "x = (a, s)" by force
  have *: "d = c" if "d < 8" "class_bytes d = class_bytes c" for d
    using class_bytes_inj [OF that(1) assms(1) that(2)] .
  have b: "b \<notin> set bs" using assms(2,3) by simp
  show "x \<in> free_blocks (fl(c := bs)) \<longleftrightarrow> x \<in> free_blocks fl - {(b, class_bytes c)}"
  proof
    assume "x \<in> free_blocks (fl(c := bs))"
    then obtain d where d: "d < 8" "s = class_bytes d" "a \<in> set ((fl(c := bs)) d)" unfolding x mem_free_blocks by blast
    then show "x \<in> free_blocks fl - {(b, class_bytes c)}"
      using assms(2) b * [of d] unfolding x by (cases "d = c") (auto simp: mem_free_blocks)
  next
    assume "x \<in> free_blocks fl - {(b, class_bytes c)}"
    then obtain d where d: "d < 8" "s = class_bytes d" "a \<in> set (fl d)" "(a, s) \<noteq> (b, class_bytes c)"
      unfolding x Diff_iff mem_free_blocks by blast
    then have "a \<in> set ((fl(c := bs)) d)" using assms(2) by (cases "d = c") auto
    then show "x \<in> free_blocks (fl(c := bs))" using d(1,2) unfolding x mem_free_blocks by blast
  qed
qed

lemma heap_inv_less: "heap_inv k fl L \<Longrightarrow> heap_inv k fl (L - S)"
proof -
  assume inv: "heap_inv k fl L"
  have sub: "live_blocks (L - S) \<subseteq> live_blocks L" by (auto simp: live_blocks_def)
  then have "layout (free_set k) (free_blocks fl \<union> live_blocks (L - S))"
    by (intro layout_sub [OF heap_invD(5) [OF inv]]) auto
  then show ?thesis
    using heap_invD [OF inv] sub by (intro heap_invI) auto
qed

lemma push_block_inv:
  assumes inv: "heap_inv k fl L" and c: "c < 8" and b: "blk_ok (b, class_bytes c)"
    and F: "reg (b, class_bytes c) \<inter> free_set k = {}"
    and B: "\<forall>x \<in> free_blocks fl \<union> live_blocks L. reg x \<inter> reg (b, class_bytes c) = {}"
  shows "heap_inv (push_block c b k) (fl(c := b # fl c)) L"
proof -
  let ?x = "(b, class_bytes c)" and ?m = "store64 b (small_free k ! c) (memory k)"
  have s8: "in_space b 8" "region b 8 \<subseteq> reg ?x"
    using b reg_front [of 8 ?x] by (auto simp: blk_ok_def intro: in_space_le)
  have mem: "only_in (reg ?x) (memory k) ?m" using s8 by (intro only_in_store64) simp_all
  have ne: "reg ?x \<noteq> {}" using b by (auto simp: blk_ok_def reg_def region_def)
  have new: "?x \<notin> free_blocks fl \<union> live_blocks L" using B ne by blast
  have "heap_inv (k\<lparr>memory := ?m\<rparr>) fl L"
  proof (rule heap_frame [OF inv _ _ _ _ B])
    show "kmem_ok (k\<lparr>memory := ?m\<rparr>)" using heap_invD(1) [OF inv] by (simp add: kmem_ok_def)
    show "layout (free_set (k\<lparr>memory := ?m\<rparr>)) (free_blocks fl \<union> live_blocks L)"
      using heap_invD(5) [OF inv] by (simp add: free_set_def)
  qed (use mem in simp_all)
  note inv' = heap_invD [OF this]
  have ch: "chain ?m b (b # fl c)"
    using inv'(3) [OF c] b s8 by (simp add: load_store_64 blk_ok_def)
  have lay: "layout (free_set k) (free_blocks (fl(c := b # fl c)) \<union> live_blocks L)"
    using inv'(5) b F B unfolding free_blocks_push [OF c] layout_def by (auto simp: free_set_def)
  have "b \<notin> set (fl c)" using new free_blockI [OF c, of b fl] by blast
  then have "chain ?m ((small_free k)[c := b] ! d) ((fl(c := b # fl c)) d) \<and> distinct ((fl(c := b # fl c)) d)" if "d < 8" for d
    using inv'(2,3,4) that ch c by (cases "d = c") auto
  moreover have "free_blocks (fl(c := b # fl c)) \<inter> live_blocks L = {}"
    using inv'(6) new by (auto simp: free_blocks_push [OF c])
  ultimately show ?thesis
    using lay inv'(1,2) inv'(7-9) unfolding push_block_def
    by (intro heap_invI) (simp_all add: kmem_ok_def free_set_def)
qed

subsection \<open>Populating a class\<close>

definition slot_addr :: "u64 \<Rightarrow> nat \<Rightarrow> nat \<Rightarrow> u64" where
  "slot_addr page s i = page + word_of_nat (i * s)"

lemma slot_in_page:
  assumes "c < 8" and "i < 4096 div class_bytes c" and "in_space page 4096" and "4096 dvd unat page" and "page \<noteq> 0"
  shows "blk_ok (slot_addr page (class_bytes c) i, class_bytes c)"
    and "reg (slot_addr page (class_bytes c) i, class_bytes c) = {unat page + i * class_bytes c..<unat page + Suc i * class_bytes c}"
    and "unat page + Suc i * class_bytes c \<le> unat page + 4096"
proof -
  note s = class_bytes_bounds [OF assms(1)]
  have "Suc i * class_bytes c \<le> 4096 div class_bytes c * class_bytes c" using assms(2) by (intro mult_le_mono1) simp
  also have "\<dots> = 4096" using s(4) by simp
  finally have le: "Suc i * class_bytes c \<le> 4096" .
  then show "unat page + Suc i * class_bytes c \<le> unat page + 4096" by simp
  have u: "unat (slot_addr page (class_bytes c) i) = unat page + i * class_bytes c"
    unfolding slot_addr_def using le assms(3) s(1) by (intro unat_add_small) (simp add: in_space_def)
  then show "reg (slot_addr page (class_bytes c) i, class_bytes c) = {unat page + i * class_bytes c..<unat page + Suc i * class_bytes c}"
    by (simp add: reg_def region_def add.assoc add.commute [of "i * class_bytes c"])
  have "32 dvd (4096 :: nat)" by simp
  then have "32 dvd unat page" using assms(4) by (rule dvd_trans)
  moreover have "slot_addr page (class_bytes c) i \<noteq> 0" using u assms(5) by (metis add_eq_0_iff_both_eq_0 unat_eq_0)
  ultimately show "blk_ok (slot_addr page (class_bytes c) i, class_bytes c)"
    using u s(1,3) le assms(3) by (simp add: blk_ok_def in_space_def dvd_add dvd_mult)
qed

lemma push_slots_inv:
  assumes inv: "heap_inv k fl L" and c: "c < 8" and page: "in_space page 4096" "4096 dvd unat page" "page \<noteq> 0"
    and F: "region page 4096 \<inter> free_set k = {}" and B: "\<forall>x \<in> free_blocks fl \<union> live_blocks L. reg x \<inter> region page 4096 = {}"
    and j: "j \<le> 4096 div class_bytes c"
  defines "P \<equiv> \<lambda>i. push_block c (page + word_of_nat (i * class_bytes c))"
  shows "heap_inv (fold P [0..<j] k) (fl(c := rev (map (slot_addr page (class_bytes c)) [0..<j]) @ fl c)) L \<and>
    free_set (fold P [0..<j] k) = free_set k"
  using j
proof (induction j)
  case 0
  then show ?case using inv by simp
next
  case (Suc j)
  let ?s = "class_bytes c" and ?b = "slot_addr page (class_bytes c) j"
  let ?fl = "fl(c := rev (map (slot_addr page (class_bytes c)) [0..<j]) @ fl c)" and ?k = "fold P [0..<j] k"
  have "j \<le> 4096 div ?s" using Suc.prems by simp
  then have ih: "heap_inv ?k ?fl L" "free_set ?k = free_set k" using Suc.IH by blast+
  have jl: "j < 4096 div ?s" using Suc.prems by simp
  note b = slot_in_page [OF c jl page]
  have sub: "reg (?b, ?s) \<subseteq> region page 4096" using b(2,3) by (auto simp: region_def)
  have "reg x \<inter> reg (?b, ?s) = {}" if x: "x \<in> free_blocks ?fl \<union> live_blocks L" for x
  proof (cases "x \<in> free_blocks fl \<union> live_blocks L")
    case True
    then show ?thesis using B sub by blast
  next
    case False
    then obtain i where i: "i < j" "x = (slot_addr page ?s i, ?s)"
      using x by (auto simp: free_blocks_def split: if_splits)
    have "Suc i * ?s \<le> j * ?s" using i(1) by (intro mult_le_mono1) simp
    then show ?thesis using slot_in_page(2) [OF c _ page, of i] i jl b(2) by (auto simp: i(2))
  qed
  then have "heap_inv (push_block c ?b ?k) (?fl(c := ?b # ?fl c)) L"
    using F sub ih(2) by (intro push_block_inv [OF ih(1) c b(1)]) auto
  moreover have "?fl(c := ?b # ?fl c) = fl(c := rev (map (slot_addr page ?s) [0..<Suc j]) @ fl c)" by simp
  moreover have "fold P [0..<Suc j] k = push_block c ?b ?k" by (simp add: P_def slot_addr_def)
  moreover have "free_set (push_block c ?b ?k) = free_set k" using ih(2) by (simp add: push_block_def free_set_def)
  ultimately show ?case by (simp only: simp_thms)
qed

lemma heap_inv_cong:
  assumes "free_ranges k' = free_ranges k" "free_page_count k' = free_page_count k" "small_free k' = small_free k"
    "memory k' = memory k"
  shows "heap_inv k' fl L = heap_inv k fl L"
  using assms by (simp add: heap_inv_def kmem_ok_def free_set_def)

text \<open>The memory of the live blocks is as it was.\<close>

definition untouched :: "(u64 \<times> u32) set \<Rightarrow> memory \<Rightarrow> memory \<Rightarrow> bool" where
  "untouched L m m' \<longleftrightarrow> only_in (- (\<Union>x \<in> live_blocks L. reg x)) m m'"

lemma untouched_refl [simp]: "untouched L m m"
  by (simp add: untouched_def)

lemma untouched_trans: "untouched L m m' \<Longrightarrow> untouched L m' m'' \<Longrightarrow> untouched L m m''"
  by (auto simp: untouched_def intro: only_in_trans)

lemma untouchedI:
  assumes "only_in X m m'" and "\<forall>x \<in> live_blocks L. reg x \<inter> X = {}"
  shows "untouched L m m'"
  unfolding untouched_def using assms(2) by (intro only_in_mono [OF assms(1)]) blast

lemma page_alloc_small_free: "page_alloc n k = (a, k') \<Longrightarrow> small_free k' = small_free k"
  by (auto simp: page_alloc_def Let_def split: if_splits option.splits)

lemma page_alloc_heap:
  assumes inv: "heap_inv k fl L" and n: "n \<noteq> 0" and res: "page_alloc n k = (a, k')" and a: "a \<noteq> 0"
  shows "heap_inv k' fl L" and "untouched L (memory k) (memory k')" and "in_space a (unat n * 4096)" and "4096 dvd unat a"
    and "region a (unat n * 4096) \<inter> free_set k' = {}"
    and "\<forall>x \<in> free_blocks fl \<union> live_blocks L. reg x \<inter> region a (unat n * 4096) = {}"
    and "region a (unat n * 4096) \<subseteq> free_set k" and "free_set k' = free_set k - region a (unat n * 4096)"
proof -
  note P = page_alloc_ok [OF heap_invD(1) [OF inv] n res a]
  have lay: "layout (free_set k) (free_blocks fl \<union> live_blocks L)" by (rule heap_invD(5) [OF inv])
  show B: "\<forall>x \<in> free_blocks fl \<union> live_blocks L. reg x \<inter> region a (unat n * 4096) = {}"
    using layout_apart [OF lay] P(2) by blast
  have mem: "only_in (region a (unat n * 4096)) (memory k) (memory k')"
    unfolding P(6) by (rule only_in_zero [OF P(5)])
  have "layout (free_set k') (free_blocks fl \<union> live_blocks L)" by (rule layout_sub [OF lay]) (auto simp: P(3))
  then show "heap_inv k' fl L"
    by (rule heap_frame [OF inv P(1) page_alloc_small_free [OF res] _ mem B])
  show "untouched L (memory k) (memory k')" using B by (intro untouchedI [OF mem]) blast
  show "in_space a (unat n * 4096)" "4096 dvd unat a" "region a (unat n * 4096) \<inter> free_set k' = {}"
    "region a (unat n * 4096) \<subseteq> free_set k" "free_set k' = free_set k - region a (unat n * 4096)" using P by auto
qed

lemma page_alloc_heap_none:
  assumes "heap_inv k fl L" and "n \<noteq> 0" and "page_alloc n k = (0, k')"
  shows "heap_inv k' fl L" "memory k' = memory k" "small_free k' = small_free k" "free_set k' = free_set k"
proof -
  have e: "k' = k\<lparr>allocation_failures := allocation_failures k + 1\<rparr>"
    by (rule page_alloc_none(1) [OF heap_invD(1) [OF assms(1)] assms(2,3)])
  then show "memory k' = memory k" "small_free k' = small_free k" "free_set k' = free_set k" by (simp_all add: free_set_def)
  show "heap_inv k' fl L" using heap_inv_cong [of k' k] assms(1) by (simp add: e)
qed

lemma memory_push_block: "memory (push_block c b k) = store64 b (small_free k ! c) (memory k)"
  by (simp add: push_block_def)

text \<open>What the populating writes touch lies in the new page.\<close>

lemma push_slots_memory:
  assumes "c < 8" and "in_space page 4096" "4096 dvd unat page" "page \<noteq> 0" and "j \<le> 4096 div class_bytes c"
  shows "only_in (region page 4096) (memory k)
    (memory (fold (\<lambda>i. push_block c (page + word_of_nat (i * class_bytes c))) [0..<j] k))"
  using assms(5)
proof (induction j)
  case (Suc j)
  let ?k = "fold (\<lambda>i. push_block c (page + word_of_nat (i * class_bytes c))) [0..<j] k"
  have j: "j < 4096 div class_bytes c" using Suc.prems by simp
  note b = slot_in_page [OF assms(1) j assms(2-4), unfolded slot_addr_def]
  have "region (page + word_of_nat (j * class_bytes c)) 8 \<subseteq> reg (page + word_of_nat (j * class_bytes c), class_bytes c)"
    using class_bytes_bounds(1) [OF assms(1)] reg_front [of 8 "(page + word_of_nat (j * class_bytes c), class_bytes c)"] by simp
  also have "\<dots> \<subseteq> region page 4096" using b(2,3) by (auto simp: region_def)
  finally have "only_in (region page 4096) (memory k)
      (store64 (page + word_of_nat (j * class_bytes c)) (small_free ?k ! c) (memory ?k))"
    using Suc b(1) by (intro only_in_store64) (auto simp: blk_ok_def intro: in_space_le)
  then show ?case by (simp add: memory_push_block)
qed simp

lemma populate_class_inv:
  assumes inv: "heap_inv k fl L" and c: "c < 8" and empty: "fl c = []"
  shows "\<exists>bs. heap_inv (populate_class c k) (fl(c := bs)) L \<and> untouched L (memory k) (memory (populate_class c k))"
proof -
  obtain page k1 where pa: "page_alloc 1 k = (page, k1)" by force
  show ?thesis
  proof (cases "page = 0")
    case True
    then have "populate_class c k = k1" by (simp add: populate_class_def pa)
    moreover have "fl(c := []) = fl" using empty by (metis fun_upd_triv)
    ultimately show ?thesis
      using page_alloc_heap_none [OF inv _ pa [unfolded True]] by (intro exI [of _ "[]"]) simp
  next
    case False
    note P = page_alloc_heap [OF inv _ pa False, simplified]
    define k2 where "k2 = fold (\<lambda>i. push_block c (page + word_of_nat (i * class_bytes c))) [0..<4096 div class_bytes c] k1"
    have e: "populate_class c k = k2"
      using False by (simp add: populate_class_def pa k2_def class_bytes_def Let_def)
    have "heap_inv k2 (fl(c := rev (map (slot_addr page (class_bytes c)) [0..<4096 div class_bytes c]) @ fl c)) L"
      using push_slots_inv [OF P(1) c P(3,4) False P(5,6) order_refl] by (simp add: k2_def)
    moreover have "untouched L (memory k1) (memory k2)"
      unfolding k2_def using P(6) by (intro untouchedI [OF push_slots_memory [OF c P(3,4) False order_refl]]) blast
    ultimately show ?thesis unfolding e using untouched_trans [OF P(2)] by blast
  qed
qed

subsection \<open>Allocation\<close>

lemma guard_for_header: "read_header m b = live_header n \<Longrightarrow> kmalloc_guard_for_header m b = b + 24 + ucast n"
  by (simp add: kmalloc_guard_for_header_def)

lemma guard_apart: "unat a = unat b + 24 + n \<Longrightarrow> region b 24 \<inter> region a 4 = {}"
  by (auto simp: region_def)

lemma payload_apart:
  assumes "allocatable n" and "blk_ok (b, block_bytes n)"
  shows "region b 24 \<inter> region (b + 24) (unat n) = {}" "region (b + 24 + ucast n) 4 \<inter> region (b + 24) (unat n) = {}"
  using live_parts(7,8) [OF assms] by (auto simp: region_def)

lemma live_at_payload:
  assumes "live_at m b n" and "allocatable n" and "blk_ok (b, block_bytes n)" and "only_in (region (b + 24) (unat n)) m m'"
  shows "live_at m' b n"
proof -
  note p = live_parts [OF assms(2,3)] and d = payload_apart [OF assms(2,3)]
  show ?thesis
    using assms(1) read_header_frame [OF assms(4) p(1) d(1)] load32_frame [OF assms(4) p(5) d(2)] by (simp add: live_at_def)
qed

lemma init_block:
  fixes m :: memory
  assumes n: "allocatable n" and b: "blk_ok (b, block_bytes n)"
  defines "m1 \<equiv> write_header b (live_header n) m"
  defines "m2 \<equiv> store32 (kmalloc_guard_for_header m1 b) KMEM_GUARD_MAGIC m1"
  shows "live_at m2 b n" and "only_in (reg (b, block_bytes n)) m m2"
proof -
  note p = live_parts [OF n b]
  have r: "read_header m1 b = live_header n" unfolding m1_def by (rule read_write_header [OF p(1)])
  have m2: "m2 = store32 (b + 24 + ucast n) KMEM_GUARD_MAGIC m1" by (simp add: m2_def guard_for_header [OF r])
  have o: "only_in (region (b + 24 + ucast n) 4) m1 m2" unfolding m2 by (rule only_in_store32 [OF p(5)]) simp_all
  have "read_header m2 b = live_header n" using read_header_frame [OF o p(1) guard_apart [OF p(8)]] r by simp
  moreover have "load32 m2 (b + 24 + ucast n) = KMEM_GUARD_MAGIC" unfolding m2 by (rule load_store_32 [OF p(5)])
  ultimately show "live_at m2 b n" by (simp add: live_at_def)
  have "only_in (reg (b, block_bytes n)) m m1" unfolding m1_def by (rule only_in_header [OF p(1,2)]) simp
  then show "only_in (reg (b, block_bytes n)) m m2" by (rule only_in_trans) (rule only_in_mono [OF o p(6)])
qed

lemma live_blocks_insert: "live_blocks (insert (h, n) L) = insert (h, block_bytes n) (live_blocks L)"
  by (simp add: live_blocks_def)

lemma heap_take:
  assumes inv: "heap_inv k fl L" and c: "c < 8" and fl: "fl c = b # bs" and n: "class_for_size n = Some c" "n \<noteq> 0"
    and mem: "only_in (reg (b, class_bytes c)) (memory k) m'" and live: "live_at m' b n"
    and k': "kmem_ok k'" "free_set k' = free_set k" "small_free k' = (small_free k)[c := load64 (memory k) b]" "memory k' = m'"
  shows "heap_inv k' (fl(c := bs)) (insert (b, n) L)" and "(b, block_bytes n) \<notin> live_blocks L"
    and "untouched L (memory k) m'"
proof -
  note I = heap_invD [OF inv]
  let ?x = "(b, class_bytes c)"
  have bb: "block_bytes n = class_bytes c" by (simp add: block_bytes_def n)
  have xf: "?x \<in> free_blocks fl" using fl by (intro free_blockI [OF c]) simp
  then show new: "(b, block_bytes n) \<notin> live_blocks L" using I(6) bb by auto
  have pop: "free_blocks (fl(c := bs)) = free_blocks fl - {?x}" using free_blocks_pop [of c fl b bs] c fl I(4) [OF c] by blast
  have all: "free_blocks (fl(c := bs)) \<union> live_blocks (insert (b, n) L) = free_blocks fl \<union> live_blocks L"
    using xf by (auto simp: pop live_blocks_insert bb)
  have ok: "\<forall>y \<in> free_blocks fl \<union> live_blocks L. blk_ok y" using I(5) by (simp add: layout_def)
  have apart: "reg y \<inter> reg ?x = {}" if "y \<in> free_blocks fl \<union> live_blocks L" "y \<noteq> ?x" for y
    using that xf I(5) unfolding layout_def by blast
  then show "untouched L (memory k) m'" using new bb by (intro untouchedI [OF mem]) auto
  have ch: "chain (memory k) (load64 (memory k) b) bs" using I(3) [OF c] fl by simp
  show "heap_inv k' (fl(c := bs)) (insert (b, n) L)"
  proof (rule heap_invI)
    fix d :: nat
    assume d: "d < 8"
    have "chain (memory k) ((small_free k)[c := load64 (memory k) b] ! d) ((fl(c := bs)) d)"
      using I(2,3) ch d c by (cases "d = c") auto
    moreover have "\<forall>y \<in> set ((fl(c := bs)) d). blk_ok (y, class_bytes d) \<and> reg (y, class_bytes d) \<inter> reg ?x = {}"
      using ok apart free_blockI [OF d, of _ "fl(c := bs)"] unfolding pop by blast
    ultimately show "chain (memory k') (small_free k' ! d) ((fl(c := bs)) d)"
      unfolding k' by (rule chain_keep [OF _ mem])
    show "distinct ((fl(c := bs)) d)" using I(4) [OF d] fl by (cases "d = c") auto
  next
    fix h q
    assume hq: "(h, q) \<in> insert (b, n) L"
    show "allocatable q" using hq I(7) n by (auto simp: allocatable_def)
    show "class_for_size q = None \<Longrightarrow> 4096 dvd unat h" using hq I(9) n by auto
    show "live_at (memory k') h q"
    proof (cases "(h, q) = (b, n)")
      case False
      then have L: "(h, q) \<in> L" using hq by blast
      then have "(h, block_bytes q) \<noteq> ?x" using new live_blockI [OF L] bb by auto
      then show ?thesis
        unfolding k' using ok apart live_blockI [OF L] by (intro live_keep [OF I(8) [OF L] mem I(7) [OF L]]) blast+
    qed (use live k' in simp)
  qed (use k' I(2,5,6) all pop new bb in \<open>auto simp: live_blocks_insert\<close>)
qed

lemma note_alloc_inv: "heap_inv (kmalloc_note_alloc x k) fl L = heap_inv k fl L"
  by (rule heap_inv_cong) (simp_all add: kmalloc_note_alloc_def Let_def)

lemma note_free_inv: "heap_inv (kmalloc_note_free x k) fl L = heap_inv k fl L"
  by (rule heap_inv_cong) (simp_all add: kmalloc_note_free_def)

lemma count_failure_inv: "heap_inv (count_alloc_failure k) fl L = heap_inv k fl L"
  by (rule heap_inv_cong) (simp_all add: count_alloc_failure_def)

text \<open>The outcome of an allocation: null, or a new live block.\<close>

definition allocated ::
  "u32 \<Rightarrow> kmem \<Rightarrow> (u64 \<times> u32) set \<Rightarrow> u64 \<Rightarrow> kmem \<Rightarrow> bool" where
  "allocated n k L p k' \<longleftrightarrow> untouched L (memory k) (memory k') \<and>
     (if p = 0 then \<exists>fl'. heap_inv k' fl' L
      else (p - 24, block_bytes n) \<notin> live_blocks L \<and> (\<exists>fl'. heap_inv k' fl' (insert (p - 24, n) L)))"

lemma kmalloc_small_inv:
  assumes inv: "heap_inv k fl L" and n: "class_for_size n = Some c" "n \<noteq> 0"
    and res: "kmalloc_small c n k = (p, k')"
  shows "allocated n k L p k'"
proof -
  note c = class_for_size_Some(1) [OF n(1)]
  have al: "allocatable n" using n by (simp add: allocatable_def)
  have bb: "block_bytes n = class_bytes c" by (simp add: block_bytes_def n)
  define k1 where "k1 = (if small_free k ! c = 0 then populate_class c k else k)"
  obtain fl1 where I1: "heap_inv k1 fl1 L" and U1: "untouched L (memory k) (memory k1)"
  proof (cases "small_free k ! c = 0")
    case True
    then have "fl c = []" using heap_invD(3) [OF inv c] by (simp add: chain_zero)
    then show ?thesis using populate_class_inv [OF inv c] that True by (auto simp: k1_def)
  next
    case False
    then show ?thesis using inv that by (simp add: k1_def)
  qed
  define b where "b = small_free k1 ! c"
  show ?thesis
  proof (cases "b = 0")
    case True
    then have "p = 0" "k' = count_alloc_failure k1"
      using res by (simp_all add: kmalloc_small_def Let_def k1_def b_def)
    then show ?thesis using I1 U1 by (auto simp: allocated_def count_failure_inv) (simp_all add: count_alloc_failure_def)
  next
    case False
    obtain bs where fl: "fl1 c = b # bs" using chain_head [OF heap_invD(3) [OF I1 c]] False by (auto simp: b_def)
    have "blk_ok (b, class_bytes c)"
      using heap_invD(5) [OF I1] free_blockI [OF c, of b fl1] fl by (simp add: layout_def)
    then have b: "blk_ok (b, block_bytes n)" by (simp add: bb)
    have h: "live_header n = \<lparr>hd_magic = KMEM_ALLOC_MAGIC, hd_bytes = n, hd_allocated_bytes = small_class_sizes ! c,
        hd_class_index = word_of_nat c, hd_page_count = 0, hd_reserved = 0\<rparr>" by (simp add: live_header_def n)
    define m1 where "m1 = write_header b (live_header n) (memory k1)"
    define m2 where "m2 = store32 (kmalloc_guard_for_header m1 b) KMEM_GUARD_MAGIC m1"
    define m3 where "m3 = fill_memory (b + 24) (unat n) 0xA5 m2"
    note p = live_parts [OF al b]
    have i: "live_at m2 b n" "only_in (reg (b, block_bytes n)) (memory k1) m2"
      unfolding m2_def m1_def by (rule init_block [OF al b])+
    have f: "only_in (region (b + 24) (unat n)) m2 m3" unfolding m3_def by (rule only_in_fill [OF p(3)]) simp_all
    have l3: "live_at m3 b n" by (rule live_at_payload [OF i(1) al b f])
    have o3: "only_in (reg (b, class_bytes c)) (memory k1) m3"
      using only_in_trans [OF i(2) only_in_mono [OF f p(4)]] by (simp add: bb)
    define k2 where "k2 = k1\<lparr>small_free := (small_free k1)[c := load64 (memory k1) b], memory := m3\<rparr>"
    have "kmalloc_small c n k = (b + 24, kmalloc_note_alloc (ucast (small_class_sizes ! c)) k2)"
      using False by (simp add: kmalloc_small_def Let_def h m1_def m2_def m3_def k2_def flip: k1_def b_def)
    then have r: "p = b + 24" "k' = kmalloc_note_alloc (ucast (small_class_sizes ! c)) k2" using res by simp_all
    have kk: "kmem_ok k2" "free_set k2 = free_set k1" "small_free k2 = (small_free k1)[c := load64 (memory k1) b]" "memory k2 = m3"
      using heap_invD(1) [OF I1] by (simp_all add: k2_def kmem_ok_def free_set_def)
    note T = heap_take [OF I1 c fl n o3 l3 kk]
    have "p \<noteq> 0" using p(7) r(1) by auto
    moreover have "memory k' = m3" by (simp add: r kmalloc_note_alloc_def k2_def Let_def)
    ultimately show ?thesis
      using T untouched_trans [OF U1 T(3)] by (auto simp: allocated_def r note_alloc_inv)
  qed
qed

lemma heap_add_live:
  assumes inv: "heap_inv k fl L" and lay: "layout (free_set k) (free_blocks fl \<union> live_blocks L \<union> {(h, block_bytes n)})"
    and new: "(h, block_bytes n) \<notin> free_blocks fl" and n: "allocatable n" "live_at (memory k) h n" "4096 dvd unat h"
  shows "heap_inv k fl (insert (h, n) L)"
proof (rule heap_invI)
  note I = heap_invD [OF inv]
  have "free_blocks fl \<union> live_blocks (insert (h, n) L) = free_blocks fl \<union> live_blocks L \<union> {(h, block_bytes n)}"
    by (simp add: live_blocks_insert)
  then show "layout (free_set k) (free_blocks fl \<union> live_blocks (insert (h, n) L))" using lay by simp
  show "free_blocks fl \<inter> live_blocks (insert (h, n) L) = {}" using new I(6) by (simp add: live_blocks_insert)
  fix h' q
  assume "(h', q) \<in> insert (h, n) L"
  then show "4096 dvd unat h'" if "class_for_size q = None" using n(3) I(9) that by auto
  show "allocatable q" "live_at (memory k) h' q" using \<open>(h', q) \<in> insert (h, n) L\<close> n I(7,8) by auto
qed (use heap_invD [OF inv] in simp_all)

lemma kmalloc_large_inv:
  assumes inv: "heap_inv k fl L" and n: "class_for_size n = None" "n \<noteq> 0" and res: "kmalloc_large n k = (p, k')"
  shows "allocated n k L p k'"
proof (cases "n > 0xffffffff - 28 - 4095 \<or> large_pages n > 0xffff")
  case True
  then have "p = 0" "k' = count_alloc_failure k"
    using res by (auto simp: kmalloc_large_def Let_def large_pages_def split: if_splits prod.splits)
  then show ?thesis using inv by (auto simp: allocated_def count_failure_inv) (simp_all add: count_alloc_failure_def)
next
  case False
  let ?g = "large_pages n"
  have al: "allocatable n" using n False by (simp add: allocatable_def not_less)
  have bb: "block_bytes n = unat ?g * 4096" by (simp add: block_bytes_def n)
  have g: "?g \<noteq> 0" using block_fits [OF al] bb by auto
  obtain h k1 where pa: "page_alloc ?g k = (h, k1)" by force
  show ?thesis
  proof (cases "h = 0")
    case True
    note N = page_alloc_heap_none [OF inv g pa [unfolded True]]
    have "p = 0" "k' = k1" using res False True pa by (simp_all add: kmalloc_large_def Let_def large_pages_def)
    then show ?thesis using N by (auto simp: allocated_def)
  next
    case h: False
    note P = page_alloc_heap [OF inv g pa h, folded bb]
    have "32 dvd (4096 :: nat)" by simp
    then have "32 dvd unat h" using P(4) by (rule dvd_trans)
    moreover have "4096 \<le> block_bytes n" using g by (simp add: bb unat_gt_0 Suc_leI)
    ultimately have b: "blk_ok (h, block_bytes n)" using h P(3) by (simp add: blk_ok_def)
    have hd: "live_header n = \<lparr>hd_magic = KMEM_ALLOC_MAGIC, hd_bytes = n, hd_allocated_bytes = ?g * 4096,
        hd_class_index = 0xffff, hd_page_count = ucast ?g, hd_reserved = 0\<rparr>" by (simp add: live_header_def n)
    define m1 where "m1 = write_header h (live_header n) (memory k1)"
    define m2 where "m2 = store32 (kmalloc_guard_for_header m1 h) KMEM_GUARD_MAGIC m1"
    have i: "live_at m2 h n" "only_in (reg (h, block_bytes n)) (memory k1) m2"
      unfolding m2_def m1_def by (rule init_block [OF al b])+
    define k2 where "k2 = k1\<lparr>memory := m2\<rparr>"
    have "kmalloc_large n k = (h + 24, kmalloc_note_alloc (ucast ?g * 4096) k2)"
      using False h pa by (simp add: kmalloc_large_def Let_def hd m1_def m2_def k2_def large_pages_def)
    then have r: "p = h + 24" "k' = kmalloc_note_alloc (ucast ?g * 4096) k2" using res by simp_all
    have B: "\<forall>x \<in> free_blocks fl \<union> live_blocks L. reg x \<inter> reg (h, block_bytes n) = {}"
      using P(6) by (simp add: reg_def)
    have lay: "layout (free_set k1) (free_blocks fl \<union> live_blocks L \<union> {(h, block_bytes n)})"
      unfolding P(8) using b P(7) by (intro layout_add [OF heap_invD(5) [OF inv]]) (auto simp: reg_def)
    have K: "kmem_ok k2" "small_free k2 = small_free k1" "free_set k2 = free_set k1" "memory k2 = m2"
      using heap_invD(1) [OF P(1)] by (simp_all add: k2_def kmem_ok_def free_set_def)
    have I2: "heap_inv k2 fl L"
      using heap_frame [OF P(1) K(1,2) _ _ B] heap_invD(5) [OF P(1)] i(2) K(3,4) by simp
    have ne: "reg (h, block_bytes n) \<noteq> {}" using b by (auto simp: blk_ok_def reg_def region_def)
    have new: "(h, block_bytes n) \<notin> free_blocks fl \<union> live_blocks L" using B ne by blast
    have "heap_inv k2 fl (insert (h, n) L)"
      by (rule heap_add_live [OF I2 lay [folded K(3)] _ al]) (use new i(1) K(4) P(4) in simp_all)
    moreover have "untouched L (memory k) (memory k')"
      using untouched_trans [OF P(2) untouchedI [OF i(2)]] B K(4) by (simp add: r kmalloc_note_alloc_def Let_def)
    moreover have "p \<noteq> 0" using live_parts(7) [OF al b] r(1) by auto
    ultimately show ?thesis using new by (auto simp: allocated_def r note_alloc_inv)
  qed
qed

lemma kmalloc_inv:
  assumes "heap_inv k fl L" and "kmalloc n k = (p, k')"
  shows "allocated n k L p k'"
proof (cases "n = 0")
  case True
  then show ?thesis using assms by (auto simp: kmalloc_def allocated_def)
next
  case False
  then show ?thesis
    using assms kmalloc_small_inv [OF assms(1) _ False] kmalloc_large_inv [OF assms(1) _ False]
    by (auto simp: kmalloc_def split: option.splits)
qed

end
