(* ===== verification/Kmem_Heap_Free.thy ===== *)
theory Kmem_Heap_Free
  imports Kmem_Heap_Ops
begin

text \<open>
  Freeing: a live block goes back to its free list or its pages to the page allocator, a second
  free of the same pointer is counted and changes nothing else, and the walks over the free lists
  end.
\<close>

subsection \<open>A live block\<close>

lemma live_block_facts:
  assumes "heap_inv k fl L" and "(h, n) \<in> L"
  shows "allocatable n" "blk_ok (h, block_bytes n)" "read_header (memory k) h = live_header n"
    "load32 (memory k) (h + 24 + ucast n) = KMEM_GUARD_MAGIC"
    "\<forall>x \<in> free_blocks fl \<union> live_blocks (L - {(h, n)}). reg x \<inter> reg (h, block_bytes n) = {}"
    "reg (h, block_bytes n) \<inter> free_set k = {}"
proof -
  note I = heap_invD [OF assms(1)]
  have x: "(h, block_bytes n) \<in> live_blocks L" by (rule live_blockI [OF assms(2)])
  show "allocatable n" by (rule I(7) [OF assms(2)])
  show "blk_ok (h, block_bytes n)" "reg (h, block_bytes n) \<inter> free_set k = {}" using I(5) x by (auto simp: layout_def)
  show r: "read_header (memory k) h = live_header n" "load32 (memory k) (h + 24 + ucast n) = KMEM_GUARD_MAGIC"
    using I(8) [OF assms(2)] by (simp_all add: live_at_def)
  show "\<forall>x \<in> free_blocks fl \<union> live_blocks (L - {(h, n)}). reg x \<inter> reg (h, block_bytes n) = {}"
  proof
    fix y
    assume y: "y \<in> free_blocks fl \<union> live_blocks (L - {(h, n)})"
    then have yl: "y \<in> free_blocks fl \<union> live_blocks L" by (auto simp: live_blocks_def)
    have "y \<noteq> (h, block_bytes n)"
    proof
      assume e: "y = (h, block_bytes n)"
      then have "y \<notin> free_blocks fl" using x I(6) by blast
      then obtain q where q: "(h, q) \<in> L" "q \<noteq> n" using y e by (auto simp: live_blocks_def)
      then have "live_header q = live_header n" using I(8) [OF q(1)] r(1) by (simp add: live_at_def)
      then have "hd_bytes (live_header q) = hd_bytes (live_header n)" by simp
      then show False using q(2) by simp
    qed
    then show "reg y \<inter> reg (h, block_bytes n) = {}" using I(5) yl x by (auto simp: layout_def)
  qed
qed

lemma ptr_header: "(h + 24) - 24 = (h :: u64)"
  by simp

lemma kmalloc_size_live:
  assumes "heap_inv k fl L" and "(h, n) \<in> L"
  shows "kmalloc_size (h + 24) k = n"
proof -
  note F = live_block_facts [OF assms]
  have "h + 24 \<noteq> 0" using live_parts(7) [OF F(1,2)] by auto
  then show ?thesis
    using F(3,4) guard_for_header [OF F(3)] by (simp add: kmalloc_size_def Let_def)
qed

subsection \<open>Freeing a small block\<close>

lemma kfree_small_eq:
  assumes inv: "heap_inv k fl L" and h: "(h, n) \<in> L" and c: "class_for_size n = Some c"
  shows "kfree (h + 24) k = Some (kfree_small (h + 24) k)"
proof -
  note F = live_block_facts [OF inv h]
  have ne: "h + 24 \<noteq> 0" using live_parts(7) [OF F(1,2)] by auto
  have c8: "c < 8" by (rule class_for_size_Some(1) [OF c])
  then have u: "unat (word_of_nat c :: u16) = c" by (simp add: unat_of_nat take_bit_nat_eq_self)
  then have "(word_of_nat c :: u16) \<noteq> 0xffff" using c8 by auto
  then show ?thesis
    using ne F(3,4) guard_for_header [OF F(3)] c u c8 by (simp add: kfree_def Let_def live_header_def)
qed

lemma scrub_block:
  assumes F: "allocatable n" "blk_ok (h, block_bytes n)" "read_header m h = live_header n"
  defines "m1 \<equiv> store32 (h + 24 + ucast n) 0 m"
  shows "read_header m1 h = live_header n"
    and "only_in (reg (h, block_bytes n)) m (fill_memory (h + 24) (unat n) 0xDD m1)"
proof -
  note p = live_parts [OF F(1,2)]
  have o: "only_in (region (h + 24 + ucast n) 4) m m1" unfolding m1_def by (rule only_in_store32 [OF p(5)]) simp_all
  show "read_header m1 h = live_header n" using read_header_frame [OF o p(1) guard_apart [OF p(8)]] F(3) by simp
  show "only_in (reg (h, block_bytes n)) m (fill_memory (h + 24) (unat n) 0xDD m1)"
    by (rule only_in_fill [OF p(3,4) only_in_mono [OF o p(6)]])
qed

lemma kfree_small_inv:
  assumes inv: "heap_inv k fl L" and h: "(h, n) \<in> L" and c: "class_for_size n = Some c" and k': "kfree (h + 24) k = Some k'"
  shows "heap_inv k' (fl(c := h # fl c)) (L - {(h, n)})" and "untouched (L - {(h, n)}) (memory k) (memory k')"
    and "double_frees k' = double_frees k" and "invalid_frees k' = invalid_frees k" and "guard_failures k' = guard_failures k"
proof -
  note F = live_block_facts [OF inv h] and c8 = class_for_size_Some(1) [OF c]
  note p = live_parts [OF F(1,2)]
  have bb: "block_bytes n = class_bytes c" by (simp add: block_bytes_def c)
  define m1 where "m1 = store32 (h + 24 + ucast n) 0 (memory k)"
  define m3 where "m3 = store64 h KMEM_FREED_MAGIC (fill_memory (h + 24) (unat n) 0xDD m1)"
  note S = scrub_block [OF F(1-3), folded m1_def]
  have s8: "in_space h 8" "region h 8 \<subseteq> reg (h, block_bytes n)"
    using in_space_le [OF p(1), of 8] p(2) region_le [of 8 24 h] by auto
  have o3: "only_in (reg (h, block_bytes n)) (memory k) m3" unfolding m3_def by (rule only_in_store64 [OF s8 S(2)])
  have ci: "unat (hd_class_index (live_header n)) = c"
    using c8 by (simp add: live_header_def c unat_of_nat take_bit_nat_eq_self)
  have e: "k' = kmalloc_note_free (ucast (small_class_sizes ! c)) (push_block c h (k\<lparr>memory := m3\<rparr>))"
    using k' kfree_small_eq [OF inv h c] guard_for_header [OF F(3)] F(3) ci
    by (simp add: kfree_small_def Let_def S(1) m3_def flip: m1_def)
  have I0: "heap_inv k fl (L - {(h, n)})" by (rule heap_inv_less [OF inv])
  have I1: "heap_inv (k\<lparr>memory := m3\<rparr>) fl (L - {(h, n)})"
  proof (rule heap_frame [OF I0 _ _ _ _ F(5)])
    show "kmem_ok (k\<lparr>memory := m3\<rparr>)" using heap_invD(1) [OF inv] by (simp add: kmem_ok_def)
    show "layout (free_set (k\<lparr>memory := m3\<rparr>)) (free_blocks fl \<union> live_blocks (L - {(h, n)}))"
      using heap_invD(5) [OF I0] by (simp add: free_set_def)
  qed (use o3 in simp_all)
  have "heap_inv (push_block c h (k\<lparr>memory := m3\<rparr>)) (fl(c := h # fl c)) (L - {(h, n)})"
    using F(2,5,6) by (intro push_block_inv [OF I1 c8]) (simp_all add: bb free_set_def)
  then show "heap_inv k' (fl(c := h # fl c)) (L - {(h, n)})" by (simp add: e note_free_inv)
  have "memory k' = store64 h (small_free k ! c) m3"
    by (simp add: e kmalloc_note_free_def memory_push_block)
  then have "only_in (reg (h, block_bytes n)) (memory k) (memory k')" using only_in_store64 [OF s8 o3] by simp
  then show "untouched (L - {(h, n)}) (memory k) (memory k')" using F(5) by (intro untouchedI) auto
  show "double_frees k' = double_frees k" "invalid_frees k' = invalid_frees k" "guard_failures k' = guard_failures k"
    by (simp_all add: e kmalloc_note_free_def push_block_def)
qed

subsection \<open>Freeing pages\<close>

lemma hd_bytes_load: "hd_bytes (read_header m h) = load32 m (h + 8)"
  by (simp add: read_header_def)

lemma page_free_fields:
  "memory (page_free a n k) = memory k" "small_free (page_free a n k) = small_free k"
  "double_frees (page_free a n k) = double_frees k" "invalid_frees (page_free a n k) = invalid_frees k"
  "guard_failures (page_free a n k) = guard_failures k"
  by (simp_all add: page_free_def)

lemma scrub_pages:
  assumes F: "allocatable n" "blk_ok (h, block_bytes n)" "read_header m h = live_header n"
  defines "m1 \<equiv> store64 h KMEM_FREED_MAGIC m"
  defines "m2 \<equiv> store32 (kmalloc_guard_for_header m1 h) 0 m1"
  defines "m3 \<equiv> fill_memory (h + 24) (unat (hd_bytes (read_header m2 h))) 0xDD m2"
  shows "only_in (reg (h, block_bytes n)) m m3" and "load64 m3 h = KMEM_FREED_MAGIC"
proof -
  note p = live_parts [OF F(1,2)]
  have s8: "in_space h 8" "region h 8 \<subseteq> reg (h, block_bytes n)"
    using in_space_le [OF p(1), of 8] p(2) region_le [of 8 24 h] by auto
  have h8: "h + 8 = h + word_of_nat 8" by simp
  have b4: "in_space (h + 8) 4" "region (h + 8) 4 \<subseteq> region h 24"
    unfolding h8 by (rule in_space_part [OF _ p(1)], simp, rule region_mono [OF _ p(1)], simp)
  have "unat (h + 8) = unat h + 8" unfolding h8 using p(1) by (intro unat_add_small) (simp add: in_space_def)
  then have d8: "region (h + 8) 4 \<inter> region h 8 = {}" by (auto simp: region_def)
  have n0: "load32 m (h + 8) = n" using F(3) hd_bytes_load [of m h] by simp
  have o1: "only_in (region h 8) m m1" unfolding m1_def by (rule only_in_store64 [OF s8(1)]) simp_all
  have n1: "load32 m1 (h + 8) = n" using load32_frame [OF o1 b4(1) d8] n0 by simp
  then have g: "kmalloc_guard_for_header m1 h = h + 24 + ucast n" by (simp add: kmalloc_guard_for_header_def hd_bytes_load)
  have o2: "only_in (region (h + 24 + ucast n) 4) m1 m2" unfolding m2_def g by (rule only_in_store32 [OF p(5)]) simp_all
  have d: "region h 24 \<inter> region (h + 24 + ucast n) 4 = {}" by (rule guard_apart [OF p(8)])
  have n2: "load32 m2 (h + 8) = n" using load32_frame [OF o2 b4(1)] b4(2) d n1 by blast
  then have m3: "m3 = fill_memory (h + 24) (unat n) 0xDD m2" by (simp add: m3_def hd_bytes_load)
  have o3: "only_in (region (h + 24) (unat n)) m2 m3" unfolding m3 by (rule only_in_fill [OF p(3)]) simp_all
  show "only_in (reg (h, block_bytes n)) m m3"
    by (rule only_in_trans [OF only_in_trans [OF only_in_mono [OF o1 s8(2)] only_in_mono [OF o2 p(6)]] only_in_mono [OF o3 p(4)]])
  have r8: "region h 8 \<subseteq> region h 24" by (rule region_le) simp
  have "load64 m3 h = load64 m2 h"
    using r8 payload_apart(1) [OF F(1,2)] by (intro load64_frame [OF o3 s8(1)]) blast
  also have "\<dots> = load64 m1 h" using r8 d by (intro load64_frame [OF o2 s8(1)]) blast
  also have "\<dots> = KMEM_FREED_MAGIC" unfolding m1_def by (rule load_store_64 [OF s8(1)])
  finally show "load64 m3 h = KMEM_FREED_MAGIC" .
qed

lemma kfree_large_inv:
  assumes inv: "heap_inv k fl L" and h: "(h, n) \<in> L" and c: "class_for_size n = None"
  obtains k' where "kfree (h + 24) k = Some k'" "heap_inv k' fl (L - {(h, n)})" "untouched (L - {(h, n)}) (memory k) (memory k')"
    "double_frees k' = double_frees k" "invalid_frees k' = invalid_frees k" "guard_failures k' = guard_failures k"
    "load64 (memory k') h = KMEM_FREED_MAGIC"
    "free_set k' = (if length (free_ranges k) < 128 then free_set k \<union> reg (h, block_bytes n) else free_set k)"
proof -
  note F = live_block_facts [OF inv h]
  note p = live_parts [OF F(1,2)]
  let ?g = "large_pages n"
  have g: "?g \<le> 0xffff" "block_bytes n = unat ?g * 4096" "4096 dvd unat h" "h \<noteq> 0"
    using F(1,2) c heap_invD(9) [OF inv h c] by (simp_all add: allocatable_def block_bytes_def blk_ok_def)
  have "unat ?g < 2 ^ 16" using g(1) by (simp add: word_le_nat_alt)
  then have cast: "(ucast (ucast ?g :: u16) :: u32) = ?g"
    by (simp add: word_unat_eq_iff unsigned_ucast_eq) (simp add: unsigned_take_bit_eq take_bit_nat_eq_self)
  define m3 where "m3 = (let m1 = store64 h KMEM_FREED_MAGIC (memory k); m2 = store32 (kmalloc_guard_for_header m1 h) 0 m1
    in fill_memory (h + 24) (unat (hd_bytes (read_header m2 h))) 0xDD m2)"
  have m3: "only_in (reg (h, block_bytes n)) (memory k) m3" "load64 m3 h = KMEM_FREED_MAGIC"
    unfolding m3_def Let_def by (rule scrub_pages [OF F(1-3)])+
  define k1 where "k1 = kmalloc_note_free (ucast ?g * 4096) (k\<lparr>memory := m3\<rparr>)"
  have k1: "free_ranges k1 = free_ranges k" "free_page_count k1 = free_page_count k" "small_free k1 = small_free k" "memory k1 = m3"
    "double_frees k1 = double_frees k" "invalid_frees k1 = invalid_frees k" "guard_failures k1 = guard_failures k"
    by (simp_all add: k1_def kmalloc_note_free_def)
  have ok1: "kmem_ok k1" "free_set k1 = free_set k" using heap_invD(1) [OF inv] by (simp_all add: kmem_ok_def k1 free_set_def)
  have e: "kfree (h + 24) k = Some (page_free h ?g k1)"
    using F(3,4) guard_for_header [OF F(3)] p(7) cast
    by (auto simp: kfree_def Let_def live_header_def c kfree_large_def k1_def m3_def)
  let ?k = "page_free h ?g k1"
  have g0: "?g \<noteq> 0" using block_fits [OF F(1)] g(2) by auto
  have sp: "in_space h (unat ?g * 4096)" using F(2) by (simp add: blk_ok_def g(2))
  have reg: "reg (h, block_bytes n) = region h (unat ?g * 4096)" by (simp add: reg_def g(2))
  have fs: "kmem_ok ?k \<and> free_set ?k = (if length (free_ranges k) < 128 then free_set k \<union> reg (h, block_bytes n) else free_set k)"
  proof (cases "length (free_ranges k) < 128")
    case True
    then show ?thesis
      using page_free_ok [OF ok1(1) g0 g(4,3) sp] F(6) by (simp add: k1(1) ok1(2) reg)
  next
    case False
    then show ?thesis using page_free_full [of k1 h ?g] ok1 by (simp add: k1(1))
  qed
  have ne: "reg (h, block_bytes n) \<noteq> {}" using F(2) by (auto simp: blk_ok_def reg_def region_def)
  have sub: "free_blocks fl \<union> live_blocks (L - {(h, n)}) \<subseteq> (free_blocks fl \<union> live_blocks L) - {(h, block_bytes n)}"
  proof -
    have "live_blocks (L - {(h, n)}) \<subseteq> live_blocks L" by (auto simp: live_blocks_def)
    then show ?thesis using F(5) ne by blast
  qed
  have "layout (free_set k \<union> reg (h, block_bytes n)) ((free_blocks fl \<union> live_blocks L) - {(h, block_bytes n)})"
    using live_blockI [OF h] by (intro layout_release [OF heap_invD(5) [OF inv]]) blast
  then have lay: "layout (free_set ?k) (free_blocks fl \<union> live_blocks (L - {(h, n)}))"
    by (rule layout_sub [OF _ sub]) (use fs in \<open>auto split: if_splits\<close>)
  have "heap_inv ?k fl (L - {(h, n)})"
    using fs m3(1) by (intro heap_frame [OF heap_inv_less [OF inv] _ _ lay _ F(5)]) (simp_all add: page_free_fields k1)
  moreover have "untouched (L - {(h, n)}) (memory k) (memory ?k)"
    using F(5) m3(1) by (intro untouchedI [of "reg (h, block_bytes n)"]) (auto simp: page_free_fields k1)
  ultimately show ?thesis using that [OF e] fs m3(2) by (simp add: page_free_fields k1)
qed

subsection \<open>Walking the free lists\<close>

lemma chains_contain_decides:
  assumes "\<forall>i < length hs. chain m (hs ! i) (fl i)" and "b \<noteq> 0"
  shows "chains_contain m b hs = Some (\<exists>i < length hs. b \<in> set (fl i))"
  using assms
proof (induction hs arbitrary: fl)
  case (Cons a hs)
  have "chain m a (fl 0)" using Cons.prems(1) by auto
  then have c: "chain_contains m b a = Some (b \<in> set (fl 0))" using Cons.prems(2) by (simp add: chain_contains_decides)
  have "chains_contain m b hs = Some (\<exists>i < length hs. b \<in> set (fl (Suc i)))"
    using Cons.prems by (intro Cons.IH [of "\<lambda>i. fl (Suc i)"]) auto
  then show ?case using c by (auto simp: less_Suc_eq_0_disj split: bool.splits)
qed simp

lemma small_free_list_contains_decides:
  assumes "heap_inv k fl L" and "b \<noteq> 0"
  shows "small_free_list_contains b k = Some (\<exists>c < 8. b \<in> set (fl c))"
  unfolding small_free_list_contains_def
  using chains_contain_decides [of "small_free k" "memory k" fl b] heap_invD(2,3) [OF assms(1)] assms(2) by simp

lemma chains_count_sum:
  assumes "\<forall>i < length hs. chain m (hs ! i) (fl i)"
  shows "chains_count m n hs = Some (n + word_of_nat (\<Sum>i < length hs. length (fl i)))"
  using assms
proof (induction hs arbitrary: fl n)
  case (Cons a hs)
  have "chain m a (fl 0)" using Cons.prems(1) by auto
  then have c: "chain_count m n a = Some (n + word_of_nat (length (fl 0)))" by (rule chain_count_length)
  have "chains_count m q hs = Some (q + word_of_nat (\<Sum>i < length hs. length (fl (Suc i))))" for q
    using Cons.prems by (intro Cons.IH [of "\<lambda>i. fl (Suc i)"]) auto
  then show ?case using c by (simp add: sum.lessThan_Suc_shift add.assoc del: sum.lessThan_Suc)
qed simp

end
