(* ===== verification/Kmem_Props.thy ===== *)
theory Kmem_Props
  imports Kmem_Heap
begin

text \<open>
  The properties of the page allocator, with their witnesses on a small machine: sixteen free
  pages from one megabyte on.
\<close>

subsection \<open>A small machine\<close>

definition demo_kmem :: kmem where
  "demo_kmem = \<lparr>free_ranges = [\<lparr>pr_start = 0x100000, pr_pages = 16\<rparr>], total_page_count = 16,
     free_page_count = 16, heap_used_bytes = 0, allocation_count = 0, free_count = 0,
     live_allocations = 0, peak_live_allocations = 0, invalid_frees = 0, double_frees = 0,
     guard_failures = 0, allocation_failures = 0, small_free = replicate 8 0, memory = (\<lambda>a. 0xFF)\<rparr>"

lemma demo_kmem_ok: "kmem_ok demo_kmem"
  by (simp add: kmem_ok_def demo_kmem_def canonical_def range_ok_def rend_def)

definition demo_taken :: kmem where
  "demo_taken = snd (page_alloc 4 demo_kmem)"

lemma demo_alloc: "page_alloc 4 demo_kmem = (0x100000, demo_taken)"
  by (simp add: demo_taken_def page_alloc_def demo_kmem_def)

lemma demo_taken_ranges: "free_ranges demo_taken = [\<lparr>pr_start = 0x104000, pr_pages = 12\<rparr>]"
  by (simp add: demo_taken_def page_alloc_def demo_kmem_def)

lemma demo_taken_ok: "kmem_ok demo_taken"
  using page_alloc_ok(1) [OF demo_kmem_ok _ demo_alloc] by simp

subsection \<open>The page allocator\<close>

text \<open>
  C19. An allocation either fails, and then nothing but the failure counter has changed and there
  is no run of free pages of the requested length anywhere, or it returns a page-aligned block of
  free pages, which are no longer free and are zeroed; no other byte of memory changes. The table
  stays canonical and the free page counter is exact.
\<close>

theorem page_alloc_correct:
  assumes "kmem_ok k" and "n \<noteq> 0" and "page_alloc n k = (addr, k')"
  shows "kmem_ok k' \<and>
    (if addr = 0
     then k' = k\<lparr>allocation_failures := allocation_failures k + 1\<rparr> \<and>
          (\<forall>a. \<not> region a (unat n * 4096) \<subseteq> free_set k)
     else 4096 dvd unat addr \<and> region addr (unat n * 4096) \<subseteq> free_set k \<and>
          free_set k' = free_set k - region addr (unat n * 4096) \<and>
          (\<forall>x. memory k' x = (if unat x \<in> region addr (unat n * 4096) then 0 else memory k x)))"
proof (cases "addr = 0")
  case True
  then show ?thesis
    using page_alloc_none [of k n k'] assms by (auto simp: kmem_ok_def)
next
  case False
  then show ?thesis
    using page_alloc_ok [OF assms False] by (simp add: zero_memory_apply)
qed

theorem page_alloc_correct_witness:
  "kmem_ok demo_taken \<and> free_set demo_taken = free_set demo_kmem - region 0x100000 (4 * 4096) \<and>
    memory demo_taken 0x100010 = 0"
proof -
  have "unat (0x100010 :: u64) \<in> region 0x100000 (4 * 4096)" by (simp add: region_def)
  then show ?thesis using page_alloc_correct [OF demo_kmem_ok _ demo_alloc] by simp
qed

text \<open>
  C20. Freeing a page-aligned block that is not free adds exactly its pages to the free set, keeps
  the table canonical and the counter exact, and touches no memory, provided the table is not
  full; with a full table the pages are dropped.
\<close>

theorem page_free_correct:
  assumes "kmem_ok k" and "n \<noteq> 0" and "addr \<noteq> 0" and "4096 dvd unat addr"
    and "unat addr + unat n * 4096 < 2 ^ 64" and "region addr (unat n * 4096) \<inter> free_set k = {}"
  shows "kmem_ok (page_free addr n k) \<and> memory (page_free addr n k) = memory k \<and>
    free_set (page_free addr n k) =
      (if length (free_ranges k) < 128 then free_set k \<union> region addr (unat n * 4096) else free_set k)"
proof (cases "length (free_ranges k) < 128")
  case True
  then show ?thesis using page_free_ok [of k n addr] assms by (simp add: in_space_def)
next
  case False
  then show ?thesis using assms(1) by (simp add: page_free_full)
qed

theorem page_free_correct_witness:
  "free_set (page_free 0x200000 2 demo_kmem) = free_set demo_kmem \<union> region 0x200000 (2 * 4096)"
proof -
  have "region 0x200000 (2 * 4096) \<inter> free_set demo_kmem = {}"
    by (auto simp: region_def free_set_def demo_kmem_def covers_def rng_def rend_def)
  then show ?thesis
    using page_free_correct [of demo_kmem 2 "0x200000"] demo_kmem_ok by (simp add: demo_kmem_def)
qed

text \<open>
  C21. Freeing a block that was just allocated restores the table of free ranges and the counter
  exactly as they were when the table has a free entry at that moment: the table is determined by the set of
  free pages. When all 128 entries are in use the free changes nothing, and the block stays lost.
\<close>

theorem page_alloc_free_roundtrip:
  assumes "kmem_ok k" and "n \<noteq> 0" and "page_alloc n k = (addr, k')" and "addr \<noteq> 0"
  shows "if length (free_ranges k') < 128
    then free_ranges (page_free addr n k') = free_ranges k \<and> free_page_count (page_free addr n k') = free_page_count k
    else page_free addr n k' = k' \<and> free_set k' = free_set k - region addr (unat n * 4096)"
proof (cases "length (free_ranges k') < 128")
  case True
  note r = kmem_pages.alloc_release [OF assms True]
  have "free_ranges (page_free addr n k') = free_ranges k"
    using r assms(1) by (intro canonical_unique) (simp_all add: kmem_ok_def free_set_def)
  then show ?thesis using r(1) assms(1) True by (simp add: kmem_ok_def word_unat_eq_iff)
next
  case False
  then show ?thesis using page_alloc_ok [OF assms] by (simp add: page_free_full)
qed

theorem page_alloc_free_roundtrip_witness:
  "free_ranges (page_free 0x100000 4 demo_taken) = [\<lparr>pr_start = 0x100000, pr_pages = 16\<rparr>]"
  using page_alloc_free_roundtrip [OF demo_kmem_ok _ demo_alloc] demo_taken_ranges
  by (simp add: demo_kmem_def)

text \<open>
  C14. Whatever sequence of allocations and frees is run, with each caller freeing only what it was
  given: the blocks handed out never overlap each other or the free pages, and the free pages, the
  blocks handed out and the blocks that were freed while the table of ranges had all its 128 entries in use
  are together exactly the memory the allocator started with. No page is handed out twice, and no page is lost except by
  a free that finds the table full; the pages of such a free are never handed out again.
\<close>

theorem page_run_safe:
  assumes "page_run k0 k bs lost" and "kmem_ok k0"
  shows "kmem_ok k \<and> sorted_wrt (\<lambda>b c. block b \<inter> block c = {}) (bs @ lost) \<and>
    (\<forall>b \<in> set bs \<union> set lost. block b \<inter> free_set k = {}) \<and>
    free_set k \<union> (\<Union>b \<in> set bs. block b) \<union> (\<Union>b \<in> set lost. block b) = free_set k0"
  using page_run_owns [OF assms] unfolding kmem_pages.owns_def kmem_pages.pool_def by auto

theorem page_run_safe_witness:
  "page_run demo_kmem (page_free 0x100000 4 demo_taken) [] [] \<and>
    free_set (page_free 0x100000 4 demo_taken) = free_set demo_kmem"
proof -
  have "page_run demo_kmem demo_taken [(0x100000, 4)] []"
    by (rule page_run.alloc [OF page_run.start _ demo_alloc]) simp_all
  from page_run.free [OF this, of "0x100000" 4] have "page_run demo_kmem (page_free 0x100000 4 demo_taken) [] []"
    by (simp add: demo_taken_ranges)
  then show ?thesis using page_run_safe [OF _ demo_kmem_ok, of "page_free 0x100000 4 demo_taken" "[]" "[]"] by simp
qed

text \<open>
  C22. Coalescing a table of ranges of any order, overlapping or adjacent, keeps the set of free
  pages and gives its canonical table: sorted, with a gap between any two ranges, and no longer
  than before; coalescing again changes nothing.
\<close>

theorem coalesce_ranges_canonical:
  assumes "\<forall>r \<in> set rs. range_ok r"
  shows "canonical (coalesce_ranges rs) \<and> covers (coalesce_ranges rs) = covers rs \<and>
    length (coalesce_ranges rs) \<le> length rs \<and> coalesce_ranges (coalesce_ranges rs) = coalesce_ranges rs"
proof -
  note c = coalesce_ranges_ok [OF assms]
  then have "\<forall>r \<in> set (coalesce_ranges rs). range_ok r" by (simp add: canonical_def)
  note c' = coalesce_ranges_ok [OF this]
  show ?thesis using c c' canonical_unique [OF c'(1) c(1)] by simp
qed

theorem coalesce_ranges_canonical_witness:
  "canonical (coalesce_ranges [\<lparr>pr_start = 0x200000, pr_pages = 2\<rparr>, \<lparr>pr_start = 0x100000, pr_pages = 256\<rparr>])"
  using coalesce_ranges_canonical
    [of "[\<lparr>pr_start = 0x200000, pr_pages = 2\<rparr>, \<lparr>pr_start = 0x100000, pr_pages = 256\<rparr>]"]
  by (simp add: range_ok_def rend_def)

end
