(* ===== verification/Kmem_Heap_Props.thy ===== *)
theory Kmem_Heap_Props
  imports Kmem_Heap_Free Kmem_Props Kmem_Init
begin

text \<open>
  The properties of the kernel heap and of the boot-time initialisation, with their witnesses.
\<close>

subsection \<open>Runs of the heap\<close>

text \<open>
  Any sequence of allocations, failed allocations, frees of live pointers, and stores by the
  owners of the blocks into the bytes they asked for.
\<close>

inductive heap_run :: "kmem \<Rightarrow> kmem \<Rightarrow> (u64 \<times> u32) set \<Rightarrow> bool" for k0 where
  start: "heap_run k0 k0 {}"
| alloc: "heap_run k0 k L \<Longrightarrow> kmalloc n k = (p, k') \<Longrightarrow> p \<noteq> 0 \<Longrightarrow> heap_run k0 k' (insert (p - 24, n) L)"
| fail: "heap_run k0 k L \<Longrightarrow> kmalloc n k = (0, k') \<Longrightarrow> heap_run k0 k' L"
| free: "heap_run k0 k L \<Longrightarrow> (h, n) \<in> L \<Longrightarrow> kfree (h + 24) k = Some k' \<Longrightarrow> heap_run k0 k' (L - {(h, n)})"
| use: "heap_run k0 k L \<Longrightarrow> (h, n) \<in> L \<Longrightarrow> i < unat n \<Longrightarrow>
    heap_run k0 (k\<lparr>memory := (memory k)(h + 24 + word_of_nat i := v)\<rparr>) L"

definition faults :: "kmem \<Rightarrow> u64 \<times> u64 \<times> u64" where
  "faults k = (invalid_frees k, double_frees k, guard_failures k)"

lemma faults_page_alloc: "page_alloc n k = (a, k') \<Longrightarrow> faults k' = faults k"
  by (auto simp: page_alloc_def Let_def faults_def split: if_splits option.splits)

lemma faults_push: "faults (fold (\<lambda>i. push_block c (f i)) is k) = faults k"
  by (induction "is" arbitrary: k) (simp_all add: push_block_def faults_def)

lemma faults_populate: "faults (populate_class c k) = faults k"
  using faults_page_alloc [of 1 k] by (auto simp: populate_class_def Let_def faults_push split: prod.splits)

lemma faults_counters:
  "faults (kmalloc_note_alloc x k) = faults k" "faults (count_alloc_failure k) = faults k"
  "faults (k\<lparr>memory := m\<rparr>) = faults k" "faults (k\<lparr>small_free := l\<rparr>) = faults k"
  by (simp_all add: faults_def kmalloc_note_alloc_def count_alloc_failure_def Let_def)

lemma faults_kmalloc: "kmalloc n k = (p, k') \<Longrightarrow> faults k' = faults k"
  by (auto simp: kmalloc_def kmalloc_small_def kmalloc_large_def Let_def faults_counters faults_populate
      split: if_splits option.splits prod.splits dest: faults_page_alloc)

lemma kfree_live:
  assumes inv: "heap_inv k fl L" and h: "(h, n) \<in> L"
  obtains k' fl' where "kfree (h + 24) k = Some k'" "heap_inv k' fl' (L - {(h, n)})"
    "untouched (L - {(h, n)}) (memory k) (memory k')" "faults k' = faults k"
proof (cases "class_for_size n")
  case None
  obtain k' where "kfree (h + 24) k = Some k'" "heap_inv k' fl (L - {(h, n)})" "untouched (L - {(h, n)}) (memory k) (memory k')"
    "double_frees k' = double_frees k" "invalid_frees k' = invalid_frees k" "guard_failures k' = guard_failures k"
    by (rule kfree_large_inv [OF inv h None]) (rule that)
  then show ?thesis using that by (simp add: faults_def)
next
  case (Some c)
  note e = kfree_small_eq [OF inv h Some]
  show ?thesis using kfree_small_inv [OF inv h Some e] that [OF e] by (simp add: faults_def)
qed

lemma heap_inv_payload:
  assumes inv: "heap_inv k fl L" and h: "(h, n) \<in> L" and o: "only_in (region (h + 24) (unat n)) (memory k) m"
  shows "heap_inv (k\<lparr>memory := m\<rparr>) fl L"
proof -
  let ?k = "k\<lparr>memory := m\<rparr>"
  note F = live_block_facts [OF inv h]
  note p = live_parts [OF F(1,2)]
  have o': "only_in (reg (h, block_bytes n)) (memory k) m" by (rule only_in_mono [OF o p(4)])
  have I0: "heap_inv k fl (L - {(h, n)})" by (rule heap_inv_less [OF inv])
  have I1: "heap_inv ?k fl (L - {(h, n)})"
  proof (rule heap_frame [OF I0 _ _ _ _ F(5)])
    show "kmem_ok ?k" using heap_invD(1) [OF inv] by (simp add: kmem_ok_def)
    show "layout (free_set ?k) (free_blocks fl \<union> live_blocks (L - {(h, n)}))"
      using heap_invD(5) [OF I0] by (simp add: free_set_def)
  qed (use o' in simp_all)
  have live: "live_at m h n" by (rule live_at_payload [OF heap_invD(8) [OF inv h] F(1,2) o])
  note I = heap_invD [OF inv] and J = heap_invD [OF I1]
  show ?thesis
  proof (rule heap_invI)
    fix h' q
    assume hq: "(h', q) \<in> L"
    show "live_at (memory ?k) h' q" using J(8) hq live by (cases "(h', q) = (h, n)") auto
  qed (use I J in \<open>auto simp: free_set_def\<close>)
qed

lemma payload_space: "heap_inv k fl L \<Longrightarrow> (h, n) \<in> L \<Longrightarrow> in_space (h + 24) (unat n)"
  using live_parts(3) live_block_facts(1,2) by (blast intro: in_space_le)

lemma heap_inv_store:
  assumes inv: "heap_inv k fl L" and h: "(h, n) \<in> L" and i: "i < unat n"
  shows "heap_inv (k\<lparr>memory := (memory k)(h + 24 + word_of_nat i := v)\<rparr>) fl L"
proof -
  have "unat (h + 24 + word_of_nat i) = unat (h + 24) + i"
    using payload_space [OF inv h] i by (intro unat_add_small) (simp add: in_space_def)
  then show ?thesis using i by (intro heap_inv_payload [OF inv h]) (auto simp: only_in_def region_def)
qed

lemma heap_run_inv:
  assumes "heap_run k0 k L" and "kmem_ok k0" and "small_free k0 = replicate 8 0"
  shows "(\<exists>fl. heap_inv k fl L) \<and> faults k = faults k0"
  using assms
proof (induction rule: heap_run.induct)
  case start
  have "heap_inv k0 (\<lambda>c. []) {}"
    using start by (intro heap_invI) (simp_all add: layout_def free_blocks_def live_blocks_def)
  then show ?case by blast
next
  case (alloc k L n p k')
  then obtain fl where "heap_inv k fl L" by blast
  then have "allocated n k L p k'" by (rule kmalloc_inv [OF _ alloc.hyps(2)])
  then show ?case using alloc faults_kmalloc [OF alloc.hyps(2)] by (auto simp: allocated_def)
next
  case (fail k L n k')
  then obtain fl where "heap_inv k fl L" by blast
  then have "allocated n k L 0 k'" by (rule kmalloc_inv [OF _ fail.hyps(2)])
  then show ?case using fail faults_kmalloc [OF fail.hyps(2)] by (auto simp: allocated_def)
next
  case (free k L h n k')
  then obtain fl where inv: "heap_inv k fl L" by blast
  obtain k1 fl' where "kfree (h + 24) k = Some k1" "heap_inv k1 fl' (L - {(h, n)})" "faults k1 = faults k"
    by (rule kfree_live [OF inv free.hyps(2)]) (rule that)
  then show ?case using free by auto
next
  case (use k L h n i v)
  then show ?case using heap_inv_store [OF _ use.hyps(2,3)] by (auto simp: faults_def)
qed

subsection \<open>A small heap\<close>

lemma demo_heap_start: "heap_run demo_kmem demo_kmem {}"
  by (rule heap_run.start)

lemma demo_heap_inv: "heap_inv demo_kmem (\<lambda>c. []) {}"
  using demo_kmem_ok
  by (intro heap_invI) (simp_all add: layout_def free_blocks_def live_blocks_def demo_kmem_def nth_Cons' split: if_splits)

text \<open>
  The first small allocation populates its class, so it succeeds whenever a page is free.
\<close>

lemma kmalloc_small_succeeds:
  assumes inv: "heap_inv k fl L" and n: "class_for_size n = Some c" "n \<noteq> 0"
    and page: "fst (page_alloc 1 k) \<noteq> 0"
  shows "fst (kmalloc n k) \<noteq> 0"
proof -
  note c = class_for_size_Some(1) [OF n(1)]
  define k1 where "k1 = (if small_free k ! c = 0 then populate_class c k else k)"
  obtain a k2 where pa: "page_alloc 1 k = (a, k2)" by force
  have a: "a \<noteq> 0" using page pa by simp
  have "small_free k1 ! c \<noteq> 0"
  proof (cases "small_free k ! c = 0")
    case True
    then have fl: "fl c = []" using heap_invD(3) [OF inv c] by (simp add: chain_zero)
    note P = page_alloc_heap [OF inv _ pa a, simplified]
    let ?n = "4096 div class_bytes c"
    have pos: "0 < ?n" using class_bytes_bounds [OF c] by (simp add: div_greater_zero_iff)
    have e: "k1 = fold (\<lambda>i. push_block c (a + word_of_nat (i * class_bytes c))) [0..<?n] k2"
      using True a by (simp add: k1_def populate_class_def pa class_bytes_def Let_def)
    have I: "heap_inv k1 (fl(c := rev (map (slot_addr a (class_bytes c)) [0..<?n]) @ fl c)) L"
      unfolding e using push_slots_inv [OF P(1) c P(3,4) a P(5,6) order_refl] by blast
    have "rev (map (slot_addr a (class_bytes c)) [0..<?n]) @ fl c \<noteq> []" using pos by simp
    then show ?thesis using heap_invD(3) [OF I c] by (auto simp: chain_zero)
  next
    case False
    then show ?thesis by (simp add: k1_def)
  qed
  moreover have "(small_free k1 ! c) + 24 \<noteq> 0" if nz: "small_free k1 ! c \<noteq> 0"
  proof -
    obtain fl1 where I1: "heap_inv k1 fl1 L"
    proof (cases "small_free k ! c = 0")
      case True
      then have "fl c = []" using heap_invD(3) [OF inv c] by (simp add: chain_zero)
      then show ?thesis using populate_class_inv [OF inv c] that True by (auto simp: k1_def)
    next
      case False
      then show ?thesis using inv that by (simp add: k1_def)
    qed
    obtain bs where "fl1 c = small_free k1 ! c # bs" using chain_head [OF heap_invD(3) [OF I1 c] nz] by auto
    then have "blk_ok (small_free k1 ! c, class_bytes c)"
      using heap_invD(5) [OF I1] free_blockI [OF c, of "small_free k1 ! c" fl1] by (simp add: layout_def)
    moreover have "allocatable n" "block_bytes n = class_bytes c" using n by (simp_all add: allocatable_def block_bytes_def)
    ultimately show ?thesis using live_parts(7) [of n "small_free k1 ! c"] by auto
  qed
  ultimately show ?thesis
    using n by (simp add: kmalloc_def kmalloc_small_def Let_def flip: k1_def)
qed

definition demo_ptr :: u64 where "demo_ptr = fst (kmalloc 100 demo_kmem)"
definition demo_heap :: kmem where "demo_heap = snd (kmalloc 100 demo_kmem)"

lemma demo_kmalloc: "kmalloc 100 demo_kmem = (demo_ptr, demo_heap)" "demo_ptr \<noteq> 0"
proof -
  show "kmalloc 100 demo_kmem = (demo_ptr, demo_heap)" by (simp add: demo_ptr_def demo_heap_def)
  have "fst (page_alloc 1 demo_kmem) \<noteq> 0" by (simp add: page_alloc_def demo_kmem_def)
  moreover have "class_for_size 100 = Some 2" by (simp add: class_for_size_def small_class_sizes_def)
  ultimately show "demo_ptr \<noteq> 0" unfolding demo_ptr_def by (intro kmalloc_small_succeeds [OF demo_heap_inv]) simp_all
qed

lemma demo_run: "heap_run demo_kmem demo_heap {(demo_ptr - 24, 100)}"
  using heap_run.alloc [OF heap_run.start demo_kmalloc] by simp

lemma demo_heap_live: "\<exists>fl. heap_inv demo_heap fl {(demo_ptr - 24, 100)}"
  using heap_run_inv [OF demo_run demo_kmem_ok] by (simp add: demo_kmem_def)

subsection \<open>The heap\<close>

lemma payload_sub:
  assumes "heap_inv k fl L" and "(h, n) \<in> L"
  shows "region (h + 24) (unat n) \<subseteq> reg (h, block_bytes n)"
  using live_parts(4) live_block_facts(1,2) [OF assms] by blast

lemma payloads_apart:
  assumes inv: "heap_inv k fl L" and "(h, n) \<in> L" "(h', n') \<in> L" "(h, n) \<noteq> (h', n')"
  shows "region (h + 24) (unat n) \<inter> region (h' + 24) (unat n') = {}"
proof -
  have "(h', block_bytes n') \<in> live_blocks (L - {(h, n)})" using assms(3,4) by (intro live_blockI) auto
  then have "reg (h', block_bytes n') \<inter> reg (h, block_bytes n) = {}" using live_block_facts(5) [OF inv assms(2)] by blast
  then show ?thesis using payload_sub [OF inv assms(2)] payload_sub [OF inv assms(3)] by blast
qed

lemma payload_kept:
  assumes inv: "heap_inv k fl L" and hn: "(h, n) \<in> L" and un: "untouched L (memory k) m'" and x: "unat x \<in> region (h + 24) (unat n)"
  shows "m' x = memory k x"
proof -
  have "unat x \<in> (\<Union>y \<in> live_blocks L. reg y)" using payload_sub [OF inv hn] live_blockI [OF hn] x by blast
  then show ?thesis using un by (simp add: untouched_def only_in_def)
qed

text \<open>
  C24. Whatever sequence of allocations, frees of live pointers and stores by owners into the bytes
  they asked for is run on a fresh heap: the bytes handed out never overlap each other or the free
  pages, every live pointer still has its size recorded and its guard intact, freeing any of them
  returns, and no fault counter has moved.
\<close>

theorem heap_run_safe:
  assumes "heap_run k0 k L" and "kmem_ok k0" and "small_free k0 = replicate 8 0"
  shows "(\<forall>(h, n) \<in> L. kmalloc_size (h + 24) k = n \<and> region (h + 24) (unat n) \<inter> free_set k = {} \<and>
      (\<exists>k'. kfree (h + 24) k = Some k')) \<and>
    (\<forall>(h, n) \<in> L. \<forall>(h', n') \<in> L. (h, n) \<noteq> (h', n') \<longrightarrow>
      region (h + 24) (unat n) \<inter> region (h' + 24) (unat n') = {}) \<and>
    (invalid_frees k, double_frees k, guard_failures k) = (invalid_frees k0, double_frees k0, guard_failures k0)"
proof -
  obtain fl where inv: "heap_inv k fl L" and f: "faults k = faults k0" using heap_run_inv [OF assms] by blast
  have 1: "kmalloc_size (h + 24) k = n \<and> region (h + 24) (unat n) \<inter> free_set k = {} \<and> (\<exists>k'. kfree (h + 24) k = Some k')"
    if hn: "(h, n) \<in> L" for h n
    using kmalloc_size_live [OF inv hn] payload_sub [OF inv hn] live_block_facts(6) [OF inv hn] kfree_live [OF inv hn] by blast
  have 2: "region (h + 24) (unat n) \<inter> region (h' + 24) (unat n') = {}"
    if "(h, n) \<in> L" "(h', n') \<in> L" "(h, n) \<noteq> (h', n')" for h n h' n' by (rule payloads_apart [OF inv that])
  show ?thesis using 1 2 f by (auto simp: faults_def case_prod_unfold)
qed

theorem heap_run_safe_witness:
  "heap_run demo_kmem demo_heap {(demo_ptr - 24, 100)} \<and> kmalloc_size demo_ptr demo_heap = 100 \<and> guard_failures demo_heap = 0"
  using heap_run_safe [OF demo_run demo_kmem_ok] demo_run by (simp add: demo_kmem_def)

text \<open>
  C26. An allocation returns null or a new block: its bytes are apart from those of every live
  block and from the free pages, its size is recorded; the bytes of every live block are as they
  were, in both cases. The heap stays well formed.
\<close>

theorem kmalloc_correct:
  assumes "heap_inv k fl L" and "kmalloc n k = (p, k')"
  shows "(\<forall>(h, q) \<in> L. \<forall>x. unat x \<in> region (h + 24) (unat q) \<longrightarrow> memory k' x = memory k x) \<and>
    (if p = 0 then \<exists>fl'. heap_inv k' fl' L
     else (\<exists>fl'. heap_inv k' fl' (insert (p - 24, n) L)) \<and> kmalloc_size p k' = n \<and>
          (\<forall>(h, q) \<in> L. region p (unat n) \<inter> region (h + 24) (unat q) = {}))"
proof -
  have al: "allocated n k L p k'" by (rule kmalloc_inv [OF assms])
  then have un: "untouched L (memory k) (memory k')" by (simp add: allocated_def)
  have keep: "\<forall>(h, q) \<in> L. \<forall>x. unat x \<in> region (h + 24) (unat q) \<longrightarrow> memory k' x = memory k x"
    using payload_kept [OF assms(1) _ un] by blast
  show ?thesis
  proof (cases "p = 0")
    case True
    then show ?thesis using al keep by (simp add: allocated_def)
  next
    case False
    then obtain fl' where I: "heap_inv k' fl' (insert (p - 24, n) L)" and new: "(p - 24, block_bytes n) \<notin> live_blocks L"
      using al by (auto simp: allocated_def)
    have "region p (unat n) \<inter> region (h + 24) (unat q) = {}" if hq: "(h, q) \<in> L" for h q
    proof -
      have "(p - 24, n) \<noteq> (h, q)" using new live_blockI [OF hq] by auto
      then show ?thesis using payloads_apart [OF I, of "p - 24" n h q] hq by simp
    qed
    then show ?thesis using False I keep kmalloc_size_live [OF I, of "p - 24" n] by auto
  qed
qed

theorem kmalloc_correct_witness:
  "\<exists>fl. heap_inv demo_heap fl {(demo_ptr - 24, 100)} \<and> kmalloc_size demo_ptr demo_heap = 100"
  using kmalloc_correct [OF demo_heap_inv demo_kmalloc(1)] demo_kmalloc(2) by simp

lemma magic_not_aligned: "32 dvd unat (b :: u64) \<Longrightarrow> b \<noteq> KMEM_ALLOC_MAGIC"
  by auto

text \<open>
  C36. Freeing a live pointer twice is detected: the second free returns, counts one double free
  and changes nothing else, for small blocks and for pages. (The free list's next pointer replaces
  the freed mark of a small block; the search of the free lists finds the block all the same.)
\<close>

theorem kfree_detects_double_free:
  assumes inv: "heap_inv k fl L" and h: "(h, n) \<in> L" and free: "kfree (h + 24) k = Some k1"
  shows "kfree (h + 24) k1 = Some (k1\<lparr>double_frees := double_frees k1 + 1\<rparr>)"
proof -
  note F = live_block_facts [OF inv h]
  have ne: "h + 24 \<noteq> 0" "h \<noteq> 0" using live_parts(7) [OF F(1,2)] F(2) by (auto simp: blk_ok_def)
  show ?thesis
  proof (cases "class_for_size n")
    case None
    have "load64 (memory k1) h = KMEM_FREED_MAGIC"
      by (rule kfree_large_inv [OF inv h None]) (use free in simp)
    then show ?thesis using ne by (simp add: kfree_def Let_def read_header_def)
  next
    case (Some c)
    note c = class_for_size_Some(1) [OF Some]
    have I1: "heap_inv k1 (fl(c := h # fl c)) (L - {(h, n)})" by (rule kfree_small_inv(1) [OF inv h Some free])
    have "chain (memory k1) (load64 (memory k1) h) (fl c)" using heap_invD(3) [OF I1 c] by simp
    then have "load64 (memory k1) h = 0 \<or> load64 (memory k1) h \<in> set (fl c)" by (cases "fl c") auto
    moreover have "32 dvd unat b" if "b \<in> set (fl c)" for b
    proof -
      have "blk_ok (b, class_bytes c)"
        using heap_invD(5) [OF inv] free_blockI [OF c, of b fl] that unfolding layout_def by blast
      then show ?thesis by (simp add: blk_ok_def)
    qed
    ultimately have "load64 (memory k1) h \<noteq> KMEM_ALLOC_MAGIC" using magic_not_aligned by fastforce
    moreover have "small_free_list_contains h k1 = Some True"
      using small_free_list_contains_decides [OF I1 ne(2)] c by auto
    ultimately show ?thesis using ne by (simp add: kfree_def Let_def read_header_def)
  qed
qed

theorem kfree_detects_double_free_witness:
  "\<exists>k1. kfree demo_ptr demo_heap = Some k1 \<and> kfree demo_ptr k1 = Some (k1\<lparr>double_frees := double_frees k1 + 1\<rparr>)"
proof -
  obtain fl where I: "heap_inv demo_heap fl {(demo_ptr - 24, 100)}" using demo_heap_live by blast
  obtain k1 fl' where "kfree (demo_ptr - 24 + 24) demo_heap = Some k1"
    by (rule kfree_live [OF I, of "demo_ptr - 24" 100]) (simp, rule that)
  then show ?thesis using kfree_detects_double_free [OF I, of "demo_ptr - 24" 100 k1] by simp
qed

text \<open>
  A freed small block is the next one its class hands out: allocating the same number of
  bytes again returns the same pointer.
\<close>

lemma kfree_kmalloc_reuse:
  assumes inv: "heap_inv k fl L" and h: "(h, n) \<in> L" and small: "unat n + 28 \<le> 4096"
    and free: "kfree (h + 24) k = Some k1"
  shows "\<exists>k2. kmalloc n k1 = (h + 24, k2)"
proof -
  obtain c where c: "class_for_size n = Some c" using small class_for_size_None [of n] by (cases "class_for_size n") auto
  note F = live_block_facts [OF inv h]
  have I1: "heap_inv k1 (fl(c := h # fl c)) (L - {(h, n)})" by (rule kfree_small_inv(1) [OF inv h c free])
  have "small_free k1 ! c = h" "h \<noteq> 0" using heap_invD(3) [OF I1 class_for_size_Some(1) [OF c]] by auto
  moreover have "n \<noteq> 0" using F(1) by (simp add: allocatable_def)
  ultimately show ?thesis by (simp add: kmalloc_def c kmalloc_small_def Let_def)
qed

text \<open>
  The size class of a request is the smallest block that holds the header, the requested bytes
  and the guard; a request has no class exactly if it does not fit into a page.
\<close>

lemma class_for_size_smallest:
  "case class_for_size n of
     Some c \<Rightarrow> c < 8 \<and> unat n + 28 \<le> unat (small_class_sizes ! c) \<and>
       (c = 0 \<or> unat (small_class_sizes ! (c - 1)) < unat n + 28)
   | None \<Rightarrow> 4096 < unat n + 28"
proof (cases "class_for_size n")
  case None
  then show ?thesis using class_for_size_None [of n] by simp
next
  case (Some c)
  then show ?thesis using class_for_size_Some [OF Some] by (cases c) (simp_all add: class_bytes_def)
qed

subsection \<open>Statistics\<close>

lemma range_extremes_spec:
  "range_extremes largest smallest rs = (l, s) \<Longrightarrow> \<forall>r \<in> set rs. pr_pages r \<noteq> 0 \<Longrightarrow>
     largest \<le> l \<and> (\<forall>r \<in> set rs. pr_pages r \<le> l) \<and> (l = largest \<or> l \<in> pr_pages ` set rs) \<and>
     (\<forall>r \<in> set rs. s \<le> pr_pages r) \<and> (smallest = 0 \<or> s \<le> smallest) \<and>
     (s = smallest \<or> s \<in> pr_pages ` set rs) \<and> (rs = [] \<or> s \<noteq> 0)"
proof (induction rs arbitrary: largest smallest)
  case (Cons r rs)
  let ?l = "if pr_pages r > largest then pr_pages r else largest"
  let ?s = "if smallest = 0 \<or> pr_pages r < smallest then pr_pages r else smallest"
  have r: "pr_pages r \<noteq> 0" using Cons.prems(2) by simp
  have "range_extremes ?l ?s rs = (l, s)" using Cons.prems(1) by simp
  moreover have "\<forall>q \<in> set rs. pr_pages q \<noteq> 0" using Cons.prems(2) by simp
  ultimately have IH: "?l \<le> l \<and> (\<forall>r \<in> set rs. pr_pages r \<le> l) \<and> (l = ?l \<or> l \<in> pr_pages ` set rs) \<and>
     (\<forall>r \<in> set rs. s \<le> pr_pages r) \<and> (?s = 0 \<or> s \<le> ?s) \<and> (s = ?s \<or> s \<in> pr_pages ` set rs) \<and> (rs = [] \<or> s \<noteq> 0)"
    by (rule Cons.IH)
  have sz: "?s \<noteq> 0" using r by auto
  have "largest \<le> ?l" "pr_pages r \<le> ?l" "?l = largest \<or> ?l = pr_pages r" by auto
  moreover have "?s \<le> pr_pages r" "smallest = 0 \<or> ?s \<le> smallest" "?s = smallest \<or> ?s = pr_pages r" by auto
  moreover have "s \<noteq> 0" using IH sz by (cases rs) auto
  ultimately show ?case using IH sz order_trans [of s ?s] order_trans [of _ ?l l] by (simp add: image_iff) metis
qed simp

end
