(* ===== verification/Boot_Props.thy ===== *)
theory Boot_Props
  imports Boot_Memory Kmem_Heap_Props
begin

text \<open>
  The properties of the boot-time memory set-up, with witnesses on a machine whose memory map has
  one descriptor: 64 MB of conventional memory from one megabyte on.
\<close>

subsection \<open>A machine\<close>

definition demo_map :: memory where
  "demo_map = store32 0x1000 7 (store64 0x1008 0x100000 (store64 0x1018 16384 (\<lambda>a. 0)))"

definition demo_boot :: boot_info_t where
  "demo_boot = \<lparr>bi_magic = 0x4C41494E424F4F54, bi_kernel_base = 0x200000, bi_kernel_size = 0x80000, bi_memory_map = 0x1000,
     bi_memory_map_size = 48, bi_memory_map_descriptor_size = 48, bi_memory_map_descriptor_version = 1,
     bi_framebuffer_base = 0, bi_framebuffer_width = 0, bi_framebuffer_height = 0,
     bi_framebuffer_pixels_per_scanline = 0, bi_framebuffer_format = 0, bi_rsdp = 0\<rparr>"

definition demo_desc :: efi_memory_descriptor_t where
  "demo_desc = \<lparr>ed_type = 7, ed_pad = 0, ed_physical_start = 0x100000, ed_virtual_start = 0,
     ed_number_of_pages = 16384, ed_attribute = 0\<rparr>"

lemma demo_read: "read_descriptor demo_map 0x1000 = demo_desc"
  by code_simp

lemma demo_bounded: "map_bounded demo_boot" "map_count demo_boot = 1"
  by (simp_all add: map_bounded_def demo_boot_def map_count_def)

lemma demo_descriptors: "map_descriptors demo_boot demo_map = [demo_desc]"
  using demo_read by (simp add: map_descriptors_def demo_bounded) (simp add: demo_boot_def)

lemma demo_descs_ok: "descs_ok [demo_desc]"
  by (simp add: descs_ok_def desc_ok_def demo_desc_def)

lemma demo_conventional: "desc_conventional demo_desc"
  by (simp add: desc_conventional_def demo_desc_def)

definition demo_before :: kmem where
  "demo_before = demo_kmem\<lparr>memory := demo_map\<rparr>"

lemma demo_memory: "memory demo_before = demo_map"
  by (simp add: demo_before_def)

lemma demo_regions: "\<forall>(base, len) \<in> set (boot_regions demo_boot 0 0). region_ok base len"
  by (simp add: boot_regions_def demo_boot_def region_ok_def)

subsection \<open>Initialisation\<close>

text \<open>
  C37. Given a memory map whose conventional regions are apart and do not wrap, with at most 123
  descriptors of conventional memory, initialising the page allocator returns, and the free pages are exactly the whole
  pages of conventional memory from one megabyte on that no reserved region (kernel image, memory
  map, RSDP page, framebuffer, DMA pool) touches; the table is canonical and both page counters
  are exact.
\<close>

theorem kmem_init_correct:
  assumes "bi_memory_map info \<noteq> 0" and "bi_memory_map_size info \<noteq> 0" and "map_bounded info"
    and "descs_ok (map_descriptors info (memory k))" and "length (filter desc_conventional (map_descriptors info (memory k))) \<le> 123"
    and "\<forall>(base, len) \<in> set (boot_regions info pool_base pool_size). region_ok base len"
  shows "\<exists>k'. kmem_init (Some info) pool_base pool_size k = Some k' \<and> kmem_ok k' \<and>
    free_set k' = (\<Union>d \<in> set (map_descriptors info (memory k)). gained d) -
      reserved (boot_regions info pool_base pool_size) \<and>
    total_page_count k' = free_page_count k'"
proof -
  obtain k' where "kmem_init (Some info) pool_base pool_size k = Some k'" "kmem_ok k'"
    "free_set k' = (\<Union>d \<in> set (map_descriptors info (memory k)). gained d) - reserved (boot_regions info pool_base pool_size)"
    "total_page_count k' = free_page_count k'"
    by (rule kmem_init_returns [OF assms(1-4,6,5)]) (rule that)
  then show ?thesis by blast
qed

theorem kmem_init_correct_witness:
  "\<exists>k'. kmem_init (Some demo_boot) 0 0 demo_before = Some k' \<and> kmem_ok k' \<and>
    free_set k' = gained demo_desc - reserved (boot_regions demo_boot 0 0)"
proof -
  have "bi_memory_map demo_boot \<noteq> 0" "bi_memory_map_size demo_boot \<noteq> 0" by (simp_all add: demo_boot_def)
  then show ?thesis
    using kmem_init_correct [of demo_boot demo_before 0 0] demo_bounded demo_descs_ok demo_regions
    by (auto simp: demo_memory demo_descriptors demo_conventional)
qed

text \<open>
  C25. The order of initialisation in \<^verbatim>\<open>kernel_main\<close>, DMA pool first and page allocator second,
  keeps the two apart, for a memory map with at most 123 descriptors of conventional memory, which are apart and do
  not wrap: both return, and no page of the pool, of the kernel image or of the memory
  map is free in the page allocator; the pool lies between 16 MiB and 4 GiB, apart
  from the kernel image and the memory map. Without the bound the table of free ranges can be full when a
  region is reserved, and the region then stays free (lemma \<open>reserve_range_full_table\<close>).
\<close>

theorem boot_memory_apart:
  assumes "bi_memory_map info \<noteq> 0" and "bi_memory_map_size info \<noteq> 0" and "map_bounded info"
    and "descs_ok (map_descriptors info (memory k))" and "length (filter desc_conventional (map_descriptors info (memory k))) \<le> 123"
    and "\<forall>(base, len) \<in> set (boot_regions info 0 0). region_ok base len"
  shows "\<exists>d k'. dma_init (Some info) (memory k) = Some d \<and>
    kmem_init (Some info) (dma_pool_base d) (dma_pool_size d) k = Some k' \<and> kmem_ok k' \<and>
    free_set k' \<inter> region (bi_kernel_base info) (unat (bi_kernel_size info)) = {} \<and>
    free_set k' \<inter> region (bi_memory_map info) (unat (bi_memory_map_size info)) = {} \<and>
    (dma_pool_base d = 0 \<or>
     free_set k' \<inter> dma_pool d = {} \<and> dma_pool d \<subseteq> {0x1000000..<2 ^ 32} \<and>
     dma_pool d \<inter> region (bi_kernel_base info) (unat (bi_kernel_size info)) = {} \<and>
     dma_pool d \<inter> region (bi_memory_map info) (unat (bi_memory_map_size info)) = {})"
proof -
  have ok: "region_ok (bi_kernel_base info) (bi_kernel_size info)" "region_ok (bi_memory_map info) (bi_memory_map_size info)"
    using assms(6) by (auto simp: boot_regions_def)
  obtain d where D: "dma_init (Some info) (memory k) = Some d" "dma_ok d"
    "dma_pool_base d = 0 \<or>
     (\<exists>desc \<in> set (map_descriptors info (memory k)). dma_pool d = pool_region (dma_pool_base d) \<and> 4096 dvd unat (dma_pool_base d) \<and>
        0x1000000 \<le> unat (dma_pool_base d) \<and> unat (dma_pool_base d) + 4194304 \<le> 2 ^ 32 \<and>
        desc_conventional desc \<and> dma_pool d \<subseteq> desc_region desc \<and>
        dma_pool d \<inter> region (bi_kernel_base info) (unat (bi_kernel_size info)) = {} \<and>
        dma_pool d \<inter> region (bi_memory_map info) (unat (bi_memory_map_size info)) = {})"
    "dma_pool_base d = 0 \<or> dma_pool_size d = DMA_POOL_SIZE"
    by (rule dma_init_returns [OF assms(3,4) ok]) (rule that)
  let ?R = "boot_regions info (dma_pool_base d) (dma_pool_size d)"
  have "dma_pool_base d \<noteq> 0 \<Longrightarrow> region_ok (dma_pool_base d) (dma_pool_size d)"
    using D(3,4) by (auto simp: region_ok_def)
  then have R: "\<forall>(base, len) \<in> set ?R. region_ok base len" using assms(6) by (auto simp: boot_regions_def)
  obtain k' where K: "kmem_init (Some info) (dma_pool_base d) (dma_pool_size d) k = Some k'" "kmem_ok k'"
    "free_set k' = (\<Union>d \<in> set (map_descriptors info (memory k)). gained d) - reserved ?R"
    by (rule kmem_init_returns [OF assms(1-4) R assms(5)]) (rule that)
  have sub: "region base (unat len) \<subseteq> reserved ?R" if "(base, len) \<in> set ?R" for base len
    using that region_touched [of base "unat len"] unfolding reserved_def by blast
  have "region (bi_kernel_base info) (unat (bi_kernel_size info)) \<subseteq> reserved ?R"
    "region (bi_memory_map info) (unat (bi_memory_map_size info)) \<subseteq> reserved ?R"
    by (rule sub, simp add: boot_regions_def)+
  moreover have "dma_pool d \<subseteq> reserved ?R \<and> dma_pool d \<subseteq> {0x1000000..<2 ^ 32}" if "dma_pool_base d \<noteq> 0"
  proof -
    have "region (dma_pool_base d) (unat (dma_pool_size d)) \<subseteq> reserved ?R"
      using that D(4) by (intro sub) (auto simp: boot_regions_def)
    moreover have "region (dma_pool_base d) (unat (dma_pool_size d)) = dma_pool d"
      by (simp add: region_def dma_pool_def dma_pool_base_def dma_pool_size_def)
    moreover have "dma_pool d \<subseteq> {0x1000000..<2 ^ 32}"
      using that D(3) by (auto simp: pool_region_def)
    ultimately show ?thesis by simp
  qed
  ultimately show ?thesis using D(1,3) K by (intro exI [of _ d] exI [of _ k'] conjI) blast+
qed

theorem boot_memory_apart_witness:
  "\<exists>d k'. dma_init (Some demo_boot) demo_map = Some d \<and>
    kmem_init (Some demo_boot) (dma_pool_base d) (dma_pool_size d) demo_before = Some k' \<and> kmem_ok k' \<and>
    free_set k' \<inter> region 0x200000 0x80000 = {}"
proof -
  have e: "bi_memory_map demo_boot \<noteq> 0" "bi_memory_map_size demo_boot \<noteq> 0" "bi_kernel_base demo_boot = 0x200000"
    "unat (bi_kernel_size demo_boot) = 0x80000" by (simp_all add: demo_boot_def)
  then show ?thesis
    using boot_memory_apart [of demo_boot demo_before] demo_bounded demo_descs_ok demo_regions
    by (auto simp: demo_memory demo_descriptors demo_conventional)
qed

subsection \<open>The DMA pool\<close>

text \<open>
  C38. Whatever sequence of allocations is made from the DMA pool, for any sizes and alignments:
  the blocks handed out lie in the pool and never overlap.
\<close>

theorem dma_run_safe:
  assumes "dma_run d0 d bs" and "dma_ok d0"
  shows "(\<forall>b \<in> set bs. region (fst b) (unat (snd b)) \<subseteq> dma_pool d0) \<and>
    sorted_wrt (\<lambda>b c. region (fst b) (unat (snd b)) \<inter> region (fst c) (unat (snd c)) = {}) bs"
  using dma_run_inv [OF assms] by blast

theorem dma_run_safe_witness:
  "\<exists>d. dma_run (pool_at 0x1000000) d [(0x1000040, 8), (0x1000000, 50)] \<and>
    region 0x1000040 8 \<subseteq> dma_pool (pool_at 0x1000000)"
proof -
  obtain d1 m1 where 1: "dma_alloc 50 16 (pool_at 0x1000000) (\<lambda>a. 0) = (0x1000000, d1, m1)" "d1 = (pool_at 0x1000000)\<lparr>dma_pool_offset := 50\<rparr>"
    by (simp add: dma_alloc_def pool_at_def dma_align_up64_def)
  obtain d2 m2 where 2: "dma_alloc 8 64 d1 (\<lambda>a. 0) = (0x1000040, d2, m2)"
    by (simp add: 1(2) dma_alloc_def pool_at_def dma_align_up64_def)
  have "dma_run (pool_at 0x1000000) d2 [(0x1000040, 8), (0x1000000, 50)]"
    by (rule dma_run.alloc [OF dma_run.alloc [OF dma_run.start 1(1)] 2]) simp_all
  moreover have "dma_ok (pool_at 0x1000000)" by (simp add: dma_ok_def pool_at_def)
  ultimately show ?thesis using dma_run_safe [of "pool_at 0x1000000" d2 "[(0x1000040, 8), (0x1000000, 50)]"] by auto
qed

subsection \<open>A full table\<close>

lemma reserve_loop_full:
  assumes "128 \<le> length (free_ranges k)"
    and "\<forall>r \<in> set (free_ranges k). let range_end = pr_start r + pr_pages r * 4096 in
      \<not> overlaps (pr_start r) range_end start end \<or> pr_start r < start \<and> end < range_end"
  shows "reserve_loop start end i k = k"
proof (induction "length (free_ranges k) - i" arbitrary: i)
  case 0
  then show ?case by (subst reserve_loop.simps) simp
next
  case (Suc n)
  then have i: "i < length (free_ranges k)" by simp
  have "reserve_step start end i k = (True, k)"
    using assms i by (auto simp: reserve_step_def Let_def dest!: nth_mem)
  then have "reserve_loop start end i k = reserve_loop start end (i + 1) k"
    using i by (subst reserve_loop.simps) simp
  also have "\<dots> = k" using Suc by simp
  finally show ?case .
qed

text \<open>
  With a full table a region in the middle of a free range is not reserved: splitting the
  range would need another entry, and the table is left as it is, so the reserved pages stay
  allocatable.
\<close>

lemma reserve_range_full_table:
  assumes "128 \<le> length (free_ranges k)"
    and "\<forall>r \<in> set (free_ranges k). let range_end = pr_start r + pr_pages r * 4096 in
      \<not> overlaps (pr_start r) range_end (align_down64 start 4096) (align_up64 end 4096) \<or>
      pr_start r < align_down64 start 4096 \<and> align_up64 end 4096 < range_end"
  shows "reserve_range start end k = k"
  using reserve_loop_full [OF assms] by (simp add: reserve_range_def)

definition full_table :: kmem where
  "full_table = demo_kmem\<lparr>free_ranges :=
     map (\<lambda>i. \<lparr>pr_start = 0x100000 + word_of_nat i * 0x10000, pr_pages = 4\<rparr>) [0..<128]\<rparr>"

end
