(* ===== verification/Registry.thy ===== *)
theory Registry
  imports Storage "HOL-Library.Monad_Syntax"
begin

text \<open>
  The settings registry, \<^verbatim>\<open>kernel/core/registry.c\<close>: a table of 96 slots, each a key and a
  value kept as NUL-terminated character arrays, with a hook that is called after every change.

  A C string argument is a list of bytes that ends at its first zero byte, or at the end of the
  list; a null pointer is \<^term>\<open>None\<close>. The hook is code of the shell that reads the
  table and changes the world outside the registry (the file system), and it may fail to return:
  it is a function from the entries and that world to an optional new world.
\<close>

subsection \<open>Data\<close>

abbreviation REGISTRY_MAX_ENTRIES :: nat where "REGISTRY_MAX_ENTRIES \<equiv> 96"
abbreviation REGISTRY_KEY_SIZE :: nat where "REGISTRY_KEY_SIZE \<equiv> 48"
abbreviation REGISTRY_VALUE_SIZE :: nat where "REGISTRY_VALUE_SIZE \<equiv> 96"

abbreviation REGISTRY_OK :: int where "REGISTRY_OK \<equiv> 0"
abbreviation REGISTRY_ERR_INPUT :: int where "REGISTRY_ERR_INPUT \<equiv> -1"
abbreviation REGISTRY_ERR_NOT_FOUND :: int where "REGISTRY_ERR_NOT_FOUND \<equiv> -2"
abbreviation REGISTRY_ERR_FULL :: int where "REGISTRY_ERR_FULL \<equiv> -3"
abbreviation REGISTRY_ERR_TOO_LONG :: int where "REGISTRY_ERR_TOO_LONG \<equiv> -4"

record registry_entry_t =
  re_used :: bool
  re_key :: bytes
  re_value :: bytes

type_synonym 'w save_hook = "registry_entry_t list \<Rightarrow> 'w \<Rightarrow> 'w option"

record 'w registry =
  registry_entries :: "registry_entry_t list"
  registry_save_hook :: "'w save_hook option"
  registry_save_suspended :: bool
  hook_world :: 'w

subsection \<open>Strings\<close>

fun registry_streq :: "bytes \<Rightarrow> bytes \<Rightarrow> bool" where
  "registry_streq (a # as) (b # bs) =
     (if a \<noteq> 0 \<and> b \<noteq> 0 \<and> a = b then registry_streq as bs else a = 0 \<and> b = 0)"
| "registry_streq (a # as) [] = (a = 0)"
| "registry_streq [] (b # bs) = (b = 0)"
| "registry_streq [] [] = True"

fun strlen_loop :: "bytes \<Rightarrow> u32 \<Rightarrow> u32" where
  "strlen_loop [] len = len"
| "strlen_loop (c # cs) len = (if c \<noteq> 0 then strlen_loop cs (len + 1) else len)"

definition registry_strlen :: "bytes option \<Rightarrow> u32" where
  "registry_strlen s = (case s of None \<Rightarrow> 0 | Some cs \<Rightarrow> strlen_loop cs 0)"

fun copy_loop :: "nat \<Rightarrow> nat \<Rightarrow> bytes \<Rightarrow> bytes \<Rightarrow> bytes" where
  "copy_loop i dst_size [] dst = dst[i := 0]"
| "copy_loop i dst_size (c # cs) dst =
     (if c \<noteq> 0 \<and> i + 1 < dst_size then copy_loop (i + 1) dst_size cs (dst[i := c]) else dst[i := 0])"

definition registry_copy :: "bytes \<Rightarrow> nat \<Rightarrow> bytes \<Rightarrow> bytes" where
  "registry_copy dst dst_size src = (if dst_size = 0 then dst else copy_loop 0 dst_size src dst)"

subsection \<open>Numbers\<close>

definition registry_hex_digit :: "u8 \<Rightarrow> u32 option" where
  "registry_hex_digit ch =
     (if 48 \<le> ch \<and> ch \<le> 57 then Some (ucast (ch - 48))
      else if 97 \<le> ch \<and> ch \<le> 102 then Some (10 + ucast (ch - 97))
      else if 65 \<le> ch \<and> ch \<le> 70 then Some (10 + ucast (ch - 65))
      else None)"

fun parse_skip_blanks :: "bytes \<Rightarrow> bytes" where
  "parse_skip_blanks [] = []"
| "parse_skip_blanks (c # cs) = (if c = 32 \<or> c = 9 then parse_skip_blanks cs else c # cs)"

text \<open>The \<^verbatim>\<open>#\<close> and \<^verbatim>\<open>0x\<close> prefixes.\<close>

definition parse_prefix :: "bytes \<Rightarrow> bool \<times> bytes" where
  "parse_prefix text =
     (case text of
        [] \<Rightarrow> (False, [])
      | c # cs \<Rightarrow>
          if c = 35 then (True, cs)
          else case cs of
            [] \<Rightarrow> (False, text)
          | x # rest \<Rightarrow> if c = 48 \<and> (x = 120 \<or> x = 88) then (True, rest) else (False, text))"

fun parse_digits :: "bool \<Rightarrow> u32 \<Rightarrow> bytes \<Rightarrow> u32 option" where
  "parse_digits hex v [] = Some v"
| "parse_digits hex v (c # cs) =
     (if c = 0 \<or> c = 32 \<or> c = 9 then Some v
      else if hex
      then (case registry_hex_digit c of None \<Rightarrow> None
            | Some digit \<Rightarrow> parse_digits hex (push_bit 4 v OR digit) cs)
      else if c < 48 \<or> 57 < c then None
      else parse_digits hex (v * 10 + ucast (c - 48)) cs)"

definition registry_parse_u32 :: "bytes option \<Rightarrow> u32 option" where
  "registry_parse_u32 text =
     (case text of None \<Rightarrow> None
      | Some t \<Rightarrow>
          let (hex, t1) = parse_prefix (parse_skip_blanks t)
          in if t1 = [] \<or> hd t1 = 0 then None else parse_digits hex 0 t1)"

subsection \<open>Operations\<close>

definition registry_find :: "bytes \<Rightarrow> registry_entry_t list \<Rightarrow> nat option" where
  "registry_find key es =
     find (\<lambda>i. re_used (es ! i) \<and> registry_streq (re_key (es ! i)) key) [0..<REGISTRY_MAX_ENTRIES]"

definition registry_set_save_hook :: "'w save_hook option \<Rightarrow> 'w registry \<Rightarrow> 'w registry" where
  "registry_set_save_hook hook r = r\<lparr>registry_save_hook := hook\<rparr>"

definition registry_suspend_save :: "int \<Rightarrow> 'w registry \<Rightarrow> 'w registry" where
  "registry_suspend_save suspend r = r\<lparr>registry_save_suspended := suspend \<noteq> 0\<rparr>"

definition run_save_hook :: "'w registry \<Rightarrow> 'w registry option" where
  "run_save_hook r =
     (case registry_save_hook r of
        None \<Rightarrow> Some r
      | Some hook \<Rightarrow>
          if registry_save_suspended r then Some r
          else map_option (\<lambda>w. r\<lparr>hook_world := w\<rparr>) (hook (registry_entries r) (hook_world r)))"

text \<open>The slot a key is stored in: the one it has, or the first unused one, which takes the key.\<close>

definition registry_slot :: "bytes \<Rightarrow> registry_entry_t list \<Rightarrow> (nat \<times> registry_entry_t list) option" where
  "registry_slot key es =
     (case registry_find key es of
        Some i \<Rightarrow> Some (i, es)
      | None \<Rightarrow>
          case find (\<lambda>i. \<not> re_used (es ! i)) [0..<REGISTRY_MAX_ENTRIES] of
            None \<Rightarrow> None
          | Some i \<Rightarrow> Some (i, es[i := (es ! i)\<lparr>re_used := True,
                re_key := registry_copy (re_key (es ! i)) REGISTRY_KEY_SIZE key\<rparr>]))"

definition registry_set :: "bytes option \<Rightarrow> bytes option \<Rightarrow> 'w registry \<Rightarrow> (int \<times> 'w registry) option" where
  "registry_set key_ptr value_ptr r =
     (case (key_ptr, value_ptr) of
        (Some key, Some val) \<Rightarrow>
          if key = [] \<or> hd key = 0 then Some (REGISTRY_ERR_INPUT, r)
          else if of_nat REGISTRY_KEY_SIZE \<le> registry_strlen (Some key) \<or>
                  of_nat REGISTRY_VALUE_SIZE \<le> registry_strlen (Some val)
          then Some (REGISTRY_ERR_TOO_LONG, r)
          else (case registry_slot key (registry_entries r) of
                  None \<Rightarrow> Some (REGISTRY_ERR_FULL, r)
                | Some (i, es) \<Rightarrow>
                    let e = es ! i;
                        es' = es[i := e\<lparr>re_value := registry_copy (re_value e) REGISTRY_VALUE_SIZE val\<rparr>]
                    in do { r' \<leftarrow> run_save_hook (r\<lparr>registry_entries := es'\<rparr>); Some (REGISTRY_OK, r') })
      | _ \<Rightarrow> Some (REGISTRY_ERR_INPUT, r))"

definition registry_get :: "bytes option \<Rightarrow> 'w registry \<Rightarrow> bytes option" where
  "registry_get key r =
     (case key of None \<Rightarrow> None
      | Some k \<Rightarrow> (case registry_find k (registry_entries r) of None \<Rightarrow> None
                   | Some i \<Rightarrow> Some (re_value (registry_entries r ! i))))"

text \<open>The status, and the value stored through the pointer \<^verbatim>\<open>out_value\<close>, which is not null.\<close>

definition registry_get_u32 :: "bytes option \<Rightarrow> u32 \<Rightarrow> 'w registry \<Rightarrow> int \<times> u32" where
  "registry_get_u32 key default_value r =
     (case registry_parse_u32 (registry_get key r) of
        None \<Rightarrow> (REGISTRY_ERR_NOT_FOUND, default_value)
      | Some v \<Rightarrow> (REGISTRY_OK, v))"

definition registry_count :: "registry_entry_t list \<Rightarrow> nat" where
  "registry_count es = foldl (\<lambda>count i. if re_used (es ! i) then count + 1 else count) 0 [0..<REGISTRY_MAX_ENTRIES]"

fun used_at :: "registry_entry_t list \<Rightarrow> nat \<Rightarrow> nat \<Rightarrow> nat list \<Rightarrow> registry_entry_t option" where
  "used_at es index seen [] = None"
| "used_at es index seen (i # is) =
     (if \<not> re_used (es ! i) then used_at es index seen is
      else if seen = index then Some (es ! i)
      else used_at es index (seen + 1) is)"

definition registry_key_at :: "nat \<Rightarrow> registry_entry_t list \<Rightarrow> bytes option" where
  "registry_key_at index es = map_option re_key (used_at es index 0 [0..<REGISTRY_MAX_ENTRIES])"

definition registry_value_at :: "nat \<Rightarrow> registry_entry_t list \<Rightarrow> bytes option" where
  "registry_value_at index es = map_option re_value (used_at es index 0 [0..<REGISTRY_MAX_ENTRIES])"

fun set_all :: "(string \<times> string) list \<Rightarrow> 'w registry \<Rightarrow> 'w registry option" where
  "set_all [] r = Some r"
| "set_all ((k, v) # kvs) r = do { (st, r') \<leftarrow> registry_set (Some (ascii k)) (Some (ascii v)) r; set_all kvs r' }"

definition default_settings :: "(string \<times> string) list" where
  "default_settings =
     [(''desktop.theme'', ''lain''), (''desktop.bg.top'', ''0x35063e''), (''desktop.bg.bottom'', ''0x2b1d3d''),
      (''desktop.bg.image'', ''''), (''desktop.topbar'', ''0x100b18''), (''desktop.taskbar'', ''0x171020''),
      (''desktop.panel'', ''0x221a2d''), (''desktop.panel.inner'', ''0x3a2f49''), (''desktop.accent'', ''0xe05f4f''),
      (''desktop.accent.soft'', ''0xb98556''), (''desktop.text'', ''0xf6eadb''), (''desktop.button'', ''0x8f3f62''),
      (''desktop.task.active'', ''0x4b2347''), (''desktop.task.inactive'', ''0x2d2038''),
      (''desktop.title.left'', ''0x7c3a78''), (''desktop.title.right'', ''0xe05f4f'')]"

definition registry_init :: "'w registry \<Rightarrow> 'w registry option" where
  "registry_init r = set_all default_settings r"

text \<open>The static table before the first call: all zero.\<close>

definition empty_registry :: "'w \<Rightarrow> 'w registry" where
  "empty_registry w =
     \<lparr>registry_entries = replicate REGISTRY_MAX_ENTRIES
        \<lparr>re_used = False, re_key = replicate REGISTRY_KEY_SIZE 0, re_value = replicate REGISTRY_VALUE_SIZE 0\<rparr>,
      registry_save_hook = None, registry_save_suspended = False, hook_world = w\<rparr>"

end
