(* ===== verification/Settings_Store.thy ===== *)
theory Settings_Store
  imports Prelude
begin

text \<open>
  The interface between the settings registry and the code that fills it, the boot-time defaults
  and the loader of the settings file: storing a pair of a key and a value either changes exactly
  that key, or, when the pair cannot be stored, changes nothing. The laws are about well-formed pairs, strings
  that a caller can pass. The lemmas derive what storing a whole list
  of pairs does.
\<close>

fun put_all :: "('k \<Rightarrow> 'v \<Rightarrow> 's \<Rightarrow> 's option) \<Rightarrow> ('k \<times> 'v) list \<Rightarrow> 's \<Rightarrow> 's option" where
  "put_all put [] s = Some s"
| "put_all put ((k, v) # kvs) s = Option.bind (put k v s) (put_all put kvs)"

locale settings_store =
  fixes inv :: "'s \<Rightarrow> bool"
    and view :: "'s \<Rightarrow> ('k \<rightharpoonup> 'v)"
    and wf :: "'k \<Rightarrow> 'v \<Rightarrow> bool"
    and storable :: "'k \<Rightarrow> 'v \<Rightarrow> bool"
    and capacity :: nat
    and put :: "'k \<Rightarrow> 'v \<Rightarrow> 's \<Rightarrow> 's option"
  assumes finite_view: "inv s \<Longrightarrow> finite (dom (view s))"
    and put_stored: "inv s \<Longrightarrow> wf k v \<Longrightarrow> storable k v \<Longrightarrow> k \<in> dom (view s) \<or> card (dom (view s)) < capacity \<Longrightarrow>
      \<exists>s'. put k v s = Some s' \<and> inv s' \<and> view s' = (view s)(k \<mapsto> v)"
    and put_rejected: "inv s \<Longrightarrow> wf k v \<Longrightarrow> \<not> storable k v \<or> k \<notin> dom (view s) \<and> capacity \<le> card (dom (view s)) \<Longrightarrow>
      put k v s = Some s"
begin

lemma put_total: "inv s \<Longrightarrow> wf k v \<Longrightarrow> \<exists>s'. put k v s = Some s' \<and> inv s'"
  using put_stored [of s k v] put_rejected [of s k v] by (meson not_less)

lemma put_all_total: "inv s \<Longrightarrow> \<forall>(k, v) \<in> set kvs. wf k v \<Longrightarrow> \<exists>s'. put_all put kvs s = Some s' \<and> inv s'"
proof (induction kvs arbitrary: s)
  case Nil
  then show ?case by simp
next
  case (Cons p kvs)
  obtain k v where p: "p = (k, v)" by force
  obtain s1 where "put k v s = Some s1" "inv s1" using put_total [of s k v] Cons.prems p by auto
  then show ?case using Cons.IH [of s1] Cons.prems p by simp
qed

text \<open>With room for all keys, later pairs win over earlier ones and over what was there.\<close>

lemma put_all_view:
  assumes "inv s" and "\<forall>(k, v) \<in> set kvs. wf k v \<and> storable k v"
    and "card (dom (view s) \<union> fst ` set kvs) \<le> capacity"
  shows "\<exists>s'. put_all put kvs s = Some s' \<and> inv s' \<and> view s' = view s ++ map_of (rev kvs)"
  using assms
proof (induction kvs arbitrary: s)
  case Nil
  then show ?case by simp
next
  case (Cons p kvs)
  obtain k v where p: "p = (k, v)" by force
  have fin: "finite (dom (view s) \<union> fst ` set (p # kvs))" using finite_view [OF Cons.prems(1)] by simp
  have "k \<in> dom (view s) \<or> card (dom (view s)) < capacity"
  proof (rule disjCI)
    assume "\<not> card (dom (view s)) < capacity"
    then have "card (dom (view s)) = card (dom (view s) \<union> fst ` set (p # kvs))"
      using Cons.prems(3) card_mono [OF fin Un_upper1] by linarith
    then have "dom (view s) = dom (view s) \<union> fst ` set (p # kvs)"
      using fin by (intro card_subset_eq) auto
    then show "k \<in> dom (view s)" using p by auto
  qed
  then obtain s1 where s1: "put k v s = Some s1" "inv s1" "view s1 = (view s)(k \<mapsto> v)"
    using put_stored [OF Cons.prems(1), of k v] Cons.prems(2) p by auto
  have "dom (view s1) \<union> fst ` set kvs = dom (view s) \<union> fst ` set (p # kvs)" using s1(3) p by auto
  then have "\<exists>s'. put_all put kvs s1 = Some s' \<and> inv s' \<and> view s' = view s1 ++ map_of (rev kvs)"
    using Cons.prems(2,3) s1(2) by (intro Cons.IH) auto
  moreover have "view s1 ++ map_of (rev kvs) = view s ++ map_of (rev (p # kvs))"
    using s1(3) p by (auto simp: map_add_def fun_eq_iff map_of_append split: option.splits)
  ultimately show ?case using s1(1) p by auto
qed

end

end
