(* ===== verification/Registry_Spec.thy ===== *)
theory Registry_Spec
  imports Registry Settings_Store
begin

text \<open>
  The registry as a finite map from keys to values: the table invariant, what a search and a
  store do to the map, and that the registry provides the interface of \<open>Settings_Store\<close>
  while no save hook runs.
\<close>

subsection \<open>Strings\<close>

lemma registry_streq_iff: "registry_streq a b \<longleftrightarrow> cstr a = cstr b"
  by (induction a b rule: registry_streq.induct) (auto simp: cstr_def)

lemma strlen_loop_eq: "strlen_loop cs len = len + word_of_nat (length (cstr cs))"
  by (induction cs len rule: strlen_loop.induct) (auto simp: cstr_def)

lemma unat_registry_strlen:
  "length (cstr cs) < 2 ^ 32 \<Longrightarrow> unat (registry_strlen (Some cs)) = length (cstr cs)"
  by (simp add: registry_strlen_def strlen_loop_eq unat_of_nat_32)

lemma copy_loop_eq:
  assumes "i + length (cstr cs) < dst_size" and "dst_size \<le> length dst"
  shows "copy_loop i dst_size cs dst = overwrite i (cstr cs @ [0]) dst"
  using assms
proof (induction i dst_size cs dst rule: copy_loop.induct)
  case (1 i dst_size dst)
  then show ?case by (simp add: cstr_def overwrite_def upd_conv_take_nth_drop)
next
  case (2 i dst_size c cs dst)
  have o: "overwrite i (c # xs) dst = overwrite (i + 1) xs (dst[i := c])" if "i < length dst" for xs
    using that by (simp add: overwrite_def take_Suc_conv_app_nth drop_update_cancel)
  show ?case
  proof (cases "c = 0")
    case True
    then show ?thesis using 2(2,3) by (simp add: cstr_def overwrite_def upd_conv_take_nth_drop)
  next
    case False
    then have "cstr (c # cs) = c # cstr cs" by (simp add: cstr_def)
    then show ?thesis using 2 False o [of "cstr cs @ [0]"] by simp
  qed
qed

lemma registry_copy:
  assumes "length (cstr src) < n" and "n = length dst"
  shows "cstr (registry_copy dst n src) = cstr src" "length (registry_copy dst n src) = n"
    "0 \<in> set (registry_copy dst n src)"
proof -
  have e: "registry_copy dst n src = overwrite 0 (cstr src @ [0]) dst"
    using assms copy_loop_eq [of 0 src n dst] by (auto simp: registry_copy_def)
  show "length (registry_copy dst n src) = n" unfolding e using assms by simp
  show "cstr (registry_copy dst n src) = cstr src"
    unfolding e using assms by (intro cstr_overwrite_terminated) (auto simp: cstr_def dest: set_takeWhileD)
  show "0 \<in> set (registry_copy dst n src)" by (simp add: e overwrite_def)
qed

subsection \<open>The table\<close>

definition entry_ok :: "registry_entry_t \<Rightarrow> bool" where
  "entry_ok e \<longleftrightarrow> length (re_key e) = REGISTRY_KEY_SIZE \<and> length (re_value e) = REGISTRY_VALUE_SIZE \<and>
     0 \<in> set (re_value e) \<and> (re_used e \<longrightarrow> 0 \<in> set (re_key e) \<and> cstr (re_key e) \<noteq> [])"

definition keys_distinct :: "registry_entry_t list \<Rightarrow> bool" where
  "keys_distinct es \<longleftrightarrow> (\<forall>i < length es. \<forall>j < length es. re_used (es ! i) \<and> re_used (es ! j) \<and>
     cstr (re_key (es ! i)) = cstr (re_key (es ! j)) \<longrightarrow> i = j)"

definition registry_inv :: "registry_entry_t list \<Rightarrow> bool" where
  "registry_inv es \<longleftrightarrow> length es = REGISTRY_MAX_ENTRIES \<and> (\<forall>e \<in> set es. entry_ok e) \<and> keys_distinct es"

definition registry_map :: "registry_entry_t list \<Rightarrow> bytes \<rightharpoonup> bytes" where
  "registry_map es key =
     (if cstr key = key then map_option (\<lambda>i. cstr (re_value (es ! i))) (registry_find key es) else None)"

lemma registry_invD:
  assumes "registry_inv es"
  shows "length es = REGISTRY_MAX_ENTRIES" "i < REGISTRY_MAX_ENTRIES \<Longrightarrow> entry_ok (es ! i)"
    "i < REGISTRY_MAX_ENTRIES \<Longrightarrow> j < REGISTRY_MAX_ENTRIES \<Longrightarrow> re_used (es ! i) \<Longrightarrow> re_used (es ! j) \<Longrightarrow>
      cstr (re_key (es ! i)) = cstr (re_key (es ! j)) \<Longrightarrow> i = j"
  using assms by (auto simp: registry_inv_def keys_distinct_def)

lemma registry_find_Some:
  assumes "registry_inv es"
  shows "registry_find key es = Some i \<longleftrightarrow>
    i < REGISTRY_MAX_ENTRIES \<and> re_used (es ! i) \<and> cstr (re_key (es ! i)) = cstr key"
    (is "?l \<longleftrightarrow> ?r i")
proof
  show "?r i" if ?l
    using that by (auto simp: registry_find_def registry_streq_iff find_Some_iff)
next
  assume r: "?r i"
  show ?l
  proof (cases "registry_find key es")
    case None
    then show ?thesis using r by (auto simp: registry_find_def registry_streq_iff find_None_iff)
  next
    case (Some j)
    then have "?r j" by (auto simp: registry_find_def registry_streq_iff find_Some_iff)
    then have "j = i" using r registry_invD(3) [OF assms] by metis
    with Some show ?thesis by simp
  qed
qed

lemma registry_find_None:
  "registry_find key es = None \<longleftrightarrow>
    (\<forall>i < REGISTRY_MAX_ENTRIES. re_used (es ! i) \<longrightarrow> cstr (re_key (es ! i)) \<noteq> cstr key)"
  by (auto simp: registry_find_def registry_streq_iff find_None_iff)

lemma cstr_idem [simp]: "cstr (cstr a) = cstr a"
  by (simp add: cstr_def takeWhile_idem)

lemma registry_find_cstr: "registry_find (cstr key) es = registry_find key es"
  by (simp add: registry_find_def registry_streq_iff)

lemma registry_map_cstr: "registry_map es (cstr key) = map_option (\<lambda>i. cstr (re_value (es ! i))) (registry_find key es)"
  by (simp add: registry_map_def registry_find_cstr)

lemma registry_map_Some:
  assumes "registry_inv es"
  shows "registry_map es key = Some val \<longleftrightarrow> (\<exists>i < REGISTRY_MAX_ENTRIES. re_used (es ! i) \<and>
    cstr (re_key (es ! i)) = key \<and> cstr (re_value (es ! i)) = val)"
proof (cases "cstr key = key")
  case True
  then have "registry_map es key = map_option (\<lambda>i. cstr (re_value (es ! i))) (registry_find key es)"
    by (simp add: registry_map_def)
  then show ?thesis by (simp only: map_option_eq_Some registry_find_Some [OF assms] True) blast
next
  case False
  then have "cstr (re_key (es ! i)) \<noteq> key" for i using cstr_idem by metis
  with False show ?thesis by (simp add: registry_map_def)
qed

lemma registry_dom:
  assumes "registry_inv es"
  shows "dom (registry_map es) = (\<lambda>i. cstr (re_key (es ! i))) ` {i. i < REGISTRY_MAX_ENTRIES \<and> re_used (es ! i)}"
  using registry_map_Some [OF assms] by (auto simp: dom_def)

lemma card_registry_dom:
  assumes "registry_inv es"
  shows "card (dom (registry_map es)) = card {i. i < REGISTRY_MAX_ENTRIES \<and> re_used (es ! i)}"
    "finite (dom (registry_map es))"
  using registry_invD(3) [OF assms]
  by (auto simp: registry_dom [OF assms] inj_on_def intro!: card_image)

lemma registry_full_iff:
  assumes "registry_inv es"
  shows "find (\<lambda>i. \<not> re_used (es ! i)) [0..<REGISTRY_MAX_ENTRIES] = None \<longleftrightarrow>
    card (dom (registry_map es)) = REGISTRY_MAX_ENTRIES"
proof -
  let ?U = "{i. i < REGISTRY_MAX_ENTRIES \<and> re_used (es ! i)}"
  have sub: "?U \<subseteq> {..<REGISTRY_MAX_ENTRIES}" by auto
  then have "card ?U = REGISTRY_MAX_ENTRIES \<longleftrightarrow> ?U = {..<REGISTRY_MAX_ENTRIES}"
    using card_subset_eq [OF finite_lessThan sub] by (metis card_lessThan)
  then show ?thesis unfolding card_registry_dom(1) [OF assms] by (auto simp: find_None_iff)
qed

lemma card_registry_le: "registry_inv es \<Longrightarrow> card (dom (registry_map es)) \<le> REGISTRY_MAX_ENTRIES"
  using card_mono [of "{..<REGISTRY_MAX_ENTRIES}" "{i. i < REGISTRY_MAX_ENTRIES \<and> re_used (es ! i)}"]
  by (auto simp: card_registry_dom)

subsection \<open>Storing\<close>

text \<open>Putting an entry for a key into the slot that is its own or unused, with no other slot holding the key.\<close>

lemma registry_upd:
  assumes inv: "registry_inv es" and i: "i < REGISTRY_MAX_ENTRIES"
    and e: "entry_ok e" "re_used e" "cstr (re_key e) = cstr key"
    and own: "re_used (es ! i) \<Longrightarrow> cstr (re_key (es ! i)) = cstr key"
    and other: "\<And>j. j < REGISTRY_MAX_ENTRIES \<Longrightarrow> j \<noteq> i \<Longrightarrow> re_used (es ! j) \<Longrightarrow> cstr (re_key (es ! j)) \<noteq> cstr key"
  shows "registry_inv (es[i := e])"
    "registry_map (es[i := e]) = (registry_map es)(cstr key \<mapsto> cstr (re_value e))"
proof -
  note I = registry_invD [OF inv]
  have nth: "es[i := e] ! j = (if j = i then e else es ! j)" if "j < REGISTRY_MAX_ENTRIES" for j
    using that i I(1) by simp
  have "\<forall>x \<in> set (es[i := e]). entry_ok x"
    using inv e(1) set_update_subset_insert [of es i e] by (auto simp: registry_inv_def)
  moreover have "keys_distinct (es[i := e])"
    unfolding keys_distinct_def length_list_update I(1)
  proof (intro allI impI)
    fix a b
    assume "a < REGISTRY_MAX_ENTRIES" "b < REGISTRY_MAX_ENTRIES" "re_used (es[i := e] ! a) \<and> re_used (es[i := e] ! b) \<and>
      cstr (re_key (es[i := e] ! a)) = cstr (re_key (es[i := e] ! b))"
    then show "a = b"
      using nth other I(3) e(3) by (cases "a = i"; cases "b = i") (auto simp del: nth_list_update)
  qed
  ultimately show inv': "registry_inv (es[i := e])" using I(1) by (simp add: registry_inv_def)
  show "registry_map (es[i := e]) = (registry_map es)(cstr key \<mapsto> cstr (re_value e))"
  proof
    fix k
    show "registry_map (es[i := e]) k = ((registry_map es)(cstr key \<mapsto> cstr (re_value e))) k"
    proof (cases "k = cstr key")
      case True
      then show ?thesis using registry_map_Some [OF inv', of k] i e nth by auto
    next
      case False
      have "registry_map (es[i := e]) k = Some v \<longleftrightarrow> registry_map es k = Some v" for v
        unfolding registry_map_Some [OF inv] registry_map_Some [OF inv']
        using nth own e(2,3) False by (metis (no_types, lifting))
      then show ?thesis using False by (metis fun_upd_other not_Some_eq)
    qed
  qed
qed

definition stored_entries :: "nat \<Rightarrow> registry_entry_t list \<Rightarrow> bytes \<Rightarrow> registry_entry_t list" where
  "stored_entries i es val =
     es[i := (es ! i)\<lparr>re_value := registry_copy (re_value (es ! i)) REGISTRY_VALUE_SIZE val\<rparr>]"

lemma registry_store:
  assumes inv: "registry_inv es" and len: "cstr key \<noteq> []" "length (cstr key) < REGISTRY_KEY_SIZE"
      "length (cstr val) < REGISTRY_VALUE_SIZE"
    and slot: "registry_slot key es = Some (i, es1)"
  shows "registry_inv (stored_entries i es1 val)"
    "registry_map (stored_entries i es1 val) = (registry_map es)(cstr key \<mapsto> cstr val)"
proof -
  note I = registry_invD [OF inv]
  have ok: "entry_ok (e\<lparr>re_value := registry_copy (re_value e) REGISTRY_VALUE_SIZE val\<rparr>)" if "entry_ok e" for e
    using that registry_copy(2,3) [OF len(3), of "re_value e"] by (simp add: entry_ok_def)
  have val: "cstr (registry_copy (re_value e) REGISTRY_VALUE_SIZE val) = cstr val" if "entry_ok e" for e
    using that registry_copy(1) [OF len(3), of "re_value e"] by (simp add: entry_ok_def)
  have "registry_inv (stored_entries i es1 val) \<and>
    registry_map (stored_entries i es1 val) = (registry_map es)(cstr key \<mapsto> cstr val)"
  proof (cases "registry_find key es")
    case (Some j)
    then have es1: "j = i" "es1 = es" using slot by (simp_all add: registry_slot_def)
    have f: "i < REGISTRY_MAX_ENTRIES" "re_used (es ! i)" "cstr (re_key (es ! i)) = cstr key"
      using Some registry_find_Some [OF inv] es1 by auto
    let ?e = "(es ! i)\<lparr>re_value := registry_copy (re_value (es ! i)) REGISTRY_VALUE_SIZE val\<rparr>"
    have "registry_inv (es[i := ?e])" "registry_map (es[i := ?e]) = (registry_map es)(cstr key \<mapsto> cstr (re_value ?e))"
      using f I(3) by (intro registry_upd [OF inv f(1)] ok I(2); auto)+
    then show ?thesis
      using val [OF I(2) [OF f(1)]] by (simp_all add: stored_entries_def es1)
  next
    case None
    then obtain "find (\<lambda>i. \<not> re_used (es ! i)) [0..<REGISTRY_MAX_ENTRIES] = Some i"
      and es1: "es1 = es[i := (es ! i)\<lparr>re_used := True, re_key := registry_copy (re_key (es ! i)) REGISTRY_KEY_SIZE key\<rparr>]"
      using slot by (auto simp: registry_slot_def split: option.splits)
    then have f: "i < REGISTRY_MAX_ENTRIES" "\<not> re_used (es ! i)" by (auto simp: find_Some_iff)
    have c: "cstr (registry_copy (re_key (es ! i)) REGISTRY_KEY_SIZE key) = cstr key"
      "length (registry_copy (re_key (es ! i)) REGISTRY_KEY_SIZE key) = REGISTRY_KEY_SIZE"
      "0 \<in> set (registry_copy (re_key (es ! i)) REGISTRY_KEY_SIZE key)"
      using registry_copy [OF len(2), of "re_key (es ! i)"] I(2) [OF f(1)] by (simp_all add: entry_ok_def)
    let ?k = "(es ! i)\<lparr>re_used := True, re_key := registry_copy (re_key (es ! i)) REGISTRY_KEY_SIZE key\<rparr>"
    let ?e = "?k\<lparr>re_value := registry_copy (re_value (es ! i)) REGISTRY_VALUE_SIZE val\<rparr>"
    have "entry_ok ?k" using I(2) [OF f(1)] c len(1) by (simp add: entry_ok_def)
    from ok [OF this] have "entry_ok ?e" by simp
    then have "registry_inv (es[i := ?e])" "registry_map (es[i := ?e]) = (registry_map es)(cstr key \<mapsto> cstr (re_value ?e))"
      using f None c(1) by (intro registry_upd [OF inv f(1)]; auto simp: registry_find_None)+
    then show ?thesis
      using val [OF I(2) [OF f(1)]] f I(1) by (simp_all add: stored_entries_def es1)
  qed
  then show "registry_inv (stored_entries i es1 val)"
    "registry_map (stored_entries i es1 val) = (registry_map es)(cstr key \<mapsto> cstr val)" by simp_all
qed

lemma registry_slot_None:
  assumes "registry_inv es"
  shows "registry_slot key es = None \<longleftrightarrow>
    cstr key \<notin> dom (registry_map es) \<and> card (dom (registry_map es)) = REGISTRY_MAX_ENTRIES"
proof -
  have "registry_map es (cstr key) = None \<longleftrightarrow> registry_find key es = None" by (simp add: registry_map_cstr)
  then show ?thesis
    using registry_full_iff [OF assms] by (auto simp: registry_slot_def domIff split: option.splits)
qed

text \<open>A store on every branch: rejected pairs, a full table, and a pair that is stored.\<close>

lemma registry_set_cases:
  assumes inv: "registry_inv (registry_entries r)" and bound: "length (cstr key) < 2 ^ 32" "length (cstr val) < 2 ^ 32"
  shows "cstr key = [] \<Longrightarrow> registry_set (Some key) (Some val) r = Some (REGISTRY_ERR_INPUT, r)"
    "cstr key \<noteq> [] \<Longrightarrow> REGISTRY_KEY_SIZE \<le> length (cstr key) \<or> REGISTRY_VALUE_SIZE \<le> length (cstr val) \<Longrightarrow>
      registry_set (Some key) (Some val) r = Some (REGISTRY_ERR_TOO_LONG, r)"
    "cstr key \<noteq> [] \<Longrightarrow> length (cstr key) < REGISTRY_KEY_SIZE \<Longrightarrow> length (cstr val) < REGISTRY_VALUE_SIZE \<Longrightarrow>
      cstr key \<notin> dom (registry_map (registry_entries r)) \<Longrightarrow>
      card (dom (registry_map (registry_entries r))) = REGISTRY_MAX_ENTRIES \<Longrightarrow>
      registry_set (Some key) (Some val) r = Some (REGISTRY_ERR_FULL, r)"
    "cstr key \<noteq> [] \<Longrightarrow> length (cstr key) < REGISTRY_KEY_SIZE \<Longrightarrow> length (cstr val) < REGISTRY_VALUE_SIZE \<Longrightarrow>
      cstr key \<in> dom (registry_map (registry_entries r)) \<or>
      card (dom (registry_map (registry_entries r))) < REGISTRY_MAX_ENTRIES \<Longrightarrow>
      \<exists>es'. registry_set (Some key) (Some val) r =
          map_option (Pair REGISTRY_OK) (run_save_hook (r\<lparr>registry_entries := es'\<rparr>)) \<and>
        registry_inv es' \<and> registry_map es' = (registry_map (registry_entries r))(cstr key \<mapsto> cstr val)"
proof -
  have nil: "cstr key \<noteq> [] \<Longrightarrow> key \<noteq> []" "cstr key \<noteq> [] \<Longrightarrow> hd key \<noteq> 0" "cstr key = [] \<Longrightarrow> key = [] \<or> hd key = 0"
    by (cases key; auto simp: cstr_def split: if_splits)+
  have k: "(of_nat n :: u32) \<le> registry_strlen (Some cs) \<longleftrightarrow> n \<le> length (cstr cs)"
    if "length (cstr cs) < 2 ^ 32" "n < 2 ^ 32" for n cs
    using that unat_registry_strlen [OF that(1)] by (simp add: word_le_nat_alt unat_of_nat_32)
  note K = k [OF bound(1), of REGISTRY_KEY_SIZE] k [OF bound(2), of REGISTRY_VALUE_SIZE]
  show "cstr key = [] \<Longrightarrow> registry_set (Some key) (Some val) r = Some (REGISTRY_ERR_INPUT, r)"
    using nil(3) by (auto simp: registry_set_def)
  show "registry_set (Some key) (Some val) r = Some (REGISTRY_ERR_TOO_LONG, r)"
    if "cstr key \<noteq> []" "REGISTRY_KEY_SIZE \<le> length (cstr key) \<or> REGISTRY_VALUE_SIZE \<le> length (cstr val)"
    using that K nil(1,2) by (simp add: registry_set_def)
  show "registry_set (Some key) (Some val) r = Some (REGISTRY_ERR_FULL, r)"
    if "cstr key \<noteq> []" "length (cstr key) < REGISTRY_KEY_SIZE" "length (cstr val) < REGISTRY_VALUE_SIZE"
      "cstr key \<notin> dom (registry_map (registry_entries r))"
      "card (dom (registry_map (registry_entries r))) = REGISTRY_MAX_ENTRIES"
    using that K nil(1,2) registry_slot_None [OF inv, of key] by (simp add: registry_set_def not_le)
  assume A: "cstr key \<noteq> []" "length (cstr key) < REGISTRY_KEY_SIZE" "length (cstr val) < REGISTRY_VALUE_SIZE"
    "cstr key \<in> dom (registry_map (registry_entries r)) \<or> card (dom (registry_map (registry_entries r))) < REGISTRY_MAX_ENTRIES"
  then have "registry_slot key (registry_entries r) \<noteq> None" using registry_slot_None [OF inv, of key] by auto
  then obtain i es1 where slot: "registry_slot key (registry_entries r) = Some (i, es1)" by auto
  have "registry_set (Some key) (Some val) r =
      map_option (Pair REGISTRY_OK) (run_save_hook (r\<lparr>registry_entries := stored_entries i es1 val\<rparr>))"
    using A K nil(1,2) slot
    by (simp add: registry_set_def stored_entries_def Let_def map_conv_bind_option comp_def)
  then show "\<exists>es'. registry_set (Some key) (Some val) r =
          map_option (Pair REGISTRY_OK) (run_save_hook (r\<lparr>registry_entries := es'\<rparr>)) \<and>
        registry_inv es' \<and> registry_map es' = (registry_map (registry_entries r))(cstr key \<mapsto> cstr val)"
    using registry_store [OF inv A(1-3) slot] by blast
qed

subsection \<open>The registry as a store of settings\<close>

definition registry_quiet :: "'w registry \<Rightarrow> bool" where
  "registry_quiet r \<longleftrightarrow> registry_inv (registry_entries r) \<and> (registry_save_hook r = None \<or> registry_save_suspended r)"

definition string_pair :: "bytes \<Rightarrow> bytes \<Rightarrow> bool" where
  "string_pair k v \<longleftrightarrow> 0 \<notin> set k \<and> 0 \<notin> set v \<and> length k < 2 ^ 32 \<and> length v < 2 ^ 32"

definition setting_fits :: "bytes \<Rightarrow> bytes \<Rightarrow> bool" where
  "setting_fits k v \<longleftrightarrow> k \<noteq> [] \<and> length k < REGISTRY_KEY_SIZE \<and> length v < REGISTRY_VALUE_SIZE"

definition registry_put :: "bytes \<Rightarrow> bytes \<Rightarrow> 'w registry \<Rightarrow> 'w registry option" where
  "registry_put k v r = map_option snd (registry_set (Some k) (Some v) r)"

lemma run_save_hook_quiet:
  "registry_save_hook r = None \<or> registry_save_suspended r \<Longrightarrow> run_save_hook r = Some r"
  by (auto simp: run_save_hook_def split: option.splits)

interpretation settings: settings_store registry_quiet "\<lambda>r. registry_map (registry_entries r)" string_pair setting_fits
  REGISTRY_MAX_ENTRIES registry_put
proof
  fix r :: "'w registry" and k v
  assume q: "registry_quiet r"
  then have inv: "registry_inv (registry_entries r)" by (simp add: registry_quiet_def)
  show "finite (dom (registry_map (registry_entries r)))" by (rule card_registry_dom(2) [OF inv])
  assume w: "string_pair k v"
  then have c: "cstr k = k" "cstr v = v" "length (cstr k) < 2 ^ 32" "length (cstr v) < 2 ^ 32"
    by (auto simp: string_pair_def cstr_no_nul)
  note cases = registry_set_cases [OF inv c(3,4)]
  show "registry_put k v r = Some r"
    if rejected: "\<not> setting_fits k v \<or> k \<notin> dom (registry_map (registry_entries r)) \<and>
      REGISTRY_MAX_ENTRIES \<le> card (dom (registry_map (registry_entries r)))"
  proof -
    consider "k = []" | "k \<noteq> []" "REGISTRY_KEY_SIZE \<le> length k \<or> REGISTRY_VALUE_SIZE \<le> length v"
      | "setting_fits k v" "k \<notin> dom (registry_map (registry_entries r))"
        "card (dom (registry_map (registry_entries r))) = REGISTRY_MAX_ENTRIES"
      using rejected card_registry_le [OF inv] by (metis setting_fits_def le_antisym not_less)
    then show ?thesis
      using cases(1-3) c(1,2) by cases (auto simp: registry_put_def setting_fits_def)
  qed
  show "\<exists>r'. registry_put k v r = Some r' \<and> registry_quiet r' \<and>
      registry_map (registry_entries r') = (registry_map (registry_entries r))(k \<mapsto> v)"
    if room: "setting_fits k v" "k \<in> dom (registry_map (registry_entries r)) \<or>
      card (dom (registry_map (registry_entries r))) < REGISTRY_MAX_ENTRIES"
  proof -
    obtain es' where es': "registry_set (Some k) (Some v) r =
        map_option (Pair REGISTRY_OK) (run_save_hook (r\<lparr>registry_entries := es'\<rparr>))"
      "registry_inv es'" "registry_map es' = (registry_map (registry_entries r))(k \<mapsto> v)"
      using cases(4) room c(1,2) by (auto simp: setting_fits_def)
    have "run_save_hook (r\<lparr>registry_entries := es'\<rparr>) = Some (r\<lparr>registry_entries := es'\<rparr>)"
      using q by (intro run_save_hook_quiet) (simp add: registry_quiet_def)
    then show ?thesis using es' q by (simp add: registry_put_def registry_quiet_def)
  qed
qed

end
