(* ===== verification/Shell_Registry.thy ===== *)
theory Shell_Registry
  imports Registry_Spec Lainfs_Files
begin

text \<open>
  The settings file, \<^verbatim>\<open>shell_registry_save\<close> and \<^verbatim>\<open>shell_registry_load\<close> of
  \<^verbatim>\<open>kernel/ui/shell.c\<close>: the registry printed as lines \<^verbatim>\<open>key=value\<close> into the file
  \<^verbatim>\<open>registry.cfg\<close> of the current drive, and read back from it.

  The state is the file system with the shell's drive and buffers; the registry carries it as the world of
  its save hook. \<^verbatim>\<open>shell_manifest_buffer\<close> is null until the work buffers are allocated. It is a
  scratch area: both functions fill it before they read it, so what it holds between calls is not
  followed, and the text is a list of the bytes before \<^verbatim>\<open>pos\<close>.
\<close>

abbreviation MAX_DRIVES :: int where "MAX_DRIVES \<equiv> 26"
abbreviation ASM_SOURCE_SIZE :: nat where "ASM_SOURCE_SIZE \<equiv> 3145728"

definition SHELL_REGISTRY_FILE :: bytes where
  "SHELL_REGISTRY_FILE = ascii ''registry.cfg''"

record 'h shell =
  sh_fs :: "'h lainfs"
  current_drive :: int
  shell_work_buffers_ready :: bool
  shell_manifest_buffer :: "bytes option"

definition active_drive :: "'h shell \<Rightarrow> int" where
  "active_drive sh = (if 0 \<le> current_drive sh \<and> current_drive sh < MAX_DRIVES then current_drive sh else -1)"

definition drive_letter :: "int \<Rightarrow> u8" where
  "drive_letter drive = word_of_int (65 + drive)"

subsection \<open>Text\<close>

fun skip_spaces :: "bytes \<Rightarrow> bytes" where
  "skip_spaces [] = []"
| "skip_spaces (c # cs) = (if c = 32 \<or> c = 9 then skip_spaces cs else c # cs)"

definition trim_spaces_mutable :: "bytes \<Rightarrow> bytes" where
  "trim_spaces_mutable s =
     rev (dropWhile (\<lambda>c. c = 32 \<or> c = 9 \<or> c = 13 \<or> c = 10) (rev (cstr (skip_spaces s))))"

fun append_text_limited :: "nat \<Rightarrow> bytes \<Rightarrow> bytes \<Rightarrow> int \<times> bytes" where
  "append_text_limited out_size [] out = (if out_size = 0 then (-1, out) else (0, out))"
| "append_text_limited out_size (c # cs) out =
     (if out_size = 0 then (-1, out)
      else if c = 0 then (0, out)
      else if length out + 1 \<ge> out_size then (-1, out)
      else append_text_limited out_size cs (out @ [c]))"

fun append_texts :: "nat \<Rightarrow> bytes list \<Rightarrow> bytes \<Rightarrow> bytes option" where
  "append_texts out_size [] out = Some out"
| "append_texts out_size (t # ts) out =
     (let (st, out') = append_text_limited out_size t out in if st \<noteq> 0 then None else append_texts out_size ts out')"

subsection \<open>Saving\<close>

fun save_lines :: "registry_entry_t list \<Rightarrow> nat list \<Rightarrow> bytes \<Rightarrow> bytes option" where
  "save_lines es [] out = Some out"
| "save_lines es (i # is) out =
     (case (registry_key_at i es, registry_value_at i es) of
        (Some key, Some val) \<Rightarrow>
          do { out' \<leftarrow> append_texts ASM_SOURCE_SIZE [key, ascii ''='', val, [10]] out; save_lines es is out' }
      | _ \<Rightarrow> save_lines es is out)"

definition shell_registry_save :: "registry_entry_t list \<Rightarrow> 'h shell \<Rightarrow> 'h shell option" where
  "shell_registry_save es sh =
     (if active_drive sh < 0 \<or> \<not> shell_work_buffers_ready sh \<or> shell_manifest_buffer sh = None then Some sh
      else case save_lines es [0..<registry_count es] [] of
        None \<Rightarrow> Some sh
      | Some text \<Rightarrow> do {
          let letter = drive_letter (active_drive sh);
          (st, l) \<leftarrow> lainfs_save_file_in_dir letter LAINFS_ROOT_DIR SHELL_REGISTRY_FILE text
                        (of_nat (length text)) (sh_fs sh);
          if st = 0 then do { (st', l') \<leftarrow> lainfs_flush letter l; Some (sh\<lparr>sh_fs := l'\<rparr>) }
          else Some (sh\<lparr>sh_fs := l\<rparr>)
        })"

subsection \<open>Loading\<close>

definition load_line :: "bytes \<Rightarrow> 'w registry \<Rightarrow> 'w registry option" where
  "load_line line r =
     (let key = trim_spaces_mutable line in
      if key = [] \<or> hd key = 35 \<or> hd key = 59 then Some r
      else let rest = dropWhile (\<lambda>c. c \<noteq> 61) key in
        if rest = [] then Some r
        else let k = trim_spaces_mutable (takeWhile (\<lambda>c. c \<noteq> 61) key);
                 val = trim_spaces_mutable (tl rest)
             in if k \<noteq> [] then do { (st, r') \<leftarrow> registry_set (Some k) (Some val) r; Some r' } else Some r)"

function load_lines :: "bytes \<Rightarrow> 'w registry \<Rightarrow> 'w registry option" where
  "load_lines text r =
     (if text = [] then Some r
      else let line = takeWhile (\<lambda>c. c \<noteq> 10) text
           in do { r' \<leftarrow> load_line line r; load_lines (drop (length line + 1) text) r' })"
  by pat_completeness auto
termination by (relation "measure (\<lambda>(text, r). length text)") auto

declare load_lines.simps [simp del]

definition shell_registry_load :: "'h shell registry \<Rightarrow> 'h shell registry option" where
  "shell_registry_load r =
     (let sh = hook_world r in
      if active_drive sh < 0 \<or> \<not> shell_work_buffers_ready sh then Some r
      else case shell_manifest_buffer sh of
        None \<Rightarrow> Some r
      | Some buffer \<Rightarrow> do {
          (st, buf, sz, l) \<leftarrow> lainfs_load_file_in_dir (drive_letter (active_drive sh)) LAINFS_ROOT_DIR
             SHELL_REGISTRY_FILE (take ASM_SOURCE_SIZE buffer) (of_nat ASM_SOURCE_SIZE) (sh_fs sh);
          let r1 = r\<lparr>hook_world := sh\<lparr>sh_fs := l\<rparr>\<rparr>;
          if st \<noteq> 0 \<or> ASM_SOURCE_SIZE \<le> unat sz then Some r1
          else do {
            r2 \<leftarrow> load_lines (take (unat sz) buf) (registry_suspend_save 1 r1);
            Some (registry_suspend_save 0 r2)
          }
        })"

end
