(* ===== verification/Settings_File.thy ===== *)
theory Settings_File
  imports Shell_Registry
begin

text \<open>
  The text of the settings file: what the shell prints for a table of settings, and that reading
  such text stores the printed settings again, one by one and in order.
\<close>

subsection \<open>Printing\<close>

definition used_entries :: "registry_entry_t list \<Rightarrow> registry_entry_t list" where
  "used_entries es = filter re_used es"

definition settings_of :: "registry_entry_t list \<Rightarrow> (bytes \<times> bytes) list" where
  "settings_of es = map (\<lambda>e. (cstr (re_key e), cstr (re_value e))) (used_entries es)"

definition setting_line :: "bytes \<times> bytes \<Rightarrow> bytes" where
  "setting_line kv = fst kv @ [61] @ snd kv @ [10]"

definition settings_text :: "registry_entry_t list \<Rightarrow> bytes" where
  "settings_text es = concat (map setting_line (settings_of es))"

lemma used_at_eq:
  "used_at es index seen is =
     (let us = filter re_used (map ((!) es) is)
      in if seen \<le> index \<and> index - seen < length us then Some (us ! (index - seen)) else None)"
proof (induction es index seen "is" rule: used_at.induct)
  case (2 es index seen i "is")
  then show ?case by (cases "seen = index") (auto simp: Let_def nth_Cons' Suc_diff_le not_le)
qed simp

lemma entries_by_index: "length es = REGISTRY_MAX_ENTRIES \<Longrightarrow> map ((!) es) [0..<REGISTRY_MAX_ENTRIES] = es"
  using map_nth [of es] by simp

lemma registry_at:
  assumes "length es = REGISTRY_MAX_ENTRIES" and "i < length (used_entries es)"
  shows "registry_key_at i es = Some (re_key (used_entries es ! i))"
    "registry_value_at i es = Some (re_value (used_entries es ! i))"
  using assms by (simp_all only: registry_key_at_def registry_value_at_def used_at_eq entries_by_index)
    (simp_all add: used_entries_def Let_def)

lemma foldl_count: "foldl (\<lambda>n i. if P i then n + 1 else n) n xs = n + length (filter P xs)" for n :: nat
  by (induction xs arbitrary: n) auto

lemma registry_count_eq:
  assumes "length es = REGISTRY_MAX_ENTRIES"
  shows "registry_count es = length (used_entries es)"
proof -
  have "registry_count es = length (filter (\<lambda>i. re_used (es ! i)) [0..<REGISTRY_MAX_ENTRIES])"
    unfolding registry_count_def foldl_count by simp
  also have "\<dots> = length (filter re_used (map ((!) es) [0..<REGISTRY_MAX_ENTRIES]))"
    by (simp only: filter_map length_map comp_def)
  finally show ?thesis by (simp only: entries_by_index [OF assms] used_entries_def)
qed

lemma append_text_limited_fits:
  "length out + length (cstr t) < out_size \<Longrightarrow> append_text_limited out_size t out = (0, out @ cstr t)"
  by (induction out_size t out rule: append_text_limited.induct) (auto simp: cstr_def split: if_splits)

lemma append_texts_fit:
  "length out + length (concat (map cstr ts)) < out_size \<Longrightarrow>
    append_texts out_size ts out = Some (out @ concat (map cstr ts))"
  by (induction out_size ts out rule: append_texts.induct) (auto simp: append_text_limited_fits)

lemma cstr_length_less: "0 \<in> set s \<Longrightarrow> length (cstr s) < length s"
  unfolding cstr_def by (induction s) auto

lemma setting_line_length:
  assumes "entry_ok e" and "re_used e"
  shows "length (setting_line (cstr (re_key e), cstr (re_value e))) \<le> 144"
  using assms cstr_length_less [of "re_key e"] cstr_length_less [of "re_value e"]
  by (simp add: setting_line_def entry_ok_def)

lemma save_lines_fit:
  assumes len: "length es = REGISTRY_MAX_ENTRIES" and ok: "\<forall>e \<in> set es. entry_ok e"
    and "\<forall>i \<in> set is. i < length (used_entries es)" and "length out + 144 * length is < ASM_SOURCE_SIZE"
  shows "save_lines es is out = Some (out @ concat (map (\<lambda>i. setting_line (settings_of es ! i)) is))"
  using assms(3,4)
proof (induction "is" arbitrary: out)
  case Nil
  then show ?case by simp
next
  case (Cons i "is")
  let ?e = "used_entries es ! i"
  have i: "i < length (used_entries es)" using Cons.prems(1) by simp
  then have e: "entry_ok ?e" "re_used ?e"
    using ok nth_mem [OF i] by (auto simp: used_entries_def)
  have l: "settings_of es ! i = (cstr (re_key ?e), cstr (re_value ?e))" using i by (simp add: settings_of_def)
  have c: "concat (map cstr [re_key ?e, ascii ''='', re_value ?e, [10]]) = setting_line (settings_of es ! i)"
    by (simp add: l setting_line_def ascii_def cstr_def)
  have b: "length (setting_line (settings_of es ! i)) \<le> 144" using setting_line_length [OF e] by (simp add: l)
  have "append_texts ASM_SOURCE_SIZE [re_key ?e, ascii ''='', re_value ?e, [10]] out = Some (out @ setting_line (settings_of es ! i))"
    using append_texts_fit [of out "[re_key ?e, ascii ''='', re_value ?e, [10]]" ASM_SOURCE_SIZE] b Cons.prems(2)
    unfolding c by simp
  then show ?case
    using Cons.IH [of "out @ setting_line (settings_of es ! i)"] Cons.prems b
    by (simp del: append_texts.simps add: registry_at [OF len i])
qed

lemma length_concat_le:
  "(\<And>x. x \<in> set xs \<Longrightarrow> length (f x) \<le> n) \<Longrightarrow> length (concat (map f xs)) \<le> length xs * n"
proof (induction xs)
  case (Cons x xs)
  then have "length (f x) \<le> n" "length (concat (map f xs)) \<le> length xs * n" by simp_all
  then show ?case by simp
qed simp

lemma length_used: "length es = REGISTRY_MAX_ENTRIES \<Longrightarrow> length (used_entries es) \<le> REGISTRY_MAX_ENTRIES"
  using length_filter_le [of re_used es] by (simp add: used_entries_def)

lemma save_lines_text:
  assumes "registry_inv es"
  shows "save_lines es [0..<registry_count es] [] = Some (settings_text es)" "length (settings_text es) \<le> 13824"
proof -
  have l: "length es = REGISTRY_MAX_ENTRIES" "\<forall>e \<in> set es. entry_ok e" using assms by (auto simp: registry_inv_def)
  have n: "length (settings_of es) = length (used_entries es)" by (simp add: settings_of_def)
  have "map (\<lambda>i. setting_line (settings_of es ! i)) [0..<length (used_entries es)] = map setting_line (settings_of es)"
    unfolding n [symmetric] by (rule nth_equalityI) simp_all
  then show "save_lines es [0..<registry_count es] [] = Some (settings_text es)"
    using save_lines_fit [OF l, of "[0..<length (used_entries es)]" "[]"] length_used [OF l(1)]
    by (simp add: registry_count_eq [OF l(1)] settings_text_def)
  have "length (setting_line kv) \<le> 144" if "kv \<in> set (settings_of es)" for kv
    using that l(2) setting_line_length by (auto simp: settings_of_def used_entries_def)
  then have "length (settings_text es) \<le> length (settings_of es) * 144"
    unfolding settings_text_def by (rule length_concat_le)
  then show "length (settings_text es) \<le> 13824" using length_used [OF l(1)] n by simp
qed

subsection \<open>Reading\<close>

lemma while_until:
  assumes "x \<notin> set xs"
  shows "takeWhile (\<lambda>c. c \<noteq> x) (xs @ x # ys) = xs" "dropWhile (\<lambda>c. c \<noteq> x) (xs @ x # ys) = x # ys"
  using assms by (induction xs) auto

definition trimmed :: "bytes \<Rightarrow> bool" where
  "trimmed s \<longleftrightarrow> s = [] \<or> hd s \<notin> {32, 9} \<and> last s \<notin> {32, 9, 13, 10}"

text \<open>A setting that the file format can represent.\<close>

definition setting_clean :: "bytes \<Rightarrow> bytes \<Rightarrow> bool" where
  "setting_clean k v \<longleftrightarrow> k \<noteq> [] \<and> trimmed k \<and> trimmed v \<and> set k \<inter> {0, 10, 61} = {} \<and> set v \<inter> {0, 10} = {} \<and>
     hd k \<notin> {35, 59}"

lemma trim_trimmed:
  assumes "trimmed s" and "0 \<notin> set s"
  shows "trim_spaces_mutable s = s"
proof (cases "s = []")
  case False
  have "skip_spaces s = s" using assms False by (cases s) (auto simp: trimmed_def)
  moreover have "dropWhile (\<lambda>c. c = 32 \<or> c = 9 \<or> c = 13 \<or> c = 10) (rev s) = rev s"
    using assms False by (cases s rule: rev_cases) (auto simp: trimmed_def)
  ultimately show ?thesis using cstr_no_nul [OF assms(2)] by (simp add: trim_spaces_mutable_def)
qed (simp add: trim_spaces_mutable_def cstr_def)

lemma load_line_setting:
  assumes "setting_clean k v"
  shows "load_line (k @ [61] @ v) r = registry_put k v r"
proof -
  have c: "k \<noteq> []" "trimmed k" "trimmed v" "0 \<notin> set k" "0 \<notin> set v" "61 \<notin> set k" "hd k \<noteq> 35" "hd k \<noteq> 59"
    using assms by (auto simp: setting_clean_def)
  have "trimmed (k @ [61] @ v)" using c(1-3) by (cases v) (auto simp: trimmed_def)
  then have t: "trim_spaces_mutable (k @ [61] @ v) = k @ [61] @ v" using c(4,5) by (intro trim_trimmed) auto
  have w: "takeWhile (\<lambda>c. c \<noteq> 61) (k @ [61] @ v) = k" "dropWhile (\<lambda>c. c \<noteq> 61) (k @ [61] @ v) = 61 # v"
    using while_until [OF c(6)] by simp_all
  have "hd (k @ [61] @ v) = hd k" using c(1) by simp
  then show ?thesis
    unfolding load_line_def Let_def t w using c trim_trimmed [OF c(2,4)] trim_trimmed [OF c(3,5)]
    by (simp add: registry_put_def map_conv_bind_option) (cases "registry_set (Some k) (Some v) r"; force)
qed

lemma load_lines_settings:
  assumes "\<forall>(k, v) \<in> set kvs. setting_clean k v"
  shows "load_lines (concat (map setting_line kvs)) r = put_all registry_put kvs r"
  using assms
proof (induction kvs arbitrary: r)
  case Nil
  then show ?case by (simp add: load_lines.simps)
next
  case (Cons p kvs)
  obtain k v where p: "p = (k, v)" by force
  let ?rest = "concat (map setting_line kvs)"
  have c: "setting_clean k v" using Cons.prems p by simp
  then have n: "10 \<notin> set (k @ [61] @ v)" by (auto simp: setting_clean_def)
  have e: "concat (map setting_line (p # kvs)) = (k @ [61] @ v) @ 10 # ?rest" by (simp add: p setting_line_def)
  have t: "takeWhile (\<lambda>c. c \<noteq> 10) ((k @ [61] @ v) @ 10 # ?rest) = k @ [61] @ v"
    by (rule while_until(1) [OF n])
  have "load_lines (concat (map setting_line (p # kvs))) r = Option.bind (load_line (k @ [61] @ v) r) (load_lines ?rest)"
    unfolding e by (subst load_lines.simps) (simp add: t [simplified] Let_def)
  also have "\<dots> = Option.bind (registry_put k v r) (put_all registry_put kvs)"
    unfolding load_line_setting [OF c] using Cons.IH Cons.prems by (cases "registry_put k v r") auto
  finally show ?case by (simp add: p)
qed

end
