(* ===== verification/Registry_Numbers.thy ===== *)
theory Registry_Numbers
  imports Registry_Spec
begin

text \<open>
  The numbers the registry reads out of its values: hexadecimal with a prefix \<^verbatim>\<open>0x\<close> or
  \<^verbatim>\<open>#\<close>, or decimal, modulo \<open>2 ^ 32\<close>.
\<close>

subsection \<open>Reading stops at the terminator\<close>

lemma cstr_simps: "cstr [] = []" "cstr (c # cs) = (if c = 0 then [] else c # cstr cs)"
  by (simp_all add: cstr_def)

lemma parse_digits_cstr: "parse_digits hex v (cstr t) = parse_digits hex v t"
  by (induction hex v t rule: parse_digits.induct) (auto simp: cstr_simps split: option.splits)

lemma parse_skip_blanks_cstr: "parse_skip_blanks (cstr t) = cstr (parse_skip_blanks t)"
  by (induction t rule: parse_skip_blanks.induct) (auto simp: cstr_simps)

lemma parse_prefix_cstr: "parse_prefix (cstr t) = (fst (parse_prefix t), cstr (snd (parse_prefix t)))"
  by (cases t; cases "tl t") (auto simp: parse_prefix_def cstr_simps)

lemma parse_cstr: "registry_parse_u32 (Some (cstr t)) = registry_parse_u32 (Some t)"
proof -
  have "cstr u = [] \<or> hd (cstr u) = 0 \<longleftrightarrow> u = [] \<or> hd u = 0" for u
    by (cases u) (auto simp: cstr_simps)
  then show ?thesis
    by (simp add: registry_parse_u32_def parse_skip_blanks_cstr parse_prefix_cstr parse_digits_cstr case_prod_unfold Let_def)
qed

subsection \<open>Digits\<close>

definition hex_value :: "u8 \<Rightarrow> nat" where
  "hex_value c = (case registry_hex_digit c of None \<Rightarrow> 0 | Some d \<Rightarrow> unat d)"

definition is_hex :: "u8 \<Rightarrow> bool" where
  "is_hex c \<longleftrightarrow> c \<in> {48..57} \<union> {65..70} \<union> {97..102}"

definition number_value :: "nat \<Rightarrow> bytes \<Rightarrow> nat" where
  "number_value base ds = foldl (\<lambda>n c. n * base + hex_value c) 0 ds"

lemma unat_ucast_8_32 [simp]: "unat (ucast (c :: u8) :: u32) = unat c"
proof -
  have "unat c < 2 ^ 8" using unsigned_less [of c, where ?'a = nat] by simp
  then show ?thesis by (simp add: unsigned_ucast_eq take_bit_nat_eq_self)
qed

lemma unat_sub_bound: "a \<le> c \<Longrightarrow> c \<le> b \<Longrightarrow> unat (c - a) \<le> unat b - unat a" for a b c :: u8
  by (simp add: unat_sub word_le_nat_alt diff_le_mono)

lemma hex_digit_cases:
  assumes "is_hex c"
  obtains d where "registry_hex_digit c = Some d" "unat d < 16"
proof -
  have ten: "unat (10 + ucast (x :: u8) :: u32) < 16" if "unat x \<le> 5" for x
    using that by (simp add: unat_word_ariths)
  consider "48 \<le> c" "c \<le> 57" | "65 \<le> c" "c \<le> 70" | "97 \<le> c" "c \<le> 102"
    using assms by (auto simp: is_hex_def)
  then show ?thesis
  proof cases
    case 1
    then show ?thesis
      using unat_sub_bound [of 48 c 57] by (intro that [of "ucast (c - 48)"]) (simp_all add: registry_hex_digit_def)
  next
    case 2
    then have "\<not> c \<le> 57" "\<not> 97 \<le> c" by unat_arith+
    then show ?thesis
      using 2 unat_sub_bound [of 65 c 70] ten
      by (intro that [of "10 + ucast (c - 65)"]) (simp_all add: registry_hex_digit_def)
  next
    case 3
    then have "\<not> c \<le> 57" by unat_arith
    then show ?thesis
      using 3 unat_sub_bound [of 97 c 102] ten
      by (intro that [of "10 + ucast (c - 97)"]) (simp_all add: registry_hex_digit_def)
  qed
qed

lemma foldl_of_nat:
  "foldl (\<lambda>n c. n * of_nat base + of_nat (f c)) (of_nat m) ds =
     (of_nat (foldl (\<lambda>n c. n * base + f c) m ds) :: 'a :: comm_semiring_1)"
proof (induction ds arbitrary: m)
  case (Cons c ds)
  then show ?case using Cons.IH [of "m * base + f c"] by simp
qed simp

lemma parse_hex_digits:
  assumes "list_all is_hex ds"
  shows "parse_digits True v ds = Some (foldl (\<lambda>n c. n * 16 + of_nat (hex_value c)) v ds)"
  using assms
proof (induction ds arbitrary: v)
  case (Cons c ds)
  then have c: "is_hex c" by simp
  obtain d where d: "registry_hex_digit c = Some d" "unat d < 16" by (rule hex_digit_cases [OF c])
  have nz: "c \<noteq> 0" "c \<noteq> 32" "c \<noteq> 9" using c by (auto simp: is_hex_def)
  show ?case using Cons.IH [of "v * 16 + d"] Cons.prems d nz
    by (simp add: shift_or_digit hex_value_def)
qed simp

lemma parse_dec_digits:
  assumes "list_all (\<lambda>c. 48 \<le> c \<and> c \<le> 57) ds"
  shows "parse_digits False v ds = Some (foldl (\<lambda>n c. n * 10 + of_nat (hex_value c)) v ds)"
  using assms
proof (induction ds arbitrary: v)
  case (Cons c ds)
  then have c: "48 \<le> c" "c \<le> 57" by simp_all
  then have nz: "c \<noteq> 0" "c \<noteq> 32" "c \<noteq> 9" "\<not> c < 48" "\<not> 57 < c" by auto
  show ?case using Cons.IH Cons.prems c nz
    by (simp add: hex_value_def registry_hex_digit_def)
qed simp

text \<open>Numbers as the registry reads them: the prefixes \<^verbatim>\<open>0x\<close> and \<^verbatim>\<open>#\<close>, and decimal digits.\<close>

lemma registry_parse_number:
  assumes "ds \<noteq> []"
  shows "list_all is_hex ds \<Longrightarrow> registry_parse_u32 (Some (ascii ''0x'' @ ds)) = Some (of_nat (number_value 16 ds))"
    "list_all is_hex ds \<Longrightarrow> registry_parse_u32 (Some (ascii ''#'' @ ds)) = Some (of_nat (number_value 16 ds))"
    "list_all (\<lambda>c. 48 \<le> c \<and> c \<le> 57) ds \<Longrightarrow> registry_parse_u32 (Some ds) = Some (of_nat (number_value 10 ds))"
proof -
  obtain c cs where ds: "ds = c # cs" using assms by (cases ds) auto
  have v: "foldl (\<lambda>n c. n * 16 + of_nat (hex_value c)) 0 ds = (of_nat (number_value 16 ds) :: u32)"
    "foldl (\<lambda>n c. n * 10 + of_nat (hex_value c)) 0 ds = (of_nat (number_value 10 ds) :: u32)"
    using foldl_of_nat [of 16 hex_value 0 ds, where ?'a = u32] foldl_of_nat [of 10 hex_value 0 ds, where ?'a = u32]
    by (simp_all add: number_value_def)
  have a: "ascii ''0x'' = [48, 120]" "ascii ''#'' = [35]" by (simp_all add: ascii_def)
  have nz: "is_hex c \<Longrightarrow> c \<noteq> 0" by (auto simp: is_hex_def)
  show "registry_parse_u32 (Some (ascii ''0x'' @ ds)) = Some (of_nat (number_value 16 ds))"
    "registry_parse_u32 (Some (ascii ''#'' @ ds)) = Some (of_nat (number_value 16 ds))" if "list_all is_hex ds"
    using parse_hex_digits [OF that, of 0] that nz
    by (simp_all add: registry_parse_u32_def a parse_prefix_def v ds [symmetric]) (auto simp: ds)
  show "registry_parse_u32 (Some ds) = Some (of_nat (number_value 10 ds))" if "list_all (\<lambda>c. 48 \<le> c \<and> c \<le> 57) ds"
  proof -
    have c: "48 \<le> c" "c \<le> 57" using that ds by simp_all
    then have nz: "c \<noteq> 0" "c \<noteq> 32" "c \<noteq> 9" "c \<noteq> 35" by auto
    have "parse_prefix ds = (False, ds)"
      using that ds nz by (cases cs) (auto simp: parse_prefix_def)
    then show ?thesis using parse_dec_digits [OF that, of 0] nz v by (simp add: registry_parse_u32_def ds)
  qed
qed

end
