(* ===== verification/Settings_Props.thy ===== *)
theory Settings_Props
  imports Settings_File Registry_Numbers Lainfs_Props
begin

text \<open>
  The properties of the settings registry: each operation on the map it holds, the numbers it
  parses, and that saved settings are found again on a drive that keeps its blocks.
\<close>

subsection \<open>The printed settings and the map\<close>

lemma settings_of_map:
  assumes "registry_inv es"
  shows "map_of (rev (settings_of es)) = registry_map es" "fst ` set (settings_of es) = dom (registry_map es)"
proof -
  have mem: "(k, v) \<in> set (settings_of es) \<longleftrightarrow> registry_map es k = Some v" for k v
    unfolding registry_map_Some [OF assms] using registry_invD(1) [OF assms]
    by (auto simp: settings_of_def used_entries_def in_set_conv_nth)
  have k: "registry_map es k = Some v" if "map_of (rev (settings_of es)) k = Some v" for k v
    using map_of_SomeD [OF that] mem by simp
  have "map_of (rev (settings_of es)) k = registry_map es k" for k
  proof (cases "map_of (rev (settings_of es)) k")
    case None
    then have "(k, v) \<notin> set (settings_of es)" for v by (metis map_of_eq_None_iff fst_conv image_eqI set_rev)
    with None show ?thesis using mem by (metis not_Some_eq)
  qed (simp add: k)
  then show "map_of (rev (settings_of es)) = registry_map es" by blast
  show "fst ` set (settings_of es) = dom (registry_map es)" using mem by force
qed

lemma settings_fit:
  assumes "registry_inv es" and "\<forall>(k, v) \<in> set (settings_of es). setting_clean k v"
  shows "\<forall>(k, v) \<in> set (settings_of es). string_pair k v \<and> setting_fits k v"
proof safe
  fix k v
  assume kv: "(k, v) \<in> set (settings_of es)"
  then obtain e where e: "e \<in> set es" "re_used e" "k = cstr (re_key e)" "v = cstr (re_value e)"
    by (auto simp: settings_of_def used_entries_def)
  have ok: "entry_ok e" using assms(1) e(1) by (simp add: registry_inv_def)
  then have "length k < REGISTRY_KEY_SIZE" "length v < REGISTRY_VALUE_SIZE"
    using cstr_length_less [of "re_key e"] cstr_length_less [of "re_value e"] e by (auto simp: entry_ok_def)
  moreover have "setting_clean k v" using assms(2) kv by blast
  ultimately show "string_pair k v" "setting_fits k v"
    by (auto simp: string_pair_def setting_fits_def setting_clean_def)
qed

subsection \<open>Saving and loading\<close>

definition shell_ready :: "int \<Rightarrow> 'h shell \<Rightarrow> bool" where
  "shell_ready drive sh \<longleftrightarrow> current_drive sh = drive \<and> 0 \<le> drive \<and> drive < MAX_DRIVES \<and> shell_work_buffers_ready sh \<and>
     (\<exists>buffer. shell_manifest_buffer sh = Some buffer \<and> length buffer = ASM_SOURCE_SIZE + 1)"

lemma shell_readyD:
  assumes "shell_ready drive sh"
  obtains buffer where "active_drive sh = drive" "0 \<le> drive" "shell_work_buffers_ready sh"
    "shell_manifest_buffer sh = Some buffer" "length (take ASM_SOURCE_SIZE buffer) = ASM_SOURCE_SIZE"
  using assms by (auto simp: shell_ready_def active_drive_def)

lemma shell_registry_save_ok:
  assumes sh: "shell_ready drive sh" and inv: "registry_inv es"
    and save: "lainfs_save_file_in_dir (drive_letter drive) LAINFS_ROOT_DIR SHELL_REGISTRY_FILE (settings_text es)
      (of_nat (length (settings_text es))) (sh_fs sh) = Some (0, l)"
    and flush: "lainfs_flush (drive_letter drive) l = Some (st, l')"
  shows "shell_registry_save es sh = Some (sh\<lparr>sh_fs := l'\<rparr>)"
  by (rule shell_readyD [OF sh]) (simp add: shell_registry_save_def save_lines_text(1) [OF inv] save flush Let_def)

lemma shell_registry_load_ok:
  assumes sh: "shell_ready drive (hook_world r)" and es: "registry_inv es" "\<forall>(k, v) \<in> set (settings_of es). setting_clean k v"
    and inv: "registry_inv (registry_entries r)"
    and room: "card (dom (registry_map (registry_entries r)) \<union> dom (registry_map es)) \<le> REGISTRY_MAX_ENTRIES"
    and load: "\<And>out. length out = ASM_SOURCE_SIZE \<Longrightarrow> \<exists>buf l.
      lainfs_load_file_in_dir (drive_letter drive) LAINFS_ROOT_DIR SHELL_REGISTRY_FILE out (of_nat ASM_SOURCE_SIZE)
        (sh_fs (hook_world r)) = Some (0, buf, of_nat (length (settings_text es)), l) \<and>
      take (length (settings_text es)) buf = settings_text es"
  shows "\<exists>r'. shell_registry_load r = Some r' \<and> registry_inv (registry_entries r') \<and>
    registry_map (registry_entries r') = registry_map (registry_entries r) ++ registry_map es"
proof -
  obtain buffer where b: "active_drive (hook_world r) = drive" "0 \<le> drive" "shell_work_buffers_ready (hook_world r)"
    "shell_manifest_buffer (hook_world r) = Some buffer" "length (take ASM_SOURCE_SIZE buffer) = ASM_SOURCE_SIZE"
    by (rule shell_readyD [OF sh])
  obtain buf l where l: "lainfs_load_file_in_dir (drive_letter drive) LAINFS_ROOT_DIR SHELL_REGISTRY_FILE
        (take ASM_SOURCE_SIZE buffer) (of_nat ASM_SOURCE_SIZE) (sh_fs (hook_world r)) =
      Some (0, buf, of_nat (length (settings_text es)), l)" "take (length (settings_text es)) buf = settings_text es"
    using load [OF b(5)] by blast
  have sz: "unat (of_nat (length (settings_text es)) :: u32) = length (settings_text es)"
    "length (settings_text es) < ASM_SOURCE_SIZE"
    using save_lines_text(2) [OF es(1)] by (simp_all add: unat_of_nat_32)
  define r1 where "r1 = registry_suspend_save 1 (r\<lparr>hook_world := (hook_world r)\<lparr>sh_fs := l\<rparr>\<rparr>)"
  have q: "registry_quiet r1" "registry_entries r1 = registry_entries r"
    using inv by (simp_all add: r1_def registry_suspend_save_def registry_quiet_def)
  obtain r2 where r2: "put_all registry_put (settings_of es) r1 = Some r2" "registry_quiet r2"
    "registry_map (registry_entries r2) = registry_map (registry_entries r1) ++ map_of (rev (settings_of es))"
    using settings.put_all_view [OF q(1) settings_fit [OF es]] room settings_of_map(2) [OF es(1)] q(2) by auto
  have "shell_registry_load r = Some (registry_suspend_save 0 r2)"
    using b l sz r2(1) load_lines_settings [OF es(2), of r1]
    by (simp add: shell_registry_load_def Let_def settings_text_def r1_def)
  then show ?thesis
    using r2(2,3) q(2) settings_of_map(1) [OF es(1)] by (simp add: registry_suspend_save_def registry_quiet_def)
qed

subsection \<open>A table with one setting, on the demo machine\<close>

lemma empty_registry_inv: "registry_inv (registry_entries (empty_registry w))"
  by (auto simp: empty_registry_def registry_inv_def entry_ok_def keys_distinct_def)

lemma empty_registry_map: "registry_map (registry_entries (empty_registry w)) = Map.empty"
proof -
  have "dom (registry_map (registry_entries (empty_registry w))) = {}"
    unfolding registry_dom [OF empty_registry_inv] by (auto simp: empty_registry_def)
  then show ?thesis by simp
qed

lemma cstr_zeros: "cstr (replicate n 0) = []"
  by (cases n) (simp_all add: cstr_simps)

definition demo_setting :: registry_entry_t where
  "demo_setting = \<lparr>re_used = True, re_key = 97 # replicate 47 0, re_value = 98 # replicate 95 0\<rparr>"

definition demo_settings :: "registry_entry_t list" where
  "demo_settings = (registry_entries (empty_registry ()))[0 := demo_setting]"

lemma demo_setting_strings: "cstr (re_key demo_setting) = [97]" "cstr (re_value demo_setting) = [98]"
  by (simp_all add: demo_setting_def cstr_simps cstr_zeros)

lemma demo_settings_inv: "registry_inv demo_settings" "registry_map demo_settings = [[97] \<mapsto> [98]]"
proof -
  have e: "entry_ok demo_setting" "re_used demo_setting" "cstr (re_key demo_setting) = cstr [97]"
    using demo_setting_strings by (simp_all add: entry_ok_def demo_setting_def cstr_simps)
  have n: "i < REGISTRY_MAX_ENTRIES \<Longrightarrow> \<not> re_used (registry_entries (empty_registry ()) ! i)" for i
    by (simp add: empty_registry_def)
  show "registry_inv demo_settings"
    unfolding demo_settings_def using n by (intro registry_upd(1) [OF empty_registry_inv _ e]) auto
  have "registry_map demo_settings = (registry_map (registry_entries (empty_registry ())))(cstr [97] \<mapsto> cstr (re_value demo_setting))"
    unfolding demo_settings_def using n by (intro registry_upd(2) [OF empty_registry_inv _ e]) auto
  then show "registry_map demo_settings = [[97] \<mapsto> [98]]" by (simp add: empty_registry_map demo_setting_strings cstr_simps)
qed

lemma demo_settings_of: "settings_of demo_settings = [([97], [98])]"
proof -
  have "filter re_used (replicate 95 \<lparr>re_used = False, re_key = replicate 48 0, re_value = replicate 96 0\<rparr>) = []"
    by (simp add: filter_empty_conv)
  moreover have l: "demo_settings = demo_setting # replicate 95 \<lparr>re_used = False, re_key = replicate 48 0, re_value = replicate 96 0\<rparr>"
    by (rule nth_equalityI) (auto simp: demo_settings_def empty_registry_def nth_Cons')
  ultimately have "used_entries demo_settings = [demo_setting]" unfolding used_entries_def l by (simp add: demo_setting_def)
  then show ?thesis by (simp add: settings_of_def demo_setting_strings)
qed

definition hd_shell :: "ata_view shell" where
  "hd_shell = \<lparr>sh_fs = hd_machine, current_drive = 2, shell_work_buffers_ready = True,
     shell_manifest_buffer = Some (replicate (ASM_SOURCE_SIZE + 1) 0)\<rparr>"

lemma demo_shell_ready: "shell_ready 2 hd_shell" "drive_letter 2 = 67"
  by (simp_all add: shell_ready_def hd_shell_def drive_letter_def)

lemma registry_file_name: "valid_name SHELL_REGISTRY_FILE"
  by (simp add: SHELL_REGISTRY_FILE_def ascii_def valid_name_def cstr_def atLeast0LessThan lessThan_Suc)

subsection \<open>Properties\<close>

definition set_spec :: "bytes \<Rightarrow> bytes \<Rightarrow> (bytes \<rightharpoonup> bytes) \<Rightarrow> int + (bytes \<rightharpoonup> bytes)" where
  "set_spec k v m =
     (if k = [] then Inl REGISTRY_ERR_INPUT
      else if REGISTRY_KEY_SIZE \<le> length k \<or> REGISTRY_VALUE_SIZE \<le> length v then Inl REGISTRY_ERR_TOO_LONG
      else if k \<notin> dom m \<and> card (dom m) = REGISTRY_MAX_ENTRIES then Inl REGISTRY_ERR_FULL
      else Inr (m(k \<mapsto> v)))"

text \<open>
  C9. Saved settings are found again on a drive that keeps its blocks, for every driver that honours the block
  contract (as the ATA driver does; nothing is claimed for the ramdisk, which \<^verbatim>\<open>storage_init\<close> clears). When the
  file system has room for the settings file, saving a registry returns, and for every state \<open>h\<close> of the device with
  the blocks that the drive has then, a kernel that starts with empty caches on it, with the partition registered
  and mounted as before and with any registry of its own (such as the defaults), loads the file and has every
  saved setting on top of its own. The saved settings are those the format can represent: no control character
  that the format uses, no blank at either end.
\<close>

theorem settings_survive_restart:
  assumes "block_driver rd wr ctx cap blk ok" and "shell_ready drive sh"
    and "driver_ready rd wr ctx cap blk ok (drive_letter drive) p (sh_fs sh)"
    and "registry_inv es" and "\<forall>(k, v) \<in> set (settings_of es). setting_clean k v"
    and "lainfs_save_file_in_dir (drive_letter drive) LAINFS_ROOT_DIR SHELL_REGISTRY_FILE (settings_text es)
      (of_nat (length (settings_text es))) (sh_fs sh) = Some (0, l)"
  shows "\<exists>sh'. shell_registry_save es sh = Some sh' \<and> ok (disk (store (sh_fs sh'))) \<and>
    (\<forall>h r. ok h \<and> blk h = blk (disk (store (sh_fs sh'))) \<and> shell_ready drive (hook_world r) \<and>
         sh_fs (hook_world r) = cold_caches ((store (sh_fs sh'))\<lparr>disk := h\<rparr>) \<and> registry_inv (registry_entries r) \<and>
         card (dom (registry_map (registry_entries r)) \<union> dom (registry_map es)) \<le> REGISTRY_MAX_ENTRIES \<longrightarrow>
       (\<exists>r'. shell_registry_load r = Some r' \<and> registry_inv (registry_entries r') \<and>
          registry_map (registry_entries r') = registry_map (registry_entries r) ++ registry_map es))"
proof -
  let ?text = "settings_text es" and ?drive = "drive_letter drive" and ?sz = "of_nat (length (settings_text es)) :: u32"
  have sz: "unat ?sz = length ?text" "?sz \<le> of_nat ASM_SOURCE_SIZE"
    using save_lines_text(2) [OF assms(4)] by (simp_all add: unat_of_nat_32 word_le_nat_alt)
  obtain i where i: "driver_ready rd wr ctx cap blk ok ?drive p l" "valid_name SHELL_REGISTRY_FILE"
    "valid_dir_id (fs_dir blk l p) LAINFS_ROOT_DIR"
    "find_entry_in_dir (fs_dir blk l p) LAINFS_ROOT_DIR SHELL_REGISTRY_FILE = Some i"
    "de_used (fs_dir blk l p ! i) = LAINFS_ENTRY_FILE" "de_byte_size (fs_dir blk l p ! i) = ?sz"
    "file_contents blk l p (fs_dir blk l p ! i) = take (unat ?sz) ?text"
    by (rule block_driver.saved_entry [OF assms(1,3,6)]) (simp_all add: sz(1))
  obtain l' where fl: "lainfs_flush ?drive l = Some (0, l')" and l': "driver_ready rd wr ctx cap blk ok ?drive p l'"
    by (rule block_driver.flush_durable [OF assms(1) i(1)])
  have rest: "ok (disk (store l'))" using l' by (simp add: driver_ready_def driver_fs_ok_def backed_by_def)
  have save: "shell_registry_save es sh = Some (sh\<lparr>sh_fs := l'\<rparr>)"
    by (rule shell_registry_save_ok [OF assms(2,4,6) fl])
  have "\<exists>r'. shell_registry_load r = Some r' \<and> registry_inv (registry_entries r') \<and>
      registry_map (registry_entries r') = registry_map (registry_entries r) ++ registry_map es"
    if h: "ok h" "blk h = blk (disk (store l'))"
      and r: "shell_ready drive (hook_world r)" "sh_fs (hook_world r) = cold_caches ((store l')\<lparr>disk := h\<rparr>)"
      "registry_inv (registry_entries r)"
      "card (dom (registry_map (registry_entries r)) \<union> dom (registry_map es)) \<le> REGISTRY_MAX_ENTRIES" for h r
  proof (rule shell_registry_load_ok [OF r(1) assms(4,5) r(3,4)])
    fix out :: bytes
    assume out: "length out = ASM_SOURCE_SIZE"
    let ?r = "cold_caches ((store l')\<lparr>disk := h\<rparr>)"
    obtain r' where "lainfs_load_file_in_dir ?drive LAINFS_ROOT_DIR SHELL_REGISTRY_FILE out (of_nat ASM_SOURCE_SIZE)
        ?r = Some (0, overwrite 0 ?text out, ?sz, r')"
      using block_driver.load_after_restart [OF assms(1) i(1) fl block_driver.cold_restart [OF assms(1) h] i(2) _ i(3,4,5),
          of "of_nat ASM_SOURCE_SIZE" out] out sz i(6,7) by auto
    moreover have "take (length ?text) (overwrite 0 ?text out) = ?text" by (simp add: overwrite_def)
    ultimately show "\<exists>buf l. lainfs_load_file_in_dir ?drive LAINFS_ROOT_DIR SHELL_REGISTRY_FILE out (of_nat ASM_SOURCE_SIZE)
        (sh_fs (hook_world r)) = Some (0, buf, ?sz, l) \<and> take (length ?text) buf = ?text"
      using r(2) by auto
  qed
  with save rest show ?thesis by auto
qed

theorem settings_survive_restart_witness:
  "\<exists>sh' r'. shell_registry_save demo_settings hd_shell = Some sh' \<and>
    shell_registry_load (empty_registry (hd_shell\<lparr>sh_fs := cold_caches (store (sh_fs sh'))\<rparr>)) = Some r' \<and>
    registry_map (registry_entries r') = [[97] \<mapsto> [98]]"
proof -
  have contents: "settings_text demo_settings = [97, 61, 98, 10]"
    by (simp add: settings_text_def demo_settings_of setting_line_def)
  have fs: "sh_fs hd_shell = hd_machine" by (simp add: hd_shell_def)
  obtain l where l: "lainfs_save_file_in_dir (drive_letter 2) LAINFS_ROOT_DIR SHELL_REGISTRY_FILE (settings_text demo_settings)
      (of_nat (length (settings_text demo_settings))) (sh_fs hd_shell) = Some (0, l)"
    using emulated.ata.fresh_save [OF hd_facts(1) _ hd_facts(2) registry_file_name, of 4 "[97, 61, 98, 10]"] hd_fresh
    by (auto simp: contents demo_shell_ready(2) fs hd_facts(3) blocks_for_size_def)
  have ready: "hd_ready (drive_letter 2) 0 (sh_fs hd_shell)"
    using hd_facts(1) unfolding demo_shell_ready(2) fs .
  have clean: "\<forall>(k, v) \<in> set (settings_of demo_settings). setting_clean k v"
    by (simp add: demo_settings_of setting_clean_def trimmed_def)
  obtain sh' where sh': "shell_registry_save demo_settings hd_shell = Some sh'" "emulated.at_rest (disk (store (sh_fs sh')))"
    "\<And>h r. emulated.at_rest h \<Longrightarrow> av_sectors h = av_sectors (disk (store (sh_fs sh'))) \<Longrightarrow> shell_ready 2 (hook_world r) \<Longrightarrow>
      sh_fs (hook_world r) = cold_caches ((store (sh_fs sh'))\<lparr>disk := h\<rparr>) \<Longrightarrow> registry_inv (registry_entries r) \<Longrightarrow>
      card (dom (registry_map (registry_entries r)) \<union> dom (registry_map demo_settings)) \<le> REGISTRY_MAX_ENTRIES \<Longrightarrow>
      \<exists>r'. shell_registry_load r = Some r' \<and> registry_inv (registry_entries r') \<and>
        registry_map (registry_entries r') = registry_map (registry_entries r) ++ registry_map demo_settings"
    using settings_survive_restart [OF hd_driver demo_shell_ready(1) ready demo_settings_inv(1) clean l] by blast
  let ?r = "empty_registry (hd_shell\<lparr>sh_fs := cold_caches (store (sh_fs sh'))\<rparr>)"
  have "\<exists>r'. shell_registry_load ?r = Some r' \<and> registry_inv (registry_entries r') \<and>
      registry_map (registry_entries r') = registry_map (registry_entries ?r) ++ registry_map demo_settings"
    using demo_shell_ready(1)
    by (intro sh'(3) [OF sh'(2)] empty_registry_inv) (simp_all add: empty_registry_map demo_settings_inv(2), simp_all add: empty_registry_def shell_ready_def)
  then show ?thesis using sh'(1) by (auto simp: empty_registry_map demo_settings_inv(2))
qed

text \<open>
  C10. Storing a setting implements its specification on the map of settings, on every branch: an
  empty key, a key or value that is too long, a full table, and a pair that is stored; a stored pair changes
  that key only, keeps the table well-formed, and is followed by the save hook. Looking a key up reads the map.
\<close>

theorem registry_set_correct:
  assumes "registry_inv (registry_entries r)" and "length (cstr key) < 2 ^ 32" and "length (cstr val) < 2 ^ 32"
  shows "(case set_spec (cstr key) (cstr val) (registry_map (registry_entries r)) of
      Inl e \<Rightarrow> registry_set (Some key) (Some val) r = Some (e, r)
    | Inr m \<Rightarrow> \<exists>es. registry_inv es \<and> registry_map es = m \<and>
        registry_set (Some key) (Some val) r = map_option (Pair REGISTRY_OK) (run_save_hook (r\<lparr>registry_entries := es\<rparr>))) \<and>
    map_option cstr (registry_get (Some key) r) = registry_map (registry_entries r) (cstr key)"
proof
  note cases = registry_set_cases [OF assms]
  show "map_option cstr (registry_get (Some key) r) = registry_map (registry_entries r) (cstr key)"
    by (simp add: registry_get_def registry_map_cstr split: option.splits)
  show "case set_spec (cstr key) (cstr val) (registry_map (registry_entries r)) of
      Inl e \<Rightarrow> registry_set (Some key) (Some val) r = Some (e, r)
    | Inr m \<Rightarrow> \<exists>es. registry_inv es \<and> registry_map es = m \<and>
        registry_set (Some key) (Some val) r = map_option (Pair REGISTRY_OK) (run_save_hook (r\<lparr>registry_entries := es\<rparr>))"
  proof (cases "set_spec (cstr key) (cstr val) (registry_map (registry_entries r))")
    case (Inl e)
    then show ?thesis using cases(1-3) by (auto simp: set_spec_def not_le split: if_splits)
  next
    case (Inr m)
    then have "cstr key \<in> dom (registry_map (registry_entries r)) \<or> card (dom (registry_map (registry_entries r))) < REGISTRY_MAX_ENTRIES"
      using card_registry_le [OF assms(1)] by (auto simp: set_spec_def split: if_splits)
    with Inr cases(4) show ?thesis by (auto simp: set_spec_def not_le split: if_splits)
  qed
qed

theorem registry_set_correct_witness:
  "\<exists>es. registry_inv es \<and> registry_map es = [[97] \<mapsto> [98]] \<and>
     registry_set (Some [97]) (Some [98]) (empty_registry ()) = Some (0, (empty_registry ())\<lparr>registry_entries := es\<rparr>)"
proof -
  have s: "set_spec [97] [98] (registry_map (registry_entries (empty_registry ()))) = Inr [[97] \<mapsto> [98]]"
    by (simp add: set_spec_def empty_registry_map)
  have h: "run_save_hook ((empty_registry ())\<lparr>registry_entries := es\<rparr>) = Some ((empty_registry ())\<lparr>registry_entries := es\<rparr>)" for es
    by (simp add: run_save_hook_def empty_registry_def)
  show ?thesis
    using registry_set_correct [OF empty_registry_inv, of "[97]" "[98]" "()"] by (auto simp: s h cstr_simps)
qed

text \<open>
  A number stored as a hexadecimal text is read back as that number modulo \<open>2 ^ 32\<close>, and an
  unknown key gives the default and the status \<^verbatim>\<open>REGISTRY_ERR_NOT_FOUND\<close>.
\<close>

lemma registry_u32_roundtrip:
  assumes "registry_quiet r" and "0 \<notin> set k" and "setting_fits k (ascii ''0x'' @ ds)"
    and "ds \<noteq> []" and "list_all is_hex ds" and "card (dom (registry_map (registry_entries r))) < REGISTRY_MAX_ENTRIES"
  shows "\<exists>r'. registry_set (Some k) (Some (ascii ''0x'' @ ds)) r = Some (REGISTRY_OK, r') \<and>
    registry_get_u32 (Some k) d r' = (REGISTRY_OK, of_nat (number_value 16 ds)) \<and>
    (registry_map (registry_entries r) k = None \<longrightarrow> registry_get_u32 (Some k) d r = (REGISTRY_ERR_NOT_FOUND, d))"
proof -
  let ?v = "ascii ''0x'' @ ds"
  have inv: "registry_inv (registry_entries r)" using assms(1) by (simp add: registry_quiet_def)
  have ds: "0 \<notin> set ds" using assms(5) by (auto simp: list_all_iff is_hex_def)
  have c: "cstr k = k" "cstr ?v = ?v" using assms(2) ds by (auto simp: ascii_def intro!: cstr_no_nul)
  have len: "length (cstr k) < 2 ^ 32" "length (cstr ?v) < 2 ^ 32" using assms(3) c by (auto simp: setting_fits_def)
  obtain es where es: "registry_set (Some k) (Some ?v) r =
      map_option (Pair REGISTRY_OK) (run_save_hook (r\<lparr>registry_entries := es\<rparr>))"
    "registry_map es = (registry_map (registry_entries r))(k \<mapsto> ?v)"
    using registry_set_cases(4) [OF inv len] assms(3,6) c by (auto simp: setting_fits_def)
  let ?r = "r\<lparr>registry_entries := es\<rparr>"
  have h: "run_save_hook ?r = Some ?r" using assms(1) by (intro run_save_hook_quiet) (simp add: registry_quiet_def)
  have get: "map_option cstr (registry_get (Some k) s) = registry_map (registry_entries s) k" for s :: "'a registry"
    using c(1) registry_map_cstr [of "registry_entries s" k] by (simp add: registry_get_def split: option.splits)
  have "map_option cstr (registry_get (Some k) ?r) = Some ?v" unfolding get by (simp add: es(2))
  then obtain t where "registry_get (Some k) ?r = Some t" "cstr t = ?v" by auto
  moreover have "registry_parse_u32 (Some t) = Some (of_nat (number_value 16 ds))"
    unfolding parse_cstr [of t, symmetric] \<open>cstr t = ?v\<close> by (rule registry_parse_number(1) [OF assms(4,5)])
  ultimately have "registry_get_u32 (Some k) d ?r = (REGISTRY_OK, of_nat (number_value 16 ds))"
    by (simp add: registry_get_u32_def)
  moreover have "registry_get_u32 (Some k) d r = (REGISTRY_ERR_NOT_FOUND, d)" if "registry_map (registry_entries r) k = None"
    using get [of r] that by (simp add: registry_get_u32_def registry_parse_u32_def)
  ultimately show ?thesis using es(1) h by auto
qed

end
