(* ===== verification/Libc_Memory.thy ===== *)
theory Libc_Memory
  imports Phys_Mem
begin

text \<open>
  The block operations of \<^verbatim>\<open>kernel/core/libc.c\<close> on physical memory: \<^verbatim>\<open>memcpy\<close>,
  \<^verbatim>\<open>memset\<close>, \<^verbatim>\<open>memmove\<close> and \<^verbatim>\<open>memcmp\<close>, and the string operations that write memory.
  A loop over the bytes of a block is a recursion on the number of bytes left. A loop that looks
  for a terminator may run forever on a memory without one: it is a partial function, with
  \<^term>\<open>None\<close> for a run that does not end. The functions that return their first argument
  return the changed memory only.
\<close>

subsection \<open>Blocks\<close>

fun copy_forward :: "u64 \<Rightarrow> u64 \<Rightarrow> nat \<Rightarrow> nat \<Rightarrow> memory \<Rightarrow> memory" where
  "copy_forward d s i 0 m = m"
| "copy_forward d s i (Suc n) m = copy_forward d s (i + 1) n (m(d + word_of_nat i := m (s + word_of_nat i)))"

fun copy_backward :: "u64 \<Rightarrow> u64 \<Rightarrow> nat \<Rightarrow> memory \<Rightarrow> memory" where
  "copy_backward d s 0 m = m"
| "copy_backward d s (Suc i) m = copy_backward d s i (m(d + word_of_nat i := m (s + word_of_nat i)))"

definition memcpy :: "u64 \<Rightarrow> u64 \<Rightarrow> u64 \<Rightarrow> memory \<Rightarrow> memory" where
  "memcpy dst src len m = copy_forward dst src 0 (unat len) m"

fun set_forward :: "u64 \<Rightarrow> u8 \<Rightarrow> nat \<Rightarrow> nat \<Rightarrow> memory \<Rightarrow> memory" where
  "set_forward d v i 0 m = m"
| "set_forward d v i (Suc n) m = set_forward d v (i + 1) n (m(d + word_of_nat i := v))"

definition memset :: "u64 \<Rightarrow> int \<Rightarrow> u64 \<Rightarrow> memory \<Rightarrow> memory" where
  "memset dst v len m = set_forward dst (word_of_int v) 0 (unat len) m"

definition memmove :: "u64 \<Rightarrow> u64 \<Rightarrow> u64 \<Rightarrow> memory \<Rightarrow> memory" where
  "memmove dst src len m =
     (if dst = src \<or> len = 0 then m
      else if dst < src then copy_forward dst src 0 (unat len) m
      else copy_backward dst src (unat len) m)"

fun cmp_forward :: "u64 \<Rightarrow> u64 \<Rightarrow> nat \<Rightarrow> nat \<Rightarrow> memory \<Rightarrow> int" where
  "cmp_forward a b i 0 m = 0"
| "cmp_forward a b i (Suc n) m =
     (if m (a + word_of_nat i) \<noteq> m (b + word_of_nat i)
      then uint (m (a + word_of_nat i)) - uint (m (b + word_of_nat i))
      else cmp_forward a b (i + 1) n m)"

definition memcmp :: "u64 \<Rightarrow> u64 \<Rightarrow> u64 \<Rightarrow> memory \<Rightarrow> int" where
  "memcmp a b len m = cmp_forward a b 0 (unat len) m"

subsection \<open>Strings in memory\<close>

partial_function (option) strlen_from :: "u64 \<Rightarrow> u64 \<Rightarrow> memory \<Rightarrow> u64 option" where
  "strlen_from s len m = (if m (s + len) \<noteq> 0 then strlen_from s (len + 1) m else Some len)"

definition strlen :: "u64 \<Rightarrow> memory \<Rightarrow> u64 option" where
  "strlen s m = strlen_from s 0 m"

partial_function (option) strcpy :: "u64 \<Rightarrow> u64 \<Rightarrow> memory \<Rightarrow> memory option" where
  "strcpy dst src m =
     (let m' = m(dst := m src) in if m src \<noteq> 0 then strcpy (dst + 1) (src + 1) m' else Some m')"

fun strncpy_loop :: "u64 \<Rightarrow> u64 \<Rightarrow> nat \<Rightarrow> nat \<Rightarrow> memory \<Rightarrow> memory" where
  "strncpy_loop dst src i 0 m = m"
| "strncpy_loop dst src i (Suc n) m =
     (if m (src + word_of_nat i) \<noteq> 0
      then strncpy_loop dst src (i + 1) n (m(dst + word_of_nat i := m (src + word_of_nat i)))
      else set_forward dst 0 i (Suc n) m)"

definition strncpy :: "u64 \<Rightarrow> u64 \<Rightarrow> u64 \<Rightarrow> memory \<Rightarrow> memory" where
  "strncpy dst src n m = strncpy_loop dst src 0 (unat n) m"

partial_function (option) string_end :: "u64 \<Rightarrow> memory \<Rightarrow> u64 option" where
  "string_end dst m = (if m dst \<noteq> 0 then string_end (dst + 1) m else Some dst)"

definition strcat :: "u64 \<Rightarrow> u64 \<Rightarrow> memory \<Rightarrow> memory option" where
  "strcat dst src m = Option.bind (string_end dst m) (\<lambda>p. strcpy p src m)"

subsection \<open>What the block operations do\<close>

lemma copy_forward_apply:
  assumes "in_space d (i + n)" and "in_space s (i + n)" and "unat d \<le> unat s \<or> unat s + i + n \<le> unat d"
  shows "copy_forward d s i n m x =
    (if unat d + i \<le> unat x \<and> unat x < unat d + i + n then m (s + word_of_nat (unat x - unat d)) else m x)"
  using assms
proof (induction n arbitrary: i m)
  case 0
  then show ?case by auto
next
  case (Suc n)
  let ?m = "m(d + word_of_nat i := m (s + word_of_nat i))"
  have d: "unat (d + word_of_nat j) = unat d + j" if "j \<le> i + n" for j
    using that Suc.prems(1) by (intro unat_add_small) (simp add: in_space_def)
  have s: "unat (s + word_of_nat j) = unat s + j" if "j \<le> i + n" for j
    using that Suc.prems(2) by (intro unat_add_small) (simp add: in_space_def)
  have ih: "copy_forward d s (i + 1) n ?m x =
      (if unat d + (i + 1) \<le> unat x \<and> unat x < unat d + (i + 1) + n then ?m (s + word_of_nat (unat x - unat d)) else ?m x)"
    using Suc.prems by (intro Suc.IH) (auto simp: in_space_def)
  show ?case
  proof (cases "unat d + (i + 1) \<le> unat x \<and> unat x < unat d + (i + 1) + n")
    case True
    have e: "unat (s + word_of_nat (unat x - unat d)) = unat s + (unat x - unat d)" by (rule s) (use True in linarith)
    have "unat (s + word_of_nat (unat x - unat d)) \<noteq> unat (d + word_of_nat i)"
      unfolding e using d [of i] Suc.prems(3) True by linarith
    then have "s + word_of_nat (unat x - unat d) \<noteq> d + word_of_nat i" by metis
    then show ?thesis using True ih by simp
  next
    case False
    have "x = d + word_of_nat i \<longleftrightarrow> unat x = unat d + i" using d [of i] by (metis le_add1 word_unat_eq_iff)
    then show ?thesis using False ih by auto
  qed
qed

lemma copy_backward_apply:
  assumes "in_space d n" and "in_space s n" and "unat s \<le> unat d"
  shows "copy_backward d s n m x =
    (if unat d \<le> unat x \<and> unat x < unat d + n then m (s + word_of_nat (unat x - unat d)) else m x)"
  using assms
proof (induction n arbitrary: m)
  case 0
  then show ?case by auto
next
  case (Suc n)
  let ?m = "m(d + word_of_nat n := m (s + word_of_nat n))"
  have d: "unat (d + word_of_nat j) = unat d + j" if "j \<le> n" for j
    using that Suc.prems(1) by (intro unat_add_small) (simp add: in_space_def)
  have s: "unat (s + word_of_nat j) = unat s + j" if "j \<le> n" for j
    using that Suc.prems(2) by (intro unat_add_small) (simp add: in_space_def)
  have ih: "copy_backward d s n ?m x =
      (if unat d \<le> unat x \<and> unat x < unat d + n then ?m (s + word_of_nat (unat x - unat d)) else ?m x)"
    using Suc.prems by (intro Suc.IH) (auto simp: in_space_def)
  show ?case
  proof (cases "unat d \<le> unat x \<and> unat x < unat d + n")
    case True
    have e: "unat (s + word_of_nat (unat x - unat d)) = unat s + (unat x - unat d)" by (rule s) (use True in linarith)
    have "unat (s + word_of_nat (unat x - unat d)) \<noteq> unat (d + word_of_nat n)"
      unfolding e using d [of n] Suc.prems(3) True by linarith
    then have "s + word_of_nat (unat x - unat d) \<noteq> d + word_of_nat n" by metis
    then show ?thesis using True ih by simp
  next
    case False
    have "x = d + word_of_nat n \<longleftrightarrow> unat x = unat d + n" using d [of n] by (metis order_refl word_unat_eq_iff)
    then show ?thesis using False ih by auto
  qed
qed

text \<open>The effect of moving a block: the new contents of the target, and nothing else.\<close>

definition moved :: "u64 \<Rightarrow> u64 \<Rightarrow> nat \<Rightarrow> memory \<Rightarrow> memory \<Rightarrow> bool" where
  "moved d s n m m' \<longleftrightarrow> load_bytes m' d n = load_bytes m s n \<and> only_in (region d n) m m'"

lemma movedI:
  assumes "in_space d n"
    and "\<And>x. m' x = (if unat d \<le> unat x \<and> unat x < unat d + n then m (s + word_of_nat (unat x - unat d)) else m x)"
  shows "moved d s n m m'"
proof -
  have "m' (d + word_of_nat i) = m (s + word_of_nat i)" if "i < n" for i
  proof -
    have "unat (d + word_of_nat i) = unat d + i"
      using that assms(1) by (intro unat_add_small) (simp add: in_space_def)
    then show ?thesis using assms(2) [of "d + word_of_nat i"] that by simp
  qed
  then have "load_bytes m' d n = load_bytes m s n" by (simp add: load_bytes_def)
  moreover have "only_in (region d n) m m'" using assms(2) by (auto simp: only_in_def region_def)
  ultimately show ?thesis by (simp add: moved_def)
qed

lemma memcpy_moved:
  assumes "in_space d (unat n)" and "in_space s (unat n)" and "region d (unat n) \<inter> region s (unat n) = {}"
  shows "moved d s (unat n) m (memcpy d s n m)"
proof (cases "n = 0")
  case False
  then have "0 < unat n" by (simp add: unat_gt_0)
  then have "unat d \<in> region d (unat n)" "unat s \<in> region s (unat n)" by (simp_all add: region_def)
  then have "unat d \<notin> region s (unat n)" "unat s \<notin> region d (unat n)" using assms(3) by blast+
  then have "unat d \<le> unat s \<or> unat s + 0 + unat n \<le> unat d" by (auto simp: region_def)
  then show ?thesis
    using copy_forward_apply [of d 0 "unat n" s m] assms(1,2) unfolding memcpy_def by (intro movedI) simp_all
qed (simp add: memcpy_def moved_def load_bytes_def)

lemma memmove_moved:
  assumes "in_space d (unat n)" and "in_space s (unat n)"
  shows "moved d s (unat n) m (memmove d s n m)"
proof -
  consider "d = s \<or> n = 0" | "d \<noteq> s" "n \<noteq> 0" "d < s" | "d \<noteq> s" "n \<noteq> 0" "\<not> d < s" by blast
  then show ?thesis
  proof cases
    case 1
    then show ?thesis by (auto simp: memmove_def moved_def load_bytes_def)
  next
    case 2
    then show ?thesis
      using copy_forward_apply [of d 0 "unat n" s m] assms
      by (intro movedI) (simp_all add: memmove_def word_less_nat_alt)
  next
    case 3
    then show ?thesis
      using copy_backward_apply [of d "unat n" s m] assms
      by (intro movedI) (simp_all add: memmove_def word_less_nat_alt)
  qed
qed

lemma set_forward_apply:
  assumes "in_space d (i + n)"
  shows "set_forward d v i n m x = (if unat d + i \<le> unat x \<and> unat x < unat d + i + n then v else m x)"
  using assms
proof (induction n arbitrary: i m)
  case (Suc n)
  have d: "unat (d + word_of_nat i) = unat d + i"
    using Suc.prems by (intro unat_add_small) (simp add: in_space_def)
  have "set_forward d v (i + 1) n (m(d + word_of_nat i := v)) x =
      (if unat d + (i + 1) \<le> unat x \<and> unat x < unat d + (i + 1) + n then v else (m(d + word_of_nat i := v)) x)"
    using Suc.prems by (intro Suc.IH) simp
  moreover have "x = d + word_of_nat i \<longleftrightarrow> unat x = unat d + i" using d by (metis word_unat_eq_iff)
  ultimately show ?case by auto
qed auto

lemma memset_bytes:
  assumes "in_space d (unat n)"
  shows "load_bytes (memset d v n m) d (unat n) = replicate (unat n) (word_of_int v)"
    "only_in (region d (unat n)) m (memset d v n m)"
proof -
  have d: "unat (d + word_of_nat i) = unat d + i" if "i < unat n" for i
    using that assms by (intro unat_add_small) (simp add: in_space_def)
  show "load_bytes (memset d v n m) d (unat n) = replicate (unat n) (word_of_int v)"
    using assms d by (intro nth_equalityI) (simp_all add: load_bytes_def memset_def set_forward_apply)
  show "only_in (region d (unat n)) m (memset d v n m)"
    using assms by (auto simp: only_in_def region_def memset_def set_forward_apply)
qed

lemma cmp_forward_zero:
  "cmp_forward a b i n m = 0 \<longleftrightarrow> (\<forall>j \<in> {i..<i + n}. m (a + word_of_nat j) = m (b + word_of_nat j))"
proof (induction n arbitrary: i)
  case (Suc n)
  let ?same = "\<lambda>j. m (a + word_of_nat j) = m (b + word_of_nat j)"
  have "uint x - uint y \<noteq> 0" if "x \<noteq> y" for x y :: u8 using that by (simp add: word_uint_eq_iff)
  then have "cmp_forward a b i (Suc n) m = 0 \<longleftrightarrow> ?same i \<and> cmp_forward a b (i + 1) n m = 0" by simp
  also have "\<dots> \<longleftrightarrow> (\<forall>j \<in> insert i {i + 1..<i + 1 + n}. ?same j)" unfolding Suc.IH by (simp only: ball_simps)
  also have "insert i {i + 1..<i + 1 + n} = {i..<i + Suc n}" by auto
  finally show ?case .
qed simp

lemma memcmp_zero: "memcmp a b n m = 0 \<longleftrightarrow> load_bytes m a (unat n) = load_bytes m b (unat n)"
  by (auto simp: memcmp_def cmp_forward_zero load_bytes_def)

text \<open>A string of \<open>n\<close> bytes and its terminator at an address.\<close>

definition string_at :: "memory \<Rightarrow> u64 \<Rightarrow> nat \<Rightarrow> bool" where
  "string_at m s n \<longleftrightarrow> in_space s (n + 1) \<and> m (s + word_of_nat n) = 0 \<and> (\<forall>i < n. m (s + word_of_nat i) \<noteq> 0)"

lemma strlen_from_string:
  "string_at m s n \<Longrightarrow> i \<le> n \<Longrightarrow> strlen_from s (word_of_nat i) m = Some (word_of_nat n)"
proof (induction "n - i" arbitrary: i)
  case 0
  then show ?case by (subst strlen_from.simps) (simp add: string_at_def)
next
  case (Suc k)
  have "i < n" using Suc.hyps(2) by simp
  moreover have "strlen_from s (word_of_nat (i + 1)) m = Some (word_of_nat n)"
    using Suc.hyps(2) Suc.prems by (intro Suc.hyps(1)) auto
  ultimately show ?case using Suc.prems(1)
    by (subst strlen_from.simps) (simp add: string_at_def add.commute)
qed

lemma strlen_string: "string_at m s n \<Longrightarrow> strlen s m = Some (word_of_nat n)"
  using strlen_from_string [of m s n 0] by (simp add: strlen_def)

end
