(* ===== verification/Libc_Alloc.thy ===== *)
theory Libc_Alloc
  imports Libc_Memory Kmem_Heap_Props
begin

text \<open>
  The allocation functions of \<^verbatim>\<open>kernel/core/libc.c\<close> on top of the kernel heap: \<^verbatim>\<open>malloc\<close>,
  \<^verbatim>\<open>calloc\<close>, \<^verbatim>\<open>realloc\<close>, \<^verbatim>\<open>free\<close> and \<^verbatim>\<open>strdup\<close>. The state is the heap with the
  variable \<^verbatim>\<open>libc_errno\<close>. An operation that frees is partial as \<^verbatim>\<open>kfree\<close> is.
\<close>

record libc =
  heap :: kmem
  libc_errno :: int

abbreviation LIBC_ENOMEM :: int where "LIBC_ENOMEM \<equiv> 12"

definition malloc :: "u64 \<Rightarrow> libc \<Rightarrow> u64 \<times> libc" where
  "malloc sz s =
     (if sz = 0 \<or> 0xffffffff < sz
      then (0, if 0xffffffff < sz then s\<lparr>libc_errno := LIBC_ENOMEM\<rparr> else s)
      else let (ptr, k) = kmalloc (ucast sz) (heap s); s' = s\<lparr>heap := k\<rparr>
           in (ptr, if ptr = 0 then s'\<lparr>libc_errno := LIBC_ENOMEM\<rparr> else s'))"

definition free :: "u64 \<Rightarrow> libc \<Rightarrow> libc option" where
  "free ptr s = map_option (\<lambda>k. s\<lparr>heap := k\<rparr>) (kfree ptr (heap s))"

definition calloc :: "u64 \<Rightarrow> u64 \<Rightarrow> libc \<Rightarrow> u64 \<times> libc" where
  "calloc n sz s =
     (if n \<noteq> 0 \<and> sz > (-1) div n then (0, s\<lparr>libc_errno := LIBC_ENOMEM\<rparr>)
      else let bytes = n * sz
           in if 0xffffffff < bytes then (0, s\<lparr>libc_errno := LIBC_ENOMEM\<rparr>)
              else let (ptr, s') = malloc bytes s
                   in if ptr \<noteq> 0
                      then (ptr, s'\<lparr>heap := (heap s')\<lparr>memory := memset ptr 0 bytes (memory (heap s'))\<rparr>\<rparr>)
                      else (ptr, s'))"

definition realloc :: "u64 \<Rightarrow> u64 \<Rightarrow> libc \<Rightarrow> (u64 \<times> libc) option" where
  "realloc ptr sz s =
     (if ptr = 0 then Some (malloc sz s)
      else if sz = 0 then map_option (Pair 0) (free ptr s)
      else if 0xffffffff < sz then Some (0, s\<lparr>libc_errno := LIBC_ENOMEM\<rparr>)
      else let old_size = kmalloc_size ptr (heap s)
           in if old_size = 0 then Some (0, s)
              else if sz \<le> ucast old_size then Some (ptr, s)
              else let (new_ptr, s1) = malloc sz s
                   in if new_ptr = 0 then Some (0, s1\<lparr>libc_errno := LIBC_ENOMEM\<rparr>)
                      else let s2 = s1\<lparr>heap := (heap s1)\<lparr>memory :=
                                 memcpy new_ptr ptr (ucast old_size) (memory (heap s1))\<rparr>\<rparr>
                           in map_option (Pair new_ptr) (free ptr s2))"

definition strdup :: "u64 \<Rightarrow> libc \<Rightarrow> (u64 \<times> libc) option" where
  "strdup str s =
     (case strlen str (memory (heap s)) of
        None \<Rightarrow> None
      | Some len \<Rightarrow>
          let (copy, s1) = malloc (len + 1) s
          in if copy = 0 then Some (0, s1\<lparr>libc_errno := LIBC_ENOMEM\<rparr>)
             else Some (copy, s1\<lparr>heap := (heap s1)\<lparr>memory :=
                    memcpy copy str (len + 1) (memory (heap s1))\<rparr>\<rparr>))"

subsection \<open>Bytes of live blocks\<close>

definition block_data :: "memory \<Rightarrow> u64 \<times> u32 \<Rightarrow> bytes" where
  "block_data m b = load_bytes m (fst b + 24) (unat (snd b))"

definition live :: "kmem \<Rightarrow> (u64 \<times> u32) set \<Rightarrow> bool" where
  "live k L \<longleftrightarrow> (\<exists>fl. heap_inv k fl L)"

definition data_kept :: "(u64 \<times> u32) set \<Rightarrow> memory \<Rightarrow> memory \<Rightarrow> bool" where
  "data_kept L m m' \<longleftrightarrow> (\<forall>b \<in> L. block_data m' b = block_data m b)"

lemma data_kept_trans: "data_kept L m m' \<Longrightarrow> data_kept L m' m'' \<Longrightarrow> data_kept L m m''"
  by (simp add: data_kept_def)

lemma data_kept_less: "data_kept L m m' \<Longrightarrow> L' \<subseteq> L \<Longrightarrow> data_kept L' m m'"
  by (auto simp: data_kept_def)

lemma live_space: "live k L \<Longrightarrow> (h, n) \<in> L \<Longrightarrow> in_space (h + 24) (unat n)"
  by (auto simp: live_def payload_space)

lemma live_apart:
  "live k L \<Longrightarrow> (h, n) \<in> L \<Longrightarrow> (h', n') \<in> L \<Longrightarrow> (h, n) \<noteq> (h', n') \<Longrightarrow>
    region (h + 24) (unat n) \<inter> region (h' + 24) (unat n') = {}"
  unfolding live_def using payloads_apart by blast

lemma untouched_data: "live k L \<Longrightarrow> untouched L (memory k) m' \<Longrightarrow> data_kept L (memory k) m'"
  unfolding data_kept_def block_data_def
  by (auto simp: live_def intro!: load_bytes_cong payload_space payload_kept)

lemma kmalloc_live:
  assumes "live k L" and "kmalloc n k = (p, k')"
  shows "data_kept L (memory k) (memory k')" "p = 0 \<Longrightarrow> live k' L"
    "p \<noteq> 0 \<Longrightarrow> live k' (insert (p - 24, n) L)" "p \<noteq> 0 \<Longrightarrow> (p - 24, n) \<notin> L"
proof -
  obtain fl where inv: "heap_inv k fl L" using assms(1) by (auto simp: live_def)
  have al: "allocated n k L p k'" by (rule kmalloc_inv [OF inv assms(2)])
  then show "data_kept L (memory k) (memory k')"
    using assms(1) by (intro untouched_data) (simp_all add: allocated_def)
  show "p = 0 \<Longrightarrow> live k' L" "p \<noteq> 0 \<Longrightarrow> live k' (insert (p - 24, n) L)" "p \<noteq> 0 \<Longrightarrow> (p - 24, n) \<notin> L"
    using al live_blockI [of "p - 24" n L] by (auto simp: allocated_def live_def)
qed

lemma kfree_block:
  assumes "live k L" and "(h, n) \<in> L"
  obtains k' where "kfree (h + 24) k = Some k'" "live k' (L - {(h, n)})" "data_kept (L - {(h, n)}) (memory k) (memory k')"
proof -
  obtain fl where inv: "heap_inv k fl L" using assms(1) by (auto simp: live_def)
  obtain k' fl' where k': "kfree (h + 24) k = Some k'" "heap_inv k' fl' (L - {(h, n)})"
    "untouched (L - {(h, n)}) (memory k) (memory k')" by (rule kfree_live [OF inv assms(2)])
  moreover have "live k (L - {(h, n)})" using heap_inv_less [OF inv] by (auto simp: live_def)
  ultimately show ?thesis using that [of k'] untouched_data by (auto simp: live_def)
qed

lemma payload_write:
  assumes "live k L" and "(h, n) \<in> L" and "only_in (region (h + 24) (unat n)) (memory k) m"
  shows "live (k\<lparr>memory := m\<rparr>) L" "data_kept (L - {(h, n)}) (memory k) m"
proof -
  show "live (k\<lparr>memory := m\<rparr>) L"
    using assms(1) heap_inv_payload [OF _ assms(2,3)] by (auto simp: live_def)
  show "data_kept (L - {(h, n)}) (memory k) m"
    unfolding data_kept_def block_data_def
  proof
    fix b assume "b \<in> L - {(h, n)}"
    then have "b \<in> L" "(fst b, snd b) \<noteq> (h, n)" by auto
    then show "load_bytes m (fst b + 24) (unat (snd b)) = load_bytes (memory k) (fst b + 24) (unat (snd b))"
      using live_apart [OF assms(1), of "fst b" "snd b" h n] live_space [OF assms(1), of "fst b" "snd b"] assms(2,3)
      by (intro only_in_load) auto
  qed
qed

subsection \<open>What the operations do\<close>

lemma unat_ucast_64_32_small: "unat (sz :: u64) < 2 ^ 32 \<Longrightarrow> unat (ucast sz :: u32) = unat sz"
  by (simp add: unat_ucast_64_32)

lemma not_greater_32: "\<not> 0xffffffff < (sz :: u64) \<longleftrightarrow> unat sz < 2 ^ 32"
  unfolding word_less_nat_alt by auto

lemma malloc_live:
  assumes "live (heap s) L" and "malloc sz s = (p, s')"
  shows "data_kept L (memory (heap s)) (memory (heap s'))" "p = 0 \<Longrightarrow> live (heap s') L"
    "p \<noteq> 0 \<Longrightarrow> unat sz < 2 ^ 32 \<and> live (heap s') (insert (p - 24, ucast sz) L) \<and> (p - 24, ucast sz) \<notin> L"
proof -
  have "data_kept L (memory (heap s)) (memory (heap s')) \<and> (p = 0 \<longrightarrow> live (heap s') L) \<and>
    (p \<noteq> 0 \<longrightarrow> unat sz < 2 ^ 32 \<and> live (heap s') (insert (p - 24, ucast sz) L) \<and> (p - 24, ucast sz) \<notin> L)"
  proof (cases "sz = 0 \<or> 0xffffffff < sz")
    case True
    then show ?thesis using assms by (auto simp: malloc_def data_kept_def)
  next
    case False
    obtain k where k: "kmalloc (ucast sz) (heap s) = (p, k)" "heap s' = k"
      using assms(2) False by (auto simp: malloc_def Let_def split: prod.splits if_splits)
    then show ?thesis using kmalloc_live [OF assms(1) k(1)] False not_greater_32 [of sz] by auto
  qed
  then show "data_kept L (memory (heap s)) (memory (heap s'))" "p = 0 \<Longrightarrow> live (heap s') L"
    "p \<noteq> 0 \<Longrightarrow> unat sz < 2 ^ 32 \<and> live (heap s') (insert (p - 24, ucast sz) L) \<and> (p - 24, ucast sz) \<notin> L"
    by simp_all
qed

lemma live_nonzero: "live k L \<Longrightarrow> (h, n) \<in> L \<Longrightarrow> h + 24 \<noteq> 0 \<and> n \<noteq> 0 \<and> kmalloc_size (h + 24) k = n"
proof -
  assume "live k L" and h: "(h, n) \<in> L"
  then obtain fl where inv: "heap_inv k fl L" by (auto simp: live_def)
  have "h + 24 \<noteq> 0" "n \<noteq> 0"
    using live_parts(7) [OF live_block_facts(1,2) [OF inv h]] live_block_facts(1) [OF inv h] by (auto simp: allocatable_def)
  then show ?thesis using kmalloc_size_live [OF inv h] by simp
qed

lemma data_kept_insert: "data_kept (insert b L) m m' \<Longrightarrow> data_kept L m m'"
  by (simp add: data_kept_def)

lemma no_wrap:
  fixes n sz :: u64
  assumes "n = 0 \<or> sz \<le> (-1) div n"
  shows "unat (n * sz) = unat n * unat sz"
proof (cases "n = 0")
  case False
  have "unat sz \<le> (2 ^ 64 - 1) div unat n"
    using assms False by (simp add: word_le_nat_alt unat_div unsigned_minus_1_eq_mask mask_eq_exp_minus_1)
  then have "unat sz * unat n \<le> (2 ^ 64 - 1) div unat n * unat n" by (rule mult_le_mono1)
  also have "\<dots> \<le> 2 ^ 64 - 1" by simp
  finally show ?thesis by (simp add: unat_word_ariths take_bit_nat_eq_self mult.commute)
qed simp

lemma realloc_grow:
  assumes live: "live (heap s) L" and h: "(h, old) \<in> L" and sz: "unat sz < 2 ^ 32" "\<not> sz \<le> ucast old"
    and m: "malloc sz s = (p, s1)" "p \<noteq> 0"
  obtains s' where "realloc (h + 24) sz s = Some (p, s')" "live (heap s') (insert (p - 24, ucast sz) (L - {(h, old)}))"
    "data_kept (L - {(h, old)}) (memory (heap s)) (memory (heap s'))"
    "load_bytes (memory (heap s')) p (unat old) = block_data (memory (heap s)) (h, old)"
proof -
  let ?n = "ucast sz :: u32" and ?k = "heap s1"
  note M = malloc_live [OF live m(1)]
  let ?L = "insert (p - 24, ?n) L"
  have L1: "live ?k ?L" "(p - 24, ?n) \<notin> L" using M(3) [OF m(2)] by auto
  have n: "unat ?n = unat sz" by (rule unat_ucast_64_32_small [OF sz(1)])
  have le: "unat old \<le> unat ?n" using sz(2) n by (simp add: word_le_nat_alt)
  have ne: "(p - 24, ?n) \<noteq> (h, old)" using L1(2) h by auto
  have sp: "in_space p (unat old)" "in_space (h + 24) (unat old)"
    using in_space_le [OF live_space [OF L1(1), of "p - 24" ?n] le] live_space [OF live h] by simp_all
  have ap: "region p (unat old) \<inter> region (h + 24) (unat old) = {}"
    using live_apart [OF L1(1), of "p - 24" ?n h old] ne h region_le [OF le, of p] by auto
  define m2 where "m2 = memcpy p (h + 24) (ucast old) (memory ?k)"
  have cp: "moved p (h + 24) (unat old) (memory ?k) m2"
    using memcpy_moved [of p "ucast old" "h + 24" "memory ?k"] sp ap by (simp add: m2_def)
  then have "only_in (region (p - 24 + 24) (unat ?n)) (memory ?k) m2"
    using only_in_mono [OF _ region_le [OF le]] by (simp add: moved_def)
  note W = payload_write [OF L1(1) insertI1 this]
  let ?k2 = "?k\<lparr>memory := m2\<rparr>"
  obtain k' where k': "kfree (h + 24) ?k2 = Some k'" "live k' (?L - {(h, old)})" "data_kept (?L - {(h, old)}) m2 (memory k')"
    using kfree_block [OF W(1), of h old] h by auto
  have R: "h + 24 \<noteq> 0" "sz \<noteq> 0" "\<not> 0xffffffff < sz" "kmalloc_size (h + 24) (heap s) = old" "old \<noteq> 0" "\<not> sz \<le> ucast old"
    using live_nonzero [OF live h] sz not_greater_32 [of sz] by auto
  have "realloc (h + 24) sz s = Some (p, s1\<lparr>heap := k'\<rparr>)"
    using R k'(1) m by (simp add: realloc_def m2_def free_def Let_def)
  moreover have "?L - {(h, old)} = insert (p - 24, ?n) (L - {(h, old)})" using ne by auto
  moreover have "data_kept (L - {(h, old)}) (memory (heap s)) (memory k')"
  proof (rule data_kept_trans [OF data_kept_less [OF M(1)] data_kept_trans [OF data_kept_less [OF W(2)] data_kept_less [OF k'(3)]]])
    show "L - {(h, old)} \<subseteq> ?L - {(p - 24, ?n)}" using L1(2) by blast
  qed blast+
  moreover have "load_bytes (memory k') p (unat old) = block_data (memory (heap s)) (h, old)"
  proof -
    have "block_data (memory k') (p - 24, ?n) = block_data m2 (p - 24, ?n)" using k'(3) ne by (auto simp: data_kept_def)
    then have "load_bytes (memory k') p (unat ?n) = load_bytes m2 p (unat ?n)" by (simp add: block_data_def)
    then have "load_bytes (memory k') p (unat old) = load_bytes m2 p (unat old)"
      using load_bytes_slice [of 0 "unat old" "unat ?n" "memory k'" p] load_bytes_slice [of 0 "unat old" "unat ?n" m2 p] le by simp
    also have "\<dots> = block_data (memory ?k) (h, old)" using cp by (simp add: moved_def block_data_def)
    also have "\<dots> = block_data (memory (heap s)) (h, old)" using M(1) h by (simp add: data_kept_def)
    finally show ?thesis .
  qed
  ultimately show ?thesis using k'(2) by (intro that [of "s1\<lparr>heap := k'\<rparr>"]) simp_all
qed

end
