(* ===== verification/Libc_Number.thy ===== *)
theory Libc_Number
  imports Prelude
begin

text \<open>
  Numbers and text in \<^verbatim>\<open>kernel/core/libc.c\<close>: \<^verbatim>\<open>strtol\<close>, \<^verbatim>\<open>strtoul\<close> and the digits that
  \<^verbatim>\<open>libc_format_uint\<close> prints. A pointer into the parsed string is the rest of the string from
  there on; reading at the end of the list gives the terminator. \<^verbatim>\<open>unsigned long\<close> is 64 bits wide, and the accumulator and its
  limits are kept at that width. The result is the value, the end pointer, and the error number
  when the function sets one.
\<close>

abbreviation LIBC_EINVAL :: int where "LIBC_EINVAL \<equiv> 22"
abbreviation LIBC_ERANGE :: int where "LIBC_ERANGE \<equiv> 34"
abbreviation LONG_MAX :: int where "LONG_MAX \<equiv> 9223372036854775807"
abbreviation LONG_MIN :: int where "LONG_MIN \<equiv> -9223372036854775808"

definition char_at :: "bytes \<Rightarrow> nat \<Rightarrow> u8" where
  "char_at s i = (if i < length s then s ! i else 0)"

definition libc_isspace :: "u8 \<Rightarrow> bool" where
  "libc_isspace ch \<longleftrightarrow> ch = 32 \<or> ch = 12 \<or> ch = 10 \<or> ch = 13 \<or> ch = 9 \<or> ch = 11"

definition libc_digit_value :: "u8 \<Rightarrow> int" where
  "libc_digit_value ch =
     (if 48 \<le> ch \<and> ch \<le> 57 then uint ch - 48
      else if 65 \<le> ch \<and> ch \<le> 90 then uint ch - 65 + 10
      else if 97 \<le> ch \<and> ch \<le> 122 then uint ch - 97 + 10
      else -1)"

definition hex_prefix :: "bytes \<Rightarrow> bool" where
  "hex_prefix s \<longleftrightarrow> char_at s 0 = 48 \<and> (char_at s 1 = 120 \<or> char_at s 1 = 88) \<and>
     0 \<le> libc_digit_value (char_at s 2) \<and> libc_digit_value (char_at s 2) < 16"

definition libc_strto_prefix :: "bytes \<Rightarrow> int \<Rightarrow> bytes \<times> int" where
  "libc_strto_prefix s base =
     (if base = 0
      then if hex_prefix s then (drop 2 s, 16)
           else if char_at s 0 = 48 then (s, 8)
           else (s, 10)
      else if base = 16 \<and> hex_prefix s then (drop 2 s, base)
      else (s, base))"

fun skip_isspace :: "bytes \<Rightarrow> bytes" where
  "skip_isspace [] = []"
| "skip_isspace (c # cs) = (if libc_isspace c then skip_isspace cs else c # cs)"

definition strto_sign :: "bytes \<Rightarrow> bool \<times> bytes" where
  "strto_sign s = (if char_at s 0 = 45 \<or> char_at s 0 = 43 then (char_at s 0 = 45, drop 1 s) else (False, s))"

text \<open>The loop over the digits, the same in both functions: accumulator, whether a digit was seen, overflow.\<close>

fun strto_loop :: "int \<Rightarrow> u64 \<Rightarrow> u32 \<Rightarrow> bytes \<Rightarrow> u64 \<Rightarrow> bool \<Rightarrow> bool \<Rightarrow> u64 \<times> bool \<times> bool \<times> bytes" where
  "strto_loop base cutoff cutlim [] acc any overflow = (acc, any, overflow, [])"
| "strto_loop base cutoff cutlim (c # cs) acc any overflow =
     (if c = 0 then (acc, any, overflow, c # cs)
      else let digit = libc_digit_value c in
        if digit < 0 \<or> base \<le> digit then (acc, any, overflow, c # cs)
        else if cutoff < acc \<or> acc = cutoff \<and> cutlim < word_of_int digit
        then strto_loop base cutoff cutlim cs acc True True
        else if \<not> overflow
        then strto_loop base cutoff cutlim cs (acc * word_of_int base + word_of_int digit) True overflow
        else strto_loop base cutoff cutlim cs acc True overflow)"

definition strtol :: "bytes \<Rightarrow> int \<Rightarrow> int \<times> bytes \<times> int option" where
  "strtol nptr base =
     (if base \<noteq> 0 \<and> (base < 2 \<or> 36 < base) then (0, nptr, Some LIBC_EINVAL)
      else let (neg, s) = strto_sign (skip_isspace nptr);
               (s, base) = libc_strto_prefix s base;
               limit = (if neg then word_of_int LONG_MAX + 1 else word_of_int LONG_MAX) :: u64;
               cutoff = limit div word_of_int base;
               cutlim = ucast (limit mod word_of_int base) :: u32;
               (acc, any, overflow, s) = strto_loop base cutoff cutlim s 0 False False;
               endptr = (if any then s else nptr)
           in if \<not> any then (0, endptr, None)
              else if overflow then (if neg then LONG_MIN else LONG_MAX, endptr, Some LIBC_ERANGE)
              else if neg
              then if acc = word_of_int LONG_MAX + 1 then (LONG_MIN, endptr, None) else (- sint acc, endptr, None)
              else (sint acc, endptr, None))"

definition strtoul :: "bytes \<Rightarrow> int \<Rightarrow> u64 \<times> bytes \<times> int option" where
  "strtoul nptr base =
     (if base \<noteq> 0 \<and> (base < 2 \<or> 36 < base) then (0, nptr, Some LIBC_EINVAL)
      else let (neg, s) = strto_sign (skip_isspace nptr);
               (s, base) = libc_strto_prefix s base;
               cutoff = (-1) div word_of_int base;
               cutlim = ucast ((-1 :: u64) mod word_of_int base) :: u32;
               (acc, any, overflow, s) = strto_loop base cutoff cutlim s 0 False False;
               endptr = (if any then s else nptr)
           in if \<not> any then (0, endptr, None)
              else if overflow then (-1, endptr, Some LIBC_ERANGE)
              else (if neg then 0 - acc else acc, endptr, None))"

subsection \<open>Printing\<close>

definition format_digit :: "bool \<Rightarrow> u64 \<Rightarrow> u8" where
  "format_digit uppercase d =
     (if d < 10 then 48 + ucast d else if uppercase then 65 + (ucast d - 10) else 97 + (ucast d - 10))"

text \<open>The digits in the order they are produced, least significant first.\<close>

function format_tmp :: "u64 \<Rightarrow> u64 \<Rightarrow> bool \<Rightarrow> bytes" where
  "format_tmp v base uppercase =
     (if v = 0 \<or> base < 2 then [] else format_digit uppercase (v mod base) # format_tmp (v div base) base uppercase)"
  by pat_completeness auto
termination
proof (relation "measure (\<lambda>(v, base, u). unat v)")
  fix v base :: u64
  assume "\<not> (v = 0 \<or> base < 2)"
  then have "0 < unat v" "2 \<le> unat base" by (simp_all add: unat_gt_0 word_less_nat_alt)
  then have "unat v div unat base < unat v" by (intro div_less_dividend) auto
  then show "((v div base, base, u), v, base, u) \<in> measure (\<lambda>(v, base, u). unat v)" for u :: bool
    by (simp add: unat_div)
qed simp

declare format_tmp.simps [simp del]

definition libc_format_uint :: "u64 \<Rightarrow> u64 \<Rightarrow> bool \<Rightarrow> bytes" where
  "libc_format_uint v base uppercase = (if v = 0 then [48] else rev (format_tmp v base uppercase))"

subsection \<open>The digit loop\<close>

definition is_digit :: "int \<Rightarrow> u8 \<Rightarrow> bool" where
  "is_digit base c \<longleftrightarrow> c \<noteq> 0 \<and> 0 \<le> libc_digit_value c \<and> libc_digit_value c < base"

definition digits_value :: "int \<Rightarrow> int \<Rightarrow> bytes \<Rightarrow> int" where
  "digits_value base v ds = foldl (\<lambda>n c. n * base + libc_digit_value c) v ds"

lemma digits_value_simps [simp]:
  "digits_value base v [] = v"
  "digits_value base v (c # cs) = digits_value base (v * base + libc_digit_value c) cs"
  by (simp_all add: digits_value_def)

lemma digits_value_mono:
  assumes "list_all (is_digit base) ds" and "0 \<le> v" and "1 \<le> base"
  shows "v \<le> digits_value base v ds"
  using assms
proof (induction ds arbitrary: v)
  case (Cons c ds)
  have "v * 1 \<le> v * base" using Cons.prems by (intro mult_left_mono) auto
  then have "v \<le> v * base + libc_digit_value c" using Cons.prems by (simp add: is_digit_def)
  then show ?case using Cons.IH [of "v * base + libc_digit_value c"] Cons.prems by simp
qed simp

lemma cutoff_iff:
  fixes a b d L :: int
  assumes "0 < b" and "0 \<le> d" and "d < b"
  shows "L div b < a \<or> a = L div b \<and> L mod b < d \<longleftrightarrow> L < a * b + d"
proof -
  have L: "L div b * b = L - L mod b" by (simp add: minus_mod_eq_div_mult)
  have r: "0 \<le> L mod b" "L mod b < b" using assms by simp_all
  consider "a < L div b" | "a = L div b" | "L div b < a" by linarith
  then show ?thesis
  proof cases
    case 1
    then have "(a + 1) * b \<le> L div b * b" using assms by (intro mult_right_mono) auto
    then have "a * b + b \<le> L - L mod b" unfolding L by (simp add: distrib_right)
    then have "\<not> L < a * b + d" using r assms by linarith
    then show ?thesis using 1 by simp
  next
    case 2
    then show ?thesis using L by auto
  next
    case 3
    then have "(L div b + 1) * b \<le> a * b" using assms by (intro mult_right_mono) auto
    then have "L - L mod b + b \<le> a * b" by (simp add: distrib_right L)
    then have "L < a * b + d" using r assms by linarith
    then show ?thesis using 3 by simp
  qed
qed

lemma loop_overflowed:
  "strto_loop base cutoff cutlim s acc any True =
     (acc, any \<or> takeWhile (is_digit base) s \<noteq> [], True, dropWhile (is_digit base) s)"
  by (induction s arbitrary: any) (auto simp: is_digit_def Let_def)

lemma loop_test:
  fixes limit acc :: u64
  assumes base_range: "2 \<le> base" "base \<le> 36" and "0 \<le> d" and "d < base"
  shows "limit div word_of_int base < acc \<or>
      acc = limit div word_of_int base \<and> (ucast (limit mod word_of_int base) :: u32) < word_of_int d \<longleftrightarrow>
    uint limit < uint acc * base + d"
proof -
  have b: "uint (word_of_int base :: u64) = base" using base_range by (simp add: uint_word_of_int)
  have d: "uint (word_of_int d :: u32) = d" using assms base_range by (simp add: uint_word_of_int)
  have m: "uint limit mod base < 36" "0 \<le> uint limit mod base"
    using base_range pos_mod_bound [of base "uint limit"] pos_mod_sign [of base "uint limit"] by linarith+
  have "uint (limit mod word_of_int base) = uint limit mod base" unfolding uint_mod b ..
  then have "uint (ucast (limit mod word_of_int base) :: u32) = uint limit mod base"
    using m by (simp add: unsigned_ucast_eq take_bit_int_eq_self)
  then show ?thesis
    using cutoff_iff [of base d "uint limit" "uint acc"] assms
    by (simp add: word_less_alt uint_div b d word_uint_eq_iff)
qed

lemma loop_result:
  fixes limit acc :: u64
  assumes base_range: "2 \<le> base" "base \<le> 36" and "uint acc \<le> uint limit"
  shows "\<exists>acc'. strto_loop base (limit div word_of_int base) (ucast (limit mod word_of_int base)) s acc any False =
      (acc', any \<or> takeWhile (is_digit base) s \<noteq> [],
       uint limit < digits_value base (uint acc) (takeWhile (is_digit base) s), dropWhile (is_digit base) s) \<and>
    (digits_value base (uint acc) (takeWhile (is_digit base) s) \<le> uint limit \<longrightarrow>
       uint acc' = digits_value base (uint acc) (takeWhile (is_digit base) s))"
  using assms(3)
proof (induction s arbitrary: acc any)
  case Nil
  then show ?case by auto
next
  case (Cons c cs)
  show ?case
  proof (cases "is_digit base c")
    case False
    then show ?thesis using Cons.prems by (auto simp: is_digit_def Let_def not_less)
  next
    case True
    let ?d = "libc_digit_value c"
    have d: "0 \<le> ?d" "?d < base" "c \<noteq> 0" using True by (simp_all add: is_digit_def)
    show ?thesis
    proof (cases "uint limit < uint acc * base + ?d")
      case over: True
      have "uint acc * base + ?d \<le> digits_value base (uint acc * base + ?d) (takeWhile (is_digit base) cs)"
        using base_range d by (intro digits_value_mono) (auto simp: list_all_iff dest: set_takeWhileD)
      then have "uint limit < digits_value base (uint acc * base + ?d) (takeWhile (is_digit base) cs)" using over by simp
      then show ?thesis
        using over d loop_test [OF base_range d(1,2), of limit acc] True by (auto simp: Let_def loop_overflowed)
    next
      case fits: False
      have "uint (word_of_int base :: u64) = base" "uint (word_of_int ?d :: u64) = ?d"
        using d base_range by (simp_all add: uint_word_of_int)
      moreover have "uint acc * base + ?d < 2 ^ 64" using fits uint_lt2p [of limit] by simp
      moreover have "0 \<le> uint acc * base" using base_range by simp
      ultimately have e: "uint (acc * word_of_int base + word_of_int ?d) = uint acc * base + ?d"
        using d by (simp add: uint_word_ariths)
      have nt: "\<not> (limit div word_of_int base < acc \<or>
          acc = limit div word_of_int base \<and> (ucast (limit mod word_of_int base) :: u32) < word_of_int ?d)"
        using fits loop_test [OF base_range d(1,2), of limit acc] by simp
      have "strto_loop base (limit div word_of_int base) (ucast (limit mod word_of_int base)) (c # cs) acc any False =
          strto_loop base (limit div word_of_int base) (ucast (limit mod word_of_int base)) cs
            (acc * word_of_int base + word_of_int ?d) True False"
        using d by (simp only: strto_loop.simps Let_def nt) simp
      then show ?thesis
        using Cons.IH [of "acc * word_of_int base + word_of_int ?d" True] fits True by (simp add: e)
    qed
  qed
qed

subsection \<open>Reading with unbounded integers\<close>

text \<open>Sign, digits and the rest after them, for a base that is given or found from a prefix.\<close>

definition number_parts :: "bytes \<Rightarrow> int \<Rightarrow> bool \<times> int \<times> bytes \<times> bytes" where
  "number_parts nptr base =
     (let (neg, s) = strto_sign (skip_isspace nptr); (s', b) = libc_strto_prefix s base
      in (neg, b, takeWhile (is_digit b) s', dropWhile (is_digit b) s'))"

definition strtol_spec :: "bytes \<Rightarrow> int \<Rightarrow> int \<times> bytes \<times> int option" where
  "strtol_spec nptr base =
     (case number_parts nptr base of (neg, b, ds, rest) \<Rightarrow>
        if ds = [] then (0, nptr, None)
        else let v = (if neg then - digits_value b 0 ds else digits_value b 0 ds)
             in (max LONG_MIN (min LONG_MAX v), rest,
                 if LONG_MIN \<le> v \<and> v \<le> LONG_MAX then None else Some LIBC_ERANGE))"

definition strtoul_spec :: "bytes \<Rightarrow> int \<Rightarrow> u64 \<times> bytes \<times> int option" where
  "strtoul_spec nptr base =
     (case number_parts nptr base of (neg, b, ds, rest) \<Rightarrow>
        if ds = [] then (0, nptr, None)
        else let v = digits_value b 0 ds
             in if v < 2 ^ 64 then (word_of_int (if neg then - v else v), rest, None)
                else (-1, rest, Some LIBC_ERANGE))"

lemma prefix_base:
  assumes "base = 0 \<or> 2 \<le> base \<and> base \<le> 36" and "libc_strto_prefix s base = (s', b)"
  shows "2 \<le> b" "b \<le> 36"
  using assms by (auto simp: libc_strto_prefix_def split: if_splits)

lemma sint_small: "uint (acc :: u64) < 2 ^ 63 \<Longrightarrow> sint acc = uint acc"
  using signed_take_bit_int_eq_self [of 63 "uint acc"] by (simp add: sint_uint order_trans [OF _ uint_ge_0])

lemma digits_nonneg: "1 \<le> b \<Longrightarrow> 0 \<le> digits_value b 0 (takeWhile (is_digit b) s)"
  by (rule digits_value_mono) (auto simp: list_all_iff dest: set_takeWhileD)

lemma strtol_eq:
  assumes base: "base = 0 \<or> 2 \<le> base \<and> base \<le> 36"
  shows "strtol nptr base = strtol_spec nptr base"
proof -
  obtain neg s where sg: "strto_sign (skip_isspace nptr) = (neg, s)" by force
  obtain s' b where pf: "libc_strto_prefix s base = (s', b)" by force
  note b = prefix_base [OF base pf]
  let ?ds = "takeWhile (is_digit b) s'" and ?limit = "if neg then word_of_int LONG_MAX + 1 else word_of_int LONG_MAX :: u64"
  let ?v = "digits_value b 0 ?ds"
  have lim: "uint ?limit = (if neg then 2 ^ 63 else 2 ^ 63 - 1)" by simp
  obtain acc where acc: "strto_loop b (?limit div word_of_int b) (ucast (?limit mod word_of_int b)) s' 0 False False =
      (acc, ?ds \<noteq> [], uint ?limit < ?v, dropWhile (is_digit b) s')" "?v \<le> uint ?limit \<Longrightarrow> uint acc = ?v"
    using loop_result [OF b, of 0 ?limit s' False] by auto
  have v: "0 \<le> ?v" using b by (intro digits_nonneg) simp
  have eq: "strtol nptr base =
      (if ?ds = [] then (0, nptr, None)
       else if uint ?limit < ?v then (if neg then LONG_MIN else LONG_MAX, dropWhile (is_digit b) s', Some LIBC_ERANGE)
       else if neg then if acc = word_of_int LONG_MAX + 1 then (LONG_MIN, dropWhile (is_digit b) s', None)
                        else (- sint acc, dropWhile (is_digit b) s', None)
       else (sint acc, dropWhile (is_digit b) s', None))"
    using base acc(1) by (auto simp: strtol_def sg pf Let_def)
  have top: "acc = word_of_int LONG_MAX + 1 \<longleftrightarrow> uint acc = 2 ^ 63" by (simp add: word_uint_eq_iff)
  have parts: "number_parts nptr base = (neg, b, ?ds, dropWhile (is_digit b) s')"
    by (simp add: number_parts_def sg pf)
  show ?thesis
  proof (cases "uint ?limit < ?v")
    case True
    then show ?thesis unfolding eq strtol_spec_def parts using lim v by (auto simp: Let_def split: if_splits)
  next
    case False
    then have a: "uint acc = ?v" using acc(2) by simp
    then have "sint acc = ?v" if "?v < 2 ^ 63" using that sint_small [of acc] by simp
    then show ?thesis unfolding eq strtol_spec_def parts top a using False lim v by (auto simp: Let_def split: if_splits)
  qed
qed

lemma strtoul_eq:
  assumes base: "base = 0 \<or> 2 \<le> base \<and> base \<le> 36"
  shows "strtoul nptr base = strtoul_spec nptr base"
proof -
  obtain neg s where sg: "strto_sign (skip_isspace nptr) = (neg, s)" by force
  obtain s' b where pf: "libc_strto_prefix s base = (s', b)" by force
  note b = prefix_base [OF base pf]
  let ?ds = "takeWhile (is_digit b) s'" and ?limit = "-1 :: u64"
  let ?v = "digits_value b 0 ?ds"
  have lim: "uint ?limit = 2 ^ 64 - 1" by (simp add: unsigned_minus_1_eq_mask mask_eq_exp_minus_1)
  obtain acc where acc: "strto_loop b (?limit div word_of_int b) (ucast (?limit mod word_of_int b)) s' 0 False False =
      (acc, ?ds \<noteq> [], uint ?limit < ?v, dropWhile (is_digit b) s')" "?v \<le> uint ?limit \<Longrightarrow> uint acc = ?v"
    using loop_result [OF b, of 0 ?limit s' False] by auto
  have eq: "strtoul nptr base =
      (if ?ds = [] then (0, nptr, None)
       else if uint ?limit < ?v then (-1, dropWhile (is_digit b) s', Some LIBC_ERANGE)
       else (if neg then 0 - acc else acc, dropWhile (is_digit b) s', None))"
    using base acc(1) by (auto simp: strtoul_def sg pf Let_def)
  have parts: "number_parts nptr base = (neg, b, ?ds, dropWhile (is_digit b) s')"
    by (simp add: number_parts_def sg pf)
  have "acc = word_of_int ?v" if "\<not> uint ?limit < ?v" using acc(2) that by (metis not_less word_of_int_uint)
  then show ?thesis unfolding eq strtoul_spec_def parts using lim by (auto simp: Let_def)
qed

subsection \<open>Printing and reading back\<close>

lemma format_digit_value:
  assumes "d < 16"
  shows "libc_digit_value (format_digit u d) = uint d" "format_digit u d \<noteq> 0" "\<not> libc_isspace (format_digit u d)"
    "format_digit u d \<noteq> 45" "format_digit u d \<noteq> 43" "format_digit u d \<noteq> 120" "format_digit u d \<noteq> 88"
proof -
  have "unat d < 16" using assms by (simp add: word_less_nat_alt)
  then have "unat d = 0 \<or> unat d = 1 \<or> unat d = 2 \<or> unat d = 3 \<or> unat d = 4 \<or> unat d = 5 \<or> unat d = 6 \<or> unat d = 7 \<or>
      unat d = 8 \<or> unat d = 9 \<or> unat d = 10 \<or> unat d = 11 \<or> unat d = 12 \<or> unat d = 13 \<or> unat d = 14 \<or> unat d = 15"
    by presburger
  then have "d \<in> {0, 1, 2, 3, 4, 5, 6, 7, 8, 9, 10, 11, 12, 13, 14, 15}"
    by (auto simp: word_unat_eq_iff)
  then have "libc_digit_value (format_digit u d) = uint d \<and> format_digit u d \<noteq> 0 \<and> \<not> libc_isspace (format_digit u d) \<and>
      format_digit u d \<noteq> 45 \<and> format_digit u d \<noteq> 43 \<and> format_digit u d \<noteq> 120 \<and> format_digit u d \<noteq> 88"
    by (elim insertE emptyE; cases u; simp add: format_digit_def libc_digit_value_def libc_isspace_def)
  then show "libc_digit_value (format_digit u d) = uint d" "format_digit u d \<noteq> 0" "\<not> libc_isspace (format_digit u d)"
    "format_digit u d \<noteq> 45" "format_digit u d \<noteq> 43" "format_digit u d \<noteq> 120" "format_digit u d \<noteq> 88"
    by blast+
qed

lemma digits_value_append: "digits_value b v (xs @ ys) = digits_value b (digits_value b v xs) ys"
  by (simp add: digits_value_def)

lemma format_tmp_digits:
  assumes "2 \<le> base" and "base \<le> 16"
  shows "digits_value (uint base) 0 (rev (format_tmp v base u)) = uint v"
    "\<forall>c \<in> set (format_tmp v base u). \<exists>d < base. c = format_digit u d" "format_tmp v base u = [] \<longleftrightarrow> v = 0"
proof -
  have b: "\<not> base < 2" using assms(1) by auto
  show "format_tmp v base u = [] \<longleftrightarrow> v = 0" using b by (subst format_tmp.simps) simp
  have "digits_value (uint base) 0 (rev (format_tmp v base u)) = uint v \<and>
    (\<forall>c \<in> set (format_tmp v base u). \<exists>d < base. c = format_digit u d)"
    using assms
  proof (induction v base u rule: format_tmp.induct)
    case (1 v base u)
    show ?case
    proof (cases "v = 0")
      case True
      then show ?thesis by (simp add: format_tmp.simps)
    next
      case False
      have b: "\<not> base < 2" "0 < base" using "1.prems"(1) by (auto simp: word_gt_0)
      have lt: "v mod base < base" using b(2) by (rule word_mod_less_divisor)
      have d: "libc_digit_value (format_digit u (v mod base)) = uint v mod uint base"
        using format_digit_value(1) [OF less_le_trans [OF lt "1.prems"(2)]] by (simp add: uint_mod)
      have e: "format_tmp v base u = format_digit u (v mod base) # format_tmp (v div base) base u"
        using False b(1) by (subst format_tmp.simps) simp
      have "digits_value (uint base) 0 (rev (format_tmp (v div base) base u)) = uint v div uint base"
        "\<forall>c \<in> set (format_tmp (v div base) base u). \<exists>d < base. c = format_digit u d"
        using "1.IH" [OF _ "1.prems"] False b(1) by (auto simp: uint_div)
      then show ?thesis using lt by (auto simp: e digits_value_append d)
    qed
  qed
  then show "digits_value (uint base) 0 (rev (format_tmp v base u)) = uint v"
    "\<forall>c \<in> set (format_tmp v base u). \<exists>d < base. c = format_digit u d" by auto
qed

lemma format_uint_digits:
  assumes "2 \<le> base" and "base \<le> 16"
  shows "libc_format_uint v base u \<noteq> []" "\<forall>c \<in> set (libc_format_uint v base u). \<exists>d < base. c = format_digit u d"
    "digits_value (uint base) 0 (libc_format_uint v base u) = uint v"
proof -
  have z: "format_digit u 0 = 48" "(0 :: u64) < base" "libc_digit_value 48 = 0"
    using assms(1) by (auto simp: format_digit_def word_gt_0 libc_digit_value_def)
  note T = format_tmp_digits [OF assms, of v u]
  show "libc_format_uint v base u \<noteq> []" using T(3) by (simp add: libc_format_uint_def)
  show "\<forall>c \<in> set (libc_format_uint v base u). \<exists>d < base. c = format_digit u d"
    using T(2) z by (auto simp: libc_format_uint_def)
  show "digits_value (uint base) 0 (libc_format_uint v base u) = uint v"
    using T(1) z by (simp add: libc_format_uint_def)
qed

lemma strtoul_format:
  assumes "2 \<le> base" and "base \<le> 16"
  shows "strtoul (libc_format_uint v base u) (uint base) = (v, [], None)"
proof -
  let ?t = "libc_format_uint v base u"
  note F = format_uint_digits [OF assms, of v u]
  have c: "libc_digit_value c = uint d \<and> c \<noteq> 0 \<and> \<not> libc_isspace c \<and> c \<noteq> 45 \<and> c \<noteq> 43 \<and> c \<noteq> 120 \<and> c \<noteq> 88"
    if "c = format_digit u d" "d < base" for c d
    using format_digit_value [OF less_le_trans [OF that(2) assms(2)], of u] that(1) by simp
  have all: "is_digit (uint base) c \<and> \<not> libc_isspace c \<and> c \<noteq> 45 \<and> c \<noteq> 43 \<and> c \<noteq> 120 \<and> c \<noteq> 88" if "c \<in> set ?t" for c
    using F(2) that c by (force simp: is_digit_def word_less_alt)
  obtain x xs where t: "?t = x # xs" using F(1) by (cases ?t) auto
  have x: "\<not> libc_isspace x" "x \<noteq> 45" "x \<noteq> 43" using all [of x] by (simp_all add: t)
  have "char_at ?t 1 \<noteq> 120 \<and> char_at ?t 1 \<noteq> 88" using all [of "char_at ?t 1"] nth_mem [of 1 ?t] by (cases "1 < length ?t") (auto simp: char_at_def)
  then have nh: "\<not> hex_prefix ?t" by (simp add: hex_prefix_def)
  have s: "strto_sign (skip_isspace ?t) = (False, ?t)" using x by (simp add: t strto_sign_def char_at_def)
  have b: "2 \<le> uint base" "uint base \<le> 16" using assms by (simp_all add: word_le_def)
  have p: "libc_strto_prefix ?t (uint base) = (?t, uint base)"
    using nh b(1) by (auto simp: libc_strto_prefix_def)
  have d: "takeWhile (is_digit (uint base)) ?t = ?t" "dropWhile (is_digit (uint base)) ?t = []" using all by auto
  have "number_parts ?t (uint base) = (False, uint base, ?t, [])" by (simp add: number_parts_def s p d)
  moreover have "strtoul ?t (uint base) = strtoul_spec ?t (uint base)" using b by (intro strtoul_eq) simp
  ultimately show ?thesis using F(1,3) uint_lt2p [of v] by (simp add: strtoul_spec_def)
qed

end
