(* ===== verification/Libc_Time.thy ===== *)
theory Libc_Time
  imports Prelude "HOL-Library.Signed_Division"
begin

text \<open>
  The calendar of \<^verbatim>\<open>kernel/core/libc.c\<close>: \<^verbatim>\<open>gmtime_r\<close> and \<^verbatim>\<open>mktime\<close>. Values of C's \<^verbatim>\<open>int\<close> and \<^verbatim>\<open>int64_t\<close> are
  integers, and every arithmetic step of the code that can leave the range of its type is checked: where C's
  signed arithmetic overflows, which is undefined behaviour, the result is \<open>None\<close>. Division and remainder are those of
  C: \<open>sdiv\<close> and \<open>smod\<close> round towards zero. A pointer argument is an option, \<open>None\<close> the null pointer.

  The first part is the calendar over unbounded integers, \<open>calendar_of\<close> and \<open>seconds_of\<close>, which are shown to be
  inverse to each other; the second part has the functions of the source, which are shown to agree with them
  as long as the year fits an \<^verbatim>\<open>int\<close>, and to overflow otherwise.
\<close>

record tm =
  tm_sec :: int
  tm_min :: int
  tm_hour :: int
  tm_mday :: int
  tm_mon :: int
  tm_year :: int
  tm_wday :: int
  tm_yday :: int
  tm_isdst :: int

definition libc_is_leap_year :: "int \<Rightarrow> bool" where
  "libc_is_leap_year year \<longleftrightarrow> year smod 4 = 0 \<and> year smod 100 \<noteq> 0 \<or> year smod 400 = 0"

definition libc_days_in_month :: "int \<Rightarrow> int \<Rightarrow> int" where
  "libc_days_in_month year month =
     (if month = 1 \<and> libc_is_leap_year year then 29
      else if month < 0 \<or> 12 \<le> month then 30
      else [31, 28, 31, 30, 31, 30, 31, 31, 30, 31, 30, 31] ! nat month)"

definition year_days :: "int \<Rightarrow> int" where
  "year_days year = (if libc_is_leap_year year then 366 else 365)"

definition days_before_year :: "int \<Rightarrow> int" where
  "days_before_year year =
     (if 1970 \<le> year then foldl (\<lambda>days y. days + year_days y) 0 [1970..year - 1]
      else foldl (\<lambda>days y. days - year_days y) 0 [year..1969])"

lemma year_days_bounds: "365 \<le> year_days y" "year_days y \<le> 366"
  by (simp_all add: year_days_def)

definition month_table :: "int list" where
  "month_table = [31, 28, 31, 30, 31, 30, 31, 31, 30, 31, 30, 31]"

lemma days_in_month_bounds: "28 \<le> libc_days_in_month y m"
proof (cases "m < 0 \<or> 12 \<le> m")
  case False
  moreover have "length month_table = 12" by (simp add: month_table_def)
  ultimately have "month_table ! nat m \<in> set month_table" by (intro nth_mem) auto
  then have "28 \<le> month_table ! nat m" by (auto simp: month_table_def)
  then show ?thesis using False by (simp add: libc_days_in_month_def month_table_def)
qed (auto simp: libc_days_in_month_def)

function years_up :: "int \<Rightarrow> int \<Rightarrow> int \<times> int" where
  "years_up days year = (if year_days year \<le> days then years_up (days - year_days year) (year + 1) else (days, year))"
  by pat_completeness auto
termination
proof (relation "measure (\<lambda>(days, year). nat days)")
  fix days year
  assume "year_days year \<le> days"
  then show "((days - year_days year, year + 1), days, year) \<in> measure (\<lambda>(days, year). nat days)"
    using year_days_bounds(1) [of year] by auto
qed simp

function years_down :: "int \<Rightarrow> int \<Rightarrow> int \<times> int" where
  "years_down days year = (if days < 0 then years_down (days + year_days (year - 1)) (year - 1) else (days, year))"
  by pat_completeness auto
termination
proof (relation "measure (\<lambda>(days, year). nat (- days))")
  fix days year :: int
  assume "days < 0"
  then show "((days + year_days (year - 1), year - 1), days, year) \<in> measure (\<lambda>(days, year). nat (- days))"
    using year_days_bounds(1) [of "year - 1"] by auto
qed simp

function month_up :: "int \<Rightarrow> int \<Rightarrow> int \<Rightarrow> int \<times> int" where
  "month_up year days mon =
     (if libc_days_in_month year mon \<le> days
      then month_up year (days - libc_days_in_month year mon) (mon + 1) else (days, mon))"
  by pat_completeness auto
termination
proof (relation "measure (\<lambda>(year, days, mon). nat days)")
  fix year days mon
  assume "libc_days_in_month year mon \<le> days"
  then show "((year, days - libc_days_in_month year mon, mon + 1), year, days, mon) \<in> measure (\<lambda>(year, days, mon). nat days)"
    using days_in_month_bounds [of year mon] by auto
qed simp

declare years_up.simps [simp del] years_down.simps [simp del] month_up.simps [simp del]

definition calendar_of :: "int \<Rightarrow> tm" where
  "calendar_of timer =
     (let days0 = timer sdiv 86400; seconds0 = timer smod 86400;
          (day_seconds, days1) = (if seconds0 < 0 then (seconds0 + 86400, days0 - 1) else (seconds0, days0));
          (days2, year2) = years_up days1 1970;
          (days3, year) = years_down days2 year2;
          (days4, mon) = month_up year days3 0;
          wday = (4 + timer sdiv 86400) smod 7
      in \<lparr>tm_sec = day_seconds smod 60, tm_min = (day_seconds sdiv 60) smod 60, tm_hour = day_seconds sdiv 3600,
          tm_mday = days4 + 1, tm_mon = mon, tm_year = year - 1900,
          tm_wday = (if wday < 0 then wday + 7 else wday), tm_yday = days3, tm_isdst = 0\<rparr>)"

definition seconds_of :: "tm \<Rightarrow> int" where
  "seconds_of t =
     (let year = tm_year t + 1900;
          days = foldl (\<lambda>days month. days + libc_days_in_month year month) (days_before_year year) [0..tm_mon t - 1]
                 + (tm_mday t - 1)
      in days * 86400 + tm_hour t * 3600 + tm_min t * 60 + tm_sec t)"

subsection \<open>Years\<close>

lemma days_before_1970 [simp]: "days_before_year 1970 = 0"
  by (simp add: days_before_year_def)

lemma foldl_minus: "foldl (\<lambda>d y. d - f y) (c :: int) ys = c - sum_list (map f ys)"
  by (induction ys arbitrary: c) simp_all

lemma foldl_plus: "foldl (\<lambda>d y. d + f y) (c :: int) ys = c + sum_list (map f ys)"
  by (induction ys arbitrary: c) simp_all

lemma days_before_next: "days_before_year (y + 1) = days_before_year y + year_days y"
proof -
  consider "1970 \<le> y" | "y = 1969" | "y < 1969" by linarith
  then show ?thesis
  proof cases
    case 1
    then have "[1970..y] = [1970..y - 1] @ [y]" by (rule upto_rec2)
    then show ?thesis using 1 by (simp add: days_before_year_def foldl_plus)
  next
    case 2
    then show ?thesis by (simp add: days_before_year_def)
  next
    case 3
    then have "[y..1969] = y # [y + 1..1969]" by (intro upto_rec1) simp
    then show ?thesis using 3 by (simp add: days_before_year_def foldl_minus)
  qed
qed

lemma years_up_spec:
  "case years_up days year of (days', year') \<Rightarrow>
     days' + days_before_year year' = days + days_before_year year \<and> days' < year_days year' \<and>
     (0 \<le> days \<longrightarrow> 0 \<le> days') \<and> (days < 0 \<longrightarrow> days' = days \<and> year' = year) \<and>
     year \<le> year' \<and> 365 * (year' - year) \<le> max 0 days"
proof (induction days year rule: years_up.induct)
  case (1 days year)
  show ?case
  proof (cases "year_days year \<le> days")
    case True
    then have e: "years_up days year = years_up (days - year_days year) (year + 1)" by (simp add: years_up.simps)
    show ?thesis unfolding e using 1 [OF True] days_before_next [of year] year_days_bounds [of year] True by auto
  next
    case False
    then have "years_up days year = (days, year)" by (simp add: years_up.simps)
    then show ?thesis using False by simp
  qed
qed

lemma years_down_spec:
  "case years_down days year of (days', year') \<Rightarrow>
     days' + days_before_year year' = days + days_before_year year \<and> 0 \<le> days' \<and>
     (days < year_days year \<longrightarrow> days' < year_days year') \<and> (0 \<le> days \<longrightarrow> days' = days \<and> year' = year) \<and>
     year' \<le> year \<and> 365 * (year - year') \<le> max 0 (365 - days)"
proof (induction days year rule: years_down.induct)
  case (1 days year)
  show ?case
  proof (cases "days < 0")
    case True
    then have e: "years_down days year = years_down (days + year_days (year - 1)) (year - 1)" by (simp add: years_down.simps)
    show ?thesis
      unfolding e using 1 [OF True] days_before_next [of "year - 1"] year_days_bounds [of "year - 1"] True
      by (auto split: prod.splits)
  next
    case False
    then have "years_down days year = (days, year)" by (simp add: years_down.simps)
    then show ?thesis using False by simp
  qed
qed

subsection \<open>Months\<close>

definition days_before_month :: "int \<Rightarrow> int \<Rightarrow> int" where
  "days_before_month year mon = sum_list (map (libc_days_in_month year) [0..mon - 1])"

lemma days_before_month_next:
  "0 \<le> mon \<Longrightarrow> days_before_month year (mon + 1) = days_before_month year mon + libc_days_in_month year mon"
  using upto_rec2 [of 0 mon] by (simp add: days_before_month_def)

lemma days_before_month_0 [simp]: "days_before_month year 0 = 0"
  by (simp add: days_before_month_def)

lemma days_before_month_mono:
  assumes "0 \<le> a" and "a \<le> b"
  shows "days_before_month year a \<le> days_before_month year b"
  using assms(2)
proof (induction b rule: int_ge_induct)
  case (step b)
  then show ?case using days_before_month_next [of b year] days_in_month_bounds [of year b] assms(1) by simp
qed simp

lemma days_before_month_12: "days_before_month year 12 = year_days year"
proof -
  have "[0..11] = [0, 1, 2, 3, 4, 5, 6, 7, 8, 9, 10, 11 :: int]" by (simp add: upto_rec1)
  then show ?thesis by (simp add: days_before_month_def libc_days_in_month_def year_days_def)
qed

lemma month_up_spec:
  assumes "0 \<le> days" and "0 \<le> mon"
  shows "case month_up year days mon of (days', mon') \<Rightarrow>
    days' + days_before_month year mon' = days + days_before_month year mon \<and> 0 \<le> days' \<and>
    days' < libc_days_in_month year mon' \<and> mon \<le> mon'"
  using assms
proof (induction year days mon rule: month_up.induct)
  case (1 year days mon)
  show ?case
  proof (cases "libc_days_in_month year mon \<le> days")
    case True
    then have e: "month_up year days mon = month_up year (days - libc_days_in_month year mon) (mon + 1)"
      by (simp add: month_up.simps)
    show ?thesis unfolding e using "1.IH" [OF True] days_before_month_next [OF "1.prems"(2)] True "1.prems" by auto
  next
    case False
    then have "month_up year days mon = (days, mon)" by (simp add: month_up.simps)
    then show ?thesis using False "1.prems" by simp
  qed
qed

subsection \<open>The two conversions\<close>

lemma sdiv_smod_pos:
  fixes a b :: int
  assumes "0 \<le> a" and "0 < b"
  shows "a sdiv b = a div b" "a smod b = a mod b"
  using assms by (cases "a = 0"; simp add: signed_divide_int_def smod_mod_positive)+

lemma floor_of_c_division:
  fixes t n :: int
  assumes "0 < n"
  shows "(if t smod n < 0 then (t smod n + n, t sdiv n - 1) else (t smod n, t sdiv n)) = (t mod n, t div n)"
proof -
  have r: "- n < t smod n" "t smod n < n" using smod_int_range [of n t] assms by auto
  have t: "t = n * (t sdiv n) + t smod n" by (simp add: mult_sdiv_smod_eq)
  show ?thesis
  proof (cases "t smod n < 0")
    case True
    have e: "t = n * (t sdiv n - 1) + (t smod n + n)" using t by (simp add: algebra_simps)
    have "t div n = t sdiv n - 1" by (rule int_div_pos_eq [OF e]) (use True r in linarith)+
    moreover have "t mod n = t smod n + n" by (rule int_mod_pos_eq [OF e]) (use True r in linarith)+
    ultimately show ?thesis using True by simp
  next
    case False
    have "t div n = t sdiv n" by (rule int_div_pos_eq [OF t]) (use False r in linarith)+
    moreover have "t mod n = t smod n" by (rule int_mod_pos_eq [OF t]) (use False r in linarith)+
    ultimately show ?thesis using False by simp
  qed
qed

definition calendar_ok :: "tm \<Rightarrow> bool" where
  "calendar_ok t \<longleftrightarrow> 0 \<le> tm_sec t \<and> tm_sec t < 60 \<and> 0 \<le> tm_min t \<and> tm_min t < 60 \<and> 0 \<le> tm_hour t \<and> tm_hour t < 24 \<and>
     0 \<le> tm_mon t \<and> tm_mon t < 12 \<and> 1 \<le> tm_mday t \<and> tm_mday t \<le> libc_days_in_month (tm_year t + 1900) (tm_mon t)"

definition day_number :: "tm \<Rightarrow> int" where
  "day_number t = days_before_year (tm_year t + 1900) + days_before_month (tm_year t + 1900) (tm_mon t) + (tm_mday t - 1)"

lemma seconds_of_eq: "seconds_of t = day_number t * 86400 + (tm_hour t * 3600 + tm_min t * 60 + tm_sec t)"
  by (simp add: seconds_of_def day_number_def days_before_month_def foldl_plus Let_def)

lemma second_of_day:
  assumes "calendar_ok t"
  shows "0 \<le> tm_hour t * 3600 + tm_min t * 60 + tm_sec t" "tm_hour t * 3600 + tm_min t * 60 + tm_sec t < 86400"
  using assms by (auto simp: calendar_ok_def)

lemma seconds_of_divmod:
  assumes "calendar_ok t"
  shows "seconds_of t div 86400 = day_number t" "seconds_of t mod 86400 = tm_hour t * 3600 + tm_min t * 60 + tm_sec t"
  using second_of_day [OF assms] unfolding seconds_of_eq by simp_all

lemma calendar_fields:
  obtains year yday mon mday where "t div 86400 = days_before_year year + yday" "0 \<le> yday" "yday < year_days year"
    "yday = days_before_month year mon + mday" "0 \<le> mon" "mon < 12" "0 \<le> mday" "mday < libc_days_in_month year mon"
    "365 * (year - 1970) \<le> max 0 (t div 86400)" "365 * (1970 - year) \<le> max 0 (365 - t div 86400)"
    "tm_year (calendar_of t) = year - 1900" "tm_yday (calendar_of t) = yday" "tm_mon (calendar_of t) = mon" "tm_mday (calendar_of t) = mday + 1"
    "tm_sec (calendar_of t) = t mod 86400 mod 60" "tm_min (calendar_of t) = t mod 86400 div 60 mod 60"
    "tm_hour (calendar_of t) = t mod 86400 div 3600"
proof -
  define D where "D = t div 86400"
  obtain d2 y2 where u: "years_up D 1970 = (d2, y2)" by force
  obtain d3 y where w: "years_down d2 y2 = (d3, y)" by force
  obtain d4 m where mo: "month_up y d3 0 = (d4, m)" by force
  have U: "d2 + days_before_year y2 = D" "d2 < year_days y2" "0 \<le> D \<longrightarrow> 0 \<le> d2" "D < 0 \<longrightarrow> d2 = D \<and> y2 = 1970"
    "1970 \<le> y2" "365 * (y2 - 1970) \<le> max 0 D"
    using years_up_spec [of D 1970] by (simp_all add: u)
  have W: "d3 + days_before_year y = d2 + days_before_year y2" "0 \<le> d3" "d3 < year_days y"
    "0 \<le> d2 \<longrightarrow> d3 = d2 \<and> y = y2" "y \<le> y2" "365 * (y2 - y) \<le> max 0 (365 - d2)"
    using years_down_spec [of d2 y2] U(2) by (simp_all add: w)
  have d3: "0 \<le> d3" "d3 < year_days y" "D = days_before_year y + d3" using U(1) W(1-3) by auto
  have M: "d4 + days_before_month y m = d3" "0 \<le> d4" "d4 < libc_days_in_month y m" "0 \<le> m"
    using month_up_spec [OF d3(1), of 0 y] by (simp_all add: mo)
  have m12: "m < 12"
  proof (rule ccontr)
    assume "\<not> m < 12"
    then have "days_before_month y 12 \<le> days_before_month y m" by (intro days_before_month_mono) simp_all
    then show False using M d3(2) by (simp add: days_before_month_12)
  qed
  have span: "365 * (y - 1970) \<le> max 0 D \<and> 365 * (1970 - y) \<le> max 0 (365 - D)"
  proof (cases "D < 0")
    case True
    then show ?thesis using U(4) W(5,6) by auto
  next
    case False
    then have "y = y2" using U(3) W(4) by auto
    then show ?thesis using U(5,6) by auto
  qed
  have pos: "0 \<le> t mod 86400" "0 \<le> t mod 86400 div 60" by (simp_all add: pos_imp_zdiv_nonneg_iff)
  have g: "calendar_of t = \<lparr>tm_sec = t mod 86400 smod 60, tm_min = (t mod 86400 sdiv 60) smod 60, tm_hour = t mod 86400 sdiv 3600,
      tm_mday = d4 + 1, tm_mon = m, tm_year = y - 1900,
      tm_wday = (if (4 + t sdiv 86400) smod 7 < 0 then (4 + t sdiv 86400) smod 7 + 7 else (4 + t sdiv 86400) smod 7),
      tm_yday = d3, tm_isdst = 0\<rparr>"
    unfolding calendar_of_def Let_def floor_of_c_division [of 86400 t, simplified] by (simp add: u [unfolded D_def] w mo)
  have fields: "tm_year (calendar_of t) = y - 1900" "tm_yday (calendar_of t) = d3" "tm_mon (calendar_of t) = m" "tm_mday (calendar_of t) = d4 + 1"
    "tm_sec (calendar_of t) = t mod 86400 mod 60" "tm_min (calendar_of t) = t mod 86400 div 60 mod 60"
    "tm_hour (calendar_of t) = t mod 86400 div 3600"
    unfolding g tm.select_convs by (simp_all only: sdiv_smod_pos pos zero_less_numeral)
  have yday: "d3 = days_before_month y m + d4" using M(1) by simp
  show ?thesis
    by (rule that [OF d3(3) [unfolded D_def] d3(1,2) yday M(4) m12 M(2,3) span [unfolded D_def, THEN conjunct1]
          span [unfolded D_def, THEN conjunct2] fields])
qed

lemma split_seconds: "0 \<le> s \<Longrightarrow> s div 3600 * 3600 + s div 60 mod 60 * 60 + s mod 60 = s" for s :: int
proof -
  have "s div 60 div 60 = s div 3600" by (simp add: zdiv_zmult2_eq)
  moreover have "s div 60 div 60 * 60 + s div 60 mod 60 = s div 60" by simp
  moreover have "s div 60 * 60 + s mod 60 = s" by simp
  ultimately show ?thesis by linarith
qed

lemma calendar_of_ok: "calendar_ok (calendar_of t)" "seconds_of (calendar_of t) = t"
proof -
  obtain year yday mon mday where F: "t div 86400 = days_before_year year + yday" "0 \<le> yday" "yday < year_days year"
    "yday = days_before_month year mon + mday" "0 \<le> mon" "mon < 12" "0 \<le> mday" "mday < libc_days_in_month year mon"
    "tm_year (calendar_of t) = year - 1900" "tm_yday (calendar_of t) = yday" "tm_mon (calendar_of t) = mon" "tm_mday (calendar_of t) = mday + 1"
    "tm_sec (calendar_of t) = t mod 86400 mod 60" "tm_min (calendar_of t) = t mod 86400 div 60 mod 60"
    "tm_hour (calendar_of t) = t mod 86400 div 3600"
    by (rule calendar_fields [of t])
  have s: "0 \<le> t mod 86400" "t mod 86400 < 86400" by simp_all
  then have "0 \<le> t mod 86400 div 3600" "t mod 86400 div 3600 < 24"
    by (simp_all add: pos_imp_zdiv_nonneg_iff div_less_iff_less_mult)
  then show "calendar_ok (calendar_of t)" using F(5-15) by (simp add: calendar_ok_def)
  have "day_number (calendar_of t) = t div 86400" using F by (simp add: day_number_def)
  then show "seconds_of (calendar_of t) = t"
    unfolding seconds_of_eq F(13-15) split_seconds [OF s(1)] by simp
qed

subsection \<open>A date is determined by its day number\<close>

lemma days_before_year_less:
  assumes "y < y'"
  shows "days_before_year y + year_days y \<le> days_before_year y'"
proof -
  have "y + 1 \<le> y'" using assms by simp
  then show ?thesis
  proof (induction y' rule: int_ge_induct)
    case (step z)
    then show ?case using days_before_next [of z] year_days_bounds(1) [of z] by simp
  qed (simp add: days_before_next)
qed

lemma year_unique:
  assumes "days_before_year y + d = days_before_year y' + d'" and "0 \<le> d" "d < year_days y" "0 \<le> d'" "d' < year_days y'"
  shows "y = y'" "d = d'"
  using assms days_before_year_less [of y y'] days_before_year_less [of y' y]
  by (cases y y' rule: linorder_cases; simp)+

lemma days_before_month_less:
  "0 \<le> a \<Longrightarrow> a < b \<Longrightarrow> days_before_month y a + libc_days_in_month y a \<le> days_before_month y b"
  using days_before_month_next [of a y] days_before_month_mono [of "a + 1" b y] by simp

lemma month_unique:
  assumes "days_before_month y m + d = days_before_month y m' + d'" and "0 \<le> m" "0 \<le> m'"
    and "0 \<le> d" "d < libc_days_in_month y m" "0 \<le> d'" "d' < libc_days_in_month y m'"
  shows "m = m'" "d = d'"
  using assms days_before_month_less [of m m' y] days_before_month_less [of m' m y]
  by (cases m m' rule: linorder_cases; simp)+

lemma day_of_year_bounds:
  assumes "calendar_ok t"
  shows "0 \<le> days_before_month (tm_year t + 1900) (tm_mon t) + (tm_mday t - 1)"
    "days_before_month (tm_year t + 1900) (tm_mon t) + (tm_mday t - 1) < year_days (tm_year t + 1900)"
proof -
  have c: "0 \<le> tm_mon t" "tm_mon t < 12" "1 \<le> tm_mday t" "tm_mday t \<le> libc_days_in_month (tm_year t + 1900) (tm_mon t)"
    using assms by (simp_all add: calendar_ok_def)
  show "0 \<le> days_before_month (tm_year t + 1900) (tm_mon t) + (tm_mday t - 1)"
    using days_before_month_mono [of 0 "tm_mon t" "tm_year t + 1900"] c by simp
  show "days_before_month (tm_year t + 1900) (tm_mon t) + (tm_mday t - 1) < year_days (tm_year t + 1900)"
    using days_before_month_less [OF c(1,2), of "tm_year t + 1900"] c(4) by (simp add: days_before_month_12)
qed

lemma mixed_radix:
  fixes h m s h' m' s' :: int
  assumes "h * 3600 + m * 60 + s = h' * 3600 + m' * 60 + s'"
    and "0 \<le> s" "s < 60" "0 \<le> m" "m < 60" "0 \<le> s'" "s' < 60" "0 \<le> m'" "m' < 60"
  shows "h = h'" "m = m'"
proof -
  show h: "h = h'"
  proof (cases h h' rule: linorder_cases)
    case less then have "h + 1 \<le> h'" by simp then show ?thesis using assms by linarith
  next
    case greater then have "h' + 1 \<le> h" by simp then show ?thesis using assms by linarith
  qed
  show "m = m'"
  proof (cases m m' rule: linorder_cases)
    case less then have "m + 1 \<le> m'" by simp then show ?thesis using assms h by linarith
  next
    case greater then have "m' + 1 \<le> m" by simp then show ?thesis using assms h by linarith
  qed
qed

lemma calendar_unique:
  assumes a: "calendar_ok a" and b: "calendar_ok b" and eq: "seconds_of a = seconds_of b"
  shows "tm_year a = tm_year b" "tm_mon a = tm_mon b" "tm_mday a = tm_mday b" "tm_hour a = tm_hour b"
    "tm_min a = tm_min b" "tm_sec a = tm_sec b"
proof -
  have "day_number a = day_number b" using seconds_of_divmod(1) [OF a] seconds_of_divmod(1) [OF b] eq by simp
  then have y: "tm_year a + 1900 = tm_year b + 1900" "days_before_month (tm_year a + 1900) (tm_mon a) + (tm_mday a - 1) =
      days_before_month (tm_year b + 1900) (tm_mon b) + (tm_mday b - 1)"
    using year_unique [OF _ day_of_year_bounds [OF a] day_of_year_bounds [OF b]] by (simp_all add: day_number_def)
  then show "tm_year a = tm_year b" by simp
  then have "tm_mon a = tm_mon b \<and> tm_mday a - 1 = tm_mday b - 1"
    using y(2) a b month_unique [of "tm_year a + 1900" "tm_mon a" "tm_mday a - 1" "tm_mon b" "tm_mday b - 1"]
    by (auto simp: calendar_ok_def)
  then show "tm_mon a = tm_mon b" "tm_mday a = tm_mday b" by simp_all
  have s: "tm_hour a * 3600 + tm_min a * 60 + tm_sec a = tm_hour b * 3600 + tm_min b * 60 + tm_sec b"
    using seconds_of_divmod(2) [OF a] seconds_of_divmod(2) [OF b] eq by simp
  have r: "0 \<le> tm_sec a" "tm_sec a < 60" "0 \<le> tm_min a" "tm_min a < 60" "0 \<le> tm_sec b" "tm_sec b < 60" "0 \<le> tm_min b" "tm_min b < 60"
    using a b by (simp_all add: calendar_ok_def)
  show h: "tm_hour a = tm_hour b" using mixed_radix(1) [OF s] r by linarith
  show m: "tm_min a = tm_min b" using mixed_radix(2) [OF s] r by linarith
  show "tm_sec a = tm_sec b" using s m h by simp
qed

lemma calendar_year_fits:
  assumes "- (2 ^ 55) < t" and "t < 2 ^ 55"
  shows "- (2 ^ 31) \<le> tm_year (calendar_of t)" "tm_year (calendar_of t) + 1900 < 2 ^ 31"
proof -
  have "t div 86400 \<le> 2 ^ 55 div 86400" "- (2 ^ 55) div 86400 \<le> t div 86400"
    using assms by (intro zdiv_mono1; simp)+
  then have d: "t div 86400 \<le> 417000000000" "- 417100000000 \<le> t div 86400" by simp_all
  obtain year where y: "365 * (year - 1970) \<le> max 0 (t div 86400)" "365 * (1970 - year) \<le> max 0 (365 - t div 86400)"
    "tm_year (calendar_of t) = year - 1900"
    by (rule calendar_fields [of t])
  show "- (2 ^ 31) \<le> tm_year (calendar_of t)" "tm_year (calendar_of t) + 1900 < 2 ^ 31"
    using y d by auto
qed

lemma calendar_weekday:
  "tm_wday (calendar_of t) = (4 + t sdiv 86400) mod 7"
  "0 \<le> t \<or> 86400 dvd t \<Longrightarrow> t sdiv 86400 = t div 86400" "t < 0 \<Longrightarrow> \<not> 86400 dvd t \<Longrightarrow> t sdiv 86400 = t div 86400 + 1"
proof -
  have f: "(if a smod 7 < 0 then a smod 7 + 7 else a smod 7) = a mod 7" for a :: int
    using floor_of_c_division [of 7 a] by (auto split: if_splits)
  then show "tm_wday (calendar_of t) = (4 + t sdiv 86400) mod 7"
    by (simp add: calendar_of_def Let_def split: prod.splits)
  have m: "t smod 86400 < 0 \<longleftrightarrow> t < 0 \<and> \<not> 86400 dvd t"
  proof (cases "t < 0")
    case True
    then have "t smod 86400 = - ((- t) mod 86400)" using smod_mod_positive [of "- t" 86400] minus_smod_eq [of "- t" 86400] by simp
    moreover have "0 \<le> (- t) mod 86400" by simp
    moreover have "(- t) mod 86400 = 0 \<longleftrightarrow> 86400 dvd t" using dvd_eq_mod_eq_0 [of 86400 "- t"] by simp
    ultimately show ?thesis using True by linarith
  next
    case False
    then show ?thesis by (simp add: smod_mod_positive)
  qed
  show "t sdiv 86400 = t div 86400" if "0 \<le> t \<or> 86400 dvd t"
    using floor_of_c_division [of 86400 t] m that by (auto split: if_splits)
  show "t sdiv 86400 = t div 86400 + 1" if "t < 0" "\<not> 86400 dvd t"
    using floor_of_c_division [of 86400 t] m that by (auto split: if_splits)
qed

subsection \<open>The functions of the source\<close>

definition in_int :: "int \<Rightarrow> bool" where
  "in_int x \<longleftrightarrow> - (2 ^ 31) \<le> x \<and> x < 2 ^ 31"

definition in_int64 :: "int \<Rightarrow> bool" where
  "in_int64 x \<longleftrightarrow> - (2 ^ 63) \<le> x \<and> x < 2 ^ 63"

text \<open>
  The loops of \<^verbatim>\<open>libc_days_before_year\<close>: the days of the years from \<open>y\<close> up to the limit are added to or subtracted from
  \<open>days\<close>.
\<close>

function year_loop :: "bool \<Rightarrow> int \<Rightarrow> int \<Rightarrow> int \<Rightarrow> int option" where
  "year_loop add y limit days =
     (if y < limit
      then let days' = (if add then days + year_days y else days - year_days y)
           in if in_int64 days' \<and> in_int (y + 1) then year_loop add (y + 1) limit days' else None
      else Some days)"
  by pat_completeness auto
termination by (relation "measure (\<lambda>(add, y, limit, days). nat (limit - y))") auto

definition libc_days_before_year :: "int \<Rightarrow> int option" where
  "libc_days_before_year year =
     (if 1970 \<le> year then year_loop True 1970 year 0 else year_loop False year 1970 0)"

function year_up :: "int \<Rightarrow> int \<Rightarrow> (int \<times> int) option" where
  "year_up days year =
     (if year_days year \<le> days
      then if in_int (year + 1) then year_up (days - year_days year) (year + 1) else None
      else Some (days, year))"
  by pat_completeness auto
termination
proof (relation "measure (\<lambda>(days, year). nat days)")
  fix days year
  assume "year_days year \<le> days"
  then show "((days - year_days year, year + 1), days, year) \<in> measure (\<lambda>(days, year). nat days)"
    using year_days_bounds(1) [of year] by auto
qed simp

function year_down :: "int \<Rightarrow> int \<Rightarrow> (int \<times> int) option" where
  "year_down days year =
     (if days < 0
      then if in_int (year - 1) then year_down (days + year_days (year - 1)) (year - 1) else None
      else Some (days, year))"
  by pat_completeness auto
termination
proof (relation "measure (\<lambda>(days, year). nat (- days))")
  fix days year :: int
  assume "days < 0"
  then show "((days + year_days (year - 1), year - 1), days, year) \<in> measure (\<lambda>(days, year). nat (- days))"
    using year_days_bounds(1) [of "year - 1"] by auto
qed simp

declare year_loop.simps [simp del] year_up.simps [simp del] year_down.simps [simp del]

text \<open>
  \<open>gmtime_r\<close> returns the null pointer, \<open>Some None\<close>, or a pointer to the result with its fields. The quotient and the
  remainder of a 64-bit time and the loops on days stay in range; the month counts up to at most 12.
\<close>

definition gmtime_r :: "int option \<Rightarrow> tm option \<Rightarrow> tm option option" where
  "gmtime_r timer result =
     (case timer of None \<Rightarrow> Some None | Some seconds \<Rightarrow>
      case result of None \<Rightarrow> Some None | Some _ \<Rightarrow>
        let days0 = seconds sdiv 86400; seconds0 = seconds smod 86400;
            (day_seconds, days1) = (if seconds0 < 0 then (seconds0 + 86400, days0 - 1) else (seconds0, days0))
        in case year_up days1 1970 of None \<Rightarrow> None | Some (days2, year2) \<Rightarrow>
           case year_down days2 year2 of None \<Rightarrow> None | Some (days3, year) \<Rightarrow>
             if \<not> in_int (year - 1900) then None
             else let (days4, mon) = month_up year days3 0; wday = (4 + seconds sdiv 86400) smod 7
                  in Some (Some \<lparr>tm_sec = day_seconds smod 60, tm_min = (day_seconds sdiv 60) smod 60,
                       tm_hour = day_seconds sdiv 3600, tm_mday = days4 + 1, tm_mon = mon, tm_year = year - 1900,
                       tm_wday = (if wday < 0 then wday + 7 else wday), tm_yday = days3, tm_isdst = 0\<rparr>))"

definition localtime_r :: "int option \<Rightarrow> tm option \<Rightarrow> tm option option" where
  "localtime_r timer result = gmtime_r timer result"

definition mktime :: "tm option \<Rightarrow> int option" where
  "mktime tm =
     (case tm of None \<Rightarrow> Some (-1) | Some t \<Rightarrow>
        let year = tm_year t + 1900
        in if \<not> in_int year then None
           else case libc_days_before_year year of None \<Rightarrow> None | Some days0 \<Rightarrow>
             if \<not> in_int (tm_mday t - 1) \<or> \<not> in_int (tm_hour t * 3600) \<or> \<not> in_int (tm_min t * 60) then None
             else let days = foldl (\<lambda>days month. days + libc_days_in_month year month) days0 [0..tm_mon t - 1] + (tm_mday t - 1);
                      seconds = days * 86400 + tm_hour t * 3600 + tm_min t * 60 + tm_sec t
                  in if in_int64 (days * 86400) \<and> in_int64 seconds then Some seconds else None)"

subsection \<open>Agreement with the calendar\<close>

lemma year_up_eq:
  assumes "in_int year"
  shows "year_up days year = (if in_int (snd (years_up days year)) then Some (years_up days year) else None)"
  using assms
proof (induction days year rule: year_up.induct)
  case (1 days year)
  show ?case
  proof (cases "year_days year \<le> days")
    case True
    have e: "years_up days year = years_up (days - year_days year) (year + 1)" using True by (simp add: years_up.simps)
    have m: "year + 1 \<le> snd (years_up days year)" using years_up_spec [of "days - year_days year" "year + 1"] e by (auto split: prod.splits)
    show ?thesis
    proof (cases "in_int (year + 1)")
      case t: True
      then show ?thesis using "1.IH" [OF True t t] True e by (simp add: year_up.simps [of days])
    next
      case False
      then have "\<not> in_int (snd (years_up days year))" using "1.prems" m by (auto simp: in_int_def)
      with False True show ?thesis by (simp add: year_up.simps [of days])
    qed
  next
    case False
    then show ?thesis using "1.prems" by (simp add: year_up.simps [of days] years_up.simps [of days])
  qed
qed

lemma year_down_eq:
  assumes "in_int year"
  shows "year_down days year = (if in_int (snd (years_down days year)) then Some (years_down days year) else None)"
  using assms
proof (induction days year rule: year_down.induct)
  case (1 days year)
  show ?case
  proof (cases "days < 0")
    case True
    have e: "years_down days year = years_down (days + year_days (year - 1)) (year - 1)" using True by (simp add: years_down.simps)
    have m: "snd (years_down days year) \<le> year - 1"
      using years_down_spec [of "days + year_days (year - 1)" "year - 1"] e by (auto split: prod.splits)
    show ?thesis
    proof (cases "in_int (year - 1)")
      case t: True
      then show ?thesis using "1.IH" [OF True t t] True e by (simp add: year_down.simps [of days])
    next
      case False
      then have "\<not> in_int (snd (years_down days year))" using "1.prems" m by (auto simp: in_int_def)
      with False True show ?thesis by (simp add: year_down.simps [of days])
    qed
  next
    case False
    then show ?thesis using "1.prems" by (simp add: year_down.simps [of days] years_down.simps [of days])
  qed
qed

text \<open>The code agrees with the calendar exactly when the year and the year since 1900 fit an \<^verbatim>\<open>int\<close>.\<close>

lemma gmtime_eq:
  "gmtime_r (Some t) (Some r) =
     (if in_int (tm_year (calendar_of t) + 1900) \<and> in_int (tm_year (calendar_of t)) then Some (Some (calendar_of t)) else None)"
proof -
  define D where "D = t div 86400"
  obtain d2 y2 where u: "years_up D 1970 = (d2, y2)" by force
  obtain d3 y where w: "years_down d2 y2 = (d3, y)" by force
  obtain d4 m where mo: "month_up y d3 0 = (d4, m)" by force
  have c: "(if t smod 86400 < 0 then (t smod 86400 + 86400, t sdiv 86400 - 1) else (t smod 86400, t sdiv 86400)) = (t mod 86400, D)"
    unfolding D_def by (rule floor_of_c_division) simp
  have cal: "calendar_of t = \<lparr>tm_sec = t mod 86400 smod 60, tm_min = (t mod 86400 sdiv 60) smod 60, tm_hour = t mod 86400 sdiv 3600,
      tm_mday = d4 + 1, tm_mon = m, tm_year = y - 1900,
      tm_wday = (if (4 + t sdiv 86400) smod 7 < 0 then (4 + t sdiv 86400) smod 7 + 7 else (4 + t sdiv 86400) smod 7),
      tm_yday = d3, tm_isdst = 0\<rparr>"
    unfolding calendar_of_def Let_def c prod.case u w mo by simp
  have y2: "in_int y \<Longrightarrow> in_int y2" and i: "in_int 1970"
  proof -
    show "in_int 1970" by (simp add: in_int_def)
    have "D < 0 \<longrightarrow> y2 = 1970" "0 \<le> D \<longrightarrow> 0 \<le> d2" using years_up_spec [of D 1970] by (auto simp: u)
    moreover have "0 \<le> d2 \<longrightarrow> y = y2" using years_down_spec [of d2 y2] by (auto simp: w)
    ultimately show "in_int y \<Longrightarrow> in_int y2" by (cases "D < 0") (auto simp: in_int_def)
  qed
  have "gmtime_r (Some t) (Some r) =
      (case year_up D 1970 of None \<Rightarrow> None | Some (days2, year2) \<Rightarrow>
       case year_down days2 year2 of None \<Rightarrow> None | Some (days3, year) \<Rightarrow>
         if \<not> in_int (year - 1900) then None
         else let (days4, mon) = month_up year days3 0; wday = (4 + t sdiv 86400) smod 7
              in Some (Some \<lparr>tm_sec = t mod 86400 smod 60, tm_min = (t mod 86400 sdiv 60) smod 60,
                   tm_hour = t mod 86400 sdiv 3600, tm_mday = days4 + 1, tm_mon = mon, tm_year = year - 1900,
                   tm_wday = (if wday < 0 then wday + 7 else wday), tm_yday = days3, tm_isdst = 0\<rparr>))"
    unfolding gmtime_r_def option.case Let_def c prod.case by simp
  also have "\<dots> = (if in_int y \<and> in_int (y - 1900) then Some (Some (calendar_of t)) else None)"
    using y2 unfolding year_up_eq [OF i] u by (cases "in_int y2") (auto simp: year_down_eq w mo cal)
  finally show ?thesis by (simp add: cal)
qed

lemma days_before_year_bound:
  assumes "y \<le> y'"
  shows "365 * (y' - y) \<le> days_before_year y' - days_before_year y" "days_before_year y' - days_before_year y \<le> 366 * (y' - y)"
proof -
  have "365 * (y' - y) \<le> days_before_year y' - days_before_year y \<and> days_before_year y' - days_before_year y \<le> 366 * (y' - y)"
    using assms
  proof (induction y' rule: int_ge_induct)
    case (step z)
    then show ?case using days_before_next [of z] year_days_bounds [of z] by simp
  qed simp
  then show "365 * (y' - y) \<le> days_before_year y' - days_before_year y" "days_before_year y' - days_before_year y \<le> 366 * (y' - y)"
    by simp_all
qed

lemma year_loop_eq:
  assumes "in_int y" and "in_int limit" and "y \<le> limit" and "\<bar>days\<bar> + 366 * (limit - y) < 2 ^ 62"
  shows "year_loop add y limit days =
    Some (if add then days + (days_before_year limit - days_before_year y) else days - (days_before_year limit - days_before_year y))"
  using assms
proof (induction add y limit days rule: year_loop.induct)
  case (1 add y limit days)
  show ?case
  proof (cases "y < limit")
    case True
    let ?days = "if add then days + year_days y else days - year_days y"
    have b: "365 \<le> year_days y" "year_days y \<le> 366" by (rule year_days_bounds)+
    have i: "in_int (y + 1)" "in_int64 ?days" "\<bar>?days\<bar> + 366 * (limit - (y + 1)) < 2 ^ 62"
      using True "1.prems" b by (auto simp: in_int_def in_int64_def)
    have "year_loop add y limit days = year_loop add (y + 1) limit ?days"
      using True i by (simp add: year_loop.simps [of add y limit days] Let_def)
    also have "\<dots> = Some (if add then ?days + (days_before_year limit - days_before_year (y + 1))
        else ?days - (days_before_year limit - days_before_year (y + 1)))"
      using "1.IH" [OF True HOL.refl] i "1.prems"(2) True by simp
    finally show ?thesis by (simp add: days_before_next)
  next
    case False
    then have "y = limit" using "1.prems"(3) by simp
    then show ?thesis by (simp add: year_loop.simps)
  qed
qed

lemma libc_days_before_year_eq:
  assumes "in_int year"
  shows "libc_days_before_year year = Some (days_before_year year)"
proof -
  have "in_int 1970" by (simp add: in_int_def)
  then show ?thesis
    using assms year_loop_eq [of 1970 year 0 True] year_loop_eq [of year 1970 0 False]
    by (auto simp: libc_days_before_year_def in_int_def)
qed

lemma days_in_month_le: "libc_days_in_month y m \<le> 31"
proof (cases "m < 0 \<or> 12 \<le> m")
  case False
  moreover have "length month_table = 12" by (simp add: month_table_def)
  ultimately have "month_table ! nat m \<in> set month_table" by (intro nth_mem) auto
  then have "month_table ! nat m \<le> 31" by (auto simp: month_table_def)
  then show ?thesis using False by (simp add: libc_days_in_month_def month_table_def)
qed (auto simp: libc_days_in_month_def)

lemma mktime_eq:
  assumes "calendar_ok c" and "in_int (tm_year c + 1900)"
  shows "mktime (Some c) = Some (seconds_of c)"
proof -
  let ?y = "tm_year c + 1900"
  have f: "0 \<le> tm_sec c" "tm_sec c < 60" "0 \<le> tm_min c" "tm_min c < 60" "0 \<le> tm_hour c" "tm_hour c < 24" "1 \<le> tm_mday c"
    "tm_mday c \<le> 31"
    using assms(1) days_in_month_le [of ?y "tm_mon c"] by (simp_all add: calendar_ok_def)
  have "\<bar>days_before_year ?y\<bar> \<le> 366 * 2 ^ 32"
    using days_before_year_bound [of 1970 ?y] days_before_year_bound [of ?y 1970] assms(2)
    by (cases "70 \<le> tm_year c") (auto simp: in_int_def abs_le_iff)
  moreover have "0 \<le> days_before_month ?y (tm_mon c) + (tm_mday c - 1)" "days_before_month ?y (tm_mon c) + (tm_mday c - 1) < 366"
    using day_of_year_bounds [OF assms(1)] year_days_bounds(2) [of ?y] by simp_all
  ultimately have d: "\<bar>day_number c\<bar> \<le> 367 * 2 ^ 32" by (auto simp: day_number_def)
  have n: "foldl (\<lambda>days month. days + libc_days_in_month ?y month) (days_before_year ?y) [0..tm_mon c - 1] + (tm_mday c - 1) = day_number c"
    by (simp add: day_number_def days_before_month_def foldl_plus)
  have "in_int (tm_mday c - 1)" "in_int (tm_hour c * 3600)" "in_int (tm_min c * 60)" "in_int64 (day_number c * 86400)"
    "in_int64 (day_number c * 86400 + tm_hour c * 3600 + tm_min c * 60 + tm_sec c)"
    using f d by (auto simp: in_int_def in_int64_def)
  then show ?thesis
    using assms(2) by (simp add: mktime_def libc_days_before_year_eq n seconds_of_eq Let_def add.assoc)
qed

lemma calendar_year_overflow:
  assumes "2 ^ 57 \<le> \<bar>t\<bar>"
  shows "\<not> (in_int (tm_year (calendar_of t) + 1900) \<and> in_int (tm_year (calendar_of t)))"
proof -
  obtain year yday where y: "t div 86400 = days_before_year year + yday" "0 \<le> yday" "yday < year_days year"
    "tm_year (calendar_of t) = year - 1900"
    by (rule calendar_fields [of t])
  have "2 ^ 57 div 86400 \<le> t div 86400 \<or> t div 86400 \<le> (- (2 ^ 57)) div 86400"
    using assms zdiv_mono1 [of "2 ^ 57" t 86400] zdiv_mono1 [of t "- (2 ^ 57)" 86400] by linarith
  then have "1660000000000 \<le> t div 86400 \<or> t div 86400 \<le> - 1660000000000" by simp linarith
  then show ?thesis
    using y days_before_year_bound [of 1970 year] days_before_year_bound [of year 1970] year_days_bounds [of year]
    by (cases "1970 \<le> year") (auto simp: in_int_def)
qed

text \<open>A date within half a thousand million years has a time below \<open>2 ^ 55\<close>.\<close>

lemma seconds_of_bound:
  assumes "calendar_ok c" and "\<bar>tm_year c\<bar> < 2 ^ 29"
  shows "\<bar>seconds_of c\<bar> < 2 ^ 55"
proof -
  let ?y = "tm_year c + 1900"
  have "\<bar>days_before_year ?y\<bar> \<le> 366 * (2 ^ 29 + 70)"
    using days_before_year_bound [of 1970 ?y] days_before_year_bound [of ?y 1970] assms(2)
    by (cases "70 \<le> tm_year c") (auto simp: abs_le_iff abs_less_iff)
  moreover have "0 \<le> days_before_month ?y (tm_mon c) + (tm_mday c - 1)" "days_before_month ?y (tm_mon c) + (tm_mday c - 1) < 366"
    using day_of_year_bounds [OF assms(1)] year_days_bounds(2) [of ?y] by simp_all
  ultimately have "\<bar>day_number c\<bar> \<le> 367 * (2 ^ 29 + 70)" by (auto simp: day_number_def abs_le_iff)
  then show ?thesis using second_of_day [OF assms(1)] unfolding seconds_of_eq by (auto simp: abs_less_iff abs_le_iff)
qed

lemma calendar_of_days:
  "tm_yday (calendar_of t) = days_before_month (tm_year (calendar_of t) + 1900) (tm_mon (calendar_of t)) + (tm_mday (calendar_of t) - 1)"
  "tm_wday (calendar_of t) = (4 + (t div 86400 + (if t < 0 \<and> \<not> 86400 dvd t then 1 else 0))) mod 7" "tm_isdst (calendar_of t) = 0"
proof -
  obtain year yday mon mday where F: "yday = days_before_month year mon + mday" "tm_year (calendar_of t) = year - 1900"
    "tm_yday (calendar_of t) = yday" "tm_mon (calendar_of t) = mon" "tm_mday (calendar_of t) = mday + 1"
    by (rule calendar_fields [of t])
  then show "tm_yday (calendar_of t) =
      days_before_month (tm_year (calendar_of t) + 1900) (tm_mon (calendar_of t)) + (tm_mday (calendar_of t) - 1)" by simp
  show "tm_wday (calendar_of t) = (4 + (t div 86400 + (if t < 0 \<and> \<not> 86400 dvd t then 1 else 0))) mod 7"
    using calendar_weekday [of t] by (cases "t < 0 \<and> \<not> 86400 dvd t") auto
  show "tm_isdst (calendar_of t) = 0" by (simp add: calendar_of_def Let_def split: prod.splits)
qed

end
