(* ===== verification/Libc_Props.thy ===== *)
theory Libc_Props
  imports Libc_Alloc Libc_Number Libc_Time
begin

text \<open>The properties of the kernel's C library, with their witnesses.\<close>

subsection \<open>Memory\<close>

text \<open>
  C28. Moving a block of memory works for any two blocks, overlapping or not: afterwards the target holds
  what the source held before, and no byte outside the target has changed.
\<close>

theorem memmove_correct:
  assumes "in_space d (unat n)" and "in_space s (unat n)"
  shows "load_bytes (memmove d s n m) d (unat n) = load_bytes m s (unat n) \<and>
    (\<forall>x. unat x \<notin> region d (unat n) \<longrightarrow> memmove d s n m x = m x)"
  using memmove_moved [OF assms, of m] by (simp add: moved_def only_in_def)

theorem memmove_correct_witness:
  "load_bytes (memmove 101 100 3 (\<lambda>a. ucast a)) 101 3 = [100, 101, 102] \<and>
   load_bytes (memmove 99 100 3 (\<lambda>a. ucast a)) 99 3 = [100, 101, 102]"
proof -
  have u: "[0..<3] = [0, 1, 2 :: nat]" by (simp add: upt_rec)
  have l: "load_bytes (\<lambda>a. ucast a) 100 3 = [100, 101, 102]" by (simp add: load_bytes_def u)
  show ?thesis
    using memmove_correct [of 101 3 100 "\<lambda>a. ucast a"] memmove_correct [of 99 3 100 "\<lambda>a. ucast a"] l
    by (simp add: in_space_def)
qed

text \<open>
  C27. Resizing a live block returns. On success there is a live block of at least the new size that
  starts with the bytes of the old block, as many as fit in both; the old block is no longer live unless it
  is the one returned; every other live block keeps its bytes. On failure nothing is freed and
  every live block keeps its bytes.
\<close>

theorem realloc_correct:
  assumes "live (heap s) L" and "(h, old) \<in> L" and "sz \<noteq> 0"
  shows "\<exists>p s'. realloc (h + 24) sz s = Some (p, s') \<and>
    (if p = 0 then live (heap s') L \<and> data_kept L (memory (heap s)) (memory (heap s'))
     else \<exists>n. sz \<le> ucast n \<and> live (heap s') (insert (p - 24, n) (L - {(h, old)})) \<and>
       data_kept (L - {(h, old)}) (memory (heap s)) (memory (heap s')) \<and>
       load_bytes (memory (heap s')) p (min (unat old) (unat sz)) = take (unat sz) (block_data (memory (heap s)) (h, old)))"
proof -
  note N = live_nonzero [OF assms(1,2)]
  consider "0xffffffff < sz" | "unat sz < 2 ^ 32" "sz \<le> ucast old" | "unat sz < 2 ^ 32" "\<not> sz \<le> ucast old"
    using not_greater_32 [of sz] by blast
  then show ?thesis
  proof cases
    case 1
    then have "realloc (h + 24) sz s = Some (0, s\<lparr>libc_errno := LIBC_ENOMEM\<rparr>)" using N assms(3) by (simp add: realloc_def)
    then show ?thesis using assms(1) by (auto simp: data_kept_def)
  next
    case 2
    then have "realloc (h + 24) sz s = Some (h + 24, s)"
      using N assms(3) not_greater_32 [of sz] by (simp add: realloc_def Let_def)
    moreover have "insert (h, old) (L - {(h, old)}) = L" using assms(2) by auto
    moreover have "unat sz \<le> unat old" using 2(2) by (simp add: word_le_nat_alt)
    then have "load_bytes (memory (heap s)) (h + 24) (unat sz) = take (unat sz) (block_data (memory (heap s)) (h, old))"
      using load_bytes_slice [of 0 "unat sz" "unat old" "memory (heap s)" "h + 24"] by (simp add: block_data_def slice_def)
    ultimately show ?thesis using 2 N assms(1) \<open>unat sz \<le> unat old\<close> by (auto simp: data_kept_def)
  next
    case 3
    obtain p s1 where m: "malloc sz s = (p, s1)" by force
    show ?thesis
    proof (cases "p = 0")
      case True
      then have "realloc (h + 24) sz s = Some (0, s1\<lparr>libc_errno := LIBC_ENOMEM\<rparr>)"
        using 3 N assms(3) m not_greater_32 [of sz] by (simp add: realloc_def Let_def)
      then show ?thesis using malloc_live [OF assms(1) m] True by auto
    next
      case False
      obtain s' where s': "realloc (h + 24) sz s = Some (p, s')" "live (heap s') (insert (p - 24, ucast sz) (L - {(h, old)}))"
        "data_kept (L - {(h, old)}) (memory (heap s)) (memory (heap s'))"
        "load_bytes (memory (heap s')) p (unat old) = block_data (memory (heap s)) (h, old)"
        by (rule realloc_grow [OF assms(1,2) 3 m False])
      have le: "unat old \<le> unat sz" using 3(2) by (simp add: word_le_nat_alt)
      have "sz \<le> ucast (ucast sz :: u32)" using unat_ucast_64_32_small [OF 3(1)] by (simp add: word_le_nat_alt)
      moreover have "length (block_data (memory (heap s)) (h, old)) \<le> unat sz" using le by (simp add: block_data_def)
      ultimately show ?thesis using s' False le by (intro exI [of _ p] exI [of _ s']) (auto simp: min_absorb1)
    qed
  qed
qed

definition demo_libc :: libc where
  "demo_libc = \<lparr>heap = demo_heap, libc_errno = 0\<rparr>"

theorem realloc_correct_witness:
  "\<exists>p s'. realloc demo_ptr 200 demo_libc = Some (p, s') \<and>
    (p = 0 \<or> load_bytes (memory (heap s')) p 100 = load_bytes (memory demo_heap) demo_ptr 100)"
proof -
  have "live (heap demo_libc) {(demo_ptr - 24, 100)}" using demo_heap_live by (simp add: demo_libc_def live_def)
  from realloc_correct [OF this, of "demo_ptr - 24" 100 200] show ?thesis
    by (auto simp: block_data_def demo_libc_def split: if_splits)
qed

text \<open>
  C29. An array allocation never hands out a block for a product that overflowed: a pointer that is not
  null is a live block of exactly the mathematical product of bytes, all zero, apart from every live
  block, and all of those keep their bytes; when the product does not fit 32 bits the result is null and the error
  number is set.
\<close>

theorem calloc_correct:
  assumes "live (heap s) L" and "calloc n sz s = (p, s')"
  shows "data_kept L (memory (heap s)) (memory (heap s')) \<and>
    (if p = 0 then live (heap s') L
     else unat n * unat sz < 2 ^ 32 \<and> live (heap s') (insert (p - 24, of_nat (unat n * unat sz)) L) \<and>
       (p - 24, of_nat (unat n * unat sz)) \<notin> L \<and>
       load_bytes (memory (heap s')) p (unat n * unat sz) = replicate (unat n * unat sz) 0) \<and>
    (2 ^ 32 \<le> unat n * unat sz \<longrightarrow> p = 0 \<and> libc_errno s' = LIBC_ENOMEM)"
proof (cases "n \<noteq> 0 \<and> sz > (-1) div n \<or> 0xffffffff < n * sz")
  case True
  then have "p = 0" "s' = s\<lparr>libc_errno := LIBC_ENOMEM\<rparr>" using assms(2) by (auto simp: calloc_def Let_def split: if_splits)
  then show ?thesis using assms(1) by (auto simp: data_kept_def)
next
  case False
  then have prod: "unat (n * sz) = unat n * unat sz" by (intro no_wrap) (auto simp: not_less)
  then have small: "unat n * unat sz < 2 ^ 32" using False not_greater_32 [of "n * sz"] by simp
  obtain q s1 where m: "malloc (n * sz) s = (q, s1)" by force
  note M = malloc_live [OF assms(1) m]
  show ?thesis
  proof (cases "q = 0")
    case True
    then have "p = 0" "s' = s1" using assms(2) False m by (auto simp: calloc_def Let_def split: if_splits)
    then show ?thesis using M True small by auto
  next
    case nz: False
    let ?b = "(q - 24, ucast (n * sz) :: u32)"
    let ?m = "memset q 0 (n * sz) (memory (heap s1))"
    have res: "p = q" "s' = s1\<lparr>heap := (heap s1)\<lparr>memory := ?m\<rparr>\<rparr>"
      using assms(2) False m nz by (auto simp: calloc_def Let_def split: if_splits)
    have b: "ucast (n * sz) = (of_nat (unat n * unat sz) :: u32)" unfolding prod [symmetric] by simp
    have u: "unat (snd ?b) = unat (n * sz)" using unat_ucast_64_32_small prod small by simp
    have L1: "live (heap s1) (insert ?b L)" "?b \<notin> L" using M(3) [OF nz] by auto
    have sp: "in_space q (unat (n * sz))" using live_space [OF L1(1), of "q - 24" "snd ?b"] u by simp
    note Z = memset_bytes [OF sp, where v = 0 and m = "memory (heap s1)"]
    have "only_in (region (fst ?b + 24) (unat (snd ?b))) (memory (heap s1)) ?m" using Z(2) u by simp
    then have W: "live ((heap s1)\<lparr>memory := ?m\<rparr>) (insert ?b L)" "data_kept (insert ?b L - {?b}) (memory (heap s1)) ?m"
      using payload_write [OF L1(1) insertI1] by auto
    have "data_kept L (memory (heap s)) ?m" using data_kept_trans [OF M(1)] W(2) L1(2) by (simp add: data_kept_def)
    then show ?thesis using W(1) L1(2) Z(1) res nz small prod by (simp add: b)
  qed
qed

theorem calloc_correct_witness:
  "fst (calloc 3 (2 ^ 63) demo_libc) = 0 \<and> libc_errno (snd (calloc 3 (2 ^ 63) demo_libc)) = LIBC_ENOMEM"
proof -
  have "live (heap demo_libc) {(demo_ptr - 24, 100)}" using demo_heap_live by (simp add: demo_libc_def live_def)
  from calloc_correct [OF this, of 3 "2 ^ 63"] show ?thesis
    by (cases "calloc 3 (2 ^ 63) demo_libc") simp
qed

subsection \<open>Numbers\<close>

text \<open>
  C30. Reading a number computes with unbounded integers in effect: white space, sign and prefix are skipped, all
  digits of the base are consumed, and the value is the number written there when it fits a \<^verbatim>\<open>long\<close>; otherwise it is the nearest
  limit and the error is reported. Without a digit the value is 0 and the end pointer is the start.
\<close>

theorem strtol_correct:
  assumes "base = 0 \<or> 2 \<le> base \<and> base \<le> 36"
  shows "strtol nptr base = strtol_spec nptr base"
  using assms by (rule strtol_eq)

theorem strtol_correct_witness:
  "strtol [32, 45, 48, 120, 49, 70, 103] 0 = (-31, [103], None)"
  using strtol_correct [of 0 "[32, 45, 48, 120, 49, 70, 103]"]
  by (simp add: strtol_spec_def number_parts_def strto_sign_def char_at_def libc_isspace_def libc_strto_prefix_def
      hex_prefix_def libc_digit_value_def is_digit_def digits_value_def)

text \<open>
  The digits the formatter prints for an unsigned number, in any base up to 16 and either case, are read back
  as that number, to the end of the text and without an error.
\<close>

lemma format_strtoul_roundtrip:
  assumes "2 \<le> base" and "base \<le> 16"
  shows "strtoul (libc_format_uint v base upper) (uint base) = (v, [], None)"
  using assms by (rule strtoul_format)

subsection \<open>Calendar\<close>

text \<open>
  C31. Breaking a time down into calendar fields and putting it together again are inverse to each other as long as the
  year fits an \<^verbatim>\<open>int\<close>. For every time within \<open>2 ^ 55\<close> seconds of 1970 (about a thousand million years) \<^verbatim>\<open>gmtime_r\<close> returns without
  overflow: every field is in range, \<^verbatim>\<open>tm_yday\<close> is the day of the year, \<^verbatim>\<open>tm_wday\<close> the day of the week -- except that
  before 1970 and not at midnight it is that of the following day, as the quotient there is rounded up -- and \<^verbatim>\<open>mktime\<close> gives
  back the time. For every valid date within \<open>2 ^ 29\<close> years of 1900 \<^verbatim>\<open>mktime\<close> returns without overflow, and \<^verbatim>\<open>gmtime_r\<close> of that
  time restores year, month, day, hour, minute and second. From \<open>2 ^ 57\<close> seconds on, although a \<^verbatim>\<open>time_t\<close> holds it,
  the year overflows. Null pointers are reported.
\<close>

theorem gmtime_mktime_inverse:
  "(\<bar>t\<bar> < 2 ^ 55 \<longrightarrow> (\<exists>c. gmtime_r (Some t) (Some r) = Some (Some c) \<and> calendar_ok c \<and> mktime (Some c) = Some t \<and>
      tm_yday c = days_before_month (tm_year c + 1900) (tm_mon c) + (tm_mday c - 1) \<and>
      tm_wday c = (4 + (t div 86400 + (if t < 0 \<and> \<not> 86400 dvd t then 1 else 0))) mod 7 \<and> tm_isdst c = 0)) \<and>
   (\<forall>c. calendar_ok c \<and> \<bar>tm_year c\<bar> < 2 ^ 29 \<longrightarrow> (\<exists>s c'. mktime (Some c) = Some s \<and> gmtime_r (Some s) (Some r) = Some (Some c') \<and>
      c' = c\<lparr>tm_wday := tm_wday c', tm_yday := tm_yday c', tm_isdst := 0\<rparr>)) \<and>
   (2 ^ 57 \<le> \<bar>t\<bar> \<longrightarrow> gmtime_r (Some t) (Some r) = None) \<and>
   gmtime_r None result = Some None \<and> gmtime_r timer None = Some None \<and> mktime None = Some (-1)"
proof (intro conjI allI impI)
  have fit: "in_int (tm_year (calendar_of s) + 1900) \<and> in_int (tm_year (calendar_of s))" if "\<bar>s\<bar> < 2 ^ 55" for s
    using calendar_year_fits [of s] that by (auto simp: in_int_def abs_less_iff)
  show "\<exists>c. gmtime_r (Some t) (Some r) = Some (Some c) \<and> calendar_ok c \<and> mktime (Some c) = Some t \<and>
      tm_yday c = days_before_month (tm_year c + 1900) (tm_mon c) + (tm_mday c - 1) \<and>
      tm_wday c = (4 + (t div 86400 + (if t < 0 \<and> \<not> 86400 dvd t then 1 else 0))) mod 7 \<and> tm_isdst c = 0" if t: "\<bar>t\<bar> < 2 ^ 55"
    using fit [OF t] calendar_of_ok [of t] calendar_of_days [of t] mktime_eq [of "calendar_of t"] by (auto simp: gmtime_eq)
  show "\<exists>s c'. mktime (Some c) = Some s \<and> gmtime_r (Some s) (Some r) = Some (Some c') \<and>
      c' = c\<lparr>tm_wday := tm_wday c', tm_yday := tm_yday c', tm_isdst := 0\<rparr>" if c: "calendar_ok c \<and> \<bar>tm_year c\<bar> < 2 ^ 29" for c
  proof -
    let ?s = "seconds_of c"
    have "\<bar>?s\<bar> < 2 ^ 55" using c by (intro seconds_of_bound) auto
    then have "gmtime_r (Some ?s) (Some r) = Some (Some (calendar_of ?s))" using fit by (simp add: gmtime_eq)
    moreover have "mktime (Some c) = Some ?s" using c by (intro mktime_eq) (auto simp: in_int_def abs_less_iff)
    moreover have "calendar_of ?s = c\<lparr>tm_wday := tm_wday (calendar_of ?s), tm_yday := tm_yday (calendar_of ?s), tm_isdst := 0\<rparr>"
      using calendar_unique [OF calendar_of_ok(1) _ calendar_of_ok(2)] c calendar_of_days(3) by (intro tm.equality) simp_all
    ultimately show ?thesis by blast
  qed
  show "gmtime_r (Some t) (Some r) = None" if "2 ^ 57 \<le> \<bar>t\<bar>" using calendar_year_overflow [OF that] by (simp add: gmtime_eq)
qed (simp_all add: gmtime_r_def mktime_def split: option.splits)

definition leap_day :: tm where
  "leap_day = \<lparr>tm_sec = 59, tm_min = 30, tm_hour = 12, tm_mday = 29, tm_mon = 1, tm_year = 72, tm_wday = 2, tm_yday = 59, tm_isdst = 0\<rparr>"

theorem gmtime_mktime_inverse_witness:
  "\<exists>c. gmtime_r (Some 68214659) (Some leap_day) = Some (Some c) \<and> c = leap_day \<and> mktime (Some leap_day) = Some 68214659 \<and>
    gmtime_r (Some (2 ^ 60)) (Some leap_day) = None"
proof -
  have s: "seconds_of leap_day = 68214659"
    by (simp add: leap_day_def seconds_of_def days_before_year_def upto.simps year_days_def libc_is_leap_year_def
        libc_days_in_month_def signed_modulo_int_def signed_divide_int_def Let_def)
  have ok: "calendar_ok leap_day"
    by (simp add: calendar_ok_def leap_day_def libc_days_in_month_def libc_is_leap_year_def signed_modulo_int_def signed_divide_int_def)
  have m: "mktime (Some leap_day) = Some 68214659" using mktime_eq [OF ok] s by (simp add: leap_day_def in_int_def)
  obtain c where c: "gmtime_r (Some 68214659) (Some leap_day) = Some (Some c)"
    "tm_yday c = days_before_month (tm_year c + 1900) (tm_mon c) + (tm_mday c - 1)" "tm_wday c = (4 + (68214659 div 86400 + 0)) mod 7"
    using gmtime_mktime_inverse [of 68214659 leap_day None None, THEN conjunct1] by auto
  have "\<bar>tm_year leap_day\<bar> < 2 ^ 29" by (simp add: leap_day_def)
  then obtain c' where "gmtime_r (Some 68214659) (Some leap_day) = Some (Some c')"
    "c' = leap_day\<lparr>tm_wday := tm_wday c', tm_yday := tm_yday c', tm_isdst := 0\<rparr>"
    using gmtime_mktime_inverse [of 0 leap_day None None, THEN conjunct2, THEN conjunct1] ok m by fastforce
  then have e: "c = leap_day\<lparr>tm_wday := tm_wday c, tm_yday := tm_yday c, tm_isdst := 0\<rparr>" using c(1) by simp
  have f: "tm_year c = 72" "tm_mon c = 1" "tm_mday c = 29"
    using arg_cong [OF e, of tm_year] arg_cong [OF e, of tm_mon] arg_cong [OF e, of tm_mday] by (simp_all add: leap_day_def)
  have "days_before_month 1972 1 = 31" by (simp add: days_before_month_def libc_days_in_month_def)
  then have "tm_yday c = 59" "tm_wday c = 2" using c(2,3) f by simp_all
  then have "c = leap_day" using e by (simp add: leap_day_def)
  moreover have "gmtime_r (Some (2 ^ 60)) (Some leap_day) = None" using gmtime_mktime_inverse [of "2 ^ 60" leap_day None None] by simp
  ultimately show ?thesis using c(1) m by simp
qed

end
