(* ===== verification/Net_Bytes.thy ===== *)
theory Net_Bytes
  imports Prelude "HOL-Library.Monad_Syntax"
begin

text \<open>
  Packets and buffers of the network stack (\<^verbatim>\<open>kernel/drivers/net.c\<close>). A pointer with the object it points into
  is the list of bytes from there to the end of the object; every load and store is checked, and a load or store outside the
  object makes the whole computation \<^term>\<open>None\<close>. Multi-byte fields are loaded and stored in the byte order of the
  machine, little-endian, so that the conversions \<^verbatim>\<open>net_ntohs\<close>, \<^verbatim>\<open>net_htonl\<close> and so on are those of the code.

  \<open>okay m P\<close> says that a computation stays inside its objects and that its result satisfies \<open>P\<close>. The collection \<open>wp\<close> holds
  equations that compute the condition under which this is so, one for each primitive.
\<close>

named_theorems wp \<open>when a computation stays inside its objects\<close>

definition okay :: "'a option \<Rightarrow> ('a \<Rightarrow> bool) \<Rightarrow> bool" where
  "okay m P \<longleftrightarrow> (case m of None \<Rightarrow> False | Some x \<Rightarrow> P x)"

lemma okay_Some [wp]: "okay (Some x) P \<longleftrightarrow> P x"
  by (simp add: okay_def)

lemma okay_None [wp]: "\<not> okay None P"
  by (simp add: okay_def)

lemma okay_bind [wp]: "okay (m \<bind> f) P \<longleftrightarrow> okay m (\<lambda>x. okay (f x) P)"
  by (cases m) (simp_all add: okay_def)

lemma okay_if [wp]: "okay (if b then m else n) P \<longleftrightarrow> (if b then okay m P else okay n P)"
  by simp

lemma okay_let [wp]: "okay (Let x f) P \<longleftrightarrow> okay (f x) P"
  by simp

lemma okay_mono: "okay m P \<Longrightarrow> (\<And>x. P x \<Longrightarrow> Q x) \<Longrightarrow> okay m Q"
  by (cases m) (simp_all add: okay_def)

lemma okay_bindI: "okay m Q \<Longrightarrow> (\<And>x. Q x \<Longrightarrow> okay (f x) P) \<Longrightarrow> okay (m \<bind> f) P"
  by (cases m) (simp_all add: okay_def)

lemma okay_bind2I: "okay m (\<lambda>(a, b). Q a b) \<Longrightarrow> (\<And>a b. Q a b \<Longrightarrow> okay (f a b) P) \<Longrightarrow> okay (m \<bind> (\<lambda>(a, b). f a b)) P"
  by (cases m) (auto simp: okay_def)

lemma okay_conj: "okay m P \<Longrightarrow> okay m Q \<Longrightarrow> okay m (\<lambda>x. P x \<and> Q x)"
  by (cases m) (simp_all add: okay_def)

lemma okay_iff: "okay m P \<longleftrightarrow> (\<exists>x. m = Some x \<and> P x)"
  by (cases m) (simp_all add: okay_def)

subsection \<open>Loads and stores\<close>

definition ld8 :: "bytes \<Rightarrow> nat \<Rightarrow> u8 option" where
  "ld8 p i = (if i < length p then Some (p ! i) else None)"

definition ld16 :: "bytes \<Rightarrow> nat \<Rightarrow> u16 option" where
  "ld16 p i = do { a \<leftarrow> ld8 p i; b \<leftarrow> ld8 p (i + 1); Some (ucast a OR push_bit 8 (ucast b)) }"

definition ld32 :: "bytes \<Rightarrow> nat \<Rightarrow> u32 option" where
  "ld32 p i = do { a \<leftarrow> ld8 p i; b \<leftarrow> ld8 p (i + 1); c \<leftarrow> ld8 p (i + 2); d \<leftarrow> ld8 p (i + 3);
     Some (ucast a OR push_bit 8 (ucast b) OR push_bit 16 (ucast c) OR push_bit 24 (ucast d)) }"

definition st8 :: "bytes \<Rightarrow> nat \<Rightarrow> u8 \<Rightarrow> bytes option" where
  "st8 p i v = (if i < length p then Some (p[i := v]) else None)"

definition st16 :: "bytes \<Rightarrow> nat \<Rightarrow> u16 \<Rightarrow> bytes option" where
  "st16 p i v = do { p \<leftarrow> st8 p i (ucast v); st8 p (i + 1) (ucast (drop_bit 8 v)) }"

definition st32 :: "bytes \<Rightarrow> nat \<Rightarrow> u32 \<Rightarrow> bytes option" where
  "st32 p i v = do { p \<leftarrow> st8 p i (ucast v); p \<leftarrow> st8 p (i + 1) (ucast (drop_bit 8 v));
     p \<leftarrow> st8 p (i + 2) (ucast (drop_bit 16 v)); st8 p (i + 3) (ucast (drop_bit 24 v)) }"

lemma okay_ld8 [wp]: "okay (ld8 p i) P \<longleftrightarrow> i < length p \<and> P (p ! i)"
  by (simp add: ld8_def okay_def)

lemma okay_st8 [wp]: "okay (st8 p i v) P \<longleftrightarrow> i < length p \<and> P (p[i := v])"
  by (simp add: st8_def okay_def)

definition le16_at :: "bytes \<Rightarrow> nat \<Rightarrow> u16" where
  "le16_at p i = ucast (p ! i) OR push_bit 8 (ucast (p ! (i + 1)))"

definition le32_at :: "bytes \<Rightarrow> nat \<Rightarrow> u32" where
  "le32_at p i = ucast (p ! i) OR push_bit 8 (ucast (p ! (i + 1))) OR
     push_bit 16 (ucast (p ! (i + 2))) OR push_bit 24 (ucast (p ! (i + 3)))"

lemma okay_ld16 [wp]: "okay (ld16 p i) P \<longleftrightarrow> i + 1 < length p \<and> P (le16_at p i)"
  by (auto simp: ld16_def wp le16_at_def)

lemma okay_ld32 [wp]: "okay (ld32 p i) P \<longleftrightarrow> i + 3 < length p \<and> P (le32_at p i)"
  by (auto simp: ld32_def wp le32_at_def)

lemma okay_st16 [wp]:
  "okay (st16 p i v) P \<longleftrightarrow> i + 1 < length p \<and> P (overwrite i [ucast v, ucast (drop_bit 8 v)] p)"
proof -
  have "p[i := a, i + 1 := b] = overwrite i [a, b] p" if "i + 1 < length p" for a b
    using that by (intro nth_equalityI) (auto simp: nth_overwrite nth_list_update nth_Cons split: nat.split)
  then show ?thesis by (auto simp: st16_def wp)
qed

lemma okay_st32 [wp]:
  "okay (st32 p i v) P \<longleftrightarrow> i + 3 < length p \<and>
     P (overwrite i [ucast v, ucast (drop_bit 8 v), ucast (drop_bit 16 v), ucast (drop_bit 24 v)] p)"
proof -
  have "p[i := a, i + 1 := b, i + 2 := c, i + 3 := d] = overwrite i [a, b, c, d] p" if "i + 3 < length p" for a b c d
  proof (rule nth_equalityI)
    fix k assume "k < length (p[i := a, i + 1 := b, i + 2 := c, i + 3 := d])"
    then show "p[i := a, i + 1 := b, i + 2 := c, i + 3 := d] ! k = overwrite i [a, b, c, d] p ! k"
      using that by (cases "i \<le> k \<and> k < i + 4"; cases "k - i" rule: nat.exhaust)
        (auto simp: nth_overwrite nth_list_update nth_Cons less_Suc_eq numeral_eq_Suc split: nat.split)
  qed (use that in simp)
  then show ?thesis by (auto simp: st32_def wp)
qed

subsection \<open>Helpers of the code\<close>

definition net_bswap16 :: "u16 \<Rightarrow> u16" where
  "net_bswap16 v = push_bit 8 v OR drop_bit 8 v"

definition net_bswap32 :: "u32 \<Rightarrow> u32" where
  "net_bswap32 v = push_bit 24 (v AND 0x000000FF) OR push_bit 8 (v AND 0x0000FF00) OR
     drop_bit 8 (v AND 0x00FF0000) OR drop_bit 24 (v AND 0xFF000000)"

definition net_htons :: "u16 \<Rightarrow> u16" where "net_htons v = net_bswap16 v"
definition net_ntohs :: "u16 \<Rightarrow> u16" where "net_ntohs v = net_bswap16 v"
definition net_htonl :: "u32 \<Rightarrow> u32" where "net_htonl v = net_bswap32 v"
definition net_ntohl :: "u32 \<Rightarrow> u32" where "net_ntohl v = net_bswap32 v"

text \<open>\<open>net_copy dst i src j n\<close> copies \<open>n\<close> bytes from offset \<open>j\<close> of \<open>src\<close> to offset \<open>i\<close> of \<open>dst\<close>, upwards.\<close>

fun net_copy :: "bytes \<Rightarrow> nat \<Rightarrow> bytes \<Rightarrow> nat \<Rightarrow> nat \<Rightarrow> bytes option" where
  "net_copy dst i src j 0 = Some dst"
| "net_copy dst i src j (Suc n) = do { b \<leftarrow> ld8 src j; dst \<leftarrow> st8 dst i b; net_copy dst (i + 1) src (j + 1) n }"

lemma okay_net_copy [wp]:
  "okay (net_copy dst i src j n) P \<longleftrightarrow>
     (n = 0 \<or> i + n \<le> length dst \<and> j + n \<le> length src) \<and> P (overwrite i (slice j n src) dst)"
proof (induction n arbitrary: dst i j)
  case 0
  then show ?case by (simp add: wp slice_def)
next
  case (Suc n)
  have "overwrite (Suc i) (slice (Suc j) n src) (dst[i := src ! j]) = overwrite i (slice j (Suc n) src) dst"
    if "i + Suc n \<le> length dst" "j + Suc n \<le> length src"
    using that by (intro nth_equalityI) (auto simp: nth_overwrite nth_slice nth_list_update Suc_diff_Suc nth_Cons
        intro!: arg_cong [of _ _ "(!) src"] split: nat.splits)
  then show ?case using Suc.IH by (cases n) (auto simp: wp slice_def)
qed

fun net_starts_with :: "bytes \<Rightarrow> bytes \<Rightarrow> bool" where
  "net_starts_with s [] = True"
| "net_starts_with [] (p # ps) = False"
| "net_starts_with (c # s) (p # ps) = (if c \<noteq> p then False else net_starts_with s ps)"

definition net_tcp_seq_before :: "u32 \<Rightarrow> u32 \<Rightarrow> bool" where
  "net_tcp_seq_before a b \<longleftrightarrow> sint (a - b) < 0"

definition net_tcp_seq_after :: "u32 \<Rightarrow> u32 \<Rightarrow> bool" where
  "net_tcp_seq_after a b \<longleftrightarrow> sint (a - b) > 0"

subsection \<open>Byte order\<close>

lemma bswap16_twice [simp]: "net_bswap16 (net_bswap16 v) = v"
  by (rule bit_word_eqI) (auto simp: net_bswap16_def bit_simps dest: bit_imp_le_length)

definition be16_at :: "bytes \<Rightarrow> nat \<Rightarrow> u16" where
  "be16_at p i = push_bit 8 (ucast (p ! i)) OR ucast (p ! (i + 1))"

definition be32_at :: "bytes \<Rightarrow> nat \<Rightarrow> u32" where
  "be32_at p i = push_bit 24 (ucast (p ! i)) OR push_bit 16 (ucast (p ! (i + 1))) OR
     push_bit 8 (ucast (p ! (i + 2))) OR ucast (p ! (i + 3))"

definition be16 :: "u16 \<Rightarrow> bytes" where
  "be16 v = [ucast (drop_bit 8 v), ucast v]"

definition be32 :: "u32 \<Rightarrow> bytes" where
  "be32 v = [ucast (drop_bit 24 v), ucast (drop_bit 16 v), ucast (drop_bit 8 v), ucast v]"

lemma length_be [simp]: "length (be16 v) = 2" "length (be32 w) = 4"
  by (simp_all add: be16_def be32_def)

lemma ntohs_le16 [codec_simps]: "net_ntohs (le16_at p i) = be16_at p i"
  by (rule bit_word_eqI) (auto simp: net_ntohs_def net_bswap16_def le16_at_def be16_at_def bit_simps byte_high)

lemma byte_masks: "(0xFF00 :: u32) = push_bit 8 (mask 8)" "(0xFF0000 :: u32) = push_bit 16 (mask 8)"
    "(0xFF000000 :: u32) = push_bit 24 (mask 8)"
  by (simp_all add: mask_eq_exp_minus_1 push_bit_eq_mult)

lemma bit_bswap32:
  assumes "k < 8"
  shows "bit (net_bswap32 v) k = bit v (24 + k)" "bit (net_bswap32 v) (8 + k) = bit v (16 + k)"
    "bit (net_bswap32 v) (16 + k) = bit v (8 + k)" "bit (net_bswap32 v) (24 + k) = bit v k"
  using assms by (auto simp: net_bswap32_def mask8 byte_masks bit_simps dest: bit_imp_le_length)

lemma ntohl_le32 [codec_simps]: "net_ntohl (le32_at p i) = be32_at p i"
proof (rule bit_word_eqI)
  fix n assume "n < LENGTH(32)"
  then have "n < 32" by simp
  then show "bit (net_ntohl (le32_at p i)) n = bit (be32_at p i) n"
    by (cases rule: byte_position_cases) (auto simp: net_ntohl_def bit_bswap32 le32_at_def be32_at_def bit_simps byte_high)
qed

lemma htons_bytes [codec_simps]: "[ucast (net_htons v), ucast (drop_bit 8 (net_htons v))] = be16 v"
  by (auto simp: net_htons_def net_bswap16_def be16_def bit_simps intro!: bit_word_eqI dest: bit_imp_le_length)

lemma htonl_bytes [codec_simps]:
  "[ucast (net_htonl v), ucast (drop_bit 8 (net_htonl v)), ucast (drop_bit 16 (net_htonl v)), ucast (drop_bit 24 (net_htonl v))] = be32 v"
  by (auto simp: net_htonl_def be32_def bit_simps bit_bswap32 intro!: bit_word_eqI)

lemma be16_at_be16 [codec_simps]: "be16_at (be16 v) 0 = v"
  by (rule bit_word_eqI) (auto simp: be16_at_def be16_def bit_simps dest: bit_imp_le_length)

lemma be32_at_be32 [codec_simps]: "be32_at (be32 v) 0 = v"
proof (rule bit_word_eqI)
  fix n assume "n < LENGTH(32)"
  then have "n < 32" by simp
  then show "bit (be32_at (be32 v) 0) n = bit v n"
    by (cases rule: byte_position_cases) (auto simp: be32_at_def be32_def bit_simps)
qed

subsection \<open>Internet checksum\<close>

lemma unat_fold_step:
  fixes t :: u32
  shows "unat ((t AND 0xFFFF) + drop_bit 16 t) = unat t mod 65536 + unat t div 65536"
    "unat (drop_bit 16 t) = unat t div 65536"
proof -
  have m: "(0xFFFF :: u32) = mask 16" by (simp add: mask_eq_exp_minus_1)
  have a: "unat (t AND 0xFFFF) = unat t mod 65536"
    unfolding m by (simp add: take_bit_eq_mod unat_mod flip: take_bit_eq_mask)
  show b: "unat (drop_bit 16 t) = unat t div 65536" by (simp add: drop_bit_eq_div unat_div)
  have "unat t div 65536 < 65536" using unat_u32_bound [of t] by (simp add: div_less_iff_less_mult)
  moreover have "unat t mod 65536 < 65536" by simp
  ultimately have "unat t mod 65536 + unat t div 65536 < 131072" by linarith
  then have "unat t mod 65536 + unat t div 65536 < 2 ^ 32" by simp
  then show "unat ((t AND 0xFFFF) + drop_bit 16 t) = unat t mod 65536 + unat t div 65536"
    using a b by (simp add: unat_word_ariths)
qed

lemma fold_step_less:
  fixes t :: u32
  assumes "drop_bit 16 t \<noteq> 0"
  shows "unat ((t AND 0xFFFF) + drop_bit 16 t) < unat t"
proof -
  have "unat (drop_bit 16 t) \<noteq> 0" using assms by (simp add: unat_eq_zero)
  then have "0 < unat t div 65536" by (simp add: unat_fold_step(2))
  moreover have "unat t = unat t div 65536 * 65536 + unat t mod 65536" by simp
  ultimately show ?thesis unfolding unat_fold_step(1) by linarith
qed

function net_checksum_fold :: "u32 \<Rightarrow> u32" where
  "net_checksum_fold acc =
     (if drop_bit 16 acc \<noteq> 0 then net_checksum_fold ((acc AND 0xFFFF) + drop_bit 16 acc) else acc)"
  by pat_completeness auto
termination
  by (relation "measure unat") (use fold_step_less in auto)

declare net_checksum_fold.simps [simp del]

definition net_checksum_finish :: "u32 \<Rightarrow> u16" where
  "net_checksum_finish acc = ucast (NOT (net_checksum_fold acc))"

fun net_checksum_add :: "u32 \<Rightarrow> bytes \<Rightarrow> u32" where
  "net_checksum_add acc (a # b # p) = net_checksum_add (acc + (push_bit 8 (ucast a) OR ucast b)) p"
| "net_checksum_add acc [a] = acc + push_bit 8 (ucast a)"
| "net_checksum_add acc [] = acc"

definition net_checksum :: "bytes \<Rightarrow> u16" where
  "net_checksum p = net_checksum_finish (net_checksum_add 0 p)"

lemma checksum_fold:
  "unat (net_checksum_fold t) mod 65535 = unat t mod 65535" "unat (net_checksum_fold t) < 65536"
  "net_checksum_fold t = 0 \<longleftrightarrow> t = 0"
proof -
  have "unat (net_checksum_fold t) mod 65535 = unat t mod 65535 \<and> unat (net_checksum_fold t) < 65536 \<and>
    (net_checksum_fold t = 0 \<longleftrightarrow> t = 0)"
  proof (induction t rule: net_checksum_fold.induct)
    case (1 t)
    show ?case
    proof (cases "drop_bit 16 t = 0")
      case True
      then have "unat t div 65536 = 0" using unat_fold_step(2) [of t] by simp
      then show ?thesis using True by (simp add: net_checksum_fold.simps [of t] div_eq_0_iff)
    next
      case False
      let ?t' = "(t AND 0xFFFF) + drop_bit 16 t"
      have e: "unat t = unat t div 65536 * 65536 + unat t mod 65536" by simp
      then have "unat t = unat ?t' + unat t div 65536 * 65535" unfolding unat_fold_step(1) by linarith
      then have "unat t mod 65535 = unat ?t' mod 65535" by (metis mod_mult_self1)
      moreover have "?t' \<noteq> 0"
      proof
        assume "?t' = 0"
        then have "unat t mod 65536 + unat t div 65536 = 0" using unat_fold_step(1) [of t] by simp
        then show False using False unat_fold_step(2) [of t] by (simp add: unat_eq_zero)
      qed
      moreover have "t \<noteq> 0" using False by auto
      ultimately show ?thesis using "1.IH" [OF False] False by (subst (1 2 3) net_checksum_fold.simps) simp
    qed
  qed
  then show "unat (net_checksum_fold t) mod 65535 = unat t mod 65535" "unat (net_checksum_fold t) < 65536"
    "net_checksum_fold t = 0 \<longleftrightarrow> t = 0" by auto
qed

lemma checksum_finish: "unat (net_checksum_finish t) = 65535 - unat (net_checksum_fold t)"
proof -
  have "unat (ucast (NOT w) :: u16) = 65535 - unat w" if "unat w < 65536" for w :: u32
  proof -
    have "(ucast (NOT w) :: u16) = NOT (ucast w)" by (rule bit_word_eqI) (simp add: bit_simps)
    moreover have "unat (ucast w :: u16) = unat w" using that by (simp add: unsigned_ucast_eq take_bit_nat_eq_self)
    moreover have "NOT y = -1 - y" for y :: u16 by (simp add: not_eq_complement)
    moreover have "unat (-1 - y) = 65535 - unat y" for y :: u16
      using unat_sub [of y "-1"] by (simp add: unsigned_minus_1_eq_mask mask_eq_exp_minus_1)
    ultimately show ?thesis by simp
  qed
  then show ?thesis using checksum_fold(2) by (simp add: net_checksum_finish_def)
qed

fun word_sum :: "bytes \<Rightarrow> nat" where
  "word_sum (a # b # p) = unat a * 256 + unat b + word_sum p"
| "word_sum [a] = unat a * 256"
| "word_sum [] = 0"

lemma byte_bound: "unat (a :: u8) < 256"
  using unsigned_less [of a] by simp

lemma word_sum_bound: "word_sum p \<le> length p * 65535"
proof (induction p rule: word_sum.induct)
  case (1 a b p)
  then show ?case using byte_bound [of a] byte_bound [of b] by simp
next
  case (2 a)
  then show ?case using byte_bound [of a] by simp
qed simp

lemma unat_be_word: "unat (push_bit 8 (ucast a) OR ucast b :: u32) = unat (a :: u8) * 256 + unat (b :: u8)"
proof -
  have "push_bit 8 (ucast a) OR ucast b = (push_bit 8 (ucast a) + ucast b :: u32)"
    by (rule disjunctive_add [symmetric]) (auto simp: bit_simps byte_high)
  moreover have "unat (push_bit 8 (ucast a) :: u32) = unat a * 256" "unat (ucast b :: u32) = unat b"
    using byte_bound [of a] byte_bound [of b] by (simp_all add: push_bit_eq_mult unat_word_ariths unsigned_ucast_eq take_bit_nat_eq_self)
  ultimately show ?thesis using byte_bound [of a] byte_bound [of b] by (simp add: unat_word_ariths)
qed

lemma unat_be_word_1: "unat (push_bit 8 (ucast a) :: u32) = unat (a :: u8) * 256"
  using unat_be_word [of a 0] by simp

lemma checksum_add:
  "unat acc + word_sum p < 2 ^ 32 \<Longrightarrow> unat (net_checksum_add acc p) = unat acc + word_sum p"
proof (induction acc p rule: net_checksum_add.induct)
  case (1 acc a b p)
  let ?w = "push_bit 8 (ucast a) OR ucast b :: u32"
  have "unat (acc + ?w) = unat acc + unat ?w" using "1.prems" unat_be_word [of a b] by (simp add: unat_word_ariths)
  then show ?case using "1.IH" "1.prems" unat_be_word [of a b] by simp
next
  case (2 acc a)
  then show ?case using unat_be_word_1 [of a] by (simp add: unat_word_ariths)
qed simp

lemma word_sum_overwrite:
  assumes "even i" and "i + 1 < length p" and "p ! i = 0" and "p ! (i + 1) = 0"
  shows "word_sum (overwrite i [a, b] p) = word_sum p + unat a * 256 + unat b"
  using assms
proof (induction p arbitrary: i rule: word_sum.induct)
  case (1 x y p)
  show ?case
  proof (cases "i = 0")
    case True
    then show ?thesis using "1.prems" by (simp add: overwrite_def)
  next
    case False
    then obtain j where j: "i = Suc (Suc j)" using "1.prems"(1) by (cases i; cases "i - 1") auto
    then have "overwrite i [a, b] (x # y # p) = x # y # overwrite j [a, b] p" by (simp add: overwrite_def)
    then show ?thesis using "1.IH" [of j] "1.prems" j by simp
  qed
qed simp_all

lemma multiple_65535:
  fixes x :: nat
  assumes "x \<noteq> 0" and "x mod 65535 = 0" and "x < 65536"
  shows "x = 65535"
proof -
  obtain k where k: "x = 65535 * k" using assms(2) by (auto simp: mod_eq_0_iff_dvd elim: dvdE)
  then have "k = 1" using assms(1,3) by auto
  then show ?thesis using k by simp
qed

text \<open>Storing the checksum into the field that was zero makes the checksum of the whole zero.\<close>

lemma checksum_verifies:
  assumes "even i" and "i + 1 < length p" and "p ! i = 0" and "p ! (i + 1) = 0" and "length p \<le> 65000" and "unat acc < 2 ^ 20"
  shows "net_checksum_finish (net_checksum_add acc (overwrite i (be16 (net_checksum_finish (net_checksum_add acc p))) p)) = 0"
proof -
  let ?t = "net_checksum_add acc p"
  let ?c = "net_checksum_finish ?t"
  let ?f = "net_checksum_fold ?t"
  let ?t' = "net_checksum_add acc (overwrite i (be16 ?c) p)"
  have "word_sum p \<le> 65000 * 65535" using word_sum_bound [of p] mult_le_mono1 [OF assms(5), of 65535] by linarith
  then have small: "unat acc + word_sum p + 65535 < 2 ^ 32" using assms(6) by simp
  then have t: "unat ?t = unat acc + word_sum p" using checksum_add [of acc p] by simp
  have c: "unat (ucast (drop_bit 8 ?c) :: u8) * 256 + unat (ucast ?c :: u8) = unat ?c"
  proof -
    have "unat (ucast ?c :: u8) = unat ?c mod 256" by (simp add: unsigned_ucast_eq take_bit_eq_mod)
    moreover have "unat ?c div 256 < 256" using unsigned_less [of ?c] by (simp add: div_less_iff_less_mult)
    then have "unat (ucast (drop_bit 8 ?c) :: u8) = unat ?c div 256"
      by (simp add: unsigned_ucast_eq take_bit_nat_eq_self drop_bit_eq_div unat_div)
    ultimately show ?thesis by simp
  qed
  have "word_sum (overwrite i (be16 ?c) p) = word_sum p + unat ?c"
    using word_sum_overwrite [OF assms(1-4), of "ucast (drop_bit 8 ?c)" "ucast ?c"] c by (simp add: be16_def)
  moreover have f: "unat ?c = 65535 - unat ?f" "unat ?f < 65536" "unat ?f mod 65535 = unat ?t mod 65535" "?f = 0 \<longleftrightarrow> ?t = 0"
    using checksum_finish checksum_fold by auto
  ultimately have t': "unat ?t' = unat ?t + (65535 - unat ?f)" using checksum_add [of acc "overwrite i (be16 ?c) p"] small t by simp
  have "(unat ?t + (65535 - unat ?f)) mod 65535 = (unat ?f + (65535 - unat ?f)) mod 65535"
    by (rule mod_add_cong) (simp_all add: f(3))
  then have m: "unat ?t' mod 65535 = 0" using f(2) t' by simp
  have "?t' \<noteq> 0"
  proof
    assume "?t' = 0"
    then have "unat ?t = 0" "65535 - unat ?f = 0" using t' by simp_all
    then have "?t = 0" by (simp add: unat_eq_zero)
    then show False using f(4) \<open>65535 - unat ?f = 0\<close> by simp
  qed
  then have "unat (net_checksum_fold ?t') \<noteq> 0" "unat (net_checksum_fold ?t') mod 65535 = 0" "unat (net_checksum_fold ?t') < 65536"
    using checksum_fold [of ?t'] m by (simp_all add: unat_eq_zero)
  then have "unat (net_checksum_fold ?t') = 65535" by (intro multiple_65535)
  then have "unat (net_checksum_finish ?t') = 0" using checksum_finish [of ?t'] by simp
  then show ?thesis by (simp add: unat_eq_zero)
qed

end
