(* ===== verification/Net_State.thy ===== *)
theory Net_State
  imports Net_Bytes
begin

text \<open>
  The state of the network stack: the static variables of \<^verbatim>\<open>net.c\<close>, with the structures of \<^verbatim>\<open>net.h\<close>, and the table of devices.
  A device driver is known to the stack by two function pointers. Here they are functions on the world of the
  drivers, of type \<^typ>\<open>'w\<close>: sending a frame gives the calls the driver makes back into the counters of the stack, a status and a new world; polling
  is a run in which the driver reports events, among them the received frames, one after the other, each time going on from the world the stack
  has left, and in the end returns. Buffers that
  callers lend to the stack (\<^verbatim>\<open>rx_buffer\<close>, \<^verbatim>\<open>out\<close>) are part of the state while they are lent.
\<close>

abbreviation NET_MAX_DEVICES :: nat where "NET_MAX_DEVICES \<equiv> 4"
abbreviation NET_MIN_FRAME_SIZE :: u32 where "NET_MIN_FRAME_SIZE \<equiv> 60"
abbreviation NET_MAX_FRAME_SIZE :: u32 where "NET_MAX_FRAME_SIZE \<equiv> 1518"
abbreviation NET_DNS_NAME_SIZE :: nat where "NET_DNS_NAME_SIZE \<equiv> 128"

datatype counter_event = Link bool | Rx_drop | Tx | Tx_error
datatype poll_event = Counter counter_event | Frame bytes
datatype 'w poll_run = Returns int 'w | Reports poll_event 'w "'w \<Rightarrow> 'w poll_run"

record 'w net_device =
  nd_present :: bool
  nd_name :: bytes
  nd_driver :: bytes
  nd_mac :: bytes
  nd_vendor_id :: u16
  nd_device_id :: u16
  nd_link_up :: bool
  nd_rx_packets :: u64
  nd_tx_packets :: u64
  nd_rx_dropped :: u64
  nd_tx_errors :: u64
  nd_send_frame :: "bytes \<Rightarrow> 'w \<Rightarrow> counter_event list \<times> int \<times> 'w"
  nd_poll :: "'w \<Rightarrow> 'w poll_run"

record net_debug_info =
  di_rx_arp :: u64
  di_rx_ipv4 :: u64
  di_rx_udp :: u64
  di_rx_other :: u64
  di_arp_requests :: u64
  di_arp_replies :: u64
  di_arp_mismatches :: u64
  di_arp_tx_errors :: u64
  di_udp_tx_errors :: u64
  di_dhcp_tx :: u64
  di_dhcp_rx :: u64
  di_dns_tx :: u64
  di_dns_rx :: u64
  di_last_eth_type :: u16
  di_last_inner_eth_type :: u16
  di_last_arp_op :: u16
  di_last_arp_requested_ip :: u32
  di_last_arp_sender_ip :: u32
  di_last_arp_target_ip :: u32
  di_tcp_stream_rx :: u64
  di_tcp_stream_tx :: u64
  di_tcp_stream_retx :: u64
  di_tcp_stream_last_state :: u32
  di_tcp_stream_last_error :: u32
  di_tls_last_state :: u32
  di_tls_last_error :: u32
  di_tls_last_got :: u32
  di_tls_last_body_size :: u32

record net_http_info =
  hi_status_code :: u32
  hi_content_length :: u32
  hi_body_size :: u32
  hi_header_size :: u32
  hi_flags :: u32
  hi_error :: int
  hi_tls_error :: u32
  hi_content_type :: bytes
  hi_location :: bytes

record net_arp_wait =
  aw_active :: bool
  aw_device :: u32
  aw_wanted_ip :: u32
  aw_mac :: bytes
  aw_found :: bool

record net_tcp_get =
  tg_active :: bool
  tg_device :: u32
  tg_remote_ip :: u32
  tg_local_port :: u16
  tg_remote_port :: u16
  tg_seq :: u32
  tg_ack :: u32
  tg_remote_mac :: bytes
  tg_connected :: bool
  tg_closed :: bool
  tg_reset :: bool
  tg_out :: bytes
  tg_out_capacity :: u32
  tg_out_size :: u32
  tg_header_done :: bool
  tg_full :: bool
  tg_header :: bytes
  tg_header_size :: u32
  tg_header_truncated :: bool
  tg_info :: "net_http_info option"
  tg_header_tail :: bytes
  tg_header_tail_count :: u32

record net_tcp_stream =
  ts_active :: bool
  ts_device :: u32
  ts_remote_ip :: u32
  ts_local_port :: u16
  ts_remote_port :: u16
  ts_seq :: u32
  ts_ack :: u32
  ts_tx_acked :: u32
  ts_remote_mac :: bytes
  ts_connected :: bool
  ts_closed :: bool
  ts_reset :: bool
  ts_rx_buffer :: bytes
  ts_rx_capacity :: u32
  ts_rx_size :: u32

record net_dhcp_wait =
  dh_active :: bool
  dh_device :: u32
  dh_xid :: u32
  dh_wanted_type :: u8
  dh_found :: bool
  dh_offered_ip :: u32
  dh_server_ip :: u32
  dh_subnet_mask :: u32
  dh_router :: u32
  dh_dns :: u32

record net_dns_wait =
  dn_active :: bool
  dn_device :: u32
  dn_id :: u16
  dn_local_port :: u16
  dn_found :: bool
  dn_cname_found :: bool
  dn_ip :: u32
  dn_cname :: bytes

record 'w net =
  net_devices :: "'w net_device list"
  device_count :: u32
  arp_wait :: net_arp_wait
  tcp_get :: net_tcp_get
  tcp_stream :: net_tcp_stream
  dhcp_wait :: net_dhcp_wait
  dns_wait :: net_dns_wait
  next_ip_id :: u16
  next_local_port :: u16
  local_ip :: u32
  local_netmask :: u32
  local_gateway :: u32
  local_dns :: u32
  debug_info :: net_debug_info
  net_poll_lock :: bool
  net_ticks_read :: nat
  net_world :: 'w

subsection \<open>Configuration\<close>

definition net_set_ipv4_config :: "u32 \<Rightarrow> u32 \<Rightarrow> u32 \<Rightarrow> 'w net \<Rightarrow> 'w net" where
  "net_set_ipv4_config address netmask gateway s =
     s\<lparr>local_ip := address, local_netmask := netmask, local_gateway := gateway\<rparr>"

definition net_set_dns_server :: "u32 \<Rightarrow> 'w net \<Rightarrow> 'w net" where
  "net_set_dns_server dns s = s\<lparr>local_dns := dns\<rparr>"

subsection \<open>Devices\<close>

text \<open>The loop of \<^verbatim>\<open>copy_name\<close> and \<^verbatim>\<open>copy_driver\<close>: a text cut to the array, with terminator.\<close>

fun copy_text :: "nat \<Rightarrow> nat \<Rightarrow> bytes \<Rightarrow> bytes" where
  "copy_text n i [] = [0]"
| "copy_text n i (c # cs) = (if c \<noteq> 0 \<and> i + 1 < n then c # copy_text n (i + 1) cs else [0])"

definition net_copy_name :: "bytes \<Rightarrow> bytes \<Rightarrow> bytes" where
  "net_copy_name dst src = overwrite 0 (copy_text 8 0 src) dst"

definition net_copy_driver :: "bytes \<Rightarrow> bytes \<Rightarrow> bytes" where
  "net_copy_driver dst src = overwrite 0 (copy_text 16 0 src) dst"

definition net_register_device :: "bytes option \<Rightarrow> bytes option \<Rightarrow> u16 \<Rightarrow> u16 \<Rightarrow> bytes option \<Rightarrow> bool \<Rightarrow>
    (bytes \<Rightarrow> 'w \<Rightarrow> counter_event list \<times> int \<times> 'w) option \<Rightarrow> ('w \<Rightarrow> 'w poll_run) option \<Rightarrow>
    'w net \<Rightarrow> int \<times> 'w net" where
  "net_register_device name driver vendor device mac up send poll s =
     (case (name, driver, mac, send, poll) of
        (Some name', Some driver', Some mac', Some send', Some poll') \<Rightarrow>
          if NET_MAX_DEVICES \<le> unat (device_count s) then (-1, s)
          else let index = device_count s; d = net_devices s ! unat index
               in (uint index, s\<lparr>device_count := index + 1, net_devices := (net_devices s)[unat index :=
                    \<lparr>nd_present = True, nd_name = net_copy_name (nd_name d) name', nd_driver = net_copy_driver (nd_driver d) driver',
                     nd_mac = take 6 mac', nd_vendor_id = vendor, nd_device_id = device, nd_link_up = up,
                     nd_rx_packets = 0, nd_tx_packets = 0, nd_rx_dropped = 0, nd_tx_errors = 0,
                     nd_send_frame = send', nd_poll = poll'\<rparr>]\<rparr>)
      | _ \<Rightarrow> (-1, s))"

definition net_get_device :: "u32 \<Rightarrow> 'w net \<Rightarrow> 'w net_device option" where
  "net_get_device index s =
     (if device_count s \<le> index \<or> \<not> nd_present (net_devices s ! unat index) then None
      else Some (net_devices s ! unat index))"

definition update_device :: "u32 \<Rightarrow> ('w net_device \<Rightarrow> 'w net_device) \<Rightarrow> 'w net \<Rightarrow> 'w net" where
  "update_device index f s =
     (case net_get_device index s of
        None \<Rightarrow> s
      | Some d \<Rightarrow> s\<lparr>net_devices := (net_devices s)[unat index := f d]\<rparr>)"

definition net_set_link :: "u32 \<Rightarrow> bool \<Rightarrow> 'w net \<Rightarrow> 'w net" where
  "net_set_link index up = update_device index (\<lambda>d. d\<lparr>nd_link_up := up\<rparr>)"

definition net_record_rx :: "u32 \<Rightarrow> 'w net \<Rightarrow> 'w net" where
  "net_record_rx index = update_device index (\<lambda>d. d\<lparr>nd_rx_packets := nd_rx_packets d + 1\<rparr>)"

definition net_record_rx_drop :: "u32 \<Rightarrow> 'w net \<Rightarrow> 'w net" where
  "net_record_rx_drop index = update_device index (\<lambda>d. d\<lparr>nd_rx_dropped := nd_rx_dropped d + 1\<rparr>)"

definition net_record_tx :: "u32 \<Rightarrow> 'w net \<Rightarrow> 'w net" where
  "net_record_tx index = update_device index (\<lambda>d. d\<lparr>nd_tx_packets := nd_tx_packets d + 1\<rparr>)"

definition net_record_tx_error :: "u32 \<Rightarrow> 'w net \<Rightarrow> 'w net" where
  "net_record_tx_error index = update_device index (\<lambda>d. d\<lparr>nd_tx_errors := nd_tx_errors d + 1\<rparr>)"

text \<open>What a driver reports back while it sends or polls.\<close>

fun apply_counter :: "u32 \<Rightarrow> counter_event \<Rightarrow> 'w net \<Rightarrow> 'w net" where
  "apply_counter index (Link up) s = net_set_link index up s"
| "apply_counter index Rx_drop s = net_record_rx_drop index s"
| "apply_counter index Tx s = net_record_tx index s"
| "apply_counter index Tx_error s = net_record_tx_error index s"

definition net_send_frame :: "u32 \<Rightarrow> bytes \<Rightarrow> u32 \<Rightarrow> 'w net \<Rightarrow> (int \<times> 'w net) option" where
  "net_send_frame index data sz s =
     (case net_get_device index s of
        None \<Rightarrow> Some (-1, s)
      | Some dev \<Rightarrow>
          if sz < NET_MIN_FRAME_SIZE \<or> NET_MAX_FRAME_SIZE < sz then Some (-1, s)
          else if length data < unat sz then None
          else let (events, status, w) = nd_send_frame dev (take (unat sz) data) (net_world s)
               in Some (status, fold (apply_counter index) events (s\<lparr>net_world := w\<rparr>)))"

subsection \<open>Well-formed states\<close>

definition http_info_ok :: "net_http_info \<Rightarrow> bool" where
  "http_info_ok i \<longleftrightarrow> length (hi_content_type i) = 64 \<and> length (hi_location i) = 1024"

definition tcp_get_ok :: "net_tcp_get \<Rightarrow> bool" where
  "tcp_get_ok g \<longleftrightarrow> length (tg_remote_mac g) = 6 \<and> length (tg_header g) = 1024 \<and> unat (tg_header_size g) < 1024 \<and>
     length (tg_header_tail g) = 4 \<and> unat (tg_header_tail_count g) \<le> 4 \<and>
     (tg_active g \<longrightarrow> tg_out_size g < tg_out_capacity g \<and> unat (tg_out_capacity g) \<le> length (tg_out g)) \<and>
     (case tg_info g of None \<Rightarrow> True | Some i \<Rightarrow> http_info_ok i)"

definition tcp_stream_ok :: "net_tcp_stream \<Rightarrow> bool" where
  "tcp_stream_ok t \<longleftrightarrow> length (ts_remote_mac t) = 6 \<and>
     (ts_active t \<longrightarrow> ts_rx_size t \<le> ts_rx_capacity t \<and> unat (ts_rx_capacity t) \<le> length (ts_rx_buffer t))"

definition devices_ok :: "'w net \<Rightarrow> bool" where
  "devices_ok s \<longleftrightarrow> length (net_devices s) = NET_MAX_DEVICES \<and> unat (device_count s) \<le> NET_MAX_DEVICES \<and>
     (\<forall>i < unat (device_count s). length (nd_mac (net_devices s ! i)) = 6)"

definition dns_wait_ok :: "net_dns_wait \<Rightarrow> bool" where
  "dns_wait_ok w \<longleftrightarrow> length (dn_cname w) = NET_DNS_NAME_SIZE \<and> dn_cname w ! 127 = 0"

definition net_ok :: "'w net \<Rightarrow> bool" where
  "net_ok s \<longleftrightarrow> devices_ok s \<and> length (aw_mac (arp_wait s)) = 6 \<and> tcp_get_ok (tcp_get s) \<and>
     tcp_stream_ok (tcp_stream s) \<and> dns_wait_ok (dns_wait s)"

text \<open>What sending and counting leave alone: everything but device counters and the world.\<close>

definition stack_part :: "'w net \<Rightarrow> _" where
  "stack_part s = (map nd_mac (net_devices s), map nd_present (net_devices s), device_count s, arp_wait s, tcp_get s, tcp_stream s,
     dhcp_wait s, dns_wait s, next_local_port s, local_ip s, local_netmask s, local_gateway s, local_dns s,
     net_poll_lock s, net_ticks_read s)"

definition same_stack :: "'w net \<Rightarrow> 'w net \<Rightarrow> bool" where
  "same_stack s s' \<longleftrightarrow> stack_part s' = stack_part s"

lemma same_stack_refl [simp]: "same_stack s s"
  by (simp add: same_stack_def)

lemma same_stack_trans: "same_stack a b \<Longrightarrow> same_stack b c \<Longrightarrow> same_stack a c"
  by (simp add: same_stack_def)

lemma same_stack_fields:
  assumes "same_stack s s'"
  shows "device_count s' = device_count s" "arp_wait s' = arp_wait s" "tcp_get s' = tcp_get s" "tcp_stream s' = tcp_stream s"
    "dhcp_wait s' = dhcp_wait s" "dns_wait s' = dns_wait s" "next_local_port s' = next_local_port s" "local_ip s' = local_ip s"
    "local_netmask s' = local_netmask s" "local_gateway s' = local_gateway s" "local_dns s' = local_dns s"
    "map nd_mac (net_devices s') = map nd_mac (net_devices s)" "map nd_present (net_devices s') = map nd_present (net_devices s)"
    "net_poll_lock s' = net_poll_lock s" "net_ticks_read s' = net_ticks_read s"
  using assms by (simp_all add: same_stack_def stack_part_def)

lemma devices_ok_macs: "devices_ok s \<longleftrightarrow> length (map nd_mac (net_devices s)) = NET_MAX_DEVICES \<and>
    unat (device_count s) \<le> NET_MAX_DEVICES \<and> (\<forall>i < unat (device_count s). length (map nd_mac (net_devices s) ! i) = 6)"
  by (auto simp: devices_ok_def)

lemma same_stack_ok: "same_stack s s' \<Longrightarrow> net_ok s' \<longleftrightarrow> net_ok s"
  by (simp add: net_ok_def devices_ok_macs same_stack_fields)

lemma same_stack_debug [simp]: "same_stack s (s\<lparr>debug_info := d\<rparr>)" "same_stack s (s\<lparr>next_ip_id := i\<rparr>)" "same_stack s (s\<lparr>net_world := w\<rparr>)"
  by (simp_all add: same_stack_def stack_part_def)

lemma update_device_same:
  assumes "\<And>d. nd_mac (f d) = nd_mac d" and "\<And>d. nd_present (f d) = nd_present d"
  shows "same_stack s (update_device index f s)"
proof (cases "unat index < length (net_devices s)")
  case True
  then show ?thesis
    using assms by (auto simp: update_device_def net_get_device_def same_stack_def stack_part_def list_eq_iff_nth_eq nth_list_update)
qed (simp add: update_device_def net_get_device_def same_stack_def stack_part_def list_update_beyond)

lemma counters_same: "same_stack s (apply_counter index e s)"
  by (cases e) (simp_all add: net_set_link_def net_record_rx_drop_def net_record_tx_def net_record_tx_error_def update_device_same)

lemma counters_fold_same: "same_stack s (fold (apply_counter index) es s)"
  by (induction es arbitrary: s) (auto intro: same_stack_trans counters_same)

lemma record_rx_same: "same_stack s (net_record_rx index s)"
  by (simp add: net_record_rx_def update_device_same)

lemma okay_send_frame:
  assumes "unat sz \<le> length data"
  shows "okay (net_send_frame index data sz s) (\<lambda>(r, s'). same_stack s s')"
  using assms same_stack_trans [OF same_stack_debug(3) counters_fold_same]
  by (auto simp: net_send_frame_def okay_def split: option.splits prod.splits)

lemma get_device_mac: "devices_ok s \<Longrightarrow> net_get_device index s = Some d \<Longrightarrow> length (nd_mac d) = 6"
  by (auto simp: devices_ok_def net_get_device_def word_less_nat_alt not_le split: if_splits)

end
