(* ===== verification/Net_Send.thy ===== *)
theory Net_Send
  imports Net_State
begin

text \<open>
  Building and sending frames: ARP requests and replies, UDP datagrams and TCP segments, byte by byte at the offsets of the
  packed structures of \<^verbatim>\<open>net.c\<close>: Ethernet header at 0, IPv4 or ARP at 14, UDP or TCP at 34. Each function is shown to
  stay inside the frame and to send the frame that a plain description of the layout gives.
\<close>

abbreviation NET_ETH_TYPE_ARP :: u16 where "NET_ETH_TYPE_ARP \<equiv> 0x0806"
abbreviation NET_ETH_TYPE_IPV4 :: u16 where "NET_ETH_TYPE_IPV4 \<equiv> 0x0800"
abbreviation NET_ETH_TYPE_VLAN :: u16 where "NET_ETH_TYPE_VLAN \<equiv> 0x8100"
abbreviation NET_ETH_TYPE_QINQ :: u16 where "NET_ETH_TYPE_QINQ \<equiv> 0x88A8"
abbreviation NET_IP_PROTO_TCP :: u8 where "NET_IP_PROTO_TCP \<equiv> 6"
abbreviation NET_IP_PROTO_UDP :: u8 where "NET_IP_PROTO_UDP \<equiv> 17"
abbreviation NET_ARP_OP_REQUEST :: u16 where "NET_ARP_OP_REQUEST \<equiv> 1"
abbreviation NET_ARP_OP_REPLY :: u16 where "NET_ARP_OP_REPLY \<equiv> 2"
abbreviation NET_TCP_DEFAULT_WINDOW :: u16 where "NET_TCP_DEFAULT_WINDOW \<equiv> 4096"

definition ld_bytes :: "bytes \<Rightarrow> nat \<Rightarrow> nat \<Rightarrow> bytes option" where
  "ld_bytes p i n = (if i + n \<le> length p then Some (slice i n p) else None)"

lemma okay_ld_bytes [wp]: "okay (ld_bytes p i n) P \<longleftrightarrow> i + n \<le> length p \<and> P (slice i n p)"
  by (simp add: ld_bytes_def okay_def)

subsection \<open>ARP\<close>

definition arp_frame :: "bytes \<Rightarrow> bytes \<Rightarrow> u16 \<Rightarrow> u32 \<Rightarrow> bytes \<Rightarrow> u32 \<Rightarrow> bytes option" where
  "arp_frame dst mac oper spa tha tpa = do {
     f \<leftarrow> net_copy (replicate 60 0) 0 dst 0 6;
     f \<leftarrow> net_copy f 6 mac 0 6;
     f \<leftarrow> st16 f 12 (net_htons NET_ETH_TYPE_ARP);
     f \<leftarrow> st16 f 14 (net_htons 1);
     f \<leftarrow> st16 f 16 (net_htons NET_ETH_TYPE_IPV4);
     f \<leftarrow> st8 f 18 6;
     f \<leftarrow> st8 f 19 4;
     f \<leftarrow> st16 f 20 (net_htons oper);
     f \<leftarrow> net_copy f 22 mac 0 6;
     f \<leftarrow> st32 f 28 (net_htonl spa);
     f \<leftarrow> net_copy f 32 tha 0 6;
     st32 f 38 (net_htonl tpa) }"

definition net_send_arp_request :: "u32 \<Rightarrow> u32 \<Rightarrow> 'w net \<Rightarrow> (int \<times> 'w net) option" where
  "net_send_arp_request index target_ip s0 =
     (let s = debug_info_update (di_arp_requests_update (\<lambda>n. n + 1)) (debug_info_update (di_last_arp_requested_ip_update (\<lambda>_. target_ip)) s0)
      in case net_get_device index s of
        None \<Rightarrow> Some (-1, debug_info_update (di_arp_tx_errors_update (\<lambda>n. n + 1)) s)
      | Some dev \<Rightarrow> do {
          frame \<leftarrow> arp_frame (replicate 6 0xFF) (nd_mac dev) NET_ARP_OP_REQUEST (local_ip s) (replicate 6 0) target_ip;
          (st, s) \<leftarrow> net_send_frame index frame 60 s;
          if st \<noteq> 0 then Some (-1, debug_info_update (di_arp_tx_errors_update (\<lambda>n. n + 1)) s) else Some (0, s) })"

definition net_send_arp_reply :: "u32 \<Rightarrow> bytes \<Rightarrow> u32 \<Rightarrow> 'w net \<Rightarrow> (int \<times> 'w net) option" where
  "net_send_arp_reply index target_mac target_ip s =
     (case net_get_device index s of
        None \<Rightarrow> Some (-1, s)
      | Some dev \<Rightarrow> do {
          frame \<leftarrow> arp_frame target_mac (nd_mac dev) NET_ARP_OP_REPLY (local_ip s) target_mac target_ip;
          net_send_frame index frame 60 s })"

subsection \<open>IPv4 with UDP or TCP\<close>

definition ipv4_frame :: "bytes \<Rightarrow> bytes \<Rightarrow> u32 \<Rightarrow> u16 \<Rightarrow> u8 \<Rightarrow> u32 \<Rightarrow> u32 \<Rightarrow> bytes option" where
  "ipv4_frame dst_mac mac ip_size ip_id proto src dst = do {
     f \<leftarrow> net_copy (replicate 1518 0) 0 dst_mac 0 6;
     f \<leftarrow> net_copy f 6 mac 0 6;
     f \<leftarrow> st16 f 12 (net_htons NET_ETH_TYPE_IPV4);
     f \<leftarrow> st8 f 14 0x45;
     f \<leftarrow> st16 f 16 (net_htons (ucast ip_size));
     f \<leftarrow> st16 f 18 (net_htons ip_id);
     f \<leftarrow> st16 f 20 (net_htons 0x4000);
     f \<leftarrow> st8 f 22 64;
     f \<leftarrow> st8 f 23 proto;
     f \<leftarrow> st32 f 26 (net_htonl src);
     f \<leftarrow> st32 f 30 (net_htonl dst);
     header \<leftarrow> ld_bytes f 14 20;
     st16 f 24 (net_htons (net_checksum header)) }"

definition pseudo_header_sum :: "u32 \<Rightarrow> u32 \<Rightarrow> u32 \<Rightarrow> u32 \<Rightarrow> u32" where
  "pseudo_header_sum src dst proto len =
     0 + ucast (ucast (drop_bit 16 src) :: u16) + ucast (ucast (src AND 0xFFFF) :: u16) +
     ucast (ucast (drop_bit 16 dst) :: u16) + ucast (ucast (dst AND 0xFFFF) :: u16) + proto + len"

definition udp_frame :: "bytes \<Rightarrow> bytes \<Rightarrow> u32 \<Rightarrow> u32 \<Rightarrow> u16 \<Rightarrow> u16 \<Rightarrow> u16 \<Rightarrow> bytes \<Rightarrow> u32 \<Rightarrow> bytes option" where
  "udp_frame dst_mac mac src_ip dst_ip ip_id src_port dst_port payload payload_size =
     (let udp_size = 8 + payload_size; ip_size = 20 + udp_size
      in do {
        f \<leftarrow> ipv4_frame dst_mac mac ip_size ip_id NET_IP_PROTO_UDP src_ip dst_ip;
        f \<leftarrow> st16 f 34 (net_htons src_port);
        f \<leftarrow> st16 f 36 (net_htons dst_port);
        f \<leftarrow> st16 f 38 (net_htons (ucast udp_size));
        f \<leftarrow> st16 f 40 0;
        f \<leftarrow> (if payload_size \<noteq> 0 then net_copy f 42 payload 0 (unat payload_size) else Some f);
        udp \<leftarrow> ld_bytes f 34 (unat udp_size);
        st16 f 40 (net_htons (net_checksum_finish
          (net_checksum_add (pseudo_header_sum src_ip dst_ip (ucast NET_IP_PROTO_UDP) udp_size) udp))) })"

definition net_send_udp :: "u32 \<Rightarrow> bytes \<Rightarrow> u32 \<Rightarrow> u16 \<Rightarrow> u16 \<Rightarrow> bytes \<Rightarrow> u32 \<Rightarrow> 'w net \<Rightarrow> (int \<times> 'w net) option" where
  "net_send_udp index dst_mac dst_ip src_port dst_port payload payload_size s =
     (let frame_size = 14 + (20 + (8 + payload_size));
          fail = (\<lambda>s. Some (-1, debug_info_update (di_udp_tx_errors_update (\<lambda>n. n + 1)) s))
      in case net_get_device index s of
        None \<Rightarrow> fail s
      | Some dev \<Rightarrow>
          if NET_MAX_FRAME_SIZE < frame_size then fail s
          else do {
            f \<leftarrow> udp_frame dst_mac (nd_mac dev) (local_ip s) dst_ip (next_ip_id s) src_port dst_port payload payload_size;
            (st, s) \<leftarrow> net_send_frame index f (if frame_size < NET_MIN_FRAME_SIZE then NET_MIN_FRAME_SIZE else frame_size)
                        (s\<lparr>next_ip_id := next_ip_id s + 1\<rparr>);
            if st \<noteq> 0 then fail s else Some (0, s) })"

definition tcp_frame :: "bytes \<Rightarrow> bytes \<Rightarrow> u32 \<Rightarrow> u32 \<Rightarrow> u16 \<Rightarrow> u16 \<Rightarrow> u16 \<Rightarrow> u32 \<Rightarrow> u32 \<Rightarrow> u8 \<Rightarrow> u16 \<Rightarrow> bytes \<Rightarrow> u32 \<Rightarrow> bytes option" where
  "tcp_frame dst_mac mac src_ip dst_ip ip_id src_port dst_port seq ack flags window payload payload_size =
     (let tcp_size = 20 + payload_size; ip_size = 20 + tcp_size
      in do {
        f \<leftarrow> ipv4_frame dst_mac mac ip_size ip_id NET_IP_PROTO_TCP src_ip dst_ip;
        f \<leftarrow> st16 f 34 (net_htons src_port);
        f \<leftarrow> st16 f 36 (net_htons dst_port);
        f \<leftarrow> st32 f 38 (net_htonl seq);
        f \<leftarrow> st32 f 42 (net_htonl ack);
        f \<leftarrow> st8 f 46 (push_bit 4 (20 div 4));
        f \<leftarrow> st8 f 47 flags;
        f \<leftarrow> st16 f 48 (net_htons window);
        f \<leftarrow> st16 f 50 0;
        f \<leftarrow> st16 f 52 0;
        f \<leftarrow> (if payload_size \<noteq> 0 then net_copy f 54 payload 0 (unat payload_size) else Some f);
        tcp \<leftarrow> ld_bytes f 34 (unat tcp_size);
        st16 f 50 (net_htons (net_checksum_finish
          (net_checksum_add (pseudo_header_sum src_ip dst_ip (ucast NET_IP_PROTO_TCP) tcp_size) tcp))) })"

definition net_send_tcp_window :: "u32 \<Rightarrow> bytes \<Rightarrow> u32 \<Rightarrow> u16 \<Rightarrow> u16 \<Rightarrow> u32 \<Rightarrow> u32 \<Rightarrow> u8 \<Rightarrow> u16 \<Rightarrow> bytes \<Rightarrow> u32 \<Rightarrow>
    'w net \<Rightarrow> (int \<times> 'w net) option" where
  "net_send_tcp_window index dst_mac dst_ip src_port dst_port seq ack flags window payload payload_size s =
     (let frame_size = 14 + (20 + (20 + payload_size))
      in case net_get_device index s of
        None \<Rightarrow> Some (-1, s)
      | Some dev \<Rightarrow>
          if NET_MAX_FRAME_SIZE < frame_size then Some (-1, s)
          else do {
            f \<leftarrow> tcp_frame dst_mac (nd_mac dev) (local_ip s) dst_ip (next_ip_id s) src_port dst_port seq ack flags window payload payload_size;
            net_send_frame index f (if frame_size < NET_MIN_FRAME_SIZE then NET_MIN_FRAME_SIZE else frame_size)
              (s\<lparr>next_ip_id := next_ip_id s + 1\<rparr>) })"

definition net_send_tcp :: "u32 \<Rightarrow> bytes \<Rightarrow> u32 \<Rightarrow> u16 \<Rightarrow> u16 \<Rightarrow> u32 \<Rightarrow> u32 \<Rightarrow> u8 \<Rightarrow> bytes \<Rightarrow> u32 \<Rightarrow>
    'w net \<Rightarrow> (int \<times> 'w net) option" where
  "net_send_tcp index dst_mac dst_ip src_port dst_port seq ack flags payload payload_size s =
     net_send_tcp_window index dst_mac dst_ip src_port dst_port seq ack flags NET_TCP_DEFAULT_WINDOW payload payload_size s"

definition net_tcp_stream_window :: "'w net \<Rightarrow> u16" where
  "net_tcp_stream_window s =
     (let t = tcp_stream s
      in if \<not> ts_active t \<or> ts_rx_capacity t \<le> ts_rx_size t then 0
         else let room = ts_rx_capacity t - ts_rx_size t
              in if 65535 < room then 65535 else ucast room)"

definition net_tcp_stream_send_packet :: "u8 \<Rightarrow> bytes \<Rightarrow> u32 \<Rightarrow> 'w net \<Rightarrow> (int \<times> 'w net) option" where
  "net_tcp_stream_send_packet flags payload payload_size s =
     (let t = tcp_stream s
      in net_send_tcp_window (ts_device t) (ts_remote_mac t) (ts_remote_ip t) (ts_local_port t) (ts_remote_port t)
           (ts_seq t) (ts_ack t) flags (net_tcp_stream_window s) payload payload_size s)"

subsection \<open>Frames as the layout describes them\<close>

text \<open>
  \<open>laid_out N fs f\<close>: the frame \<open>f\<close> has length \<open>N\<close> and holds, for each pair in \<open>fs\<close>, the given bytes at the given offset. A store adds a pair and
  removes those it overlaps.
\<close>

definition laid_out :: "nat \<Rightarrow> (nat \<times> bytes) list \<Rightarrow> bytes \<Rightarrow> bool" where
  "laid_out N fs f \<longleftrightarrow> length f = N \<and> (\<forall>(i, b) \<in> set fs. i + length b \<le> N \<and> slice i (length b) f = b)"

definition beside :: "nat \<Rightarrow> nat \<Rightarrow> nat \<times> bytes \<Rightarrow> bool" where
  "beside i n x \<longleftrightarrow> fst x + length (snd x) \<le> i \<or> i + n \<le> fst x"

lemma fields_put:
  assumes "laid_out N fs f" and "i + length b \<le> N"
  shows "laid_out N ((i, b) # filter (beside i (length b)) fs) (overwrite i b f)"
  using assms by (auto simp: laid_out_def beside_def slice_overwrite_other)

lemma st8_overwrite: "i < length p \<Longrightarrow> p[i := v] = overwrite i [v] p"
  by (intro nth_equalityI) (auto simp: nth_overwrite nth_list_update)

lemma fields_st8:
  assumes "laid_out N fs f" and "i < N" and "\<And>f'. laid_out N ((i, [v]) # filter (beside i 1) fs) f' \<Longrightarrow> okay (g f') P"
  shows "okay (st8 f i v \<bind> g) P"
  using assms(3) [of "overwrite i [v] f"] fields_put [of N fs f i "[v]"] assms(1,2) by (simp add: wp st8_overwrite laid_out_def)

lemma fields_st16:
  assumes "laid_out N fs f" and "i + 1 < N" and "\<And>f'. laid_out N ((i, be16 v) # filter (beside i 2) fs) f' \<Longrightarrow> okay (g f') P"
  shows "okay (st16 f i (net_htons v) \<bind> g) P"
  using assms(3) [OF fields_put [of N fs f i "be16 v", simplified]] assms(1,2) by (simp add: wp codec_simps laid_out_def)

lemma fields_st16_zero:
  assumes "laid_out N fs f" and "i + 1 < N" and "\<And>f'. laid_out N ((i, [0, 0]) # filter (beside i 2) fs) f' \<Longrightarrow> okay (g f') P"
  shows "okay (st16 f i 0 \<bind> g) P"
  using assms(3) [of "overwrite i [0, 0] f"] fields_put [of N fs f i "[0, 0]"] assms(1,2) by (simp add: wp laid_out_def numeral_2_eq_2)

lemma fields_st32:
  assumes "laid_out N fs f" and "i + 3 < N" and "\<And>f'. laid_out N ((i, be32 v) # filter (beside i 4) fs) f' \<Longrightarrow> okay (g f') P"
  shows "okay (st32 f i (net_htonl v) \<bind> g) P"
  using assms(3) [OF fields_put [of N fs f i "be32 v", simplified]] assms(1,2) by (simp add: wp codec_simps laid_out_def)

lemma fields_copy:
  assumes "laid_out N fs f" and "i + n \<le> N" and "n \<le> length src"
    and "\<And>f'. laid_out N ((i, take n src) # filter (beside i n) fs) f' \<Longrightarrow> okay (g f') P"
  shows "okay (net_copy f i src 0 n \<bind> g) P"
  using assms(4) [of "overwrite i (take n src) f"] fields_put [of N fs f i "take n src"] assms(1-3)
  by (simp add: wp laid_out_def slice_def min_absorb2)

lemma fields_start: "laid_out n [] (replicate n 0)"
  by (simp add: laid_out_def)

lemma bind_Some_right: "m = m \<bind> Some"
  by (cases m) simp_all

lemmas fields_rules = fields_st8 fields_st16 fields_st16_zero fields_st32

lemma arp_frame_layout:
  assumes "length dst = 6" and "length mac = 6" and "length tha = 6"
  shows "okay (arp_frame dst mac oper spa tha tpa) (laid_out 60
    [(38, be32 tpa), (32, tha), (28, be32 spa), (22, mac), (20, be16 oper), (19, [4]), (18, [6]), (16, be16 NET_ETH_TYPE_IPV4),
     (14, be16 1), (12, be16 NET_ETH_TYPE_ARP), (6, mac), (0, dst)])"
  unfolding arp_frame_def
  apply (rule fields_copy [OF fields_start], simp, simp add: assms)
  apply (erule fields_copy, simp, simp add: assms)
  apply (erule fields_rules, simp)+
  apply (erule fields_copy, simp, simp add: assms)
  apply (erule fields_rules, simp)+
  apply (erule fields_copy, simp, simp add: assms)
  apply (subst bind_Some_right)
  apply (erule fields_rules, simp)
  apply (simp add: wp beside_def assms)
  done

lemma fields_load: "laid_out N fs f \<Longrightarrow> i + n \<le> N \<Longrightarrow> okay (g (slice i n f)) P \<Longrightarrow> okay (ld_bytes f i n \<bind> g) P"
  by (simp add: wp laid_out_def)

lemma slice_slice: "j + n \<le> m \<Longrightarrow> slice j n (slice i m p) = slice (i + j) n p"
  by (simp add: slice_def drop_take add.commute)

lemma overwrite_slice:
  assumes "i + m \<le> length p" and "j + length b \<le> m"
  shows "overwrite j b (slice i m p) = slice i m (overwrite (i + j) b p)"
  using assms by (intro nth_equalityI) (auto simp: nth_overwrite nth_slice)

text \<open>A checksum stored at an even offset over zero bytes, of the part of the frame that starts at \<open>i\<close>.\<close>

lemma checksum_stored:
  assumes "laid_out N fs f" and "(i + j, [0, 0]) \<in> set fs" and "even j" and "j + 2 \<le> m" and "i + m \<le> N" and "m \<le> 65000" and "unat acc < 2 ^ 20"
    and "c = net_checksum_finish (net_checksum_add acc (slice i m f))"
  shows "net_checksum_finish (net_checksum_add acc (slice i m (overwrite (i + j) (be16 c) f))) = 0"
proof -
  have z: "slice (i + j) 2 f = [0, 0]" and N: "length f = N" using assms(1,2) by (auto simp: laid_out_def numeral_2_eq_2)
  then have "f ! (i + j) = 0" "f ! (i + j + 1) = 0"
    using assms(4,5) nth_slice [of 0 2 "i + j" f] nth_slice [of 1 2 "i + j" f] by simp_all
  then have "slice i m f ! j = 0" "slice i m f ! (j + 1) = 0"
    using assms(4,5) N nth_slice [of j m i f] nth_slice [of "j + 1" m i f] by (simp_all add: add.assoc)
  then have "net_checksum_finish (net_checksum_add acc (overwrite j (be16 c) (slice i m f))) = 0"
    unfolding assms(8) using assms(3-7) N by (intro checksum_verifies) simp_all
  then show ?thesis using overwrite_slice [of i m f j "be16 c"] assms(4,5) N by simp
qed

lemma fields_finish:
  assumes "laid_out N fs f" and "i + 1 < N" and "P (overwrite i (be16 v) f)"
  shows "okay (st16 f i (net_htons v)) P"
  using assms by (simp add: wp codec_simps laid_out_def)

lemma fields_start_zero: "i + 2 \<le> n \<Longrightarrow> laid_out n [(i, [0, 0])] (replicate n 0)"
  by (simp add: laid_out_def slice_def numeral_2_eq_2)

lemma fields_put_eq:
  "laid_out N fs f \<Longrightarrow> i + length b \<le> N \<Longrightarrow> gs = (i, b) # filter (beside i (length b)) fs \<Longrightarrow> laid_out N gs (overwrite i b f)"
  using fields_put by simp

lemma fields_add: "laid_out N fs f \<Longrightarrow> i + n \<le> N \<Longrightarrow> laid_out N ((i, slice i n f) # fs) f"
  by (auto simp: laid_out_def)

lemma fields_sub: "laid_out N fs f \<Longrightarrow> set gs \<subseteq> set fs \<Longrightarrow> laid_out N gs f"
  by (auto simp: laid_out_def)

definition ipv4_fields :: "bytes \<Rightarrow> bytes \<Rightarrow> u32 \<Rightarrow> u16 \<Rightarrow> u8 \<Rightarrow> u32 \<Rightarrow> u32 \<Rightarrow> (nat \<times> bytes) list" where
  "ipv4_fields dst mac ip_size ip_id proto src_ip dst_ip =
     [(30, be32 dst_ip), (26, be32 src_ip), (23, [proto]), (22, [64]), (20, be16 0x4000), (18, be16 ip_id), (16, be16 (ucast ip_size)),
      (14, [0x45]), (12, be16 NET_ETH_TYPE_IPV4), (6, mac), (0, dst)]"

definition checked_header :: "bytes \<Rightarrow> bool" where
  "checked_header h \<longleftrightarrow> length h = 20 \<and> net_checksum h = 0"

lemma ipv4_frame_layout:
  assumes "length dst = 6" and "length mac = 6"
  shows "okay (ipv4_frame dst mac ip_size ip_id proto src_ip dst_ip)
    (\<lambda>f. \<exists>h. checked_header h \<and> laid_out 1518 ((14, h) # ipv4_fields dst mac ip_size ip_id proto src_ip dst_ip) f)"
proof -
  have "okay (ipv4_frame dst mac ip_size ip_id proto src_ip dst_ip) (\<lambda>f. net_checksum (slice 14 20 f) = 0 \<and>
      (\<exists>c. laid_out 1518 ((24, c) # ipv4_fields dst mac ip_size ip_id proto src_ip dst_ip) f))"
    unfolding ipv4_frame_def
    apply (rule fields_copy [OF fields_start_zero [of 24]], simp, simp, simp add: assms)
    apply (erule fields_copy, simp, simp add: assms)
    apply (erule fields_rules, simp)+
    apply (rule fields_load, assumption, simp)
    apply (rule fields_finish, assumption, simp)
    apply (rule conjI)
    subgoal by (rule checksum_stored [where i = 14 and j = 10 and acc = 0 and N = 1518, folded net_checksum_def, simplified])
        (assumption | simp add: beside_def assms net_checksum_def)+
    apply (rule exI)
    apply (rule fields_put_eq, assumption, simp, simp add: beside_def assms ipv4_fields_def)
    done
  then show ?thesis
  proof (rule okay_mono, elim conjE exE)
    fix f c assume "net_checksum (slice 14 20 f) = 0" "laid_out 1518 ((24, c) # ipv4_fields dst mac ip_size ip_id proto src_ip dst_ip) f"
    then show "\<exists>h. checked_header h \<and> laid_out 1518 ((14, h) # ipv4_fields dst mac ip_size ip_id proto src_ip dst_ip) f"
      by (intro exI [of _ "slice 14 20 f"]) (auto simp: checked_header_def laid_out_def)
  qed
qed

lemma unat_add_le: "unat (a + b :: u32) \<le> unat a + unat b"
  by (simp add: unat_word_ariths)

lemma pseudo_header_bound: "unat proto \<le> 255 \<Longrightarrow> unat len \<le> 1600 \<Longrightarrow> unat (pseudo_header_sum src dst proto len) < 2 ^ 20"
proof -
  assume b: "unat proto \<le> 255" "unat len \<le> 1600"
  have u: "unat (ucast w :: u32) < 65536" for w :: u16
  proof -
    have w: "unat w < 65536" using unsigned_less [of w, where 'a = nat] by simp
    then show ?thesis by (simp add: unsigned_ucast_eq take_bit_nat_eq_self)
  qed
  have "unat (a + b + c + d + proto + len) < 2 ^ 20"
    if "unat a < 65536" "unat b < 65536" "unat c < 65536" "unat d < 65536" for a b c d :: u32
  proof -
    have "unat (a + b + c + d + proto + len) \<le> unat a + unat b + unat c + unat d + unat proto + unat len"
      by (intro order_trans [OF unat_add_le] add_mono order.refl)
    then show ?thesis using that b by simp
  qed
  from this [OF u u u u] show ?thesis unfolding pseudo_header_sum_def add_0 .
qed

definition tcp_fields :: "u16 \<Rightarrow> u16 \<Rightarrow> u32 \<Rightarrow> u32 \<Rightarrow> u8 \<Rightarrow> u16 \<Rightarrow> bytes \<Rightarrow> (nat \<times> bytes) list" where
  "tcp_fields src_port dst_port seq ack flags window data =
     [(54, data), (52, [0, 0]), (48, be16 window), (47, [flags]), (46, [0x50]),
      (42, be32 ack), (38, be32 seq), (36, be16 dst_port), (34, be16 src_port)]"

text \<open>What a TCP frame holds: headers and data at their places, and checksums a receiver accepts.\<close>

definition tcp_frame_of :: "bytes \<Rightarrow> bytes \<Rightarrow> u32 \<Rightarrow> u32 \<Rightarrow> u16 \<Rightarrow> u16 \<Rightarrow> u16 \<Rightarrow> u32 \<Rightarrow> u32 \<Rightarrow> u8 \<Rightarrow> u16 \<Rightarrow> bytes \<Rightarrow> bytes \<Rightarrow> bool" where
  "tcp_frame_of dst mac src_ip dst_ip ip_id src_port dst_port seq ack flags window data f \<longleftrightarrow>
     (\<exists>h. checked_header h \<and> laid_out 1518 ((14, h) # tcp_fields src_port dst_port seq ack flags window data @
        ipv4_fields dst mac (of_nat (40 + length data)) ip_id NET_IP_PROTO_TCP src_ip dst_ip) f) \<and>
     net_checksum_finish (net_checksum_add (pseudo_header_sum src_ip dst_ip (ucast NET_IP_PROTO_TCP) (of_nat (20 + length data)))
       (slice 34 (20 + length data) f)) = 0"

lemma tcp_frame_layout:
  assumes "length dst = 6" and "length mac = 6" and "unat n \<le> 1464" and "unat n \<le> length payload"
  shows "okay (tcp_frame dst mac src_ip dst_ip ip_id src_port dst_port seq ack flags window payload n)
    (tcp_frame_of dst mac src_ip dst_ip ip_id src_port dst_port seq ack flags window (take (unat n) payload))"
proof -
  have u20: "unat (20 + n) = 20 + unat n" using assms(3) by (simp add: unat_word_ariths)
  have sz: "20 + (20 + n) = of_nat (40 + unat n)" "20 + n = of_nat (20 + unat n)" by simp_all
  have len: "length (take (unat n) payload) = unat n" using assms(4) by simp
  have copy: "(if n \<noteq> 0 then net_copy f 54 payload 0 (unat n) else Some f) = net_copy f 54 payload 0 (unat n)" for f
    by (cases "n = 0") auto
  have ps: "unat (pseudo_header_sum src_ip dst_ip (ucast NET_IP_PROTO_TCP) (20 + n)) < 2 ^ 20"
    using u20 assms(3) by (intro pseudo_header_bound) simp_all
  have ck: "net_checksum_finish (net_checksum_add (pseudo_header_sum src_ip dst_ip (ucast NET_IP_PROTO_TCP) (of_nat (20 + unat n)))
      (slice 34 (20 + unat n) (overwrite 50 (be16 (net_checksum_finish (net_checksum_add
        (pseudo_header_sum src_ip dst_ip (ucast NET_IP_PROTO_TCP) (20 + n)) (slice 34 (unat (20 + n)) f)))) f))) = 0"
    if "laid_out 1518 fs f" "(50, [0, 0]) \<in> set fs" for fs f
    using checksum_stored [OF that(1), of 34 16 "20 + unat n"] that(2) ps assms(3) unfolding sz(2) [symmetric] u20 by simp
  show ?thesis
    unfolding tcp_frame_def Let_def copy okay_bind [of "ipv4_frame _ _ _ _ _ _ _"]
    apply (rule okay_mono [OF ipv4_frame_layout [OF assms(1,2)]])
    apply (elim exE conjE)
    apply (erule fields_rules, simp)+
    apply (erule fields_copy, simp add: assms(3), simp add: assms(4))
    apply (rule fields_load, assumption, simp add: u20 assms(3))
    apply (rule fields_finish, assumption, simp)
    apply (unfold tcp_frame_of_def len)
    apply (rule conjI)
     apply (rule exI, rule conjI, assumption)
     apply (rule fields_sub, erule fields_put_eq [OF _ _ refl], simp)
     apply (simp add: beside_def tcp_fields_def ipv4_fields_def checked_header_def assms)
    apply (rule ck, assumption)
    apply (simp add: beside_def)
    done
qed

definition udp_fields :: "u16 \<Rightarrow> u16 \<Rightarrow> bytes \<Rightarrow> (nat \<times> bytes) list" where
  "udp_fields src_port dst_port data =
     [(42, data), (38, be16 (of_nat (8 + length data))), (36, be16 dst_port), (34, be16 src_port)]"

definition udp_frame_of :: "bytes \<Rightarrow> bytes \<Rightarrow> u32 \<Rightarrow> u32 \<Rightarrow> u16 \<Rightarrow> u16 \<Rightarrow> u16 \<Rightarrow> bytes \<Rightarrow> bytes \<Rightarrow> bool" where
  "udp_frame_of dst mac src_ip dst_ip ip_id src_port dst_port data f \<longleftrightarrow>
     (\<exists>h. checked_header h \<and> laid_out 1518 ((14, h) # udp_fields src_port dst_port data @
        ipv4_fields dst mac (of_nat (28 + length data)) ip_id NET_IP_PROTO_UDP src_ip dst_ip) f) \<and>
     net_checksum_finish (net_checksum_add (pseudo_header_sum src_ip dst_ip (ucast NET_IP_PROTO_UDP) (of_nat (8 + length data)))
       (slice 34 (8 + length data) f)) = 0"

lemma udp_frame_layout:
  assumes "length dst = 6" and "length mac = 6" and "unat n \<le> 1476" and "unat n \<le> length payload"
  shows "okay (udp_frame dst mac src_ip dst_ip ip_id src_port dst_port payload n)
    (udp_frame_of dst mac src_ip dst_ip ip_id src_port dst_port (take (unat n) payload))"
proof -
  have u8: "unat (8 + n) = 8 + unat n" using assms(3) by (simp add: unat_word_ariths)
  have sz: "20 + (8 + n) = of_nat (28 + unat n)" "8 + n = of_nat (8 + unat n)" by simp_all
  have len: "length (take (unat n) payload) = unat n" using assms(4) by simp
  have copy: "(if n \<noteq> 0 then net_copy f 42 payload 0 (unat n) else Some f) = net_copy f 42 payload 0 (unat n)" for f
    by (cases "n = 0") auto
  have ps: "unat (pseudo_header_sum src_ip dst_ip (ucast NET_IP_PROTO_UDP) (8 + n)) < 2 ^ 20"
    using u8 assms(3) by (intro pseudo_header_bound) simp_all
  have ck: "net_checksum_finish (net_checksum_add (pseudo_header_sum src_ip dst_ip (ucast NET_IP_PROTO_UDP) (of_nat (8 + unat n)))
      (slice 34 (8 + unat n) (overwrite 40 (be16 (net_checksum_finish (net_checksum_add
        (pseudo_header_sum src_ip dst_ip (ucast NET_IP_PROTO_UDP) (8 + n)) (slice 34 (unat (8 + n)) f)))) f))) = 0"
    if "laid_out 1518 fs f" "(40, [0, 0]) \<in> set fs" for fs f
    using checksum_stored [OF that(1), of 34 6 "8 + unat n"] that(2) ps assms(3) unfolding sz(2) [symmetric] u8 by simp
  have c: "(ucast (8 + n) :: u16) = of_nat (8 + unat n)"     using u8 assms(3) by (simp add: word_unat_eq_iff unsigned_ucast_eq take_bit_nat_eq_self unat_of_nat del: of_nat_add)
  show ?thesis
    unfolding udp_frame_def Let_def copy c okay_bind [of "ipv4_frame _ _ _ _ _ _ _"]
    apply (rule okay_mono [OF ipv4_frame_layout [OF assms(1,2)]])
    apply (elim exE conjE)
    apply (erule fields_rules, simp)+
    apply (erule fields_copy, simp add: assms(3), simp add: assms(4))
    apply (rule fields_load, assumption, simp add: u8 assms(3))
    apply (rule fields_finish, assumption, simp)
    apply (unfold udp_frame_of_def len)
    apply (rule conjI)
     apply (rule exI, rule conjI, assumption)
     apply (rule fields_sub, erule fields_put_eq [OF _ _ refl], simp)
     apply (simp add: beside_def udp_fields_def ipv4_fields_def checked_header_def assms)
    apply (rule ck, assumption)
    apply (simp add: beside_def)
    done
qed

subsection \<open>Sending keeps the stack\<close>

lemma same_debug [simp]: "same_stack s (debug_info_update f s)" "same_stack (debug_info_update f s) s' \<longleftrightarrow> same_stack s s'"
    "same_stack s (debug_info_update f s') \<longleftrightarrow> same_stack s s'" "same_stack (next_ip_id_update g s) s' \<longleftrightarrow> same_stack s s'"
  by (simp_all add: same_stack_def stack_part_def)

lemma get_device_debug [simp]: "net_get_device index (debug_info_update f s) = net_get_device index s"
  by (simp add: net_get_device_def)

lemma devices_ok_debug [simp]: "devices_ok (debug_info_update f s) = devices_ok s"
  by (simp add: devices_ok_def)

lemma okay_send_after:
  assumes "okay m (\<lambda>f. length f = N)" and "unat sz \<le> N"
  shows "okay (m \<bind> (\<lambda>f. net_send_frame index f sz s)) (\<lambda>(r, s'). same_stack s s')"
  unfolding okay_bind by (rule okay_mono [OF assms(1)]) (simp add: okay_send_frame assms(2))

lemma arp_frame_length: "length dst = 6 \<Longrightarrow> length mac = 6 \<Longrightarrow> length tha = 6 \<Longrightarrow>
    okay (arp_frame dst mac oper spa tha tpa) (\<lambda>f. length f = 60)"
  by (rule okay_mono [OF arp_frame_layout]) (auto simp: laid_out_def)

lemma okay_arp_request:
  assumes "devices_ok s"
  shows "okay (net_send_arp_request index ip s) (\<lambda>(r, s'). same_stack s s')"
proof (cases "net_get_device index s")
  case None
  then show ?thesis by (simp add: net_send_arp_request_def wp)
next
  case (Some dev)
  let ?s = "debug_info_update (di_arp_requests_update (\<lambda>n. n + 1)) (debug_info_update (di_last_arp_requested_ip_update (\<lambda>_. ip)) s)"
  have "okay (arp_frame (replicate 6 0xFF) (nd_mac dev) NET_ARP_OP_REQUEST (local_ip ?s) (replicate 6 0) ip
      \<bind> (\<lambda>f. net_send_frame index f 60 ?s)) (\<lambda>(r, s'). same_stack ?s s')"
    using get_device_mac [OF assms Some] by (intro okay_send_after [OF arp_frame_length]) simp_all
  then show ?thesis using Some by (auto simp: net_send_arp_request_def wp split: prod.splits elim!: okay_mono)
qed

lemma okay_arp_reply:
  assumes "devices_ok s" and "length mac = 6"
  shows "okay (net_send_arp_reply index mac ip s) (\<lambda>(r, s'). same_stack s s')"
proof (cases "net_get_device index s")
  case (Some dev)
  then show ?thesis unfolding net_send_arp_reply_def option.case
    using get_device_mac [OF assms(1) Some] assms(2) by (simp only: option.case) (intro okay_send_after [OF arp_frame_length]; simp)
qed (simp add: net_send_arp_reply_def wp)

lemma frame_size_bound:
  assumes "unat (n :: u32) < 2 ^ 31" and "k \<le> 100" and "\<not> NET_MAX_FRAME_SIZE < of_nat k + n"
  shows "unat n + k \<le> 1518" "unat (if of_nat k + n < NET_MIN_FRAME_SIZE then NET_MIN_FRAME_SIZE else of_nat k + n) \<le> 1518"
proof -
  have k: "unat (of_nat k :: u32) = k" using assms(2) by (intro unat_of_nat_32) simp
  have "unat (of_nat k + n) = k + unat n" using assms(1,2) k by (simp add: unat_word_ariths)
  then show "unat n + k \<le> 1518" "unat (if of_nat k + n < NET_MIN_FRAME_SIZE then NET_MIN_FRAME_SIZE else of_nat k + n) \<le> 1518"
    using assms(3) by (simp_all add: word_less_nat_alt)
qed

lemma okay_send_tcp_window:
  assumes "devices_ok s" and "length mac = 6" and "unat n \<le> length payload" and "unat n < 2 ^ 31"
  shows "okay (net_send_tcp_window index mac ip src_port dst_port seq ack flags window payload n s) (\<lambda>(r, s'). same_stack s s')"
proof (cases "net_get_device index s")
  case (Some dev)
  have e: "14 + (20 + (20 + n)) = of_nat 54 + n" by simp
  show ?thesis
  proof (cases "NET_MAX_FRAME_SIZE < of_nat 54 + n")
    case True
    then show ?thesis using Some by (simp add: net_send_tcp_window_def wp)
  next
    case False
    note b = frame_size_bound [OF assms(4) _ False]
    have "okay (tcp_frame mac (nd_mac dev) (local_ip s) ip (next_ip_id s) src_port dst_port seq ack flags window payload n) (\<lambda>f. length f = 1518)"
      using get_device_mac [OF assms(1) Some] b(1) assms
      by (intro okay_mono [OF tcp_frame_layout]) (auto simp: tcp_frame_of_def laid_out_def)
    from okay_send_after [OF this b(2), of index "s\<lparr>next_ip_id := next_ip_id s + 1\<rparr>"] show ?thesis
      unfolding net_send_tcp_window_def e Let_def using False
      by (auto simp: Some wp split: prod.splits elim!: okay_mono)
  qed
qed (simp add: net_send_tcp_window_def wp)

lemma okay_send_udp:
  assumes "devices_ok s" and "length mac = 6" and "unat n \<le> length payload" and "unat n < 2 ^ 31"
  shows "okay (net_send_udp index mac ip src_port dst_port payload n s) (\<lambda>(r, s'). same_stack s s')"
proof (cases "net_get_device index s")
  case (Some dev)
  have e: "14 + (20 + (8 + n)) = of_nat 42 + n" by simp
  show ?thesis
  proof (cases "NET_MAX_FRAME_SIZE < of_nat 42 + n")
    case True
    then show ?thesis using Some by (simp add: net_send_udp_def wp)
  next
    case False
    note b = frame_size_bound [OF assms(4) _ False]
    have "okay (udp_frame mac (nd_mac dev) (local_ip s) ip (next_ip_id s) src_port dst_port payload n) (\<lambda>f. length f = 1518)"
      using get_device_mac [OF assms(1) Some] b(1) assms
      by (intro okay_mono [OF udp_frame_layout]) (auto simp: udp_frame_of_def laid_out_def)
    from okay_send_after [OF this b(2), of index "s\<lparr>next_ip_id := next_ip_id s + 1\<rparr>"] show ?thesis
      unfolding net_send_udp_def e Let_def using False
      by (auto simp: Some wp split: prod.splits elim!: okay_mono)
  qed
qed (simp add: net_send_udp_def wp)

lemma okay_stream_packet:
  assumes "devices_ok s" and "tcp_stream_ok (tcp_stream s)"
  shows "okay (net_tcp_stream_send_packet flags [] 0 s) (\<lambda>(r, s'). same_stack s s')"
  unfolding net_tcp_stream_send_packet_def Let_def
  using assms by (intro okay_send_tcp_window) (simp_all add: tcp_stream_ok_def)

end
