(* ===== verification/Net_Http.thy ===== *)
theory Net_Http
  imports Net_State
begin

text \<open>
  HTTP in \<^verbatim>\<open>net.c\<close>: the status line and header fields of a response, the chunked transfer coding, the range of the compressed data
  in a gzip file, and the byte-by-byte collection of a response. Positions in a header or
  body are natural numbers; they stay below the size of the buffer, which is a 32-bit number.
\<close>

abbreviation NET_HTTP_FLAG_TRUNCATED :: u32 where "NET_HTTP_FLAG_TRUNCATED \<equiv> 0x001"
abbreviation NET_HTTP_FLAG_CONTENT_LENGTH :: u32 where "NET_HTTP_FLAG_CONTENT_LENGTH \<equiv> 0x002"
abbreviation NET_HTTP_FLAG_HEADER_TRUNCATED :: u32 where "NET_HTTP_FLAG_HEADER_TRUNCATED \<equiv> 0x004"
abbreviation NET_HTTP_FLAG_CHUNKED :: u32 where "NET_HTTP_FLAG_CHUNKED \<equiv> 0x008"
abbreviation NET_HTTP_FLAG_GZIP :: u32 where "NET_HTTP_FLAG_GZIP \<equiv> 0x040"
abbreviation NET_HTTP_FLAG_DEFLATE :: u32 where "NET_HTTP_FLAG_DEFLATE \<equiv> 0x080"

definition net_lower :: "u8 \<Rightarrow> u8" where
  "net_lower a = (if 65 \<le> a \<and> a \<le> 90 then a + 32 else a)"

subsection \<open>Header fields\<close>

fun net_http_header_match_at :: "bytes \<Rightarrow> nat \<Rightarrow> nat \<Rightarrow> bytes \<Rightarrow> bool option" where
  "net_http_header_match_at header hs pos [] = Some True"
| "net_http_header_match_at header hs pos (b # bs) =
     (if hs \<le> pos then Some False
      else do { a \<leftarrow> ld8 header pos;
                if net_lower a \<noteq> b then Some False else net_http_header_match_at header hs (pos + 1) bs })"

definition net_http_line_start :: "bytes \<Rightarrow> nat \<Rightarrow> bool option" where
  "net_http_line_start header pos = (if pos = 0 then Some True else do { a \<leftarrow> ld8 header (pos - 1); Some (a = 10) })"

text \<open>The loops below run from \<open>pos\<close> over the \<open>n\<close> bytes that are left before the end of the header.\<close>

fun parse_uint_loop :: "bytes \<Rightarrow> nat \<Rightarrow> nat \<Rightarrow> u32 \<Rightarrow> bool \<Rightarrow> (u32 \<times> nat \<times> bool) option" where
  "parse_uint_loop header pos 0 v saw = Some (v, pos, saw)"
| "parse_uint_loop header pos (Suc n) v saw = do {
     c \<leftarrow> ld8 header pos;
     if 48 \<le> c \<and> c \<le> 57
     then let digit = ucast (c - 48) :: u32
          in parse_uint_loop header (pos + 1) n
               (if 429496729 < v \<or> v = 429496729 \<and> 5 < digit then 0xFFFFFFFF else v * 10 + digit) True
     else Some (v, pos, saw) }"

definition net_http_parse_uint :: "bytes \<Rightarrow> nat \<Rightarrow> nat \<Rightarrow> (u32 \<times> nat \<times> bool) option" where
  "net_http_parse_uint header hs pos = parse_uint_loop header pos (hs - pos) 0 False"

fun skip_while :: "(u8 \<Rightarrow> bool) \<Rightarrow> bytes \<Rightarrow> nat \<Rightarrow> nat \<Rightarrow> nat option" where
  "skip_while P header pos 0 = Some pos"
| "skip_while P header pos (Suc n) = do { c \<leftarrow> ld8 header pos; if P c then skip_while P header (pos + 1) n else Some pos }"

abbreviation blank :: "u8 \<Rightarrow> bool" where "blank c \<equiv> c = 32 \<or> c = 9"

fun contains_loop :: "bytes \<Rightarrow> bytes \<Rightarrow> nat \<Rightarrow> nat \<Rightarrow> nat \<Rightarrow> bool option" where
  "contains_loop header needle pos 0 m = Some False"
| "contains_loop header needle pos (Suc n) m = do {
     c \<leftarrow> ld8 header pos;
     if c = 13 \<or> c = 10 then Some False
     else do {
       b \<leftarrow> ld8 (needle @ [0]) m;
       if net_lower c = b
       then if m + 1 = length needle then Some True else contains_loop header needle (pos + 1) n (m + 1)
       else do { b0 \<leftarrow> ld8 (needle @ [0]) 0; contains_loop header needle (pos + 1) n (if net_lower c = b0 then 1 else 0) } } }"

definition net_http_header_value_contains :: "bytes \<Rightarrow> nat \<Rightarrow> nat \<Rightarrow> bytes \<Rightarrow> bool option" where
  "net_http_header_value_contains header hs pos needle = do {
     pos \<leftarrow> skip_while blank header pos (hs - pos);
     contains_loop header needle pos (hs - pos) 0 }"

fun copy_value_loop :: "bytes \<Rightarrow> nat \<Rightarrow> nat \<Rightarrow> bytes \<Rightarrow> nat \<Rightarrow> nat \<Rightarrow> (bytes \<times> nat) option" where
  "copy_value_loop header pos 0 out out_pos cap = Some (out, out_pos)"
| "copy_value_loop header pos (Suc n) out out_pos cap = do {
     c \<leftarrow> ld8 header pos;
     if c \<noteq> 13 \<and> c \<noteq> 10 \<and> out_pos + 1 < cap
     then do { out \<leftarrow> st8 out out_pos c; copy_value_loop header (pos + 1) n out (out_pos + 1) cap }
     else Some (out, out_pos) }"

fun trim_blanks :: "bytes \<Rightarrow> nat \<Rightarrow> nat option" where
  "trim_blanks out 0 = Some 0"
| "trim_blanks out (Suc n) = do { c \<leftarrow> ld8 out n; if blank c then trim_blanks out n else Some (Suc n) }"

definition net_http_copy_header_value :: "bytes \<Rightarrow> nat \<Rightarrow> nat \<Rightarrow> bytes \<Rightarrow> nat \<Rightarrow> bytes option" where
  "net_http_copy_header_value header hs pos out cap =
     (if cap = 0 then Some out
      else do {
        pos \<leftarrow> skip_while blank header pos (hs - pos);
        (out, out_pos) \<leftarrow> copy_value_loop header pos (hs - pos) out 0 cap;
        out_pos \<leftarrow> trim_blanks out out_pos;
        st8 out out_pos 0 })"

definition parse_status :: "bytes \<Rightarrow> nat \<Rightarrow> net_http_info \<Rightarrow> net_http_info option" where
  "parse_status header hs info =
     (if hs < 12 then Some info
      else do {
        h0 \<leftarrow> ld8 header 0; h1 \<leftarrow> ld8 header 1; h2 \<leftarrow> ld8 header 2; h3 \<leftarrow> ld8 header 3;
        if [h0, h1, h2, h3] = ascii ''HTTP''
        then do {
          pos \<leftarrow> skip_while (\<lambda>c. c \<noteq> 32) header 5 (hs - 5);
          pos \<leftarrow> skip_while (\<lambda>c. c = 32) header pos (hs - pos);
          (code, pos, saw) \<leftarrow> net_http_parse_uint header hs pos;
          Some (info\<lparr>hi_status_code := (if saw then code else 0)\<rparr>) }
        else Some info })"

definition set_flag :: "u32 \<Rightarrow> net_http_info \<Rightarrow> net_http_info" where
  "set_flag f info = info\<lparr>hi_flags := hi_flags info OR f\<rparr>"

definition parse_line :: "bytes \<Rightarrow> nat \<Rightarrow> nat \<Rightarrow> net_http_info \<Rightarrow> net_http_info option" where
  "parse_line header hs i info = do {
     m \<leftarrow> net_http_header_match_at header hs i (ascii ''content-length:'');
     if m then do {
       pos \<leftarrow> skip_while blank header (i + 15) (hs - (i + 15));
       (n, pos, saw) \<leftarrow> net_http_parse_uint header hs pos;
       Some ((if saw then set_flag NET_HTTP_FLAG_CONTENT_LENGTH else id) (info\<lparr>hi_content_length := n\<rparr>)) }
     else do {
       m \<leftarrow> net_http_header_match_at header hs i (ascii ''content-type:'');
       if m then do {
         v \<leftarrow> net_http_copy_header_value header hs (i + 13) (hi_content_type info) 64;
         Some (info\<lparr>hi_content_type := v\<rparr>) }
       else do {
         m \<leftarrow> net_http_header_match_at header hs i (ascii ''location:'');
         if m then do {
           v \<leftarrow> net_http_copy_header_value header hs (i + 9) (hi_location info) 1024;
           Some (info\<lparr>hi_location := v\<rparr>) }
         else do {
           m \<leftarrow> net_http_header_match_at header hs i (ascii ''transfer-encoding:'');
           if m then do {
             c \<leftarrow> net_http_header_value_contains header hs (i + 18) (ascii ''chunked'');
             Some (if c then set_flag NET_HTTP_FLAG_CHUNKED info else info) }
           else do {
             m \<leftarrow> net_http_header_match_at header hs i (ascii ''content-encoding:'');
             if m then do {
               g \<leftarrow> net_http_header_value_contains header hs (i + 17) (ascii ''gzip'');
               x \<leftarrow> (if g then Some True else net_http_header_value_contains header hs (i + 17) (ascii ''x-gzip''));
               if x then Some (set_flag NET_HTTP_FLAG_GZIP info)
               else do {
                 d \<leftarrow> net_http_header_value_contains header hs (i + 17) (ascii ''deflate'');
                 Some (if d then set_flag NET_HTTP_FLAG_DEFLATE info else info) } }
             else Some info } } } } }"

fun parse_lines :: "bytes \<Rightarrow> nat \<Rightarrow> nat list \<Rightarrow> net_http_info \<Rightarrow> net_http_info option" where
  "parse_lines header hs [] info = Some info"
| "parse_lines header hs (i # is) info = do {
     b \<leftarrow> net_http_line_start header i;
     info \<leftarrow> (if b then parse_line header hs i info else Some info);
     parse_lines header hs is info }"

definition zero_info :: net_http_info where
  "zero_info = \<lparr>hi_status_code = 0, hi_content_length = 0, hi_body_size = 0, hi_header_size = 0, hi_flags = 0, hi_error = 0,
     hi_tls_error = 0, hi_content_type = replicate 64 0, hi_location = replicate 1024 0\<rparr>"

text \<open>\<^verbatim>\<open>net_http_parse_info\<close> with a structure to fill in; \<open>header\<close> is \<^term>\<open>None\<close> for the null pointer.\<close>

definition net_http_parse_info :: "bytes option \<Rightarrow> u32 \<Rightarrow> u32 \<Rightarrow> bool \<Rightarrow> bool \<Rightarrow> int \<Rightarrow> net_http_info option" where
  "net_http_parse_info header header_size body_size body_truncated header_truncated err =
     (let info = zero_info\<lparr>hi_body_size := body_size, hi_header_size := header_size, hi_error := err\<rparr>;
          info = (if body_truncated then set_flag NET_HTTP_FLAG_TRUNCATED info else info);
          info = (if header_truncated then set_flag NET_HTTP_FLAG_HEADER_TRUNCATED info else info)
      in case header of
           None \<Rightarrow> Some info
         | Some h \<Rightarrow>
             if header_size = 0 then Some info
             else do {
               info \<leftarrow> parse_status h (unat header_size) info;
               parse_lines h (unat header_size) [0..<unat header_size] info })"

subsection \<open>Collecting a response\<close>

definition parse_info_into :: "net_tcp_get \<Rightarrow> net_http_info option option" where
  "parse_info_into g =
     (case tg_info g of
        None \<Rightarrow> Some None
      | Some _ \<Rightarrow> do {
          i \<leftarrow> net_http_parse_info (Some (tg_header g)) (tg_header_size g) (tg_out_size g) (tg_full g) (tg_header_truncated g) 0;
          Some (Some i) })"

definition store_header :: "net_tcp_get \<Rightarrow> u8 \<Rightarrow> net_tcp_get option" where
  "store_header g ch =
     (if unat (tg_header_size g) + 1 < 1024
      then do { h \<leftarrow> st8 (tg_header g) (unat (tg_header_size g)) ch;
                h \<leftarrow> st8 h (unat (tg_header_size g) + 1) 0;
                Some (g\<lparr>tg_header := h, tg_header_size := tg_header_size g + 1\<rparr>) }
      else Some (g\<lparr>tg_header_truncated := True\<rparr>))"

definition store_tail :: "net_tcp_get \<Rightarrow> u8 \<Rightarrow> net_tcp_get option" where
  "store_tail g ch =
     (if unat (tg_header_tail_count g) < 4
      then do { t \<leftarrow> st8 (tg_header_tail g) (unat (tg_header_tail_count g)) ch;
                Some (g\<lparr>tg_header_tail := t, tg_header_tail_count := tg_header_tail_count g + 1\<rparr>) }
      else do { t1 \<leftarrow> ld8 (tg_header_tail g) 1; t \<leftarrow> st8 (tg_header_tail g) 0 t1;
                t2 \<leftarrow> ld8 t 2; t \<leftarrow> st8 t 1 t2;
                t3 \<leftarrow> ld8 t 3; t \<leftarrow> st8 t 2 t3;
                t \<leftarrow> st8 t 3 ch;
                Some (g\<lparr>tg_header_tail := t\<rparr>) })"

definition header_byte :: "net_tcp_get \<Rightarrow> u8 \<Rightarrow> net_tcp_get option" where
  "header_byte g ch = do {
     g \<leftarrow> store_header g ch;
     g \<leftarrow> store_tail g ch;
     if tg_header_tail_count g = 4 \<and> tg_header_tail g = [13, 10, 13, 10]
     then do { i \<leftarrow> parse_info_into (g\<lparr>tg_header_done := True\<rparr>); Some (g\<lparr>tg_header_done := True, tg_info := i\<rparr>) }
     else Some g }"

definition net_http_copy_body_byte :: "net_tcp_get \<Rightarrow> u8 \<Rightarrow> net_tcp_get option" where
  "net_http_copy_body_byte g ch =
     (if \<not> tg_header_done g then header_byte g ch
      else if tg_out_capacity g \<le> tg_out_size g + 1
      then do { i \<leftarrow> parse_info_into (g\<lparr>tg_full := True\<rparr>); Some (g\<lparr>tg_full := True, tg_info := i\<rparr>) }
      else do { h \<leftarrow> st8 (tg_out g) (unat (tg_out_size g)) ch;
                h \<leftarrow> st8 h (unat (tg_out_size g + 1)) 0;
                Some (g\<lparr>tg_out := h, tg_out_size := tg_out_size g + 1\<rparr>) })"

subsection \<open>Staying inside the buffers\<close>

lemma okay_match: "hs \<le> length header \<Longrightarrow> okay (net_http_header_match_at header hs pos needle) (\<lambda>_. True)"
  by (induction needle arbitrary: pos) (simp_all add: wp)

lemma okay_line_start: "pos \<le> length header \<Longrightarrow> okay (net_http_line_start header pos) (\<lambda>_. True)"
  by (auto simp: net_http_line_start_def wp)

lemma okay_uint_loop: "n = 0 \<or> pos + n \<le> length header \<Longrightarrow> okay (parse_uint_loop header pos n v saw) (\<lambda>_. True)"
  by (induction n arbitrary: pos v saw) (simp_all add: wp Let_def)

lemma okay_parse_uint: "hs \<le> length header \<Longrightarrow> okay (net_http_parse_uint header hs pos) (\<lambda>_. True)"
  unfolding net_http_parse_uint_def by (rule okay_uint_loop) auto

lemma okay_skip: "n = 0 \<or> pos + n \<le> length header \<Longrightarrow> okay (skip_while P header pos n) (\<lambda>_. True)"
  by (induction n arbitrary: pos) (simp_all add: wp)

lemma okay_skip_to: "hs \<le> length header \<Longrightarrow> okay (skip_while P header pos (hs - pos)) (\<lambda>_. True)"
  by (rule okay_skip) auto

lemma okay_contains_loop:
  "n = 0 \<or> pos + n \<le> length header \<Longrightarrow> m < length needle \<Longrightarrow> okay (contains_loop header needle pos n m) (\<lambda>_. True)"
proof (induction n arbitrary: pos m)
  case (Suc n)
  have "okay (contains_loop header needle (Suc pos) n m') (\<lambda>_. True)" if "m' < length needle" for m'
    using that Suc.prems by (intro Suc.IH) auto
  moreover have "(if net_lower (header ! pos) = (needle @ [0]) ! 0 then 1 else 0) < length needle"
    if "net_lower (header ! pos) \<noteq> (needle @ [0]) ! m"
  proof (cases "length needle = 1")
    case True
    then have "m = 0" using Suc.prems by simp
    then show ?thesis using that True by simp
  qed (use Suc.prems in auto)
  ultimately show ?case using Suc.prems by (auto simp: wp)
qed (simp add: wp)

lemma okay_contains: "hs \<le> length header \<Longrightarrow> needle \<noteq> [] \<Longrightarrow> okay (net_http_header_value_contains header hs pos needle) (\<lambda>_. True)"
  unfolding net_http_header_value_contains_def okay_bind
  by (rule okay_mono [OF okay_skip_to]) (auto intro: okay_contains_loop)

lemma okay_copy_value_loop:
  assumes "n = 0 \<or> pos + n \<le> length header" and "out_pos < cap" and "cap \<le> length out"
  shows "okay (copy_value_loop header pos n out out_pos cap) (\<lambda>(out', p). length out' = length out \<and> p < cap)"
  using assms
proof (induction n arbitrary: pos out out_pos)
  case (Suc n)
  have "okay (copy_value_loop header (Suc pos) n (out[out_pos := header ! pos]) (Suc out_pos) cap)
      (\<lambda>(out', p). length out' = length (out[out_pos := header ! pos]) \<and> p < cap)" if "Suc out_pos < cap"
    using that Suc.prems by (intro Suc.IH) auto
  then show ?case using Suc.prems by (auto simp: wp)
qed (simp add: wp)

lemma okay_trim: "n \<le> length out \<Longrightarrow> okay (trim_blanks out n) (\<lambda>m. m \<le> n)"
  by (induction n) (auto simp: wp elim!: okay_mono)

lemma okay_copy_value:
  assumes "hs \<le> length header" and "cap \<le> length out"
  shows "okay (net_http_copy_header_value header hs pos out cap) (\<lambda>out'. length out' = length out)"
proof (cases "cap = 0")
  case False
  have "okay (copy_value_loop header p (hs - p) out 0 cap) (\<lambda>(out', q). length out' = length out \<and> q < cap)" for p
    using assms False by (intro okay_copy_value_loop) auto
  then have "okay (copy_value_loop header p (hs - p) out 0 cap \<bind> (\<lambda>(out, out_pos). trim_blanks out out_pos \<bind> (\<lambda>out_pos. st8 out out_pos 0)))
      (\<lambda>out'. length out' = length out)" for p
    unfolding okay_bind
    by (rule okay_mono) (use assms(2) in \<open>auto simp: wp intro!: okay_mono [OF okay_trim]\<close>)
  then show ?thesis unfolding net_http_copy_header_value_def okay_bind
    using False by (simp add: wp) (rule okay_mono [OF okay_skip_to [OF assms(1)]], simp add: wp)
qed (simp add: net_http_copy_header_value_def wp)

lemma ascii_nonempty: "ascii cs = [] \<longleftrightarrow> cs = []"
  by (simp add: ascii_def)

lemma okay_parse_status:
  assumes "hs \<le> length header" and "http_info_ok info"
  shows "okay (parse_status header hs info) http_info_ok"
proof (cases "hs < 12")
  case False
  have "okay (net_http_parse_uint header hs p \<bind> (\<lambda>(code, pos, saw). Some (info\<lparr>hi_status_code := (if saw then code else 0)\<rparr>))) http_info_ok" for p
    unfolding okay_bind by (rule okay_mono [OF okay_parse_uint [OF assms(1)]]) (use assms(2) in \<open>auto simp: wp http_info_ok_def\<close>)
  then have "okay (skip_while (\<lambda>c. c = 32) header p (hs - p) \<bind> (\<lambda>pos. net_http_parse_uint header hs pos \<bind>
      (\<lambda>(code, pos, saw). Some (info\<lparr>hi_status_code := (if saw then code else 0)\<rparr>)))) http_info_ok" for p
    unfolding okay_bind [of "skip_while _ _ _ _"] by (rule okay_mono [OF okay_skip_to [OF assms(1)]])
  then have "okay (skip_while (\<lambda>c. c \<noteq> 32) header 5 (hs - 5) \<bind> (\<lambda>p. skip_while (\<lambda>c. c = 32) header p (hs - p) \<bind>
      (\<lambda>pos. net_http_parse_uint header hs pos \<bind>
      (\<lambda>(code, pos, saw). Some (info\<lparr>hi_status_code := (if saw then code else 0)\<rparr>))))) http_info_ok"
    unfolding okay_bind [of "skip_while (\<lambda>c. c \<noteq> 32) _ _ _"] by (rule okay_mono [OF okay_skip_to [OF assms(1)]])
  then show ?thesis using assms False by (auto simp: parse_status_def wp)
qed (use assms in \<open>simp add: parse_status_def wp\<close>)

lemma okay_flag: "http_info_ok info \<Longrightarrow> http_info_ok (set_flag f info)"
  by (simp add: http_info_ok_def set_flag_def)

lemma okay_all: "okay m (\<lambda>_. True) \<Longrightarrow> (\<And>x. P x) \<Longrightarrow> okay m P"
  by (erule okay_mono)

lemmas okay_http = okay_all [OF okay_match] okay_all [OF okay_contains] okay_all [OF okay_skip_to] okay_all [OF okay_parse_uint]
  okay_mono [OF okay_copy_value]

lemma okay_parse_line:
  assumes "hs \<le> length header" and "http_info_ok info"
  shows "okay (parse_line header hs i info) http_info_ok"
  unfolding parse_line_def
  using assms by (auto simp: wp ascii_nonempty intro!: okay_http okay_flag) (simp_all add: http_info_ok_def)

lemma okay_parse_lines:
  assumes "hs \<le> length header" and "http_info_ok info" and "\<forall>i \<in> set is. i \<le> length header"
  shows "okay (parse_lines header hs is info) http_info_ok"
  using assms(2,3)
proof (induction "is" arbitrary: info)
  case (Cons i "is")
  then show ?case
    by (auto simp: wp intro!: okay_all [OF okay_line_start] okay_mono [OF okay_parse_line [OF assms(1)]])
qed (simp add: wp)

lemma zero_info_ok: "http_info_ok zero_info"
  by (simp add: http_info_ok_def zero_info_def)

lemma okay_parse_info:
  assumes "\<And>h. header = Some h \<Longrightarrow> unat hs \<le> length h"
  shows "okay (net_http_parse_info header hs bs bt ht err) http_info_ok"
proof -
  have z: "http_info_ok (zero_info\<lparr>hi_body_size := bs, hi_header_size := hs, hi_error := err\<rparr>)"
    using zero_info_ok by (simp add: http_info_ok_def)
  show ?thesis
  proof (cases header)
    case None
    then show ?thesis using z by (auto simp: net_http_parse_info_def wp Let_def intro!: okay_flag)
  next
    case (Some h)
    then have h: "unat hs \<le> length h" using assms by simp
    show ?thesis unfolding net_http_parse_info_def Let_def Some option.case
      using h z by (auto simp: wp intro!: okay_flag okay_mono [OF okay_parse_status] okay_parse_lines)
  qed
qed

text \<open>What a byte of the response leaves alone: the connection.\<close>

definition same_connection :: "net_tcp_get \<Rightarrow> net_tcp_get \<Rightarrow> bool" where
  "same_connection g g' \<longleftrightarrow> tg_active g' = tg_active g \<and> tg_device g' = tg_device g \<and> tg_remote_ip g' = tg_remote_ip g \<and>
     tg_local_port g' = tg_local_port g \<and> tg_remote_port g' = tg_remote_port g \<and> tg_seq g' = tg_seq g \<and> tg_ack g' = tg_ack g \<and>
     tg_remote_mac g' = tg_remote_mac g \<and> tg_connected g' = tg_connected g \<and> tg_closed g' = tg_closed g \<and> tg_reset g' = tg_reset g \<and>
     tg_out_capacity g' = tg_out_capacity g \<and> tg_out_size g \<le> tg_out_size g' \<and> length (tg_out g') = length (tg_out g)"

lemma okay_info_into:
  assumes "tcp_get_ok g" and "tg_header g' = tg_header g" and "tg_header_size g' = tg_header_size g" and "tg_info g' = tg_info g"
  shows "okay (parse_info_into g') (\<lambda>i. case i of None \<Rightarrow> True | Some i \<Rightarrow> http_info_ok i)"
  using assms by (cases "tg_info g")
    (auto simp: parse_info_into_def wp tcp_get_ok_def intro!: okay_mono [OF okay_parse_info])

lemma okay_store_header:
  assumes "tcp_get_ok g"
  shows "okay (store_header g ch) (\<lambda>g'. tcp_get_ok g' \<and> same_connection g g')"
proof -
  have "unat (tg_header_size g + 1) = unat (tg_header_size g) + 1" if "unat (tg_header_size g) + 1 < 1024"
    using that by (simp add: unat_word_ariths)
  then show ?thesis using assms by (auto simp: store_header_def wp tcp_get_ok_def same_connection_def)
qed

lemma okay_store_tail:
  assumes "tcp_get_ok g"
  shows "okay (store_tail g ch) (\<lambda>g'. tcp_get_ok g' \<and> same_connection g g')"
proof -
  have "unat (tg_header_tail_count g + 1) = unat (tg_header_tail_count g) + 1" if "unat (tg_header_tail_count g) < 4"
    using that by (simp add: unat_word_ariths)
  then show ?thesis using assms by (auto simp: store_tail_def wp tcp_get_ok_def same_connection_def)
qed

lemma same_connection_trans: "same_connection a b \<Longrightarrow> same_connection b c \<Longrightarrow> same_connection a c"
  by (auto simp: same_connection_def)

lemma info_updated:
  assumes "tcp_get_ok g" and "case i of None \<Rightarrow> True | Some i \<Rightarrow> http_info_ok i"
  shows "tcp_get_ok (g\<lparr>tg_header_done := b, tg_info := i\<rparr>)" "tcp_get_ok (g\<lparr>tg_full := b, tg_info := i\<rparr>)"
    "same_connection g (g\<lparr>tg_header_done := b, tg_info := i\<rparr>)" "same_connection g (g\<lparr>tg_full := b, tg_info := i\<rparr>)"
  using assms by (simp_all add: tcp_get_ok_def same_connection_def)

lemma okay_header_byte:
  assumes "tcp_get_ok g"
  shows "okay (header_byte g ch) (\<lambda>g'. tcp_get_ok g' \<and> same_connection g g')"
proof -
  have fin: "okay (if tg_header_tail_count g' = 4 \<and> tg_header_tail g' = [13, 10, 13, 10]
      then do { i \<leftarrow> parse_info_into (g'\<lparr>tg_header_done := True\<rparr>); Some (g'\<lparr>tg_header_done := True, tg_info := i\<rparr>) }
      else Some g') (\<lambda>g'. tcp_get_ok g' \<and> same_connection g g')" if "tcp_get_ok g'" "same_connection g g'" for g'
  proof -
    have "okay (parse_info_into (g'\<lparr>tg_header_done := True\<rparr>))
        (\<lambda>i. tcp_get_ok (g'\<lparr>tg_header_done := True, tg_info := i\<rparr>) \<and> same_connection g (g'\<lparr>tg_header_done := True, tg_info := i\<rparr>))"
      by (rule okay_mono [OF okay_info_into [OF that(1)]])
        (auto intro: info_updated(1) [OF that(1)] same_connection_trans [OF that(2)] info_updated(3) [OF that(1)])
    then show ?thesis using that by (simp add: wp)
  qed
  show ?thesis unfolding header_byte_def okay_bind [of "store_header _ _"] okay_bind [of "store_tail _ _"]
    by (rule okay_mono [OF okay_store_header [OF assms]], elim conjE, rule okay_mono [OF okay_store_tail], assumption, elim conjE)
      (rule fin, assumption, erule same_connection_trans)
qed

lemma okay_body_byte:
  assumes "tcp_get_ok g" and "tg_active g"
  shows "okay (net_http_copy_body_byte g ch) (\<lambda>g'. tcp_get_ok g' \<and> same_connection g g')"
proof (cases "tg_header_done g")
  case False
  then show ?thesis using okay_header_byte [OF assms(1)] by (simp add: net_http_copy_body_byte_def)
next
  case True
  have sz: "tg_out_size g < tg_out_capacity g" "unat (tg_out_capacity g) \<le> length (tg_out g)"
    using assms by (simp_all add: tcp_get_ok_def)
  then have "unat (tg_out_size g + 1) = unat (tg_out_size g) + 1"
    using unat_u32_bound [of "tg_out_capacity g"] by (simp add: unat_word_ariths word_less_nat_alt)
  moreover have "okay (parse_info_into (g\<lparr>tg_full := True\<rparr>))
        (\<lambda>i. tcp_get_ok (g\<lparr>tg_full := True, tg_info := i\<rparr>) \<and> same_connection g (g\<lparr>tg_full := True, tg_info := i\<rparr>))"
    by (rule okay_mono [OF okay_info_into [OF assms(1)]]) (auto intro: info_updated [OF assms(1)])
  ultimately show ?thesis using True assms sz
    by (auto simp: net_http_copy_body_byte_def wp tcp_get_ok_def same_connection_def not_le word_less_nat_alt word_le_nat_alt)
qed

end
