(* ===== verification/Net_Tcp.thy ===== *)
theory Net_Tcp
  imports Net_Send Net_Http
begin

text \<open>
  Receiving TCP segments: \<^verbatim>\<open>net_handle_tcp\<close> with its two users, the stream (\<^verbatim>\<open>tcp_stream\<close>, a receive buffer the application drains) and the
  HTTP client (\<^verbatim>\<open>tcp_get\<close>, which collects header and body as bytes arrive), and the operations of the application on a
  connected stream. The condition under which data are taken is the same for both users.
\<close>

subsection \<open>The handlers\<close>

definition segment_accepted :: "u32 \<Rightarrow> u32 \<Rightarrow> u32 \<Rightarrow> bool" where
  "segment_accepted seq ack n \<longleftrightarrow> seq = ack \<or> net_tcp_seq_before seq ack \<and> net_tcp_seq_after (seq + n) ack"

definition send_ack :: "u8 \<Rightarrow> 'w net \<Rightarrow> 'w net option" where
  "send_ack flags s = map_option snd (net_tcp_stream_send_packet flags [] 0 s)"

definition stream_take :: "u32 \<Rightarrow> bytes \<Rightarrow> u32 \<Rightarrow> 'w net \<Rightarrow> 'w net option" where
  "stream_take seq payload n s =
     (let t = tcp_stream s; offset = ts_ack t - seq; remaining = n - offset; room = ts_rx_capacity t - ts_rx_size t;
          copy_size = (if remaining < room then remaining else room)
      in if copy_size \<noteq> 0
         then do {
           buf \<leftarrow> net_copy (ts_rx_buffer t) (unat (ts_rx_size t)) payload (unat offset) (unat copy_size);
           Some (debug_info_update (di_tcp_stream_rx_update (\<lambda>n. n + 1))
             (s\<lparr>tcp_stream := t\<lparr>ts_rx_buffer := buf, ts_rx_size := ts_rx_size t + copy_size, ts_ack := ts_ack t + copy_size\<rparr>\<rparr>)) }
         else Some s)"

definition stream_data :: "u32 \<Rightarrow> bytes \<Rightarrow> u32 \<Rightarrow> 'w net \<Rightarrow> 'w net option" where
  "stream_data seq payload n s =
     (if segment_accepted seq (ts_ack (tcp_stream s)) n
      then do { s \<leftarrow> stream_take seq payload n s; send_ack 0x10 s }
      else if net_tcp_seq_after seq (ts_ack (tcp_stream s)) \<or> net_tcp_seq_before seq (ts_ack (tcp_stream s))
      then send_ack 0x10 s
      else Some s)"

definition stream_fin :: "u8 \<Rightarrow> u32 \<Rightarrow> u32 \<Rightarrow> 'w net \<Rightarrow> 'w net option" where
  "stream_fin flags seq n s =
     (if flags AND 0x01 \<noteq> 0 \<and> seq + n = ts_ack (tcp_stream s)
      then do {
        s \<leftarrow> send_ack 0x11 (s\<lparr>tcp_stream := (tcp_stream s)\<lparr>ts_ack := seq + n + 1, ts_closed := True\<rparr>\<rparr>);
        Some (s\<lparr>tcp_stream := (tcp_stream s)\<lparr>ts_seq := ts_seq (tcp_stream s) + 1\<rparr>\<rparr>) }
      else Some s)"

definition stream_acked :: "u8 \<Rightarrow> u32 \<Rightarrow> net_tcp_stream \<Rightarrow> net_tcp_stream" where
  "stream_acked flags ack t =
     (if flags AND 0x10 \<noteq> 0 \<and> ts_tx_acked t < ack then t\<lparr>ts_tx_acked := ack\<rparr> else t)"

definition stream_segment :: "u8 \<Rightarrow> u32 \<Rightarrow> u32 \<Rightarrow> bytes \<Rightarrow> u32 \<Rightarrow> 'w net \<Rightarrow> 'w net option" where
  "stream_segment flags seq ack payload n s0 =
     (if flags AND 0x04 \<noteq> 0 then Some (s0\<lparr>tcp_stream := (tcp_stream s0)\<lparr>ts_reset := True\<rparr>\<rparr>)
      else let s = s0\<lparr>tcp_stream := stream_acked flags ack (tcp_stream s0)\<rparr>
           in if \<not> ts_connected (tcp_stream s) \<and> flags AND 0x12 = 0x12
              then send_ack 0x10 (s\<lparr>tcp_stream := (tcp_stream s)\<lparr>ts_ack := seq + 1, ts_tx_acked := ack, ts_connected := True\<rparr>\<rparr>)
              else do {
                s \<leftarrow> (if n \<noteq> 0 then stream_data seq payload n s else Some s);
                stream_fin flags seq n s })"

definition get_ack :: "u32 \<Rightarrow> u8 \<Rightarrow> 'w net \<Rightarrow> 'w net option" where
  "get_ack index flags s = map_option snd
     (net_send_tcp index (tg_remote_mac (tcp_get s)) (tg_remote_ip (tcp_get s)) (tg_local_port (tcp_get s))
       (tg_remote_port (tcp_get s)) (tg_seq (tcp_get s)) (tg_ack (tcp_get s)) flags [] 0 s)"

fun body_bytes :: "net_tcp_get \<Rightarrow> bytes \<Rightarrow> nat \<Rightarrow> nat \<Rightarrow> net_tcp_get option" where
  "body_bytes g payload i 0 = Some g"
| "body_bytes g payload i (Suc n) = do { c \<leftarrow> ld8 payload i; g \<leftarrow> net_http_copy_body_byte g c; body_bytes g payload (i + 1) n }"

definition get_data :: "u32 \<Rightarrow> u32 \<Rightarrow> bytes \<Rightarrow> u32 \<Rightarrow> 'w net \<Rightarrow> 'w net option" where
  "get_data index seq payload n s =
     (if segment_accepted seq (tg_ack (tcp_get s)) n
      then let offset = tg_ack (tcp_get s) - seq; remaining = n - offset
           in do {
             g \<leftarrow> body_bytes (tcp_get s) payload (unat offset) (unat remaining);
             get_ack index 0x10 (s\<lparr>tcp_get := g\<lparr>tg_ack := tg_ack g + remaining\<rparr>\<rparr>) }
      else if net_tcp_seq_after seq (tg_ack (tcp_get s)) \<or> net_tcp_seq_before seq (tg_ack (tcp_get s))
      then get_ack index 0x10 s
      else Some s)"

definition get_fin :: "u32 \<Rightarrow> u8 \<Rightarrow> u32 \<Rightarrow> u32 \<Rightarrow> 'w net \<Rightarrow> 'w net option" where
  "get_fin index flags seq n s =
     (if flags AND 0x01 \<noteq> 0 \<and> seq + n = tg_ack (tcp_get s)
      then do {
        s \<leftarrow> get_ack index 0x11 (s\<lparr>tcp_get := (tcp_get s)\<lparr>tg_ack := seq + n + 1, tg_closed := True\<rparr>\<rparr>);
        Some (s\<lparr>tcp_get := (tcp_get s)\<lparr>tg_seq := tg_seq (tcp_get s) + 1\<rparr>\<rparr>) }
      else Some s)"

definition get_segment :: "u32 \<Rightarrow> u8 \<Rightarrow> u32 \<Rightarrow> bytes \<Rightarrow> u32 \<Rightarrow> 'w net \<Rightarrow> 'w net option" where
  "get_segment index flags seq payload n s =
     (if flags AND 0x04 \<noteq> 0 then Some (s\<lparr>tcp_get := (tcp_get s)\<lparr>tg_reset := True\<rparr>\<rparr>)
      else if \<not> tg_connected (tcp_get s) \<and> flags AND 0x12 = 0x12
      then get_ack index 0x10 (s\<lparr>tcp_get := (tcp_get s)\<lparr>tg_ack := seq + 1, tg_connected := True\<rparr>\<rparr>)
      else do {
        s \<leftarrow> (if n \<noteq> 0 then get_data index seq payload n s else Some s);
        get_fin index flags seq n s })"

text \<open>Which connection a segment belongs to.\<close>

definition tcp_dispatch :: "u32 \<Rightarrow> u32 \<Rightarrow> u16 \<Rightarrow> u16 \<Rightarrow> u8 \<Rightarrow> u32 \<Rightarrow> u32 \<Rightarrow> bytes \<Rightarrow> u32 \<Rightarrow> 'w net \<Rightarrow> 'w net option" where
  "tcp_dispatch index src_ip src_port dst_port flags seq ack payload n s =
     (let t = tcp_stream s; g = tcp_get s
      in if ts_active t \<and> ts_device t = index \<and> src_ip = ts_remote_ip t \<and> src_port = ts_remote_port t \<and> dst_port = ts_local_port t
         then stream_segment flags seq ack payload n s
         else if \<not> tg_active g \<or> tg_device g \<noteq> index then Some s
         else if src_ip \<noteq> tg_remote_ip g \<or> src_port \<noteq> tg_remote_port g \<or> dst_port \<noteq> tg_local_port g then Some s
         else get_segment index flags seq payload n s)"

definition net_handle_tcp :: "u32 \<Rightarrow> bytes \<Rightarrow> u32 \<Rightarrow> u32 \<Rightarrow> 'w net \<Rightarrow> 'w net option" where
  "net_handle_tcp index ip ip_header_size ip_total_size s =
     (if ip_total_size < ip_header_size + 20 then Some s
      else do {
        tcp \<leftarrow> Some (drop (unat ip_header_size) ip);
        data_offset \<leftarrow> ld8 tcp 12;
        let tcp_header_size = ucast (drop_bit 4 data_offset) * 4;
        if tcp_header_size < 20 \<or> ip_total_size < ip_header_size + tcp_header_size then Some s
        else do {
          src \<leftarrow> ld32 ip 12;
          seq \<leftarrow> ld32 tcp 4;
          ack \<leftarrow> ld32 tcp 8;
          src_port \<leftarrow> ld16 tcp 0;
          dst_port \<leftarrow> ld16 tcp 2;
          flags \<leftarrow> ld8 tcp 13;
          tcp_dispatch index (net_ntohl src) (net_ntohs src_port) (net_ntohs dst_port) flags (net_ntohl seq) (net_ntohl ack)
            (drop (unat tcp_header_size) tcp) (ip_total_size - ip_header_size - tcp_header_size) s } })"

subsection \<open>The application side of a stream\<close>

text \<open>Taking received bytes out of the buffer, once there are some: the part of \<^verbatim>\<open>net_tcp_stream_recv\<close> after its waiting loop.\<close>

definition shift_down :: "nat \<Rightarrow> nat \<Rightarrow> bytes \<Rightarrow> bytes option" where
  "shift_down k n buf = foldl (\<lambda>b i. do { buf \<leftarrow> b; c \<leftarrow> ld8 buf i; st8 buf (i - k) c }) (Some buf) [k..<n]"

definition stream_deliver :: "bytes \<Rightarrow> u32 \<Rightarrow> 'w net \<Rightarrow> (bytes \<times> int \<times> 'w net) option" where
  "stream_deliver out cap s =
     (let t = tcp_stream s; copy_size = (if ts_rx_size t < cap then ts_rx_size t else cap)
      in do {
        out \<leftarrow> net_copy out 0 (ts_rx_buffer t) 0 (unat copy_size);
        buf \<leftarrow> (if copy_size < ts_rx_size t then shift_down (unat copy_size) (unat (ts_rx_size t)) (ts_rx_buffer t)
               else Some (ts_rx_buffer t));
        s \<leftarrow> Some (s\<lparr>tcp_stream := t\<lparr>ts_rx_buffer := buf, ts_rx_size := ts_rx_size t - copy_size\<rparr>\<rparr>);
        s \<leftarrow> (if ts_connected (tcp_stream s) \<and> \<not> ts_closed (tcp_stream s) then send_ack 0x10 s else Some s);
        Some (out, uint copy_size, s) })"

definition net_tcp_stream_close :: "'w net \<Rightarrow> 'w net option" where
  "net_tcp_stream_close s0 = do {
     s \<leftarrow> (if ts_active (tcp_stream s0) \<and> ts_connected (tcp_stream s0) \<and> \<not> ts_closed (tcp_stream s0)
          then do {
            s \<leftarrow> send_ack 0x11 s0;
            Some (s\<lparr>tcp_stream := (tcp_stream s)\<lparr>ts_seq := ts_seq (tcp_stream s) + 1\<rparr>\<rparr>) }
          else Some s0);
     Some (s\<lparr>tcp_stream := (tcp_stream s)\<lparr>ts_active := False\<rparr>\<rparr>) }"

subsection \<open>Sequence numbers\<close>

lemma sint32:
  fixes w :: u32
  obtains n where "unat w = n" and "n < 2 ^ 32" and "sint w = (if n < 2 ^ 31 then int n else int n - 2 ^ 32)"
proof -
  define n where "n = unat w"
  have n: "uint w = int n" "n < 2 ^ 32" using unat_u32_bound [of w] by (simp_all add: n_def)
  have s: "sint w = take_bit 32 (int n + 2 ^ 31) - 2 ^ 31"
    using n(1) by (simp add: sint_uint signed_take_bit_eq_take_bit_shift)
  have "sint w = (if n < 2 ^ 31 then int n else int n - 2 ^ 32)"
  proof (cases "n < 2 ^ 31")
    case True
    then have "take_bit 32 (int n + 2 ^ 31) = int n + 2 ^ 31" by (intro take_bit_int_eq_self) auto
    then show ?thesis using True s by simp
  next
    case False
    then have "(int n + 2 ^ 31) mod 2 ^ 32 = int n + 2 ^ 31 - 2 ^ 32" using n(2) by (subst mod_pos_geq) auto
    then show ?thesis using False s by (simp add: take_bit_eq_mod)
  qed
  then show thesis using that [of n] n n_def by simp
qed

lemma sint32_neg: "sint (w :: u32) < 0 \<longleftrightarrow> 2 ^ 31 \<le> unat w"
proof -
  obtain n where n: "unat w = n" "n < 2 ^ 32" "sint w = (if n < 2 ^ 31 then int n else int n - 2 ^ 32)" by (rule sint32)
  then show ?thesis unfolding n(1,3) using n(2) by auto
qed

lemma sint32_pos: "0 < sint (w :: u32) \<longleftrightarrow> 0 < unat w \<and> unat w < 2 ^ 31"
proof -
  obtain n where n: "unat w = n" "n < 2 ^ 32" "sint w = (if n < 2 ^ 31 then int n else int n - 2 ^ 32)" by (rule sint32)
  then show ?thesis unfolding n(1,3) using n(2) by auto
qed

text \<open>A segment that is taken covers the next byte expected: the offset of that byte lies inside the payload.\<close>

lemma accepted_offset:
  assumes "segment_accepted seq ack n" and "n \<noteq> 0" and "unat n < 2 ^ 16"
  shows "unat (ack - seq) < unat n"
proof (cases "seq = ack")
  case True
  then show ?thesis using assms(2) by (simp add: unat_gt_0)
next
  case False
  define d where "d = ack - seq"
  have e: "seq - ack = 0 - d" "seq + n - ack = n - d" "d \<noteq> 0" using False by (simp_all add: d_def)
  have "2 ^ 31 \<le> unat (0 - d)" "0 < unat (n - d)" "unat (n - d) < 2 ^ 31"
    using assms(1) False unfolding segment_accepted_def net_tcp_seq_before_def net_tcp_seq_after_def sint32_neg sint32_pos e(1,2) by simp_all
  moreover have "unat d < 2 ^ 32" by (rule unat_u32_bound)
  moreover have "unat (0 - d) = 2 ^ 32 - unat d" using e(3) by (simp only: unat_sub_if') (simp add: unat_eq_zero)
  ultimately have "unat d < unat n" using assms(3) e(3)
    by (simp add: unat_sub_if' [of n d] split: if_splits)
  then show ?thesis by (simp add: d_def)
qed

subsection \<open>Staying inside the buffers\<close>

lemma okay_map [wp]: "okay (map_option f m) P \<longleftrightarrow> okay m (\<lambda>x. P (f x))"
  by (cases m) (simp_all add: okay_def)

lemma okay_send_ack:
  assumes "net_ok s"
  shows "okay (send_ack flags s) (\<lambda>s'. same_stack s s')"
  using okay_stream_packet [of s flags] assms by (auto simp: send_ack_def wp net_ok_def split_def elim!: okay_mono)

lemma okay_get_ack:
  assumes "net_ok s"
  shows "okay (get_ack index flags s) (\<lambda>s'. same_stack s s')"
proof -
  have "okay (net_send_tcp_window index (tg_remote_mac (tcp_get s)) ip p q a b flags w [] 0 s) (\<lambda>(r, s'). same_stack s s')" for ip p q a b w
    using assms by (intro okay_send_tcp_window) (auto simp: net_ok_def tcp_get_ok_def)
  then show ?thesis by (auto simp: get_ack_def net_send_tcp_def wp split_def elim!: okay_mono)
qed

lemma ok_send_ack: "net_ok s \<Longrightarrow> okay (send_ack flags s) net_ok"
  by (rule okay_mono [OF okay_send_ack]) (auto simp: same_stack_ok)

lemma ok_get_ack: "net_ok s \<Longrightarrow> okay (get_ack index flags s) net_ok"
  by (rule okay_mono [OF okay_get_ack]) (auto simp: same_stack_ok)

text \<open>How many bytes of a segment are taken, and which.\<close>

definition taken :: "net_tcp_stream \<Rightarrow> u32 \<Rightarrow> bytes \<Rightarrow> u32 \<Rightarrow> bytes" where
  "taken t seq payload n =
     slice (unat (ts_ack t - seq)) (min (unat n - unat (ts_ack t - seq)) (unat (ts_rx_capacity t) - unat (ts_rx_size t))) payload"

definition put_bytes :: "bytes \<Rightarrow> net_tcp_stream \<Rightarrow> net_tcp_stream" where
  "put_bytes b t = t\<lparr>ts_rx_buffer := overwrite (unat (ts_rx_size t)) b (ts_rx_buffer t),
     ts_rx_size := ts_rx_size t + of_nat (length b), ts_ack := ts_ack t + of_nat (length b)\<rparr>"

lemma okay_stream_take:
  assumes "tcp_stream_ok (tcp_stream s)" and "ts_active (tcp_stream s)" and "unat (ts_ack (tcp_stream s) - seq) < unat n" and "unat n \<le> length payload"
  shows "okay (stream_take seq payload n s) (\<lambda>s'. s' = s\<lparr>debug_info := debug_info s',
    tcp_stream := put_bytes (taken (tcp_stream s) seq payload n) (tcp_stream s)\<rparr>)"
proof -
  let ?t = "tcp_stream s" and ?o = "ts_ack (tcp_stream s) - seq"
  let ?c = "if n - ?o < ts_rx_capacity ?t - ts_rx_size ?t then n - ?o else ts_rx_capacity ?t - ts_rx_size ?t"
  have r: "unat (n - ?o) = unat n - unat ?o" using assms(3) by (simp add: unat_sub word_le_nat_alt)
  have q: "unat (ts_rx_capacity ?t - ts_rx_size ?t) = unat (ts_rx_capacity ?t) - unat (ts_rx_size ?t)"
    "unat (ts_rx_size ?t) \<le> unat (ts_rx_capacity ?t)" "unat (ts_rx_capacity ?t) \<le> length (ts_rx_buffer ?t)"
    using assms(1,2) by (simp_all add: tcp_stream_ok_def unat_sub word_le_nat_alt)
  have c: "unat ?c = min (unat n - unat ?o) (unat (ts_rx_capacity ?t) - unat (ts_rx_size ?t))"
    using r q(1) by (simp add: word_less_nat_alt min_def)
  have T: "taken ?t seq payload n = slice (unat ?o) (unat ?c) payload" unfolding taken_def c ..
  have l: "unat ?o + unat ?c \<le> length payload" "unat (ts_rx_size ?t) + unat ?c \<le> length (ts_rx_buffer ?t)"
    unfolding c using assms(3,4) q(2,3) by auto
  then have len: "length (taken ?t seq payload n) = unat ?c" unfolding T by simp
  have z: "put_bytes (taken ?t seq payload n) ?t = ?t" if "?c = 0"
    using len that by (simp add: put_bytes_def)
  have "of_nat (length (taken ?t seq payload n)) = ?c" unfolding len by simp
  then show ?thesis using l z unfolding stream_take_def Let_def T
    by (auto simp: wp put_bytes_def simp del: if_split)
qed

text \<open>The effect of a segment on the stream, apart from what is sent.\<close>

definition data_effect :: "u32 \<Rightarrow> bytes \<Rightarrow> u32 \<Rightarrow> net_tcp_stream \<Rightarrow> net_tcp_stream" where
  "data_effect seq payload n t = (if n \<noteq> 0 \<and> segment_accepted seq (ts_ack t) n then put_bytes (taken t seq payload n) t else t)"

definition fin_effect :: "u8 \<Rightarrow> u32 \<Rightarrow> u32 \<Rightarrow> net_tcp_stream \<Rightarrow> net_tcp_stream" where
  "fin_effect flags seq n t =
     (if flags AND 0x01 \<noteq> 0 \<and> seq + n = ts_ack t then t\<lparr>ts_ack := seq + n + 1, ts_closed := True, ts_seq := ts_seq t + 1\<rparr> else t)"

definition segment_effect :: "u8 \<Rightarrow> u32 \<Rightarrow> u32 \<Rightarrow> bytes \<Rightarrow> u32 \<Rightarrow> net_tcp_stream \<Rightarrow> net_tcp_stream" where
  "segment_effect flags seq ack payload n t0 =
     (if flags AND 0x04 \<noteq> 0 then t0\<lparr>ts_reset := True\<rparr>
      else let t = stream_acked flags ack t0
           in if \<not> ts_connected t \<and> flags AND 0x12 = 0x12 then t\<lparr>ts_ack := seq + 1, ts_tx_acked := ack, ts_connected := True\<rparr>
              else fin_effect flags seq n (data_effect seq payload n t))"

definition with_stream :: "net_tcp_stream \<Rightarrow> 'w net \<Rightarrow> 'w net" where
  "with_stream t s = s\<lparr>tcp_stream := t\<rparr>"

lemma with_stream [simp]: "tcp_stream (with_stream t s) = t" "with_stream t (with_stream u s) = with_stream t s" "with_stream (tcp_stream s) s = s"
  by (simp_all add: with_stream_def)

lemma same_with_stream: "same_stack s s' \<Longrightarrow> same_stack (with_stream t s) (with_stream t s')"
  by (simp add: same_stack_def stack_part_def with_stream_def)

lemma with_stream_ok: "net_ok s \<Longrightarrow> net_ok (with_stream t s) \<longleftrightarrow> tcp_stream_ok t"
  by (simp add: net_ok_def with_stream_def devices_ok_def)

lemma put_bytes_ok:
  assumes "tcp_stream_ok t" and "ts_active t" and "length b \<le> unat (ts_rx_capacity t) - unat (ts_rx_size t)"
  shows "tcp_stream_ok (put_bytes b t)" "unat (ts_rx_size (put_bytes b t)) = unat (ts_rx_size t) + length b"
proof -
  have c: "unat (ts_rx_size t) \<le> unat (ts_rx_capacity t)" "unat (ts_rx_capacity t) \<le> length (ts_rx_buffer t)"
    using assms by (simp_all add: tcp_stream_ok_def word_le_nat_alt)
  then have "unat (ts_rx_size t) + length b < 2 ^ 32" using assms(3) unat_u32_bound [of "ts_rx_capacity t"] by simp
  then show u: "unat (ts_rx_size (put_bytes b t)) = unat (ts_rx_size t) + length b"
    by (simp add: put_bytes_def unat_word_ariths unat_of_nat take_bit_nat_eq_self)
  then show "tcp_stream_ok (put_bytes b t)" using assms c by (simp add: tcp_stream_ok_def put_bytes_def word_le_nat_alt)
qed

lemma taken_length: "length (taken t seq payload n) \<le> unat (ts_rx_capacity t) - unat (ts_rx_size t)"
  by (simp add: taken_def length_slice)

lemma effect_ok:
  assumes "tcp_stream_ok t" and "ts_active t"
  shows "tcp_stream_ok (data_effect seq payload n t)" "ts_active (data_effect seq payload n t)"
    "tcp_stream_ok (fin_effect flags seq n t)" "ts_active (fin_effect flags seq n t)"
    "tcp_stream_ok (segment_effect flags seq ack payload n t)" "ts_active (segment_effect flags seq ack payload n t)"
proof -
  have d: "tcp_stream_ok (data_effect seq payload n t) \<and> ts_active (data_effect seq payload n t)" if "tcp_stream_ok t" "ts_active t" for t
    using that put_bytes_ok(1) [OF that taken_length] by (auto simp: data_effect_def put_bytes_def)
  have f: "tcp_stream_ok (fin_effect flags seq n t) \<and> ts_active (fin_effect flags seq n t)" if "tcp_stream_ok t" "ts_active t" for t
    using that by (auto simp: fin_effect_def tcp_stream_ok_def)
  let ?a = "stream_acked flags ack t"
  have a: "tcp_stream_ok ?a" "ts_active ?a"
    using assms by (auto simp: stream_acked_def tcp_stream_ok_def)
  have "tcp_stream_ok (t\<lparr>ts_reset := True\<rparr>)" "tcp_stream_ok (?a\<lparr>ts_ack := seq + 1, ts_tx_acked := ack, ts_connected := True\<rparr>)"
    using a assms by (simp_all add: tcp_stream_ok_def)
  moreover have "tcp_stream_ok (fin_effect flags seq n (data_effect seq payload n ?a))" "ts_active (fin_effect flags seq n (data_effect seq payload n ?a))"
    using f [of "data_effect seq payload n ?a"] d [OF a] by simp_all
  ultimately show "tcp_stream_ok (segment_effect flags seq ack payload n t)" "ts_active (segment_effect flags seq ack payload n t)"
    using a assms unfolding segment_effect_def Let_def by simp_all
  show "tcp_stream_ok (data_effect seq payload n t)" "ts_active (data_effect seq payload n t)"
    "tcp_stream_ok (fin_effect flags seq n t)" "ts_active (fin_effect flags seq n t)"
    using assms d f by auto
qed

lemma okay_stream_data:
  assumes "net_ok s" and "ts_active (tcp_stream s)" and "n \<noteq> 0" and "unat n < 2 ^ 16" and "unat n \<le> length payload"
  shows "okay (stream_data seq payload n s) (\<lambda>s'. same_stack (with_stream (data_effect seq payload n (tcp_stream s)) s) s')"
proof -
  have t: "tcp_stream_ok (tcp_stream s)" using assms(1) by (simp add: net_ok_def)
  show ?thesis
  proof (cases "segment_accepted seq (ts_ack (tcp_stream s)) n")
    case True
    let ?t = "put_bytes (taken (tcp_stream s) seq payload n) (tcp_stream s)"
    have e: "data_effect seq payload n (tcp_stream s) = ?t" using True assms(3) by (simp add: data_effect_def)
    have "tcp_stream_ok ?t" using effect_ok(1) [OF t assms(2), of seq payload n] e by simp
    then have ok: "net_ok (with_stream ?t s)" using assms(1) by (simp add: with_stream_ok)
    have "okay (send_ack 0x10 s') (\<lambda>s'. same_stack (with_stream ?t s) s')"
      if "s' = s\<lparr>debug_info := debug_info s', tcp_stream := ?t\<rparr>" for s'
    proof -
      have "s' = debug_info_update (\<lambda>_. debug_info s') (with_stream ?t s)" unfolding with_stream_def by (subst that) simp
      then have same: "same_stack (with_stream ?t s) s'" by (metis same_debug(1))
      then have "net_ok s'" using ok same_stack_ok by blast
      then show ?thesis by (rule okay_mono [OF okay_send_ack]) (rule same_stack_trans [OF same])
    qed
    then show ?thesis
      using True okay_mono [OF okay_stream_take [OF t assms(2) accepted_offset [OF True assms(3,4)] assms(5)]]
      unfolding stream_data_def e by (simp add: wp)
  next
    case False
    then have "data_effect seq payload n (tcp_stream s) = tcp_stream s" by (simp add: data_effect_def)
    then show ?thesis using False okay_send_ack [OF assms(1), of "0x10"] unfolding stream_data_def by (simp add: wp)
  qed
qed

lemma okay_stream_fin:
  assumes "net_ok s" and "ts_active (tcp_stream s)"
  shows "okay (stream_fin flags seq n s) (\<lambda>s'. same_stack (with_stream (fin_effect flags seq n (tcp_stream s)) s) s')"
proof (cases "flags AND 0x01 \<noteq> 0 \<and> seq + n = ts_ack (tcp_stream s)")
  case True
  let ?t = "(tcp_stream s)\<lparr>ts_ack := seq + n + 1, ts_closed := True\<rparr>"
  have "net_ok (with_stream ?t s)" using assms by (simp add: with_stream_ok) (simp add: net_ok_def tcp_stream_ok_def)
  then have "okay (send_ack 0x11 (with_stream ?t s)) (\<lambda>s'. same_stack (with_stream (fin_effect flags seq n (tcp_stream s)) s)
      (with_stream ((tcp_stream s')\<lparr>ts_seq := ts_seq (tcp_stream s') + 1\<rparr>) s'))"
  proof (rule okay_mono [OF okay_send_ack])
    fix s' assume st: "same_stack (with_stream ?t s) s'"
    then have e: "tcp_stream s' = ?t" using same_stack_fields(4) by fastforce
    have "fin_effect flags seq n (tcp_stream s) = (tcp_stream s')\<lparr>ts_seq := ts_seq (tcp_stream s') + 1\<rparr>"
      using True e by (simp add: fin_effect_def)
    then show "same_stack (with_stream (fin_effect flags seq n (tcp_stream s)) s) (with_stream ((tcp_stream s')\<lparr>ts_seq := ts_seq (tcp_stream s') + 1\<rparr>) s')"
      using same_with_stream [OF st] by simp
  qed
  then show ?thesis using True unfolding stream_fin_def with_stream_def by (simp add: wp)
next
  case False
  then have "fin_effect flags seq n (tcp_stream s) = tcp_stream s" by (auto simp: fin_effect_def)
  then show ?thesis using False by (auto simp: stream_fin_def wp)
qed

lemma okay_stream_segment:
  assumes "net_ok s" and "ts_active (tcp_stream s)" and "unat n < 2 ^ 16" and "unat n \<le> length payload"
  shows "okay (stream_segment flags seq ack payload n s)
    (\<lambda>s'. same_stack (with_stream (segment_effect flags seq ack payload n (tcp_stream s)) s) s')"
proof -
  let ?t = "tcp_stream s" and ?a = "stream_acked flags ack (tcp_stream s)"
  have t: "tcp_stream_ok ?t" using assms(1) by (simp add: net_ok_def)
  have a: "tcp_stream_ok ?a" "ts_active ?a" using t assms(2) by (auto simp: stream_acked_def tcp_stream_ok_def)
  have A: "net_ok (with_stream ?a s)" using assms(1) a by (simp add: with_stream_ok)
  consider (rst) "flags AND 0x04 \<noteq> 0" | (syn) "flags AND 0x04 = 0" "\<not> ts_connected ?a \<and> flags AND 0x12 = 0x12"
    | (data) "flags AND 0x04 = 0" "\<not> (\<not> ts_connected ?a \<and> flags AND 0x12 = 0x12)" by blast
  then show ?thesis
  proof cases
    case rst
    then show ?thesis by (simp add: stream_segment_def segment_effect_def wp with_stream_def)
  next
    case syn
    let ?u = "?a\<lparr>ts_ack := seq + 1, ts_tx_acked := ack, ts_connected := True\<rparr>"
    have "net_ok (with_stream ?u s)" using assms(1) a by (simp add: with_stream_ok) (simp add: tcp_stream_ok_def)
    from okay_send_ack [OF this] show ?thesis
      using syn by (simp add: stream_segment_def segment_effect_def Let_def with_stream_def)
  next
    case data
    let ?d = "data_effect seq payload n ?a"
    have "okay (if n \<noteq> 0 then stream_data seq payload n (with_stream ?a s) else Some (with_stream ?a s)) (\<lambda>s'. same_stack (with_stream ?d s) s')"
    proof (cases "n = 0")
      case True
      then show ?thesis by (simp add: wp data_effect_def)
    next
      case False
      then show ?thesis using okay_stream_data [OF A _ False assms(3,4), of seq] a by simp
    qed
    then have "okay ((if n \<noteq> 0 then stream_data seq payload n (with_stream ?a s) else Some (with_stream ?a s)) \<bind> stream_fin flags seq n)
        (\<lambda>s'. same_stack (with_stream (fin_effect flags seq n ?d) s) s')"
      unfolding okay_bind
    proof (rule okay_mono)
      fix s' assume st: "same_stack (with_stream ?d s) s'"
      then have e: "tcp_stream s' = ?d" using same_stack_fields(4) by fastforce
      have "net_ok (with_stream ?d s)" using assms(1) effect_ok(1) [OF a] by (simp add: with_stream_ok)
      then have "net_ok s'" using st same_stack_ok by blast
      from okay_stream_fin [OF this, of flags seq n] show "okay (stream_fin flags seq n s') (\<lambda>s'. same_stack (with_stream (fin_effect flags seq n ?d) s) s')"
        using effect_ok(2) [OF a] same_stack_trans [OF same_with_stream [OF st]] unfolding e by (auto elim!: okay_mono)
    qed
    moreover have "stream_segment flags seq ack payload n s =
        (if n \<noteq> 0 then stream_data seq payload n (with_stream ?a s) else Some (with_stream ?a s)) \<bind> stream_fin flags seq n"
      using data by (auto simp: stream_segment_def Let_def with_stream_def)
    moreover have "segment_effect flags seq ack payload n ?t = fin_effect flags seq n ?d"
      using data by (auto simp: segment_effect_def Let_def)
    ultimately show ?thesis by simp
  qed
qed

lemma okay_body_bytes:
  assumes "tcp_get_ok g" and "tg_active g" and "n = 0 \<or> i + n \<le> length payload"
  shows "okay (body_bytes g payload i n) (\<lambda>g'. tcp_get_ok g' \<and> same_connection g g')"
  using assms
proof (induction n arbitrary: g i)
  case 0
  then show ?case by (simp add: wp same_connection_def)
next
  case (Suc n)
  have "okay (body_bytes g' payload (Suc i) n) (\<lambda>g''. tcp_get_ok g'' \<and> same_connection g g'')"
    if "tcp_get_ok g'" "same_connection g g'" for g'
  proof (rule okay_mono [OF Suc.IH])
    show "tcp_get_ok g'" "tg_active g'" "n = 0 \<or> Suc i + n \<le> length payload"
      using that Suc.prems by (auto simp: same_connection_def)
  qed (use that same_connection_trans in auto)
  then show ?case using Suc.prems by (auto simp: wp intro!: okay_mono [OF okay_body_byte [OF Suc.prems(1,2)]])
qed

definition with_get :: "net_tcp_get \<Rightarrow> 'w net \<Rightarrow> 'w net" where
  "with_get g s = s\<lparr>tcp_get := g\<rparr>"

lemma with_get_ok: "net_ok s \<Longrightarrow> net_ok (with_get g s) \<longleftrightarrow> tcp_get_ok g"
  by (simp add: net_ok_def with_get_def devices_ok_def)

lemma get_fields_ok:
  assumes "tcp_get_ok g"
  shows "tcp_get_ok (g\<lparr>tg_ack := a\<rparr>)" "tcp_get_ok (g\<lparr>tg_ack := a, tg_closed := b\<rparr>)" "tcp_get_ok (g\<lparr>tg_ack := a, tg_connected := b\<rparr>)"
    "tcp_get_ok (g\<lparr>tg_seq := a\<rparr>)" "tcp_get_ok (g\<lparr>tg_reset := b\<rparr>)"
  using assms by (simp_all add: tcp_get_ok_def)

lemma okay_get_data:
  assumes "net_ok s" and "tg_active (tcp_get s)" and "n \<noteq> 0" and "unat n < 2 ^ 16" and "unat n \<le> length payload"
  shows "okay (get_data index seq payload n s) net_ok"
proof (cases "segment_accepted seq (tg_ack (tcp_get s)) n")
  case True
  let ?o = "tg_ack (tcp_get s) - seq"
  have o: "unat ?o < unat n" by (rule accepted_offset [OF True assms(3,4)])
  then have "unat (n - ?o) = unat n - unat ?o" by (simp add: unat_sub word_le_nat_alt)
  then have "unat ?o + unat (n - ?o) \<le> length payload" using o assms(5) by simp
  moreover have g: "tcp_get_ok (tcp_get s)" using assms(1) by (simp add: net_ok_def)
  ultimately have "okay (body_bytes (tcp_get s) payload (unat ?o) (unat (n - ?o)))
      (\<lambda>g. okay (get_ack index 0x10 (with_get (g\<lparr>tg_ack := tg_ack g + (n - ?o)\<rparr>) s)) net_ok)"
    using assms(1,2) by (intro okay_mono [OF okay_body_bytes] ok_get_ack) (auto simp: with_get_ok get_fields_ok)
  then show ?thesis using True unfolding get_data_def Let_def with_get_def by (simp add: wp)
next
  case False
  then show ?thesis using ok_get_ack [OF assms(1)] assms(1) by (simp add: get_data_def wp)
qed

lemma okay_get_fin:
  assumes "net_ok s"
  shows "okay (get_fin index flags seq n s) net_ok"
proof (cases "flags AND 0x01 \<noteq> 0 \<and> seq + n = tg_ack (tcp_get s)")
  case True
  let ?g = "(tcp_get s)\<lparr>tg_ack := seq + n + 1, tg_closed := True\<rparr>"
  have "net_ok (with_get ?g s)" using assms by (simp add: with_get_ok) (simp add: net_ok_def get_fields_ok)
  then have "okay (get_ack index 0x11 (with_get ?g s)) (\<lambda>s'. net_ok (with_get ((tcp_get s')\<lparr>tg_seq := tg_seq (tcp_get s') + 1\<rparr>) s'))"
    by (rule okay_mono [OF ok_get_ack]) (simp add: with_get_ok, simp add: net_ok_def get_fields_ok)
  then show ?thesis using True unfolding get_fin_def with_get_def by (simp add: wp)
next
  case False
  then show ?thesis using assms by (auto simp: get_fin_def wp)
qed

lemma okay_get_segment:
  assumes "net_ok s" and "tg_active (tcp_get s)" and "unat n < 2 ^ 16" and "unat n \<le> length payload"
  shows "okay (get_segment index flags seq payload n s) net_ok"
proof -
  have g: "tcp_get_ok (tcp_get s)" using assms(1) by (simp add: net_ok_def)
  have "net_ok (with_get ((tcp_get s)\<lparr>tg_reset := True\<rparr>) s)" "net_ok (with_get ((tcp_get s)\<lparr>tg_ack := seq + 1, tg_connected := True\<rparr>) s)"
    using assms(1) g by (simp_all add: with_get_ok get_fields_ok)
  then have 1: "net_ok (s\<lparr>tcp_get := (tcp_get s)\<lparr>tg_reset := True\<rparr>\<rparr>)"
    "okay (get_ack index 0x10 (s\<lparr>tcp_get := (tcp_get s)\<lparr>tg_ack := seq + 1, tg_connected := True\<rparr>\<rparr>)) net_ok"
    using ok_get_ack by (auto simp: with_get_def)
  have "okay (if n \<noteq> 0 then get_data index seq payload n s else Some s) net_ok"
    using okay_get_data [OF assms(1,2) _ assms(3,4)] assms(1) by (auto simp: wp)
  then have "okay ((if n \<noteq> 0 then get_data index seq payload n s else Some s) \<bind> get_fin index flags seq n) net_ok"
    unfolding okay_bind by (rule okay_mono) (rule okay_get_fin)
  then show ?thesis using 1 unfolding get_segment_def by (auto simp: okay_Some)
qed

lemma okay_tcp_dispatch:
  assumes "net_ok s" and n: "unat n < 2 ^ 16" "unat n \<le> length payload"
  shows "okay (tcp_dispatch index src_ip src_port dst_port flags seq ack payload n s) net_ok"
proof -
  have "okay (stream_segment flags seq ack payload n s) net_ok" if a: "ts_active (tcp_stream s)"
  proof (rule okay_mono [OF okay_stream_segment [OF assms(1) a n]])
    fix s' assume "same_stack (with_stream (segment_effect flags seq ack payload n (tcp_stream s)) s) s'"
    then show "net_ok s'" using same_stack_ok with_stream_ok [OF assms(1)] effect_ok(5) [OF _ a] assms(1) by (metis net_ok_def)
  qed
  then show ?thesis using okay_get_segment [OF assms(1) _ n] assms(1) by (simp add: tcp_dispatch_def Let_def okay_Some)
qed

lemma okay_handle_tcp:
  assumes "net_ok s" and "unat ip_total_size \<le> length ip" and "unat ip_total_size < 2 ^ 16" and "unat ip_header_size < 2 ^ 16"
    and "20 \<le> unat ip_header_size"
  shows "okay (net_handle_tcp index ip ip_header_size ip_total_size s) net_ok"
proof (cases "ip_total_size < ip_header_size + 20")
  case True
  then show ?thesis using assms(1) by (simp add: net_handle_tcp_def wp)
next
  case False
  have u: "unat (ip_header_size + 20) = unat ip_header_size + 20" using assms(4) by (simp add: unat_word_ariths)
  then have h: "unat ip_header_size + 20 \<le> unat ip_total_size" using False by (simp add: word_less_nat_alt)
  let ?tcp = "drop (unat ip_header_size) ip"
  have l: "20 \<le> length ?tcp" "20 \<le> length ip" using h assms(2,5) by simp_all
  define ths where "ths = ucast (drop_bit 4 (?tcp ! 12)) * (4 :: u32)"
  have "unat (drop_bit 4 (?tcp ! 12)) < 16"
    using byte_bound [of "?tcp ! 12"] by (simp add: drop_bit_eq_div unat_div div_less_iff_less_mult)
  then have t: "unat ths < 64"
    by (simp add: ths_def unat_word_ariths unsigned_ucast_eq take_bit_nat_eq_self)
  have seg: "okay (tcp_dispatch index a b c d e f (drop (unat ths) ?tcp) (ip_total_size - ip_header_size - ths) s) net_ok"
    if "\<not> ip_total_size < ip_header_size + ths" for a b c d e f
  proof -
    have "unat (ip_header_size + ths) = unat ip_header_size + unat ths" using assms(4) t by (simp add: unat_word_ariths)
    then have le: "unat ip_header_size + unat ths \<le> unat ip_total_size" using that by (simp add: word_less_nat_alt)
    have "unat (ip_total_size - ip_header_size) = unat ip_total_size - unat ip_header_size"
      using h by (intro unat_sub) (simp add: word_le_nat_alt)
    moreover have "unat (ip_total_size - ip_header_size - ths) = unat (ip_total_size - ip_header_size) - unat ths"
      using le calculation by (intro unat_sub) (simp add: word_le_nat_alt)
    ultimately have p: "unat (ip_total_size - ip_header_size - ths) = unat ip_total_size - unat ip_header_size - unat ths" by simp
    then show ?thesis using assms(2,3) by (intro okay_tcp_dispatch [OF assms(1)]) simp_all
  qed
  show ?thesis unfolding net_handle_tcp_def Let_def okay_bind okay_if okay_Some okay_ld8 okay_ld32 okay_ld16 ths_def [symmetric]
    using False l seg assms(1) by simp
qed

end
