(* ===== verification/Net_Dns.thy ===== *)
theory Net_Dns
  imports Net_Http
begin

text \<open>
  Domain names and DNS replies: \<^verbatim>\<open>net_dns_read_name\<close> with its compression pointers, the walk over the records of a reply, and the query
  packet. A reply is at most 65527 bytes long, so offsets are natural numbers. The array \<^verbatim>\<open>record_name\<close> is not initialised by
  the code; here it starts with zeros, and it is used only after a name has been read into it.
\<close>

definition ldbe16 :: "bytes \<Rightarrow> nat \<Rightarrow> u16 option" where
  "ldbe16 p i = do { a \<leftarrow> ld8 p i; b \<leftarrow> ld8 p (i + 1); Some (push_bit 8 (ucast a) OR ucast b) }"

definition ldbe32 :: "bytes \<Rightarrow> nat \<Rightarrow> u32 option" where
  "ldbe32 p i = do { a \<leftarrow> ld8 p i; b \<leftarrow> ld8 p (i + 1); c \<leftarrow> ld8 p (i + 2); d \<leftarrow> ld8 p (i + 3);
     Some (push_bit 24 (ucast a) OR push_bit 16 (ucast b) OR push_bit 8 (ucast c) OR ucast d) }"

lemma okay_ldbe16 [wp]: "okay (ldbe16 p i) P \<longleftrightarrow> i + 1 < length p \<and> P (be16_at p i)"
  by (auto simp: ldbe16_def wp be16_at_def)

lemma okay_ldbe32 [wp]: "okay (ldbe32 p i) P \<longleftrightarrow> i + 3 < length p \<and> P (be32_at p i)"
  by (auto simp: ldbe32_def wp be32_at_def)

subsection \<open>Names\<close>

text \<open>
  One label appended to the text in \<open>out\<close>, of capacity \<open>cap\<close>; capacity 0 stands for no output. The inner option is
  \<^term>\<open>None\<close> when the text does not fit.
\<close>

definition dns_dot :: "bytes \<Rightarrow> nat \<Rightarrow> nat \<Rightarrow> (bytes \<times> nat \<times> bool) option" where
  "dns_dot out cap out_pos =
     (if out_pos \<noteq> 0
      then if cap \<le> out_pos + 1 then Some (out, out_pos, False)
           else do { out \<leftarrow> st8 out out_pos 46; Some (out, out_pos + 1, True) }
      else Some (out, out_pos, True))"

definition dns_label :: "bytes \<Rightarrow> nat \<Rightarrow> nat \<Rightarrow> bytes \<Rightarrow> nat \<Rightarrow> nat \<Rightarrow> (bytes \<times> nat \<times> bool) option" where
  "dns_label payload pos len out cap out_pos =
     (if cap = 0 then Some (out, out_pos, True)
      else do {
        (out, out_pos, fits) \<leftarrow> dns_dot out cap out_pos;
        if \<not> fits \<or> cap \<le> out_pos + len then Some (out, out_pos, False)
        else do {
          out \<leftarrow> net_copy out out_pos payload pos len;
          out \<leftarrow> st8 out (out_pos + len) 0;
          Some (out, out_pos + len, True) } })"

function dns_name_loop :: "bytes \<Rightarrow> nat \<Rightarrow> nat \<Rightarrow> bytes \<Rightarrow> nat \<Rightarrow> nat \<Rightarrow> nat \<Rightarrow> nat \<Rightarrow> (int \<times> bytes \<times> nat) option" where
  "dns_name_loop payload n cap out pos out_pos jump_count nxt =
     (if n \<le> pos then Some (-1, out, nxt)
      else case ld8 payload pos of
        None \<Rightarrow> None
      | Some len \<Rightarrow>
          if len = 0 then Some (0, out, if nxt = 0 then pos + 1 else nxt)
          else if len AND 0xC0 = 0xC0
          then if n \<le> pos + 1 then Some (-1, out, nxt)
               else case ld8 payload (pos + 1) of
                 None \<Rightarrow> None
               | Some lo \<Rightarrow>
                   let ptr = unat (push_bit 8 (ucast (len AND 0x3F)) OR ucast lo :: u32)
                   in if n \<le> ptr \<or> 8 \<le> jump_count then Some (-1, out, nxt)
                      else dns_name_loop payload n cap out ptr out_pos (jump_count + 1) (if nxt = 0 then pos + 2 else nxt)
          else if len AND 0xC0 \<noteq> 0 \<or> 63 < len \<or> n < pos + 1 + unat len then Some (-1, out, nxt)
          else case dns_label payload (pos + 1) (unat len) out cap out_pos of
                 None \<Rightarrow> None
               | Some (out', out_pos', fits) \<Rightarrow>
                   if \<not> fits then Some (-1, out', nxt)
                   else dns_name_loop payload n cap out' (pos + 1 + unat len) out_pos' jump_count nxt)"
  by pat_completeness auto
termination
  by (relation "measures [\<lambda>(payload, n, cap, out, pos, out_pos, jump_count, nxt). 8 - jump_count,
        \<lambda>(payload, n, cap, out, pos, out_pos, jump_count, nxt). n - pos]") auto

declare dns_name_loop.simps [simp del]

definition net_dns_read_name :: "bytes \<Rightarrow> nat \<Rightarrow> nat \<Rightarrow> bytes \<Rightarrow> nat \<Rightarrow> (int \<times> bytes \<times> nat) option" where
  "net_dns_read_name payload n offset out cap =
     (if n \<le> offset then Some (-1, out, 0)
      else do {
        out \<leftarrow> (if cap \<noteq> 0 then st8 out 0 0 else Some out);
        dns_name_loop payload n cap out offset 0 0 0 })"

definition net_dns_skip_name :: "bytes \<Rightarrow> nat \<Rightarrow> nat \<Rightarrow> nat option" where
  "net_dns_skip_name payload n offset = do {
     (r, out, nxt) \<leftarrow> net_dns_read_name payload n offset [] 0;
     Some (if r \<noteq> 0 then n else nxt) }"

fun net_dns_name_equal :: "bytes \<Rightarrow> bytes \<Rightarrow> bool option" where
  "net_dns_name_equal (x # a) (y # b) =
     (if x \<noteq> 0 \<and> y \<noteq> 0 then if net_lower x \<noteq> net_lower y then Some False else net_dns_name_equal a b
      else Some (x = 0 \<and> y = 0))"
| "net_dns_name_equal _ _ = None"

subsection \<open>Replies\<close>

fun dns_questions :: "bytes \<Rightarrow> nat \<Rightarrow> nat \<Rightarrow> nat \<Rightarrow> nat option option" where
  "dns_questions payload n 0 offset = Some (Some offset)"
| "dns_questions payload n (Suc k) offset = do {
     offset \<leftarrow> net_dns_skip_name payload n offset;
     if n < offset + 4 then Some None else dns_questions payload n k (offset + 4) }"

text \<open>The address record that answers the query, if this record is one.\<close>

definition dns_address :: "bytes \<Rightarrow> nat \<Rightarrow> u16 \<Rightarrow> u16 \<Rightarrow> u16 \<Rightarrow> bool \<Rightarrow> bool \<Rightarrow> bytes \<Rightarrow> net_dns_wait \<Rightarrow> bool option" where
  "dns_address payload offset type class_code rdlength in_answer in_additional record_name w =
     (if type = 1 \<and> class_code = 1 \<and> rdlength = 4
      then if in_answer then Some True
           else if in_additional \<and> dn_cname_found w then net_dns_name_equal record_name (dn_cname w)
           else Some False
      else Some False)"

definition dns_cname :: "bytes \<Rightarrow> nat \<Rightarrow> nat \<Rightarrow> u16 \<Rightarrow> u16 \<Rightarrow> u16 \<Rightarrow> bool \<Rightarrow> net_dns_wait \<Rightarrow> net_dns_wait option" where
  "dns_cname payload n offset type class_code rdlength in_answer w =
     (if in_answer \<and> type = 5 \<and> class_code = 1 \<and> rdlength \<noteq> 0
      then do {
        (r, cname, nxt) \<leftarrow> net_dns_read_name payload n offset (dn_cname w) NET_DNS_NAME_SIZE;
        c0 \<leftarrow> ld8 cname 0;
        Some (w\<lparr>dn_cname := cname, dn_cname_found := (dn_cname_found w \<or> r = 0 \<and> c0 \<noteq> 0)\<rparr>) }
      else Some w)"

text \<open>One record whose fields start at \<open>offset\<close>; the result is the offset of the next record, or \<^term>\<open>None\<close> where the code returns.\<close>

definition dns_record :: "bytes \<Rightarrow> nat \<Rightarrow> bool \<Rightarrow> bool \<Rightarrow> bytes \<Rightarrow> nat \<Rightarrow> 'w net \<Rightarrow> (nat option \<times> 'w net) option" where
  "dns_record payload n in_answer in_additional record_name offset s =
     (if n < offset + 10 then Some (None, s)
      else do {
        type \<leftarrow> ldbe16 payload offset;
        class_code \<leftarrow> ldbe16 payload (offset + 2);
        rdlength \<leftarrow> ldbe16 payload (offset + 8);
        if n < offset + 10 + unat rdlength then Some (None, s)
        else do {
          found \<leftarrow> dns_address payload (offset + 10) type class_code rdlength in_answer in_additional record_name (dns_wait s);
          if found
          then do {
            ip \<leftarrow> ldbe32 payload (offset + 10);
            Some (None, debug_info_update (di_dns_rx_update (\<lambda>n. n + 1)) (s\<lparr>dns_wait := (dns_wait s)\<lparr>dn_ip := ip, dn_found := True\<rparr>\<rparr>)) }
          else do {
            w \<leftarrow> dns_cname payload n (offset + 10) type class_code rdlength in_answer (dns_wait s);
            Some (Some (offset + 10 + unat rdlength), s\<lparr>dns_wait := w\<rparr>) } } })"

fun dns_records :: "bytes \<Rightarrow> nat \<Rightarrow> nat \<Rightarrow> nat \<Rightarrow> nat \<Rightarrow> nat \<Rightarrow> nat \<Rightarrow> 'w net \<Rightarrow> 'w net option" where
  "dns_records payload n answers authorities i 0 offset s = Some s"
| "dns_records payload n answers authorities i (Suc k) offset s =
     (if n \<le> offset then Some s
      else do {
        (r, record_name, offset) \<leftarrow> net_dns_read_name payload n offset (replicate 128 0) NET_DNS_NAME_SIZE;
        if r \<noteq> 0 then Some s
        else do {
          (nxt, s) \<leftarrow> dns_record payload n (i < answers) (answers + authorities \<le> i) record_name offset s;
          case nxt of None \<Rightarrow> Some s | Some offset \<Rightarrow> dns_records payload n answers authorities (i + 1) k offset s } })"

definition net_handle_dns :: "u32 \<Rightarrow> bytes \<Rightarrow> u32 \<Rightarrow> 'w net \<Rightarrow> 'w net option" where
  "net_handle_dns index payload sz s =
     (if \<not> dn_active (dns_wait s) \<or> dn_device (dns_wait s) \<noteq> index \<or> sz < 12 then Some s
      else do {
        id \<leftarrow> ldbe16 payload 0;
        b2 \<leftarrow> ld8 payload 2;
        b3 \<leftarrow> ld8 payload 3;
        if id \<noteq> dn_id (dns_wait s) \<or> b2 AND 0x80 = 0 \<or> b3 AND 0x0F \<noteq> 0 then Some s
        else do {
          questions \<leftarrow> ldbe16 payload 4;
          answers \<leftarrow> ldbe16 payload 6;
          authorities \<leftarrow> ldbe16 payload 8;
          additional \<leftarrow> ldbe16 payload 10;
          q \<leftarrow> dns_questions payload (unat sz) (unat questions) 12;
          case q of
            None \<Rightarrow> Some s
          | Some offset \<Rightarrow> dns_records payload (unat sz) (unat answers) (unat authorities) 0
              (unat answers + unat authorities + unat additional) offset s } })"

subsection \<open>Queries\<close>

text \<open>The loop over the name: the label collected so far, and the rest of the name.\<close>

fun dns_query_loop :: "bytes \<Rightarrow> nat \<Rightarrow> nat \<Rightarrow> bytes \<Rightarrow> bytes \<Rightarrow> (bytes \<times> nat) option option" where
  "dns_query_loop packet cap pos label rest =
     (if rest = [] \<or> hd rest = 46
      then if length label = 0 \<or> 63 < length label \<or> cap \<le> pos + 1 + length label + 5 then Some None
           else do {
             packet \<leftarrow> st8 packet pos (of_nat (length label));
             packet \<leftarrow> net_copy packet (pos + 1) label 0 (length label);
             case rest of
               [] \<Rightarrow> Some (Some (packet, pos + 1 + length label))
             | _ # rest' \<Rightarrow> dns_query_loop packet cap (pos + 1 + length label) [] rest' }
      else case rest of [] \<Rightarrow> None | c # rest' \<Rightarrow> dns_query_loop packet cap pos (label @ [c]) rest')"

declare dns_query_loop.simps [simp del]

definition net_build_dns_query :: "bytes \<Rightarrow> u16 \<Rightarrow> nat \<Rightarrow> (bytes \<times> nat) option option" where
  "net_build_dns_query name ident cap =
     (if name = [] \<or> cap < 32 then Some None
      else do {
        p \<leftarrow> st8 (replicate cap 0) 0 (ucast (drop_bit 8 ident));
        p \<leftarrow> st8 p 1 (ucast ident);
        p \<leftarrow> st8 p 2 0x01;
        p \<leftarrow> st8 p 5 0x01;
        r \<leftarrow> dns_query_loop p cap 12 [] name;
        case r of
          None \<Rightarrow> Some None
        | Some (p, pos) \<Rightarrow> do {
            p \<leftarrow> st8 p pos 0;
            p \<leftarrow> st8 p (pos + 1) 0;
            p \<leftarrow> st8 p (pos + 2) 1;
            p \<leftarrow> st8 p (pos + 3) 0;
            p \<leftarrow> st8 p (pos + 4) 1;
            Some (Some (p, pos + 5)) } })"

subsection \<open>Staying inside the buffers\<close>

text \<open>The text buffer of a name: room for the text, and what stays as it was.\<close>

definition name_buf :: "nat \<Rightarrow> bytes \<Rightarrow> nat \<Rightarrow> bool" where
  "name_buf cap out out_pos \<longleftrightarrow> cap = 0 \<or> cap \<le> length out \<and> out_pos < cap \<and> out ! out_pos = 0"

definition buf_kept :: "nat \<Rightarrow> bytes \<Rightarrow> bytes \<Rightarrow> bool" where
  "buf_kept cap out out' \<longleftrightarrow> length out' = length out \<and> (out ! (cap - 1) = 0 \<longrightarrow> out' ! (cap - 1) = 0)"

lemma okay_dot:
  assumes "name_buf cap out out_pos" and "cap \<noteq> 0"
  shows "okay (dns_dot out cap out_pos) (\<lambda>(out', out_pos', fits). buf_kept cap out out' \<and> (fits \<longrightarrow> cap \<le> length out' \<and> out_pos' < cap))"
  using assms by (auto simp: dns_dot_def wp name_buf_def buf_kept_def nth_list_update)

lemma okay_label:
  assumes "name_buf cap out out_pos" and "pos + len \<le> length payload"
  shows "okay (dns_label payload pos len out cap out_pos)
    (\<lambda>(out', out_pos', fits). buf_kept cap out out' \<and> (fits \<longrightarrow> name_buf cap out' out_pos'))"
proof (cases "cap = 0")
  case True
  then show ?thesis by (simp add: dns_label_def wp name_buf_def buf_kept_def)
next
  case False
  obtain out1 p fits where d: "dns_dot out cap out_pos = Some (out1, p, fits)" "buf_kept cap out out1" "fits \<longrightarrow> cap \<le> length out1 \<and> p < cap"
    using okay_dot [OF assms(1) False] by (auto simp: okay_iff)
  show ?thesis
  proof (cases "\<not> fits \<or> cap \<le> p + len")
    case True
    then show ?thesis using d False by (auto simp: dns_label_def wp)
  next
    case fits: False
    then show ?thesis using d assms(2) False
      by (auto simp: dns_label_def wp buf_kept_def name_buf_def nth_list_update nth_overwrite)
  qed
qed

lemma okay_name_loop:
  assumes "name_buf cap out out_pos" and "n \<le> length payload" and "nxt \<le> n"
  shows "okay (dns_name_loop payload n cap out pos out_pos jump_count nxt)
    (\<lambda>(r, out', nxt'). buf_kept cap out out' \<and> nxt' \<le> n \<and> (r = 0 \<longrightarrow> (\<exists>q. name_buf cap out' q)))"
  using assms
proof (induction payload n cap out pos out_pos jump_count nxt rule: dns_name_loop.induct)
  case (1 payload n cap out pos out_pos jump_count nxt)
  have same: "buf_kept cap out out" by (simp add: buf_kept_def)
  consider (past) "n \<le> pos" | (zero) "pos < n" "payload ! pos = 0"
    | (jump) "pos < n" "payload ! pos \<noteq> 0" "payload ! pos AND 0xC0 = 0xC0"
    | (bad) "pos < n" "payload ! pos \<noteq> 0" "payload ! pos AND 0xC0 \<noteq> 0xC0"
        "payload ! pos AND 0xC0 \<noteq> 0 \<or> 63 < payload ! pos \<or> n < pos + 1 + unat (payload ! pos)"
    | (label) "pos < n" "payload ! pos \<noteq> 0" "payload ! pos AND 0xC0 \<noteq> 0xC0"
        "\<not> (payload ! pos AND 0xC0 \<noteq> 0 \<or> 63 < payload ! pos \<or> n < pos + 1 + unat (payload ! pos))"
    by linarith
  then show ?case
  proof cases
    case past
    then show ?thesis using same "1.prems" by (subst dns_name_loop.simps) (simp add: wp)
  next
    case zero
    then show ?thesis using same "1.prems" by (subst dns_name_loop.simps) (auto simp: wp ld8_def)
  next
    case jump
    have l: "ld8 payload pos = Some (payload ! pos)" using jump(1) "1.prems"(2) by (simp add: ld8_def)
    show ?thesis
    proof (cases "n \<le> pos + 1")
      case True
      then show ?thesis using jump same "1.prems" l by (subst dns_name_loop.simps) (simp add: wp)
    next
      case False
      then have l2: "ld8 payload (pos + 1) = Some (payload ! (pos + 1))" using "1.prems"(2) by (simp add: ld8_def)
      let ?ptr = "unat (push_bit 8 (ucast (payload ! pos AND 0x3F)) OR ucast (payload ! (pos + 1)) :: u32)"
      show ?thesis
      proof (cases "n \<le> ?ptr \<or> 8 \<le> jump_count")
        case True
        then show ?thesis using jump same "1.prems" l l2 False by (subst dns_name_loop.simps) (simp add: wp Let_def)
      next
        case ok: False
        have "okay (dns_name_loop payload n cap out ?ptr out_pos (jump_count + 1) (if nxt = 0 then pos + 2 else nxt))
            (\<lambda>(r, out', nxt'). buf_kept cap out out' \<and> nxt' \<le> n \<and> (r = 0 \<longrightarrow> (\<exists>q. name_buf cap out' q)))"
          using "1.IH"(1) [OF _ l _ jump(3) False l2 HOL.refl ok] jump "1.prems" False by auto
        then show ?thesis using jump l l2 False ok by (subst dns_name_loop.simps) (simp add: wp Let_def)
      qed
    qed
  next
    case bad
    then show ?thesis using same "1.prems" by (subst dns_name_loop.simps) (simp add: wp ld8_def)
  next
    case label
    have l: "ld8 payload pos = Some (payload ! pos)" using label(1) "1.prems"(2) by (simp add: ld8_def)
    have "pos + 1 + unat (payload ! pos) \<le> length payload" using label(4) "1.prems"(2) by simp
    from okay_label [OF "1.prems"(1) this] obtain out' q fits where
      D: "dns_label payload (pos + 1) (unat (payload ! pos)) out cap out_pos = Some (out', q, fits)" "buf_kept cap out out'"
        "fits \<longrightarrow> name_buf cap out' q"
      by (auto simp: okay_iff)
    have e: "dns_name_loop payload n cap out pos out_pos jump_count nxt =
        (if \<not> fits then Some (-1, out', nxt) else dns_name_loop payload n cap out' (pos + 1 + unat (payload ! pos)) q jump_count nxt)"
      using label l D(1) by (subst dns_name_loop.simps) simp
    show ?thesis
    proof (cases fits)
      case True
      have "okay (dns_name_loop payload n cap out' (pos + 1 + unat (payload ! pos)) q jump_count nxt)
          (\<lambda>(r, out'', nxt'). buf_kept cap out' out'' \<and> nxt' \<le> n \<and> (r = 0 \<longrightarrow> (\<exists>q. name_buf cap out'' q)))"
        using "1.IH"(2) [OF _ l label(2,3,4) D(1)] label(1) True D(3) "1.prems" by simp
      then show ?thesis unfolding e using True D(2) by (auto elim!: okay_mono simp: buf_kept_def)
    next
      case False
      then show ?thesis unfolding e using D(2) "1.prems"(3) by (simp add: wp)
    qed
  qed
qed

lemma okay_read_name:
  assumes "n \<le> length payload" and "cap \<le> length out"
  shows "okay (net_dns_read_name payload n offset out cap) (\<lambda>(r, out', nxt). length out' = length out \<and> nxt \<le> n \<and>
    (out ! (cap - 1) = 0 \<longrightarrow> out' ! (cap - 1) = 0) \<and> (r = 0 \<and> cap \<noteq> 0 \<longrightarrow> 0 \<in> set out'))"
proof (cases "n \<le> offset")
  case True
  then show ?thesis by (simp add: net_dns_read_name_def wp)
next
  case False
  let ?out = "if cap \<noteq> 0 then out[0 := 0] else out"
  have b: "name_buf cap ?out 0" using assms(2) by (cases out) (auto simp: name_buf_def)
  have "okay (dns_name_loop payload n cap ?out offset 0 0 0) (\<lambda>(r, out', nxt). length out' = length out \<and> nxt \<le> n \<and>
      (out ! (cap - 1) = 0 \<longrightarrow> out' ! (cap - 1) = 0) \<and> (r = 0 \<and> cap \<noteq> 0 \<longrightarrow> 0 \<in> set out'))"
  proof (rule okay_mono [OF okay_name_loop [OF b assms(1)]], goal_cases)
    case (2 x)
    obtain r out' nxt where x: "x = (r, out', nxt)" by (cases x)
    have k: "buf_kept cap ?out out'" "nxt \<le> n" "r = 0 \<longrightarrow> (\<exists>q. name_buf cap out' q)" using 2 by (simp_all add: x)
    have "0 \<in> set out'" if r: "r = 0" "cap \<noteq> 0"
    proof -
      obtain q where "name_buf cap out' q" using k(3) r by blast
      then have "q < length out'" "out' ! q = 0" using r by (auto simp: name_buf_def)
      then show ?thesis by (metis nth_mem)
    qed
    moreover have "?out ! (cap - 1) = 0" if "out ! (cap - 1) = 0"
      using that assms(2) by (cases out; cases cap; cases "cap - 1") auto
    moreover have "length ?out = length out" by simp
    ultimately show ?case using k unfolding x buf_kept_def by simp
  qed simp
  then show ?thesis using False assms(2) by (auto simp: net_dns_read_name_def wp split: if_splits)
qed

lemma okay_skip_name: "n \<le> length payload \<Longrightarrow> okay (net_dns_skip_name payload n offset) (\<lambda>p. p \<le> n)"
  unfolding net_dns_skip_name_def okay_bind by (rule okay_mono [OF okay_read_name]) (auto simp: wp)

lemma okay_name_equal: "0 \<in> set a \<Longrightarrow> 0 \<in> set b \<Longrightarrow> okay (net_dns_name_equal a b) (\<lambda>_. True)"
  by (induction a b rule: net_dns_name_equal.induct) (auto simp: wp)

lemma okay_questions:
  "n \<le> length payload \<Longrightarrow> okay (dns_questions payload n k offset) (\<lambda>_. True)"
  by (induction k arbitrary: offset) (auto simp: wp intro!: okay_mono [OF okay_skip_name])

lemma okay_dns_cname:
  assumes "n \<le> length payload" and "dns_wait_ok w"
  shows "okay (dns_cname payload n offset type cl rd ans w) dns_wait_ok"
  using assms unfolding dns_cname_def
  by (auto simp: wp dns_wait_ok_def intro!: okay_mono [OF okay_read_name])

lemma cname_terminated: "dns_wait_ok w \<Longrightarrow> 0 \<in> set (dn_cname w)"
  using nth_mem [of 127 "dn_cname w"] by (simp add: dns_wait_ok_def)

lemma dns_wait_field: "net_ok s \<Longrightarrow> net_ok (s\<lparr>dns_wait := w\<rparr>) \<longleftrightarrow> dns_wait_ok w"
  by (simp add: net_ok_def devices_ok_def)

lemma okay_record:
  assumes "n \<le> length payload" and "net_ok s" and "0 \<in> set name"
  shows "okay (dns_record payload n ans add name offset s) (\<lambda>(nxt, s'). net_ok s')"
proof -
  have w: "dns_wait_ok (dns_wait s)" using assms(2) by (simp add: net_ok_def)
  have addr: "okay (dns_address payload off type cl rd a b name (dns_wait s)) (\<lambda>found. found \<longrightarrow> rd = 4)" for off type cl rd a b
    using okay_name_equal [OF assms(3) cname_terminated [OF w]] by (auto simp: dns_address_def wp elim: okay_mono)
  have found: "net_ok (debug_info_update f (s\<lparr>dns_wait := (dns_wait s)\<lparr>dn_ip := ip, dn_found := True\<rparr>\<rparr>))" for ip f
    using assms(2) w by (simp add: net_ok_def devices_ok_def dns_wait_ok_def)
  have rest: "okay (dns_cname payload n off type cl rd a (dns_wait s)) (\<lambda>w. net_ok (s\<lparr>dns_wait := w\<rparr>))" for off type cl rd a
    by (rule okay_mono [OF okay_dns_cname [OF assms(1) w]]) (simp add: dns_wait_field assms(2))
  have "offset + 9 < length payload" if "\<not> n < offset + 10" using that assms(1) by simp
  then show ?thesis unfolding dns_record_def
    using assms(1,2) found rest by (auto simp: wp intro!: okay_mono [OF addr])
qed

lemma okay_records:
  assumes "n \<le> length payload" and "net_ok s"
  shows "okay (dns_records payload n answers authorities i k offset s) net_ok"
  using assms(2)
proof (induction k arbitrary: i offset s)
  case (Suc k)
  have "okay (dns_record payload n a b name off s) (\<lambda>(nxt, s). okay (case nxt of None \<Rightarrow> Some s |
      Some offset \<Rightarrow> dns_records payload n answers authorities (i + 1) k offset s) net_ok)" if "0 \<in> set name" for a b name off
    by (rule okay_mono [OF okay_record [OF assms(1) Suc.prems that]]) (auto simp: wp intro: Suc.IH split: option.split)
  then show ?case using Suc.prems
    by (auto simp: wp split_def intro!: okay_mono [OF okay_read_name [OF assms(1)]])
qed (simp add: wp)

lemma okay_handle_dns:
  assumes "net_ok s" and "unat sz \<le> length payload"
  shows "okay (net_handle_dns index payload sz s) net_ok"
proof -
  have "11 < length payload" if "\<not> sz < 12" using that assms(2) by (simp add: word_less_nat_alt)
  then show ?thesis unfolding net_handle_dns_def
    using assms okay_records [OF assms(2,1)]
    by (auto simp: wp intro!: okay_mono [OF okay_questions [OF assms(2)]] split: option.split)
qed

end
