(* ===== verification/Net_Receive.thy ===== *)
theory Net_Receive
  imports Net_Tcp Net_Dns
begin

text \<open>
  The receive path: what the stack does with a frame a driver hands it. \<^verbatim>\<open>net_receive_frame\<close> looks at the Ethernet type and passes on to
  ARP or IPv4, IPv4 to TCP or UDP, UDP to the DHCP and DNS clients. The end of the theory shows that for any frame
  whatever no load or store leaves its object, and that the state stays well formed.
\<close>

abbreviation NET_DHCP_CLIENT_PORT :: u16 where "NET_DHCP_CLIENT_PORT \<equiv> 68"
abbreviation NET_DHCP_SERVER_PORT :: u16 where "NET_DHCP_SERVER_PORT \<equiv> 67"
abbreviation NET_DNS_PORT :: u16 where "NET_DNS_PORT \<equiv> 53"

subsection \<open>ARP\<close>

definition arp_answer :: "u32 \<Rightarrow> u16 \<Rightarrow> bytes \<Rightarrow> u32 \<Rightarrow> u32 \<Rightarrow> 'w net \<Rightarrow> 'w net option" where
  "arp_answer index oper sha sender_ip target_ip s =
     (if oper = NET_ARP_OP_REPLY then Some (debug_info_update (di_arp_replies_update (\<lambda>n. n + 1)) s)
      else if oper = NET_ARP_OP_REQUEST \<and> target_ip = local_ip s
      then map_option snd (net_send_arp_reply index sha sender_ip s)
      else Some s)"

definition arp_notice :: "u32 \<Rightarrow> u16 \<Rightarrow> bytes \<Rightarrow> u32 \<Rightarrow> 'w net \<Rightarrow> 'w net option" where
  "arp_notice index oper sha sender_ip s =
     (let w = arp_wait s
      in if aw_active w \<and> aw_device w = index \<and> aw_wanted_ip w = sender_ip \<and> oper = NET_ARP_OP_REPLY
         then do { mac \<leftarrow> net_copy (aw_mac w) 0 sha 0 6; Some (s\<lparr>arp_wait := w\<lparr>aw_mac := mac, aw_found := True\<rparr>\<rparr>) }
         else if aw_active w \<and> oper = NET_ARP_OP_REPLY
         then Some (debug_info_update (di_arp_mismatches_update (\<lambda>n. n + 1)) s)
         else Some s)"

definition net_handle_arp :: "u32 \<Rightarrow> bytes \<Rightarrow> u32 \<Rightarrow> 'w net \<Rightarrow> 'w net option" where
  "net_handle_arp index payload sz s =
     (if sz < 28 then Some s
      else do {
        htype \<leftarrow> ld16 payload 0;
        ptype \<leftarrow> ld16 payload 2;
        hlen \<leftarrow> ld8 payload 4;
        plen \<leftarrow> ld8 payload 5;
        if net_ntohs htype \<noteq> 1 \<or> net_ntohs ptype \<noteq> NET_ETH_TYPE_IPV4 \<or> hlen \<noteq> 6 \<or> plen \<noteq> 4 then Some s
        else do {
          spa \<leftarrow> ld32 payload 14;
          tpa \<leftarrow> ld32 payload 24;
          oper \<leftarrow> ld16 payload 6;
          sha \<leftarrow> ld_bytes payload 8 6;
          s \<leftarrow> Some (debug_info_update (di_last_arp_op_update (\<lambda>_. net_ntohs oper) \<circ> di_last_arp_sender_ip_update (\<lambda>_. net_ntohl spa) \<circ>
                 di_last_arp_target_ip_update (\<lambda>_. net_ntohl tpa)) s);
          s \<leftarrow> arp_answer index (net_ntohs oper) sha (net_ntohl spa) (net_ntohl tpa) s;
          arp_notice index (net_ntohs oper) sha (net_ntohl spa) s } })"

subsection \<open>DHCP\<close>

record dhcp_options =
  do_message_type :: u8
  do_server_ip :: u32
  do_subnet_mask :: u32
  do_router :: u32
  do_dns :: u32

definition dhcp_option :: "bytes \<Rightarrow> nat \<Rightarrow> u8 \<Rightarrow> u8 \<Rightarrow> dhcp_options \<Rightarrow> dhcp_options option" where
  "dhcp_option payload offset code len x =
     (if code = 53 \<and> 1 \<le> len then do { v \<leftarrow> ld8 payload offset; Some (x\<lparr>do_message_type := v\<rparr>) }
      else if code = 54 \<and> 4 \<le> len then do { v \<leftarrow> ldbe32 payload offset; Some (x\<lparr>do_server_ip := v\<rparr>) }
      else if code = 1 \<and> 4 \<le> len then do { v \<leftarrow> ldbe32 payload offset; Some (x\<lparr>do_subnet_mask := v\<rparr>) }
      else if code = 3 \<and> 4 \<le> len then do { v \<leftarrow> ldbe32 payload offset; Some (x\<lparr>do_router := v\<rparr>) }
      else if code = 6 \<and> 4 \<le> len then do { v \<leftarrow> ldbe32 payload offset; Some (x\<lparr>do_dns := v\<rparr>) }
      else Some x)"

function dhcp_option_loop :: "bytes \<Rightarrow> nat \<Rightarrow> nat \<Rightarrow> dhcp_options \<Rightarrow> dhcp_options option" where
  "dhcp_option_loop payload n offset x =
     (if n \<le> offset then Some x
      else case ld8 payload offset of
        None \<Rightarrow> None
      | Some code \<Rightarrow>
          if code = 0 then dhcp_option_loop payload n (offset + 1) x
          else if code = 255 \<or> n \<le> offset + 1 then Some x
          else case ld8 payload (offset + 1) of
            None \<Rightarrow> None
          | Some len \<Rightarrow>
              if n < offset + 2 + unat len then Some x
              else case dhcp_option payload (offset + 2) code len x of
                None \<Rightarrow> None
              | Some x' \<Rightarrow> dhcp_option_loop payload n (offset + 2 + unat len) x')"
  by pat_completeness auto
termination
  by (relation "measure (\<lambda>(payload, n, offset, x). n - offset)") auto

declare dhcp_option_loop.simps [simp del]

definition net_handle_dhcp :: "u32 \<Rightarrow> bytes \<Rightarrow> u32 \<Rightarrow> 'w net \<Rightarrow> 'w net option" where
  "net_handle_dhcp index payload sz s =
     (let w = dhcp_wait s
      in if \<not> dh_active w \<or> dh_device w \<noteq> index \<or> sz < 240 then Some s
         else do {
           oper \<leftarrow> ld8 payload 0;
           htype \<leftarrow> ld8 payload 1;
           hlen \<leftarrow> ld8 payload 2;
           xid \<leftarrow> ld32 payload 4;
           magic \<leftarrow> ld32 payload 236;
           if oper \<noteq> 2 \<or> htype \<noteq> 1 \<or> hlen \<noteq> 6 \<or> net_ntohl xid \<noteq> dh_xid w \<or> net_ntohl magic \<noteq> 0x63825363 then Some s
           else do {
             x \<leftarrow> dhcp_option_loop payload (unat sz) 240
                   \<lparr>do_message_type = 0, do_server_ip = 0, do_subnet_mask = 0, do_router = 0, do_dns = 0\<rparr>;
             if do_message_type x \<noteq> dh_wanted_type w then Some s
             else do {
               yiaddr \<leftarrow> ld32 payload 16;
               Some (debug_info_update (di_dhcp_rx_update (\<lambda>n. n + 1)) (s\<lparr>dhcp_wait := w\<lparr>dh_offered_ip := net_ntohl yiaddr,
                 dh_server_ip := do_server_ip x, dh_subnet_mask := do_subnet_mask x, dh_router := do_router x, dh_dns := do_dns x,
                 dh_found := True\<rparr>\<rparr>)) } } })"

subsection \<open>UDP, IPv4 and frames\<close>

definition net_handle_udp :: "u32 \<Rightarrow> bytes \<Rightarrow> u32 \<Rightarrow> u32 \<Rightarrow> 'w net \<Rightarrow> 'w net option" where
  "net_handle_udp index ip ip_header_size ip_total_size s =
     (if ip_total_size < ip_header_size + 8 then Some s
      else do {
        udp \<leftarrow> Some (drop (unat ip_header_size) ip);
        src_port \<leftarrow> ld16 udp 0;
        dst_port \<leftarrow> ld16 udp 2;
        udp_length \<leftarrow> ld16 udp 4;
        if net_ntohs udp_length < 8 \<or> ip_total_size < ip_header_size + ucast (net_ntohs udp_length) then Some s
        else let s = debug_info_update (di_rx_udp_update (\<lambda>n. n + 1)) s; payload = drop 8 udp; n = ucast (net_ntohs udp_length) - 8
             in if net_ntohs src_port = NET_DHCP_SERVER_PORT \<and> net_ntohs dst_port = NET_DHCP_CLIENT_PORT
                then net_handle_dhcp index payload n s
                else if net_ntohs src_port = NET_DNS_PORT \<and> dn_active (dns_wait s) \<and> net_ntohs dst_port = dn_local_port (dns_wait s)
                then net_handle_dns index payload n s
                else Some s })"

definition net_handle_ipv4 :: "u32 \<Rightarrow> bytes \<Rightarrow> u32 \<Rightarrow> 'w net \<Rightarrow> 'w net option" where
  "net_handle_ipv4 index payload sz s =
     (if sz < 20 then Some s
      else do {
        ver_ihl \<leftarrow> ld8 payload 0;
        total_length \<leftarrow> ld16 payload 2;
        proto \<leftarrow> ld8 payload 9;
        dst \<leftarrow> ld32 payload 16;
        let ip_header_size = ucast (ver_ihl AND 0x0F) * 4;
        let ip_total_size = ucast (net_ntohs total_length);
        if drop_bit 4 ver_ihl \<noteq> 4 \<or> ip_header_size < 20 \<or> ip_total_size < ip_header_size \<or> sz < ip_total_size then Some s
        else if net_ntohl dst \<noteq> local_ip s \<and> net_ntohl dst \<noteq> 0xFFFFFFFF \<and> \<not> (local_ip s = 0 \<and> proto = NET_IP_PROTO_UDP) then Some s
        else if proto = NET_IP_PROTO_TCP then net_handle_tcp index payload ip_header_size ip_total_size s
        else if proto = NET_IP_PROTO_UDP then net_handle_udp index payload ip_header_size ip_total_size s
        else Some s })"

definition frame_type :: "bytes \<Rightarrow> u32 \<Rightarrow> (u16 \<times> u16 \<times> u32) option" where
  "frame_type frame sz = do {
     t \<leftarrow> ld16 frame 12;
     let type = net_ntohs t;
     if (type = NET_ETH_TYPE_VLAN \<or> type = NET_ETH_TYPE_QINQ) \<and> 18 \<le> sz
     then do { inner \<leftarrow> ldbe16 frame 16; Some (type, inner, 18) }
     else Some (type, type, 14) }"

definition net_receive_frame :: "u32 \<Rightarrow> bytes \<Rightarrow> u32 \<Rightarrow> 'w net \<Rightarrow> 'w net option" where
  "net_receive_frame index frame sz s =
     (if device_count s \<le> index \<or> sz < 14 then Some s
      else do {
        (outer, type, payload_offset) \<leftarrow> frame_type frame sz;
        s \<leftarrow> Some (debug_info_update (di_last_eth_type_update (\<lambda>_. outer) \<circ> di_last_inner_eth_type_update (\<lambda>_. type)) s);
        if sz < payload_offset then Some s
        else if type = NET_ETH_TYPE_ARP
        then net_handle_arp index (drop (unat payload_offset) frame) (sz - payload_offset)
               (debug_info_update (di_rx_arp_update (\<lambda>n. n + 1)) s)
        else if type = NET_ETH_TYPE_IPV4
        then net_handle_ipv4 index (drop (unat payload_offset) frame) (sz - payload_offset)
               (debug_info_update (di_rx_ipv4_update (\<lambda>n. n + 1)) s)
        else Some (debug_info_update (di_rx_other_update (\<lambda>n. n + 1)) s) })"

subsection \<open>Any frame is handled safely\<close>

lemma net_ok_debug [simp]: "net_ok (debug_info_update f s) \<longleftrightarrow> net_ok s"
  by (simp add: net_ok_def devices_ok_def)

lemma okay_arp_answer:
  assumes "net_ok s" and "length sha = 6"
  shows "okay (arp_answer index oper sha a b s) net_ok"
proof -
  have "okay (net_send_arp_reply index sha a s) (\<lambda>(r, s'). same_stack s s')"
    using assms by (intro okay_arp_reply) (simp_all add: net_ok_def)
  then have "okay (net_send_arp_reply index sha a s) (\<lambda>x. net_ok (snd x))"
    by (rule okay_mono) (use assms(1) in \<open>auto intro: same_stack_ok [THEN iffD2]\<close>)
  then show ?thesis using assms by (simp add: arp_answer_def wp)
qed

lemma okay_arp_notice:
  assumes "net_ok s" and "length sha = 6"
  shows "okay (arp_notice index oper sha a s) net_ok"
  using assms by (auto simp: arp_notice_def wp net_ok_def devices_ok_def Let_def)

lemma okay_handle_arp:
  assumes "net_ok s" and "unat sz \<le> length payload"
  shows "okay (net_handle_arp index payload sz s) net_ok"
proof -
  have "27 < length payload" if "\<not> sz < 28" using that assms(2) by (simp add: word_less_nat_alt)
  then show ?thesis unfolding net_handle_arp_def
    using assms(1) by (auto simp: wp intro!: okay_mono [OF okay_arp_answer] okay_arp_notice)
qed

lemma okay_dhcp_option:
  assumes "offset + unat len \<le> length payload"
  shows "okay (dhcp_option payload offset code len x) (\<lambda>_. True)"
  using assms by (auto simp: dhcp_option_def wp word_le_nat_alt)

lemma okay_dhcp_options:
  assumes "n \<le> length payload"
  shows "okay (dhcp_option_loop payload n offset x) (\<lambda>_. True)"
  using assms
proof (induction payload n offset x rule: dhcp_option_loop.induct)
  case (1 payload n offset x)
  show ?case
  proof (cases "n \<le> offset")
    case True
    then show ?thesis by (subst dhcp_option_loop.simps) (simp add: wp)
  next
    case False
    then have l: "ld8 payload offset = Some (payload ! offset)" using "1.prems" by (simp add: ld8_def)
    consider (pad) "payload ! offset = 0" | (stop) "payload ! offset \<noteq> 0" "payload ! offset = 255 \<or> n \<le> offset + 1"
      | (opt) "payload ! offset \<noteq> 0" "\<not> (payload ! offset = 255 \<or> n \<le> offset + 1)" by blast
    then show ?thesis
    proof cases
      case pad
      then show ?thesis using "1.IH"(1) [OF False l pad] "1.prems" False l by (subst dhcp_option_loop.simps) simp
    next
      case stop
      then show ?thesis using False l by (subst dhcp_option_loop.simps) (simp add: wp)
    next
      case opt
      then have l2: "ld8 payload (offset + 1) = Some (payload ! (offset + 1))" using "1.prems" by (simp add: ld8_def)
      let ?len = "payload ! (offset + 1)"
      show ?thesis
      proof (cases "n < offset + 2 + unat ?len")
        case True
        then show ?thesis using False l l2 opt by (subst dhcp_option_loop.simps) (simp add: wp)
      next
        case fits: False
        then obtain x' where x': "dhcp_option payload (offset + 2) (payload ! offset) ?len x = Some x'"
          using okay_dhcp_option [of "offset + 2" ?len payload] "1.prems" by (fastforce simp: okay_iff)
        then show ?thesis using "1.IH"(2) [OF False l opt l2 fits x'] "1.prems" False l l2 opt fits
          by (subst dhcp_option_loop.simps) simp
      qed
    qed
  qed
qed

lemma okay_handle_dhcp:
  assumes "net_ok s" and "unat sz \<le> length payload"
  shows "okay (net_handle_dhcp index payload sz s) net_ok"
proof -
  have l: "239 < length payload" if "\<not> sz < 240" using that assms(2) by (simp add: word_less_nat_alt)
  have "net_ok (s\<lparr>dhcp_wait := w\<rparr>)" for w using assms(1) by (simp add: net_ok_def devices_ok_def)
  then show ?thesis unfolding net_handle_dhcp_def Let_def
    using assms l by (auto simp: wp intro!: okay_mono [OF okay_dhcp_options [OF assms(2)]])
qed

lemma unat_ucast_16_32 [simp]: "unat (ucast (w :: u16) :: u32) = unat w"
proof -
  have "unat w < 2 ^ 16" using unsigned_less [of w, where 'a = nat] by simp
  then show ?thesis by (simp add: unsigned_ucast_eq take_bit_nat_eq_self)
qed

lemma u16_bound: "unat (w :: u16) < 65536"
  using unsigned_less [of w, where 'a = nat] by simp

lemma okay_handle_udp:
  assumes "net_ok s" and "unat ip_total_size \<le> length ip" and "unat ip_header_size < 2 ^ 16"
  shows "okay (net_handle_udp index ip ip_header_size ip_total_size s) net_ok"
proof (cases "ip_total_size < ip_header_size + 8")
  case True
  then show ?thesis using assms(1) by (simp add: net_handle_udp_def wp)
next
  case False
  have "unat (ip_header_size + 8) = unat ip_header_size + 8" using assms(3) by (simp add: unat_word_ariths)
  then have h: "unat ip_header_size + 8 \<le> unat ip_total_size" using False by (simp add: word_less_nat_alt)
  let ?udp = "drop (unat ip_header_size) ip"
  have l: "0 + 1 < length ?udp" "2 + 1 < length ?udp" "4 + 1 < length ?udp" using h assms(2) by auto
  define ul where "ul = net_ntohs (le16_at ?udp 4)"
  have fits: "unat (ucast ul - 8 :: u32) \<le> length (drop 8 ?udp)"
    if "\<not> (ul < 8 \<or> ip_total_size < ip_header_size + ucast ul)"
  proof -
    have "unat (ip_header_size + ucast ul) = unat ip_header_size + unat ul"
      using assms(3) u16_bound [of ul] by (simp add: unat_word_ariths)
    then have "unat ip_header_size + unat ul \<le> unat ip_total_size" "8 \<le> unat ul" using that by (simp_all add: word_less_nat_alt)
    moreover have "unat (ucast ul - 8 :: u32) = unat ul - 8" using calculation(2) by (subst unat_sub) (simp_all add: word_le_nat_alt)
    ultimately show ?thesis using assms(2) by simp
  qed
  have s: "net_ok (debug_info_update (di_rx_udp_update (\<lambda>n. n + 1)) s)" using assms(1) by simp
  show ?thesis unfolding net_handle_udp_def Let_def okay_bind okay_if okay_Some okay_ld16 ul_def [symmetric]
    using False l assms(1) okay_handle_dhcp [OF s fits] okay_handle_dns [OF s fits] by simp
qed

lemma okay_handle_ipv4:
  assumes "net_ok s" and "unat sz \<le> length payload"
  shows "okay (net_handle_ipv4 index payload sz s) net_ok"
proof (cases "sz < 20")
  case True
  then show ?thesis using assms(1) by (simp add: net_handle_ipv4_def wp)
next
  case False
  then have "20 \<le> length payload" using assms(2) by (simp add: word_less_nat_alt)
  then have l: "0 < length payload" "2 + 1 < length payload" "9 < length payload" "16 + 3 < length payload" by linarith+
  define hs where "hs = ucast (payload ! 0 AND 0x0F) * (4 :: u32)"
  define ts where "ts = (ucast (net_ntohs (le16_at payload 2)) :: u32)"
  have "unat (payload ! 0 AND 0x0F) < 256" by (rule byte_bound)
  then have h: "unat hs < 2 ^ 16" by (simp add: hs_def unat_word_ariths unsigned_ucast_eq take_bit_nat_eq_self)
  have t: "unat ts < 2 ^ 16" using u16_bound [of "net_ntohs (le16_at payload 2)"] by (simp add: ts_def)
  have "okay (net_handle_tcp index payload hs ts s) net_ok" "okay (net_handle_udp index payload hs ts s) net_ok"
    if "\<not> hs < 20" "\<not> sz < ts"
    using that assms h t by (auto intro!: okay_handle_tcp okay_handle_udp simp: word_less_nat_alt)
  then show ?thesis
    unfolding net_handle_ipv4_def Let_def okay_bind okay_if okay_Some okay_ld16 okay_ld8 okay_ld32 hs_def [symmetric] ts_def [symmetric]
    using False l assms(1) by simp
qed

lemma okay_receive_frame:
  assumes "net_ok s" and "unat sz \<le> length frame"
  shows "okay (net_receive_frame index frame sz s) net_ok"
proof (cases "sz < 14")
  case True
  then show ?thesis using assms(1) by (simp add: net_receive_frame_def wp)
next
  case False
  then have l: "14 \<le> length frame" using assms(2) by (simp add: word_less_nat_alt)
  have ft: "okay (frame_type frame sz) (\<lambda>(outer, type, off). unat off \<le> 18)"
    using l assms(2) by (auto simp: frame_type_def wp Let_def word_le_nat_alt)
  have sub: "unat (sz - off) \<le> length (drop (unat off) frame)" if "\<not> sz < off" for off
    using that assms(2) by (simp add: unat_sub not_less)
  have "okay (net_handle_arp index (drop (unat off) frame) (sz - off) (debug_info_update f s')) net_ok"
    "okay (net_handle_ipv4 index (drop (unat off) frame) (sz - off) (debug_info_update f s')) net_ok"
    if "\<not> sz < off" "net_ok s'" for off f s'
    using sub [OF that(1)] that(2) by (auto intro!: okay_handle_arp okay_handle_ipv4)
  then show ?thesis unfolding net_receive_frame_def
    using assms(1) by (auto simp: wp intro!: okay_mono [OF ft])
qed

end
