(* ===== verification/Net_Stream.thy ===== *)
theory Net_Stream
  imports Net_Tcp "HOL-Library.Sublist"
begin

text \<open>
  In-order delivery. The two users of TCP take data under the same condition; the locale below states what taking a segment means
  for any such user and shows, once, that segments that arrive late, twice or out of order never put a wrong byte into the
  received sequence. It is interpreted for the stream and for the HTTP client. The second half puts the stream
  into a step relation with the application that drains it and a peer that sends any segments of its data.
\<close>

subsection \<open>Comparing sequence numbers\<close>

lemma unat_of_nat_diff: "a \<le> b \<Longrightarrow> b < 2 ^ 32 \<Longrightarrow> unat (of_nat b - of_nat a :: u32) = b - a"
  using unat_of_nat_32 [of "b - a"] by (simp add: of_nat_diff)

lemma seq_compare:
  fixes isn :: u32
  assumes "a < 2 ^ 31" and "b < 2 ^ 31"
  shows "net_tcp_seq_before (isn + of_nat a) (isn + of_nat b) \<longleftrightarrow> a < b"
    "net_tcp_seq_after (isn + of_nat a) (isn + of_nat b) \<longleftrightarrow> b < a"
    "isn + of_nat a = isn + of_nat b \<longleftrightarrow> a = b"
proof -
  have d: "(isn + of_nat a) - (isn + of_nat b) = (of_nat a - of_nat b :: u32)" by simp
  have "unat (of_nat a - of_nat b :: u32) = (if b \<le> a then a - b else 2 ^ 32 - (b - a))"
  proof (cases "b \<le> a")
    case True
    then show ?thesis using unat_of_nat_diff [of b a] assms by simp
  next
    case False
    have u: "unat (of_nat a :: u32) = a" "unat (of_nat b :: u32) = b" using assms by (simp_all add: unat_of_nat_32)
    show ?thesis using False assms u by (simp add: unat_sub_if' u)
  qed
  then show "net_tcp_seq_before (isn + of_nat a) (isn + of_nat b) \<longleftrightarrow> a < b"
    "net_tcp_seq_after (isn + of_nat a) (isn + of_nat b) \<longleftrightarrow> b < a"
    unfolding net_tcp_seq_before_def net_tcp_seq_after_def sint32_neg sint32_pos d using assms by auto
  have u: "unat (of_nat a :: u32) = a" "unat (of_nat b :: u32) = b" using assms by (simp_all add: unat_of_nat_32)
  show "isn + of_nat a = isn + of_nat b \<longleftrightarrow> a = b" using u by (metis add_left_cancel)
qed

lemma accepted_iff:
  fixes isn :: u32
  assumes "off + n < 2 ^ 31" and "k < 2 ^ 31"
  shows "segment_accepted (isn + of_nat off) (isn + of_nat k) (of_nat n) \<longleftrightarrow> off = k \<or> off < k \<and> k < off + n"
proof -
  have "isn + of_nat off + of_nat n = isn + of_nat (off + n)" by simp
  then show ?thesis unfolding segment_accepted_def using seq_compare [of off k isn] seq_compare [of "off + n" k isn] assms by (metis add_lessD1)
qed

lemma prefix_extend:
  assumes "got = take k data" and "k \<le> length data" and "off \<le> k" and "prefix b (drop (k - off) (slice off n data))"
  shows "got @ b = take (k + length b) data" "k + length b \<le> length data"
proof -
  have "drop (k - off) (slice off n data) = take (off + n - k) (drop k data)"
    using assms(3) by (simp add: slice_def drop_take add.commute)
  then have "prefix b (drop k data)" using assms(4) by (metis prefix_order.trans take_is_prefix)
  then obtain r where r: "drop k data = b @ r" by (auto elim: prefixE)
  then have "take (length b) (drop k data) = b" by simp
  then show "got @ b = take (k + length b) data" using assms(1) by (simp add: take_add)
  have "length (drop k data) = length b + length r" using r by simp
  then show "k + length b \<le> length data" using assms(2) by simp
qed

subsection \<open>What a receiver promises\<close>

locale ordered_receiver =
  fixes ready :: "'s \<Rightarrow> bool" and next_seq :: "'s \<Rightarrow> u32" and got :: "'s \<Rightarrow> bytes" and take_segment :: "u32 \<Rightarrow> bytes \<Rightarrow> 's \<Rightarrow> 's"
  assumes stays_ready: "ready s \<Longrightarrow> ready (take_segment seq p s)"
    and takes: "ready s \<Longrightarrow> p \<noteq> [] \<Longrightarrow> length p < 2 ^ 16 \<Longrightarrow> segment_accepted seq (next_seq s) (of_nat (length p)) \<Longrightarrow>
      \<exists>b. prefix b (drop (unat (next_seq s - seq)) p) \<and> got (take_segment seq p s) = got s @ b \<and>
          next_seq (take_segment seq p s) = next_seq s + of_nat (length b)"
    and ignores: "ready s \<Longrightarrow> p \<noteq> [] \<Longrightarrow> \<not> segment_accepted seq (next_seq s) (of_nat (length p)) \<Longrightarrow>
      got (take_segment seq p s) = got s \<and> next_seq (take_segment seq p s) = next_seq s"
begin

definition in_order :: "u32 \<Rightarrow> bytes \<Rightarrow> 's \<Rightarrow> bool" where
  "in_order isn data s \<longleftrightarrow> ready s \<and> prefix (got s) data \<and> next_seq s = isn + of_nat (length (got s))"

lemma segment_in_order:
  assumes "in_order isn data s" and "length data < 2 ^ 31" and "off + n \<le> length data" and "0 < n" and "n < 2 ^ 16"
  shows "in_order isn data (take_segment (isn + of_nat off) (slice off n data) s)"
proof -
  let ?k = "length (got s)" and ?p = "slice off n data"
  have r: "ready s" "got s = take ?k data" "?k \<le> length data" "next_seq s = isn + of_nat ?k"
    using assms(1) by (auto simp: in_order_def prefix_def)
  have p: "?p \<noteq> []" "length ?p = n" using assms(3,4) by (auto simp flip: length_0_conv)
  show ?thesis
  proof (cases "segment_accepted (isn + of_nat off) (next_seq s) (of_nat (length ?p))")
    case True
    then have off: "off \<le> ?k" using accepted_iff [of off n ?k isn] assms(2,3) r(3,4) p(2) by auto
    have d: "next_seq s - (isn + of_nat off) = of_nat ?k - of_nat off" using r(4) by simp
    have "unat (next_seq s - (isn + of_nat off)) = ?k - off" unfolding d using r(3) assms(2) by (intro unat_of_nat_diff [OF off]) simp
    then obtain b where b: "prefix b (drop (?k - off) ?p)" "got (take_segment (isn + of_nat off) ?p s) = got s @ b"
      "next_seq (take_segment (isn + of_nat off) ?p s) = next_seq s + of_nat (length b)"
      using takes [OF r(1) p(1) _ True] p(2) assms(5) by auto
    note e = prefix_extend [OF r(2,3) off b(1)]
    have "prefix (got s @ b) data" using e(1) take_is_prefix by metis
    then show ?thesis using b r stays_ready by (simp add: in_order_def)
  next
    case False
    then show ?thesis using ignores [OF r(1) p(1) False] stays_ready [OF r(1)] assms(1) by (simp add: in_order_def)
  qed
qed

lemma segments_in_order:
  assumes "in_order isn data s" and "length data < 2 ^ 31"
    and "\<forall>(off, n) \<in> set segs. off + n \<le> length data \<and> 0 < n \<and> n < 2 ^ 16"
  shows "in_order isn data (fold (\<lambda>(off, n). take_segment (isn + of_nat off) (slice off n data)) segs s)"
  using assms(1,3)
proof (induction segs arbitrary: s)
  case (Cons x segs)
  then show ?case using segment_in_order [OF Cons.prems(1) assms(2)] by (cases x) auto
qed simp

end

subsection \<open>The stream and the HTTP client\<close>

text \<open>The stream together with what the application has taken out of it.\<close>

definition stream_ready :: "net_tcp_stream \<times> bytes \<Rightarrow> bool" where
  "stream_ready x \<longleftrightarrow> tcp_stream_ok (fst x) \<and> ts_active (fst x)"

definition stream_next :: "net_tcp_stream \<times> bytes \<Rightarrow> u32" where
  "stream_next x = ts_ack (fst x)"

definition stream_got :: "net_tcp_stream \<times> bytes \<Rightarrow> bytes" where
  "stream_got x = snd x @ take (unat (ts_rx_size (fst x))) (ts_rx_buffer (fst x))"

definition stream_segment_effect :: "u32 \<Rightarrow> bytes \<Rightarrow> net_tcp_stream \<times> bytes \<Rightarrow> net_tcp_stream \<times> bytes" where
  "stream_segment_effect seq p x = (data_effect seq p (of_nat (length p)) (fst x), snd x)"

lemma put_bytes_got:
  assumes "tcp_stream_ok t" and "ts_active t" and "length b \<le> unat (ts_rx_capacity t) - unat (ts_rx_size t)"
  shows "take (unat (ts_rx_size (put_bytes b t))) (ts_rx_buffer (put_bytes b t)) = take (unat (ts_rx_size t)) (ts_rx_buffer t) @ b"
proof -
  have "unat (ts_rx_size t) + length b \<le> length (ts_rx_buffer t)"
    using assms by (auto simp: tcp_stream_ok_def word_le_nat_alt)
  then show ?thesis using put_bytes_ok(2) [OF assms] by (simp add: put_bytes_def overwrite_def)
qed

interpretation stream: ordered_receiver stream_ready stream_next stream_got stream_segment_effect
proof
  fix x :: "net_tcp_stream \<times> bytes" and seq :: u32 and p :: bytes
  assume x: "stream_ready x"
  show "stream_ready (stream_segment_effect seq p x)"
    using x effect_ok(1,2) by (auto simp: stream_ready_def stream_segment_effect_def)
  assume p: "p \<noteq> []"
  show "\<exists>b. prefix b (drop (unat (stream_next x - seq)) p) \<and> stream_got (stream_segment_effect seq p x) = stream_got x @ b \<and>
      stream_next (stream_segment_effect seq p x) = stream_next x + of_nat (length b)"
    if l: "length p < 2 ^ 16" and a: "segment_accepted seq (stream_next x) (of_nat (length p))"
  proof -
    let ?t = "fst x"
    have u: "unat (of_nat (length p) :: u32) = length p" using l by (simp add: unat_of_nat_32)
    then have "(of_nat (length p) :: u32) \<noteq> 0" using p by (metis length_0_conv unat_0)
    then have e: "data_effect seq p (of_nat (length p)) ?t = put_bytes (taken ?t seq p (of_nat (length p))) ?t"
      using a by (simp add: data_effect_def stream_next_def)
    have "prefix (taken ?t seq p (of_nat (length p))) (drop (unat (ts_ack ?t - seq)) p)"
      unfolding taken_def slice_def by (rule take_is_prefix)
    then show ?thesis using put_bytes_got [OF _ _ taken_length, of ?t seq p "of_nat (length p)"] x
      by (auto simp: stream_next_def stream_got_def stream_segment_effect_def e stream_ready_def put_bytes_def
          intro!: exI [of _ "taken ?t seq p (of_nat (length p))"])
  qed
  show "stream_got (stream_segment_effect seq p x) = stream_got x \<and> stream_next (stream_segment_effect seq p x) = stream_next x"
    if "\<not> segment_accepted seq (stream_next x) (of_nat (length p))"
    using that by (simp add: stream_got_def stream_segment_effect_def stream_next_def data_effect_def)
qed

subsection \<open>Draining the buffer\<close>

lemma okay_shift_down:
  assumes "k \<le> n" and "n \<le> length buf"
  shows "okay (shift_down k n buf) (\<lambda>b. length b = length buf \<and> take (n - k) b = slice k (n - k) buf)"
proof -
  have "okay (foldl (\<lambda>b i. do { buf \<leftarrow> b; c \<leftarrow> ld8 buf i; st8 buf (i - k) c }) (Some buf) [k..<k + m])
      (\<lambda>b. length b = length buf \<and> take m b = slice k m buf \<and> (\<forall>j. m \<le> j \<longrightarrow> b ! j = buf ! j))" if "k + m \<le> length buf" for m
    using that
  proof (induction m)
    case 0
    then show ?case by (simp add: wp slice_def)
  next
    case (Suc m)
    let ?F = "foldl (\<lambda>b i. do { buf \<leftarrow> b; c \<leftarrow> ld8 buf i; st8 buf (i - k) c }) (Some buf) [k..<k + m]"
    have "okay ?F (\<lambda>b. length b = length buf \<and> take m b = slice k m buf \<and> (\<forall>j. m \<le> j \<longrightarrow> b ! j = buf ! j))"
      using Suc by simp
    then have "okay ?F (\<lambda>b. okay (do { c \<leftarrow> ld8 b (k + m); st8 b (k + m - k) c })
        (\<lambda>b. length b = length buf \<and> take (Suc m) b = slice k (Suc m) buf \<and> (\<forall>j. Suc m \<le> j \<longrightarrow> b ! j = buf ! j)))"
    proof (rule okay_mono)
      fix b assume b: "length b = length buf \<and> take m b = slice k m buf \<and> (\<forall>j. m \<le> j \<longrightarrow> b ! j = buf ! j)"
      have "slice k (Suc m) buf = slice k m buf @ [buf ! (k + m)]"
        using Suc.prems by (simp add: slice_def take_Suc_conv_app_nth)
      then show "okay (do { c \<leftarrow> ld8 b (k + m); st8 b (k + m - k) c })
        (\<lambda>b. length b = length buf \<and> take (Suc m) b = slice k (Suc m) buf \<and> (\<forall>j. Suc m \<le> j \<longrightarrow> b ! j = buf ! j))"
        using b Suc.prems by (auto simp: wp take_Suc_conv_app_nth)
    qed
    then show ?case by (simp add: wp)
  qed
  from this [of "n - k"] show ?thesis using assms unfolding shift_down_def by (auto elim!: okay_mono)
qed

lemma okay_deliver:
  assumes "net_ok s" and "ts_active (tcp_stream s)" and "unat cap \<le> length out"
  shows "okay (stream_deliver out cap s) (\<lambda>(out', n, s'). net_ok s' \<and> ts_active (tcp_stream s') \<and>
    ts_ack (tcp_stream s') = ts_ack (tcp_stream s) \<and> ts_connected (tcp_stream s') = ts_connected (tcp_stream s) \<and>
    ts_closed (tcp_stream s') = ts_closed (tcp_stream s) \<and>
    0 \<le> n \<and> nat n \<le> unat cap \<and> length out' = length out \<and>
    stream_got (tcp_stream s', d @ take (nat n) out') = stream_got (tcp_stream s, d))"
proof -
  let ?t = "tcp_stream s"
  let ?c = "if ts_rx_size ?t < cap then ts_rx_size ?t else cap"
  have t: "length (ts_remote_mac ?t) = 6" "unat (ts_rx_size ?t) \<le> unat (ts_rx_capacity ?t)" "unat (ts_rx_capacity ?t) \<le> length (ts_rx_buffer ?t)"
    using assms(1,2) by (simp_all add: net_ok_def tcp_stream_ok_def word_le_nat_alt)
  have c: "unat ?c = min (unat (ts_rx_size ?t)) (unat cap)" by (simp add: word_less_nat_alt)
  have r: "unat (ts_rx_size ?t - ?c) = unat (ts_rx_size ?t) - unat ?c"
    by (rule unat_sub) (simp add: word_le_nat_alt c)
  have l: "unat ?c \<le> length out" "unat ?c \<le> length (ts_rx_buffer ?t)" using assms(3) t c by auto
  have sd: "okay (if ?c < ts_rx_size ?t then shift_down (unat ?c) (unat (ts_rx_size ?t)) (ts_rx_buffer ?t) else Some (ts_rx_buffer ?t))
      (\<lambda>b. length b = length (ts_rx_buffer ?t) \<and> take (unat (ts_rx_size ?t) - unat ?c) b = slice (unat ?c) (unat (ts_rx_size ?t) - unat ?c) (ts_rx_buffer ?t))"
  proof (cases "?c < ts_rx_size ?t")
    case True
    then have "unat ?c \<le> unat (ts_rx_size ?t)" by (simp add: word_less_nat_alt)
    then show ?thesis using okay_shift_down [of "unat ?c" "unat (ts_rx_size ?t)" "ts_rx_buffer ?t"] True t by (simp del: if_split)
  next
    case False
    then have "unat (ts_rx_size ?t) - unat ?c = 0" by (simp add: word_less_nat_alt)
    then show ?thesis using False by (simp add: wp slice_def)
  qed
  have fin: "okay (if ts_connected (tcp_stream s1) \<and> \<not> ts_closed (tcp_stream s1) then send_ack 0x10 s1 else Some s1)
      (\<lambda>s'. net_ok s' \<and> tcp_stream s' = tcp_stream s1)" if "net_ok s1" for s1
    using that by (auto simp: wp intro!: okay_mono [OF okay_send_ack [OF that]] intro: same_stack_ok [THEN iffD2] dest: same_stack_fields(4))
  have slices: "take (unat ?c) (ts_rx_buffer ?t) @ slice (unat ?c) (unat (ts_rx_size ?t) - unat ?c) (ts_rx_buffer ?t) = take (unat (ts_rx_size ?t)) (ts_rx_buffer ?t)"
    using c by (simp add: slice_def flip: take_add)
  show ?thesis
    unfolding stream_deliver_def Let_def okay_bind okay_net_copy okay_Some
  proof (intro conjI okay_mono [OF sd], goal_cases)
    case 1
    then show ?case using l by simp
  next
    case (2 b)
    let ?u = "?t\<lparr>ts_rx_buffer := b, ts_rx_size := ts_rx_size ?t - ?c\<rparr>"
    have "unat (ts_rx_size ?t - ?c) \<le> unat (ts_rx_capacity ?t)" unfolding r using t(2) by linarith
    then have "tcp_stream_ok ?u" using t 2 by (simp add: tcp_stream_ok_def word_le_nat_alt del: if_split)
    then have ok: "net_ok (s\<lparr>tcp_stream := ?u\<rparr>)" using with_stream_ok [OF assms(1), of ?u] by (simp add: with_stream_def)
    have o: "take (unat ?c) (overwrite 0 (slice 0 (unat ?c) (ts_rx_buffer ?t)) out) = take (unat ?c) (ts_rx_buffer ?t)"
      using l by (simp add: overwrite_def slice_def)
    have "length (overwrite 0 (slice 0 (unat ?c) (ts_rx_buffer ?t)) out) = length out" using l by simp
    then show ?case using assms(2) c 2 slices o r
      by (intro okay_mono [OF fin [OF ok]]) (auto simp: stream_got_def simp del: if_split)
  qed
qed

subsection \<open>A session\<close>

text \<open>
  A session is a connected stream, with what the application has taken out of it. In each step either a segment
  of the peer's data arrives, any part of it in any order and with any flags, where \<^verbatim>\<open>FIN\<close> is set only on a segment that ends the data, or the
  application drains the buffer.
\<close>

inductive session_step :: "u32 \<Rightarrow> bytes \<Rightarrow> 'w net \<times> bytes \<Rightarrow> 'w net \<times> bytes \<Rightarrow> bool" for isn data where
  arrive: "off + n \<le> length data \<Longrightarrow> n < 2 ^ 16 \<Longrightarrow> (flags AND 0x01 \<noteq> 0 \<longrightarrow> off + n = length data) \<Longrightarrow>
    stream_segment flags (isn + of_nat off) ack (slice off n data) (of_nat n) s = Some s' \<Longrightarrow> session_step isn data (s, d) (s', d)"
| drain: "unat cap \<le> length out \<Longrightarrow> stream_deliver out cap s = Some (out', k, s') \<Longrightarrow>
    session_step isn data (s, d) (s', d @ take (nat k) out')"

inductive_cases session_stepE: "session_step isn data x y"

definition session_inv :: "u32 \<Rightarrow> bytes \<Rightarrow> 'w net \<times> bytes \<Rightarrow> bool" where
  "session_inv isn data x \<longleftrightarrow> net_ok (fst x) \<and> ts_active (tcp_stream (fst x)) \<and> ts_connected (tcp_stream (fst x)) \<and>
     (if ts_closed (tcp_stream (fst x))
      then stream_got (tcp_stream (fst x), snd x) = data \<and> ts_ack (tcp_stream (fst x)) = isn + of_nat (length data + 1)
      else stream.in_order isn data (tcp_stream (fst x), snd x))"

lemma in_order_fields:
  assumes "ts_ack t' = ts_ack t" and "ts_rx_size t' = ts_rx_size t" and "ts_rx_buffer t' = ts_rx_buffer t" and "ts_active t' = ts_active t"
    and "ts_remote_mac t' = ts_remote_mac t" and "ts_rx_capacity t' = ts_rx_capacity t"
  shows "stream.in_order isn data (t', d) \<longleftrightarrow> stream.in_order isn data (t, d)" "stream_got (t', d) = stream_got (t, d)"
  using assms by (simp_all add: stream.in_order_def stream_ready_def stream_next_def stream_got_def tcp_stream_ok_def)

lemma data_effect_fields: "ts_closed (data_effect seq p n t) = ts_closed t" "ts_connected (data_effect seq p n t) = ts_connected t"
  by (simp_all add: data_effect_def put_bytes_def)

lemma open_data:
  assumes "stream.in_order isn data (t, d)" and "length data + 1 < 2 ^ 31" and "off + n \<le> length data" and "n < 2 ^ 16"
  shows "stream.in_order isn data (data_effect (isn + of_nat off) (slice off n data) (of_nat n) t, d)"
proof (cases "n = 0")
  case True
  then show ?thesis using assms(1) by (simp add: data_effect_def)
next
  case False
  then show ?thesis
    using stream.segment_in_order [OF assms(1) _ assms(3) _ assms(4)] assms(2,3) by (simp add: stream_segment_effect_def)
qed

lemma closed_data:
  assumes "ts_ack t = isn + of_nat (length data + 1)" and "length data + 1 < 2 ^ 31" and "off + n \<le> length data"
  shows "data_effect (isn + of_nat off) p (of_nat n) t = t" "fin_effect flags (isn + of_nat off) (of_nat n) t = t"
proof -
  have "\<not> segment_accepted (isn + of_nat off) (ts_ack t) (of_nat n)"
    using accepted_iff [of off n "length data + 1" isn] assms by auto
  then show "data_effect (isn + of_nat off) p (of_nat n) t = t" by (simp add: data_effect_def)
  have "isn + of_nat (off + n) \<noteq> ts_ack t" using seq_compare(3) [of "off + n" "length data + 1" isn] assms by auto
  then show "fin_effect flags (isn + of_nat off) (of_nat n) t = t" by (auto simp: fin_effect_def add.assoc)
qed

lemma open_fin:
  assumes "stream.in_order isn data (t, d)" and "length data + 1 < 2 ^ 31" and "off + n \<le> length data"
    and "flags AND 0x01 \<noteq> 0 \<longrightarrow> off + n = length data" and "\<not> ts_closed t"
  defines "t' \<equiv> fin_effect flags (isn + of_nat off) (of_nat n) t"
  shows "if ts_closed t' then stream_got (t', d) = data \<and> ts_ack t' = isn + of_nat (length data + 1) else stream.in_order isn data (t', d)"
proof (cases "flags AND 0x01 \<noteq> 0 \<and> isn + of_nat off + of_nat n = ts_ack t")
  case True
  let ?k = "length (stream_got (t, d))"
  have p: "prefix (stream_got (t, d)) data" "ts_ack t = isn + of_nat ?k"
    using assms(1) by (simp_all add: stream.in_order_def stream_next_def)
  have "isn + of_nat (length data) = isn + of_nat ?k" using True assms(4) p(2) by (metis of_nat_add add.assoc)
  then have "?k = length data" using seq_compare(3) [of "length data" ?k isn] assms(2) prefix_length_le [OF p(1)] by auto
  then have "stream_got (t, d) = data" using p(1) by (metis prefix_length_prefix prefix_order.eq_iff prefix_order.refl order.refl)
  moreover have "stream_got (t', d) = stream_got (t, d)" using True by (simp add: t'_def fin_effect_def stream_got_def)
  moreover have "of_nat off + of_nat n = (of_nat (length data) :: u32)" using True assms(4) by (metis of_nat_add)
  then have "ts_closed t'" "ts_ack t' = isn + of_nat (length data + 1)"
    using True by (simp_all add: t'_def fin_effect_def add.assoc)
  ultimately show ?thesis by simp
next
  case False
  then have "t' = t" by (auto simp: t'_def fin_effect_def)
  then show ?thesis using assms(1,5) by simp
qed

lemma session_arrive:
  assumes "session_inv isn data (s, d)" and "length data + 1 < 2 ^ 31" and "off + n \<le> length data" and "n < 2 ^ 16"
    and "flags AND 0x01 \<noteq> 0 \<longrightarrow> off + n = length data"
    and "stream_segment flags (isn + of_nat off) ack (slice off n data) (of_nat n) s = Some s'"
  shows "session_inv isn data (s', d)"
proof -
  let ?t = "tcp_stream s" and ?seq = "isn + of_nat off" and ?p = "slice off n data" and ?n = "of_nat n :: u32"
  let ?a = "stream_acked flags ack ?t"
  let ?e = "segment_effect flags ?seq ack ?p ?n ?t"
  have s: "net_ok s" "ts_active ?t" "ts_connected ?t" using assms(1) by (simp_all add: session_inv_def)
  have "unat ?n = n" using assms(4) by (simp add: unat_of_nat_32)
  then have st: "same_stack (with_stream ?e s) s'"
    using okay_stream_segment [OF s(1,2), of ?n ?p flags ?seq ack] assms(3,4,6) by (simp add: okay_iff)
  then have t': "tcp_stream s' = ?e" using same_stack_fields(4) by fastforce
  have e: "tcp_stream_ok ?e" "ts_active ?e" using effect_ok(5,6) [OF _ s(2)] s(1) by (simp_all add: net_ok_def)
  have ok: "net_ok s'" using st with_stream_ok [OF s(1)] e(1) same_stack_ok by blast
  have a: "ts_ack ?a = ts_ack ?t" "ts_rx_size ?a = ts_rx_size ?t" "ts_rx_buffer ?a = ts_rx_buffer ?t" "ts_active ?a = ts_active ?t"
    "ts_remote_mac ?a = ts_remote_mac ?t" "ts_rx_capacity ?a = ts_rx_capacity ?t" "ts_closed ?a = ts_closed ?t" "ts_connected ?a"
    using s(3) by (auto simp: stream_acked_def)
  note A = in_order_fields [OF a(1-6)]
  have "ts_connected ?e \<and> (if ts_closed ?e then stream_got (?e, d) = data \<and> ts_ack ?e = isn + of_nat (length data + 1)
      else stream.in_order isn data (?e, d))"
  proof (cases "flags AND 0x04 \<noteq> 0")
    case True
    then have "?e = ?t\<lparr>ts_reset := True\<rparr>" by (simp add: segment_effect_def)
    moreover have "stream.in_order isn data (?t\<lparr>ts_reset := True\<rparr>, d) \<longleftrightarrow> stream.in_order isn data (?t, d)"
      "stream_got (?t\<lparr>ts_reset := True\<rparr>, d) = stream_got (?t, d)"
      by (rule in_order_fields; simp)+
    ultimately show ?thesis using assms(1) by (auto simp: session_inv_def split: if_splits)
  next
    case False
    then have e': "?e = fin_effect flags ?seq ?n (data_effect ?seq ?p ?n ?a)" using a(8) by (auto simp: segment_effect_def Let_def)
    show ?thesis
    proof (cases "ts_closed ?t")
      case True
      then have c: "ts_ack ?a = isn + of_nat (length data + 1)" "stream_got (?t, d) = data"
        using assms(1) a(1) by (simp_all add: session_inv_def)
      have "?e = ?a" unfolding e' using closed_data [OF c(1) assms(2,3)] by simp
      then show ?thesis using True a(7,8) A c by simp
    next
      case False
      then have i: "stream.in_order isn data (?t, d)" using assms(1) by (simp add: session_inv_def)
      let ?d = "data_effect ?seq ?p ?n ?a"
      have "stream.in_order isn data (?d, d)" using open_data [OF _ assms(2-4), of isn ?a d] A i by simp
      from open_fin [OF this assms(2,3,5)] show ?thesis unfolding e'
        using False a(7,8) data_effect_fields [of ?seq ?p ?n ?a] by (auto simp: fin_effect_def)
    qed
  qed
  then show ?thesis using ok e t' by (simp add: session_inv_def)
qed

lemma session_drain:
  assumes "session_inv isn data (s, d)" and "unat cap \<le> length out" and "stream_deliver out cap s = Some (out', k, s')"
  shows "session_inv isn data (s', d @ take (nat k) out')"
proof -
  have s: "net_ok s" "ts_active (tcp_stream s)" using assms(1) by (simp_all add: session_inv_def)
  have D: "net_ok s'" "ts_active (tcp_stream s')" "ts_ack (tcp_stream s') = ts_ack (tcp_stream s)"
    "ts_connected (tcp_stream s') = ts_connected (tcp_stream s)" "ts_closed (tcp_stream s') = ts_closed (tcp_stream s)"
    "stream_got (tcp_stream s', d @ take (nat k) out') = stream_got (tcp_stream s, d)"
    using okay_deliver [OF s assms(2), of d] assms(3) by (simp_all add: okay_iff)
  moreover have "tcp_stream_ok (tcp_stream s')" using D(1) by (simp add: net_ok_def)
  ultimately show ?thesis using assms(1)
    by (auto simp: session_inv_def stream.in_order_def stream_ready_def stream_next_def split: if_splits)
qed

lemma session_run:
  assumes "(session_step isn data)\<^sup>*\<^sup>* x y" and "session_inv isn data x" and "length data + 1 < 2 ^ 31"
  shows "session_inv isn data y"
  using assms(1,2)
proof (induction rule: rtranclp_induct)
  case (step y z)
  from step.hyps(2) step.IH [OF step.prems] show ?case
    by (cases rule: session_step.cases) (auto intro: session_arrive [OF _ assms(3)] session_drain)
qed

end
