(* ===== verification/Net_Transfer.thy ===== *)
theory Net_Transfer
  imports Net_Receive Net_Stream
begin

text \<open>
  Both ends of a connection put together: the frame that \<^verbatim>\<open>net_send_tcp_window\<close> hands to a driver, given to \<^verbatim>\<open>net_receive_frame\<close>
  of another machine, reaches the stream there as the segment it was made from.
\<close>

subsection \<open>Reading the fields of a frame\<close>

lemma ntohs_htons [simp]: "net_ntohs (net_htons v) = v"
  by (simp add: net_ntohs_def net_htons_def)

lemma ld_drop:
  assumes "k \<le> length p"
  shows "ld8 (drop k p) i = ld8 p (k + i)" "ld16 (drop k p) i = ld16 p (k + i)" "ld32 (drop k p) i = ld32 p (k + i)"
proof -
  show "ld8 (drop k p) i = ld8 p (k + i)" for i using assms by (auto simp: ld8_def)
  then show "ld16 (drop k p) i = ld16 p (k + i)" "ld32 (drop k p) i = ld32 p (k + i)" by (simp_all add: ld16_def ld32_def add.assoc)
qed

lemma ntohl_htonl [simp]: "net_ntohl (net_htonl v) = v"
proof (rule bit_word_eqI)
  fix n assume "n < LENGTH(32)"
  then have "n < 32" by simp
  then show "bit (net_ntohl (net_htonl v)) n = bit v n"
    by (cases rule: byte_position_cases) (simp_all add: net_ntohl_def net_htonl_def bit_bswap32)
qed

lemma slice_two: "i + 2 \<le> length p \<Longrightarrow> slice i 2 p = [p ! i, p ! (i + 1)]"
  by (rule nth_equalityI) (auto simp: nth_slice less_2_cases_iff)

lemma slice_four: "i + 4 \<le> length p \<Longrightarrow> slice i 4 p = [p ! i, p ! (i + 1), p ! (i + 2), p ! (i + 3)]"
  by (rule nth_equalityI) (auto simp: nth_slice nth_Cons numeral_eq_Suc less_Suc_eq split: nat.split)

lemma ld_field:
  shows "slice i 1 p = [v] \<Longrightarrow> i < length p \<Longrightarrow> ld8 p i = Some v"
    "slice i 2 p = be16 a \<Longrightarrow> i + 2 \<le> length p \<Longrightarrow> ld16 p i = Some (net_htons a)"
    "slice i 4 p = be32 b \<Longrightarrow> i + 4 \<le> length p \<Longrightarrow> ld32 p i = Some (net_htonl b)"
proof -
  show "ld8 p i = Some v" if "slice i 1 p = [v]" "i < length p"
    using that nth_slice [of 0 1 i p] by (simp add: ld8_def)
  have "net_htons (net_ntohs w) = w" "net_htonl (net_ntohl z) = z" for w z
    by (simp add: net_ntohs_def net_htons_def) (metis ntohl_htonl net_ntohl_def net_htonl_def)
  then have *: "le16_at p i = net_htons (be16_at p i)" "le32_at p i = net_htonl (be32_at p i)"
    unfolding ntohs_le16 [symmetric] ntohl_le32 [symmetric] by simp_all
  show "ld16 p i = Some (net_htons a)" if "slice i 2 p = be16 a" "i + 2 \<le> length p"
  proof -
    have "be16_at p i = be16_at (be16 a) 0" unfolding that(1) [symmetric] using that(2) by (simp add: slice_two be16_at_def)
    then show ?thesis using * that(2) okay_ld16 [of p i "\<lambda>w. w = le16_at p i"] by (simp add: okay_iff be16_at_be16)
  qed
  show "ld32 p i = Some (net_htonl b)" if "slice i 4 p = be32 b" "i + 4 \<le> length p"
  proof -
    have "be32_at p i = be32_at (be32 b) 0" unfolding that(1) [symmetric] using that(2) by (simp add: slice_four be32_at_def)
    then show ?thesis using * that(2) okay_ld32 [of p i "\<lambda>w. w = le32_at p i"] by (simp add: okay_iff be32_at_be32)
  qed
qed

lemma fields_slice: "laid_out N fs f \<Longrightarrow> (i, b) \<in> set fs \<Longrightarrow> i + length b \<le> m \<Longrightarrow> m \<le> N \<Longrightarrow> slice i (length b) (take m f) = b"
proof -
  assume "laid_out N fs f" "(i, b) \<in> set fs" and m: "i + length b \<le> m" "m \<le> N"
  then have "slice i (length b) f = b" "length f = N" by (auto simp: laid_out_def)
  then show ?thesis using m by (auto simp: slice_def drop_take min_def)
qed

subsection \<open>Receiving a frame\<close>

definition counted :: "'w net \<Rightarrow> 'w net" where
  "counted s = debug_info_update (di_rx_ipv4_update (\<lambda>n. n + 1) \<circ> (di_last_eth_type_update (\<lambda>_. NET_ETH_TYPE_IPV4) \<circ>
     di_last_inner_eth_type_update (\<lambda>_. NET_ETH_TYPE_IPV4))) s"

lemma receive_tcp:
  assumes f: "tcp_frame_of dst mac src_ip dst_ip ip_id src_port dst_port seq ack flags window data f"
    and n: "length data \<le> 1464" "sz = of_nat (max 60 (54 + length data))"
    and b: "index < device_count s" "dst_ip = local_ip s"
  shows "net_receive_frame index (take (unat sz) f) sz s =
    tcp_dispatch index src_ip src_port dst_port flags seq ack (drop 54 (take (unat sz) f)) (of_nat (length data)) (counted s)"
proof -
  let ?m = "max 60 (54 + length data)"
  define g where "g = take ?m f"
  let ?fs = "tcp_fields src_port dst_port seq ack flags window data @ ipv4_fields dst mac (of_nat (40 + length data)) ip_id NET_IP_PROTO_TCP src_ip dst_ip"
  have m: "unat sz = ?m" using n by (simp add: unat_of_nat_32)
  obtain h where "laid_out 1518 ((14, h) # ?fs) f" using f by (auto simp: tcp_frame_of_def)
  then have F: "laid_out 1518 ?fs f" by (rule fields_sub) auto
  have len: "length g = ?m" using F n(1) by (auto simp: laid_out_def g_def)
  have S: "slice i (length x) g = x" if "(i, x) \<in> set ?fs" "i + length x \<le> ?m" for i x
    using fields_slice [OF F that] n(1) by (simp add: g_def)
  have w: "ucast (ucast (of_nat (40 + length data) :: u32) :: u16) = (of_nat (40 + length data) :: u32)"
  proof -
    have o: "unat (of_nat (40 + length data) :: u32) = 40 + length data" using n(1) by (intro unat_of_nat_32) simp
    then have "unat (ucast (of_nat (40 + length data) :: u32) :: u16) = 40 + length data"
      using n(1) by (simp only: unsigned_ucast_eq) (simp add: take_bit_nat_eq_self)
    then have "unat (ucast (ucast (of_nat (40 + length data) :: u32) :: u16) :: u32) = 40 + length data" by simp
    then show ?thesis unfolding word_unat_eq_iff o .
  qed
  have L: "ld16 g 12 = Some (net_htons NET_ETH_TYPE_IPV4)" "ld8 g 14 = Some 0x45" "ld16 g 16 = Some (net_htons (ucast (of_nat (40 + length data) :: u32)))"
    "ld8 g 23 = Some NET_IP_PROTO_TCP" "ld32 g 26 = Some (net_htonl src_ip)" "ld32 g 30 = Some (net_htonl dst_ip)"
    "ld16 g 34 = Some (net_htons src_port)" "ld16 g 36 = Some (net_htons dst_port)" "ld32 g 38 = Some (net_htonl seq)"
    "ld32 g 42 = Some (net_htonl ack)" "ld8 g 46 = Some 0x50" "ld8 g 47 = Some flags"
    using S [of 12 "be16 NET_ETH_TYPE_IPV4"] S [of 14 "[0x45]"] S [of 16 "be16 (ucast (of_nat (40 + length data) :: u32))"]
      S [of 23 "[NET_IP_PROTO_TCP]"] S [of 26 "be32 src_ip"] S [of 30 "be32 dst_ip"] S [of 34 "be16 src_port"] S [of 36 "be16 dst_port"]
      S [of 38 "be32 seq"] S [of 42 "be32 ack"] S [of 46 "[0x50]"] S [of 47 "[flags]"] len
    by (auto intro!: ld_field simp: tcp_fields_def ipv4_fields_def)
  have d: "14 \<le> length g" "34 \<le> length g" using len by simp_all
  have z: "\<not> sz < 14" "unat (sz - 14) = ?m - 14"
  proof -
    show "\<not> sz < 14" using m by (simp add: word_less_nat_alt)
    then show "unat (sz - 14) = ?m - 14" using m by (subst unat_sub) simp_all
  qed
  have ip: "net_receive_frame index g sz s = net_handle_ipv4 index (drop 14 g) (sz - 14) (counted s)"
    using b(1) z L(1) unfolding net_receive_frame_def frame_type_def by (simp add: not_le [symmetric] counted_def o_def)
  have tcp: "net_handle_ipv4 index (drop 14 g) (sz - 14) (counted s) = net_handle_tcp index (drop 14 g) 20 (of_nat (40 + length data)) (counted s)"
  proof -
    have "\<not> sz - 14 < 20" "\<not> (of_nat (40 + length data) :: u32) < 20" "\<not> sz - 14 < of_nat (40 + length data)"
      using z(2) n(1) by (simp_all add: word_less_nat_alt unat_of_nat_32 del: of_nat_add)
    then show ?thesis using b(2) L d w unfolding net_handle_ipv4_def by (simp add: ld_drop counted_def del: of_nat_add)
  qed
  have "net_handle_tcp index (drop 14 g) 20 (of_nat (40 + length data)) (counted s) =
    tcp_dispatch index src_ip src_port dst_port flags seq ack (drop 54 g) (of_nat (length data)) (counted s)"
  proof -
    have "\<not> (of_nat (40 + length data) :: u32) < 40" "of_nat (40 + length data) - 40 = (of_nat (length data) :: u32)"
      using n(1) by (simp add: word_less_nat_alt unat_of_nat_32 del: of_nat_add) simp
    then show ?thesis using L d unfolding net_handle_tcp_def by (simp add: ld_drop del: of_nat_add)
  qed
  then show ?thesis unfolding m g_def [symmetric] ip tcp .
qed

subsection \<open>A segment delivered\<close>

lemma window_sends_frame:
  assumes "devices_ok a" and "net_get_device i a = Some dev" and "length mac = 6" and "length data \<le> 1464"
  defines "sz \<equiv> of_nat (max 60 (54 + length data)) :: u32"
  shows "\<exists>f. tcp_frame_of mac (nd_mac dev) (local_ip a) ip (next_ip_id a) src_port dst_port seq ack flags window data f \<and>
    net_send_tcp_window i mac ip src_port dst_port seq ack flags window data (of_nat (length data)) a =
      Some (let (events, status, w) = nd_send_frame dev (take (unat sz) f) (net_world a)
            in (status, fold (apply_counter i) events (a\<lparr>next_ip_id := next_ip_id a + 1, net_world := w\<rparr>)))"
proof -
  let ?n = "of_nat (length data) :: u32"
  have u: "unat ?n = length data" using assms(4) by (intro unat_of_nat_32) simp
  obtain f where f: "tcp_frame mac (nd_mac dev) (local_ip a) ip (next_ip_id a) src_port dst_port seq ack flags window data ?n = Some f"
    "tcp_frame_of mac (nd_mac dev) (local_ip a) ip (next_ip_id a) src_port dst_port seq ack flags window (take (unat ?n) data) f"
    using tcp_frame_layout [OF assms(3) get_device_mac [OF assms(1,2)], of ?n data] u assms(4) by (simp add: okay_iff) blast
  have fs: "14 + (20 + (20 + ?n)) = of_nat (54 + length data)" by simp
  have v: "unat (of_nat (54 + length data) :: u32) = 54 + length data" using assms(4) by (intro unat_of_nat_32) simp
  have z: "\<not> NET_MAX_FRAME_SIZE < of_nat (54 + length data)"
    "(if (of_nat (54 + length data) :: u32) < NET_MIN_FRAME_SIZE then NET_MIN_FRAME_SIZE else of_nat (54 + length data)) = sz"
    using assms(4) v by (auto simp: word_less_nat_alt sz_def max_def simp del: of_nat_add)
  have sz: "unat sz = max 60 (54 + length data)" unfolding sz_def using assms(4) by (intro unat_of_nat_32) simp
  have l: "length f = 1518" using f(2) by (auto simp: tcp_frame_of_def laid_out_def)
  have ok: "\<not> (sz < NET_MIN_FRAME_SIZE \<or> NET_MAX_FRAME_SIZE < sz)" "\<not> length f < unat sz"
    using sz l assms(4) by (simp_all add: word_less_nat_alt)
  have "net_get_device i (a\<lparr>next_ip_id := k\<rparr>) = Some dev" for k using assms(2) by (simp add: net_get_device_def split: if_splits)
  then have "net_send_tcp_window i mac ip src_port dst_port seq ack flags window data ?n a =
      Some (let (events, status, w) = nd_send_frame dev (take (unat sz) f) (net_world a)
            in (status, fold (apply_counter i) events (a\<lparr>next_ip_id := next_ip_id a + 1, net_world := w\<rparr>)))"
    unfolding net_send_tcp_window_def fs Let_def z(2) using assms(2) f(1) z(1) ok by (simp add: net_send_frame_def split_beta del: of_nat_add)
  then show ?thesis using f(2) by (auto simp: u)
qed

lemma segment_arrives:
  fixes ack :: u32
  assumes t: "tcp_stream_ok t" "ts_active t" "ts_connected t" "length data \<le> unat (ts_rx_capacity t) - unat (ts_rx_size t)"
    and p: "take (length data) payload = data" "data \<noteq> []" "length data < 2 ^ 16"
  defines "t' \<equiv> segment_effect 0x18 (ts_ack t) ack payload (of_nat (length data)) t"
  shows "take (unat (ts_rx_size t')) (ts_rx_buffer t') = take (unat (ts_rx_size t)) (ts_rx_buffer t) @ data"
    "ts_ack t' = ts_ack t + of_nat (length data)" "\<not> ts_closed t \<Longrightarrow> \<not> ts_closed t'"
proof -
  let ?a = "stream_acked 0x18 ack t" and ?n = "of_nat (length data) :: u32"
  have a: "tcp_stream_ok ?a" "ts_active ?a" "ts_connected ?a" "ts_ack ?a = ts_ack t" "ts_rx_size ?a = ts_rx_size t" "ts_closed ?a = ts_closed t"
    "ts_rx_capacity ?a = ts_rx_capacity t" "ts_rx_buffer ?a = ts_rx_buffer t" using t by (auto simp: stream_acked_def tcp_stream_ok_def)
  have u: "unat ?n = length data" using p(3) by (intro unat_of_nat_32) simp
  then have nz: "?n \<noteq> 0" using p(2) by (metis length_0_conv unat_0)
  have "taken ?a (ts_ack t) payload ?n = data" using t(4) p(1) u by (simp add: taken_def a slice_def min_absorb1)
  then have e: "t' = put_bytes data ?a"
    using nz a by (simp add: t'_def segment_effect_def Let_def data_effect_def fin_effect_def segment_accepted_def)
  show "take (unat (ts_rx_size t')) (ts_rx_buffer t') = take (unat (ts_rx_size t)) (ts_rx_buffer t) @ data"
    unfolding e using put_bytes_got [OF a(1,2), of data] t(4) by (simp add: a)
  show "ts_ack t' = ts_ack t + of_nat (length data)" "\<not> ts_closed t \<Longrightarrow> \<not> ts_closed t'" unfolding e by (simp_all add: put_bytes_def a)
qed

lemma counted_simps [simp]: "tcp_stream (counted s) = tcp_stream s" "net_ok (counted s) \<longleftrightarrow> net_ok s"
  by (simp_all add: counted_def)

lemma transfer:
  assumes a: "devices_ok a" "net_get_device i a = Some dev" "length mac = 6" "length data \<le> 1464" "data \<noteq> []"
    and b: "net_ok b" "index < device_count b" "local_ip b = ip"
    and t: "ts_active t" "ts_connected t" "ts_device t = index" "ts_remote_ip t = local_ip a" "ts_remote_port t = src_port" "ts_local_port t = dst_port"
    and r: "length data \<le> unat (ts_rx_capacity t) - unat (ts_rx_size t)"
    and T: "t = tcp_stream b"
  shows "\<exists>frame b'. net_send_tcp_window i mac ip src_port dst_port (ts_ack t) ack 0x18 window data (of_nat (length data)) a =
      Some (let (events, status, w) = nd_send_frame dev frame (net_world a)
            in (status, fold (apply_counter i) events (a\<lparr>next_ip_id := next_ip_id a + 1, net_world := w\<rparr>))) \<and>
    net_receive_frame index frame (of_nat (length frame)) b = Some b' \<and> net_ok b' \<and>
    stream_got (tcp_stream b', d) = stream_got (t, d) @ data \<and> ts_ack (tcp_stream b') = ts_ack t + of_nat (length data)"
proof -
  define sz where "sz = (of_nat (max 60 (54 + length data)) :: u32)"
  obtain f where f: "tcp_frame_of mac (nd_mac dev) (local_ip a) ip (next_ip_id a) src_port dst_port (ts_ack t) ack 0x18 window data f"
    and s: "net_send_tcp_window i mac ip src_port dst_port (ts_ack t) ack 0x18 window data (of_nat (length data)) a =
      Some (let (events, status, w) = nd_send_frame dev (take (unat sz) f) (net_world a)
            in (status, fold (apply_counter i) events (a\<lparr>next_ip_id := next_ip_id a + 1, net_world := w\<rparr>)))"
    using window_sends_frame [OF a(1-4)] unfolding sz_def by blast
  let ?p = "drop 54 (take (unat sz) f)" and ?n = "of_nat (length data) :: u32"
  have sz: "unat sz = max 60 (54 + length data)" unfolding sz_def using a(4) by (intro unat_of_nat_32) simp
  have l: "length f = 1518" and sl: "slice 54 (length data) f = data"
    using f by (auto simp: tcp_frame_of_def laid_out_def tcp_fields_def)
  have p: "take (length data) ?p = data" "length data \<le> length ?p"
    using sl l sz a(4) by (auto simp: slice_def take_drop min_def max_def)
  have u: "unat ?n = length data" using a(4) by (intro unat_of_nat_32) simp
  have rcv: "net_receive_frame index (take (unat sz) f) sz b = stream_segment 0x18 (ts_ack t) ack ?p ?n (counted b)"
    using receive_tcp [OF f a(4) sz_def b(2)] b(3) t by (simp add: tcp_dispatch_def T)
  obtain b' where b': "stream_segment 0x18 (ts_ack t) ack ?p ?n (counted b) = Some b'"
    "same_stack (with_stream (segment_effect 0x18 (ts_ack t) ack ?p ?n t) (counted b)) b'"
    using okay_stream_segment [where s = "counted b" and n = ?n and payload = ?p] b(1) t(1) a(4) p(2) u by (simp add: okay_iff T) blast
  have ok: "tcp_stream_ok t" using b(1) by (simp add: net_ok_def T)
  have t': "tcp_stream b' = segment_effect 0x18 (ts_ack t) ack ?p ?n t" using same_stack_fields(4) [OF b'(2)] by simp
  have "net_ok b'" using same_stack_ok [OF b'(2)] effect_ok(5) [OF ok t(1)] with_stream_ok [of "counted b"] b(1) by simp
  moreover have "length data < 2 ^ 16" using a(4) by simp
  note segment_arrives [OF ok t(1,2) r p(1) a(5) this, of ack]
  moreover have "of_nat (length (take (unat sz) f)) = sz" using l sz a(4) by (simp add: sz_def)
  ultimately show ?thesis using s rcv b'(1) t'
    by (intro exI [of _ "take (unat sz) f"] exI [of _ b']) (simp add: stream_got_def)
qed

end
