(* ===== verification/Net_Names.thy ===== *)
theory Net_Names
  imports Net_Dns
begin

text \<open>
  Names in packets: the query that \<^verbatim>\<open>net_build_dns_query\<close> builds holds the labels of the name, and
  \<^verbatim>\<open>net_dns_read_name\<close> reads them back as the same name.
\<close>

fun labels_of :: "bytes \<Rightarrow> bytes \<Rightarrow> bytes list" where
  "labels_of l [] = [l]"
| "labels_of l (c # r) = (if c = 46 then l # labels_of [] r else labels_of (l @ [c]) r)"

fun dotted :: "bytes list \<Rightarrow> bytes" where
  "dotted [] = []"
| "dotted [l] = l"
| "dotted (l # l' # ls) = l @ 46 # dotted (l' # ls)"

definition encode_labels :: "bytes list \<Rightarrow> bytes" where
  "encode_labels ls = concat (map (\<lambda>l. of_nat (length l) # l) ls)"

definition label_ok :: "bytes \<Rightarrow> bool" where
  "label_ok l \<longleftrightarrow> l \<noteq> [] \<and> length l \<le> 63"

lemma encode_labels_simps [simp]: "encode_labels [] = []" "encode_labels (l # ls) = of_nat (length l) # l @ encode_labels ls"
  by (simp_all add: encode_labels_def)

lemma labels_nonempty: "labels_of l r \<noteq> []"
  by (induction l r rule: labels_of.induct) auto

lemma dotted_labels: "dotted (labels_of l r) = l @ r"
proof (induction l r rule: labels_of.induct)
  case (2 l c r)
  show ?case
  proof (cases "c = 46")
    case True
    obtain x xs where "labels_of [] r = x # xs" using labels_nonempty [of "[]" r] by (cases "labels_of [] r") auto
    then show ?thesis using 2 True by simp
  next
    case False
    then show ?thesis using 2 by simp
  qed
qed simp

lemma overwrite_overwrite:
  assumes "i + length a + length b \<le> length p"
  shows "overwrite (i + length a) b (overwrite i a p) = overwrite i (a @ b) p"
  using assms by (simp add: overwrite_def ac_simps)

subsection \<open>Building\<close>

lemma okay_query_loop:
  assumes "length packet = cap"
  shows "okay (dns_query_loop packet cap pos label rest) (\<lambda>r. case r of None \<Rightarrow> True
    | Some (p, pos') \<Rightarrow> (\<forall>l \<in> set (labels_of label rest). label_ok l) \<and> pos' = pos + length (encode_labels (labels_of label rest)) \<and>
        pos' + 5 < cap \<and> p = overwrite pos (encode_labels (labels_of label rest)) packet)"
  using assms
proof (induction packet cap pos label rest rule: dns_query_loop.induct)
  case (1 packet cap pos label rest)
  let ?len = "of_nat (length label) :: u8"
  show ?case
  proof (cases "rest = [] \<or> hd rest = 46")
    case sep: True
    show ?thesis
    proof (cases "length label = 0 \<or> 63 < length label \<or> cap \<le> pos + 1 + length label + 5")
      case True
      then show ?thesis using sep by (subst dns_query_loop.simps) (simp add: wp)
    next
      case False
      then have l: "label_ok label" "pos + 1 + length label + 5 < cap" by (auto simp: label_ok_def)
      define p1 where "p1 = packet[pos := ?len]"
      define p2 where "p2 = overwrite (pos + 1) label p1"
      have s1: "st8 packet pos ?len = Some p1" using l "1.prems" by (simp add: st8_def p1_def)
      have "okay (net_copy p1 (pos + 1) label 0 (length label)) (\<lambda>p. p = p2)" using l "1.prems" by (simp add: wp p1_def p2_def)
      then have s2: "net_copy p1 (pos + 1) label 0 (length label) = Some p2" by (simp add: okay_iff)
      have p1': "p1 = overwrite pos [?len] packet" using l "1.prems" by (simp add: p1_def overwrite_def upd_conv_take_nth_drop)
      have p2': "p2 = overwrite pos (?len # label) packet"
        using overwrite_overwrite [of pos "[?len]" label packet] l "1.prems" by (simp add: p2_def p1')
      show ?thesis
      proof (cases rest)
        case Nil
        then show ?thesis using sep False l s1 s2 p2' by (subst dns_query_loop.simps) (simp add: wp)
      next
        case (Cons c r)
        then have c: "c = 46" using sep by simp
        have len: "length p2 = cap" using p2' l "1.prems" by simp
        note IH = "1.IH"(1) [OF sep False s1 s2 Cons len]
        have step: "dns_query_loop packet cap pos label rest = dns_query_loop p2 cap (pos + 1 + length label) [] r"
          using sep False s1 s2 Cons by (subst dns_query_loop.simps) simp
        have ls: "labels_of label rest = label # labels_of [] r" using Cons c by simp
        show ?thesis unfolding step ls
        proof (rule okay_mono [OF IH], goal_cases)
          case (1 x)
          then show ?case
          proof (cases x)
            case (Some y)
            obtain p q where y: "y = (p, q)" by (cases y)
            have H: "\<forall>l \<in> set (labels_of [] r). label_ok l" "q = pos + 1 + length label + length (encode_labels (labels_of [] r))" "q + 5 < cap"
              "p = overwrite (pos + 1 + length label) (encode_labels (labels_of [] r)) p2"
              using 1 by (simp_all add: Some y)
            have "p = overwrite pos ((?len # label) @ encode_labels (labels_of [] r)) packet"
              unfolding H(4) p2' using overwrite_overwrite [of pos "?len # label" "encode_labels (labels_of [] r)" packet] H(2,3) "1.prems" by simp
            then show ?thesis using H l c by (simp add: Some y)
          qed simp
        qed
      qed
    qed
  next
    case False
    then obtain c r where r: "rest = c # r" "c \<noteq> 46" by (cases rest) auto
    have e: "dns_query_loop packet cap pos label rest = dns_query_loop packet cap pos (label @ [c]) r"
      using r by (subst dns_query_loop.simps) simp
    have ls: "labels_of label rest = labels_of (label @ [c]) r" using r by simp
    show ?thesis unfolding e ls by (rule "1.IH"(2) [OF False r(1) "1.prems"])
  qed
qed

subsection \<open>Reading back\<close>

lemma label_length_byte:
  assumes "label_ok l"
  shows "(of_nat (length l) :: u8) \<noteq> 0" "of_nat (length l) AND (0xC0 :: u8) = 0" "\<not> 63 < (of_nat (length l) :: u8)" "unat (of_nat (length l) :: u8) = length l"
proof -
  have n: "0 < length l" "length l < 64" using assms by (auto simp: label_ok_def)
  show u: "unat (of_nat (length l) :: u8) = length l" using n by (simp add: unat_of_nat take_bit_nat_eq_self)
  then show "(of_nat (length l) :: u8) \<noteq> 0" "\<not> 63 < (of_nat (length l) :: u8)" using n by (auto simp: word_less_nat_alt)
  have "take_bit 6 (of_nat (length l) :: u8) = of_nat (length l)"
    using u n by (simp add: word_unat_eq_iff unsigned_take_bit_eq take_bit_nat_eq_self)
  then have "(of_nat (length l) :: u8) = of_nat (length l) AND 63" by (simp add: take_bit_eq_mask mask_eq_exp_minus_1)
  then have "of_nat (length l) AND (0xC0 :: u8) = (of_nat (length l) AND 63) AND 0xC0" by simp
  also have "\<dots> = of_nat (length l) AND (63 AND 0xC0)" by (simp only: and.assoc)
  finally show "of_nat (length l) AND (0xC0 :: u8) = 0" by simp
qed

text \<open>What a label adds to the text.\<close>

definition add_label :: "bytes \<Rightarrow> bytes \<Rightarrow> bytes" where
  "add_label t l = (if t = [] then l else t @ 46 # l)"

definition holds_text :: "nat \<Rightarrow> bytes \<Rightarrow> bytes \<Rightarrow> nat \<Rightarrow> bool" where
  "holds_text cap t out p \<longleftrightarrow> cap \<le> length out \<and> p < cap \<and> take p out = t \<and> out ! p = 0"

lemma label_added:
  assumes "holds_text cap t out p" and "l \<noteq> []" and "length (add_label t l) < cap" and "slice pos (length l) payload = l" and "pos + length l \<le> length payload"
  shows "okay (dns_label payload pos (length l) out cap p)
    (\<lambda>(out', p', fits). fits \<and> holds_text cap (add_label t l) out' p')"
proof -
  have h: "cap \<le> length out" "p < cap" "take p out = t" "length t = p" using assms(1) by (auto simp: holds_text_def)
  show ?thesis
  proof (cases "t = []")
    case True
    then have "p = 0" using h by simp
    then show ?thesis using assms h True
      by (auto simp: dns_label_def dns_dot_def wp holds_text_def add_label_def overwrite_def nth_list_update)
  next
    case False
    then have p: "p \<noteq> 0" using h by auto
    have c: "p + 1 + length l < cap" using assms(3) h False by (simp add: add_label_def)
    have "take (Suc p) (out[p := 46]) = t @ [46]" using h by (simp add: take_Suc_conv_app_nth)
    then have "take (p + 1 + length l) (overwrite (p + 1) l (out[p := 46])) = t @ 46 # l"
      using c h by (simp add: overwrite_def)
    then show ?thesis using assms(2,4,5) h False p c
      by (auto simp: dns_label_def dns_dot_def wp holds_text_def add_label_def)
  qed
qed

lemma read_labels:
  assumes "\<forall>l \<in> set ls. label_ok l" and "slice pos (length (encode_labels ls @ [0])) payload = encode_labels ls @ [0]"
    and "pos + length (encode_labels ls) + 1 \<le> n" and "n \<le> length payload" and "holds_text cap t out p"
    and "length (foldl add_label t ls) < cap"
  shows "okay (dns_name_loop payload n cap out pos p j 0)
    (\<lambda>(r, out', nxt). r = 0 \<and> nxt = pos + length (encode_labels ls) + 1 \<and> (\<exists>q. holds_text cap (foldl add_label t ls) out' q))"
  using assms
proof (induction ls arbitrary: pos t out p)
  case Nil
  have "payload ! pos = 0" using Nil.prems(2-4) nth_slice [of 0 1 pos payload] by simp
  then show ?case using Nil.prems by (subst dns_name_loop.simps) (auto simp: wp ld8_def)
next
  case (Cons l ls)
  let ?e = "of_nat (length l) # l @ encode_labels ls @ [0]"
  note L = label_length_byte [of l]
  have ok: "label_ok l" using Cons.prems(1) by simp
  have sl: "slice pos (length ?e) payload = ?e" "pos + length ?e \<le> n" using Cons.prems(2,3) by simp_all
  have b0: "payload ! pos = of_nat (length l)"
    using nth_slice [of 0 "length ?e" pos payload] sl Cons.prems(4) by simp
  have b1: "slice (pos + 1) (length l) payload = l" "slice (pos + 1 + length l) (length (encode_labels ls @ [0])) payload = encode_labels ls @ [0]"
  proof -
    have "slice (pos + 1) (length l) payload = slice 1 (length l) (slice pos (length ?e) payload)"
      by (simp add: slice_def drop_take)
    then show "slice (pos + 1) (length l) payload = l" unfolding sl by (simp add: slice_def)
    have "slice (pos + 1 + length l) (length (encode_labels ls @ [0])) payload =
        slice (1 + length l) (length (encode_labels ls @ [0])) (slice pos (length ?e) payload)"
      by (simp add: slice_def drop_take add.commute add.left_commute)
    then show "slice (pos + 1 + length l) (length (encode_labels ls @ [0])) payload = encode_labels ls @ [0]" unfolding sl by (simp add: slice_def)
  qed
  have mono: "length t \<le> length (foldl add_label t ls)" for t
  proof (induction ls arbitrary: t)
    case (Cons a ls)
    have "length t \<le> length (add_label t a)" by (simp add: add_label_def)
    then show ?case using Cons.IH [of "add_label t a"] by simp
  qed simp
  have fit: "length (add_label t l) < cap" using Cons.prems(6) mono [of "add_label t l"] by simp
  obtain out' p' where D: "dns_label payload (pos + 1) (length l) out cap p = Some (out', p', True)" "holds_text cap (add_label t l) out' p'"
    using label_added [OF Cons.prems(5) _ fit b1(1)] sl Cons.prems(4) ok by (auto simp: okay_iff label_ok_def)
  have "dns_name_loop payload n cap out pos p j 0 = dns_name_loop payload n cap out' (pos + 1 + length l) p' j 0"
    using sl Cons.prems(4) L [OF ok] D(1) b0 by (subst dns_name_loop.simps) (simp add: ld8_def)
  moreover have "okay (dns_name_loop payload n cap out' (pos + 1 + length l) p' j 0)
    (\<lambda>(r, out', nxt). r = 0 \<and> nxt = pos + 1 + length l + length (encode_labels ls) + 1 \<and> (\<exists>q. holds_text cap (foldl add_label (add_label t l) ls) out' q))"
    using Cons.prems b1(2) D(2) by (intro Cons.IH) simp_all
  ultimately show ?case by (simp add: add.assoc)
qed

lemma dotted_foldl: "\<forall>l \<in> set ls. l \<noteq> [] \<Longrightarrow> t \<noteq> [] \<Longrightarrow> foldl add_label t ls = t @ (if ls = [] then [] else 46 # dotted ls)"
proof (induction ls arbitrary: t)
  case (Cons l ls)
  have "add_label t l = t @ 46 # l" using Cons.prems by (simp add: add_label_def)
  then show ?case using Cons.IH [of "t @ 46 # l"] Cons.prems by (cases ls) simp_all
qed simp

lemma add_labels: "ls \<noteq> [] \<Longrightarrow> \<forall>l \<in> set ls. l \<noteq> [] \<Longrightarrow> foldl add_label [] ls = dotted ls"
proof (cases ls)
  case (Cons l ls')
  assume "\<forall>l \<in> set ls. l \<noteq> []"
  then show ?thesis using dotted_foldl [of ls' l] Cons by (cases ls') (auto simp: add_label_def)
qed simp

lemma query_name:
  assumes "net_build_dns_query name ident cap = Some (Some (p, n))" and "length name < NET_DNS_NAME_SIZE" and "NET_DNS_NAME_SIZE \<le> length out"
  shows "n \<le> cap" "length p = cap" "okay (net_dns_read_name p n 12 out NET_DNS_NAME_SIZE) (\<lambda>(r, out', nxt). r = 0 \<and> nxt + 4 = n \<and>
    (\<exists>q. holds_text NET_DNS_NAME_SIZE name out' q))"
proof -
  let ?ls = "labels_of [] name"
  let ?p0 = "(replicate cap 0)[0 := ucast (drop_bit 8 ident), 1 := ucast ident, 2 := 1, 5 := 1] :: bytes"
  let ?e = "encode_labels ?ls"
  have c: "name \<noteq> []" "32 \<le> cap" using assms(1) by (auto simp: net_build_dns_query_def split: if_splits)
  have len0: "length ?p0 = cap" by simp
  obtain r where r: "dns_query_loop ?p0 cap 12 [] name = Some r" "case r of None \<Rightarrow> True
    | Some (p, pos') \<Rightarrow> (\<forall>l \<in> set ?ls. label_ok l) \<and> pos' = 12 + length ?e \<and> pos' + 5 < cap \<and> p = overwrite 12 ?e ?p0"
    using okay_query_loop [OF len0, of 12 "[]" name] by (auto simp: okay_iff)
  have "st8 (replicate cap 0) 0 (ucast (drop_bit 8 ident)) = Some ((replicate cap 0)[0 := ucast (drop_bit 8 ident)] :: bytes)" for ident :: u16
    using c by (simp add: st8_def)
  then obtain p1 pos where L: "r = Some (p1, pos)"
    and P: "p = p1[pos := 0, pos + 1 := 0, pos + 2 := 1, pos + 3 := 0, pos + 4 := 1]" "n = pos + 5"
    using assms(1) c r(1) by (auto simp: net_build_dns_query_def st8_def split: if_splits option.splits)
  have R: "\<forall>l \<in> set ?ls. label_ok l" "pos = 12 + length ?e" "pos + 5 < cap" "p1 = overwrite 12 ?e ?p0" using r(2) by (simp_all add: L)
  have lp1: "length p1 = cap" using R(2-4) by simp
  then show lp: "length p = cap" "n \<le> cap" using P R(3) by simp_all
  have sl: "slice 12 (length (?e @ [0])) p = ?e @ [0]"
  proof -
    have "p1 = take 12 ?p0 @ ?e @ drop (12 + length ?e) ?p0" using R(4) by (simp add: overwrite_def)
    then have "take pos p1 = take 12 ?p0 @ ?e" using R(2) c(2) by simp
    then have "take (Suc pos) p = take 12 ?p0 @ ?e @ [0]" using P(1) R(3) lp1 by (simp add: take_Suc_conv_app_nth)
    then show ?thesis using R(2) c(2) unfolding slice_def by (simp add: take_drop add.commute)
  qed
  have ne: "\<forall>l \<in> set ?ls. l \<noteq> []" using R(1) by (auto simp: label_ok_def)
  have d: "foldl add_label [] ?ls = name" using add_labels [OF labels_nonempty ne] dotted_labels [of "[]" name] by simp
  have h: "holds_text NET_DNS_NAME_SIZE [] (out[0 := 0]) 0" using assms(3) by (cases out) (auto simp: holds_text_def)
  have "okay (dns_name_loop p n NET_DNS_NAME_SIZE (out[0 := 0]) 12 0 0 0)
    (\<lambda>(r, out', nxt). r = 0 \<and> nxt = 12 + length ?e + 1 \<and> (\<exists>q. holds_text NET_DNS_NAME_SIZE (foldl add_label [] ?ls) out' q))"
    using R P(2) lp d assms(2) by (intro read_labels [OF R(1) sl _ _ h]) simp_all
  then show "okay (net_dns_read_name p n 12 out NET_DNS_NAME_SIZE) (\<lambda>(r, out', nxt). r = 0 \<and> nxt + 4 = n \<and>
    (\<exists>q. holds_text NET_DNS_NAME_SIZE name out' q))"
    using assms(3) R(2) P(2) d by (auto simp: net_dns_read_name_def wp elim!: okay_mono)
qed

end
