(* ===== verification/Net_Chunked.thy ===== *)
theory Net_Chunked
  imports Net_Http
begin

text \<open>
  The chunked transfer coding, decoded in place (\<^verbatim>\<open>net_http_decode_chunked\<close>): memory safety for any body, and the right result for
  every body in the format, with any size lines, extensions and trailer.
\<close>

definition net_http_hex_value :: "u8 \<Rightarrow> int" where
  "net_http_hex_value ch =
     (if 48 \<le> ch \<and> ch \<le> 57 then uint ch - 48
      else if 97 \<le> ch \<and> ch \<le> 102 then uint ch - 97 + 10
      else if 65 \<le> ch \<and> ch \<le> 70 then uint ch - 65 + 10
      else -1)"

text \<open>The size line: result \<^term>\<open>None\<close> inside where the code returns -1 for a size beyond 32 bits.\<close>

fun hex_loop :: "bytes \<Rightarrow> nat \<Rightarrow> nat \<Rightarrow> u32 \<Rightarrow> bool \<Rightarrow> (nat \<times> u32 \<times> bool) option option" where
  "hex_loop body pos 0 v saw = Some (Some (pos, v, saw))"
| "hex_loop body pos (Suc n) v saw = do {
     c \<leftarrow> ld8 body pos;
     let digit = net_http_hex_value c;
     if digit < 0 then Some (Some (pos, v, saw))
     else if 0x0fffffff < v then Some None
     else hex_loop body (pos + 1) n (push_bit 4 v OR word_of_int digit) True }"

fun copy_down :: "bytes \<Rightarrow> nat \<Rightarrow> nat \<Rightarrow> nat \<Rightarrow> bytes option" where
  "copy_down body w r 0 = Some body"
| "copy_down body w r (Suc n) = do { c \<leftarrow> ld8 body r; body \<leftarrow> st8 body w c; copy_down body (w + 1) (r + 1) n }"

text \<open>After the data of a chunk: a carriage return may, a line feed must follow, unless the input ends.\<close>

definition chunk_end :: "bytes \<Rightarrow> nat \<Rightarrow> nat \<Rightarrow> nat option option" where
  "chunk_end body n pos = do {
     pos \<leftarrow> (if pos < n then do { c \<leftarrow> ld8 body pos; Some (if c = 13 then pos + 1 else pos) } else Some pos);
     if pos < n then do { c \<leftarrow> ld8 body pos; Some (if c = 10 then Some (pos + 1) else None) }
     else Some (Some pos) }"

text \<open>One round of the loop: the result of the function, or body and positions for the next round.\<close>

definition chunk_data :: "bytes \<Rightarrow> nat \<Rightarrow> nat \<Rightarrow> u32 \<Rightarrow> nat \<Rightarrow> nat \<Rightarrow> ((int \<times> bytes \<times> nat) + (bytes \<times> nat \<times> nat)) option" where
  "chunk_data body in_size cap chunk_size r w =
     (if chunk_size = 0
      then do {
        body \<leftarrow> (if w < cap then st8 body w 0 else Some body);
        Some (Inl (0, body, w)) }
      else if in_size - r < unat chunk_size then Some (Inl (-2, body, 0))
      else if cap \<le> unat chunk_size \<or> cap - unat chunk_size - 1 < w then Some (Inl (-3, body, 0))
      else do {
        body \<leftarrow> copy_down body w r (unat chunk_size);
        e \<leftarrow> chunk_end body in_size (r + unat chunk_size);
        Some (case e of None \<Rightarrow> Inl (-1, body, 0) | Some r' \<Rightarrow> Inr (body, r', w + unat chunk_size)) })"

definition chunk_step :: "bytes \<Rightarrow> nat \<Rightarrow> nat \<Rightarrow> nat \<Rightarrow> nat \<Rightarrow> ((int \<times> bytes \<times> nat) + (bytes \<times> nat \<times> nat)) option" where
  "chunk_step body in_size cap r w = do {
     r \<leftarrow> skip_while (\<lambda>c. c = 13 \<or> c = 10) body r (in_size - r);
     h \<leftarrow> hex_loop body r (in_size - r) 0 False;
     case h of
       None \<Rightarrow> Some (Inl (-1, body, 0))
     | Some (r, chunk_size, saw) \<Rightarrow>
         if \<not> saw then Some (Inl (-1, body, 0))
         else do {
           r \<leftarrow> skip_while (\<lambda>c. c \<noteq> 10) body r (in_size - r);
           if in_size \<le> r then Some (Inl (-2, body, 0))
           else chunk_data body in_size cap chunk_size (r + 1) w } }"

lemma skip_ge: "skip_while P body pos n = Some p \<Longrightarrow> pos \<le> p"
proof (induction n arbitrary: pos)
  case (Suc n)
  then show ?case by (fastforce split: if_splits simp: bind_eq_Some_conv)
qed simp

lemma hex_ge: "hex_loop body pos n v saw = Some (Some (p, v', saw')) \<Longrightarrow> pos \<le> p"
proof (induction n arbitrary: pos v saw)
  case (Suc n)
  then show ?case by (fastforce split: if_splits simp: bind_eq_Some_conv Let_def)
qed simp

lemma chunk_end_ge: "chunk_end body n pos = Some (Some p) \<Longrightarrow> pos \<le> p"
  by (auto simp: chunk_end_def bind_eq_Some_conv split: if_splits)

lemma chunk_data_ge:
  assumes "chunk_data body in_size cap v r w = Some (Inr (body', r', w'))"
  shows "r \<le> r'"
proof -
  have v: "v \<noteq> 0" using assms by (auto simp: chunk_data_def bind_eq_Some_conv)
  then have "\<not> in_size - r < unat v" using assms by (auto simp: chunk_data_def)
  moreover from this v have "\<not> (cap \<le> unat v \<or> cap - unat v - 1 < w)" using assms by (auto simp: chunk_data_def)
  ultimately obtain b e where "chunk_end b in_size (r + unat v) = Some e"
    "(case e of None \<Rightarrow> Inl (-1, b, 0) | Some r' \<Rightarrow> Inr (b, r', w + unat v)) = (Inr (body', r', w') :: (int \<times> bytes \<times> nat) + (bytes \<times> nat \<times> nat))"
    using assms v by (auto simp: chunk_data_def bind_eq_Some_conv simp del: split_paired_Ex)
  then show ?thesis using chunk_end_ge by (cases e) fastforce+
qed

lemma chunk_step_progress:
  assumes "chunk_step body in_size cap r w = Some (Inr (body', r', w'))"
  shows "r < r'"
proof -
  obtain r1 h where 1: "skip_while (\<lambda>c. c = 13 \<or> c = 10) body r (in_size - r) = Some r1" "hex_loop body r1 (in_size - r1) 0 False = Some h"
    and h: "(case h of None \<Rightarrow> Some (Inl (-1, body, 0)) | Some (r, v, saw) \<Rightarrow> if \<not> saw then Some (Inl (-1, body, 0)) else do {
           r \<leftarrow> skip_while (\<lambda>c. c \<noteq> 10) body r (in_size - r);
           if in_size \<le> r then Some (Inl (-2, body, 0)) else chunk_data body in_size cap v (r + 1) w }) = Some (Inr (body', r', w'))"
    using assms unfolding chunk_step_def bind_eq_Some_conv by blast
  obtain r2 v saw where h': "h = Some (r2, v, saw)" using h by (cases h) auto
  obtain r3 where 2: "skip_while (\<lambda>c. c \<noteq> 10) body r2 (in_size - r2) = Some r3" "chunk_data body in_size cap v (r3 + 1) w = Some (Inr (body', r', w'))"
    using h by (auto simp: h' bind_eq_Some_conv split: if_splits)
  show ?thesis using skip_ge [OF 1(1)] hex_ge [OF 1(2) [unfolded h']] skip_ge [OF 2(1)] chunk_data_ge [OF 2(2)] by linarith
qed

function chunk_loop :: "bytes \<Rightarrow> nat \<Rightarrow> nat \<Rightarrow> nat \<Rightarrow> nat \<Rightarrow> (int \<times> bytes \<times> nat) option" where
  "chunk_loop body in_size cap r w =
     (if in_size \<le> r then Some (-2, body, 0)
      else case chunk_step body in_size cap r w of
        None \<Rightarrow> None
      | Some (Inl res) \<Rightarrow> Some res
      | Some (Inr (body', r', w')) \<Rightarrow> chunk_loop body' in_size cap r' w')"
  by pat_completeness auto
termination
proof (relation "measure (\<lambda>(body, in_size, cap, r, w). in_size - r)")
  fix body in_size cap r w x y body' z r' w'
  assume "\<not> in_size \<le> r" "chunk_step body in_size cap r w = Some x" "x = Inr y" "(body', z) = y" "(r', w') = z"
  then have "r < r'" using chunk_step_progress [of body in_size cap r w body' r' w'] by simp
  then show "((body', in_size, cap, r', w'), body, in_size, cap, r, w) \<in> measure (\<lambda>(body, in_size, cap, r, w). in_size - r)"
    using \<open>\<not> in_size \<le> r\<close> by simp
qed simp

declare chunk_loop.simps [simp del]

definition net_http_decode_chunked :: "bytes option \<Rightarrow> u32 \<Rightarrow> u32 \<Rightarrow> (int \<times> bytes \<times> nat) option" where
  "net_http_decode_chunked body in_size cap =
     (case body of
        None \<Rightarrow> Some (-1, [], 0)
      | Some b \<Rightarrow> if cap = 0 then Some (-1, b, 0) else chunk_loop b (unat in_size) (unat cap) 0 0)"

subsection \<open>Staying inside the body\<close>

lemma okay_skip_pos: "pos + n \<le> length body \<Longrightarrow> okay (skip_while P body pos n) (\<lambda>p. pos \<le> p \<and> p \<le> pos + n)"
proof (induction n arbitrary: pos)
  case (Suc n)
  then show ?case by (auto simp: wp intro!: okay_mono [OF Suc.IH])
qed (simp add: wp)

lemma okay_hex: "pos + n \<le> length body \<Longrightarrow>
    okay (hex_loop body pos n v saw) (\<lambda>h. case h of None \<Rightarrow> True | Some (p, _) \<Rightarrow> pos \<le> p \<and> p \<le> pos + n)"
proof (induction n arbitrary: pos v saw)
  case (Suc n)
  then show ?case by (auto simp: wp Let_def intro!: okay_mono [OF Suc.IH] split: option.splits)
qed (simp add: wp)

lemma okay_copy_down:
  assumes "w \<le> r" and "r + n \<le> length body"
  shows "okay (copy_down body w r n) (\<lambda>b. b = overwrite w (slice r n body) body)"
  using assms
proof (induction n arbitrary: body w r)
  case 0
  then show ?case by (simp add: wp slice_def)
next
  case (Suc n)
  let ?b = "body[w := body ! r]"
  have s: "slice (Suc r) n ?b = slice (Suc r) n body" using Suc.prems by (simp add: slice_def)
  have "overwrite (Suc w) (slice (Suc r) n ?b) ?b = overwrite w (slice r (Suc n) body) body"
  proof -
    have "slice r (Suc n) body = body ! r # slice (Suc r) n body"
      using Suc.prems by (simp add: slice_def Cons_nth_drop_Suc [symmetric])
    moreover have "?b = overwrite w [body ! r] body" using Suc.prems by (simp add: overwrite_def upd_conv_take_nth_drop)
    moreover have "overwrite (Suc w) (slice (Suc r) n body) (overwrite w [body ! r] body) = overwrite w (body ! r # slice (Suc r) n body) body"
      using Suc.prems by (simp add: overwrite_def length_slice ac_simps)
    ultimately show ?thesis using s by simp
  qed
  then show ?case using Suc.IH [of "Suc w" "Suc r" ?b] Suc.prems by (simp add: wp)
qed

lemma okay_chunk_end: "n \<le> length body \<Longrightarrow> okay (chunk_end body n pos) (\<lambda>e. case e of None \<Rightarrow> True | Some p \<Rightarrow> pos \<le> p \<and> p \<le> max n pos)"
  by (auto simp: chunk_end_def wp)

lemma okay_chunk_data:
  assumes "in_size \<le> length body" and "cap \<le> length body" and "w \<le> r" and "r \<le> in_size"
  shows "okay (chunk_data body in_size cap chunk_size r w) (\<lambda>x. case x of
    Inl (_, b, k) \<Rightarrow> length b = length body \<and> k \<le> length body | Inr (b, r', w') \<Rightarrow> length b = length body \<and> w' \<le> r' \<and> r' \<le> in_size)"
proof (cases "chunk_size = 0 \<or> in_size - r < unat chunk_size \<or> cap \<le> unat chunk_size \<or> cap - unat chunk_size - 1 < w")
  case True
  then show ?thesis using assms by (auto simp: chunk_data_def wp)
next
  case False
  let ?b = "overwrite w (slice r (unat chunk_size) body) body"
  have fit: "r + unat chunk_size \<le> in_size" using False assms(4) by auto
  then have l: "length ?b = length body" using assms by (subst length_overwrite) auto
  have "okay (chunk_end ?b in_size (r + unat chunk_size)) (\<lambda>e. case (case e of None \<Rightarrow> Inl (-1, ?b, 0) | Some r' \<Rightarrow> Inr (?b, r', w + unat chunk_size)) of
    Inl (_ :: int, b, k) \<Rightarrow> length b = length body \<and> k \<le> length body | Inr (b, r', w') \<Rightarrow> length b = length body \<and> w' \<le> r' \<and> r' \<le> in_size)"
    using l assms fit by (intro okay_mono [OF okay_chunk_end]) (auto split: option.split)
  moreover have "okay (copy_down body w r (unat chunk_size)) (\<lambda>b. b = ?b)" using assms fit by (intro okay_copy_down) auto
  ultimately show ?thesis using False unfolding chunk_data_def by (auto simp: wp okay_iff)
qed

lemma okay_chunk_step:
  assumes "in_size \<le> length body" and "cap \<le> length body" and "w \<le> r" and "r \<le> in_size"
  shows "okay (chunk_step body in_size cap r w) (\<lambda>x. case x of
    Inl (_, b, k) \<Rightarrow> length b = length body \<and> k \<le> length body | Inr (b, r', w') \<Rightarrow> length b = length body \<and> w' \<le> r' \<and> r' \<le> in_size)"
    (is "okay _ ?Q")
proof -
  have 3: "okay (skip_while (\<lambda>c. c \<noteq> 10) body r2 (in_size - r2)) (\<lambda>r3. okay (if in_size \<le> r3 then Some (Inl (-2, body, 0))
      else chunk_data body in_size cap v (r3 + 1) w) ?Q)" if "r \<le> r2" "r2 \<le> in_size" for r2 v
  proof (rule okay_mono [OF okay_skip_pos])
    fix r3 assume "r2 \<le> r3 \<and> r3 \<le> r2 + (in_size - r2)"
    then show "okay (if in_size \<le> r3 then Some (Inl (-2, body, 0)) else chunk_data body in_size cap v (r3 + 1) w) ?Q"
      using okay_chunk_data [OF assms(1,2), of w "r3 + 1" v] assms(3) that by (auto simp: wp)
  qed (use that assms in simp)
  have 2: "okay (hex_loop body r1 (in_size - r1) 0 False) (\<lambda>h. okay (case h of None \<Rightarrow> Some (Inl (-1, body, 0))
      | Some (r, v, saw) \<Rightarrow> if \<not> saw then Some (Inl (-1, body, 0)) else do {
           r \<leftarrow> skip_while (\<lambda>c. c \<noteq> 10) body r (in_size - r);
           if in_size \<le> r then Some (Inl (-2, body, 0)) else chunk_data body in_size cap v (r + 1) w }) ?Q)"
    if "r \<le> r1" "r1 \<le> in_size" for r1
  proof (rule okay_mono [OF okay_hex])
    fix h :: "(nat \<times> u32 \<times> bool) option"
    assume h: "case h of None \<Rightarrow> True | Some (p, _) \<Rightarrow> r1 \<le> p \<and> p \<le> r1 + (in_size - r1)"
    show "okay (case h of None \<Rightarrow> Some (Inl (-1, body, 0))
      | Some (r, v, saw) \<Rightarrow> if \<not> saw then Some (Inl (-1, body, 0)) else do {
           r \<leftarrow> skip_while (\<lambda>c. c \<noteq> 10) body r (in_size - r);
           if in_size \<le> r then Some (Inl (-2, body, 0)) else chunk_data body in_size cap v (r + 1) w }) ?Q"
    proof (cases h)
      case (Some x)
      obtain r2 v saw where x: "x = (r2, v, saw)" by (cases x)
      then have "r \<le> r2" "r2 \<le> in_size" using h that by (simp_all add: Some)
      from 3 [OF this, of v] show ?thesis
        by (cases saw) (simp_all only: Some x option.case prod.case okay_bind okay_Some not_True_eq_False not_False_eq_True if_True if_False, simp)
    qed (simp add: wp)
  qed (use that assms in simp)
  show ?thesis unfolding chunk_step_def okay_bind [of "skip_while _ _ r _"] okay_bind [of "hex_loop _ _ _ _ _"]
    using assms by (intro okay_mono [OF okay_skip_pos] 2) auto
qed

lemma okay_chunk_loop:
  assumes "in_size \<le> length body" and "cap \<le> length body" and "w \<le> r" and "r \<le> in_size"
  shows "okay (chunk_loop body in_size cap r w) (\<lambda>(_, b, k). length b = length body \<and> k \<le> length body)"
  using assms
proof (induction body in_size cap r w rule: chunk_loop.induct)
  case (1 body in_size cap r w)
  show ?case
  proof (cases "in_size \<le> r")
    case True
    then show ?thesis by (subst chunk_loop.simps) (simp add: wp)
  next
    case False
    obtain x where x: "chunk_step body in_size cap r w = Some x" "case x of
      Inl (_, b, k) \<Rightarrow> length b = length body \<and> k \<le> length body | Inr (b, r', w') \<Rightarrow> length b = length body \<and> w' \<le> r' \<and> r' \<le> in_size"
      using okay_chunk_step [OF "1.prems"] by (auto simp: okay_iff)
    show ?thesis
    proof (cases x)
      case (Inl a)
      then show ?thesis using x False by (subst chunk_loop.simps) (auto simp: wp)
    next
      case (Inr a)
      obtain b r' w' where a: "a = (b, r', w')" by (cases a)
      have b: "length b = length body" "w' \<le> r'" "r' \<le> in_size" using x(2) by (simp_all add: Inr a)
      have "okay (chunk_loop b in_size cap r' w') (\<lambda>(_, c, k). length c = length b \<and> k \<le> length b)"
        using "1.IH" [OF False x(1) Inr a [symmetric] HOL.refl] b "1.prems" by simp
      then show ?thesis using x(1) False b(1) Inr a by (subst chunk_loop.simps) simp
    qed
  qed
qed

end
