(* ===== verification/Net_Chunked_Spec.thy ===== *)
theory Net_Chunked_Spec
  imports Net_Chunked
begin

text \<open>
  The chunked format, and that \<^verbatim>\<open>net_http_decode_chunked\<close> recovers the data: every chunk is a size in
  hexadecimal, any extension up to the end of the line, the data and a line end; a chunk of size zero ends the body.
\<close>

definition hex_number :: "bytes \<Rightarrow> nat" where
  "hex_number h = foldl (\<lambda>v c. v * 16 + nat (net_http_hex_value c)) 0 h"

definition size_line :: "bytes \<Rightarrow> bytes \<Rightarrow> nat \<Rightarrow> bool" where
  "size_line h ext n \<longleftrightarrow> h \<noteq> [] \<and> (\<forall>c \<in> set h. 0 \<le> net_http_hex_value c) \<and> hex_number h = n \<and> n < 2 ^ 32 \<and>
     10 \<notin> set ext \<and> (ext \<noteq> [] \<longrightarrow> net_http_hex_value (hd ext) < 0)"

type_synonym chunk = "bytes \<times> bytes \<times> bytes"

definition chunk_ok :: "chunk \<Rightarrow> bool" where
  "chunk_ok = (\<lambda>(h, ext, data). data \<noteq> [] \<and> size_line h ext (length data))"

definition chunk_bytes :: "chunk \<Rightarrow> bytes" where
  "chunk_bytes = (\<lambda>(h, ext, data). h @ ext @ 10 # data @ [13, 10])"

definition chunks_data :: "chunk list \<Rightarrow> bytes" where
  "chunks_data cs = concat (map (\<lambda>(h, ext, data). data) cs)"

definition chunked_body :: "chunk list \<Rightarrow> bytes \<Rightarrow> bytes \<Rightarrow> bytes \<Rightarrow> bytes" where
  "chunked_body cs h ext trailer = concat (map chunk_bytes cs) @ h @ ext @ 10 # trailer"

subsection \<open>The size line\<close>

lemma hex_range: "net_http_hex_value c < 16" "-1 \<le> net_http_hex_value c"
  by (auto simp: net_http_hex_value_def word_le_def)

lemma hex_not_line_end: "0 \<le> net_http_hex_value c \<Longrightarrow> c \<noteq> 13 \<and> c \<noteq> 10"
  by (auto simp: net_http_hex_value_def)

lemma skip_while_at:
  assumes "\<forall>c \<in> set xs. P c" and "\<not> P x" and "length xs < n"
  shows "skip_while P (pre @ xs @ x # post) (length pre) n = Some (length pre + length xs)"
  using assms
proof (induction xs arbitrary: pre n)
  case Nil
  then show ?case by (cases n) (simp_all add: ld8_def)
next
  case (Cons c xs)
  then obtain m where n: "n = Suc m" by (cases n) simp_all
  show ?case using Cons.IH [of m "pre @ [c]"] Cons.prems by (simp add: n ld8_def)
qed

lemma hex_digit_step:
  assumes "0 \<le> d" and "d < 16" and "unat v * 16 + nat d < 2 ^ 32"
  shows "\<not> 0x0fffffff < v" "unat (push_bit 4 v OR word_of_int d :: u32) = unat v * 16 + nat d"
proof -
  have d: "unat (word_of_int d :: u32) = nat d" using assms(1,2) by (simp add: unat_eq_nat_uint uint_word_of_int)
  have "unat v \<le> unat (0x0fffffff :: u32)" using assms(3) by simp
  then show "\<not> 0x0fffffff < v" by (simp only: word_le_nat_alt [symmetric] not_less)
  have "push_bit 4 v OR word_of_int d = v * 16 + word_of_int d" using d assms by (intro shift_or_digit) simp
  also have "v * 16 + word_of_int d = (of_nat (unat v * 16 + nat d) :: u32)" using assms(1) by (simp add: of_nat_nat)
  also have "unat (of_nat (unat v * 16 + nat d) :: u32) = unat v * 16 + nat d" using assms(3) by (intro unat_of_nat_32) simp
  finally show "unat (push_bit 4 v OR word_of_int d :: u32) = unat v * 16 + nat d" .
qed

lemma foldl_grows: "(v :: nat) \<le> foldl (\<lambda>v c. v * 16 + f c) v h"
proof (induction h arbitrary: v)
  case (Cons c h)
  have "v \<le> v * 16 + f c" by simp
  also have "\<dots> \<le> foldl (\<lambda>v c. v * 16 + f c) (v * 16 + f c) h" by (rule Cons.IH)
  finally show ?case by simp
qed simp

lemma hex_loop_at:
  assumes "\<forall>c \<in> set h. 0 \<le> net_http_hex_value c" and "net_http_hex_value x < 0" and "length h < n"
    and "foldl (\<lambda>v c. v * 16 + nat (net_http_hex_value c)) (unat v) h < 2 ^ 32"
  shows "hex_loop (pre @ h @ x # post) (length pre) n v saw =
    Some (Some (length pre + length h, of_nat (foldl (\<lambda>v c. v * 16 + nat (net_http_hex_value c)) (unat v) h), saw \<or> h \<noteq> []))"
  using assms
proof (induction h arbitrary: pre n v saw)
  case Nil
  then show ?case by (cases n) (simp_all add: ld8_def)
next
  case (Cons c h)
  then obtain m where n: "n = Suc m" by (cases n) simp_all
  let ?d = "net_http_hex_value c"
  let ?w = "push_bit 4 v OR word_of_int ?d :: u32"
  have "unat v * 16 + nat ?d < 2 ^ 32"
    using Cons.prems(4) foldl_grows [of "unat v * 16 + nat ?d" "\<lambda>c. nat (net_http_hex_value c)" h] by simp
  note s = hex_digit_step [OF _ hex_range(1) this]
  have "hex_loop ((pre @ [c]) @ h @ x # post) (length (pre @ [c])) m ?w True =
    Some (Some (length (pre @ [c]) + length h, of_nat (foldl (\<lambda>v c. v * 16 + nat (net_http_hex_value c)) (unat ?w) h), True \<or> h \<noteq> []))"
    using Cons.prems s by (intro Cons.IH) (simp_all add: n)
  then show ?case using Cons.prems s by (simp add: n ld8_def Let_def)
qed

lemma size_line_read:
  assumes "size_line h ext k" and "length h + length ext < n" and "n + length pre \<le> m"
  shows "skip_while (\<lambda>c. c = 13 \<or> c = 10) (pre @ h @ ext @ 10 # post) (length pre) n = Some (length pre)"
    "hex_loop (pre @ h @ ext @ 10 # post) (length pre) n 0 False = Some (Some (length pre + length h, of_nat k, True))"
    "skip_while (\<lambda>c. c \<noteq> 10) (pre @ h @ ext @ 10 # post) (length pre + length h) (m - (length pre + length h)) = Some (length pre + length h + length ext)"
proof -
  obtain c h' where h: "h = c # h'" using assms(1) by (cases h) (simp_all add: size_line_def)
  have c: "c \<noteq> 13 \<and> c \<noteq> 10" using assms(1) hex_not_line_end [of c] by (simp add: size_line_def h)
  show "skip_while (\<lambda>c. c = 13 \<or> c = 10) (pre @ h @ ext @ 10 # post) (length pre) n = Some (length pre)"
    using skip_while_at [of "[]" "\<lambda>c. c = 13 \<or> c = 10" c n pre "h' @ ext @ 10 # post"] c assms(2) by (simp add: h)
  obtain x y where x: "ext @ 10 # post = x # y" "net_http_hex_value x < 0"
    using assms(1) by (cases ext) (auto simp: size_line_def net_http_hex_value_def)
  have k: "foldl (\<lambda>v c. v * 16 + nat (net_http_hex_value c)) 0 h = k" "k < 2 ^ 32" using assms(1) by (simp_all add: size_line_def hex_number_def)
  show "hex_loop (pre @ h @ ext @ 10 # post) (length pre) n 0 False = Some (Some (length pre + length h, of_nat k, True))"
    using hex_loop_at [of h x n 0 pre y False] assms(1,2) x k by (simp add: size_line_def)
  show "skip_while (\<lambda>c. c \<noteq> 10) (pre @ h @ ext @ 10 # post) (length pre + length h) (m - (length pre + length h)) = Some (length pre + length h + length ext)"
  proof -
    have "\<forall>c \<in> set ext. c \<noteq> 10" using assms(1) by (auto simp: size_line_def)
    moreover have "length ext < m - (length pre + length h)" using assms(2,3) by linarith
    ultimately show ?thesis using skip_while_at [of ext "\<lambda>c. c \<noteq> 10" 10 _ "pre @ h" post] by simp
  qed
qed

subsection \<open>One chunk\<close>

lemma overwrite_left: "w + length data \<le> length xs \<Longrightarrow> overwrite w data (xs @ ys) = overwrite w data xs @ ys"
  by (simp add: overwrite_def)

lemma chunk_end_at: "chunk_end (pre @ 13 # 10 # post) n (length pre) = Some (Some (length pre + 2))" if "length pre + 2 \<le> n"
  using that by (simp add: chunk_end_def ld8_def nth_append)

lemma chunk_data_at:
  assumes "data \<noteq> []" and "length data < 2 ^ 32" and "w \<le> length pre" and "length pre + length data + 2 \<le> n" and "w + length data < cap"
    and "pre' = overwrite w data (pre @ data)"
  shows "chunk_data (pre @ data @ 13 # 10 # post) n cap (of_nat (length data)) (length pre) w =
    Some (Inr (pre' @ 13 # 10 # post, length pre + length data + 2, w + length data))"
proof -
  let ?b = "pre @ data @ 13 # 10 # post"
  have u: "unat (of_nat (length data) :: u32) = length data" using assms(2) by (intro unat_of_nat_32) simp
  have nz: "(of_nat (length data) :: u32) \<noteq> 0" using u assms(1) by (metis length_0_conv unat_0)
  have s: "slice (length pre) (length data) ?b = data" by (simp add: slice_def)
  have "overwrite w data ((pre @ data) @ 13 # 10 # post) = pre' @ 13 # 10 # post"
    unfolding assms(6) using assms(3) by (intro overwrite_left) simp
  then have c: "copy_down ?b w (length pre) (length data) = Some (pre' @ 13 # 10 # post)"
    using okay_copy_down [of w "length pre" "length data" ?b] assms(3) s by (simp add: okay_iff)
  have l: "length pre' = length pre + length data" unfolding assms(6) using assms(3) by (subst length_overwrite) simp_all
  have e: "chunk_end (pre' @ 13 # 10 # post) n (length pre + length data) = Some (Some (length pre + length data + 2))"
    using chunk_end_at [of pre' n post] assms(4) by (simp add: l)
  have "\<not> n - length pre < length data" "\<not> (cap \<le> length data \<or> cap - length data - 1 < w)" using assms(4,5) by linarith+
  then show ?thesis using nz by (simp add: chunk_data_def u c e)
qed

lemma chunk_step_at:
  assumes "chunk_ok c" and "w \<le> length pre" and "length pre + length (chunk_bytes c) \<le> n" and "w + length (snd (snd c)) < cap"
  defines "pre' \<equiv> overwrite w (snd (snd c)) (pre @ chunk_bytes c)"
  shows "chunk_step (pre @ chunk_bytes c @ post) n cap (length pre) w = Some (Inr (pre' @ post, length pre', w + length (snd (snd c))))"
proof -
  obtain h ext data where c: "c = (h, ext, data)" by (cases c)
  have k: "data \<noteq> []" "size_line h ext (length data)" using assms(1) by (simp_all add: chunk_ok_def c)
  let ?p = "pre @ h @ ext @ [10]"
  have body: "pre @ chunk_bytes c @ post = pre @ h @ ext @ 10 # (data @ 13 # 10 # post)" by (simp add: chunk_bytes_def c)
  have n: "length h + length ext < n - length pre" "n - length pre + length pre \<le> n" "length ?p + length data + 2 \<le> n"
    using assms(3) by (simp_all add: chunk_bytes_def c)
  note r = size_line_read [OF k(2) n(1,2), of "data @ 13 # 10 # post"]
  have w: "w \<le> length ?p" using assms(2) by simp
  have p: "overwrite w data (?p @ data) @ [13, 10] = pre'" unfolding pre'_def
    using w overwrite_left [of w data "?p @ data" "[13, 10]"] by (simp add: chunk_bytes_def c)
  have "length data < 2 ^ 32" using k(2) by (simp add: size_line_def)
  from chunk_data_at [OF k(1) this w n(3) _ HOL.refl, of cap post] have
    "chunk_data (pre @ h @ ext @ 10 # data @ 13 # 10 # post) n cap (of_nat (length data)) (length ?p) w =
      Some (Inr (pre' @ post, length ?p + length data + 2, w + length data))"
    using assms(4) by (simp add: c p [symmetric])
  moreover have "length pre' = length ?p + length data + 2" unfolding p [symmetric] using w by (subst length_append, subst length_overwrite) simp_all
  ultimately show ?thesis unfolding body chunk_step_def using r n by (simp add: c add.assoc)
qed

lemma last_chunk_step:
  assumes "size_line h ext 0" and "w \<le> length pre" and "length pre + length h + length ext < n"
  shows "\<exists>b. chunk_step (pre @ h @ ext @ 10 # post) n cap (length pre) w = Some (Inl (0, b, w)) \<and> take w b = take w pre"
proof -
  have n: "length h + length ext < n - length pre" "n - length pre + length pre \<le> n" using assms(3) by simp_all
  note r = size_line_read [OF assms(1) n, of post]
  let ?b = "pre @ h @ ext @ 10 # post"
  have "w < length ?b" using assms(2) by simp
  then show ?thesis using r n assms(2,3) by (simp add: chunk_step_def chunk_data_def st8_def del: append_assoc)
qed

subsection \<open>The whole body\<close>

lemma chunk_loop_at:
  assumes "list_all chunk_ok cs" and "size_line h ext 0" and "w \<le> length pre"
    and "n = length pre + length (chunked_body cs h ext trailer)" and "w + length (chunks_data cs) < cap"
  shows "\<exists>b. chunk_loop (pre @ chunked_body cs h ext trailer @ post) n cap (length pre) w = Some (0, b, w + length (chunks_data cs)) \<and>
    take (w + length (chunks_data cs)) b = take w pre @ chunks_data cs"
  using assms
proof (induction cs arbitrary: pre w)
  case Nil
  obtain b where "chunk_step (pre @ h @ ext @ 10 # (trailer @ post)) n cap (length pre) w = Some (Inl (0, b, w))" "take w b = take w pre"
    using last_chunk_step [OF assms(2), of w pre n "trailer @ post" cap] Nil.prems by (auto simp: chunked_body_def)
  then show ?case using Nil.prems by (subst chunk_loop.simps) (simp add: chunked_body_def chunks_data_def)
next
  case (Cons c cs)
  let ?d = "snd (snd c)"
  let ?rest = "chunked_body cs h ext trailer @ post"
  define pre' where "pre' = overwrite w ?d (pre @ chunk_bytes c)"
  have c: "chunk_ok c" "list_all chunk_ok cs" using Cons.prems(1) by simp_all
  have d: "chunks_data (c # cs) = ?d @ chunks_data cs" by (simp add: chunks_data_def split_beta)
  have body: "chunked_body (c # cs) h ext trailer = chunk_bytes c @ chunked_body cs h ext trailer" by (simp add: chunked_body_def)
  have "length ?d \<le> length (chunk_bytes c)" by (simp add: chunk_bytes_def split_beta)
  then have fit: "w + length ?d \<le> length (pre @ chunk_bytes c)" using Cons.prems(3) by simp
  then have l: "length pre' = length pre + length (chunk_bytes c)" by (simp add: pre'_def)
  have t: "take (w + length ?d) pre' = take w pre @ ?d" using fit Cons.prems(3) by (simp add: pre'_def overwrite_def)
  have step: "chunk_step (pre @ chunk_bytes c @ ?rest) n cap (length pre) w = Some (Inr (pre' @ ?rest, length pre', w + length ?d))"
    unfolding pre'_def using Cons.prems(3-5) by (intro chunk_step_at [OF c(1)]) (simp_all add: body d)
  have "\<exists>b. chunk_loop (pre' @ ?rest) n cap (length pre') (w + length ?d) = Some (0, b, w + length ?d + length (chunks_data cs)) \<and>
    take (w + length ?d + length (chunks_data cs)) b = take (w + length ?d) pre' @ chunks_data cs"
    using Cons.prems fit l by (intro Cons.IH c(2) assms(2)) (simp_all add: body d)
  moreover have "\<not> n \<le> length pre" using Cons.prems(4) by (simp add: chunked_body_def)
  ultimately show ?case using step by (subst chunk_loop.simps) (simp add: body d t add.assoc)
qed

lemma decode_chunked:
  assumes "list_all chunk_ok cs" and "size_line h ext 0" and "length (chunks_data cs) < unat cap"
    and "length (chunked_body cs h ext trailer) < 2 ^ 32"
  shows "\<exists>b. net_http_decode_chunked (Some (chunked_body cs h ext trailer @ post)) (of_nat (length (chunked_body cs h ext trailer))) cap =
      Some (0, b, length (chunks_data cs)) \<and> take (length (chunks_data cs)) b = chunks_data cs"
proof -
  have "unat (of_nat (length (chunked_body cs h ext trailer)) :: u32) = length (chunked_body cs h ext trailer)"
    using assms(4) by (intro unat_of_nat_32) simp
  moreover have "cap \<noteq> 0" using assms(3) by auto
  ultimately show ?thesis
    using chunk_loop_at [of cs h ext 0 "[]" "length (chunked_body cs h ext trailer)" trailer "unat cap" post] assms
    by (simp add: net_http_decode_chunked_def)
qed

end
