(* ===== verification/Net_Url.thy ===== *)
theory Net_Url
  imports Net_Http
begin

text \<open>
  Addresses and URLs as text: \<^verbatim>\<open>net_parse_ipv4\<close>, \<^verbatim>\<open>net_parse_port\<close> and \<^verbatim>\<open>net_parse_url\<close>. A C string is the list of its bytes
  before the terminator; a moving pointer into it is the list of the bytes that are left, and reading at its end gives the terminator.
\<close>

definition peek :: "bytes \<Rightarrow> u8" where
  "peek s = (case s of [] \<Rightarrow> 0 | c # _ \<Rightarrow> c)"

definition digit :: "u8 \<Rightarrow> bool" where
  "digit c \<longleftrightarrow> 48 \<le> c \<and> c \<le> 57"

text \<open>The digit loop of an octet or a port, with the largest value allowed.\<close>

fun dec_loop :: "u32 \<Rightarrow> u32 \<Rightarrow> nat \<Rightarrow> bytes \<Rightarrow> (u32 \<times> nat \<times> bytes) option" where
  "dec_loop limit v k [] = Some (v, k, [])"
| "dec_loop limit v k (c # s) =
     (if digit c
      then let v' = v * 10 + ucast (c - 48) in if limit < v' then None else dec_loop limit v' (k + 1) s
      else Some (v, k, c # s))"

definition net_parse_dec_octet :: "bytes \<Rightarrow> (u32 \<times> bytes) option" where
  "net_parse_dec_octet s = do { (v, k, s) \<leftarrow> dec_loop 255 0 0 s; if k = 0 then None else Some (v, s) }"

definition net_parse_ipv4 :: "bytes \<Rightarrow> (u32 \<times> bytes) option" where
  "net_parse_ipv4 s = do {
     (a, s) \<leftarrow> net_parse_dec_octet s;
     if peek s \<noteq> 46 then None
     else do {
       (b, s) \<leftarrow> net_parse_dec_octet (tl s);
       if peek s \<noteq> 46 then None
       else do {
         (c, s) \<leftarrow> net_parse_dec_octet (tl s);
         if peek s \<noteq> 46 then None
         else do {
           (d, s) \<leftarrow> net_parse_dec_octet (tl s);
           Some (push_bit 24 a OR push_bit 16 b OR push_bit 8 c OR d, s) } } } }"

definition net_parse_ipv4_addr :: "bytes option \<Rightarrow> u32 option" where
  "net_parse_ipv4_addr txt = do {
     s \<leftarrow> txt;
     (ip, s) \<leftarrow> net_parse_ipv4 s;
     if peek s \<noteq> 0 then None else Some ip }"

definition net_hostname_is_ipv4 :: "bytes \<Rightarrow> u32 option" where
  "net_hostname_is_ipv4 name =
     (case net_parse_ipv4 name of None \<Rightarrow> None | Some (ip, s) \<Rightarrow> if peek s = 0 then Some ip else None)"

definition net_parse_port :: "bytes \<Rightarrow> (u16 \<times> bytes) option" where
  "net_parse_port s = do {
     (v, k, s) \<leftarrow> dec_loop 65535 0 0 s;
     if k = 0 \<or> v = 0 then None else Some (ucast v, s) }"

fun host_loop :: "nat \<Rightarrow> nat \<Rightarrow> bytes \<Rightarrow> bytes" where
  "host_loop cap n [] = []"
| "host_loop cap n (c # s) =
     (if c \<noteq> 0 \<and> c \<noteq> 58 \<and> c \<noteq> 47 \<and> n + 1 < cap then c # host_loop cap (n + 1) s else [])"

record parsed_url =
  pu_ip :: u32
  pu_port :: u16
  pu_host :: bytes
  pu_path :: bytes
  pu_is_https :: bool

definition net_parse_url :: "bytes \<Rightarrow> nat \<Rightarrow> parsed_url option" where
  "net_parse_url url cap = do {
     (s, is_https) \<leftarrow> (if net_starts_with url (ascii ''http://'') then Some (drop 7 url, False)
                      else if net_starts_with url (ascii ''https://'') then Some (drop 8 url, True)
                      else None);
     let host = host_loop cap 0 s;
     if host = [] then None
     else do {
       let s = drop (length host) s;
       let ip = (case net_hostname_is_ipv4 host of None \<Rightarrow> 0 | Some ip \<Rightarrow> ip);
       let port = (if is_https then 443 else 80);
       (port, s) \<leftarrow> (if peek s = 58 then net_parse_port (tl s) else Some (port, s));
       if peek s = 0 then Some \<lparr>pu_ip = ip, pu_port = port, pu_host = host, pu_path = ascii ''/'', pu_is_https = is_https\<rparr>
       else if peek s \<noteq> 47 then None
       else Some \<lparr>pu_ip = ip, pu_port = port, pu_host = host, pu_path = s, pu_is_https = is_https\<rparr> } }"

subsection \<open>Decimal numbers\<close>

definition dec_value :: "nat \<Rightarrow> bytes \<Rightarrow> nat" where
  "dec_value = foldl (\<lambda>v c. v * 10 + (unat c - 48))"

definition is_decimal :: "nat \<Rightarrow> bytes \<Rightarrow> bool" where
  "is_decimal limit ds \<longleftrightarrow> ds \<noteq> [] \<and> list_all digit ds \<and> dec_value 0 ds \<le> limit"

lemma dec_value_simps [simp]: "dec_value v [] = v" "dec_value v (c # ds) = dec_value (v * 10 + (unat c - 48)) ds"
  by (simp_all add: dec_value_def)

lemma dec_value_grows: "v \<le> dec_value v ds"
proof (induction ds arbitrary: v)
  case (Cons c ds)
  have "v \<le> v * 10 + (unat c - 48)" by simp
  also have "\<dots> \<le> dec_value (v * 10 + (unat c - 48)) ds" by (rule Cons.IH)
  finally show ?case by simp
qed simp

lemma digit_step:
  assumes "digit c" and "unat v \<le> 65535"
  shows "unat (v * 10 + ucast (c - 48) :: u32) = unat v * 10 + (unat c - 48)"
proof -
  have c: "unat (c - 48) = unat c - 48" "unat c \<le> 57" using assms(1) by (simp_all add: digit_def unat_sub word_le_nat_alt)
  have "v * 10 + ucast (c - 48) = (of_nat (unat v * 10 + unat (c - 48)) :: u32)" by simp
  also have "unat \<dots> = unat v * 10 + unat (c - 48)" using assms(2) c by (intro unat_of_nat_32) simp
  finally show ?thesis using c by simp
qed

lemma dec_loop_value:
  assumes "unat v \<le> unat limit" and "unat limit \<le> 65535"
  shows "dec_loop limit v k s =
    (let ds = takeWhile digit s; n = dec_value (unat v) ds
     in if n \<le> unat limit then Some (of_nat n, k + length ds, dropWhile digit s) else None)"
  using assms
proof (induction s arbitrary: v k)
  case (Cons c s)
  show ?case
  proof (cases "digit c")
    case True
    let ?v = "v * 10 + ucast (c - 48) :: u32"
    have v: "unat ?v = unat v * 10 + (unat c - 48)" using True Cons.prems by (intro digit_step) simp_all
    show ?thesis
    proof (cases "limit < ?v")
      case True
      then have "\<not> dec_value (unat ?v) (takeWhile digit s) \<le> unat limit"
        using dec_value_grows [of "unat ?v" "takeWhile digit s"] by (simp add: word_less_nat_alt)
      then show ?thesis using True \<open>digit c\<close> by (simp add: Let_def v)
    next
      case False
      then have "unat ?v \<le> unat limit" by (simp add: word_less_nat_alt)
      from Cons.IH [OF this Cons.prems(2), of "k + 1"] show ?thesis using False True by (simp add: Let_def v)
    qed
  next
    case False
    then show ?thesis using Cons.prems by simp
  qed
qed simp

lemma octet_iff:
  "net_parse_dec_octet s = Some (v, r) \<longleftrightarrow>
    is_decimal 255 (takeWhile digit s) \<and> v = of_nat (dec_value 0 (takeWhile digit s)) \<and> r = dropWhile digit s"
proof -
  have "list_all digit (takeWhile digit s)" by (auto simp: list_all_iff dest: set_takeWhileD)
  then show ?thesis
    by (auto simp: net_parse_dec_octet_def dec_loop_value Let_def is_decimal_def bind_eq_Some_conv)
qed

lemma digits_before:
  assumes "list_all digit ds" and "\<not> digit (peek r)"
  shows "takeWhile digit (ds @ r) = ds" "dropWhile digit (ds @ r) = r"
proof -
  have "takeWhile digit r = []" "dropWhile digit r = r" using assms(2) by (cases r; simp add: peek_def)+
  then show "takeWhile digit (ds @ r) = ds" "dropWhile digit (ds @ r) = r"
    using assms(1) by (simp_all add: list_all_iff takeWhile_append dropWhile_append)
qed

lemma octet_text:
  assumes "\<not> digit (peek r)"
  shows "net_parse_dec_octet s = Some (v, r) \<longleftrightarrow> (\<exists>ds. is_decimal 255 ds \<and> v = of_nat (dec_value 0 ds) \<and> s = ds @ r)"
proof
  assume "net_parse_dec_octet s = Some (v, r)"
  then show "\<exists>ds. is_decimal 255 ds \<and> v = of_nat (dec_value 0 ds) \<and> s = ds @ r"
    by (intro exI [of _ "takeWhile digit s"]) (simp add: octet_iff)
next
  assume "\<exists>ds. is_decimal 255 ds \<and> v = of_nat (dec_value 0 ds) \<and> s = ds @ r"
  then show "net_parse_dec_octet s = Some (v, r)"
    using digits_before [OF _ assms] by (auto simp: octet_iff is_decimal_def)
qed

lemma peek_rest: "\<not> digit (peek (dropWhile digit s))"
proof (induction s)
  case Nil
  show ?case by (simp add: peek_def digit_def)
next
  case (Cons c s)
  then show ?case by (cases "digit c") (simp_all add: peek_def)
qed

lemma octet_digits:
  assumes "net_parse_dec_octet s = Some (v, r)"
  obtains ds where "is_decimal 255 ds" "v = of_nat (dec_value 0 ds)" "s = ds @ r" "\<not> digit (peek r)"
proof
  show "is_decimal 255 (takeWhile digit s)" "v = of_nat (dec_value 0 (takeWhile digit s))" using assms by (simp_all only: octet_iff)
  have r: "r = dropWhile digit s" using assms by (simp only: octet_iff)
  show "s = takeWhile digit s @ r" "\<not> digit (peek r)" unfolding r by (simp_all add: peek_rest)
qed

subsection \<open>Addresses\<close>

lemma or_shifted: "n < 2 ^ k \<Longrightarrow> n < 2 ^ 32 \<Longrightarrow> push_bit k (of_nat m) OR of_nat n = (of_nat (m * 2 ^ k + n) :: u32)"
proof -
  assume n: "n < 2 ^ k" "n < 2 ^ 32"
  then have "unat (of_nat n :: u32) = n" by (intro unat_of_nat_32) simp
  then have "\<not> bit (of_nat n :: u32) j" if "k \<le> j" for j using word_high_bits [of "of_nat n :: u32" k j] n that by simp
  then have "push_bit k (of_nat m) + of_nat n = (push_bit k (of_nat m) OR of_nat n :: u32)"
    by (intro disjunctive_add) (auto simp: bit_push_bit_iff not_le)
  then show ?thesis by (simp add: push_bit_eq_mult)
qed

definition address_of :: "nat \<Rightarrow> nat \<Rightarrow> nat \<Rightarrow> nat \<Rightarrow> nat" where
  "address_of a b c d = a * 2 ^ 24 + b * 2 ^ 16 + c * 2 ^ 8 + d"

lemma address_word:
  assumes "b \<le> 255" and "c \<le> 255" and "d \<le> 255"
  shows "push_bit 24 (of_nat a) OR push_bit 16 (of_nat b) OR push_bit 8 (of_nat c) OR of_nat d = (of_nat (address_of a b c d) :: u32)"
proof -
  have 1: "push_bit 8 (of_nat c) OR of_nat d = (of_nat (c * 2 ^ 8 + d) :: u32)" using assms by (intro or_shifted) simp_all
  have 2: "push_bit 16 (of_nat b) OR of_nat (c * 2 ^ 8 + d) = (of_nat (b * 2 ^ 16 + (c * 2 ^ 8 + d)) :: u32)"
    using assms by (intro or_shifted) simp_all
  have 3: "push_bit 24 (of_nat a) OR of_nat (b * 2 ^ 16 + (c * 2 ^ 8 + d)) = (of_nat (a * 2 ^ 24 + (b * 2 ^ 16 + (c * 2 ^ 8 + d))) :: u32)"
    using assms by (intro or_shifted) simp_all
  show ?thesis unfolding 1 2 3 address_of_def by (simp only: add.assoc)
qed

definition dotted_address :: "bytes \<Rightarrow> bytes \<Rightarrow> bytes \<Rightarrow> bytes \<Rightarrow> bytes" where
  "dotted_address a b c d = a @ 46 # b @ 46 # c @ 46 # d"

definition octets :: "bytes \<Rightarrow> bytes \<Rightarrow> bytes \<Rightarrow> bytes \<Rightarrow> bool" where
  "octets a b c d \<longleftrightarrow> is_decimal 255 a \<and> is_decimal 255 b \<and> is_decimal 255 c \<and> is_decimal 255 d"

lemma peek_dot: "peek r = 46 \<longleftrightarrow> (\<exists>t. r = 46 # t)"
  by (cases r) (auto simp: peek_def)

lemma ipv4_iff:
  "net_parse_ipv4 s = Some (ip, r) \<longleftrightarrow> \<not> digit (peek r) \<and> (\<exists>a b c d. octets a b c d \<and> s = dotted_address a b c d @ r \<and>
     ip = of_nat (address_of (dec_value 0 a) (dec_value 0 b) (dec_value 0 c) (dec_value 0 d)))"
  (is "_ \<longleftrightarrow> ?R")
proof
  assume "net_parse_ipv4 s = Some (ip, r)"
  then obtain va s1 vb s2 vc s3 vd where o: "net_parse_dec_octet s = Some (va, 46 # s1)" "net_parse_dec_octet s1 = Some (vb, 46 # s2)"
    "net_parse_dec_octet s2 = Some (vc, 46 # s3)" "net_parse_dec_octet s3 = Some (vd, r)"
    "ip = push_bit 24 va OR push_bit 16 vb OR push_bit 8 vc OR vd"
    by (auto simp: net_parse_ipv4_def bind_eq_Some_conv peek_dot split: if_splits)
  obtain a where a: "is_decimal 255 a" "va = of_nat (dec_value 0 a)" "s = a @ 46 # s1" using o(1) by (rule octet_digits)
  obtain b where b: "is_decimal 255 b" "vb = of_nat (dec_value 0 b)" "s1 = b @ 46 # s2" using o(2) by (rule octet_digits)
  obtain c where c: "is_decimal 255 c" "vc = of_nat (dec_value 0 c)" "s2 = c @ 46 # s3" using o(3) by (rule octet_digits)
  obtain d where d: "is_decimal 255 d" "vd = of_nat (dec_value 0 d)" "s3 = d @ r" "\<not> digit (peek r)" using o(4) by (rule octet_digits)
  have "ip = of_nat (address_of (dec_value 0 a) (dec_value 0 b) (dec_value 0 c) (dec_value 0 d))"
    unfolding o(5) a(2) b(2) c(2) d(2) using b(1) c(1) d(1) by (intro address_word) (simp_all add: is_decimal_def)
  moreover have "s = dotted_address a b c d @ r" by (simp add: dotted_address_def a(3) b(3) c(3) d(3))
  ultimately show ?R using a(1) b(1) c(1) d(1,4) by (auto simp: octets_def)
next
  assume ?R
  then obtain a b c d where r: "\<not> digit (peek r)" and o: "is_decimal 255 a" "is_decimal 255 b" "is_decimal 255 c" "is_decimal 255 d"
    and s: "s = dotted_address a b c d @ r" "ip = of_nat (address_of (dec_value 0 a) (dec_value 0 b) (dec_value 0 c) (dec_value 0 d))"
    by (auto simp: octets_def)
  have dot: "\<not> digit 46" "peek (46 # t) = 46" for t by (simp_all add: peek_def digit_def)
  have oct: "net_parse_dec_octet (x @ t) = Some (of_nat (dec_value 0 x), t)" if "is_decimal 255 x" "\<not> digit (peek t)" for x t
    using octet_text [OF that(2)] that(1) by blast
  have w: "push_bit 24 (of_nat (dec_value 0 a)) OR push_bit 16 (of_nat (dec_value 0 b)) OR push_bit 8 (of_nat (dec_value 0 c)) OR of_nat (dec_value 0 d) =
      (of_nat (address_of (dec_value 0 a) (dec_value 0 b) (dec_value 0 c) (dec_value 0 d)) :: u32)"
    using o by (intro address_word) (simp_all add: is_decimal_def)
  show "net_parse_ipv4 s = Some (ip, r)"
    unfolding net_parse_ipv4_def s dotted_address_def using o r w by (simp add: oct dot)
qed

lemma ipv4_addr_iff:
  assumes "0 \<notin> set txt"
  shows "net_parse_ipv4_addr (Some txt) = Some ip \<longleftrightarrow> (\<exists>a b c d. octets a b c d \<and> txt = dotted_address a b c d \<and>
     ip = of_nat (address_of (dec_value 0 a) (dec_value 0 b) (dec_value 0 c) (dec_value 0 d)))"
proof -
  have nil: "r = []" if "txt = x @ r" "peek r = 0" for x r using assms that by (cases r) (auto simp: peek_def)
  have "net_parse_ipv4_addr (Some txt) = Some ip \<longleftrightarrow> (\<exists>r. net_parse_ipv4 txt = Some (ip, r) \<and> peek r = 0)"
    by (auto simp: net_parse_ipv4_addr_def bind_eq_Some_conv)
  also have "\<dots> \<longleftrightarrow> net_parse_ipv4 txt = Some (ip, [])"
  proof
    assume "\<exists>r. net_parse_ipv4 txt = Some (ip, r) \<and> peek r = 0"
    then obtain r where r: "net_parse_ipv4 txt = Some (ip, r)" "peek r = 0" by blast
    then obtain x where "txt = x @ r" unfolding ipv4_iff by blast
    then show "net_parse_ipv4 txt = Some (ip, [])" using r nil by simp
  qed (auto simp: peek_def)
  finally show ?thesis by (simp add: ipv4_iff peek_def digit_def)
qed

subsection \<open>URLs\<close>

definition host_text :: "bytes \<Rightarrow> bool" where
  "host_text h \<longleftrightarrow> h \<noteq> [] \<and> 0 \<notin> set h \<and> 58 \<notin> set h \<and> 47 \<notin> set h"

definition scheme :: "bool \<Rightarrow> bytes" where
  "scheme is_https = (if is_https then ascii ''https://'' else ascii ''http://'')"

definition port_text :: "bytes option \<Rightarrow> bytes" where
  "port_text p = (case p of None \<Rightarrow> [] | Some ds \<Rightarrow> 58 # ds)"

definition port_of :: "bool \<Rightarrow> bytes option \<Rightarrow> u16" where
  "port_of is_https p = (case p of None \<Rightarrow> if is_https then 443 else 80 | Some ds \<Rightarrow> of_nat (dec_value 0 ds))"

lemma starts_with_append [simp]: "net_starts_with (p @ s) p"
  by (induction p) simp_all

lemma host_loop_text:
  assumes "0 \<notin> set h" and "58 \<notin> set h" and "47 \<notin> set h" and "n + length h < cap" and "peek r \<in> {0, 58, 47}"
  shows "host_loop cap n (h @ r) = h"
  using assms
proof (induction h arbitrary: n)
  case Nil
  then show ?case by (cases r) (auto simp: peek_def)
qed auto

lemma host_loop_long:
  assumes "0 \<notin> set h" and "58 \<notin> set h" and "47 \<notin> set h" and "n < cap" and "cap \<le> n + length h"
  shows "host_loop cap n (h @ r) = take (cap - n - 1) h"
  using assms
proof (induction h arbitrary: n)
  case (Cons c h)
  then show ?case by (cases "n + 1 < cap") (auto simp: take_Cons' not_less)
qed simp

lemma port_iff:
  "net_parse_port s = Some (v, r) \<longleftrightarrow> is_decimal 65535 (takeWhile digit s) \<and> dec_value 0 (takeWhile digit s) \<noteq> 0 \<and>
    v = of_nat (dec_value 0 (takeWhile digit s)) \<and> r = dropWhile digit s"
proof -
  let ?n = "dec_value 0 (takeWhile digit s)"
  have l: "list_all digit (takeWhile digit s)" by (auto simp: list_all_iff dest: set_takeWhileD)
  have c: "ucast (of_nat ?n :: u32) = (of_nat ?n :: u16)" "(of_nat ?n :: u32) = 0 \<longleftrightarrow> ?n = 0" if "?n \<le> 65535"
  proof -
    have u: "unat (of_nat ?n :: u32) = ?n" using that by (intro unat_of_nat_32) simp
    then show "ucast (of_nat ?n :: u32) = (of_nat ?n :: u16)" by (simp add: word_unat_eq_iff unsigned_ucast_eq unsigned_of_nat)
    show "(of_nat ?n :: u32) = 0 \<longleftrightarrow> ?n = 0" unfolding word_unat_eq_iff u by simp
  qed
  show ?thesis
    using l c by (auto simp: net_parse_port_def dec_loop_value Let_def is_decimal_def bind_eq_Some_conv)
qed

lemma port_digits:
  assumes "is_decimal 65535 ds" and "dec_value 0 ds \<noteq> 0" and "\<not> digit (peek r)"
  shows "net_parse_port (ds @ r) = Some (of_nat (dec_value 0 ds), r)"
proof -
  have "list_all digit ds" using assms(1) by (simp add: is_decimal_def)
  note d = digits_before [OF this assms(3)]
  show ?thesis unfolding port_iff d using assms by simp
qed

lemma scheme_split:
  "(if net_starts_with (scheme b @ s) (ascii ''http://'') then Some (drop 7 (scheme b @ s), False)
    else if net_starts_with (scheme b @ s) (ascii ''https://'') then Some (drop 8 (scheme b @ s), True) else None) = Some (s, b)"
  by (cases b) (simp_all add: scheme_def ascii_def)

definition port_ok :: "bytes option \<Rightarrow> bool" where
  "port_ok p \<longleftrightarrow> (case p of None \<Rightarrow> True | Some ds \<Rightarrow> is_decimal 65535 ds \<and> dec_value 0 ds \<noteq> 0)"

lemma url_parse:
  assumes "host_text h" and "length h < cap" and "port_ok p" and "path = [] \<or> hd path = 47"
  shows "net_parse_url (scheme b @ h @ port_text p @ path) cap =
    Some \<lparr>pu_ip = (case net_hostname_is_ipv4 h of None \<Rightarrow> 0 | Some ip \<Rightarrow> ip), pu_port = port_of b p, pu_host = h,
      pu_path = (if path = [] then ascii ''/'' else path), pu_is_https = b\<rparr>"
proof -
  have e: "peek path = 0 \<and> path = [] \<or> peek path = 47 \<and> path \<noteq> []" using assms(4) by (cases path) (auto simp: peek_def)
  then have nd: "\<not> digit (peek path)" "peek path \<noteq> 58" by (auto simp: digit_def)
  have "peek (port_text p @ path) \<in> {0, 58, 47}" using e by (cases p) (auto simp: port_text_def peek_def)
  then have host: "host_loop cap 0 (h @ port_text p @ path) = h"
    using assms(1,2) by (intro host_loop_text) (simp_all add: host_text_def)
  have port: "(if peek (port_text p @ path) = 58 then net_parse_port (tl (port_text p @ path)) else Some (if b then 443 else 80, port_text p @ path)) =
    Some (port_of b p, path)"
  proof (cases p)
    case None
    then show ?thesis using nd by (simp add: port_text_def port_of_def)
  next
    case (Some ds)
    then show ?thesis using port_digits [OF _ _ nd(1), of ds] assms(3) by (simp add: port_text_def port_of_def port_ok_def peek_def)
  qed
  have h: "h \<noteq> []" "drop (length h) (h @ port_text p @ path) = port_text p @ path" using assms(1) by (simp_all add: host_text_def)
  have bind: "(Some x \<bind> f) = f x" for x and f :: "bytes \<times> bool \<Rightarrow> parsed_url option" by simp
  show ?thesis unfolding net_parse_url_def scheme_split bind prod.case Let_def host h(2) port
    using h(1) e by (auto simp del: append_eq_append_conv)
qed

lemma url_host_too_long:
  assumes "host_text h" and "1 < cap" and "cap \<le> length h"
  shows "net_parse_url (scheme b @ h @ rest) cap = None"
proof -
  have host: "host_loop cap 0 (h @ rest) = take (cap - 1) h"
    using assms by (subst host_loop_long) (simp_all add: host_text_def)
  have n: "take (cap - 1) h \<noteq> []" using assms by auto
  have l: "length (take (cap - 1) h) = cap - 1" using assms(3) by simp
  have "drop (cap - 1) (h @ rest) = h ! (cap - 1) # drop cap h @ rest"
    using assms(2,3) by (simp add: Cons_nth_drop_Suc [symmetric])
  moreover have "h ! (cap - 1) \<in> set h" using assms(2,3) by simp
  then have "h ! (cap - 1) \<noteq> 0" "h ! (cap - 1) \<noteq> 58" "h ! (cap - 1) \<noteq> 47" using assms(1) by (auto simp: host_text_def)
  ultimately have p: "peek (drop (cap - 1) (h @ rest)) \<notin> {0, 58, 47}" by (simp add: peek_def)
  have bind: "(Some x \<bind> f) = f x" for x and f :: "bytes \<times> bool \<Rightarrow> parsed_url option" by simp
  show ?thesis unfolding net_parse_url_def scheme_split bind prod.case Let_def host l using n p by simp
qed

end
