(* ===== verification/Net_Props.thy ===== *)
theory Net_Props
  imports Net_Transfer Net_Names Net_Chunked_Spec Net_Url
begin

text \<open>The properties of the network stack, with their witnesses.\<close>

subsection \<open>States for the witnesses\<close>

definition net_demo_device :: "bytes list net_device" where
  "net_demo_device = \<lparr>nd_present = True, nd_name = replicate 8 0, nd_driver = replicate 16 0, nd_mac = [2, 0, 0, 0, 0, 1],
     nd_vendor_id = 0, nd_device_id = 0, nd_link_up = True, nd_rx_packets = 0, nd_tx_packets = 0, nd_rx_dropped = 0, nd_tx_errors = 0,
     nd_send_frame = \<lambda>f w. ([Tx], 0, w @ [f]), nd_poll = Returns 0\<rparr>"

definition demo_get :: net_tcp_get where
  "demo_get = \<lparr>tg_active = False, tg_device = 0, tg_remote_ip = 0, tg_local_port = 0, tg_remote_port = 0, tg_seq = 0, tg_ack = 0,
     tg_remote_mac = replicate 6 0, tg_connected = False, tg_closed = False, tg_reset = False, tg_out = [], tg_out_capacity = 0, tg_out_size = 0,
     tg_header_done = False, tg_full = False, tg_header = replicate 1024 0, tg_header_size = 0, tg_header_truncated = False, tg_info = None,
     tg_header_tail = replicate 4 0, tg_header_tail_count = 0\<rparr>"

definition demo_stream :: "u32 \<Rightarrow> net_tcp_stream" where
  "demo_stream peer = \<lparr>ts_active = True, ts_device = 0, ts_remote_ip = peer, ts_local_port = 4000, ts_remote_port = 80, ts_seq = 0, ts_ack = 100,
     ts_tx_acked = 0, ts_remote_mac = replicate 6 2, ts_connected = True, ts_closed = False, ts_reset = False, ts_rx_buffer = replicate 16 0,
     ts_rx_capacity = 16, ts_rx_size = 0\<rparr>"

definition demo_net :: "u32 \<Rightarrow> u32 \<Rightarrow> bytes list net" where
  "demo_net ip peer = \<lparr>net_devices = replicate 4 net_demo_device, device_count = 1,
     arp_wait = \<lparr>aw_active = False, aw_device = 0, aw_wanted_ip = 0, aw_mac = replicate 6 0, aw_found = False\<rparr>, tcp_get = demo_get,
     tcp_stream = demo_stream peer,
     dhcp_wait = \<lparr>dh_active = False, dh_device = 0, dh_xid = 0, dh_wanted_type = 0, dh_found = False, dh_offered_ip = 0, dh_server_ip = 0,
       dh_subnet_mask = 0, dh_router = 0, dh_dns = 0\<rparr>,
     dns_wait = \<lparr>dn_active = False, dn_device = 0, dn_id = 0, dn_local_port = 0, dn_found = False, dn_cname_found = False, dn_ip = 0,
       dn_cname = replicate 128 0\<rparr>,
     next_ip_id = 1, next_local_port = 40000, local_ip = ip, local_netmask = 0xFFFFFF00, local_gateway = 0x0A000202, local_dns = 0,
     debug_info = \<lparr>di_rx_arp = 0, di_rx_ipv4 = 0, di_rx_udp = 0, di_rx_other = 0, di_arp_requests = 0, di_arp_replies = 0,
       di_arp_mismatches = 0, di_arp_tx_errors = 0, di_udp_tx_errors = 0, di_dhcp_tx = 0, di_dhcp_rx = 0, di_dns_tx = 0, di_dns_rx = 0,
       di_last_eth_type = 0, di_last_inner_eth_type = 0, di_last_arp_op = 0, di_last_arp_requested_ip = 0, di_last_arp_sender_ip = 0,
       di_last_arp_target_ip = 0, di_tcp_stream_rx = 0, di_tcp_stream_tx = 0, di_tcp_stream_retx = 0, di_tcp_stream_last_state = 0,
       di_tcp_stream_last_error = 0, di_tls_last_state = 0, di_tls_last_error = 0, di_tls_last_got = 0, di_tls_last_body_size = 0\<rparr>,
     net_poll_lock = False, net_ticks_read = 0, net_world = []\<rparr>"

lemma demo_ok: "net_ok (demo_net ip peer)"
  by (auto simp: net_ok_def demo_net_def devices_ok_def net_demo_device_def tcp_get_ok_def demo_get_def tcp_stream_ok_def demo_stream_def dns_wait_ok_def)

lemma demo_fields [simp]: "tcp_stream (demo_net ip peer) = demo_stream peer" "device_count (demo_net ip peer) = 1" "local_ip (demo_net ip peer) = ip"
    "net_get_device 0 (demo_net ip peer) = Some net_demo_device" "net_world (demo_net ip peer) = []"
  by (simp_all add: demo_net_def net_get_device_def net_demo_device_def)

subsection \<open>Receiving\<close>

text \<open>
  C11. Whatever bytes arrive in a frame, the stack handles it without reading or writing outside the frame or
  its own buffers, and its state stays well formed: ARP, IPv4, UDP, TCP, DHCP and DNS contents of any form are covered, with name
  compression loops, truncated headers and false lengths among them.
\<close>

theorem net_receive_frame_safe:
  assumes "net_ok s" and "unat sz \<le> length frame"
  shows "\<exists>s'. net_receive_frame index frame sz s = Some s' \<and> net_ok s'"
  using okay_receive_frame [OF assms, of index] by (simp add: okay_iff)

theorem net_receive_frame_safe_witness:
  "\<exists>s'. net_receive_frame 0 (replicate 12 2 @ [8, 0, 0x45] @ replicate 45 0xFF) 60 (demo_net 0x0A00020F 0x0A000202) = Some s' \<and> net_ok s'"
  using net_receive_frame_safe [OF demo_ok, of 60 "replicate 12 2 @ [8, 0, 0x45] @ replicate 45 0xFF" 0] by simp

subsection \<open>TCP\<close>

lemma session_start:
  assumes "net_ok s" and "ts_active (tcp_stream s)" and "ts_connected (tcp_stream s)" and "\<not> ts_closed (tcp_stream s)"
    and "ts_rx_size (tcp_stream s) = 0" and "ts_ack (tcp_stream s) = isn"
  shows "session_inv isn data (s, [])"
  using assms by (simp add: session_inv_def stream.in_order_def stream_got_def stream_ready_def stream_next_def net_ok_def)

text \<open>
  C12. A connected stream hands its application the bytes the peer sends, in order, each once, and nothing else.
  Segments of the peer's data may be lost, repeated, reordered, cut differently each time they are sent, and mixed with reads of the
  application: at any moment what the application has read, followed by what the buffer
  holds, is a prefix of the data, and once the stream counts as closed it is all of the data. Sequence numbers may wrap around.
\<close>

theorem tcp_stream_in_order:
  assumes "net_ok s" and "ts_active (tcp_stream s)" and "ts_connected (tcp_stream s)" and "\<not> ts_closed (tcp_stream s)"
    and "ts_rx_size (tcp_stream s) = 0" and "ts_ack (tcp_stream s) = isn" and "length data + 1 < 2 ^ 31"
    and "(session_step isn data)\<^sup>*\<^sup>* (s, []) (s', got)"
  shows "net_ok s' \<and> prefix (got @ take (unat (ts_rx_size (tcp_stream s'))) (ts_rx_buffer (tcp_stream s'))) data \<and>
    (ts_closed (tcp_stream s') \<longrightarrow> got @ take (unat (ts_rx_size (tcp_stream s'))) (ts_rx_buffer (tcp_stream s')) = data)"
proof -
  have "session_inv isn data (s', got)"
    by (rule session_run [OF assms(8) _ assms(7)]) (rule session_start [OF assms(1-6)])
  then show ?thesis by (auto simp: session_inv_def stream.in_order_def stream_got_def split: if_splits)
qed

theorem tcp_stream_in_order_witness:
  "\<exists>s'. stream_segment 0x18 100 0 [7, 8, 9] 3 (demo_net 1 2) = Some s' \<and>
    prefix (take (unat (ts_rx_size (tcp_stream s'))) (ts_rx_buffer (tcp_stream s'))) [7, 8, 9]"
proof -
  have a: "ts_active (demo_stream 2)" "ts_connected (demo_stream 2)" "\<not> ts_closed (demo_stream 2)" "ts_rx_size (demo_stream 2) = 0"
    "ts_ack (demo_stream 2) = 100" by (simp_all add: demo_stream_def)
  obtain s' where s': "stream_segment 0x18 100 0 [7, 8, 9] 3 (demo_net 1 2) = Some s'"
    using okay_stream_segment [OF demo_ok, of 1 2 3 "[7, 8, 9]" "0x18" 100 0] a by (auto simp: okay_iff)
  have "(session_step 100 [7, 8, 9])\<^sup>*\<^sup>* (demo_net 1 2, []) (s', [])"
    by (rule r_into_rtranclp, rule session_step.arrive [of 0 3 _ "0x18" _ 0]) (use s' in \<open>simp_all add: slice_def\<close>)
  from tcp_stream_in_order [OF demo_ok _ _ _ _ _ _ this] show ?thesis using a s' by simp
qed

text \<open>
  C13. A segment that fits a frame and the receiver's buffer gets through. Sending it hands one frame to the driver, and that
  frame, given to the machine it is addressed to, appends exactly the data to the buffer of the matching stream, when the
  segment is the next one expected there.
\<close>

theorem tcp_segment_delivered:
  assumes "devices_ok a" and "net_get_device i a = Some dev" and "length mac = 6" and "length data \<le> 1464" and "data \<noteq> []"
    and "net_ok b" and "index < device_count b" and "local_ip b = ip"
    and "ts_active (tcp_stream b)" and "ts_connected (tcp_stream b)" and "ts_device (tcp_stream b) = index" and "ts_remote_ip (tcp_stream b) = local_ip a"
    and "ts_remote_port (tcp_stream b) = src_port" and "ts_local_port (tcp_stream b) = dst_port" and "ts_ack (tcp_stream b) = seq"
    and "length data \<le> unat (ts_rx_capacity (tcp_stream b)) - unat (ts_rx_size (tcp_stream b))"
  shows "\<exists>frame b'. net_send_tcp_window i mac ip src_port dst_port seq ack 0x18 window data (of_nat (length data)) a =
      Some (let (events, status, w) = nd_send_frame dev frame (net_world a)
            in (status, fold (apply_counter i) events (a\<lparr>next_ip_id := next_ip_id a + 1, net_world := w\<rparr>))) \<and>
    net_receive_frame index frame (of_nat (length frame)) b = Some b' \<and> net_ok b' \<and>
    take (unat (ts_rx_size (tcp_stream b'))) (ts_rx_buffer (tcp_stream b')) =
      take (unat (ts_rx_size (tcp_stream b))) (ts_rx_buffer (tcp_stream b)) @ data \<and>
    ts_ack (tcp_stream b') = seq + of_nat (length data)"
  using transfer [OF assms(1-14,16) HOL.refl, of ack window "[]"] assms(15) by (simp add: stream_got_def)

theorem tcp_segment_delivered_witness:
  "\<exists>frame b'. net_send_tcp_window 0 (replicate 6 2) 0x0A000203 80 4000 100 0 0x18 65535 [1, 2, 3] 3 (demo_net 0x0A000202 1) =
      Some (0, apply_counter 0 Tx ((demo_net 0x0A000202 1)\<lparr>next_ip_id := 2, net_world := [frame]\<rparr>)) \<and>
    net_receive_frame 0 frame (of_nat (length frame)) (demo_net 0x0A000203 0x0A000202) = Some b' \<and>
    take (unat (ts_rx_size (tcp_stream b'))) (ts_rx_buffer (tcp_stream b')) = [1, 2, 3]"
proof -
  let ?a = "demo_net 0x0A000202 1" and ?b = "demo_net 0x0A000203 0x0A000202"
  have d: "devices_ok ?a" using demo_ok by (simp add: net_ok_def)
  have n: "next_ip_id ?a = 1" by (simp add: demo_net_def)
  show ?thesis
    using tcp_segment_delivered [OF d _ _ _ _ demo_ok [of "0x0A000203" "0x0A000202"], of 0 net_demo_device "replicate 6 2" "[1, 2, 3]" 0 "0x0A000203" 80 4000 100 0 65535]
    by (simp add: n demo_stream_def) (simp add: net_demo_device_def, blast)
qed

subsection \<open>Names\<close>

text \<open>
  C33. A name the stack asks a name server about is written into the query so that the stack's own reader of
  names gets it back: whenever a query is built, the question section holds the name, with its terminator, and is followed by the four bytes of type and class.
\<close>

theorem dns_query_roundtrip:
  assumes "net_build_dns_query name ident cap = Some (Some (p, n))" and "length name < NET_DNS_NAME_SIZE"
  shows "\<exists>out nxt k. net_dns_read_name p n 12 (replicate NET_DNS_NAME_SIZE 0) NET_DNS_NAME_SIZE = Some (0, out, nxt) \<and>
    nxt + 4 = n \<and> n \<le> length p \<and> take k out = name \<and> k < NET_DNS_NAME_SIZE \<and> out ! k = 0"
  using query_name [OF assms, of "replicate NET_DNS_NAME_SIZE 0"] by (auto simp: okay_iff holds_text_def)

theorem dns_query_roundtrip_witness:
  "\<exists>p n out nxt k. net_build_dns_query (ascii ''a.bc'') 0x1234 32 = Some (Some (p, n)) \<and>
    net_dns_read_name p n 12 (replicate NET_DNS_NAME_SIZE 0) NET_DNS_NAME_SIZE = Some (0, out, nxt) \<and> take k out = ascii ''a.bc'' \<and> out ! k = 0"
proof -
  obtain p n where b: "net_build_dns_query (ascii ''a.bc'') 0x1234 32 = Some (Some (p, n))"
  proof -
    have "case net_build_dns_query (ascii ''a.bc'') 0x1234 32 of Some (Some _) \<Rightarrow> True | _ \<Rightarrow> False" by code_simp
    then show ?thesis using that by (auto split: option.splits)
  qed
  then show ?thesis using dns_query_roundtrip [OF b] by (auto simp: ascii_def)
qed

text \<open>
  C34. The address parser accepts exactly the dotted decimal notation: four decimal numbers of at most 255 with any number of
  leading zeros, separated by single dots, and nothing before or after; its result is the address they spell.
\<close>

theorem net_parse_ipv4_addr_exact:
  assumes "0 \<notin> set txt"
  shows "net_parse_ipv4_addr (Some txt) = Some ip \<longleftrightarrow>
    (\<exists>a b c d. octets a b c d \<and> txt = dotted_address a b c d \<and>
       ip = of_nat (dec_value 0 a * 2 ^ 24 + dec_value 0 b * 2 ^ 16 + dec_value 0 c * 2 ^ 8 + dec_value 0 d))"
  using ipv4_addr_iff [OF assms, of ip] by (simp only: address_of_def)

theorem net_parse_ipv4_addr_exact_witness:
  "net_parse_ipv4_addr (Some (ascii ''10.0.2.15'')) = Some 0x0A00020F"
proof -
  have "\<exists>a b c d. octets a b c d \<and> ascii ''10.0.2.15'' = dotted_address a b c d \<and>
      (0x0A00020F :: u32) = of_nat (dec_value 0 a * 2 ^ 24 + dec_value 0 b * 2 ^ 16 + dec_value 0 c * 2 ^ 8 + dec_value 0 d)"
    by (rule exI [of _ "[49, 48]"], rule exI [of _ "[48]"], rule exI [of _ "[50]"], rule exI [of _ "[49, 53]"])
      (simp add: octets_def is_decimal_def digit_def dotted_address_def ascii_def)
  moreover have "0 \<notin> set (ascii ''10.0.2.15'')" by (simp add: ascii_def)
  ultimately show ?thesis using net_parse_ipv4_addr_exact by blast
qed

text \<open>
  C35. A URL made of a scheme, a host that fits the buffer, an optional port between 1 and 65535 and an optional path is
  taken apart into these parts again; the port defaults to that of the scheme, the path to the root, and
  the address is filled in when the host is one.
\<close>

theorem net_parse_url_parts:
  assumes "host_text h" and "length h < cap" and "port_ok p" and "path = [] \<or> hd path = 47"
  shows "net_parse_url (scheme b @ h @ port_text p @ path) cap =
    Some \<lparr>pu_ip = (case net_hostname_is_ipv4 h of None \<Rightarrow> 0 | Some ip \<Rightarrow> ip), pu_port = port_of b p, pu_host = h,
      pu_path = (if path = [] then ascii ''/'' else path), pu_is_https = b\<rparr>"
  using assms by (rule url_parse)

theorem net_parse_url_parts_witness:
  "net_parse_url (ascii ''http://a.b:8080/x'') 256 = Some \<lparr>pu_ip = 0, pu_port = 8080, pu_host = ascii ''a.b'', pu_path = ascii ''/x'', pu_is_https = False\<rparr>"
  using net_parse_url_parts [of "ascii ''a.b''" 256 "Some (ascii ''8080'')" "ascii ''/x''" False]
  by (simp add: host_text_def port_ok_def is_decimal_def digit_def scheme_def port_text_def port_of_def ascii_def
      net_hostname_is_ipv4_def net_parse_ipv4_def net_parse_dec_octet_def)

subsection \<open>HTTP bodies\<close>

text \<open>
  C32. A chunked body is decoded in place to its data: for any division into chunks, any spelling of the
  sizes, any chunk extensions and any trailer, the decoder returns 0, reports the size of the data and leaves the data at the start of the buffer, when
  the buffer has room for it and a terminator.
\<close>

theorem net_http_decode_chunked_correct:
  assumes "list_all chunk_ok cs" and "size_line h ext 0" and "length (chunks_data cs) < unat cap"
    and "length (chunked_body cs h ext trailer) < 2 ^ 32"
  shows "\<exists>b. net_http_decode_chunked (Some (chunked_body cs h ext trailer @ post)) (of_nat (length (chunked_body cs h ext trailer))) cap =
      Some (0, b, length (chunks_data cs)) \<and> take (length (chunks_data cs)) b = chunks_data cs"
  using assms by (rule decode_chunked)

theorem net_http_decode_chunked_correct_witness:
  "\<exists>b. net_http_decode_chunked (Some (ascii ''3'' @ [13, 10] @ ascii ''abc'' @ [13, 10] @ ascii ''2;x'' @ [13, 10] @ ascii ''de'' @ [13, 10] @ ascii ''0'' @ [13, 10, 13, 10])) 22 16 =
      Some (0, b, 5) \<and> take 5 b = ascii ''abcde''"
proof -
  let ?cs = "[(ascii ''3'', [13], ascii ''abc''), (ascii ''2'', ascii '';x'' @ [13], ascii ''de'')]"
  have "list_all chunk_ok ?cs" "size_line (ascii ''0'') [13] 0"
    by (simp_all add: chunk_ok_def size_line_def ascii_def hex_number_def net_http_hex_value_def)
  note this = net_http_decode_chunked_correct [OF this, of 16 "[13, 10]" "[]"]
  moreover have "chunks_data ?cs = ascii ''abcde''" "length (ascii ''abcde'') = 5" by (simp_all add: chunks_data_def ascii_def)
  moreover have "chunked_body ?cs (ascii ''0'') [13] [13, 10] = ascii ''3'' @ [13, 10] @ ascii ''abc'' @ [13, 10] @ ascii ''2;x'' @ [13, 10] @ ascii ''de'' @ [13, 10] @ ascii ''0'' @ [13, 10, 13, 10]"
    (is "_ = ?body") by (simp add: chunked_body_def chunk_bytes_def ascii_def)
  moreover have "length ?body = 22" by (simp add: ascii_def)
  ultimately show ?thesis by (simp only: append_Nil2) simp
qed

end
