(* ===== verification/Spec2Isabelle.thy ===== *)
theory Spec2Isabelle
  imports Storage_Props Lainfs_Faults Boot_Props Settings_Props Libc_Props Net_Props
begin

text \<open>
  LainOS: the storage stack, the memory allocators, the network stack and the services built on them.

  \<^bold>\<open>The program.\<close> LainOS is a hobby operating system for x86-64 written in C. \<^verbatim>\<open>kernel_main\<close>
  sets up memory (\<^verbatim>\<open>dma_init\<close>, \<^verbatim>\<open>kmem_init\<close>), registers block devices and scans their partitions
  (\<^verbatim>\<open>storage.c\<close>), mounts a LainFS file system (\<^verbatim>\<open>lainfs.c\<close>), fills the settings registry
  (\<^verbatim>\<open>registry.c\<close>) from a file on it (\<^verbatim>\<open>shell.c\<close>) and enters the shell. Everything that allocates uses
  \<^verbatim>\<open>kmem.c\<close>, in C library style through \<^verbatim>\<open>libc.c\<close>.

  \<^bold>\<open>Conventions.\<close> A fixed-width unsigned integer is a word of that width and wraps as in C; an \<^verbatim>\<open>int\<close> status
  is an \<open>int\<close>. A C string argument is a list of bytes up to its first zero byte or its end; \<open>cstr\<close> is the string.
  A static variable is a field of a state record and every operation passes the state on. A function
  that may fail to return (a spin lock that is held, a walk through a cyclic chain) has an \<open>option\<close> result,
  with \<open>None\<close> for a run that does not end; the properties prove \<open>Some\<close>. Operations run one at a time:
  interrupts and other cores are not modelled, a held lock is.

  \<^bold>\<open>Shared theories.\<close> \<open>Prelude\<close>: words, byte buffers, little-endian fields. \<open>Phys_Mem\<close>: physical memory as a
  function from 64-bit addresses to bytes, the boot information record.

  \<^bold>\<open>Storage layer\<close> (\<^verbatim>\<open>drivers/storage.c\<close>). \<open>Storage\<close> holds the device, partition and mount
  tables as records, MBR and GPT discovery, mounting, and access to devices and partitions, one definition per C
  function; a device driver is a pair of functions stored in the device record, as in C. \<open>Storage_Inv\<close> and
  \<open>Storage_Props\<close>: every operation keeps partitions inside their devices and mounts on registered
  partitions. \<open>Block_Driver\<close> states the contract of a driver as the locale \<open>block_driver\<close> (reads return
  and writes replace exactly the addressed blocks) and derives what reading and writing through a
  partition do; \<open>Ramdisk\<close> models the ramdisk and proves that it meets the contract. \<open>Ata\<close> models the ATA driver over
  the port instructions as a parameter; what it relies on of the disk is the locale \<open>ata_disk\<close>, the register behaviour of the ATA standard,
  and a sublocale declaration proves that the driver then meets the contract too. \<open>Ata_Demo\<close> interprets \<open>ata_disk\<close> on an
  emulated disk, which shows that its laws can hold together, and has the property of the driver.

  \<^bold>\<open>LainFS\<close> (\<^verbatim>\<open>fs/lainfs.c\<close>). \<open>Lainfs_Dirent\<close>: superblock, directory entries, extents and their encoding.
  \<open>Lainfs_Check\<close>: the directory checker and repair. \<open>Lainfs_Valid\<close>: what a valid directory is, and
  that the checker decides it. \<open>Lainfs_Alloc\<close>: the block allocator and the ancestor walk. \<open>Lainfs_Cache\<close>: the block, superblock and
  directory caches over a partition. \<open>Lainfs_Ops\<close> and \<open>Lainfs_Files\<close>: the exported operations. On the proof side,
  \<open>Lainfs_Coherence\<close> and \<open>Lainfs_Dircache\<close> show that the caches are transparent; \<open>Lainfs_Dirops\<close>,
  \<open>Lainfs_Spec\<close> and \<open>Lainfs_File_Spec\<close> give the operations on a directory as a plain list and prove that the
  code refines them, inside the locale of the driver; \<open>Lainfs_Durable\<close> shows that after a flush the blocks of the drive
  determine the file system, which is what a kernel that starts finds on a drive that keeps its blocks (a hard disk;
  the ramdisk is cleared by \<^verbatim>\<open>storage_init\<close>); \<open>Lainfs_Demo\<close> is a concrete machine for the witnesses. \<open>Lainfs_Props\<close> has the properties: on the
  ramdisk, and for every driver with the contract where they are about what a flush leaves on the drive.
  \<open>Lainfs_Faults\<close> has two sequences of calls in which the code loses directory entries.

  \<^bold>\<open>Memory\<close> (\<^verbatim>\<open>core/kmem.c\<close>, \<^verbatim>\<open>core/dma.c\<close>). \<open>Kmem_Pages\<close>: the table of at most 128 free ranges,
  page allocation and release. \<open>Kmem_Ranges\<close> and \<open>Kmem_Inv\<close>: the table as a set of free bytes,
  and the interpretation of the locale \<open>page_source\<close> (theory \<open>Page_Source\<close>), from which the safety of any
  sequence of calls follows. \<open>Kmem_Heap\<close>: the small-block classes and large blocks with headers, guards and
  free lists in memory. \<open>Kmem_Blocks\<close>, \<open>Kmem_Heap_Inv\<close>, \<open>Kmem_Heap_Ops\<close>, \<open>Kmem_Heap_Free\<close>: the layout invariant of the heap and
  what each operation does to it. \<open>Kmem_Init\<close>, \<open>Dma\<close>, \<open>Boot_Memory\<close>: initialisation from the EFI memory
  map and the DMA pool. Properties: \<open>Kmem_Props\<close>, \<open>Kmem_Heap_Props\<close>, \<open>Boot_Props\<close>. The initialisation theorems are for at
  most 123 conventional descriptors: each of the five reservations can split one range and the table has 128
  entries; \<open>reserve_range_full_table\<close> shows what happens beyond that.

  \<^bold>\<open>Settings\<close> (\<^verbatim>\<open>core/registry.c\<close>, \<^verbatim>\<open>ui/shell.c\<close>). \<open>Registry\<close> is the table of settings; \<open>Registry_Spec\<close>
  shows that it implements a finite map and interprets the locale \<open>settings_store\<close> (theory \<open>Settings_Store\<close>) whose
  client is the loader; \<open>Registry_Numbers\<close> is number parsing. \<open>Shell_Registry\<close> and \<open>Settings_File\<close>: the settings file, its
  text, printing and reading. \<open>Settings_Props\<close> composes them with LainFS: saved settings are loaded again from a drive that keeps its blocks.

  \<^bold>\<open>C library\<close> (\<^verbatim>\<open>core/libc.c\<close>). \<open>Libc_Memory\<close>: block and string operations on memory.
  \<open>Libc_Alloc\<close>: \<^verbatim>\<open>malloc\<close>, \<^verbatim>\<open>calloc\<close>, \<^verbatim>\<open>realloc\<close>, \<^verbatim>\<open>free\<close> and \<^verbatim>\<open>strdup\<close> over the heap. \<open>Libc_Number\<close>: \<^verbatim>\<open>strtol\<close> and \<^verbatim>\<open>strtoul\<close>
  on a 64-bit accumulator, equal to reading over unbounded integers, and the digits of \<^verbatim>\<open>libc_format_uint\<close>. \<open>Libc_Time\<close>: \<^verbatim>\<open>gmtime_r\<close> and
  \<^verbatim>\<open>mktime\<close> with overflow of C's \<^verbatim>\<open>int\<close> and \<^verbatim>\<open>int64_t\<close> as the result \<open>None\<close>, every loop shown to end; they agree with a calendar
  over unbounded integers, and are inverse to each other, as long as the year fits. \<open>Libc_Props\<close>: the properties.

  \<^bold>\<open>Network\<close> (\<^verbatim>\<open>drivers/net.c\<close>). \<open>Net_Bytes\<close>: loads and stores in byte arrays that fail outside the array, byte order, the Internet checksum; \<open>okay\<close> is
  the weakest precondition of such code. \<open>Net_State\<close>: devices, waiting records, connections and configuration as one state; a driver is a pair
  of functions on a world of its own, so the properties hold for every driver. \<open>Net_Send\<close>: ARP, UDP and TCP frames with their layout.
  \<open>Net_Tcp\<close>, \<open>Net_Dns\<close>, \<open>Net_Http\<close>, \<open>Net_Receive\<close>: the handlers of received frames, down to DHCP options, DNS names and HTTP headers.
  \<open>Net_Stream\<close>: the locale \<open>ordered_receiver\<close> of a receiver that takes segments in any order, interpreted on the stream, and sessions as a step relation.
  \<open>Net_Transfer\<close> joins sender and receiver. \<open>Net_Names\<close>, \<open>Net_Url\<close>, \<open>Net_Chunked\<close> and \<open>Net_Chunked_Spec\<close>: host names in queries, addresses and URLs,
  the chunked transfer coding. \<open>Net_Props\<close>: the properties.

  \<^bold>\<open>Not modelled.\<close> Code whose behaviour is that of a device: port and memory-mapped I/O (AHCI and with it \<^verbatim>\<open>storage_init\<close>, e1000, USB, PCI,
  keyboard, mouse, timer, ACPI), the framebuffer console and graphics; the UEFI boot loader; the interactive shell, desktop, editor
  and browser; floating point and formatted output of the C library; the TLS stack and the decompression of HTTP bodies; the Z compiler, assembler and
  linker; the host tools. Interrupts and other cores are not modelled, so the locks matter only as state.
\<close>

end
